(* ===== verification/RedXe_Prelude.thy ===== *)
theory RedXe_Prelude
  imports Main "HOL-Library.Word" "HOL-Library.Signed_Division"
begin

text \<open>
  Shared vocabulary of the development: the machine integers the code uses, the Win32 value
  types (\<open>RECT\<close>, \<open>POINT\<close>, \<open>SIZE\<close>) every geometry header passes around, the conversions
  between \<open>UINT\<close>/\<open>uint32_t\<close> and \<open>LONG\<close>, C++ integer division, and the contract of the one
  Win32 arithmetic routine the code calls, \<open>MulDiv\<close>, which is a parameter of the model.

  Conventions of the whole development:
  \<^item> \<open>uint8_t\<close>, \<open>uint16_t\<close>, \<open>uint32_t\<close>/\<open>UINT\<close>/\<open>DWORD\<close> and \<open>uint64_t\<close> are words of their width;
  \<^item> \<open>LONG\<close> and \<open>int\<close> values are \<open>int\<close>: signed overflow has no defined behaviour in the source,
    so the model gives the mathematical value, and a cast from an unsigned type is \<open>sint\<close>;
  \<^item> \<open>size_t\<close> values that index or count are \<open>nat\<close>, and \<open>SIZE_MAX\<close> as "no index" is \<open>None\<close>;
  \<^item> a function that returns \<open>bool\<close> and writes an out parameter is option-valued: \<open>None\<close> is the
    \<open>false\<close> return, after which no caller reads the out parameter;
  \<^item> \<open>std::string_view\<close> is \<open>string\<close> (a \<open>char\<close> is a byte).
\<close>

section \<open>Machine integers\<close>

type_synonym u8 = "8 word"
type_synonym u16 = "16 word"
type_synonym u32 = "32 word"
type_synonym u64 = "64 word"

text \<open>Widening keeps the value.\<close>

lemma unat_ucast_u64: "unat (ucast (a :: u32) :: u64) = unat a"
  by transfer (simp add: take_bit_int_eq_self_iff order_less_le_trans [OF take_bit_int_less_exp])

lemma unat_less_u32: "unat (a :: u32) < 2 ^ 32"
  using unsigned_less [of a, where ?'a = nat] by simp

lemma unat_ucast_u32: "unat (a :: u64) < 2 ^ 32 \<Longrightarrow> unat (ucast a :: u32) = unat a"
  by (simp add: unsigned_ucast_eq take_bit_nat_eq_self)

lemma unat_of_nat_u64: "n < 2 ^ 64 \<Longrightarrow> unat (of_nat n :: u64) = n"
  by (simp add: unat_of_nat take_bit_nat_eq_self)

lemma of_nat_eq_u64: "n < 2 ^ 64 \<Longrightarrow> w = (of_nat n :: u64) \<longleftrightarrow> unat w = n"
  using unat_of_nat_u64 [of n] by (auto simp: word_eq_iff_unsigned [where ?'a = nat])

lemma unat_of_nat_u16: "n < 2 ^ 16 \<Longrightarrow> unat (of_nat n :: u16) = n"
  by (simp add: unat_of_nat take_bit_nat_eq_self)

lemma unat_ucast_u16: "unat (w :: 'a::len word) < 2 ^ 16 \<Longrightarrow> unat (ucast w :: u16) = unat w"
  by (simp add: unsigned_ucast_eq take_bit_nat_eq_self)

lemma le_mult_pos: "0 < k \<Longrightarrow> (n::nat) \<le> n * k"
  by (cases k) simp_all

text \<open>Collections of facts the component proofs share.\<close>

named_theorems geom_simps "rectangle arithmetic unfolded to its four coordinates"
named_theorems char_simps "character classes as inequalities on byte values"

text \<open>C++ division on signed integers truncates towards zero.\<close>

lemma sdiv_nonneg: "0 \<le> a \<Longrightarrow> 0 < b \<Longrightarrow> a sdiv b = a div (b :: int)"
  by (cases "a = 0") (simp_all add: signed_divide_int_def sgn_if)

lemma sdiv_neg: "a < 0 \<Longrightarrow> 0 < b \<Longrightarrow> a sdiv b = - ((- a) div (b :: int))"
  by (simp add: signed_divide_int_def)

lemma sdiv_minus: "0 < b \<Longrightarrow> (- a) sdiv b = - (a sdiv (b :: int))"
  by (simp add: signed_divide_int_def)

lemma sdiv_mono:
  assumes "0 < (b :: int)" and "x \<le> y"
  shows "x sdiv b \<le> y sdiv b"
proof (cases "0 \<le> x")
  case True
  with assms show ?thesis by (simp add: sdiv_nonneg zdiv_mono1)
next
  case x: False
  show ?thesis
  proof (cases "0 \<le> y")
    case True
    with x assms have "x sdiv b \<le> 0" "0 \<le> y sdiv b"
      by (simp_all add: sdiv_nonneg sdiv_neg pos_imp_zdiv_nonneg_iff)
    then show ?thesis by simp
  next
    case False
    with x assms show ?thesis by (simp add: sdiv_neg zdiv_mono1)
  qed
qed

lemma sdiv_abs_le: "0 < (b :: int) \<Longrightarrow> \<bar>a sdiv b\<bar> \<le> \<bar>a\<bar>"
proof -
  assume b: "0 < b"
  have "\<bar>a\<bar> div b \<le> \<bar>a\<bar>"
    using b by (metis abs_ge_zero div_by_1 int_one_le_iff_zero_less zdiv_mono2 zero_less_one)
  moreover have "\<bar>a sdiv b\<bar> = \<bar>a\<bar> div b"
    using b by (cases "0 \<le> a") (simp_all add: sdiv_nonneg sdiv_neg pos_imp_zdiv_nonneg_iff)
  ultimately show ?thesis by simp
qed

text \<open>\<open>std::clamp(x, lo, hi)\<close>; the code calls it with \<open>lo \<le> hi\<close> (otherwise it is undefined).\<close>

definition clamp_to :: "'a :: linorder \<Rightarrow> 'a \<Rightarrow> 'a \<Rightarrow> 'a" where
  "clamp_to x lo hi = (if x < lo then lo else if hi < x then hi else x)"

lemma clamp_to_bounds:
  "lo \<le> hi \<Longrightarrow> lo \<le> clamp_to x lo hi" "lo \<le> hi \<Longrightarrow> clamp_to x lo hi \<le> hi"
  by (auto simp: clamp_to_def)

lemma clamp_to_id: "lo \<le> x \<Longrightarrow> x \<le> hi \<Longrightarrow> clamp_to x lo hi = x"
  by (auto simp: clamp_to_def)

lemma clamp_to_mono: "lo \<le> hi \<Longrightarrow> x \<le> y \<Longrightarrow> clamp_to x lo hi \<le> clamp_to y lo hi"
  by (auto simp: clamp_to_def)

text \<open>\<open>static_cast<int>(value)\<close> and \<open>static_cast<LONG>(value)\<close> of a \<open>uint32_t\<close>.\<close>

definition long_of_u32 :: "u32 \<Rightarrow> int" where
  "long_of_u32 v = sint v"

lemma long_of_u32_small: "unat v < 2 ^ 31 \<Longrightarrow> long_of_u32 v = int (unat v)"
proof -
  assume "unat v < 2 ^ 31"
  then have "int (unat v) < int (2 ^ 31)" by (simp only: of_nat_less_iff)
  then have "uint v < 2 ^ 31" by simp
  moreover have "- (2 ^ 31) \<le> uint v" by (rule order_trans [of _ 0]) simp_all
  ultimately show ?thesis
    by (simp add: long_of_u32_def sint_uint signed_take_bit_int_eq_self)
qed

text \<open>\<open>static_cast<uint32_t>(value)\<close> of a \<open>LONG\<close>.\<close>

definition u32_of_long :: "int \<Rightarrow> u32" where
  "u32_of_long n = word_of_int n"

lemma unat_u32_of_long: "0 \<le> n \<Longrightarrow> n < 2 ^ 32 \<Longrightarrow> unat (u32_of_long n) = nat n"
  by (simp add: u32_of_long_def unat_eq_nat_uint unsigned_of_int take_bit_int_eq_self)

lemma long_of_u32_of_long: "0 \<le> n \<Longrightarrow> n < 2 ^ 31 \<Longrightarrow> long_of_u32 (u32_of_long n) = n"
  using unat_u32_of_long [of n] by (subst long_of_u32_small) (auto simp del: of_nat_unat)

text \<open>
  \<open>dpi == 0 ? USER_DEFAULT_SCREEN_DPI : static_cast<int>(dpi)\<close>, the first line of every routine that
  scales by a monitor's DPI.
\<close>

definition scale_dpi :: "u32 \<Rightarrow> int" where
  "scale_dpi dpi = (if dpi = 0 then 96 else long_of_u32 dpi)"

lemma scale_dpi_pos:
  assumes "unat dpi < 2 ^ 31"
  shows "0 < scale_dpi dpi"
proof (cases "dpi = 0")
  case True
  then show ?thesis by (simp add: scale_dpi_def)
next
  case False
  then have "0 < unat dpi" by (simp add: unat_gt_0)
  with False assms show ?thesis by (simp add: scale_dpi_def long_of_u32_small del: of_nat_unat)
qed

lemma scale_dpi_less:
  assumes "unat dpi < n" and "96 < n" and "n \<le> 2 ^ 31"
  shows "scale_dpi dpi < int n"
proof -
  have "long_of_u32 dpi = int (unat dpi)"
    using assms by (intro long_of_u32_small) simp
  then show ?thesis using assms by (simp add: scale_dpi_def del: of_nat_unat)
qed

section \<open>The Win32 value types\<close>

record RECT =
  rleft :: int
  rtop :: int
  rright :: int
  rbottom :: int

record POINT =
  px :: int
  py :: int

record SIZE =
  cx :: int
  cy :: int

text \<open>\<open>RECT{l, t, r, b}\<close>, and the value-initialised \<open>RECT{}\<close>.\<close>

definition mkrect :: "int \<Rightarrow> int \<Rightarrow> int \<Rightarrow> int \<Rightarrow> RECT" where
  "mkrect l t r b = \<lparr>rleft = l, rtop = t, rright = r, rbottom = b\<rparr>"

abbreviation empty_rect :: RECT where
  "empty_rect \<equiv> mkrect 0 0 0 0"

definition mkpoint :: "int \<Rightarrow> int \<Rightarrow> POINT" where
  "mkpoint x y = \<lparr>px = x, py = y\<rparr>"

definition rect_width :: "RECT \<Rightarrow> int" where
  "rect_width r = rright r - rleft r"

definition rect_height :: "RECT \<Rightarrow> int" where
  "rect_height r = rbottom r - rtop r"

definition rect_nonempty :: "RECT \<Rightarrow> bool" where
  "rect_nonempty r \<longleftrightarrow> rleft r < rright r \<and> rtop r < rbottom r"

text \<open>The points of a rectangle: left and top inclusive, right and bottom exclusive.\<close>

definition rect_mem :: "POINT \<Rightarrow> RECT \<Rightarrow> bool" where
  "rect_mem p r \<longleftrightarrow> rleft r \<le> px p \<and> px p < rright r \<and> rtop r \<le> py p \<and> py p < rbottom r"

definition rect_within :: "RECT \<Rightarrow> RECT \<Rightarrow> bool" where
  "rect_within a b \<longleftrightarrow>
     rleft b \<le> rleft a \<and> rtop b \<le> rtop a \<and> rright a \<le> rright b \<and> rbottom a \<le> rbottom b"

lemma mkrect_sel [simp]:
  "rleft (mkrect l t r b) = l" "rtop (mkrect l t r b) = t"
  "rright (mkrect l t r b) = r" "rbottom (mkrect l t r b) = b"
  by (simp_all add: mkrect_def)

lemma mkpoint_sel [simp]: "px (mkpoint x y) = x" "py (mkpoint x y) = y"
  by (simp_all add: mkpoint_def)

lemma rect_eqI:
  "rleft a = rleft b \<Longrightarrow> rtop a = rtop b \<Longrightarrow> rright a = rright b \<Longrightarrow> rbottom a = rbottom b
   \<Longrightarrow> a = (b :: RECT)"
  by (cases a; cases b) simp

lemma rect_eq_iff:
  "(a :: RECT) = b \<longleftrightarrow>
     rleft a = rleft b \<and> rtop a = rtop b \<and> rright a = rright b \<and> rbottom a = rbottom b"
  by (auto intro: rect_eqI)

lemma point_eqI: "px a = px b \<Longrightarrow> py a = py b \<Longrightarrow> a = (b :: POINT)"
  by (cases a; cases b) simp

lemmas [geom_simps] = rect_width_def rect_height_def rect_nonempty_def rect_mem_def rect_within_def

lemma rect_within_refl: "rect_within r r"
  by (simp add: geom_simps)

lemma rect_within_trans: "rect_within a b \<Longrightarrow> rect_within b c \<Longrightarrow> rect_within a c"
  by (simp add: geom_simps)

lemma rect_mem_within: "rect_mem p a \<Longrightarrow> rect_within a b \<Longrightarrow> rect_mem p b"
  by (simp add: geom_simps)

section \<open>MulDiv\<close>

text \<open>
  \<open>MulDiv\<close> is a Win32 routine, so it is an argument of every definition that calls it. What the
  code relies on is the documented behaviour on non-negative operands: the 64-bit product divided
  by the third operand and rounded to the nearest integer, where the result fits 32 bits.
\<close>

type_synonym muldiv = "int \<Rightarrow> int \<Rightarrow> int \<Rightarrow> int"

definition documented_muldiv :: "muldiv \<Rightarrow> bool" where
  "documented_muldiv md \<longleftrightarrow>
     (\<forall>a b c. 0 \<le> a \<longrightarrow> 0 \<le> b \<longrightarrow> 0 < c \<longrightarrow> (2 * a * b + c) div (2 * c) < 2 ^ 31 \<longrightarrow>
        md a b c = (2 * a * b + c) div (2 * c))"

text \<open>An instance of the contract, for concrete evaluations: -1 where the result does not fit.\<close>

definition muldiv_ref :: muldiv where
  "muldiv_ref a b c =
     (if c = 0 then -1
      else let q = (2 * \<bar>a\<bar> * \<bar>b\<bar> + \<bar>c\<bar>) div (2 * \<bar>c\<bar>)
           in if q < 2 ^ 31 then sgn a * sgn b * sgn c * q else -1)"

lemma muldiv_ref_documented: "documented_muldiv muldiv_ref"
  unfolding documented_muldiv_def muldiv_ref_def Let_def
  by (auto simp: sgn_if)

lemma documented_muldivD:
  assumes "documented_muldiv md" and "0 \<le> a" and "0 \<le> b" and "0 < c"
    and "(2 * a * b + c) div (2 * c) < 2 ^ 31"
  shows "md a b c = (2 * a * b + c) div (2 * c)"
  using assms unfolding documented_muldiv_def by blast

text \<open>Floor division and rounding to the nearest integer, as comparisons of products.\<close>

lemma zdiv_le_iff:
  assumes "0 < (y :: int)"
  shows "x div y \<le> k \<longleftrightarrow> x < (k + 1) * y"
proof
  assume "x div y \<le> k"
  then have "x div y * y \<le> k * y" using assms by (simp add: mult_right_mono)
  moreover have "x = x div y * y + x mod y" by simp
  moreover have "x mod y < y" using assms by simp
  ultimately show "x < (k + 1) * y" unfolding distrib_right by linarith
next
  assume "x < (k + 1) * y"
  moreover have "x div y * y \<le> x"
    using assms by (metis div_mult_mod_eq le_add_same_cancel1 pos_mod_sign)
  ultimately have "x div y * y < (k + 1) * y" by simp
  then have "x div y < k + 1" using assms by (simp add: mult_less_cancel_right)
  then show "x div y \<le> k" by simp
qed

lemma zle_div_iff:
  assumes "0 < (y :: int)"
  shows "k \<le> x div y \<longleftrightarrow> k * y \<le> x"
proof -
  have "k \<le> x div y \<longleftrightarrow> \<not> x div y \<le> k - 1" by auto
  then show ?thesis by (simp only: zdiv_le_iff [OF assms]) (auto simp: not_less)
qed

lemma round_div_nonneg: "0 < (c :: int) \<Longrightarrow> 0 \<le> n \<Longrightarrow> 0 \<le> (2 * n + c) div (2 * c)"
  by (simp add: pos_imp_zdiv_nonneg_iff)

lemma round_div_le_iff:
  assumes "0 < (c :: int)"
  shows "(2 * n + c) div (2 * c) \<le> k \<longleftrightarrow> 2 * n < (2 * k + 1) * c"
  using assms by (simp add: zdiv_le_iff algebra_simps)

lemma le_round_div_iff:
  assumes "0 < (c :: int)"
  shows "k \<le> (2 * n + c) div (2 * c) \<longleftrightarrow> (2 * k - 1) * c \<le> 2 * n"
  using assms by (simp add: zle_div_iff algebra_simps)

end
