(* ===== verification/Dock_Geometry.thy ===== *)
theory Dock_Geometry
  imports RedXe_Prelude
begin

text \<open>
  The rectangle and integer part of \<open>RedXe/DockPlacement.h\<close>: the screen edges, the thickness of a
  bar in pixels and its clamp, the first-run bar, the rectangles of the full bar, of its peek strip,
  of the grip and of the resize band, the slide's duration and offsets, the drag and MINMAXINFO.
\<close>

section \<open>Edges, modes and settings ranges\<close>

datatype DockEdge = EdgeNone | EdgeTop | EdgeBottom | EdgeLeft | EdgeRight

datatype DockMode = ModeFixed | ModeAutohide

definition kDockMinimumThicknessDips :: u32 where "kDockMinimumThicknessDips = 32"
definition kDockMaximumThicknessDips :: u32 where "kDockMaximumThicknessDips = 1080"
definition kDockDefaultThicknessDips :: u32 where "kDockDefaultThicknessDips = 180"
definition kDockMinimumPeekPixels :: u32 where "kDockMinimumPeekPixels = 1"
definition kDockMaximumPeekPixels :: u32 where "kDockMaximumPeekPixels = 64"
definition kDockDefaultPeekPixels :: u32 where "kDockDefaultPeekPixels = 4"

definition kDockDefaultMonitor :: string where "kDockDefaultMonitor = ''primary''"
definition kDockSecondaryMonitor :: string where "kDockSecondaryMonitor = ''secondary''"

definition DockEdgeParse :: "string \<Rightarrow> DockEdge option" where
  "DockEdgeParse text =
     (if text = ''none'' then Some EdgeNone
      else if text = ''top'' then Some EdgeTop
      else if text = ''bottom'' then Some EdgeBottom
      else if text = ''left'' then Some EdgeLeft
      else if text = ''right'' then Some EdgeRight
      else None)"

fun DockEdgeName :: "DockEdge \<Rightarrow> string" where
  "DockEdgeName EdgeTop = ''top''"
| "DockEdgeName EdgeBottom = ''bottom''"
| "DockEdgeName EdgeLeft = ''left''"
| "DockEdgeName EdgeRight = ''right''"
| "DockEdgeName EdgeNone = ''none''"

definition DockModeParse :: "string \<Rightarrow> DockMode option" where
  "DockModeParse text =
     (if text = ''fixed'' then Some ModeFixed
      else if text = ''autohide'' then Some ModeAutohide
      else None)"

definition DockEdgeIsHorizontal :: "DockEdge \<Rightarrow> bool" where
  "DockEdgeIsHorizontal edge \<longleftrightarrow> edge = EdgeTop \<or> edge = EdgeBottom"

text \<open>The ABE_* value of \<open>SHAppBarMessage\<close>.\<close>

fun DockAppBarEdge :: "DockEdge \<Rightarrow> u32" where
  "DockAppBarEdge EdgeTop = 1"
| "DockAppBarEdge EdgeBottom = 3"
| "DockAppBarEdge EdgeLeft = 0"
| "DockAppBarEdge EdgeRight = 2"
| "DockAppBarEdge EdgeNone = 3"

lemma DockEdgeIsHorizontal_simps [simp]:
  "DockEdgeIsHorizontal EdgeTop" "DockEdgeIsHorizontal EdgeBottom"
  "\<not> DockEdgeIsHorizontal EdgeLeft" "\<not> DockEdgeIsHorizontal EdgeRight"
  "\<not> DockEdgeIsHorizontal EdgeNone"
  by (simp_all add: DockEdgeIsHorizontal_def)

section \<open>Thickness\<close>

definition DockThicknessPixels :: "muldiv \<Rightarrow> u32 \<Rightarrow> u32 \<Rightarrow> int" where
  "DockThicknessPixels md thicknessDips dpi =
     max 1 (md (long_of_u32 thicknessDips) (scale_dpi dpi) 96)"

text \<open>\<open>DockClampThickness\<close> returns the clamped thickness and reports in \<open>clamped\<close> whether it cut it.\<close>

definition DockClampThickness :: "int \<Rightarrow> RECT \<Rightarrow> DockEdge \<Rightarrow> int \<times> bool" where
  "DockClampThickness thicknessPx monitor edge =
     (let cross = (if DockEdgeIsHorizontal edge then rbottom monitor - rtop monitor
                   else rright monitor - rleft monitor);
          limit = (if cross > 1 then cross sdiv 2 else 1);
          clamped = thicknessPx > limit;
          result = (if clamped then limit else thicknessPx)
      in (if result < 1 then 1 else result, clamped))"

definition kDockDesignLongSideDips :: int where "kDockDesignLongSideDips = 2560"
definition kDockDesignShortSideDips :: int where "kDockDesignShortSideDips = 720"

definition DockFirstRunThicknessDips :: "muldiv \<Rightarrow> RECT \<Rightarrow> RECT \<Rightarrow> DockEdge \<Rightarrow> u32 \<Rightarrow> u32" where
  "DockFirstRunThicknessDips md monitor work edge dpi =
     (let span = (if DockEdgeIsHorizontal edge then rright work - rleft work
                  else rbottom work - rtop work);
          pixels = fst (DockClampThickness
                          (max 1 (md span kDockDesignShortSideDips kDockDesignLongSideDips))
                          monitor edge);
          dips = (pixels * 96) sdiv scale_dpi dpi
      in u32_of_long (clamp_to dips (long_of_u32 kDockMinimumThicknessDips)
                                    (long_of_u32 kDockMaximumThicknessDips)))"

definition DockFirstRunOffered :: "bool \<Rightarrow> bool \<Rightarrow> bool \<Rightarrow> bool \<Rightarrow> bool" where
  "DockFirstRunOffered discoverySucceeded xeneonFound settingsFileGiven remoteSession \<longleftrightarrow>
     discoverySucceeded \<and> \<not> xeneonFound \<and> \<not> settingsFileGiven \<and> \<not> remoteSession"

definition DockFirstRunMonitor :: "nat \<Rightarrow> string" where
  "DockFirstRunMonitor displayCount =
     (if displayCount > 1 then kDockSecondaryMonitor else kDockDefaultMonitor)"

definition DockDisplayTouchesEdge :: "RECT \<Rightarrow> RECT \<Rightarrow> DockEdge \<Rightarrow> bool" where
  "DockDisplayTouchesEdge monitor other edge =
     (let overlaps = rleft other < rright monitor \<and> rleft monitor < rright other
      in case edge of
           EdgeTop \<Rightarrow> overlaps \<and> rbottom other = rtop monitor
         | EdgeBottom \<Rightarrow> overlaps \<and> rtop other = rbottom monitor
         | _ \<Rightarrow> False)"

text \<open>The \<open>rank\<close> lambda of \<open>DockFirstRunEdge\<close>: shared 0, taken 1, free 2.\<close>

definition first_run_rank :: "bool \<Rightarrow> bool \<Rightarrow> int" where
  "first_run_rank taken shared = (if shared then 0 else if taken then 1 else 2)"

definition DockFirstRunEdge :: "RECT \<Rightarrow> RECT \<Rightarrow> bool \<Rightarrow> bool \<Rightarrow> bool \<Rightarrow> bool \<Rightarrow> DockEdge" where
  "DockFirstRunEdge monitor work autohideTop autohideBottom sharedTop sharedBottom =
     (let top_rank = first_run_rank (rtop work > rtop monitor \<or> autohideTop) sharedTop;
          bottom_rank = first_run_rank (rbottom work < rbottom monitor \<or> autohideBottom) sharedBottom
      in if bottom_rank \<ge> top_rank then EdgeBottom else EdgeTop)"

text \<open>\<open>IsWindow\<close> is the window manager's, so it is an argument; \<open>None\<close> is the null handle.\<close>

definition DockAutohideBarHoldsEdge :: "('hwnd \<Rightarrow> bool) \<Rightarrow> 'hwnd option \<Rightarrow> bool" where
  "DockAutohideBarHoldsEdge is_window bar =
     (case bar of None \<Rightarrow> False | Some h \<Rightarrow> is_window h)"

section \<open>Bar, strip and overlay rectangles\<close>

definition DockTrimToThickness :: "RECT \<Rightarrow> DockEdge \<Rightarrow> int \<Rightarrow> RECT" where
  "DockTrimToThickness bounds edge thicknessPx =
     (case edge of
        EdgeTop \<Rightarrow> bounds\<lparr>rbottom := rtop bounds + thicknessPx\<rparr>
      | EdgeBottom \<Rightarrow> bounds\<lparr>rtop := rbottom bounds - thicknessPx\<rparr>
      | EdgeLeft \<Rightarrow> bounds\<lparr>rright := rleft bounds + thicknessPx\<rparr>
      | EdgeRight \<Rightarrow> bounds\<lparr>rleft := rright bounds - thicknessPx\<rparr>
      | EdgeNone \<Rightarrow> bounds)"

definition DockOverlayRect :: "RECT \<Rightarrow> DockEdge \<Rightarrow> int \<Rightarrow> RECT" where
  "DockOverlayRect workArea edge thicknessPx = DockTrimToThickness workArea edge thicknessPx"

definition DockClampPeek :: "u32 \<Rightarrow> int \<Rightarrow> int" where
  "DockClampPeek peekPixels fullPx = clamp_to (long_of_u32 peekPixels) 1 (max 1 fullPx)"

definition DockHiddenRect :: "RECT \<Rightarrow> DockEdge \<Rightarrow> int \<Rightarrow> RECT" where
  "DockHiddenRect full edge peekPx =
     (case edge of
        EdgeTop \<Rightarrow> full\<lparr>rbottom := rtop full + peekPx\<rparr>
      | EdgeBottom \<Rightarrow> full\<lparr>rtop := rbottom full - peekPx\<rparr>
      | EdgeLeft \<Rightarrow> full\<lparr>rright := rleft full + peekPx\<rparr>
      | EdgeRight \<Rightarrow> full\<lparr>rleft := rright full - peekPx\<rparr>
      | EdgeNone \<Rightarrow> full)"

definition DockFullRectFromReserved :: "RECT \<Rightarrow> DockEdge \<Rightarrow> int \<Rightarrow> RECT" where
  "DockFullRectFromReserved reserved edge thicknessPx =
     DockTrimToThickness reserved edge thicknessPx"

definition DockRectEquals :: "RECT \<Rightarrow> RECT \<Rightarrow> bool" where
  "DockRectEquals a b \<longleftrightarrow>
     rleft a = rleft b \<and> rtop a = rtop b \<and> rright a = rright b \<and> rbottom a = rbottom b"

definition DockCrossPixels :: "RECT \<Rightarrow> DockEdge \<Rightarrow> int" where
  "DockCrossPixels rect edge =
     (if DockEdgeIsHorizontal edge then rbottom rect - rtop rect else rright rect - rleft rect)"

definition DockDashboardCanvas :: "bool \<Rightarrow> RECT \<Rightarrow> SIZE \<Rightarrow> SIZE" where
  "DockDashboardCanvas dockActive full client =
     (if dockActive \<and> rright full > rleft full \<and> rbottom full > rtop full
      then \<lparr>cx = rright full - rleft full, cy = rbottom full - rtop full\<rparr>
      else client)"

section \<open>The autohide slide\<close>

text \<open>
  The share of the animation a partial slide takes, in the 64-bit arithmetic of the code.
\<close>

definition DockSlideDurationMilliseconds :: "u32 \<Rightarrow> int \<Rightarrow> int \<Rightarrow> int \<Rightarrow> int \<Rightarrow> u32" where
  "DockSlideDurationMilliseconds animationMilliseconds fromPx toPx peekPx fullPx =
     (let travel = fullPx - peekPx;
          distance = min (if fromPx > toPx then fromPx - toPx else toPx - fromPx) travel
      in if animationMilliseconds = 0 \<or> travel \<le> 0 \<or> distance \<le> 0 then 0
         else let share = ((ucast animationMilliseconds * word_of_int distance
                             + word_of_int travel div 2) div word_of_int travel :: u64)
              in ucast (max share 1))"

definition DockSlideContentOffset :: "DockEdge \<Rightarrow> int \<Rightarrow> int \<Rightarrow> POINT" where
  "DockSlideContentOffset edge fullPx visiblePx =
     (let hidden = (if fullPx > visiblePx then fullPx - visiblePx else 0)
      in case edge of
           EdgeTop \<Rightarrow> mkpoint 0 (- hidden)
         | EdgeLeft \<Rightarrow> mkpoint (- hidden) 0
         | _ \<Rightarrow> mkpoint 0 0)"

definition DockSettleShift :: "DockEdge \<Rightarrow> int \<Rightarrow> int \<Rightarrow> POINT" where
  "DockSettleShift edge fullPx visiblePx =
     (let hidden = (if fullPx > visiblePx then fullPx - visiblePx else 0)
      in case edge of
           EdgeTop \<Rightarrow> mkpoint 0 hidden
         | EdgeBottom \<Rightarrow> mkpoint 0 (- hidden)
         | EdgeLeft \<Rightarrow> mkpoint hidden 0
         | EdgeRight \<Rightarrow> mkpoint (- hidden) 0
         | EdgeNone \<Rightarrow> mkpoint 0 0)"

section \<open>Input routing\<close>

datatype DockInput = InputPress | InputWheel

datatype DockInputRoute = RouteDashboard | RouteRevealOnly | RouteDrop | RouteSettleShifted

definition DockRouteInput :: "DockInput \<Rightarrow> bool \<Rightarrow> bool \<Rightarrow> DockInputRoute" where
  "DockRouteInput input showsStrip slideActive =
     (if showsStrip then (if input = InputPress then RouteRevealOnly else RouteDrop)
      else if input = InputPress \<and> slideActive then RouteSettleShifted else RouteDashboard)"

section \<open>The grip and the resize band\<close>

definition DockGripRect :: "int \<Rightarrow> int \<Rightarrow> DockEdge \<Rightarrow> int \<Rightarrow> RECT" where
  "DockGripRect fullWidth fullHeight edge peekPx =
     (if fullWidth \<le> 0 \<or> fullHeight \<le> 0 \<or> peekPx \<le> 0 \<or> edge = EdgeNone then empty_rect
      else if DockEdgeIsHorizontal edge then mkrect 0 0 fullWidth (min peekPx fullHeight)
      else mkrect 0 0 (min peekPx fullWidth) fullHeight)"

definition DockGripAccentRect :: "RECT \<Rightarrow> DockEdge \<Rightarrow> int \<Rightarrow> RECT" where
  "DockGripAccentRect grip edge accentPx =
     (if rright grip \<le> rleft grip \<or> rbottom grip \<le> rtop grip \<or> accentPx \<le> 0 then empty_rect
      else let height = rbottom grip - rtop grip; width = rright grip - rleft grip
           in case edge of
                EdgeTop \<Rightarrow> grip\<lparr>rtop := rbottom grip - min accentPx height\<rparr>
              | EdgeBottom \<Rightarrow> grip\<lparr>rbottom := rtop grip + min accentPx height\<rparr>
              | EdgeLeft \<Rightarrow> grip\<lparr>rleft := rright grip - min accentPx width\<rparr>
              | EdgeRight \<Rightarrow> grip\<lparr>rright := rleft grip + min accentPx width\<rparr>
              | EdgeNone \<Rightarrow> empty_rect)"

definition kDockResizeBandDips :: int where "kDockResizeBandDips = 6"

definition DockResizeBandRect :: "int \<Rightarrow> int \<Rightarrow> DockEdge \<Rightarrow> int \<Rightarrow> RECT" where
  "DockResizeBandRect clientWidth clientHeight edge bandPx =
     (if clientWidth \<le> 0 \<or> clientHeight \<le> 0 \<or> bandPx \<le> 0 \<or> edge = EdgeNone then empty_rect
      else let band = min bandPx (if DockEdgeIsHorizontal edge then clientHeight sdiv 2
                                  else clientWidth sdiv 2)
           in case edge of
                EdgeTop \<Rightarrow> mkrect 0 (clientHeight - band) clientWidth clientHeight
              | EdgeBottom \<Rightarrow> mkrect 0 0 clientWidth band
              | EdgeLeft \<Rightarrow> mkrect (clientWidth - band) 0 clientWidth clientHeight
              | EdgeRight \<Rightarrow> mkrect 0 0 band clientHeight
              | EdgeNone \<Rightarrow> empty_rect)"

text \<open>The default case returns before the clamp, so an edge of \<open>none\<close> answers the default thickness.\<close>

definition drag_pixels :: "RECT \<Rightarrow> DockEdge \<Rightarrow> POINT \<Rightarrow> int option" where
  "drag_pixels full edge screenPoint =
     (case edge of
        EdgeTop \<Rightarrow> Some (py screenPoint - rtop full)
      | EdgeBottom \<Rightarrow> Some (rbottom full - py screenPoint)
      | EdgeLeft \<Rightarrow> Some (px screenPoint - rleft full)
      | EdgeRight \<Rightarrow> Some (rright full - px screenPoint)
      | EdgeNone \<Rightarrow> None)"

definition DockThicknessFromDrag :: "muldiv \<Rightarrow> RECT \<Rightarrow> RECT \<Rightarrow> DockEdge \<Rightarrow> POINT \<Rightarrow> u32 \<Rightarrow> u32" where
  "DockThicknessFromDrag md full monitor edge screenPoint dpi =
     (case drag_pixels full edge screenPoint of
        None \<Rightarrow> kDockDefaultThicknessDips
      | Some dragged \<Rightarrow>
          (let pixels = fst (DockClampThickness (max 1 dragged) monitor edge);
               dips = md pixels 96 (scale_dpi dpi)
           in u32_of_long (clamp_to dips (long_of_u32 kDockMinimumThicknessDips)
                                         (long_of_u32 kDockMaximumThicknessDips))))"

section \<open>MINMAXINFO and the full-screen yield\<close>

text \<open>The three members of \<open>MINMAXINFO\<close> the dock answers.\<close>

record MINMAXINFO =
  ptMinTrackSize :: POINT
  ptMaxTrackSize :: POINT
  ptMaxSize :: POINT

definition DockMinMaxInfo ::
  "RECT \<Rightarrow> DockEdge \<Rightarrow> int \<Rightarrow> bool \<Rightarrow> RECT \<Rightarrow> MINMAXINFO \<Rightarrow> MINMAXINFO" where
  "DockMinMaxInfo monitor edge peekPx autohide full info =
     (let smallest = (if autohide then DockHiddenRect full edge peekPx else full);
          largest = mkpoint (max 1 (rright monitor - rleft monitor))
                            (max 1 (rbottom monitor - rtop monitor))
      in info\<lparr>ptMinTrackSize := mkpoint (max 1 (rright smallest - rleft smallest))
                                       (max 1 (rbottom smallest - rtop smallest)),
              ptMaxTrackSize := largest,
              ptMaxSize := largest\<rparr>)"

definition DockForegroundCoversMonitor :: "RECT \<Rightarrow> RECT \<Rightarrow> bool \<Rightarrow> bool" where
  "DockForegroundCoversMonitor windowBounds monitor maximizedWithCaption \<longleftrightarrow>
     \<not> maximizedWithCaption \<and> rright monitor > rleft monitor \<and> rbottom monitor > rtop monitor \<and>
     rleft windowBounds \<le> rleft monitor \<and> rtop windowBounds \<le> rtop monitor \<and>
     rright windowBounds \<ge> rright monitor \<and> rbottom windowBounds \<ge> rbottom monitor"

section \<open>Facts the placement proofs share\<close>

lemma range_constants [simp]:
  "long_of_u32 kDockMinimumThicknessDips = 32" "long_of_u32 kDockMaximumThicknessDips = 1080"
  "unat kDockMinimumThicknessDips = 32" "unat kDockMaximumThicknessDips = 1080"
  "unat kDockDefaultThicknessDips = 180" "unat kDockMinimumPeekPixels = 1"
  "unat kDockMaximumPeekPixels = 64" "unat kDockDefaultPeekPixels = 4"
  by (simp_all add: long_of_u32_def kDockMinimumThicknessDips_def kDockMaximumThicknessDips_def
      kDockDefaultThicknessDips_def kDockMinimumPeekPixels_def kDockMaximumPeekPixels_def
      kDockDefaultPeekPixels_def)

text \<open>The clamp as one formula: cut to half of the cross dimension (never below one pixel).\<close>

definition cross_limit :: "RECT \<Rightarrow> DockEdge \<Rightarrow> int" where
  "cross_limit monitor edge =
     (if DockCrossPixels monitor edge > 1 then DockCrossPixels monitor edge div 2 else 1)"

lemma cross_limit_pos: "1 \<le> cross_limit monitor edge"
  by (simp add: cross_limit_def zle_div_iff)

lemma cross_limit_le: "cross_limit monitor edge \<le> max 1 (DockCrossPixels monitor edge)"
proof -
  have "c div 2 \<le> c" if "1 < c" for c :: int using that by (simp add: zdiv_le_iff)
  then show ?thesis by (auto simp: cross_limit_def max_def)
qed

lemma DockClampThickness_eq:
  "DockClampThickness t monitor edge =
     (max 1 (min t (cross_limit monitor edge)), t > cross_limit monitor edge)"
  using cross_limit_pos [of monitor edge]
  by (auto simp: DockClampThickness_def cross_limit_def DockCrossPixels_def Let_def sdiv_nonneg)

lemma DockTrim_cross [simp]:
  "edge \<noteq> EdgeNone \<Longrightarrow> DockCrossPixels (DockTrimToThickness r edge t) edge = t"
  by (cases edge) (simp_all add: DockTrimToThickness_def DockCrossPixels_def)

lemma DockHidden_eq_Trim: "DockHiddenRect r edge p = DockTrimToThickness r edge p"
  by (cases edge) (simp_all add: DockHiddenRect_def DockTrimToThickness_def)

lemma DockTrim_Trim [simp]:
  "DockTrimToThickness (DockTrimToThickness r edge t) edge p = DockTrimToThickness r edge p"
  by (cases edge) (simp_all add: DockTrimToThickness_def)

lemma DockTrim_own_cross [simp]: "DockTrimToThickness r edge (DockCrossPixels r edge) = r"
  by (cases edge) (simp_all add: DockTrimToThickness_def DockCrossPixels_def)

lemma DockTrim_within:
  "0 \<le> p \<Longrightarrow> p \<le> t \<Longrightarrow> rect_within (DockTrimToThickness r edge p) (DockTrimToThickness r edge t)"
  by (cases edge) (simp_all add: DockTrimToThickness_def geom_simps)

lemma DockRectEquals_iff: "DockRectEquals a b \<longleftrightarrow> a = b"
  by (auto simp: DockRectEquals_def rect_eq_iff)

lemma long_of_range_clamp [simp]:
  "long_of_u32 (u32_of_long (clamp_to d 32 1080)) = clamp_to d 32 1080"
  by (rule long_of_u32_of_long) (auto simp: clamp_to_def)

lemma unat_range_clamp [simp]: "unat (u32_of_long (clamp_to d 32 1080)) = nat (clamp_to d 32 1080)"
  by (rule unat_u32_of_long) (auto simp: clamp_to_def)

lemma nat_range_clamp_mono:
  "x \<le> y \<Longrightarrow> 32 \<le> nat (clamp_to x 32 1080) \<and> nat (clamp_to x 32 1080) \<le> nat (clamp_to y 32 1080)
     \<and> nat (clamp_to y 32 1080) \<le> 1080"
  by (auto simp: clamp_to_def)

section \<open>Properties of the geometry\<close>

text \<open>\<open>DockEdgeParse\<close> accepts exactly the five edge names and inverts \<open>DockEdgeName\<close>: a text
  parses to an edge if and only if it is the name of that edge.\<close>

theorem DockEdgeParse_iff_name: "DockEdgeParse text = Some edge \<longleftrightarrow> text = DockEdgeName edge"
  by (cases edge) (auto simp: DockEdgeParse_def)

text \<open>The collapsed window of an autohide dock is exactly what it reserves: hiding the full bar
  grown from a reserved strip (any rectangle the shell committed, of the strip's depth) gives the
  reserved rectangle back, on every edge.\<close>

theorem hidden_bar_is_reservation:
  assumes "edge \<noteq> EdgeNone" and "DockCrossPixels reserved edge = peekPx"
  shows "DockHiddenRect (DockFullRectFromReserved reserved edge thicknessPx) edge peekPx = reserved
    \<and> DockCrossPixels (DockFullRectFromReserved reserved edge thicknessPx) edge = thicknessPx"
  using assms DockTrim_own_cross [of reserved edge]
  by (simp add: DockHidden_eq_Trim DockFullRectFromReserved_def)

theorem hidden_bar_is_reservation_witness:
  "DockHiddenRect (DockFullRectFromReserved (mkrect 0 1436 2560 1440) EdgeBottom 180) EdgeBottom 4
     = mkrect 0 1436 2560 1440
   \<and> DockCrossPixels (DockFullRectFromReserved (mkrect 0 1436 2560 1440) EdgeBottom 180) EdgeBottom
     = 180"
  by (rule hidden_bar_is_reservation) (simp_all add: DockCrossPixels_def)

text \<open>The thickness clamp keeps at least half of the monitor free: the result is at least one
  pixel, at most the thickness asked for (when that is positive), at most half of the monitor's cross
  dimension (when that holds two pixels), and the flag says whether it was cut.\<close>

theorem DockClampThickness_spec:
  assumes "DockClampThickness t monitor edge = (result, clamped)"
  shows "1 \<le> result \<and> (1 \<le> t \<longrightarrow> result \<le> t) \<and>
    (2 \<le> DockCrossPixels monitor edge \<longrightarrow> 2 * result \<le> DockCrossPixels monitor edge) \<and>
    (1 \<le> t \<longrightarrow> clamped = (result \<noteq> t))"
  using assms cross_limit_pos [of monitor edge]
  by (auto simp: DockClampThickness_eq cross_limit_def)

theorem DockClampThickness_spec_witness:
  "1 \<le> (720 :: int) \<and> (1 \<le> (1000 :: int) \<longrightarrow> (720 :: int) \<le> 1000) \<and>
    (2 \<le> DockCrossPixels (mkrect 0 0 2560 1440) EdgeTop \<longrightarrow>
       2 * 720 \<le> DockCrossPixels (mkrect 0 0 2560 1440) EdgeTop) \<and>
    (1 \<le> (1000 :: int) \<longrightarrow> True = ((720 :: int) \<noteq> 1000))"
  by (rule DockClampThickness_spec [of 1000 "mkrect 0 0 2560 1440" EdgeTop 720 True])
    (simp add: DockClampThickness_eq cross_limit_def DockCrossPixels_def)

subsection \<open>The first-run bar is never clamped at run time\<close>

text \<open>
  The arithmetic behind it: with \<open>d\<close> the DPI, \<open>p\<close> measured pixels become \<open>p * 96 div d\<close> DIPs,
  and the rescale to pixels rounds \<open>dips * d / 96\<close> to the nearest integer.
\<close>

lemma rescale_rounded_down:
  assumes "0 < (d :: int)"
  shows "(2 * ((p * 96) div d * d) + 96) div 192 \<le> p"
proof -
  have "(p * 96) div d * d \<le> p * 96"
    using zle_div_iff [OF assms, of "(p * 96) div d" "p * 96"] by simp
  then show ?thesis by (simp add: zdiv_le_iff)
qed

lemma rescale_minimum:
  fixes d :: int
  assumes "64 * d \<le> 96 * cross"
  shows "(2 * (32 * d) + 96) div 192 \<le> cross div 2"
proof -
  define k where "k = cross div 2"
  have "cross \<le> 2 * k + 1" by (simp add: k_def)
  with assms have "2 * d \<le> 6 * k + 3" by linarith
  moreover have "2 * d \<noteq> 6 * k + 3" by presburger
  ultimately have "2 * d < 6 * k + 3" by simp
  then have "64 * d + 96 < (k + 1) * 192" unfolding distrib_right by presburger
  then show ?thesis unfolding k_def by (simp add: zdiv_le_iff)
qed

lemma rescale_first_run:
  fixes d :: int
  assumes d: "0 < d" and cross: "64 * d \<le> 96 * cross" and p: "p \<le> cross div 2"
  shows "(2 * (clamp_to ((p * 96) div d) 32 1080 * d) + 96) div 192 \<le> cross div 2"
proof -
  let ?q = "(p * 96) div d"
  have mono: "(2 * (x * d) + 96) div 192 \<le> (2 * (y * d) + 96) div 192" if "x \<le> y" for x y :: int
    using that d by (intro zdiv_mono1) (simp_all add: mult_right_mono)
  consider "clamp_to ?q 32 1080 \<le> ?q" | "clamp_to ?q 32 1080 = 32"
    by (cases "?q < 32") (auto simp: clamp_to_def)
  then show ?thesis
  proof cases
    case 1
    then show ?thesis
      using mono [OF 1] rescale_rounded_down [OF d, of p] p by linarith
  next
    case 2
    then show ?thesis using rescale_minimum [OF cross] by simp
  qed
qed

text \<open>The thickness written into the first-run settings file, scaled back to pixels when the bar
  is placed, is not clamped by \<open>DockClampThickness\<close>, on every monitor at least 64 DIPs across the
  edge: the comment's claim that the only exception is a display under 64 DIPs.\<close>

theorem first_run_bar_not_clamped:
  assumes md: "documented_muldiv md"
    and dpi: "unat dpi < 2 ^ 20" "96 \<le> scale_dpi dpi"
    and big: "64 * scale_dpi dpi \<le> 96 * DockCrossPixels monitor edge"
  shows "\<not> snd (DockClampThickness
                 (DockThicknessPixels md (DockFirstRunThicknessDips md monitor work edge dpi) dpi)
                 monitor edge)"
proof -
  let ?d = "scale_dpi dpi" and ?c = "DockCrossPixels monitor edge"
  define span where "span = (if DockEdgeIsHorizontal edge then rright work - rleft work
                             else rbottom work - rtop work)"
  define p where "p = fst (DockClampThickness (max 1 (md span 720 2560)) monitor edge)"
  define dips where "dips = clamp_to ((p * 96) div ?d) 32 1080"
  have d: "0 < ?d" "?d < 2 ^ 20"
    using dpi scale_dpi_less [of dpi "2 ^ 20"] by simp_all
  have c: "2 \<le> ?c" using big dpi(2) by linarith
  have p: "1 \<le> p" "p \<le> ?c div 2"
    using c by (auto simp: p_def DockClampThickness_eq cross_limit_def zle_div_iff)
  have dips: "32 \<le> dips" "dips \<le> 1080"
    by (simp_all add: dips_def clamp_to_bounds)
  have u: "long_of_u32 (DockFirstRunThicknessDips md monitor work edge dpi) = dips"
    using p d dips
    by (simp add: DockFirstRunThicknessDips_def Let_def kDockDesignShortSideDips_def
        kDockDesignLongSideDips_def sdiv_nonneg dips_def p_def span_def)
  have le: "(2 * dips * ?d + 96) div (2 * 96) \<le> ?c div 2"
    unfolding dips_def using rescale_first_run [OF d(1) big p(2)] by (simp add: mult.assoc)
  have "dips * ?d \<le> 1080 * 2 ^ 20" using dips d by (intro mult_mono) simp_all
  then have "(2 * dips * ?d + 96) div (2 * 96) < 2 ^ 31"
    by (simp add: zdiv_le_iff less_le [of "_ div _"])
  then have "md dips ?d 96 = (2 * dips * ?d + 96) div (2 * 96)"
    using documented_muldivD [OF md, of dips ?d 96] dips d by simp
  with le c u show ?thesis
    by (simp add: DockThicknessPixels_def DockClampThickness_eq cross_limit_def zle_div_iff)
qed

theorem first_run_bar_not_clamped_witness:
  "\<not> snd (DockClampThickness
            (DockThicknessPixels muldiv_ref
               (DockFirstRunThicknessDips muldiv_ref (mkrect 0 0 2560 97) (mkrect 0 0 2560 60)
                  EdgeBottom 144) 144)
            (mkrect 0 0 2560 97) EdgeBottom)"
  by (rule first_run_bar_not_clamped [OF muldiv_ref_documented])
    (simp_all add: scale_dpi_def long_of_u32_def DockCrossPixels_def)

subsection \<open>The slide\<close>

text \<open>The 64-bit computation of the share does not wrap: it is the rounded quotient on integers.\<close>

lemma slide_share_exact:
  assumes "0 < distance" and "distance \<le> travel" and "travel < 2 ^ 31"
  shows "unat ((ucast (a :: u32) * word_of_int distance + word_of_int travel div 2)
               div word_of_int travel :: u64)
         = (unat a * nat distance + nat travel div 2) div nat travel"
proof -
  let ?w = "word_of_int :: int \<Rightarrow> u64"
  have u: "unat (?w distance) = nat distance" "unat (?w travel) = nat travel"
    using assms by (simp_all add: unat_eq_nat_uint unsigned_of_int take_bit_int_eq_self)
  have ua: "unat (ucast a :: u64) = unat a" by (rule unat_ucast_u64)
  have a: "unat a < 2 ^ 32" by (rule unat_less_u32)
  have t: "nat travel < 2 ^ 31" and dt: "nat distance \<le> nat travel"
    using assms by (simp_all add: nat_less_iff)
  then have le: "nat distance \<le> 2 ^ 31" "nat travel div 2 < 2 ^ 31" by simp_all
  have "unat a * nat distance \<le> 2 ^ 32 * 2 ^ 31" using a le by (intro mult_mono) simp_all
  then have p: "unat a * nat distance \<le> 2 ^ 63" by simp
  have m: "unat ((ucast a :: u64) * ?w distance) = unat a * nat distance"
    using p by (simp add: unat_word_ariths u ua)
  have h: "unat (?w travel div 2) = nat travel div 2"
    by (simp add: unat_div_distrib u)
  have "unat ((ucast a :: u64) * ?w distance + ?w travel div 2)
        = unat a * nat distance + nat travel div 2"
    using p le by (simp add: unat_word_ariths(1) m h)
  then show ?thesis by (simp add: unat_div_distrib u)
qed

lemma slide_share_bound:
  fixes a d t :: nat
  assumes "d \<le> t" and "0 < t"
  shows "(a * d + t div 2) div t \<le> a"
proof -
  have "(a * d + t div 2) div t < a + 1"
  proof (rule less_mult_imp_div_less)
    have "a * d \<le> a * t" using assms by simp
    moreover have "t div 2 < t" using assms by simp
    ultimately show "a * d + t div 2 < (a + 1) * t" unfolding distrib_right by linarith
  qed
  then show ?thesis by simp
qed

text \<open>The slide's duration is the rounded share of the animation that the distance is of the
  travel, computed without wrap-around in 64 bits: zero exactly when nothing moves, otherwise at least
  one millisecond and at most the whole animation, which a full travel takes exactly.\<close>

theorem DockSlideDuration_spec:
  assumes "0 \<le> peekPx" and "peekPx < fullPx" and "fullPx < 2 ^ 31" and "fromPx \<noteq> toPx"
    and "animationMilliseconds \<noteq> 0"
  shows "let travel = nat (fullPx - peekPx); distance = min (nat \<bar>fromPx - toPx\<bar>) travel;
             share = (unat animationMilliseconds * distance + travel div 2) div travel;
             result = unat (DockSlideDurationMilliseconds animationMilliseconds fromPx toPx peekPx fullPx)
         in result = max 1 share \<and> 1 \<le> result \<and> result \<le> unat animationMilliseconds
            \<and> (distance = travel \<longrightarrow> result = unat animationMilliseconds)"
proof -
  define t where "t = fullPx - peekPx"
  define d where "d = min (if fromPx > toPx then fromPx - toPx else toPx - fromPx) t"
  have t: "0 < t" "t < 2 ^ 31" and d: "0 < d" "d \<le> t"
    using assms by (auto simp: t_def d_def)
  have nd: "nat d = min (nat \<bar>fromPx - toPx\<bar>) (nat t)"
    using t by (auto simp: d_def min_def)
  define s where "s = (unat animationMilliseconds * nat d + nat t div 2) div nat t"
  have s: "s \<le> unat animationMilliseconds"
    unfolding s_def using d t by (intro slide_share_bound) simp_all
  have a: "0 < unat animationMilliseconds" using assms by (simp add: unat_gt_0)
  have full: "nat d = nat t \<Longrightarrow> s = unat animationMilliseconds"
    unfolding s_def using t by (simp add: div_add1_eq)
  let ?share = "(ucast animationMilliseconds * word_of_int d + word_of_int t div 2)
                  div word_of_int t :: u64"
  have us: "unat ?share = s"
    unfolding s_def by (rule slide_share_exact [OF d t(2)])
  have um: "unat (max ?share 1) = max s 1"
    by (simp add: max_def word_le_nat_alt us)
  have "unat (ucast (max ?share 1) :: u32) = max s 1"
  proof -
    have "max s 1 < 2 ^ 32" using s unat_less_u32 [of animationMilliseconds] by simp
    then show ?thesis by (simp add: unat_ucast_u32 um)
  qed
  moreover have "DockSlideDurationMilliseconds animationMilliseconds fromPx toPx peekPx fullPx
      = ucast (max ?share 1)"
    using t d assms unfolding DockSlideDurationMilliseconds_def Let_def d_def [symmetric] t_def [symmetric]
    by simp
  ultimately show ?thesis
    using s a full by (simp add: Let_def nd [symmetric] t_def [symmetric] s_def [symmetric])
qed

theorem DockSlideDuration_spec_witness:
  "let travel = nat (180 - 4); distance = min (nat \<bar>92 - 180\<bar>) travel;
       share = (unat (200 :: u32) * distance + travel div 2) div travel;
       result = unat (DockSlideDurationMilliseconds 200 92 180 4 180)
   in result = max 1 share \<and> 1 \<le> result \<and> result \<le> unat (200 :: u32)
      \<and> (distance = travel \<longrightarrow> result = unat (200 :: u32))"
  by (rule DockSlideDuration_spec) simp_all

text \<open>
  What the pointer is over. While the bar shows \<open>visiblePx\<close> of its thickness, the window is
  \<open>DockHiddenRect\<close> of the full bar at that thickness and the dashboard is drawn translated by
  \<open>DockSlideContentOffset\<close>, so a screen point shows the dashboard point at its client coordinates
  less that translation. Once the slide has settled, the window is the full bar, untranslated.
\<close>

definition client_point :: "RECT \<Rightarrow> POINT \<Rightarrow> POINT" where
  "client_point window screen = mkpoint (px screen - rleft window) (py screen - rtop window)"

definition point_add :: "POINT \<Rightarrow> POINT \<Rightarrow> POINT" where
  "point_add a b = mkpoint (px a + px b) (py a + py b)"

definition shown_dashboard_point :: "RECT \<Rightarrow> DockEdge \<Rightarrow> int \<Rightarrow> POINT \<Rightarrow> POINT" where
  "shown_dashboard_point full edge visiblePx screen =
     (let c = client_point (DockHiddenRect full edge visiblePx) screen;
          off = DockSlideContentOffset edge (DockCrossPixels full edge) visiblePx
      in mkpoint (px c - px off) (py c - py off))"

text \<open>A press that settles a slide keeps its target: adding \<open>DockSettleShift\<close> to the client point
  taken after the settle gives the dashboard point that was on screen under the pointer at the visible
  thickness, on every edge.\<close>

theorem settle_shift_keeps_target:
  assumes "visiblePx \<le> DockCrossPixels full edge"
  shows "point_add (client_point full screen)
           (DockSettleShift edge (DockCrossPixels full edge) visiblePx)
         = shown_dashboard_point full edge visiblePx screen"
  using assms
  by (cases edge)
    (auto simp: shown_dashboard_point_def client_point_def point_add_def DockSettleShift_def
      DockSlideContentOffset_def DockHiddenRect_def DockCrossPixels_def Let_def intro: point_eqI)

theorem settle_shift_keeps_target_witness:
  "point_add (client_point (mkrect 0 1260 2560 1440) (mkpoint 700 1400))
     (DockSettleShift EdgeBottom (DockCrossPixels (mkrect 0 1260 2560 1440) EdgeBottom) 60)
   = shown_dashboard_point (mkrect 0 1260 2560 1440) EdgeBottom 60 (mkpoint 700 1400)"
  by (rule settle_shift_keeps_target) (simp add: DockCrossPixels_def)

subsection \<open>Window sizes\<close>

definition rect_fits_track :: "RECT \<Rightarrow> MINMAXINFO \<Rightarrow> bool" where
  "rect_fits_track r info \<longleftrightarrow>
     px (ptMinTrackSize info) \<le> rect_width r \<and> rect_width r \<le> px (ptMaxTrackSize info) \<and>
     py (ptMinTrackSize info) \<le> rect_height r \<and> rect_height r \<le> py (ptMaxTrackSize info)"

text \<open>Windows never refuses a size the autohide slide asks for: with the full bar nonempty and on
  its monitor, every window from the peek strip to the full bar lies between the minimum and the maximum
  track size the dock answers.\<close>

theorem slide_sizes_fit_track:
  assumes "edge \<noteq> EdgeNone" and "rect_nonempty full" and "rect_within full monitor"
    and "1 \<le> peekPx" and "peekPx \<le> visiblePx" and "visiblePx \<le> DockCrossPixels full edge"
  shows "rect_fits_track (DockHiddenRect full edge visiblePx)
           (DockMinMaxInfo monitor edge peekPx True full info)"
  using assms
  by (cases edge)
    (auto simp: rect_fits_track_def DockMinMaxInfo_def DockHiddenRect_def DockCrossPixels_def
      Let_def geom_simps)

theorem slide_sizes_fit_track_witness:
  "rect_fits_track (DockHiddenRect (mkrect 0 1260 2560 1440) EdgeBottom 60)
     (DockMinMaxInfo (mkrect 0 0 2560 1440) EdgeBottom 4 True (mkrect 0 1260 2560 1440)
        \<lparr>ptMinTrackSize = mkpoint 480 320, ptMaxTrackSize = mkpoint 0 0, ptMaxSize = mkpoint 0 0\<rparr>)"
  by (rule slide_sizes_fit_track) (simp_all add: DockCrossPixels_def geom_simps)

subsection \<open>Grip, accent and resize band\<close>

text \<open>The grip painted on the strip stays on the bar, its accent line stays on the grip, and the
  resize band stays inside the client and covers at most half of it across the edge.\<close>

theorem dock_chrome_inside:
  assumes "edge \<noteq> EdgeNone" and "0 < w" and "0 < h" and "0 < peekPx" and "0 < accentPx" and "0 < bandPx"
  shows "rect_within (DockGripRect w h edge peekPx) (mkrect 0 0 w h)
    \<and> rect_nonempty (DockGripRect w h edge peekPx)
    \<and> rect_within (DockGripAccentRect (DockGripRect w h edge peekPx) edge accentPx)
                  (DockGripRect w h edge peekPx)
    \<and> rect_nonempty (DockGripAccentRect (DockGripRect w h edge peekPx) edge accentPx)
    \<and> rect_within (DockResizeBandRect w h edge bandPx) (mkrect 0 0 w h)
    \<and> 2 * DockCrossPixels (DockResizeBandRect w h edge bandPx) edge
        \<le> DockCrossPixels (mkrect 0 0 w h) edge"
  using assms
  by (cases edge)
    (auto simp: DockGripRect_def DockGripAccentRect_def DockResizeBandRect_def DockCrossPixels_def
      Let_def geom_simps sdiv_nonneg min_def)

theorem dock_chrome_inside_witness:
  "rect_within (DockGripRect 2560 180 EdgeTop 4) (mkrect 0 0 2560 180)
    \<and> rect_nonempty (DockGripRect 2560 180 EdgeTop 4)
    \<and> rect_within (DockGripAccentRect (DockGripRect 2560 180 EdgeTop 4) EdgeTop 1)
                  (DockGripRect 2560 180 EdgeTop 4)
    \<and> rect_nonempty (DockGripAccentRect (DockGripRect 2560 180 EdgeTop 4) EdgeTop 1)
    \<and> rect_within (DockResizeBandRect 2560 180 EdgeTop 6) (mkrect 0 0 2560 180)
    \<and> 2 * DockCrossPixels (DockResizeBandRect 2560 180 EdgeTop 6) EdgeTop
        \<le> DockCrossPixels (mkrect 0 0 2560 180) EdgeTop"
  by (rule dock_chrome_inside) simp_all

subsection \<open>Dragging the inner edge\<close>

lemma drag_thickness_mono:
  assumes md: "documented_muldiv md" and d: "0 < scale_dpi dpi"
    and p: "0 \<le> p" "p \<le> q" "q < 2 ^ 20"
  shows "md p 96 (scale_dpi dpi) \<le> md q 96 (scale_dpi dpi)"
proof -
  let ?d = "scale_dpi dpi"
  have small: "(2 * x * 96 + ?d) div (2 * ?d) < 2 ^ 31" if "0 \<le> x" "x < 2 ^ 20" for x
  proof -
    have "2 * x * 96 + ?d < (2 ^ 31 - 1 + 1) * (2 * ?d)" using that d by simp
    then have "(2 * x * 96 + ?d) div (2 * ?d) \<le> 2 ^ 31 - 1"
      using d by (subst zdiv_le_iff) simp_all
    then show ?thesis by simp
  qed
  have "md x 96 ?d = (2 * x * 96 + ?d) div (2 * ?d)" if "0 \<le> x" "x < 2 ^ 20" for x
    using that d small [OF that] by (intro documented_muldivD [OF md]) simp_all
  moreover have "(2 * p * 96 + ?d) div (2 * ?d) \<le> (2 * q * 96 + ?d) div (2 * ?d)"
    using p d by (intro zdiv_mono1) simp_all
  ultimately show ?thesis using p by simp
qed

lemma DockThicknessFromDrag_unat:
  "drag_pixels full edge p = Some n \<Longrightarrow>
   unat (DockThicknessFromDrag md full monitor edge p dpi)
   = nat (clamp_to (md (max 1 (min (max 1 n) (cross_limit monitor edge))) 96 (scale_dpi dpi)) 32 1080)"
  by (simp add: DockThicknessFromDrag_def Let_def DockClampThickness_eq)

text \<open>Dragging the inner edge gives a thickness inside the settings range wherever the pointer
  goes, and moving the pointer further from the outer edge never gives a thinner bar.\<close>

theorem drag_thickness_range_mono:
  assumes md: "documented_muldiv md" and dpi: "unat dpi < 2 ^ 31"
    and p: "drag_pixels full edge p = Some m" and q: "drag_pixels full edge q = Some n" and "m \<le> n"
    and small: "DockCrossPixels monitor edge < 2 ^ 20"
  shows "32 \<le> unat (DockThicknessFromDrag md full monitor edge p dpi) \<and>
    unat (DockThicknessFromDrag md full monitor edge p dpi)
      \<le> unat (DockThicknessFromDrag md full monitor edge q dpi) \<and>
    unat (DockThicknessFromDrag md full monitor edge q dpi) \<le> 1080"
proof -
  have "cross_limit monitor edge < 2 ^ 20"
    using small cross_limit_le [of monitor edge] by simp
  then have "md (max 1 (min (max 1 m) (cross_limit monitor edge))) 96 (scale_dpi dpi)
      \<le> md (max 1 (min (max 1 n) (cross_limit monitor edge))) 96 (scale_dpi dpi)"
    using \<open>m \<le> n\<close> scale_dpi_pos [OF dpi] by (intro drag_thickness_mono [OF md]) auto
  then show ?thesis
    unfolding DockThicknessFromDrag_unat [OF p] DockThicknessFromDrag_unat [OF q]
    by (rule nat_range_clamp_mono)
qed

theorem drag_thickness_range_mono_witness:
  "32 \<le> unat (DockThicknessFromDrag muldiv_ref (mkrect 0 0 2560 180) (mkrect 0 0 2560 1440) EdgeTop
               (mkpoint 9 200) 120) \<and>
    unat (DockThicknessFromDrag muldiv_ref (mkrect 0 0 2560 180) (mkrect 0 0 2560 1440) EdgeTop
               (mkpoint 9 200) 120)
      \<le> unat (DockThicknessFromDrag muldiv_ref (mkrect 0 0 2560 180) (mkrect 0 0 2560 1440) EdgeTop
               (mkpoint 9 300) 120) \<and>
    unat (DockThicknessFromDrag muldiv_ref (mkrect 0 0 2560 180) (mkrect 0 0 2560 1440) EdgeTop
               (mkpoint 9 300) 120) \<le> 1080"
  by (rule drag_thickness_range_mono [OF muldiv_ref_documented, where m = 200 and n = 300])
    (simp_all add: drag_pixels_def DockCrossPixels_def)

end
