(* ===== verification/Text_Prelude.thy ===== *)
theory Text_Prelude
  imports RedXe_Prelude "HOL-Library.Sublist"
begin

text \<open>
  Byte strings as the code reads them: character classes as ranges of byte values, the searches of
  \<open>std::string_view\<close> (\<open>find\<close>, \<open>rfind\<close>, \<open>starts_with\<close>, \<open>ends_with\<close>), splitting at a separator, and
  decimal numbers. The parsers of several components are stated over these.
\<close>

section \<open>Bytes\<close>

definition code :: "char \<Rightarrow> nat" where
  "code c = of_char c"

lemma code_inject [simp]: "code a = code b \<longleftrightarrow> a = b"
  by (simp add: code_def of_char_eq_iff)

lemma code_less [simp]: "code c < 256"
  by (simp add: code_def)

definition is_digit :: "char \<Rightarrow> bool" where
  "is_digit c \<longleftrightarrow> 48 \<le> code c \<and> code c \<le> 57"

definition is_alpha :: "char \<Rightarrow> bool" where
  "is_alpha c \<longleftrightarrow> (65 \<le> code c \<and> code c \<le> 90) \<or> (97 \<le> code c \<and> code c \<le> 122)"

definition lower :: "char \<Rightarrow> char" where
  "lower c = (if 65 \<le> code c \<and> code c \<le> 90 then char_of (code c + 32) else c)"

lemmas [char_simps] = is_digit_def is_alpha_def lower_def code_def

lemma code_lower: "code (lower c) = (if 65 \<le> code c \<and> code c \<le> 90 then code c + 32 else code c)"
  by (simp add: lower_def) (simp add: code_def)

lemma lower_lower [simp]: "lower (lower c) = lower c"
  by (simp add: code_lower flip: code_inject)

lemma is_digit_lower [simp]: "is_digit (lower c) = is_digit c"
  by (simp add: is_digit_def code_lower)

lemma is_alpha_lower [simp]: "is_alpha (lower c) = is_alpha c"
  by (auto simp: is_alpha_def code_lower)

lemma lower_digit [simp]: "is_digit c \<Longrightarrow> lower c = c"
  by (simp add: code_lower is_digit_def flip: code_inject)

section \<open>Searching\<close>

text \<open>\<open>find(c)\<close>: the first position, \<open>None\<close> for \<open>npos\<close>.\<close>

fun index_of :: "'a \<Rightarrow> 'a list \<Rightarrow> nat option" where
  "index_of c [] = None"
| "index_of c (x # xs) = (if x = c then Some 0 else map_option Suc (index_of c xs))"

fun last_index_of :: "'a \<Rightarrow> 'a list \<Rightarrow> nat option" where
  "last_index_of c [] = None"
| "last_index_of c (x # xs) =
     (case last_index_of c xs of Some i \<Rightarrow> Some (Suc i) | None \<Rightarrow> if x = c then Some 0 else None)"

definition starts_with :: "'a list \<Rightarrow> 'a list \<Rightarrow> bool" where
  "starts_with s p \<longleftrightarrow> take (length p) s = p"

definition ends_with :: "'a list \<Rightarrow> 'a list \<Rightarrow> bool" where
  "ends_with s p \<longleftrightarrow> length p \<le> length s \<and> drop (length s - length p) s = p"

lemma index_of_None: "index_of c s = None \<longleftrightarrow> c \<notin> set s"
  by (induction s) auto

lemma index_of_Some:
  "index_of c s = Some i \<longleftrightarrow> i < length s \<and> s ! i = c \<and> c \<notin> set (take i s)"
proof (induction s arbitrary: i)
  case Nil
  then show ?case by simp
next
  case (Cons x xs)
  then show ?case by (cases i) auto
qed

lemma index_of_append: "c \<notin> set a \<Longrightarrow> index_of c (a @ c # b) = Some (length a)"
  by (simp add: index_of_Some)

lemma index_of_split:
  assumes "index_of c s = Some i"
  shows "s = take i s @ c # drop (Suc i) s"
  using assms by (auto simp: index_of_Some id_take_nth_drop)

lemma last_index_of_None: "last_index_of c s = None \<longleftrightarrow> c \<notin> set s"
  by (induction s) (auto split: option.splits)

lemma last_index_of_Some:
  "last_index_of c s = Some i \<longleftrightarrow> i < length s \<and> s ! i = c \<and> c \<notin> set (drop (Suc i) s)"
proof (induction s arbitrary: i)
  case Nil
  then show ?case by simp
next
  case (Cons x xs)
  show ?case
  proof (cases i)
    case 0
    then show ?thesis
      using last_index_of_None [of c xs] by (cases "last_index_of c xs") auto
  next
    case (Suc j)
    have "last_index_of c xs = None \<Longrightarrow> \<not> (j < length xs \<and> xs ! j = c)"
      by (auto simp: last_index_of_None)
    with Suc Cons.IH [of j] show ?thesis by (auto split: option.splits)
  qed
qed

lemma last_index_of_append: "c \<notin> set b \<Longrightarrow> last_index_of c (a @ c # b) = Some (length a)"
  by (simp add: last_index_of_Some)

lemma starts_with_iff: "starts_with s p \<longleftrightarrow> prefix p s"
  unfolding starts_with_def prefix_def by (metis append_eq_conv_conj)

lemma ends_with_iff: "ends_with s p \<longleftrightarrow> suffix p s"
  unfolding ends_with_def suffix_def
  by (metis append_take_drop_id diff_add_inverse2 append_eq_conv_conj length_append le_add2
      drop_eq_Nil2 length_drop)

text \<open>The first position whose element satisfies a test: the shape of every search loop.\<close>

fun first_index :: "('a \<Rightarrow> bool) \<Rightarrow> 'a list \<Rightarrow> nat option" where
  "first_index P [] = None"
| "first_index P (x # xs) = (if P x then Some 0 else map_option Suc (first_index P xs))"

lemma first_index_None: "first_index P xs = None \<longleftrightarrow> (\<forall>x \<in> set xs. \<not> P x)"
  by (induction xs) auto

lemma first_index_Some:
  "first_index P xs = Some i \<longleftrightarrow> i < length xs \<and> P (xs ! i) \<and> (\<forall>j < i. \<not> P (xs ! j))"
proof (induction xs arbitrary: i)
  case Nil
  then show ?case by simp
next
  case (Cons x xs)
  then show ?case by (cases i) (auto simp: less_Suc_eq_0_disj)
qed

lemma first_index_map: "first_index P (map f xs) = first_index (P \<circ> f) xs"
  by (induction xs) auto

section \<open>Wide text\<close>

text \<open>UTF-16 code units; \<open>W\<close> is the wide literal of an ASCII text.\<close>

type_synonym wstring = "u16 list"

definition W :: "string \<Rightarrow> wstring" where
  "W = map (\<lambda>c. of_nat (code c))"

lemma W_simps: "W [] = []" "W (c # s) = of_nat (code c) # W s" "W (s @ t) = W s @ W t"
  by (simp_all add: W_def)

lemma length_W [simp]: "length (W s) = length s"
  by (simp add: W_def)

lemma W_inject [simp]: "W s = W t \<longleftrightarrow> s = t"
proof -
  have "unat (of_nat (code c) :: u16) = code c" for c
    by (rule unat_of_nat_u16) (rule order_less_trans [OF code_less], simp)
  then have "inj (\<lambda>c. of_nat (code c) :: u16)"
    by (intro injI) (metis code_inject)
  then show ?thesis unfolding W_def by (rule inj_map_eq_map)
qed

section \<open>Splitting at a separator\<close>

fun split_on :: "'a \<Rightarrow> 'a list \<Rightarrow> 'a list list" where
  "split_on c [] = [[]]"
| "split_on c (x # xs) =
     (if x = c then [] # split_on c xs
      else (x # hd (split_on c xs)) # tl (split_on c xs))"

lemma split_on_nonempty [simp]: "split_on c s \<noteq> []"
  by (induction s) auto

lemma split_on_none: "c \<notin> set s \<Longrightarrow> split_on c s = [s]"
  by (induction s) auto

lemma split_on_append: "c \<notin> set a \<Longrightarrow> split_on c (a @ c # b) = a # split_on c b"
  by (induction a) auto

lemma split_on_find:
  "split_on c s =
     (case index_of c s of None \<Rightarrow> [s] | Some i \<Rightarrow> take i s # split_on c (drop (Suc i) s))"
proof (cases "index_of c s")
  case None
  then have "c \<notin> set s" by (simp add: index_of_None)
  with None show ?thesis by (simp add: split_on_none)
next
  case (Some i)
  then have "c \<notin> set (take i s)" by (simp add: index_of_Some)
  with Some show ?thesis
    using index_of_split [OF Some] split_on_append [of c "take i s" "drop (Suc i) s"] by simp
qed

lemma set_split_on: "(\<Union>p \<in> set (split_on c s). set p) = set s - {c}"
proof (induction s)
  case Nil
  then show ?case by simp
next
  case (Cons x xs)
  obtain p ps where ps: "split_on c xs = p # ps"
    by (meson list.exhaust split_on_nonempty)
  show ?case using Cons.IH by (auto simp: ps)
qed

lemma split_on_chars:
  "(\<forall>p \<in> set (split_on c s). \<forall>x \<in> set p. P x) \<longleftrightarrow> (\<forall>x \<in> set s. x \<noteq> c \<longrightarrow> P x)"
  using set_split_on [of c s] by blast

lemma length_split_on: "length (split_on c s) = Suc (count_list s c)"
  by (induction s) auto

section \<open>Case-insensitive reading\<close>

text \<open>A byte that is no letter is found at the same places after lower-casing.\<close>

lemma lower_eq_nonletter: "\<not> is_alpha x \<Longrightarrow> lower c = x \<longleftrightarrow> c = x"
proof -
  assume x: "\<not> is_alpha x"
  have "lower c = c \<or> (is_alpha c \<and> is_alpha (lower c))"
  proof (cases "65 \<le> code c \<and> code c \<le> 90")
    case True
    then have "is_alpha c" by (simp add: is_alpha_def)
    then show ?thesis by simp
  next
    case False
    then show ?thesis by (auto simp: lower_def)
  qed
  with x show ?thesis by metis
qed

lemma index_of_lower: "\<not> is_alpha x \<Longrightarrow> index_of x (map lower s) = index_of x s"
  by (induction s) (auto simp: lower_eq_nonletter)

lemma map_option_append_Nil: "map_option ((@) []) x = x"
  by (cases x) simp_all

lemma append_snoc_fun: "(@) (a @ [k]) = (\<lambda>y. a @ k # y)"
  by (rule ext) simp

lemma split_on_lower:
  "\<not> is_alpha x \<Longrightarrow> split_on x (map lower s) = map (map lower) (split_on x s)"
  by (induction s) (auto simp: lower_eq_nonletter map_tl hd_map)

section \<open>Decimal numbers\<close>

definition digit_value :: "char \<Rightarrow> nat" where
  "digit_value c = code c - 48"

text \<open>The value of a string of digits, most significant first, on top of an accumulated one.\<close>

definition dec_from :: "nat \<Rightarrow> string \<Rightarrow> nat" where
  "dec_from acc s = foldl (\<lambda>n c. n * 10 + digit_value c) acc s"

abbreviation dec_value :: "string \<Rightarrow> nat" where
  "dec_value \<equiv> dec_from 0"

lemma dec_from_simps [simp]:
  "dec_from t [] = t" "dec_from t (c # s) = dec_from (t * 10 + digit_value c) s"
  by (simp_all add: dec_from_def)

lemma dec_from_append: "dec_from t (a @ b) = dec_from (dec_from t a) b"
  by (simp add: dec_from_def)

lemma dec_from_ge: "t \<le> dec_from t s"
proof (induction s arbitrary: t)
  case (Cons c s)
  have "t \<le> t * 10 + digit_value c" by simp
  also have "\<dots> \<le> dec_from (t * 10 + digit_value c) s" by (rule Cons.IH)
  finally show ?case by simp
qed simp

lemma digit_value_le: "is_digit c \<Longrightarrow> digit_value c \<le> 9"
  unfolding is_digit_def digit_value_def by linarith

lemma dec_from_less:
  "\<forall>c \<in> set s. is_digit c \<Longrightarrow> dec_from t s < (t + 1) * 10 ^ length s"
proof (induction s arbitrary: t)
  case Nil
  then show ?case by simp
next
  case (Cons c s)
  then have "dec_from (t * 10 + digit_value c) s < (t * 10 + digit_value c + 1) * 10 ^ length s"
    by simp
  also have "\<dots> \<le> (t * 10 + 10) * 10 ^ length s"
    using Cons.prems digit_value_le [of c] by (intro mult_right_mono) simp_all
  finally show ?case by (simp add: algebra_simps)
qed

text \<open>
  The accumulate-and-check loop of the decimal parsers: reject a byte that is no digit, and a total
  above \<open>maximum\<close> as soon as it appears.
\<close>

fun parse_digits :: "nat \<Rightarrow> nat \<Rightarrow> string \<Rightarrow> nat option" where
  "parse_digits maximum acc [] = Some acc"
| "parse_digits maximum acc (c # s) =
     (if \<not> is_digit c then None
      else let acc' = acc * 10 + digit_value c
           in if acc' > maximum then None else parse_digits maximum acc' s)"

lemma parse_digits_spec:
  "acc \<le> maximum \<Longrightarrow> parse_digits maximum acc s =
     (if (\<forall>c \<in> set s. is_digit c) \<and> dec_from acc s \<le> maximum
      then Some (dec_from acc s) else None)"
proof (induction s arbitrary: acc)
  case Nil
  then show ?case by simp
next
  case (Cons c s)
  show ?case
  proof (cases "acc * 10 + digit_value c \<le> maximum")
    case True
    then show ?thesis using Cons.IH [OF True] by (simp add: Let_def)
  next
    case False
    then have "\<not> dec_from acc (c # s) \<le> maximum"
      using dec_from_ge [of "acc * 10 + digit_value c" s] by simp
    with False show ?thesis by (simp add: Let_def)
  qed
qed

lemma parse_digits_lower: "parse_digits m n (map lower s) = parse_digits m n s"
  by (induction s arbitrary: n) (auto simp: Let_def digit_value_def)

text \<open>The canonical decimal text of a number.\<close>

fun dec_string :: "nat \<Rightarrow> string" where
  "dec_string n =
     (if n < 10 then [char_of (48 + n)] else dec_string (n div 10) @ [char_of (48 + n mod 10)])"

declare dec_string.simps [simp del]

lemma code_digit_char: "n < 10 \<Longrightarrow> code (char_of (48 + n)) = 48 + n"
  by (simp add: code_def)

lemma digit_char [simp]:
  "n < 10 \<Longrightarrow> is_digit (char_of (48 + n))" "n < 10 \<Longrightarrow> digit_value (char_of (48 + n)) = n"
  by (simp_all add: is_digit_def digit_value_def code_digit_char)

lemma dec_string_digits: "c \<in> set (dec_string n) \<Longrightarrow> is_digit c"
proof (induction n rule: dec_string.induct)
  case (1 n)
  then show ?case
    by (subst (asm) dec_string.simps) (auto split: if_splits)
qed

lemma dec_string_nonempty [simp]: "dec_string n \<noteq> []"
  by (subst dec_string.simps) simp

lemma dec_value_string [simp]: "dec_value (dec_string n) = n"
proof (induction n rule: dec_string.induct)
  case (1 n)
  then show ?case
    by (subst dec_string.simps) (auto simp: dec_from_append)
qed

lemma dec_string_length: "n < 10 ^ Suc k \<Longrightarrow> length (dec_string n) \<le> Suc k"
proof (induction k arbitrary: n)
  case 0
  then show ?case by (subst dec_string.simps) simp
next
  case (Suc k)
  show ?case
  proof (cases "n < 10")
    case True
    then show ?thesis by (subst dec_string.simps) simp
  next
    case False
    have "n div 10 < 10 ^ Suc k" using Suc.prems by (simp add: less_mult_imp_div_less)
    then have "length (dec_string (n div 10)) \<le> Suc k" by (rule Suc.IH)
    with False show ?thesis by (subst dec_string.simps) simp
  qed
qed

lemma W_empty [simp]: "W s = [] \<longleftrightarrow> s = []"
  by (simp add: W_def)

lemma map_option_find: "map_option f (find (\<lambda>x. P (f x)) xs) = find P (map f xs)"
  by (induction xs) auto

lemma split_on_W: "split_on (of_nat (code c)) (W s) = map W (split_on c s)"
proof (induction s)
  case Nil
  then show ?case by (simp add: W_simps)
next
  case (Cons x s)
  have "of_nat (code x) = (of_nat (code c) :: u16) \<longleftrightarrow> x = c"
    using W_inject [of "[x]" "[c]"] by (simp add: W_simps del: W_inject)
  with Cons show ?case by (simp add: W_simps map_tl hd_map)
qed

lemma split_on_snoc: "split_on c (t @ [c]) = split_on c t @ [[]]"
  by (induction t) auto

end
