(* ===== verification/Action_Targets.thy ===== *)
theory Action_Targets
  imports Text_Prelude
begin

unbundle bit_operations_syntax

text \<open>
  The action target grammars: \<open>Common/Actions/ActionTargets.cpp\<close> (every parser, and
  \<open>ValidateTarget\<close>, which the host applies to each binding) and the action-name helpers of
  \<open>Common/PlugInterfaces/Action.h\<close>. A parser is option-valued; lengths are bytes.
\<close>

section \<open>Bounds, kinds and flags (Action.h)\<close>

definition kRedXeMaximumActionNameBytes :: nat where "kRedXeMaximumActionNameBytes = 64"
definition kRedXeMaximumActionTargetBytes :: nat where "kRedXeMaximumActionTargetBytes = 512"

datatype RedXeActionTargetKind =
    TargetNone | TargetText | TargetPathOrUri | TargetPath | TargetCommandLine | TargetPageRef
  | TargetWidgetRef | TargetInteger | TargetDelta | TargetEnum | TargetChords | TargetPoint
  | TargetMonitor | TargetWindow | TargetMeeting | TargetNowOrSeconds
  | TargetOther u32

definition FlagTargetOptional :: u32 where "FlagTargetOptional = 1"
definition FlagDestructive :: u32 where "FlagDestructive = 8"
definition FlagMonitorSuffix :: u32 where "FlagMonitorSuffix = 16"
definition FlagWindowSuffix :: u32 where "FlagWindowSuffix = 32"

text \<open>\<open>sizeOk\<close> is the comparison of \<open>sizeBytes\<close> with the size of the structure.\<close>

record RedXeActionDescriptor =
  sizeOk :: bool
  descriptor_flags :: u32
  targetKind :: RedXeActionTargetKind
  targetMinimum :: int
  targetMaximum :: int
  targetOptions :: "string option"

section \<open>Bytes and numbers\<close>

definition EqualsIgnoreCase :: "string \<Rightarrow> string \<Rightarrow> bool" where
  "EqualsIgnoreCase l r \<longleftrightarrow> length l = length r \<and> map lower l = map lower r"

text \<open>
  The label scan of \<open>IsDnsHostName\<close>: \<open>label\<close> is the part of the current label already read (reversed);
  the end of the name closes the last label as a dot does.
\<close>

definition dns_label_ok :: "string \<Rightarrow> bool" where
  "dns_label_ok label \<longleftrightarrow>
     \<not> (label = [] \<or> length label > 63 \<or> hd label = CHR ''-'' \<or> last label = CHR ''-'')"

fun dns_scan :: "string \<Rightarrow> string \<Rightarrow> bool" where
  "dns_scan label [] = dns_label_ok (rev label)"
| "dns_scan label (c # cs) =
     (if c \<noteq> CHR ''.'' then
        (if \<not> is_alpha c \<and> \<not> is_digit c \<and> c \<noteq> CHR ''-'' then False
         else dns_scan (c # label) cs)
      else if \<not> dns_label_ok (rev label) then False
      else dns_scan [] cs)"

definition IsDnsHostName :: "string \<Rightarrow> bool" where
  "IsDnsHostName name \<longleftrightarrow> \<not> (name = [] \<or> length name > 253) \<and> dns_scan [] name"

text \<open>The 64-bit total wraps in the model as it does in the code; \<open>ParseUnsigned_eq\<close> shows that it never does.\<close>

fun unsigned_loop :: "u64 \<Rightarrow> u64 \<Rightarrow> string \<Rightarrow> u64 option" where
  "unsigned_loop maximum acc [] = Some acc"
| "unsigned_loop maximum acc (c # cs) =
     (if \<not> is_digit c then None
      else let next_total = acc * 10 + of_nat (digit_value c)
           in if next_total > maximum then None else unsigned_loop maximum next_total cs)"

definition ParseUnsigned :: "string \<Rightarrow> u64 \<Rightarrow> u64 option" where
  "ParseUnsigned value maximum =
     (if value = [] \<or> length value > 19 then None else unsigned_loop maximum 0 value)"

section \<open>Key chords\<close>

definition ChordModifierControl :: u32 where "ChordModifierControl = 1"
definition ChordModifierShift :: u32 where "ChordModifierShift = 2"
definition ChordModifierAlt :: u32 where "ChordModifierAlt = 4"
definition ChordModifierWin :: u32 where "ChordModifierWin = 8"

definition kMaximumChords :: nat where "kMaximumChords = 8"

record KeyChord =
  modifiers :: u32
  virtualKey :: u16
  extended :: bool

definition KeyChord_init :: KeyChord where
  "KeyChord_init = \<lparr>modifiers = 0, virtualKey = 0, extended = False\<rparr>"

text \<open>The virtual-key codes are those of the Windows headers.\<close>

definition kNamedKeys :: "(string \<times> u16 \<times> bool) list" where
  "kNamedKeys =
    [(''enter'', 0x0D, False),    (''esc'', 0x1B, False),
     (''escape'', 0x1B, False),   (''tab'', 0x09, False),
     (''space'', 0x20, False),    (''backspace'', 0x08, False),
     (''delete'', 0x2E, True),    (''del'', 0x2E, True),
     (''insert'', 0x2D, True),    (''home'', 0x24, True),
     (''end'', 0x23, True),       (''pageup'', 0x21, True),
     (''pagedown'', 0x22, True),  (''left'', 0x25, True),
     (''right'', 0x27, True),     (''up'', 0x26, True),
     (''down'', 0x28, True),      (''printscreen'', 0x2C, True),
     (''pause'', 0x13, False),    (''capslock'', 0x14, False),
     (''numlock'', 0x90, True),   (''scrolllock'', 0x91, False),
     (''apps'', 0x5D, True),      (''num0'', 0x60, False),
     (''num1'', 0x61, False),     (''num2'', 0x62, False),
     (''num3'', 0x63, False),     (''num4'', 0x64, False),
     (''num5'', 0x65, False),     (''num6'', 0x66, False),
     (''num7'', 0x67, False),     (''num8'', 0x68, False),
     (''num9'', 0x69, False),     (''numadd'', 0x6B, False),
     (''numsub'', 0x6D, False),   (''nummul'', 0x6A, False),
     (''numdiv'', 0x6F, True),    (''numdot'', 0x6E, False),
     (''plus'', 0xBB, False),     (''minus'', 0xBD, False),
     (''comma'', 0xBC, False),    (''period'', 0xBE, False),
     (''semicolon'', 0xBA, False), (''quote'', 0xDE, False),
     (''slash'', 0xBF, False),    (''backslash'', 0xDC, False),
     (''lbracket'', 0xDB, False), (''rbracket'', 0xDD, False),
     (''grave'', 0xC0, False),    (''win'', 0x5B, True),
     (''ctrl'', 0x11, False),     (''shift'', 0x10, False),
     (''alt'', 0x12, False)]"

definition hex_digit :: "char \<Rightarrow> u32 option" where
  "hex_digit character =
     (let l = lower character
      in if is_digit l then Some (of_nat (code l - 48))
         else if 97 \<le> code l \<and> code l \<le> 102 then Some (of_nat (code l - 97) + 10)
         else None)"

fun parse_hex :: "u32 \<Rightarrow> string \<Rightarrow> u32 option" where
  "parse_hex value [] = Some value"
| "parse_hex value (c # cs) =
     (case hex_digit c of None \<Rightarrow> None | Some digit \<Rightarrow> parse_hex (push_bit 4 value OR digit) cs)"

definition ParseKeyName :: "string \<Rightarrow> KeyChord \<Rightarrow> KeyChord option" where
  "ParseKeyName name chord =
     (if name = [] then None
      else if length name = 1 then
        (let character = lower (name ! 0)
         in if 97 \<le> code character \<and> code character \<le> 122
            then Some (chord\<lparr>virtualKey := of_nat (65 + (code character - 97))\<rparr>)
            else if is_digit character then Some (chord\<lparr>virtualKey := of_nat (code character)\<rparr>)
            else None)
      else if (name ! 0 = CHR ''F'' \<or> name ! 0 = CHR ''f'') \<and> length name \<le> 3 then
        (case ParseUnsigned (drop 1 name) 24 of
           Some number \<Rightarrow>
             (if number \<ge> 1 then Some (chord\<lparr>virtualKey := ucast (0x70 + (number - 1))\<rparr>) else None)
         | None \<Rightarrow> None)
      else if length name > 3 \<and> (name ! 0 = CHR ''V'' \<or> name ! 0 = CHR ''v'') \<and>
              (name ! 1 = CHR ''K'' \<or> name ! 1 = CHR ''k'') \<and> name ! 2 = CHR '':'' then
        (let digits = drop 3 name
         in if digits = [] \<or> length digits > 4 then None
            else case parse_hex 0 digits of
                   None \<Rightarrow> None
                 | Some value \<Rightarrow>
                     (if value = 0 \<or> value > 0xFE then None
                      else Some (chord\<lparr>virtualKey := ucast value\<rparr>)))
      else case find (\<lambda>(n, _, _). EqualsIgnoreCase name n) kNamedKeys of
             Some (_, vk, ext) \<Rightarrow> Some (chord\<lparr>virtualKey := vk, extended := ext\<rparr>)
           | None \<Rightarrow> None)"

definition modifier_bit :: "string \<Rightarrow> u32 option" where
  "modifier_bit m =
     (if EqualsIgnoreCase m ''ctrl'' \<or> EqualsIgnoreCase m ''control'' then Some ChordModifierControl
      else if EqualsIgnoreCase m ''shift'' then Some ChordModifierShift
      else if EqualsIgnoreCase m ''alt'' then Some ChordModifierAlt
      else if EqualsIgnoreCase m ''win'' then Some ChordModifierWin
      else None)"

text \<open>The modifier loop of \<open>ParseChord\<close>: what is left of the text, and the modifiers read.\<close>

function chord_modifiers :: "string \<Rightarrow> u32 \<Rightarrow> (string \<times> u32) option" where
  "chord_modifiers text mods =
     (case index_of CHR ''+'' text of
        None \<Rightarrow> Some (text, mods)
      | Some at \<Rightarrow>
          (if at + 1 = length text then Some (text, mods)
           else case modifier_bit (take at text) of
                  None \<Rightarrow> None
                | Some b \<Rightarrow> chord_modifiers (drop (at + 1) text) (mods OR b)))"
  by pat_completeness auto
termination
  by (relation "measure (\<lambda>(text, _). length text)") (auto simp: index_of_Some)

declare chord_modifiers.simps [simp del]

definition ParseChord :: "string \<Rightarrow> KeyChord option" where
  "ParseChord text =
     (if text = [] then None
      else case chord_modifiers text 0 of
             None \<Rightarrow> None
           | Some (rest, mods) \<Rightarrow>
               (if rest = ''+'' then Some (KeyChord_init\<lparr>modifiers := mods, virtualKey := 0xBB\<rparr>)
                else ParseKeyName rest (KeyChord_init\<lparr>modifiers := mods\<rparr>)))"

text \<open>The chord loop of \<open>ParseChords\<close>, with the chords read so far.\<close>

function parse_chord_list :: "string \<Rightarrow> KeyChord list \<Rightarrow> KeyChord list option" where
  "parse_chord_list value acc =
     (let comma = index_of CHR '','' value;
          text = (case comma of None \<Rightarrow> value | Some i \<Rightarrow> take i value)
      in if length acc \<ge> kMaximumChords then None
         else case ParseChord text of
                None \<Rightarrow> None
              | Some chord \<Rightarrow>
                  (case comma of
                     None \<Rightarrow> Some (acc @ [chord])
                   | Some i \<Rightarrow> parse_chord_list (drop (i + 1) value) (acc @ [chord])))"
  by pat_completeness auto
termination
  by (relation "measure (\<lambda>(value, _). length value)")
    (auto simp: index_of_Some dest!: sym [of "Some _" "index_of _ _"])

declare parse_chord_list.simps [simp del]

definition ParseChords :: "string \<Rightarrow> KeyChord list option" where
  "ParseChords value = (if value = [] then None else parse_chord_list value [])"

section \<open>Suffixes, paths and command lines\<close>

text \<open>\<open>SplitSuffix\<close> returns the value part and the suffix, which is empty where there is no \<open>@\<close>.\<close>

definition SplitSuffix :: "string \<Rightarrow> string \<times> string" where
  "SplitSuffix target =
     (case last_index_of CHR ''@'' target of
        None \<Rightarrow> (target, [])
      | Some at \<Rightarrow> (take at target, drop (at + 1) target))"

definition IsAbsolutePath :: "string \<Rightarrow> bool" where
  "IsAbsolutePath value =
     (if length value \<ge> 3 \<and> is_alpha (value ! 0) \<and> value ! 1 = CHR '':'' \<and>
         (value ! 2 = CHR 0x5C \<or> value ! 2 = CHR ''/'')
      then index_of CHR 0x00 value = None
      else length value \<ge> 3 \<and> value ! 0 = CHR 0x5C \<and> value ! 1 = CHR 0x5C \<and> value ! 2 \<noteq> CHR 0x5C)"

definition IsUri :: "string \<Rightarrow> bool" where
  "IsUri value =
     (let scheme = length (takeWhile is_alpha value)
      in scheme \<ge> 2 \<and> scheme < length value \<and> value ! scheme = CHR '':'')"

definition IsPathOrUri :: "string \<Rightarrow> bool" where
  "IsPathOrUri value \<longleftrightarrow> IsAbsolutePath value \<or> IsUri value"

record CommandLine =
  executable :: string
  arguments :: string

definition ParseCommandLine :: "string \<Rightarrow> CommandLine option" where
  "ParseCommandLine value =
     (if value = [] then None
      else
        (let parts =
           (if value ! 0 = CHR 0x22 then
              (case index_of CHR 0x22 (drop 1 value) of
                 None \<Rightarrow> None
               | Some i \<Rightarrow> (if i = 0 then None
                            else Some (take i (drop 1 value), drop (i + 2) value)))
            else
              (case index_of CHR '' '' value of
                 None \<Rightarrow> Some (value, [])
               | Some space \<Rightarrow> Some (take space value, drop space value)))
         in case parts of
              None \<Rightarrow> None
            | Some (exe, rest) \<Rightarrow>
                (if \<not> IsAbsolutePath exe then None
                 else Some \<lparr>executable = exe, arguments = dropWhile (\<lambda>c. c = CHR '' '') rest\<rparr>)))"

definition ParseWidgetRef :: "string \<Rightarrow> (string \<times> u32) option" where
  "ParseWidgetRef value =
     (if value = [] then None
      else
        (let (pageId, number, ok) =
           (case last_index_of CHR ''/'' value of
              None \<Rightarrow> ([], value, True)
            | Some separator \<Rightarrow> (take separator value, drop (separator + 1) value, separator \<noteq> 0))
         in if \<not> ok \<or> length number > 3 then None
            else map_option (\<lambda>parsed. (pageId, ucast parsed)) (ParseUnsigned number 511)))"

section \<open>Integers, deltas, delays and options\<close>

definition ParseInteger :: "string \<Rightarrow> int \<Rightarrow> int \<Rightarrow> int option" where
  "ParseInteger value minimum maximum =
     (if value = [] then None
      else
        (let negative = (value ! 0 = CHR ''-'');
             digits = (if negative then drop 1 value else value)
         in case ParseUnsigned digits 0x7FFFFFFF of
              None \<Rightarrow> None
            | Some magnitude \<Rightarrow>
                (let signedValue = (if negative then - uint magnitude else uint magnitude)
                 in if signedValue < minimum \<or> signedValue > maximum then None
                    else Some signedValue)))"

record Delta =
  delta_value :: int
  delta_relative :: bool

text \<open>
  The span is a 64-bit difference of two 32-bit bounds; the magnitude is cast to 32 bits before its
  sign is applied.
\<close>

definition int32_cast :: "u64 \<Rightarrow> int" where
  "int32_cast n = sint (ucast n :: 32 word)"

definition ParseDelta :: "string \<Rightarrow> int \<Rightarrow> int \<Rightarrow> Delta option" where
  "ParseDelta value minimum maximum =
     (if value = [] then None
      else if value ! 0 = CHR ''+'' \<or> value ! 0 = CHR ''-'' then
        (let span = maximum - minimum
         in case ParseUnsigned (drop 1 value) (word_of_int (if span < 0 then 0 else span)) of
              None \<Rightarrow> None
            | Some magnitude \<Rightarrow>
                (if magnitude = 0 then None
                 else Some \<lparr>delta_value = (if value ! 0 = CHR ''-'' then - int32_cast magnitude
                                           else int32_cast magnitude),
                            delta_relative = True\<rparr>))
      else map_option (\<lambda>v. \<lparr>delta_value = v, delta_relative = False\<rparr>)
             (ParseInteger value minimum maximum))"

record NowOrSeconds =
  seconds :: u32
  now_flag :: bool

definition ParseNowOrSeconds :: "string \<Rightarrow> int \<Rightarrow> int \<Rightarrow> NowOrSeconds option" where
  "ParseNowOrSeconds value minimum maximum =
     (if value = ''now'' then Some \<lparr>seconds = 0, now_flag = True\<rparr>
      else map_option (\<lambda>s. \<lparr>seconds = word_of_int s, now_flag = False\<rparr>)
             (ParseInteger value (if minimum < 0 then 0 else minimum) maximum))"

text \<open>The option scan of \<open>ParseEnum\<close>: an empty remainder ends it, so a trailing bar adds no option.\<close>

function enum_scan :: "string \<Rightarrow> string \<Rightarrow> u32 \<Rightarrow> u32 option" where
  "enum_scan value remaining position =
     (if remaining = [] then None
      else
        (let bar = index_of CHR ''|'' remaining;
             opt = (case bar of None \<Rightarrow> remaining | Some i \<Rightarrow> take i remaining)
         in if opt = value then Some position
            else case bar of
                   None \<Rightarrow> None
                 | Some i \<Rightarrow> enum_scan value (drop (i + 1) remaining) (position + 1)))"
  by pat_completeness auto
termination
  by (relation "measure (\<lambda>(_, remaining, _). length remaining)")
    (auto simp: index_of_Some dest!: sym [of "Some _" "index_of _ _"])

declare enum_scan.simps [simp del]

definition ParseEnum :: "string \<Rightarrow> string option \<Rightarrow> u32 option" where
  "ParseEnum value options =
     (case options of
        None \<Rightarrow> None
      | Some text \<Rightarrow> (if value = [] then None else enum_scan value text 0))"

section \<open>Monitor, window and point selectors\<close>

datatype MonitorKind =
    MonitorPrimary | MonitorXeneon | MonitorAll | MonitorIndex | MonitorName | MonitorSecondary

record MonitorSelector =
  mon_kind :: MonitorKind
  mon_index :: u32
  mon_name :: string

definition MonitorSelector_init :: MonitorSelector where
  "MonitorSelector_init = \<lparr>mon_kind = MonitorPrimary, mon_index = 0, mon_name = []\<rparr>"

definition ParseMonitorSelector :: "string \<Rightarrow> bool \<Rightarrow> MonitorSelector option" where
  "ParseMonitorSelector value allowAll =
     (if value = ''primary'' then Some (MonitorSelector_init\<lparr>mon_kind := MonitorPrimary\<rparr>)
      else if value = ''secondary'' then Some (MonitorSelector_init\<lparr>mon_kind := MonitorSecondary\<rparr>)
      else if value = ''xeneon'' then Some (MonitorSelector_init\<lparr>mon_kind := MonitorXeneon\<rparr>)
      else if value = ''all'' then
        (if allowAll then Some (MonitorSelector_init\<lparr>mon_kind := MonitorAll\<rparr>) else None)
      else if starts_with value ''name:'' then
        (let name = drop 5 value
         in if name \<noteq> [] \<and> length name \<le> 128
            then Some (MonitorSelector_init\<lparr>mon_kind := MonitorName, mon_name := name\<rparr>) else None)
      else
        (case ParseUnsigned value 64 of
           None \<Rightarrow> None
         | Some index \<Rightarrow>
             (if index \<ge> 1
              then Some (MonitorSelector_init\<lparr>mon_kind := MonitorIndex, mon_index := ucast index\<rparr>)
              else None)))"

definition kSecondaryMonitorTopRank :: u32 where "kSecondaryMonitorTopRank = 2"

definition SecondaryMonitorRank :: "bool \<Rightarrow> bool \<Rightarrow> u32" where
  "SecondaryMonitorRank primary xeneon =
     (if primary then 0 else if xeneon then 1 else kSecondaryMonitorTopRank)"

datatype WindowKind = WindowForeground | WindowExecutable | WindowClass | WindowTitle

record WindowSelector =
  win_kind :: WindowKind
  win_value :: string

definition ParseWindowSelector :: "string \<Rightarrow> WindowSelector option" where
  "ParseWindowSelector value =
     (let bounded = (\<lambda>kind v. if v \<noteq> [] \<and> length v \<le> 260
                              then Some \<lparr>win_kind = kind, win_value = v\<rparr> else None)
      in if value = ''foreground'' then Some \<lparr>win_kind = WindowForeground, win_value = []\<rparr>
         else if starts_with value ''exe:'' then bounded WindowExecutable (drop 4 value)
         else if starts_with value ''class:'' then bounded WindowClass (drop 6 value)
         else if starts_with value ''title:'' then bounded WindowTitle (drop 6 value)
         else None)"

record ActionPoint =
  point_x :: int
  point_y :: int
  point_relative :: bool
  point_center :: bool
  point_monitor :: "MonitorSelector option"

definition kPointLimit :: int where "kPointLimit = 65535"

text \<open>One signed coordinate of a relative point: a leading \<open>+\<close> is dropped before the integer is read.\<close>

definition relative_coordinate :: "string \<Rightarrow> int option" where
  "relative_coordinate v =
     ParseInteger (if v ! 0 = CHR ''+'' then drop 1 v else v) (- kPointLimit) kPointLimit"

definition ParsePoint :: "string \<Rightarrow> ActionPoint option" where
  "ParsePoint value =
     (let (bare, sfx) = SplitSuffix value;
          has_at = (sfx \<noteq> [] \<or> index_of CHR ''@'' value \<noteq> None);
          monitor = ParseMonitorSelector sfx False
      in if has_at \<and> monitor = None then None
         else
           (let base = \<lparr>point_x = 0, point_y = 0, point_relative = False, point_center = False,
                        point_monitor = (if has_at then monitor else None)\<rparr>
            in if bare = ''center'' then Some (base\<lparr>point_center := True\<rparr>)
               else case index_of CHR '','' bare of
                      None \<Rightarrow> None
                    | Some comma \<Rightarrow>
                        (let first = take comma bare; second = drop (comma + 1) bare
                         in if first = [] \<or> second = [] then None
                            else
                              (let firstRelative = (first ! 0 = CHR ''+'' \<or> first ! 0 = CHR ''-'');
                                   secondRelative = (second ! 0 = CHR ''+'' \<or> second ! 0 = CHR ''-'')
                               in if firstRelative \<noteq> secondRelative then None
                                  else
                                    (let read = (if firstRelative then relative_coordinate
                                                 else (\<lambda>v. ParseInteger v (- kPointLimit) kPointLimit))
                                     in case (read first, read second) of
                                          (Some x, Some y) \<Rightarrow>
                                            Some (base\<lparr>point_x := x, point_y := y,
                                                       point_relative := firstRelative\<rparr>)
                                        | _ \<Rightarrow> None)))))"

section \<open>Meeting links\<close>

definition meeting_byte_ok :: "char \<Rightarrow> bool" where
  "meeting_byte_ok c \<longleftrightarrow>
     \<not> (code c < 0x21 \<or> code c > 0x7e \<or> c = CHR 0x22 \<or> c = CHR ''<'' \<or> c = CHR ''>'' \<or> c = CHR 0x5C)"

definition meeting_id :: "string \<Rightarrow> string" where
  "meeting_id path =
     (if starts_with path ''/j/'' then drop 3 path
      else if starts_with path ''/wc/join/'' then drop 9 path
      else if length path > 9 \<and> starts_with path ''/wc/'' \<and> ends_with path ''/join''
      then take (length path - 9) (drop 4 path)
      else [])"

definition is_zoom_host :: "string \<Rightarrow> bool" where
  "is_zoom_host host \<longleftrightarrow>
     EqualsIgnoreCase host ''zoom.us'' \<or>
     (length host > 8 \<and> EqualsIgnoreCase (drop (length host - 8) host) ''.zoom.us'')"

definition ParseMeeting :: "string \<Rightarrow> bool" where
  "ParseMeeting value =
     (if length value > kRedXeMaximumActionTargetBytes \<or> \<not> starts_with value ''https://'' then False
      else if \<not> list_all meeting_byte_ok value then False
      else
        (let rest = drop 8 value
         in case index_of CHR ''/'' rest of
              None \<Rightarrow> False
            | Some slash \<Rightarrow>
                (let host = take slash rest
                 in if \<not> IsDnsHostName host then False
                    else if \<not> is_zoom_host host then False
                    else
                      (let path = takeWhile (\<lambda>c. c \<noteq> CHR ''?'' \<and> c \<noteq> CHR ''#'') (drop slash rest);
                           i = meeting_id path
                       in length i \<ge> 9 \<and> length i \<le> 11 \<and> ParseUnsigned i 99999999999 \<noteq> None))))"

section \<open>Validation\<close>

text \<open>\<open>ValidateSuffixes\<close> may strip an accepted suffix from the value; \<open>None\<close> is its \<open>false\<close>.\<close>

definition ValidateSuffixes :: "RedXeActionDescriptor \<Rightarrow> string \<Rightarrow> string option" where
  "ValidateSuffixes descriptor value =
     (if targetKind descriptor = TargetPoint then Some value
      else
        (let (bare, sfx) = SplitSuffix value
         in if sfx = [] \<and> index_of CHR ''@'' value = None then Some value
            else if descriptor_flags descriptor AND FlagMonitorSuffix \<noteq> 0
                    \<and> ParseMonitorSelector sfx True \<noteq> None then Some bare
            else if descriptor_flags descriptor AND FlagWindowSuffix \<noteq> 0
                    \<and> ParseWindowSelector sfx \<noteq> None then Some bare
            else if targetKind descriptor \<in> {TargetText, TargetPathOrUri, TargetCommandLine,
                                             TargetMeeting, TargetPath}
            then Some value else None))"

text \<open>The switch of \<open>ValidateTarget\<close>; \<open>ParsePoint\<close> alone reads the whole target.\<close>

fun target_valid :: "RedXeActionDescriptor \<Rightarrow> RedXeActionTargetKind \<Rightarrow> string \<Rightarrow> string \<Rightarrow> bool" where
  "target_valid d TargetText target value = (value \<noteq> [])"
| "target_valid d TargetPathOrUri target value = IsPathOrUri value"
| "target_valid d TargetPath target value = IsAbsolutePath value"
| "target_valid d TargetCommandLine target value = (ParseCommandLine value \<noteq> None)"
| "target_valid d TargetPageRef target value = (value \<noteq> [] \<and> length value \<le> 128)"
| "target_valid d TargetWidgetRef target value = (ParseWidgetRef value \<noteq> None)"
| "target_valid d TargetInteger target value =
     (ParseInteger value (targetMinimum d) (targetMaximum d) \<noteq> None)"
| "target_valid d TargetDelta target value =
     (ParseDelta value (targetMinimum d) (targetMaximum d) \<noteq> None)"
| "target_valid d TargetEnum target value = (ParseEnum value (targetOptions d) \<noteq> None)"
| "target_valid d TargetChords target value = (ParseChords value \<noteq> None)"
| "target_valid d TargetPoint target value = (ParsePoint target \<noteq> None)"
| "target_valid d TargetMonitor target value = (ParseMonitorSelector value False \<noteq> None)"
| "target_valid d TargetWindow target value = (ParseWindowSelector value \<noteq> None)"
| "target_valid d TargetMeeting target value = ParseMeeting value"
| "target_valid d TargetNowOrSeconds target value =
     (ParseNowOrSeconds value (targetMinimum d) (targetMaximum d) \<noteq> None)"
| "target_valid d _ target value = False"

text \<open>\<open>True\<close> is \<open>S_OK\<close>, \<open>False\<close> is \<open>E_INVALIDARG\<close>.\<close>

definition ValidateTarget :: "RedXeActionDescriptor \<Rightarrow> string \<Rightarrow> bool" where
  "ValidateTarget descriptor target =
     (if \<not> sizeOk descriptor then False
      else if length target > kRedXeMaximumActionTargetBytes
              \<or> index_of CHR 0x00 target \<noteq> None then False
      else if targetKind descriptor = TargetNone then True
      else if target = [] then
        descriptor_flags descriptor AND FlagTargetOptional \<noteq> 0
        \<and> descriptor_flags descriptor AND FlagDestructive = 0
      else case ValidateSuffixes descriptor target of
             None \<Rightarrow> False
           | Some value \<Rightarrow> target_valid descriptor (targetKind descriptor) target value)"

section \<open>Unsigned numbers\<close>

lemma unsigned_loop_eq:
  "(unat acc + 1) * 10 ^ length s \<le> 2 ^ 64 \<Longrightarrow>
   unsigned_loop m acc s = map_option of_nat (parse_digits (unat m) (unat acc) s)"
proof (induction s arbitrary: acc)
  case Nil
  then show ?case by simp
next
  case (Cons c s)
  show ?case
  proof (cases "is_digit c")
    case False
    then show ?thesis by simp
  next
    case True
    then have d: "digit_value c \<le> 9" by (rule digit_value_le)
    let ?n = "unat acc * 10 + digit_value c"
    have le: "(?n + 1) * 10 ^ length s \<le> 2 ^ 64"
    proof -
      have "(?n + 1) * 10 ^ length s \<le> ((unat acc + 1) * 10) * 10 ^ length s"
        using d by (intro mult_right_mono) simp_all
      also have "\<dots> = (unat acc + 1) * 10 ^ length (c # s)" by (simp add: algebra_simps)
      also have "\<dots> \<le> 2 ^ 64" by (rule Cons.prems)
      finally show ?thesis .
    qed
    have "?n + 1 \<le> (?n + 1) * 10 ^ length s" by (rule le_mult_pos) simp
    with le have n: "?n < 2 ^ 64" by linarith
    let ?w = "acc * 10 + of_nat (digit_value c) :: u64"
    have "?w = of_nat ?n" by simp
    with n have w: "unat ?w = ?n" by (simp only: unat_of_nat_u64)
    have "?w > m \<longleftrightarrow> ?n > unat m" by (simp add: word_less_nat_alt w)
    then show ?thesis
      using True Cons.IH [of ?w] le w by (simp add: Let_def)
  qed
qed

lemma ParseUnsigned_eq:
  "ParseUnsigned s m =
     (if s \<noteq> [] \<and> length s \<le> 19 \<and> (\<forall>c \<in> set s. is_digit c) \<and> dec_value s \<le> unat m
      then Some (of_nat (dec_value s)) else None)"
proof (cases "length s \<le> 19")
  case False
  then show ?thesis by (simp add: ParseUnsigned_def)
next
  case True
  then have "(10::nat) ^ length s \<le> 10 ^ 19" by (intro power_increasing) simp_all
  also have "\<dots> \<le> 2 ^ 64" by simp
  finally have "unsigned_loop m 0 s = map_option of_nat (parse_digits (unat m) 0 s)"
    using unsigned_loop_eq [of 0 s m] by simp
  with True show ?thesis by (simp add: ParseUnsigned_def parse_digits_spec)
qed

lemma ParseUnsigned_iff:
  "ParseUnsigned s m = Some n \<longleftrightarrow>
     s \<noteq> [] \<and> length s \<le> 19 \<and> (\<forall>c \<in> set s. is_digit c) \<and> unat n = dec_value s
     \<and> dec_value s \<le> unat m"
proof -
  have "dec_value s < 2 ^ 64" if "dec_value s \<le> unat m"
    using that unsigned_less [of m, where ?'a = nat] by simp
  then show ?thesis
    by (auto simp: ParseUnsigned_eq of_nat_eq_u64 eq_commute [of _ n])
qed

lemma ParseUnsigned_le: "ParseUnsigned s m = Some n \<Longrightarrow> n \<le> m"
  by (simp add: ParseUnsigned_iff word_le_nat_alt)

lemma ParseUnsigned_dec_string:
  assumes "n \<le> unat m" "n < 10 ^ 19"
  shows "ParseUnsigned (dec_string n) m = Some (of_nat n)"
  using assms dec_string_length [of n 18] dec_string_digits [of _ n]
  by (auto simp: ParseUnsigned_eq)

section \<open>Hosts\<close>

lemma dns_scan_split:
  "dns_scan lab s \<longleftrightarrow>
     (\<forall>c \<in> set s. c \<noteq> CHR ''.'' \<longrightarrow> is_alpha c \<or> is_digit c \<or> c = CHR ''-'')
     \<and> dns_label_ok (rev lab @ hd (split_on CHR ''.'' s))
     \<and> list_all dns_label_ok (tl (split_on CHR ''.'' s))"
proof (induction s arbitrary: lab)
  case Nil
  then show ?case by simp
next
  case (Cons c s)
  obtain p ps where ps: "split_on CHR ''.'' s = p # ps"
    by (meson list.exhaust split_on_nonempty)
  show ?case
    using Cons.IH [of "c # lab"] Cons.IH [of "[]"] by (auto simp: ps)
qed

lemma IsDnsHostName_eq:
  "IsDnsHostName name \<longleftrightarrow>
     name \<noteq> [] \<and> length name \<le> 253 \<and>
     (\<forall>label \<in> set (split_on CHR ''.'' name).
        label \<noteq> [] \<and> length label \<le> 63 \<and> hd label \<noteq> CHR ''-'' \<and> last label \<noteq> CHR ''-'' \<and>
        (\<forall>c \<in> set label. is_alpha c \<or> is_digit c \<or> c = CHR ''-''))"
proof -
  obtain p ps where ps: "split_on CHR ''.'' name = p # ps"
    by (meson list.exhaust split_on_nonempty)
  have "dns_scan [] name \<longleftrightarrow>
      (\<forall>label \<in> set (split_on CHR ''.'' name).
         \<forall>c \<in> set label. is_alpha c \<or> is_digit c \<or> c = CHR ''-'')
      \<and> (\<forall>label \<in> set (split_on CHR ''.'' name). dns_label_ok label)"
    unfolding split_on_chars dns_scan_split by (auto simp: ps list_all_iff)
  then show ?thesis
    unfolding IsDnsHostName_def dns_label_ok_def by (auto simp: not_less)
qed

section \<open>Suffix\<close>

lemma SplitSuffix_join: "CHR ''@'' \<notin> set sfx \<Longrightarrow> SplitSuffix (v @ CHR ''@'' # sfx) = (v, sfx)"
  by (simp add: SplitSuffix_def last_index_of_append)

lemma SplitSuffix_cases:
  "(CHR ''@'' \<notin> set t \<and> SplitSuffix t = (t, [])) \<or>
   (\<exists>v sfx. t = v @ CHR ''@'' # sfx \<and> CHR ''@'' \<notin> set sfx \<and> SplitSuffix t = (v, sfx))"
proof (cases "last_index_of CHR ''@'' t")
  case None
  then have "CHR ''@'' \<notin> set t" by (simp only: last_index_of_None) simp
  with None show ?thesis by (simp add: SplitSuffix_def)
next
  case (Some i)
  then have i: "i < length t" "t ! i = CHR ''@''" "CHR ''@'' \<notin> set (drop (Suc i) t)"
    by (auto simp: last_index_of_Some)
  then have "t = take i t @ CHR ''@'' # drop (Suc i) t" by (metis id_take_nth_drop)
  then show ?thesis using i Some by (auto simp: SplitSuffix_def)
qed

section \<open>Chords\<close>

text \<open>The virtual-key codes \<open>SendInput\<close> accepts: 1 to 254.\<close>

definition sendable_key :: "u16 \<Rightarrow> bool" where
  "sendable_key vk \<longleftrightarrow> 0 < unat vk \<and> unat vk \<le> 254"

lemma kNamedKeys_sendable: "list_all (\<lambda>(_, vk, _). sendable_key vk) kNamedKeys"
  by (simp add: kNamedKeys_def sendable_key_def)

lemma find_kNamedKeys_sendable:
  assumes "find P kNamedKeys = Some (n, vk, e)"
  shows "sendable_key vk"
proof -
  have "(n, vk, e) \<in> set kNamedKeys" using assms by (metis find_Some_iff nth_mem)
  with kNamedKeys_sendable show ?thesis by (auto simp: list_all_iff)
qed

lemma sendable_of_nat: "0 < n \<Longrightarrow> n \<le> 254 \<Longrightarrow> sendable_key (of_nat n)"
  by (simp add: sendable_key_def unat_of_nat_u16)

lemma sendable_letter: "97 \<le> n \<Longrightarrow> n \<le> 122 \<Longrightarrow> sendable_key (of_nat n - 32)"
  using sendable_of_nat [of "n - 32"] by (simp add: of_nat_diff)

lemma sendable_digit: "48 \<le> n \<Longrightarrow> n \<le> 57 \<Longrightarrow> sendable_key (of_nat n)"
  by (rule sendable_of_nat) simp_all

lemma sendable_ucast:
  "w \<noteq> 0 \<Longrightarrow> w \<le> 254 \<Longrightarrow> sendable_key (ucast (w :: u32))"
  by (simp add: sendable_key_def unat_ucast_u16 word_le_nat_alt unat_gt_0)

lemma sendable_function_key:
  assumes "ParseUnsigned s 24 = Some number" "1 \<le> number"
  shows "sendable_key (ucast (111 + number))"
proof -
  have n: "unat number \<le> 24" "1 \<le> unat number"
    using assms(2) ParseUnsigned_le [OF assms(1)] by (simp_all add: word_le_nat_alt)
  then have "unat (111 + number) = 111 + unat number" by (simp add: unat_word_ariths)
  with n show ?thesis by (simp add: sendable_key_def unat_ucast_u16)
qed

lemma ParseKeyName_sendable: "ParseKeyName n c = Some k \<Longrightarrow> sendable_key (virtualKey k)"
  unfolding ParseKeyName_def
  by (auto simp: Let_def is_digit_def not_less not_le
      split: if_splits option.splits
      dest: find_kNamedKeys_sendable
      intro: sendable_digit sendable_letter sendable_ucast sendable_function_key)

lemma ParseChord_sendable: "ParseChord s = Some k \<Longrightarrow> sendable_key (virtualKey k)"
  unfolding ParseChord_def
  by (auto split: if_splits option.splits prod.splits dest: ParseKeyName_sendable)
    (simp add: sendable_key_def)

lemma parse_chord_list_eq:
  "length acc \<le> kMaximumChords \<Longrightarrow>
   parse_chord_list s acc =
     (if length acc + length (split_on CHR '','' s) > kMaximumChords then None
      else map_option ((@) acc) (those (map ParseChord (split_on CHR '','' s))))"
proof (induction s acc rule: parse_chord_list.induct)
  case (1 s acc)
  show ?case
  proof (cases "index_of CHR '','' s")
    case None
    then have "split_on CHR '','' s = [s]" by (simp add: split_on_find)
    with None 1(2) show ?thesis
      by (subst parse_chord_list.simps) (auto simp: Let_def split: option.splits)
  next
    case (Some i)
    then have sp: "split_on CHR '','' s = take i s # split_on CHR '','' (drop (Suc i) s)"
      by (subst split_on_find) simp
    have pos: "0 < length (split_on CHR '','' (drop (Suc i) s))" by simp
    show ?thesis
    proof (cases "length acc < kMaximumChords")
      case False
      then show ?thesis by (subst parse_chord_list.simps) (simp add: Let_def Some sp)
    next
      case True
      show ?thesis
      proof (cases "ParseChord (take i s)")
        case None
        with True show ?thesis by (subst parse_chord_list.simps) (simp add: Let_def Some sp)
      next
        case (Some k)
        have "parse_chord_list (drop (Suc i) s) (acc @ [k]) =
          (if Suc (length acc) + length (split_on CHR '','' (drop (Suc i) s)) > kMaximumChords then None
           else map_option ((@) (acc @ [k])) (those (map ParseChord (split_on CHR '','' (drop (Suc i) s)))))"
          using 1(1) [of "index_of CHR '','' s" "take i s" k i] True Some \<open>index_of CHR '','' s = Some i\<close>
          by simp
        then show ?thesis
          using True Some \<open>index_of CHR '','' s = Some i\<close>
          by (subst parse_chord_list.simps)
            (auto simp: Let_def sp append_snoc_fun option.map_comp comp_def split: option.splits)
      qed
    qed
  qed
qed

lemma ParseChords_eq:
  "ParseChords s =
     (if s = [] \<or> length (split_on CHR '','' s) > 8 then None
      else those (map ParseChord (split_on CHR '','' s)))"
  using parse_chord_list_eq [of "[]" s]
  by (simp add: ParseChords_def kMaximumChords_def map_option_append_Nil)

section \<open>Options\<close>

lemma enum_scan_eq:
  "v \<noteq> [] \<Longrightarrow> enum_scan v s p = map_option (\<lambda>i. p + of_nat i) (index_of v (split_on CHR ''|'' s))"
proof (induction v s p rule: enum_scan.induct)
  case (1 v s p)
  show ?case
  proof (cases "index_of CHR ''|'' s")
    case None
    then show ?thesis
      using 1(2) by (subst enum_scan.simps, subst split_on_find) (auto simp: Let_def)
  next
    case (Some i)
    then have ne: "s \<noteq> []" by auto
    show ?thesis
    proof (cases "take i s = v")
      case True
      with Some ne show ?thesis
        by (subst enum_scan.simps, subst split_on_find) (simp add: Let_def)
    next
      case False
      with Some ne 1(1) [of "Some i" "take i s" i] 1(2) show ?thesis
        by (subst enum_scan.simps, subst split_on_find)
          (simp add: Let_def option.map_comp comp_def add.assoc)
    qed
  qed
qed


lemma EqualsIgnoreCase_lower [simp]: "EqualsIgnoreCase (map lower s) t = EqualsIgnoreCase s t"
  by (simp add: EqualsIgnoreCase_def comp_def)

lemma hex_digit_lower [simp]: "hex_digit (lower c) = hex_digit c"
  by (simp add: hex_digit_def)

lemma parse_hex_lower [simp]: "parse_hex v (map lower s) = parse_hex v s"
  by (induction s arbitrary: v) (auto split: option.splits)

lemma digit_value_lower: "is_digit c \<Longrightarrow> digit_value (lower c) = digit_value c"
  by simp

lemma unsigned_loop_lower [simp]: "unsigned_loop m n (map lower s) = unsigned_loop m n s"
  by (induction s arbitrary: n) (auto simp: Let_def)

lemma ParseUnsigned_lower [simp]: "ParseUnsigned (map lower s) m = ParseUnsigned s m"
  by (simp add: ParseUnsigned_def)

lemma lower_eq_F: "lower c = CHR ''F'' \<or> lower c = CHR ''f'' \<longleftrightarrow> c = CHR ''F'' \<or> c = CHR ''f''"
  by (simp add: lower_def code_def flip: code_inject) 


lemma lower_eq_V: "lower c = CHR ''V'' \<or> lower c = CHR ''v'' \<longleftrightarrow> c = CHR ''V'' \<or> c = CHR ''v''"
  by (simp add: lower_def code_def flip: code_inject) 

lemma lower_eq_K: "lower c = CHR ''K'' \<or> lower c = CHR ''k'' \<longleftrightarrow> c = CHR ''K'' \<or> c = CHR ''k''"
  by (simp add: lower_def code_def flip: code_inject) 

lemma lower_eq_colon: "lower c = CHR '':'' \<longleftrightarrow> c = CHR '':''"
  by (rule lower_eq_nonletter) (simp add: is_alpha_def code_def)

lemma ParseKeyName_lower: "ParseKeyName (map lower n) c = ParseKeyName n c"
proof (cases "n = []")
  case True
  then show ?thesis by simp
next
  case False
  have d: "drop k (map lower n) = map lower (drop k n)" for k by (simp add: drop_map)
  show ?thesis
  proof (cases "length n \<le> 3")
    case True
    with False show ?thesis
      unfolding ParseKeyName_def d
      by (simp add: lower_eq_F cong: if_cong)
  next
    case len: False
    then have n1: "map lower n ! 1 = lower (n ! 1)" "map lower n ! 2 = lower (n ! 2)" by simp_all
    from False len show ?thesis
      unfolding ParseKeyName_def d n1
      by (simp add: lower_eq_V lower_eq_K lower_eq_colon)
  qed
qed

lemma modifier_bit_lower: "modifier_bit (map lower m) = modifier_bit m"
  by (simp add: modifier_bit_def)

lemma index_of_lower_plus: "index_of CHR ''+'' (map lower s) = index_of CHR ''+'' s"
  by (rule index_of_lower) (simp add: is_alpha_def code_def)

lemma chord_modifiers_lower:
  "chord_modifiers (map lower s) m = map_option (map_prod (map lower) id) (chord_modifiers s m)"
proof (induction s m rule: chord_modifiers.induct)
  case (1 s m)
  show ?case
  proof (cases "index_of CHR ''+'' s")
    case None
    then show ?thesis
      by (subst chord_modifiers.simps, subst (2) chord_modifiers.simps) (simp add: index_of_lower_plus)
  next
    case (Some i)
    then show ?thesis
      using 1 [of i]
      by (subst chord_modifiers.simps, subst (2) chord_modifiers.simps)
        (auto simp: index_of_lower_plus take_map modifier_bit_lower drop_map id_def split: option.splits)
  qed
qed

lemma ParseChord_lower: "ParseChord (map lower s) = ParseChord s"
proof -
  have plus: "map lower r = ''+'' \<longleftrightarrow> r = ''+''" for r
    using lower_eq_nonletter [of "CHR ''+''"] by (cases r) (auto simp: is_alpha_def code_def)
  show ?thesis
    by (auto simp: ParseChord_def chord_modifiers_lower ParseKeyName_lower plus split: option.splits prod.splits)
qed

lemma ParseChords_lower: "ParseChords (map lower s) = ParseChords s"
proof -
  have "split_on CHR '','' (map lower s) = map (map lower) (split_on CHR '','' s)"
    by (rule split_on_lower) (simp add: is_alpha_def code_def)
  then show ?thesis by (simp add: ParseChords_eq comp_def ParseChord_lower)
qed


section \<open>Signed integers\<close>

definition int_string :: "int \<Rightarrow> string" where
  "int_string v = (if v < 0 then CHR ''-'' # dec_string (nat (- v)) else dec_string (nat v))"

lemma ParseInteger_iff:
  "ParseInteger s lo hi = Some v \<longleftrightarrow>
     (\<exists>neg ds. s = (if neg then CHR ''-'' # ds else ds) \<and> ds \<noteq> [] \<and> length ds \<le> 19 \<and>
        (\<forall>c \<in> set ds. is_digit c) \<and> dec_value ds \<le> 0x7FFFFFFF \<and>
        v = (if neg then - int (dec_value ds) else int (dec_value ds)) \<and> lo \<le> v \<and> v \<le> hi)"
  (is "?L \<longleftrightarrow> ?R")
proof
  assume ?L
  define neg ds where "neg = (s ! 0 = CHR ''-'')" and "ds = (if neg then drop 1 s else s)"
  from \<open>?L\<close> obtain m where m: "ParseUnsigned ds 0x7FFFFFFF = Some m" "s \<noteq> []"
    and v: "v = (if neg then - uint m else uint m)" "lo \<le> v" "v \<le> hi"
    by (auto simp: ParseInteger_def Let_def neg_def ds_def split: if_splits option.splits)
  have "s = (if neg then CHR ''-'' # ds else ds)"
    using m(2) by (cases s) (simp_all add: neg_def ds_def)
  moreover have "uint m = int (dec_value ds)"
    using m(1) by (simp add: ParseUnsigned_iff uint_nat)
  ultimately show ?R using m v by (auto simp: ParseUnsigned_iff)
next
  assume ?R
  then obtain neg ds where s: "s = (if neg then CHR ''-'' # ds else ds)" and ds: "ds \<noteq> []"
    "length ds \<le> 19" "\<forall>c \<in> set ds. is_digit c" "dec_value ds \<le> 0x7FFFFFFF"
    and v: "v = (if neg then - int (dec_value ds) else int (dec_value ds))" "lo \<le> v" "v \<le> hi"
    by blast
  have "ds ! 0 \<noteq> CHR ''-''"
    using ds(1,3) by (cases ds) (auto simp: is_digit_def code_def)
  moreover have "ParseUnsigned ds 0x7FFFFFFF = Some (of_nat (dec_value ds))"
    using ds by (simp add: ParseUnsigned_eq)
  moreover have "uint (of_nat (dec_value ds) :: u64) = int (dec_value ds)"
    using ds(4) unat_of_nat_u64 [of "dec_value ds"] by (simp add: uint_nat)
  ultimately show ?L using s ds(1) v by (cases neg) (auto simp: ParseInteger_def Let_def)
qed

lemma ParseInteger_bounds: "ParseInteger s lo hi = Some v \<Longrightarrow> lo \<le> v \<and> v \<le> hi"
  by (auto simp: ParseInteger_def Let_def split: if_splits option.splits)

lemma ParseInteger_abs: "ParseInteger s lo hi = Some v \<Longrightarrow> \<bar>v\<bar> < 2 ^ 31"
  by (auto simp: ParseInteger_iff)


lemma ParseInteger_int_string:
  assumes "lo \<le> v" "v \<le> hi" "\<bar>v\<bar> < 2 ^ 31"
  shows "ParseInteger (int_string v) lo hi = Some v"
proof -
  define n where "n = nat \<bar>v\<bar>"
  have "n < 10 ^ Suc 18" using assms(3) by (simp add: n_def)
  then have "length (dec_string n) \<le> Suc 18" by (rule dec_string_length)
  moreover have "int_string v = (if v < 0 then CHR ''-'' # dec_string n else dec_string n)"
    by (simp add: int_string_def n_def)
  moreover have "v = (if v < 0 then - int n else int n)" by (simp add: n_def)
  moreover have "n \<le> 0x7FFFFFFF" using assms(3) by (simp add: n_def)
  ultimately show ?thesis
    using assms(1,2) unfolding ParseInteger_iff
    by (intro exI [of _ "v < 0"] exI [of _ "dec_string n"]) (auto dest: dec_string_digits)
qed

lemma ParseInteger_plus: "ParseInteger (CHR ''+'' # s) lo hi = None"
proof (cases "ParseInteger (CHR ''+'' # s) lo hi")
  case (Some v)
  then show ?thesis by (auto simp: ParseInteger_iff is_digit_def code_def split: if_splits)
qed simp

text \<open>Casting a magnitude below \<open>2 ^ 31\<close> to 32 bits keeps it.\<close>

lemma int32_cast_small:
  assumes "uint m < 2 ^ 31"
  shows "int32_cast m = uint m"
proof -
  have "uint (ucast m :: u32) = uint m"
    using assms by (simp add: unsigned_ucast_eq take_bit_int_eq_self)
  moreover have "signed_take_bit 31 (uint m) = uint m"
    by (rule signed_take_bit_int_eq_self) (use assms order_trans [of _ 0 "uint m"] in simp_all)
  ultimately show ?thesis
    unfolding int32_cast_def by (simp add: sint_uint)
qed

lemma ParseDelta_cases:
  assumes "ParseDelta s lo hi = Some d" "lo \<le> hi" "hi - lo < 2 ^ 31"
  shows "(delta_relative d \<and> delta_value d \<noteq> 0 \<and> \<bar>delta_value d\<bar> \<le> hi - lo) \<or>
         (\<not> delta_relative d \<and> lo \<le> delta_value d \<and> delta_value d \<le> hi)"
proof (cases "s ! 0 = CHR ''+'' \<or> s ! 0 = CHR ''-''")
  case True
  then obtain m where m: "ParseUnsigned (drop 1 s) (word_of_int (hi - lo)) = Some m" "m \<noteq> 0"
    and d: "delta_relative d" "delta_value d = int32_cast m \<or> delta_value d = - int32_cast m"
    using assms(1,2) by (auto simp: ParseDelta_def Let_def split: if_splits option.splits)
  have "uint (word_of_int (hi - lo) :: u64) = hi - lo"
    using assms(2,3) by (subst unsigned_of_int) (simp add: take_bit_int_eq_self)
  with ParseUnsigned_le [OF m(1)] have "uint m \<le> hi - lo"
    by (simp add: word_le_def)
  moreover have "0 < uint m"
    using m(2) unsigned_eq_0_iff [of m, where ?'a = int] unsigned_greater_eq [of m, where ?'a = int]
    by linarith
  ultimately show ?thesis
    using d int32_cast_small [of m] assms(3) by auto
next
  case False
  then show ?thesis
    using assms(1) by (auto simp: ParseDelta_def split: if_splits dest: ParseInteger_bounds)
qed

section \<open>Points\<close>

lemma ParseMonitorSelector_not_all:
  "ParseMonitorSelector s False = Some m \<Longrightarrow> mon_kind m \<noteq> MonitorAll"
  by (auto simp: ParseMonitorSelector_def Let_def MonitorSelector_init_def
      split: if_splits option.splits)

definition point_ok :: "ActionPoint \<Rightarrow> bool" where
  "point_ok p \<longleftrightarrow> \<bar>point_x p\<bar> \<le> kPointLimit \<and> \<bar>point_y p\<bar> \<le> kPointLimit \<and>
     (point_center p \<longrightarrow> point_x p = 0 \<and> point_y p = 0 \<and> \<not> point_relative p) \<and>
     (\<forall>m. point_monitor p = Some m \<longrightarrow> mon_kind m \<noteq> MonitorAll)"

lemma kPointLimit_nonneg [simp]: "0 \<le> kPointLimit"
  by (simp add: kPointLimit_def)

lemma ParseInteger_point: "ParseInteger v (- kPointLimit) kPointLimit = Some x \<Longrightarrow> \<bar>x\<bar> \<le> kPointLimit"
  by (drule ParseInteger_bounds) (simp add: abs_le_iff)

lemma relative_coordinate_bound: "relative_coordinate v = Some x \<Longrightarrow> \<bar>x\<bar> \<le> kPointLimit"
  unfolding relative_coordinate_def by (drule ParseInteger_bounds) (simp add: abs_le_iff)

lemma ParsePoint_ok:
  assumes "ParsePoint v = Some p"
  shows "point_ok p"
  using assms unfolding ParsePoint_def point_ok_def
  by (auto simp: Let_def split: if_splits option.splits prod.splits
      dest: ParseInteger_point relative_coordinate_bound ParseMonitorSelector_not_all)

section \<open>Meeting links\<close>

definition lower_string :: "string \<Rightarrow> string" where
  "lower_string = map lower"

definition meeting_host :: "string \<Rightarrow> bool" where
  "meeting_host h \<longleftrightarrow>
     lower_string h = ''zoom.us'' \<or> (\<exists>sub. sub \<noteq> [] \<and> lower_string h = sub @ ''.zoom.us'')"

lemma zoom_host_lower: "is_zoom_host h \<Longrightarrow> meeting_host h"
proof -
  assume "is_zoom_host h"
  then consider "map lower h = ''zoom.us''"
    | "length h > 8" "map lower (drop (length h - 8) h) = ''.zoom.us''"
    by (auto simp: is_zoom_host_def EqualsIgnoreCase_def lower_def code_def)
  then show ?thesis
  proof cases
    case 1
    then show ?thesis by (simp add: meeting_host_def lower_string_def)
  next
    case 2
    have "map lower h = map lower (take (length h - 8) h) @ map lower (drop (length h - 8) h)"
      by (simp flip: map_append)
    with 2 show ?thesis unfolding meeting_host_def lower_string_def
      by (intro disjI2 exI [of _ "map lower (take (length h - 8) h)"]) auto
  qed
qed

lemma ParseMeeting_parts:
  assumes "ParseMeeting v"
  shows "\<exists>host path. v = ''https://'' @ host @ path \<and> starts_with path ''/'' \<and>
    IsDnsHostName host \<and> meeting_host host \<and> list_all meeting_byte_ok v"
proof -
  define rest where "rest = drop 8 v"
  from assms obtain i where v: "starts_with v ''https://''" "list_all meeting_byte_ok v"
    and i: "index_of CHR ''/'' rest = Some i"
    and host: "IsDnsHostName (take i rest)" "is_zoom_host (take i rest)"
    by (auto simp: ParseMeeting_def Let_def rest_def split: if_splits option.splits)
  have "v = ''https://'' @ rest"
  proof -
    have "prefix ''https://'' v" using v(1) by (simp only: starts_with_iff)
    then obtain t where t: "v = ''https://'' @ t" by (rule prefixE)
    then have "drop 8 v = t" by simp
    with t show ?thesis by (simp add: rest_def)
  qed
  moreover have "rest = take i rest @ CHR ''/'' # drop (Suc i) rest"
    by (rule index_of_split [OF i])
  ultimately show ?thesis
    using v(2) host zoom_host_lower [OF host(2)]
    by (intro exI [of _ "take i rest"] exI [of _ "CHR ''/'' # drop (Suc i) rest"])
      (simp add: starts_with_def)
qed

section \<open>Validation\<close>

lemma ValidateSuffixes_append:
  assumes "targetKind d \<noteq> TargetPoint" "CHR ''@'' \<notin> set sfx"
    "(descriptor_flags d AND FlagMonitorSuffix \<noteq> 0 \<and> ParseMonitorSelector sfx True \<noteq> None) \<or>
     (descriptor_flags d AND FlagWindowSuffix \<noteq> 0 \<and> ParseWindowSelector sfx \<noteq> None)"
  shows "ValidateSuffixes d (v @ CHR ''@'' # sfx) = Some v"
  using assms
  by (auto simp: ValidateSuffixes_def SplitSuffix_join index_of_None)

lemma target_valid_nonempty: "k \<noteq> TargetPoint \<Longrightarrow> \<not> target_valid d k t []"
proof -
  have "ParseUnsigned [] m = None" for m by (simp add: ParseUnsigned_def)
  then have "ParseMonitorSelector [] b = None" for b
    by (simp add: ParseMonitorSelector_def starts_with_def)
  then show "k \<noteq> TargetPoint \<Longrightarrow> \<not> target_valid d k t []"
    by (cases k) (simp_all add: IsPathOrUri_def IsAbsolutePath_def IsUri_def ParseCommandLine_def
        ParseWidgetRef_def ParseInteger_def ParseDelta_def ParseEnum_def ParseChords_def
        ParseWindowSelector_def starts_with_def ParseMeeting_def ParseNowOrSeconds_def
        split: option.splits)
qed

section \<open>Properties\<close>

text \<open>An integer written in decimal within the action's range is read back as itself, the sign
  included.\<close>

lemma ParseInteger_roundtrip:
  assumes "lo \<le> v" "v \<le> hi" "\<bar>v\<bar> < 2 ^ 31"
  shows "ParseInteger (int_string v) lo hi = Some v"
  using assms by (rule ParseInteger_int_string)

lemma ParseInteger_roundtrip_witness: "ParseInteger (int_string (-2147483647)) (-2147483648) 7 = Some (-2147483647)"
  by (rule ParseInteger_roundtrip) simp_all

text \<open>With bounds less than \<open>2 ^ 31\<close> apart, an accepted delta never moves further than the range:
  a relative one is not zero and at most the span either way, an absolute one lies in the range.\<close>

lemma ParseDelta_bounds:
  assumes "ParseDelta s lo hi = Some d" "lo \<le> hi" "hi - lo < 2 ^ 31"
  shows "if delta_relative d then delta_value d \<noteq> 0 \<and> \<bar>delta_value d\<bar> \<le> hi - lo
         else lo \<le> delta_value d \<and> delta_value d \<le> hi"
  using ParseDelta_cases [OF assms] by auto

lemma ParseDelta_bounds_witness:
  "if delta_relative \<lparr>delta_value = -25, delta_relative = True\<rparr>
   then (-25 :: int) \<noteq> 0 \<and> \<bar>-25 :: int\<bar> \<le> 100 - 0 else False"
proof -
  have "ParseDelta ''-25'' 0 100 = Some \<lparr>delta_value = -25, delta_relative = True\<rparr>" by code_simp
  from ParseDelta_bounds [OF this] show ?thesis by simp
qed

text \<open>A DNS host name is exactly a text of at most 253 bytes whose dot-separated labels have 1 to
  63 letters, digits or dashes, with no dash at either end.\<close>

lemma IsDnsHostName_spec:
  "IsDnsHostName name \<longleftrightarrow>
     name \<noteq> [] \<and> length name \<le> 253 \<and>
     (\<forall>label \<in> set (split_on CHR ''.'' name).
        label \<noteq> [] \<and> length label \<le> 63 \<and> hd label \<noteq> CHR ''-'' \<and> last label \<noteq> CHR ''-'' \<and>
        (\<forall>c \<in> set label. is_alpha c \<or> is_digit c \<or> c = CHR ''-''))"
  by (rule IsDnsHostName_eq)

lemma IsDnsHostName_spec_witness: "IsDnsHostName ''us-02.zoom.us''"
  unfolding IsDnsHostName_spec by (simp add: is_alpha_def is_digit_def code_def)

text \<open>C36: an accepted meeting link opens a Zoom host and nothing else: between \<open>https://\<close> and the
  first slash stand only letters, digits, dashes and dots (so no user name, port or escape), and they
  spell \<open>zoom.us\<close> or a proper subdomain of it.\<close>

lemma ParseMeeting_host:
  assumes "ParseMeeting v"
  shows "\<exists>host path. v = ''https://'' @ host @ path \<and> starts_with path ''/'' \<and> meeting_host host \<and>
    list_all (\<lambda>c. is_alpha c \<or> is_digit c \<or> c = CHR ''-'' \<or> c = CHR ''.'') host"
proof -
  obtain host path where v: "v = ''https://'' @ host @ path" "starts_with path ''/''"
    "IsDnsHostName host" "meeting_host host"
    using ParseMeeting_parts [OF assms] by blast
  have "list_all (\<lambda>c. is_alpha c \<or> is_digit c \<or> c = CHR ''-'' \<or> c = CHR ''.'') host"
    using v(3) by (auto simp: IsDnsHostName_def dns_scan_split list_all_iff)
  with v show ?thesis by blast
qed

lemma ParseMeeting_host_witness:
  "\<exists>host path. ''https://us02.zoom.us/j/12345678901'' = ''https://'' @ host @ path \<and>
    starts_with path ''/'' \<and> meeting_host host \<and>
    list_all (\<lambda>c. is_alpha c \<or> is_digit c \<or> c = CHR ''-'' \<or> c = CHR ''.'') host"
  by (rule ParseMeeting_host) code_simp

text \<open>\<open>ParseChords\<close> reads exactly the comma-separated lists of one to eight chords, in order: it
  accepts a text just where every part between commas is a chord, and returns those chords.\<close>

lemma ParseChords_spec:
  "ParseChords s = Some cs \<longleftrightarrow>
     s \<noteq> [] \<and> length cs \<le> kMaximumChords \<and> map ParseChord (split_on CHR '','' s) = map Some cs"
proof -
  have "those ks = Some cs \<longleftrightarrow> ks = map Some cs" for ks :: "KeyChord option list" and cs
    by (induction ks arbitrary: cs) (auto split: option.splits simp: map_eq_Cons_conv Cons_eq_map_conv)
  moreover have "map f l = map Some cs \<Longrightarrow> length l = length cs" for f :: "string \<Rightarrow> KeyChord option" and l
    by (metis length_map)
  ultimately show ?thesis
    by (auto simp: ParseChords_eq kMaximumChords_def)
qed

text \<open>Every chord that \<open>ParseChords\<close> accepts names a virtual key \<open>SendInput\<close> can press (1 to 254),
  and there are one to eight of them.\<close>

lemma ParseChords_sendable:
  assumes "ParseChords s = Some cs"
  shows "1 \<le> length cs \<and> length cs \<le> 8 \<and> list_all (\<lambda>k. sendable_key (virtualKey k)) cs"
proof -
  have those: "those ks = Some cs \<Longrightarrow> length ks = length cs \<and> (\<forall>k \<in> set cs. Some k \<in> set ks)"
    for ks :: "KeyChord option list" and cs
    by (induction ks arbitrary: cs) (auto split: option.splits)
  from assms have t: "those (map ParseChord (split_on CHR '','' s)) = Some cs"
    and le: "length (split_on CHR '','' s) \<le> 8"
    by (auto simp: ParseChords_eq split: if_splits)
  have "0 < length (split_on CHR '','' s)" by simp
  with those [OF t] le show ?thesis
    by (auto simp: list_all_iff Suc_le_eq intro: ParseChord_sendable dest: sym)
qed

lemma ParseChords_sendable_witness:
  "\<exists>cs. ParseChords ''Ctrl+Shift+Esc,vk:5b'' = Some cs \<and> 1 \<le> length cs \<and> length cs \<le> 8 \<and>
     list_all (\<lambda>k. sendable_key (virtualKey k)) cs"
proof -
  have "ParseChords ''Ctrl+Shift+Esc,vk:5b'' \<noteq> None" by code_simp
  then obtain cs where "ParseChords ''Ctrl+Shift+Esc,vk:5b'' = Some cs" by blast
  with ParseChords_sendable [OF this] show ?thesis by blast
qed

text \<open>Chords are read without regard to letter case.\<close>

lemma ParseChords_ignores_case: "ParseChords (map lower s) = ParseChords s"
  by (rule ParseChords_lower)

text \<open>\<open>ParseEnum\<close> returns the position of the first option equal to the value among the
  bar-separated options, and fails where none is.\<close>

lemma ParseEnum_position:
  assumes "v \<noteq> []"
  shows "ParseEnum v (Some opts) = map_option of_nat (index_of v (split_on CHR ''|'' opts))"
  using enum_scan_eq [OF assms, of opts 0] assms by (simp add: ParseEnum_def)

lemma ParseEnum_position_witness:
  "ParseEnum ''mute'' (Some ''on|off|mute'') = map_option of_nat (index_of ''mute'' (split_on CHR ''|'' ''on|off|mute''))"
  by (rule ParseEnum_position) simp

text \<open>An accepted point has both coordinates within 65535 pixels, a centred point carries no
  offset, and the monitor it names, if any, is a single one.\<close>

lemma ParsePoint_bounds:
  assumes "ParsePoint v = Some p"
  shows "point_ok p"
  using assms by (rule ParsePoint_ok)

lemma ParsePoint_bounds_witness:
  "\<exists>p. ParsePoint ''-20,+40@secondary'' = Some p \<and> point_ok p"
proof -
  have "ParsePoint ''-20,+40@secondary'' \<noteq> None" by code_simp
  then obtain p where "ParsePoint ''-20,+40@secondary'' = Some p" by blast
  with ParsePoint_bounds [OF this] show ?thesis by blast
qed

text \<open>C35: a destructive action that takes a target never runs on an empty one: where \<open>ValidateTarget\<close> accepts a target for a destructive
  descriptor of any kind but \<open>None\<close> (such an action takes no target, and any is accepted), the target is not empty even
  if the descriptor calls it optional, and the value left when its suffix is taken off is not empty either and is one that
  the grammar of the kind accepts; a point keeps its suffix, and the whole target parses as a point.\<close>

lemma ValidateTarget_destructive:
  assumes "ValidateTarget d t" "targetKind d \<noteq> TargetNone" "descriptor_flags d AND FlagDestructive \<noteq> 0"
  shows "t \<noteq> [] \<and> (\<exists>value. ValidateSuffixes d t = Some value \<and> value \<noteq> [] \<and> target_valid d (targetKind d) t value \<and>
    (targetKind d = TargetPoint \<longrightarrow> value = t \<and> ParsePoint t \<noteq> None))"
proof -
  have "value \<noteq> [] \<and> (targetKind d = TargetPoint \<longrightarrow> value = t \<and> ParsePoint t \<noteq> None)"
    if "ValidateSuffixes d t = Some value" "target_valid d (targetKind d) t value" "t \<noteq> []" for "value"
    using that target_valid_nonempty by (cases "targetKind d = TargetPoint") (auto simp: ValidateSuffixes_def)
  then show ?thesis
    using assms by (auto simp: ValidateTarget_def split: if_splits option.splits)
qed

lemma ValidateTarget_destructive_witness:
  "''wipe'' \<noteq> [] \<and> (\<exists>value. ValidateSuffixes \<lparr>sizeOk = True, descriptor_flags = 9, targetKind = TargetText,
      targetMinimum = 0, targetMaximum = 0, targetOptions = None\<rparr> ''wipe'' = Some value \<and>
    value \<noteq> [] \<and> target_valid \<lparr>sizeOk = True, descriptor_flags = 9, targetKind = TargetText,
      targetMinimum = 0, targetMaximum = 0, targetOptions = None\<rparr> TargetText ''wipe'' value)"
  using ValidateTarget_destructive [of "\<lparr>sizeOk = True, descriptor_flags = 9, targetKind = TargetText,
      targetMinimum = 0, targetMaximum = 0, targetOptions = None\<rparr>" "''wipe''"]
  by (simp add: ValidateTarget_def ValidateSuffixes_def SplitSuffix_def FlagDestructive_def
      kRedXeMaximumActionTargetBytes_def)

text \<open>A monitor or window suffix the action takes is stripped before the value is read: the target
  \<open>value@suffix\<close> is accepted exactly where the value part satisfies the action's grammar.\<close>

lemma ValidateTarget_suffix:
  assumes "sizeOk d" "targetKind d \<notin> {TargetNone, TargetPoint}"
    "length (v @ CHR ''@'' # sfx) \<le> kRedXeMaximumActionTargetBytes"
    "CHR 0x00 \<notin> set (v @ CHR ''@'' # sfx)" "CHR ''@'' \<notin> set sfx"
    "(descriptor_flags d AND FlagMonitorSuffix \<noteq> 0 \<and> ParseMonitorSelector sfx True \<noteq> None) \<or>
     (descriptor_flags d AND FlagWindowSuffix \<noteq> 0 \<and> ParseWindowSelector sfx \<noteq> None)"
  shows "ValidateTarget d (v @ CHR ''@'' # sfx) =
         target_valid d (targetKind d) (v @ CHR ''@'' # sfx) v"
proof -
  have "index_of CHR 0x00 (v @ CHR ''@'' # sfx) = None"
    using assms(4) by (simp only: index_of_None) simp
  moreover have "ValidateSuffixes d (v @ CHR ''@'' # sfx) = Some v"
    using assms(2,5,6) by (intro ValidateSuffixes_append) auto
  ultimately show ?thesis using assms(1,2,3) by (simp add: ValidateTarget_def)
qed

lemma ValidateTarget_suffix_witness:
  "ValidateTarget \<lparr>sizeOk = True, descriptor_flags = 16, targetKind = TargetInteger,
      targetMinimum = 0, targetMaximum = 100, targetOptions = None\<rparr> (''50'' @ CHR ''@'' # ''all'') =
   target_valid \<lparr>sizeOk = True, descriptor_flags = 16, targetKind = TargetInteger,
      targetMinimum = 0, targetMaximum = 100, targetOptions = None\<rparr> TargetInteger
      (''50'' @ CHR ''@'' # ''all'') ''50''"
  using ValidateTarget_suffix [of "\<lparr>sizeOk = True, descriptor_flags = 16, targetKind = TargetInteger,
      targetMinimum = 0, targetMaximum = 100, targetOptions = None\<rparr>" "''50''" "''all''"]
  by (simp add: kRedXeMaximumActionTargetBytes_def FlagMonitorSuffix_def ParseMonitorSelector_def)

end
