(* ===== verification/Display_Selection.thy ===== *)
theory Display_Selection
  imports Dock_Geometry Action_Targets
begin

text \<open>
  Which display a selector names. The dock asks \<open>SelectDockMonitor\<close> (\<open>RedXe/DockPlacement.h\<close>), an action
  asks \<open>ResolveMonitor\<close>, whose walk takes \<open>VisitMonitor\<close> once per display (\<open>RedXe/HostActions.cpp\<close>); both
  rank the candidates of \<open>secondary\<close> by \<open>SecondaryMonitorRank\<close>. The renderer asks
  \<open>RedXeSelectAdapterRecordForMonitor\<close> (\<open>RedXe/AdapterSelection.h\<close>) for the adapter that scans a display out.
  \<open>CompareStringOrdinal\<close> is the parameter \<open>ordinal_equal\<close>, the conversion of a needle to wide text the
  parameter \<open>to_wide\<close>.
\<close>

section \<open>The dock's choice\<close>

record DockMonitorCandidate =
  cand_monitor :: RECT
  cand_work :: RECT
  cand_dpi :: u32
  cand_primary :: bool
  cand_xeneon :: bool
  friendlyName :: wstring
  deviceName :: wstring

definition DockNameContains :: "(wstring \<Rightarrow> wstring \<Rightarrow> bool) \<Rightarrow> wstring \<Rightarrow> wstring \<Rightarrow> bool" where
  "DockNameContains ordinal_equal haystack needle =
     (if needle = [] \<or> length haystack < length needle then False
      else list_ex (\<lambda>offset. ordinal_equal (take (length needle) (drop offset haystack)) needle)
             [0..<length haystack - length needle + 1])"

text \<open>The loop of \<open>Kind::Secondary\<close>: it ends with the list or with a candidate of the top rank.\<close>

fun secondary_scan :: "DockMonitorCandidate list \<Rightarrow> nat \<Rightarrow> nat option \<Rightarrow> u32 \<Rightarrow> nat option" where
  "secondary_scan [] index best bestRank = best"
| "secondary_scan (c # cs) index best bestRank =
     (if bestRank < kSecondaryMonitorTopRank then
        (let rank = SecondaryMonitorRank (cand_primary c) (cand_xeneon c)
         in if rank > bestRank then secondary_scan cs (index + 1) (Some index) rank
            else secondary_scan cs (index + 1) best bestRank)
      else best)"

text \<open>The result is the index and \<open>fellBack\<close>.\<close>

definition SelectDockMonitor ::
    "(wstring \<Rightarrow> wstring \<Rightarrow> bool) \<Rightarrow> MonitorSelector \<Rightarrow> wstring \<Rightarrow> DockMonitorCandidate list
     \<Rightarrow> (nat \<times> bool) option" where
  "SelectDockMonitor ordinal_equal selector nameNeedle candidates =
     (if candidates = [] then None
      else
        (let primary = (case first_index cand_primary candidates of Some i \<Rightarrow> i | None \<Rightarrow> 0);
             answer =
               (case mon_kind selector of
                  MonitorPrimary \<Rightarrow> Some primary
                | MonitorSecondary \<Rightarrow> secondary_scan candidates 0 None 0
                | MonitorXeneon \<Rightarrow> first_index cand_xeneon candidates
                | MonitorIndex \<Rightarrow>
                    (if 1 \<le> mon_index selector \<and> unat (mon_index selector) \<le> length candidates
                     then Some (unat (mon_index selector) - 1) else None)
                | MonitorName \<Rightarrow>
                    first_index (\<lambda>c. DockNameContains ordinal_equal (friendlyName c) nameNeedle \<or>
                                     DockNameContains ordinal_equal (deviceName c) nameNeedle) candidates
                | MonitorAll \<Rightarrow> None)
         in case answer of
              Some index \<Rightarrow> Some (index, False)
            | None \<Rightarrow> Some (primary, True)))"

section \<open>The action's search\<close>

record MonitorCandidate =
  bounds :: RECT
  device :: "wstring option"
  mc_primary :: bool
  hostWindow :: bool
  mc_xeneon :: bool

record MonitorSearch =
  selector :: MonitorSelector
  visited :: u32
  secondaryRank :: u32
  rectangle :: RECT
  found :: bool

definition MonitorSearch_init :: "MonitorSelector \<Rightarrow> MonitorSearch" where
  "MonitorSearch_init s =
     \<lparr>selector = s, visited = 0, secondaryRank = 0, rectangle = empty_rect, found = False\<rparr>"

text \<open>C strings end at their first NUL.\<close>

definition ContainsIgnoreCase :: "(wstring \<Rightarrow> wstring \<Rightarrow> bool) \<Rightarrow> wstring \<Rightarrow> wstring \<Rightarrow> bool" where
  "ContainsIgnoreCase ordinal_equal haystack needle =
     (let h = takeWhile (\<lambda>c. c \<noteq> 0) haystack; n = takeWhile (\<lambda>c. c \<noteq> 0) needle
      in if length n = 0 \<or> length n > length h then False
         else list_ex (\<lambda>offset. ordinal_equal (take (length n) (drop offset h)) n)
                [0..<length h - length n + 1])"

text \<open>The step returns the search and whether the walk goes on; \<open>None\<close> is a display that could not be read.\<close>

definition VisitMonitor ::
    "(wstring \<Rightarrow> wstring \<Rightarrow> bool) \<Rightarrow> (string \<Rightarrow> wstring option) \<Rightarrow> MonitorSearch
     \<Rightarrow> MonitorCandidate option \<Rightarrow> MonitorSearch \<times> bool" where
  "VisitMonitor ordinal_equal to_wide search display =
     (let search = search\<lparr>visited := visited search + 1\<rparr>
      in case display of
           None \<Rightarrow> (search, True)
         | Some d \<Rightarrow>
             (if mon_kind (selector search) = MonitorSecondary then
                (let rank = SecondaryMonitorRank (mc_primary d) (mc_xeneon d)
                 in if rank \<le> secondaryRank search then (search, True)
                    else (search\<lparr>secondaryRank := rank, rectangle := bounds d, found := True\<rparr>,
                          rank < kSecondaryMonitorTopRank))
              else
                (let matched =
                   (case mon_kind (selector search) of
                      MonitorPrimary \<Rightarrow> mc_primary d
                    | MonitorXeneon \<Rightarrow> hostWindow d
                    | MonitorIndex \<Rightarrow> visited search = mon_index (selector search)
                    | MonitorName \<Rightarrow>
                        (case (device d, to_wide (mon_name (selector search))) of
                           (Some dev, Some needle) \<Rightarrow> ContainsIgnoreCase ordinal_equal dev needle
                         | _ \<Rightarrow> False)
                    | _ \<Rightarrow> False)
                 in if \<not> matched then (search, True)
                    else (search\<lparr>rectangle := bounds d, found := True\<rparr>, False))))"

text \<open>\<open>EnumDisplayMonitors\<close> calls the step for each display until it returns \<open>FALSE\<close>.\<close>

fun walk_monitors ::
    "(MonitorSearch \<Rightarrow> MonitorCandidate option \<Rightarrow> MonitorSearch \<times> bool) \<Rightarrow> MonitorSearch
     \<Rightarrow> MonitorCandidate option list \<Rightarrow> MonitorSearch" where
  "walk_monitors visit search [] = search"
| "walk_monitors visit search (d # ds) =
     (case visit search d of (search', go_on) \<Rightarrow>
        if go_on then walk_monitors visit search' ds else search')"

definition search_answer :: "MonitorSearch \<Rightarrow> RECT option" where
  "search_answer search = (if found search then Some (rectangle search) else None)"

definition ResolveMonitor ::
    "(wstring \<Rightarrow> wstring \<Rightarrow> bool) \<Rightarrow> (string \<Rightarrow> wstring option) \<Rightarrow> bool \<Rightarrow> MonitorSelector
     \<Rightarrow> MonitorCandidate option list \<Rightarrow> RECT option" where
  "ResolveMonitor ordinal_equal to_wide hostMonitor s displays =
     (if mon_kind s = MonitorXeneon \<and> \<not> hostMonitor then None
      else
        (let search = walk_monitors (VisitMonitor ordinal_equal to_wide) (MonitorSearch_init s) displays
         in search_answer search))"

section \<open>The adapter of a display\<close>

record 'm RedXeAdapterOutputRecord =
  adapterLuid :: "u32 \<times> u32"
  output_monitor :: "'m option"
  softwareAdapter :: bool

definition RedXeSelectAdapterRecordForMonitor ::
    "'m RedXeAdapterOutputRecord list \<Rightarrow> 'm option \<Rightarrow> nat option" where
  "RedXeSelectAdapterRecordForMonitor records target =
     (if target = None then None
      else first_index (\<lambda>r. \<not> softwareAdapter r \<and> output_monitor r = target) records)"

section \<open>The first of the best\<close>

text \<open>\<open>best_at rank xs i\<close>: position \<open>i\<close> holds the first element of the highest rank, which is not zero.\<close>

definition best_at :: "('a \<Rightarrow> u32) \<Rightarrow> 'a list \<Rightarrow> nat \<Rightarrow> bool" where
  "best_at rank xs i \<longleftrightarrow> i < length xs \<and> 0 < rank (xs ! i) \<and>
     (\<forall>x \<in> set xs. rank x \<le> rank (xs ! i)) \<and> (\<forall>j < i. rank (xs ! j) < rank (xs ! i))"

lemma best_at_unique:
  assumes "best_at rank xs i" "best_at rank xs j"
  shows "i = j"
proof (rule ccontr)
  assume "i \<noteq> j"
  then have "i < j \<or> j < i" by auto
  with assms show False
    unfolding best_at_def by (metis leD nth_mem)
qed

text \<open>What a left-to-right scan knows after the elements \<open>pre\<close>.\<close>

definition scanned :: "('a \<Rightarrow> u32) \<Rightarrow> 'a list \<Rightarrow> nat option \<Rightarrow> u32 \<Rightarrow> bool" where
  "scanned rank pre best bestRank =
     (case best of
        None \<Rightarrow> bestRank = 0 \<and> (\<forall>x \<in> set pre. rank x = 0)
      | Some i \<Rightarrow> best_at rank pre i \<and> bestRank = rank (pre ! i))"

lemma scanned_le:
  "scanned rank pre best bestRank \<Longrightarrow> x \<in> set pre \<Longrightarrow> rank x \<le> bestRank"
  by (auto simp: scanned_def best_at_def split: option.splits)

lemma scanned_nil [simp]: "scanned rank [] None 0"
  by (simp add: scanned_def)

lemma scanned_keep:
  assumes "scanned rank pre best bestRank" "\<forall>x \<in> set xs. rank x \<le> bestRank"
  shows "scanned rank (pre @ xs) best bestRank"
  using assms by (auto simp: scanned_def best_at_def nth_append split: option.splits)

lemma scanned_better:
  assumes "scanned rank pre best bestRank" "bestRank < rank x"
  shows "scanned rank (pre @ [x]) (Some (length pre)) (rank x)"
proof -
  have le: "rank y < rank x" if "y \<in> set pre" for y
    using scanned_le [OF assms(1) that] assms(2) by simp
  have "0 < rank x" using assms(2) by (rule order_le_less_trans [rotated]) simp
  with le show ?thesis
    by (auto simp: scanned_def best_at_def nth_append order_less_imp_le)
qed

text \<open>
  The contract of the two searches: a search answers exactly when some candidate has a rank, and its
  answer is what \<open>val\<close> reads off the first of the best.
\<close>

locale best_ranked =
  fixes pick :: "'a list \<Rightarrow> 'b option" and rank :: "'a \<Rightarrow> u32" and val :: "'a \<Rightarrow> 'b"
  assumes pick_none: "pick xs = None \<Longrightarrow> x \<in> set xs \<Longrightarrow> rank x = 0"
    and pick_best: "pick xs = Some v \<Longrightarrow> \<exists>i. best_at rank xs i \<and> v = val (xs ! i)"
begin

lemma pick_Some_iff: "pick xs = Some v \<longleftrightarrow> (\<exists>i. best_at rank xs i \<and> v = val (xs ! i))"
proof
  assume "\<exists>i. best_at rank xs i \<and> v = val (xs ! i)"
  then obtain i where i: "best_at rank xs i" "v = val (xs ! i)" by blast
  then have "pick xs \<noteq> None"
    using pick_none [of xs "xs ! i"] by (cases "pick xs") (auto simp: best_at_def)
  then obtain w where w: "pick xs = Some w" by blast
  with pick_best [OF w] i show "pick xs = Some v" using best_at_unique [of rank xs] by blast
qed (rule pick_best)

lemma pick_None_iff: "pick xs = None \<longleftrightarrow> (\<forall>x \<in> set xs. rank x = 0)"
proof
  assume "\<forall>x \<in> set xs. rank x = 0"
  then have "\<not> best_at rank xs i" for i by (auto simp: best_at_def)
  then show "pick xs = None" using pick_best [of xs] by (cases "pick xs") auto
qed (use pick_none in blast)

end

text \<open>Two searches over displays of the same ranks stop at the same place.\<close>

locale two_searches =
  a: best_ranked pick1 rank1 val1 + b: best_ranked pick2 rank2 val2
  for pick1 :: "'a list \<Rightarrow> 'b option" and rank1 val1
    and pick2 :: "'c list \<Rightarrow> 'd option" and rank2 val2
begin

lemma same_place:
  assumes "map rank1 xs = map rank2 ys"
  shows "best_at rank1 xs i = best_at rank2 ys i"
proof -
  have len: "length xs = length ys" using assms by (metis length_map)
  then have nth: "j < length ys \<Longrightarrow> rank1 (xs ! j) = rank2 (ys ! j)" for j
    using assms by (metis nth_map)
  have all: "(\<forall>x \<in> set xs. rank1 x \<le> r) = (\<forall>y \<in> set ys. rank2 y \<le> r)" for r
    using len nth by (auto simp: all_set_conv_all_nth)
  show ?thesis
  proof (cases "i < length ys")
    case True
    then have "(\<forall>j < i. rank1 (xs ! j) < rank1 (xs ! i)) = (\<forall>j < i. rank2 (ys ! j) < rank2 (ys ! i))"
      using nth by simp
    with True len nth [OF True] show ?thesis unfolding best_at_def all by simp
  next
    case False
    with len show ?thesis by (simp add: best_at_def)
  qed
qed

lemma agree:
  assumes "map rank1 xs = map rank2 ys"
  shows "(pick1 xs = Some v) = (\<exists>i. best_at rank2 ys i \<and> v = val1 (xs ! i) \<and> pick2 ys = Some (val2 (ys ! i)))"
  unfolding a.pick_Some_iff b.pick_Some_iff same_place [OF assms] by blast

end

section \<open>Both searches keep the contract\<close>

definition dock_rank :: "DockMonitorCandidate \<Rightarrow> u32" where
  "dock_rank c = SecondaryMonitorRank (cand_primary c) (cand_xeneon c)"

definition dock_secondary :: "DockMonitorCandidate list \<Rightarrow> DockMonitorCandidate option" where
  "dock_secondary cs = map_option (\<lambda>i. cs ! i) (secondary_scan cs 0 None 0)"

lemma SecondaryMonitorRank_top: "SecondaryMonitorRank p x \<le> kSecondaryMonitorTopRank"
  by (simp add: SecondaryMonitorRank_def kSecondaryMonitorTopRank_def)

lemma secondary_scan_scanned:
  "scanned dock_rank pre best bestRank \<Longrightarrow>
   \<exists>r. scanned dock_rank (pre @ cs) (secondary_scan cs (length pre) best bestRank) r"
proof (induction cs arbitrary: pre best bestRank)
  case Nil
  then show ?case by auto
next
  case (Cons c cs)
  consider (full) "\<not> bestRank < kSecondaryMonitorTopRank"
    | (better) "bestRank < kSecondaryMonitorTopRank" "bestRank < dock_rank c"
    | (skip) "bestRank < kSecondaryMonitorTopRank" "dock_rank c \<le> bestRank"
    by force
  then show ?case
  proof cases
    case full
    then have "\<forall>x \<in> set (c # cs). dock_rank x \<le> bestRank"
      using SecondaryMonitorRank_top unfolding dock_rank_def by (meson order_trans not_less)
    from scanned_keep [OF Cons.prems this] full show ?thesis by auto
  next
    case better
    from Cons.IH [OF scanned_better [OF Cons.prems better(2)]] better show ?thesis
      by (auto simp: dock_rank_def Let_def)
  next
    case skip
    have "scanned dock_rank (pre @ [c]) best bestRank"
      by (rule scanned_keep [OF Cons.prems]) (simp add: skip)
    from Cons.IH [OF this] skip show ?thesis
      by (auto simp: dock_rank_def Let_def not_less)
  qed
qed

interpretation dock: best_ranked dock_secondary dock_rank id
proof
  fix xs x v
  obtain r where r: "scanned dock_rank xs (secondary_scan xs 0 None 0) r"
    using secondary_scan_scanned [of "[]" None 0 xs] by auto
  show "dock_secondary xs = None \<Longrightarrow> x \<in> set xs \<Longrightarrow> dock_rank x = 0"
    using r by (auto simp: dock_secondary_def scanned_def)
  show "dock_secondary xs = Some v \<Longrightarrow> \<exists>i. best_at dock_rank xs i \<and> v = id (xs ! i)"
    using r by (auto simp: dock_secondary_def scanned_def)
qed

definition action_rank :: "MonitorCandidate option \<Rightarrow> u32" where
  "action_rank d = (case d of None \<Rightarrow> 0 | Some c \<Rightarrow> SecondaryMonitorRank (mc_primary c) (mc_xeneon c))"

definition secondary_selector :: "u32 \<Rightarrow> string \<Rightarrow> MonitorSelector" where
  "secondary_selector index name = \<lparr>mon_kind = MonitorSecondary, mon_index = index, mon_name = name\<rparr>"

definition action_bounds :: "MonitorCandidate option \<Rightarrow> RECT" where
  "action_bounds d = (case d of None \<Rightarrow> empty_rect | Some c \<Rightarrow> bounds c)"

text \<open>The state of a walk for \<open>secondary\<close> after the displays \<open>pre\<close>.\<close>

definition walk_holds :: "MonitorSearch \<Rightarrow> MonitorCandidate option list \<Rightarrow> bool" where
  "walk_holds s pre \<longleftrightarrow> mon_kind (selector s) = MonitorSecondary \<and>
     (\<exists>best. scanned action_rank pre best (secondaryRank s) \<and> found s = (best \<noteq> None) \<and>
        (\<forall>i. best = Some i \<longrightarrow> rectangle s = action_bounds (pre ! i)))"

lemma walk_holds_visit:
  assumes "walk_holds s pre" "VisitMonitor oe tw s d = (s', go_on)"
  shows "walk_holds s' (pre @ [d])"
proof -
  obtain best where k: "mon_kind (selector s) = MonitorSecondary"
    and sc: "scanned action_rank pre best (secondaryRank s)" and f: "found s = (best \<noteq> None)"
    and r: "\<forall>i. best = Some i \<longrightarrow> rectangle s = action_bounds (pre ! i)"
    using assms(1) by (auto simp: walk_holds_def)
  show ?thesis
  proof (cases "action_rank d \<le> secondaryRank s")
    case True
    then have "scanned action_rank (pre @ [d]) best (secondaryRank s)"
      by (intro scanned_keep [OF sc]) simp
    moreover have "i < length pre" if "best = Some i" for i
      using sc that by (simp add: scanned_def best_at_def)
    moreover have "s' = s\<lparr>visited := visited s + 1\<rparr>"
      using assms(2) k True by (auto simp: VisitMonitor_def action_rank_def split: option.splits)
    ultimately show ?thesis
      unfolding walk_holds_def using k f r by (auto simp: nth_append)
  next
    case False
    then obtain c where d: "d = Some c" by (cases d) (auto simp: action_rank_def)
    have s': "s' = s\<lparr>visited := visited s + 1, secondaryRank := action_rank d, rectangle := bounds c, found := True\<rparr>"
      using assms(2) k False by (auto simp: VisitMonitor_def action_rank_def d Let_def)
    have "scanned action_rank (pre @ [d]) (Some (length pre)) (action_rank d)"
      using sc False by (intro scanned_better [OF sc]) simp
    then show ?thesis
      unfolding walk_holds_def s' using k by (auto simp: action_bounds_def d)
  qed
qed

lemma walk_stops_at_top:
  assumes "VisitMonitor oe tw s d = (s', False)" "mon_kind (selector s) = MonitorSecondary"
  shows "\<not> secondaryRank s' < kSecondaryMonitorTopRank"
  using assms by (auto simp: VisitMonitor_def Let_def split: option.splits if_splits)

lemma action_rank_top: "action_rank d \<le> kSecondaryMonitorTopRank"
  by (simp add: action_rank_def SecondaryMonitorRank_top split: option.split)

lemma walk_monitors_holds:
  "walk_holds s pre \<Longrightarrow> walk_holds (walk_monitors (VisitMonitor oe tw) s ds) (pre @ ds)"
proof (induction ds arbitrary: s pre)
  case Nil
  then show ?case by simp
next
  case (Cons d ds)
  obtain s' go_on where v: "VisitMonitor oe tw s d = (s', go_on)" by fastforce
  note h = walk_holds_visit [OF Cons.prems v]
  show ?case
  proof (cases go_on)
    case True
    with v Cons.IH [OF h] show ?thesis by simp
  next
    case False
    then have "kSecondaryMonitorTopRank \<le> secondaryRank s'"
      using walk_stops_at_top v Cons.prems by (auto simp: walk_holds_def not_less)
    then have top: "\<forall>x \<in> set ds. action_rank x \<le> secondaryRank s'"
      using action_rank_top order_trans by blast
    from h obtain best where "scanned action_rank (pre @ [d]) best (secondaryRank s')"
      "mon_kind (selector s') = MonitorSecondary" "found s' = (best \<noteq> None)"
      "\<forall>i. best = Some i \<longrightarrow> rectangle s' = action_bounds ((pre @ [d]) ! i)"
      by (auto simp: walk_holds_def)
    moreover from this scanned_keep [OF this(1) top]
    have "scanned action_rank ((pre @ [d]) @ ds) best (secondaryRank s')" by blast
    moreover have "((pre @ [d]) @ ds) ! i = (pre @ [d]) ! i" if "best = Some i" for i
      using calculation(1) that by (auto simp: scanned_def best_at_def nth_append)
    ultimately have "walk_holds s' ((pre @ [d]) @ ds)"
      unfolding walk_holds_def by metis
    with False v show ?thesis by simp
  qed
qed

definition action_secondary :: "(wstring \<Rightarrow> wstring \<Rightarrow> bool) \<Rightarrow> (string \<Rightarrow> wstring option) \<Rightarrow>
    u32 \<Rightarrow> string \<Rightarrow> MonitorCandidate option list \<Rightarrow> RECT option" where
  "action_secondary oe tw index name ds = ResolveMonitor oe tw False (secondary_selector index name) ds"

lemma action_secondary_scanned:
  "\<exists>best r. scanned action_rank ds best r \<and>
     action_secondary oe tw index name ds = map_option (\<lambda>i. action_bounds (ds ! i)) best"
proof -
  let ?s = "MonitorSearch_init (secondary_selector index name)"
  have "walk_holds ?s []"
    by (simp add: walk_holds_def MonitorSearch_init_def secondary_selector_def)
  from walk_monitors_holds [OF this, of oe tw ds]
  obtain best where b: "scanned action_rank ds best (secondaryRank (walk_monitors (VisitMonitor oe tw) ?s ds))"
    "found (walk_monitors (VisitMonitor oe tw) ?s ds) = (best \<noteq> None)"
    "\<forall>i. best = Some i \<longrightarrow>
       rectangle (walk_monitors (VisitMonitor oe tw) ?s ds) = action_bounds (ds ! i)"
    by (auto simp: walk_holds_def)
  then have "action_secondary oe tw index name ds = map_option (\<lambda>i. action_bounds (ds ! i)) best"
    by (cases best) (simp_all add: action_secondary_def ResolveMonitor_def search_answer_def
        secondary_selector_def)
  with b(1) show ?thesis by blast
qed

interpretation action: best_ranked "action_secondary oe tw index name" action_rank action_bounds
proof
  fix xs x v
  obtain best r where b: "scanned action_rank xs best r"
    "action_secondary oe tw index name xs = map_option (\<lambda>i. action_bounds (xs ! i)) best"
    using action_secondary_scanned by blast
  show "action_secondary oe tw index name xs = None \<Longrightarrow> x \<in> set xs \<Longrightarrow> action_rank x = 0"
    using b by (simp add: scanned_def)
  show "action_secondary oe tw index name xs = Some v \<Longrightarrow>
      \<exists>i. best_at action_rank xs i \<and> v = action_bounds (xs ! i)"
    using b by (auto simp: scanned_def)
qed

interpretation both: two_searches dock_secondary dock_rank id
  "action_secondary oe tw index name" action_rank action_bounds ..

section \<open>Properties\<close>

lemma SelectDockMonitor_secondary:
  assumes "mon_kind s = MonitorSecondary" "cs \<noteq> []"
  shows "SelectDockMonitor oe s n cs = Some (i, False) \<longleftrightarrow> best_at dock_rank cs i"
proof -
  have "secondary_scan cs 0 None 0 = Some i \<longleftrightarrow> best_at dock_rank cs i"
  proof -
    obtain r where r: "scanned dock_rank cs (secondary_scan cs 0 None 0) r"
      using secondary_scan_scanned [of "[]" None 0 cs] by auto
    have "\<not> best_at dock_rank cs i" if "\<forall>x \<in> set cs. dock_rank x = 0"
      using that by (auto simp: best_at_def)
    with r show ?thesis
      using best_at_unique [of dock_rank cs i] by (auto simp: scanned_def split: option.splits)
  qed
  then show ?thesis using assms by (auto simp: SelectDockMonitor_def Let_def split: option.splits)
qed

text \<open>The displays as both searches see them.\<close>

definition same_display :: "DockMonitorCandidate \<Rightarrow> MonitorCandidate \<Rightarrow> bool" where
  "same_display c m \<longleftrightarrow> cand_monitor c = bounds m \<and> cand_primary c = mc_primary m \<and> cand_xeneon c = mc_xeneon m"

text \<open>For the kinds that neither rank nor count, the walk ends at the first display that matches.\<close>

definition action_matches :: "(wstring \<Rightarrow> wstring \<Rightarrow> bool) \<Rightarrow> (string \<Rightarrow> wstring option) \<Rightarrow> MonitorSelector \<Rightarrow> MonitorCandidate \<Rightarrow> bool" where
  "action_matches oe tw sel m =
     (case mon_kind sel of
        MonitorPrimary \<Rightarrow> mc_primary m
      | MonitorXeneon \<Rightarrow> hostWindow m
      | MonitorName \<Rightarrow>
          (case (device m, tw (mon_name sel)) of
             (Some dev, Some needle) \<Rightarrow> ContainsIgnoreCase oe dev needle
           | _ \<Rightarrow> False)
      | _ \<Rightarrow> False)"

lemma walk_matching:
  "mon_kind (selector s) \<notin> {MonitorSecondary, MonitorIndex} \<Longrightarrow> \<not> found s \<Longrightarrow>
   search_answer (walk_monitors (VisitMonitor oe tw) s (map Some ms))
     = map_option (\<lambda>i. bounds (ms ! i)) (first_index (action_matches oe tw (selector s)) ms)"
proof (induction ms arbitrary: s)
  case Nil
  then show ?case by (simp add: search_answer_def)
next
  case (Cons m ms)
  let ?s = "s\<lparr>visited := visited s + 1\<rparr>"
  have visit: "VisitMonitor oe tw s (Some m) =
      (if action_matches oe tw (selector s) m then (?s\<lparr>rectangle := bounds m, found := True\<rparr>, False) else (?s, True))"
    using Cons.prems(1) by (cases "mon_kind (selector s)") (simp_all add: VisitMonitor_def Let_def action_matches_def)
  show ?case
  proof (cases "action_matches oe tw (selector s) m")
    case True
    then show ?thesis using visit by (simp add: search_answer_def)
  next
    case False
    then show ?thesis
      using visit Cons.IH [of ?s] Cons.prems by (simp add: option.map_comp comp_def)
  qed
qed

lemma walk_index:
  "mon_kind (selector s) = MonitorIndex \<Longrightarrow> \<not> found s \<Longrightarrow>
   unat (visited s) + length ms < 2 ^ 32 \<Longrightarrow>
   search_answer (walk_monitors (VisitMonitor oe tw) s (map Some ms)) =
     (let n = unat (mon_index (selector s)); v = unat (visited s)
      in if v < n \<and> n \<le> v + length ms then Some (bounds (ms ! (n - v - 1))) else None)"
proof (induction ms arbitrary: s)
  case Nil
  then show ?case by (simp add: search_answer_def Let_def)
next
  case (Cons m ms)
  have v: "unat (visited s + 1) = Suc (unat (visited s))"
    using Cons.prems(3) by (simp add: unat_word_ariths)
  show ?case
  proof (cases "visited s + 1 = mon_index (selector s)")
    case True
    then have "unat (mon_index (selector s)) = Suc (unat (visited s))" using v by simp
    then show ?thesis using Cons.prems(1) True by (simp add: VisitMonitor_def Let_def search_answer_def)
  next
    case False
    then have ne: "Suc (unat (visited s)) \<noteq> unat (mon_index (selector s))"
      using v by (metis word_unat_eq_iff)
    let ?s = "s\<lparr>visited := visited s + 1\<rparr>"
    have step: "walk_monitors (VisitMonitor oe tw) s (map Some (m # ms))
        = walk_monitors (VisitMonitor oe tw) ?s (map Some ms)"
      using Cons.prems(1) False by (simp add: VisitMonitor_def Let_def)
    have nth: "(m # ms) ! (n - unat (visited s) - 1) = ms ! (n - Suc (unat (visited s)) - 1)"
      if "Suc (unat (visited s)) < n" for n
      using that by (simp add: nth_Cons')
    show ?thesis
      unfolding step using Cons.IH [of ?s] Cons.prems v ne nth by (auto simp: Let_def)
  qed
qed

lemma first_index_same:
  assumes "list_all2 R xs ys" "\<And>x y. R x y \<Longrightarrow> P x = Q y"
  shows "first_index P xs = first_index Q ys"
  using assms(1) by (induction rule: list_all2_induct) (auto simp: assms(2))

lemma dock_rank_order:
  "0 < dock_rank c \<longleftrightarrow> \<not> cand_primary c"
  "dock_rank c < dock_rank d \<longleftrightarrow>
     \<not> cand_primary d \<and> (cand_primary c \<or> (cand_xeneon c \<and> \<not> cand_xeneon d))"
  "dock_rank c \<le> dock_rank d \<longleftrightarrow>
     cand_primary c \<or> (\<not> cand_primary d \<and> (cand_xeneon c \<or> \<not> cand_xeneon d))"
  by (simp_all add: dock_rank_def SecondaryMonitorRank_def kSecondaryMonitorTopRank_def
      word_le_nat_alt word_less_nat_alt)

text \<open>The \<open>secondary\<close> monitor is the second screen: never the primary, the first candidate that is
  neither the primary nor a XENEON, and a XENEON only where no other candidate is left.\<close>

lemma secondary_is_second_screen:
  assumes "mon_kind s = MonitorSecondary" "SelectDockMonitor oe s n cs = Some (i, False)"
  shows "i < length cs \<and> \<not> cand_primary (cs ! i) \<and>
    (\<forall>j < i. cand_primary (cs ! j) \<or> (cand_xeneon (cs ! j) \<and> \<not> cand_xeneon (cs ! i))) \<and>
    (cand_xeneon (cs ! i) \<longrightarrow> (\<forall>c \<in> set cs. cand_primary c \<or> cand_xeneon c))"
proof -
  have "cs \<noteq> []" using assms(2) by (auto simp: SelectDockMonitor_def)
  with assms have "best_at dock_rank cs i" by (simp add: SelectDockMonitor_secondary)
  then show ?thesis by (auto simp: best_at_def dock_rank_order)
qed

text \<open>Three displays for the examples: a primary, a XENEON and a second screen.\<close>

definition example_candidates :: "DockMonitorCandidate list" where
  "example_candidates =
     [\<lparr>cand_monitor = mkrect 0 0 1920 1080, cand_work = mkrect 0 0 1920 1040, cand_dpi = 96,
       cand_primary = True, cand_xeneon = False, friendlyName = [], deviceName = []\<rparr>,
      \<lparr>cand_monitor = mkrect 0 1080 2560 1800, cand_work = mkrect 0 1080 2560 1800, cand_dpi = 96,
       cand_primary = False, cand_xeneon = True, friendlyName = [], deviceName = []\<rparr>,
      \<lparr>cand_monitor = mkrect 1920 0 3840 1080, cand_work = mkrect 1920 0 3840 1080, cand_dpi = 96,
       cand_primary = False, cand_xeneon = False, friendlyName = [], deviceName = []\<rparr>]"

definition example_displays :: "MonitorCandidate list" where
  "example_displays =
     map (\<lambda>c. \<lparr>bounds = cand_monitor c, device = None, mc_primary = cand_primary c, hostWindow = False,
                mc_xeneon = cand_xeneon c\<rparr>) example_candidates"

lemma secondary_is_second_screen_witness:
  "SelectDockMonitor (=) (MonitorSelector_init\<lparr>mon_kind := MonitorSecondary\<rparr>) [] example_candidates
     = Some (2, False) \<and> \<not> cand_primary (example_candidates ! 2)"
proof -
  have sel: "SelectDockMonitor (=) (MonitorSelector_init\<lparr>mon_kind := MonitorSecondary\<rparr>) [] example_candidates
      = Some (2, False)" by code_simp
  have "mon_kind (MonitorSelector_init\<lparr>mon_kind := MonitorSecondary\<rparr>) = MonitorSecondary" by simp
  from secondary_is_second_screen [OF this sel] sel show ?thesis by blast
qed

text \<open>A name without a NUL is searched alike by both.\<close>

lemma ContainsIgnoreCase_dock:
  assumes "0 \<notin> set h" "0 \<notin> set n"
  shows "ContainsIgnoreCase oe h n = DockNameContains oe h n"
proof -
  have w: "takeWhile (\<lambda>c. c \<noteq> 0) h = h" "takeWhile (\<lambda>c. c \<noteq> 0) n = n"
    using assms by (auto simp: takeWhile_eq_all_conv)
  show ?thesis unfolding ContainsIgnoreCase_def DockNameContains_def Let_def w length_0_conv by (rule refl)
qed

text \<open>
  Where a selector means the same to both. \<open>primary\<close> needs a primary display (the dock takes the first display
  where there is none). \<open>xeneon\<close> is the XENEON display to the dock and the display of the host window to an action; a name is
  searched in the friendly and the device names by the dock, in the device names alone by an action.
\<close>

definition means_the_same ::
    "(wstring \<Rightarrow> wstring \<Rightarrow> bool) \<Rightarrow> (string \<Rightarrow> wstring option) \<Rightarrow> bool \<Rightarrow> MonitorSelector \<Rightarrow> wstring
     \<Rightarrow> DockMonitorCandidate list \<Rightarrow> MonitorCandidate list \<Rightarrow> bool" where
  "means_the_same oe tw hm s n cs ms \<longleftrightarrow>
     (case mon_kind s of
        MonitorPrimary \<Rightarrow> list_ex cand_primary cs
      | MonitorXeneon \<Rightarrow> hm \<and> list_all2 (\<lambda>c m. hostWindow m = cand_xeneon c) cs ms
      | MonitorName \<Rightarrow>
          tw (mon_name s) = Some n \<and> 0 \<notin> set n \<and>
          list_all2 (\<lambda>c m. device m = Some (deviceName c) \<and> 0 \<notin> set (deviceName c) \<and>
                           (DockNameContains oe (friendlyName c) n \<longrightarrow> DockNameContains oe (deviceName c) n)) cs ms
      | _ \<Rightarrow> True)"

lemma action_matches_dock:
  assumes "list_all2 same_display cs ms" "means_the_same oe tw hm s n cs ms"
    "mon_kind s \<in> {MonitorPrimary, MonitorXeneon, MonitorName}" "i < length cs"
  shows "action_matches oe tw s (ms ! i) =
    (case mon_kind s of
       MonitorPrimary \<Rightarrow> cand_primary (cs ! i)
     | MonitorXeneon \<Rightarrow> cand_xeneon (cs ! i)
     | _ \<Rightarrow> DockNameContains oe (friendlyName (cs ! i)) n \<or> DockNameContains oe (deviceName (cs ! i)) n)"
proof -
  note same = list_all2_nthD [OF assms(1,4)]
  consider "mon_kind s = MonitorPrimary" | "mon_kind s = MonitorXeneon" | "mon_kind s = MonitorName" using assms(3) by auto
  then show ?thesis
  proof cases
    case 1
    then show ?thesis using same by (simp add: action_matches_def same_display_def)
  next
    case 2
    then have "list_all2 (\<lambda>c m. hostWindow m = cand_xeneon c) cs ms" using assms(2) by (simp add: means_the_same_def)
    from list_all2_nthD [OF this assms(4)] show ?thesis using 2 by (simp add: action_matches_def)
  next
    case 3
    then have n: "tw (mon_name s) = Some n" "0 \<notin> set n"
      and names: "list_all2 (\<lambda>c m. device m = Some (deviceName c) \<and> 0 \<notin> set (deviceName c) \<and>
        (DockNameContains oe (friendlyName c) n \<longrightarrow> DockNameContains oe (deviceName c) n)) cs ms"
      using assms(2) by (simp_all add: means_the_same_def)
    from list_all2_nthD [OF names assms(4)] show ?thesis
      using 3 n ContainsIgnoreCase_dock [of "deviceName (cs ! i)" n oe] by (auto simp: action_matches_def)
  qed
qed

text \<open>C34: the dock and the actions agree on the displays wherever a selector means the same to both: with the same
  displays before them, an action resolves to the rectangle of the candidate the dock selects, and finds none
  exactly where the dock falls back. \<open>secondary\<close>, \<open><n>\<close> and \<open>all\<close> always mean the same; \<open>primary\<close> does where one of the displays is
  the primary; \<open>xeneon\<close> does where the host window is on the XENEON display; a name does where the friendly names find
  nothing that the device names do not.\<close>

lemma dock_and_action_agree:
  assumes "list_all2 same_display cs ms" "length ms < 2 ^ 32" "means_the_same oe tw hm s n cs ms"
  shows "ResolveMonitor oe tw hm s (map Some ms) =
    (case SelectDockMonitor oe s n cs of
       Some (i, False) \<Rightarrow> Some (cand_monitor (cs ! i)) | _ \<Rightarrow> None)"
proof (cases "cs = []")
  case True
  then show ?thesis using assms(1) by (simp add: ResolveMonitor_def SelectDockMonitor_def MonitorSearch_init_def search_answer_def)
next
  case ne: False
  have len: "length cs = length ms" using assms(1) by (rule list_all2_lengthD)
  have nth: "i < length cs \<Longrightarrow> bounds (ms ! i) = cand_monitor (cs ! i)" for i
    using list_all2_nthD [OF assms(1)] by (auto simp: same_display_def)
  consider (matching) "mon_kind s \<in> {MonitorPrimary, MonitorXeneon, MonitorName}" | (everything) "mon_kind s = MonitorAll"
    | (secondary) "mon_kind s = MonitorSecondary" | (index) "mon_kind s = MonitorIndex"
    by (cases "mon_kind s") auto
  then show ?thesis
  proof cases
    case matching
    let ?P = "\<lambda>c. case mon_kind s of MonitorPrimary \<Rightarrow> cand_primary c | MonitorXeneon \<Rightarrow> cand_xeneon c
      | _ \<Rightarrow> DockNameContains oe (friendlyName c) n \<or> DockNameContains oe (deviceName c) n"
    have "list_all2 (\<lambda>c m. action_matches oe tw s m = ?P c) cs ms"
      using action_matches_dock [OF assms(1,3) matching] len by (simp add: list_all2_conv_all_nth)
    then have eq: "first_index (action_matches oe tw s) ms = first_index ?P cs"
      by (rule first_index_same [OF _, symmetric]) simp
    have act: "ResolveMonitor oe tw hm s (map Some ms) = map_option (\<lambda>i. bounds (ms ! i)) (first_index ?P cs)"
      using walk_matching [of "MonitorSearch_init s" oe tw ms] matching assms(3) eq
      by (auto simp: ResolveMonitor_def MonitorSearch_init_def means_the_same_def Let_def)
    have dock: "SelectDockMonitor oe s n cs = (case first_index ?P cs of Some i \<Rightarrow> Some (i, False) | None \<Rightarrow>
        Some ((case first_index cand_primary cs of Some i \<Rightarrow> i | None \<Rightarrow> 0), mon_kind s \<noteq> MonitorPrimary))"
      using matching ne by (auto simp: SelectDockMonitor_def Let_def split: option.splits)
    have primary: "first_index cand_primary cs \<noteq> None" if "mon_kind s = MonitorPrimary"
      using that assms(3) first_index_None [of cand_primary cs] by (auto simp: means_the_same_def list_ex_iff)
    show ?thesis
    proof (cases "first_index ?P cs")
      case None
      then have "mon_kind s \<noteq> MonitorPrimary" using primary by auto
      then show ?thesis using act dock None by simp
    next
      case (Some i)
      then have "i < length cs" by (simp add: first_index_Some)
      then show ?thesis using act dock Some nth by simp
    qed
  next
    case everything
    then have "first_index (action_matches oe tw s) ms = None"
      using first_index_None [of "action_matches oe tw s" ms] by (simp add: action_matches_def)
    then have "ResolveMonitor oe tw hm s (map Some ms) = None"
      using walk_matching [of "MonitorSearch_init s" oe tw ms] everything
      by (simp add: ResolveMonitor_def MonitorSearch_init_def Let_def)
    then show ?thesis using everything ne by (simp add: SelectDockMonitor_def Let_def)
  next
    case secondary
    have ranks: "map dock_rank cs = map action_rank (map Some ms)"
      using list_all2_nthD [OF assms(1)] len
      by (intro nth_equalityI) (auto simp: dock_rank_def action_rank_def same_display_def)
    have "s = secondary_selector (mon_index s) (mon_name s)"
      using secondary by (simp add: secondary_selector_def)
    then have walk: "ResolveMonitor oe tw hm s ds = action_secondary oe tw (mon_index s) (mon_name s) ds" for ds
      using secondary unfolding action_secondary_def ResolveMonitor_def by simp
    show ?thesis
    proof (cases "\<exists>i. best_at dock_rank cs i")
      case True
      then obtain i where i: "best_at dock_rank cs i" by blast
      then have "action_secondary oe tw (mon_index s) (mon_name s) (map Some ms)
          = Some (action_bounds (map Some ms ! i))"
        using both.same_place [OF ranks] action.pick_Some_iff by blast
      moreover have "i < length cs" using i by (simp add: best_at_def)
      moreover have "SelectDockMonitor oe s n cs = Some (i, False)"
        using i SelectDockMonitor_secondary [OF secondary ne] by blast
      ultimately show ?thesis using nth [of i] len by (simp add: walk action_bounds_def)
    next
      case False
      then have "action_secondary oe tw (mon_index s) (mon_name s) (map Some ms) = None"
        using both.same_place [OF ranks] action.pick_Some_iff [of oe tw "mon_index s" "mon_name s"]
        by (metis option.exhaust)
      moreover have "SelectDockMonitor oe s n cs \<noteq> Some (i, False)" for i
        using False SelectDockMonitor_secondary [OF secondary ne] by blast
      ultimately show ?thesis by (auto simp: walk split: option.split bool.split)
    qed
  next
    case index
    then have "ResolveMonitor oe tw hm s (map Some ms) =
        (if 0 < unat (mon_index s) \<and> unat (mon_index s) \<le> length ms
         then Some (bounds (ms ! (unat (mon_index s) - 1))) else None)"
      using walk_index [of "MonitorSearch_init s" ms oe tw] assms(2)
      by (simp add: ResolveMonitor_def MonitorSearch_init_def Let_def)
    moreover have "1 \<le> mon_index s \<longleftrightarrow> 0 < unat (mon_index s)"
      by (simp add: word_le_nat_alt Suc_le_eq)
    ultimately show ?thesis
      using index ne len nth [of "unat (mon_index s) - 1"] by (auto simp: SelectDockMonitor_def Let_def)
  qed
qed

text \<open>The witness is \<open>xeneon\<close> with the host window on the XENEON display.\<close>

lemma dock_and_action_agree_witness:
  "let ms = map (\<lambda>m. m\<lparr>hostWindow := mc_xeneon m\<rparr>) example_displays;
       s = MonitorSelector_init\<lparr>mon_kind := MonitorXeneon\<rparr>
   in ResolveMonitor (=) (\<lambda>_. None) True s (map Some ms) =
        (case SelectDockMonitor (=) s [] example_candidates of
           Some (i, False) \<Rightarrow> Some (cand_monitor (example_candidates ! i)) | _ \<Rightarrow> None) \<and>
      SelectDockMonitor (=) s [] example_candidates = Some (1, False)"
  unfolding Let_def
  by (rule conjI, rule dock_and_action_agree)
    (simp_all add: example_displays_def example_candidates_def same_display_def means_the_same_def SelectDockMonitor_def)

end
