(* ===== verification/Command_Line.thy ===== *)
theory Command_Line
  imports Text_Prelude
begin

text \<open>
  The command line of \<open>RedXe/CommandLine.h\<close> (the catalog of switches, the search for a switch, the
  first unknown argument, \<open>--probe\<close>, the help text and the exit codes) and the argument readers of
  \<open>RedXe/Main.cpp\<close>. An argument vector is a list whose head is the program name.
\<close>

section \<open>The catalog\<close>

datatype RedXeSwitch =
    SwitchHelp | SwitchRedMonitor | SwitchSettings | SwitchWarp | SwitchDock | SwitchDockMode
  | SwitchDockThickness | SwitchDockReserve | SwitchDockPeek | SwitchScreenshot | SwitchPage
  | SwitchWidget | SwitchAfter | SwitchProbe | SwitchSelfTest | SwitchCrashTest
  | SwitchCrashTestStackOverflow | SwitchCrashTestDirectory | SwitchRedMonitorProbe

datatype RedXeSwitchValue = ValueNone | ValueSeparate | ValueJoined | ValueOptionalJoined

record RedXeCommandLineSwitch =
  switch_id :: RedXeSwitch
  switch_name :: wstring
  aliases :: "wstring option"
  valueKind :: RedXeSwitchValue
  switch_value :: "wstring option"
  summary :: wstring
  switch_group :: wstring
  launcherWaitForExit :: bool

definition catalog_entry ::
    "RedXeSwitch \<Rightarrow> wstring \<Rightarrow> wstring option \<Rightarrow> RedXeSwitchValue \<Rightarrow> wstring option \<Rightarrow> wstring \<Rightarrow> wstring
     \<Rightarrow> bool \<Rightarrow> RedXeCommandLineSwitch" where
  "catalog_entry i n a k v s g w =
     \<lparr>switch_id = i, switch_name = n, aliases = a, valueKind = k, switch_value = v, summary = s,
      switch_group = g, launcherWaitForExit = w\<rparr>"

definition kRedXeHelpArguments :: "wstring list" where
  "kRedXeHelpArguments = [W ''--help'', W ''-h'', W ''/?'', W ''-?'']"

definition kRedXeCommandLineSwitches :: "RedXeCommandLineSwitch list" where
  "kRedXeCommandLineSwitches =
   [ catalog_entry SwitchHelp (W ''--help'') (Some (W ''-h, /?, -?'')) ValueNone None
      (W ''Show this text and exit.'')
      (W ''General'') True,
    catalog_entry SwitchRedMonitor (W ''--redmonitor'') None ValueNone None
      (W (''Start the separately installed Release RedMonitor viewer and exit: 0 when '' @
         ''it runs, 1 with what is missing or failed. Use it alone.''))
      (W ''General'') True,
    catalog_entry SwitchSettings (W ''--settings'') None ValueSeparate (Some (W ''<path>''))
      (W (''Use one portable settings file instead of the one under '' @
         ''%LocalAppData%'' @
         [CHR 0x5C] @
         ''RedXe'' @
         [CHR 0x5C] @
         ''Settings; its Logs folder sits beside it.''))
      (W ''General'') False,
    catalog_entry SwitchWarp (W ''--warp'') None ValueNone None
      (W ''Render on the Microsoft Basic Render Driver (WARP) instead of the GPU.'')
      (W ''General'') False,
    catalog_entry SwitchDock (W ''--dock'') None ValueSeparate (Some (W ''<edge>[@<monitor>]''))
      (W (''Run as a bar on that screen edge: none, top, bottom, left, or right, on '' @
         ''monitor primary, secondary, xeneon, <n>, or name:<substring> (default '' @
         ''primary). Overrides the settings dock.edge/monitor.''))
      (W ''Dock'') False,
    catalog_entry SwitchDockMode (W ''--dock-mode'') None ValueSeparate (Some (W ''<mode>''))
      (W ''fixed (always on screen) or autohide (collapses to a peek strip).'')
      (W ''Dock'') False,
    catalog_entry SwitchDockThickness (W ''--dock-thickness'') None ValueSeparate (Some (W ''<dips>''))
      (W ''Bar thickness in DIPs, 32 through 1080 (default 180).'')
      (W ''Dock'') False,
    catalog_entry SwitchDockReserve (W ''--dock-reserve'') None ValueSeparate (Some (W ''<on|off>''))
      (W (''Fixed bars only: shrink the maximize area so windows stop at the bar '' @
         ''(default on).''))
      (W ''Dock'') False,
    catalog_entry SwitchDockPeek (W ''--dock-peek'') None ValueSeparate (Some (W ''<pixels>''))
      (W (''Autohide only: pixels that stay visible while hidden, 1 through 64 (default '' @
         ''4).''))
      (W ''Dock'') False,
    catalog_entry SwitchScreenshot (W ''--screenshot'') None ValueSeparate (Some (W ''<png>''))
      (W (''Start normally, wait, save the window (or one widget) as PNG, and exit: 0 '' @
         ''written, 8 not written.''))
      (W ''Screenshot'') True,
    catalog_entry SwitchPage (W ''--page'') None ValueSeparate (Some (W ''<id>''))
      (W ''Page to show before the capture (default: the first page).'')
      (W ''Screenshot'') False,
    catalog_entry SwitchWidget (W ''--widget'') None ValueSeparate (Some (W ''<ordinal>''))
      (W ''Crop the capture to the 0-based widget on that page.'')
      (W ''Screenshot'') False,
    catalog_entry SwitchAfter (W ''--after'') None ValueSeparate (Some (W ''<milliseconds>''))
      (W ''Settle time before the capture, 1 through 120000 (default 3000).'')
      (W ''Screenshot'') False,
    catalog_entry SwitchProbe (W ''--probe'') None ValueOptionalJoined (Some (W ''[=seconds]''))
      (W (''Log production resource samples every 1 through 3600 seconds (default 5); '' @
         ''keeps running.''))
      (W ''Diagnostics'') False,
    catalog_entry SwitchSelfTest (W ''--self-test'') None ValueNone None
      (W (''Hidden startup validation with the deployed template; exits 0 when the host '' @
         ''works and 6 when a check fails, which it names on stderr.''))
      (W ''Diagnostics'') True,
    catalog_entry SwitchCrashTest (W ''--crash-test'') None ValueNone None
      (W ''Raise a test crash to exercise the dump writer.'')
      (W ''Diagnostics'') True,
    catalog_entry SwitchCrashTestStackOverflow (W ''--crash-test-stack-overflow'') None ValueNone None
      (W ''Raise a stack-overflow test crash.'')
      (W ''Diagnostics'') True,
    catalog_entry SwitchCrashTestDirectory (W ''--crash-test-directory'') None ValueJoined (Some (W ''<directory>''))
      (W ''Where a test crash writes its dump instead of the user's crash folder.'')
      (W ''Diagnostics'') False,
    catalog_entry SwitchRedMonitorProbe (W ''--redmonitor-probe'') None ValueNone None
      (W (''Wait up to 2 seconds for a RedMonitor listener, send RedMonitor's test '' @
         ''messages, and exit: 0 sent, 1 no provider, 2 no listener. Use it alone.''))
      (W ''Diagnostics'') True]"

definition kRedXeCommandLineGroups :: "wstring list" where
  "kRedXeCommandLineGroups = [W ''General'', W ''Dock'', W ''Screenshot'', W ''Diagnostics'']"

text \<open>The catalog is indexed by the enumeration; \<open>switch_position\<close> is the value of the enumerator.\<close>

fun switch_position :: "RedXeSwitch \<Rightarrow> nat" where
  "switch_position SwitchHelp = 0"
| "switch_position SwitchRedMonitor = 1"
| "switch_position SwitchSettings = 2"
| "switch_position SwitchWarp = 3"
| "switch_position SwitchDock = 4"
| "switch_position SwitchDockMode = 5"
| "switch_position SwitchDockThickness = 6"
| "switch_position SwitchDockReserve = 7"
| "switch_position SwitchDockPeek = 8"
| "switch_position SwitchScreenshot = 9"
| "switch_position SwitchPage = 10"
| "switch_position SwitchWidget = 11"
| "switch_position SwitchAfter = 12"
| "switch_position SwitchProbe = 13"
| "switch_position SwitchSelfTest = 14"
| "switch_position SwitchCrashTest = 15"
| "switch_position SwitchCrashTestStackOverflow = 16"
| "switch_position SwitchCrashTestDirectory = 17"
| "switch_position SwitchRedMonitorProbe = 18"

definition RedXeSwitchInfo :: "RedXeSwitch \<Rightarrow> RedXeCommandLineSwitch" where
  "RedXeSwitchInfo i = kRedXeCommandLineSwitches ! switch_position i"

definition RedXeSwitchName :: "RedXeSwitch \<Rightarrow> wstring" where
  "RedXeSwitchName i = switch_name (RedXeSwitchInfo i)"

section \<open>Finding a switch\<close>

definition RedXeIsHelpArgument :: "wstring \<Rightarrow> bool" where
  "RedXeIsHelpArgument argument \<longleftrightarrow> list_ex (\<lambda>a. argument = a) kRedXeHelpArguments"

definition entry_selected :: "wstring \<Rightarrow> RedXeCommandLineSwitch \<Rightarrow> bool" where
  "entry_selected argument entry =
     (let name = switch_name entry; opt = (valueKind entry = ValueOptionalJoined)
      in if valueKind entry = ValueJoined \<or> opt then
           (opt \<and> argument = name) \<or>
           (length argument \<ge> length name + (if opt then 1 else 2) \<and> starts_with argument name \<and>
            argument ! length name = of_nat (code CHR ''=''))
         else argument = name)"

definition RedXeFindSwitch :: "wstring \<Rightarrow> RedXeCommandLineSwitch option" where
  "RedXeFindSwitch argument =
     (if RedXeIsHelpArgument argument then Some (RedXeSwitchInfo SwitchHelp)
      else find (entry_selected argument) kRedXeCommandLineSwitches)"

text \<open>The loop of \<open>RedXeFindUnknownArgument\<close>, after the program name.\<close>

fun unknown_scan :: "wstring list \<Rightarrow> wstring option" where
  "unknown_scan [] = None"
| "unknown_scan (a # rest) =
     (case RedXeFindSwitch a of
        None \<Rightarrow> Some a
      | Some entry \<Rightarrow>
          (if valueKind entry = ValueSeparate then unknown_scan (tl rest) else unknown_scan rest))"

definition RedXeFindUnknownArgument :: "wstring list \<Rightarrow> wstring option" where
  "RedXeFindUnknownArgument arguments = unknown_scan (tl arguments)"

section \<open>The probe interval\<close>

definition wide_digit :: "u16 \<Rightarrow> bool" where
  "wide_digit d \<longleftrightarrow> 48 \<le> unat d \<and> unat d \<le> 57"

fun probe_digits :: "u32 \<Rightarrow> wstring \<Rightarrow> u32 option" where
  "probe_digits parsed [] = Some parsed"
| "probe_digits parsed (d # ds) =
     (if \<not> wide_digit d \<or> parsed > 360 then None
      else probe_digits (parsed * 10 + (ucast d - 48)) ds)"

text \<open>The seconds one probe token asks for.\<close>

definition probe_value :: "wstring \<Rightarrow> u32 option" where
  "probe_value token =
     (let name = RedXeSwitchName SwitchProbe
      in if token = name then Some 5
         else (let v = drop (length name + 1) token
               in if v = [] then None
                  else case probe_digits 0 v of
                         None \<Rightarrow> None
                       | Some parsed \<Rightarrow>
                           (if parsed = 0 \<or> parsed > 3600 then None else Some parsed)))"

fun probe_scan :: "u32 \<Rightarrow> wstring list \<Rightarrow> u32 option" where
  "probe_scan seconds [] = Some seconds"
| "probe_scan seconds (token # rest) =
     (case RedXeFindSwitch token of
        None \<Rightarrow> probe_scan seconds rest
      | Some entry \<Rightarrow>
          (if valueKind entry = ValueSeparate then probe_scan seconds (tl rest)
           else if switch_id entry \<noteq> SwitchProbe then probe_scan seconds rest
           else if seconds \<noteq> 0 then None
           else case probe_value token of
                  None \<Rightarrow> None
                | Some s \<Rightarrow> probe_scan s rest))"

definition RedXeParseProbeArguments :: "wstring list \<Rightarrow> u32 option" where
  "RedXeParseProbeArguments arguments = probe_scan 0 (tl arguments)"

section \<open>Readers of Main.cpp\<close>

definition HasArgument :: "wstring list \<Rightarrow> wstring \<Rightarrow> bool" where
  "HasArgument arguments expected \<longleftrightarrow> list_ex (\<lambda>a. expected = a) (tl arguments)"

text \<open>The result is the value, empty where the switch is absent; \<open>None\<close> is \<open>false\<close>.\<close>

fun value_scan :: "wstring \<Rightarrow> wstring \<Rightarrow> wstring list \<Rightarrow> wstring option" where
  "value_scan expected v [] = Some v"
| "value_scan expected v (a # rest) =
     (if a \<noteq> expected then value_scan expected v rest
      else if v \<noteq> [] \<or> rest = [] \<or> hd rest = [] then None
      else value_scan expected (hd rest) (tl rest))"

definition GetValueArgument :: "wstring list \<Rightarrow> wstring \<Rightarrow> wstring option" where
  "GetValueArgument arguments expected = value_scan expected [] (tl arguments)"

definition GetSettingsArgument :: "wstring list \<Rightarrow> wstring option" where
  "GetSettingsArgument arguments = value_scan (RedXeSwitchName SwitchSettings) [] (tl arguments)"

section \<open>Exit codes\<close>

definition RedXeIsUnattendedRun :: "bool \<Rightarrow> bool \<Rightarrow> bool" where
  "RedXeIsUnattendedRun selfTest screenshot \<longleftrightarrow> selfTest \<or> screenshot"

definition RedXeExitCodeName :: "int \<Rightarrow> string" where
  "RedXeExitCodeName exitCode =
     (if exitCode = 1 then ''settings''
      else if exitCode = 2 then ''command line or window''
      else if exitCode = 3 then ''plugins''
      else if exitCode = 5 then ''graphics''
      else if exitCode = 7 then ''settings watcher''
      else if exitCode = 8 then ''screenshot capture''
      else ''startup'')"

definition kRedXeScreenshotFailedExitCode :: int where "kRedXeScreenshotFailedExitCode = 8"

definition RedXeScreenshotExitCode :: "int \<Rightarrow> bool \<Rightarrow> int" where
  "RedXeScreenshotExitCode runExitCode pngWritten =
     (if pngWritten then runExitCode else kRedXeScreenshotFailedExitCode)"

definition RedXeShowsExitCodeBox :: "int \<Rightarrow> bool \<Rightarrow> bool \<Rightarrow> bool" where
  "RedXeShowsExitCodeBox exitCode selfTest screenshot \<longleftrightarrow>
     exitCode \<noteq> 0 \<and> \<not> RedXeIsUnattendedRun selfTest screenshot"

section \<open>The help text\<close>

definition newline :: wstring where "newline = [10]"

abbreviation wide_space :: u16 where "wide_space \<equiv> 32"

definition kColumn :: nat where "kColumn = 32"
definition kWidth :: nat where "kWidth = 110"

text \<open>The word wrap of a summary under itself; \<open>lineLength\<close> counts the current line past the column.\<close>

function wrap_summary :: "wstring \<Rightarrow> nat \<Rightarrow> wstring" where
  "wrap_summary text lineLength =
     (if text = [] then []
      else
        (let space = index_of wide_space text;
             word = (case space of None \<Rightarrow> text | Some i \<Rightarrow> take i text);
             rest = (case space of None \<Rightarrow> [] | Some i \<Rightarrow> drop (i + 1) text)
         in if lineLength \<noteq> 0 \<and> lineLength + 1 + length word > kWidth - kColumn
            then newline @ replicate kColumn wide_space @ word @ wrap_summary rest (length word)
            else if lineLength \<noteq> 0
            then [wide_space] @ word @ wrap_summary rest (lineLength + 1 + length word)
            else word @ wrap_summary rest (length word)))"
  by pat_completeness auto
termination
  by (relation "measure (\<lambda>(text, _). length text)") (auto split: option.split)

declare wrap_summary.simps [simp del]

definition help_lead_text :: "RedXeCommandLineSwitch \<Rightarrow> wstring" where
  "help_lead_text entry =
     W ''  '' @ switch_name entry @
     (case switch_value entry of
        None \<Rightarrow> []
      | Some v \<Rightarrow>
          (if valueKind entry \<noteq> ValueOptionalJoined
           then (if valueKind entry = ValueJoined then W ''='' else W '' '') else []) @ v) @
     (case aliases entry of None \<Rightarrow> [] | Some a \<Rightarrow> W ''  ('' @ a @ W '')'')"

definition help_lead :: "RedXeCommandLineSwitch \<Rightarrow> wstring" where
  "help_lead entry =
     (let lead = help_lead_text entry
      in if length lead < kColumn then lead @ replicate (kColumn - length lead) wide_space
         else lead @ newline @ replicate kColumn wide_space)"

definition help_entry :: "RedXeCommandLineSwitch \<Rightarrow> wstring" where
  "help_entry entry = help_lead entry @ wrap_summary (summary entry) 0 @ newline"

definition RedXeFormatCommandLineHelp :: wstring where
  "RedXeFormatCommandLineHelp =
     W ''RedXe '' @ [0x2014] @ W '' CORSAIR XENEON EDGE dashboard'' @ newline @ newline @
     W ''Usage: RedXe.exe [--settings <path>] [--dock <edge>[@<monitor>] [dock options]]'' @ newline @
     W ''                 [--screenshot <png> [--page <id>] [--widget <ordinal>] [--after <ms>]] [--warp]'' @ newline @
     W ''       RedXe.exe --help'' @ newline @
     newline @
     W (''Without switches RedXe follows the settings file under %LocalAppData%'' @ [CHR 0x5C] @ ''RedXe'' @
        [CHR 0x5C] @ ''Settings and watches it for edits:'') @ newline @
     W (''the XENEON window (fullscreen in Release, titled in Debug), a titled window without a '' @
        ''XENEON (Release asks'') @ newline @
     W ''first), or a bar on a screen edge when the file sets a dock. A first start without a XENEON writes an'' @ newline @
     W ''auto-hiding bar into the new file. Every switch overrides the file for this run only.'' @ newline @
     concat (map (\<lambda>g. newline @ g @ newline @
                        concat (map help_entry
                          (filter (\<lambda>e. switch_group e = g) kRedXeCommandLineSwitches)))
                 kRedXeCommandLineGroups) @
     newline @
     W ''Exit codes: 0 ok, 1 settings, 2 command line or window, 3 plugins, 5 graphics, 7 settings watcher,'' @ newline @
     W ''8 screenshot capture. --self-test: 6 a failed check, 3 a failed Debug runtime check, 4 abort(), each'' @ newline @
     W ''reported on stderr. Settings, dock, pages, and actions: docs/usage.md and docs/actions.md.'' @ newline"

text \<open>What the search reads of an entry: its id, its name and the kind of its value.\<close>

type_synonym switch_key = "RedXeSwitch \<times> wstring \<times> RedXeSwitchValue"

definition switch_key :: "RedXeCommandLineSwitch \<Rightarrow> switch_key" where
  "switch_key e = (switch_id e, switch_name e, valueKind e)"

definition key_selected :: "wstring \<Rightarrow> switch_key \<Rightarrow> bool" where
  "key_selected argument = (\<lambda>(_, name, kind).
     if kind = ValueJoined then length argument \<ge> length name + 2 \<and> starts_with argument name \<and> argument ! length name = 61
     else if kind = ValueOptionalJoined
     then argument = name \<or> (length argument \<ge> length name + 1 \<and> starts_with argument name \<and> argument ! length name = 61)
     else argument = name)"

lemma entry_selected_key: "entry_selected argument e = key_selected argument (switch_key e)"
  by (cases "valueKind e") (simp_all add: entry_selected_def key_selected_def switch_key_def Let_def code_def)

lemma switch_keys: "map switch_key kRedXeCommandLineSwitches =
   [(SwitchHelp, W ''--help'', ValueNone), (SwitchRedMonitor, W ''--redmonitor'', ValueNone),
    (SwitchSettings, W ''--settings'', ValueSeparate), (SwitchWarp, W ''--warp'', ValueNone),
    (SwitchDock, W ''--dock'', ValueSeparate), (SwitchDockMode, W ''--dock-mode'', ValueSeparate),
    (SwitchDockThickness, W ''--dock-thickness'', ValueSeparate),
    (SwitchDockReserve, W ''--dock-reserve'', ValueSeparate),
    (SwitchDockPeek, W ''--dock-peek'', ValueSeparate), (SwitchScreenshot, W ''--screenshot'', ValueSeparate),
    (SwitchPage, W ''--page'', ValueSeparate), (SwitchWidget, W ''--widget'', ValueSeparate),
    (SwitchAfter, W ''--after'', ValueSeparate), (SwitchProbe, W ''--probe'', ValueOptionalJoined),
    (SwitchSelfTest, W ''--self-test'', ValueNone), (SwitchCrashTest, W ''--crash-test'', ValueNone),
    (SwitchCrashTestStackOverflow, W ''--crash-test-stack-overflow'', ValueNone),
    (SwitchCrashTestDirectory, W ''--crash-test-directory'', ValueJoined),
    (SwitchRedMonitorProbe, W ''--redmonitor-probe'', ValueNone)]"
  by (simp add: kRedXeCommandLineSwitches_def catalog_entry_def switch_key_def)

lemma RedXeFindSwitch_key:
  "map_option switch_key (RedXeFindSwitch argument) =
     (if RedXeIsHelpArgument argument then Some (SwitchHelp, W ''--help'', ValueNone)
      else find (key_selected argument) (map switch_key kRedXeCommandLineSwitches))"
  by (simp add: RedXeFindSwitch_def entry_selected_key map_option_find RedXeSwitchInfo_def
      kRedXeCommandLineSwitches_def catalog_entry_def switch_key_def)

definition switch_token :: "switch_key \<Rightarrow> wstring \<Rightarrow> wstring" where
  "switch_token = (\<lambda>(_, name, kind) v.
     if kind \<in> {ValueJoined, ValueOptionalJoined} then name @ W ''='' @ v else name)"

lemma switch_token_found:
  "v \<noteq> [] \<Longrightarrow> k \<in> set (map switch_key kRedXeCommandLineSwitches) \<Longrightarrow>
   map_option switch_key (RedXeFindSwitch (switch_token k v)) = Some k"
  unfolding RedXeFindSwitch_key unfolding switch_keys
  by (simp only: list.set insert_iff empty_iff, elim disjE)
   (simp_all add: switch_token_def RedXeIsHelpArgument_def
    kRedXeHelpArguments_def key_selected_def starts_with_def W_simps code_def Suc_le_eq)

section \<open>Lines made of switches\<close>

text \<open>A line whose every token is a switch of the catalog or the value of the switch before it.\<close>

inductive known_line :: "wstring list \<Rightarrow> bool" where
  known_nil: "known_line []"
| known_alone: "RedXeFindSwitch a = Some e \<Longrightarrow> valueKind e \<noteq> ValueSeparate \<Longrightarrow> known_line rest \<Longrightarrow>
    known_line (a # rest)"
| known_last: "RedXeFindSwitch a = Some e \<Longrightarrow> valueKind e = ValueSeparate \<Longrightarrow> known_line [a]"
| known_value: "RedXeFindSwitch a = Some e \<Longrightarrow> valueKind e = ValueSeparate \<Longrightarrow> known_line rest \<Longrightarrow>
    known_line (a # v # rest)"

lemma unknown_scan_known: "unknown_scan args = None \<Longrightarrow> known_line args"
proof (induction args rule: unknown_scan.induct)
  case (2 a rest)
  then obtain e where e: "RedXeFindSwitch a = Some e" by (cases "RedXeFindSwitch a") auto
  with 2 show ?case
    by (cases "valueKind e = ValueSeparate"; cases rest) (auto intro: known_line.intros)
qed (rule known_nil)

lemma known_unknown_scan: "known_line args \<Longrightarrow> unknown_scan args = None"
  by (induction rule: known_line.induct) auto

text \<open>The tokens read as switches: the value of a separate-value switch is not among them.\<close>

fun switch_tokens :: "wstring list \<Rightarrow> wstring list" where
  "switch_tokens [] = []"
| "switch_tokens (a # rest) =
     a # (case RedXeFindSwitch a of
            Some e \<Rightarrow> if valueKind e = ValueSeparate then switch_tokens (tl rest) else switch_tokens rest
          | None \<Rightarrow> switch_tokens rest)"

definition is_probe :: "wstring \<Rightarrow> bool" where
  "is_probe token \<longleftrightarrow> map_option switch_id (RedXeFindSwitch token) = Some SwitchProbe"

lemma probe_value_range: "probe_value token = Some s \<Longrightarrow> s \<noteq> 0 \<and> s \<le> 3600"
  by (auto simp: probe_value_def Let_def split: if_splits option.splits)

lemma RedXeFindSwitch_mem:
  assumes "RedXeFindSwitch token = Some e"
  shows "e \<in> set kRedXeCommandLineSwitches"
proof (cases "RedXeIsHelpArgument token")
  case True
  have "0 < length kRedXeCommandLineSwitches" by (simp add: kRedXeCommandLineSwitches_def)
  then have "RedXeSwitchInfo SwitchHelp \<in> set kRedXeCommandLineSwitches"
    unfolding RedXeSwitchInfo_def switch_position.simps by (rule nth_mem)
  with True assms show ?thesis by (simp add: RedXeFindSwitch_def)
next
  case False
  with assms show ?thesis by (auto simp: RedXeFindSwitch_def find_Some_iff)
qed

lemma probe_entry_kind:
  assumes "RedXeFindSwitch token = Some e" "switch_id e = SwitchProbe"
  shows "valueKind e \<noteq> ValueSeparate"
proof -
  have "switch_key e \<in> set (map switch_key kRedXeCommandLineSwitches)"
    unfolding set_map by (rule imageI) (rule RedXeFindSwitch_mem [OF assms(1)])
  then show ?thesis using assms(2) unfolding switch_keys by (auto simp: switch_key_def)
qed

text \<open>The scan over the tokens in switch position alone.\<close>

fun probe_fold :: "u32 \<Rightarrow> wstring list \<Rightarrow> u32 option" where
  "probe_fold s [] = Some s"
| "probe_fold s (t # ts) =
     (if \<not> is_probe t then probe_fold s ts
      else if s \<noteq> 0 then None
      else case probe_value t of None \<Rightarrow> None | Some v \<Rightarrow> probe_fold v ts)"

lemma probe_scan_fold: "probe_scan s args = probe_fold s (switch_tokens args)"
proof (induction args arbitrary: s rule: switch_tokens.induct)
  case 1
  then show ?case by simp
next
  case (2 a rest)
  show ?case
  proof (cases "RedXeFindSwitch a")
    case None
    with 2 show ?thesis by (simp add: is_probe_def)
  next
    case (Some e)
    show ?thesis
    proof (cases "valueKind e = ValueSeparate")
      case True
      then have "switch_id e \<noteq> SwitchProbe" using probe_entry_kind [OF Some] by blast
      with True Some 2(2) [OF Some True] show ?thesis by (simp add: is_probe_def)
    next
      case False
      with Some 2(3) [OF Some False] show ?thesis
        by (simp add: is_probe_def split: option.split)
    qed
  qed
qed

lemma probe_fold_spec:
  "probe_fold s ts = Some r \<Longrightarrow> s \<le> 3600 \<Longrightarrow>
   r \<le> 3600 \<and> (r = 0 \<longleftrightarrow> s = 0 \<and> (\<forall>t \<in> set ts. \<not> is_probe t))"
proof (induction s ts rule: probe_fold.induct)
  case (2 s t ts)
  then show ?case
    by (auto dest: probe_value_range split: if_splits option.splits)
qed simp

section \<open>The help text fits the console\<close>

lemma wrap_lines:
  assumes "10 \<notin> set pre" "length pre \<le> kColumn + lineLength" "lineLength \<le> 78" "10 \<notin> set content"
    "list_all (\<lambda>w. length w \<le> 78) (split_on wide_space content)"
  shows "list_all (\<lambda>l. length l \<le> kWidth) (split_on 10 (pre @ wrap_summary content lineLength))"
  using assms
proof (induction content lineLength arbitrary: pre rule: wrap_summary.induct)
  case (1 content lineLength)
  have w: "kWidth = 110" "kColumn = 32" by (simp_all add: kWidth_def kColumn_def)
  show ?case
  proof (cases "content = []")
    case True
    with 1 show ?thesis by (simp add: wrap_summary.simps split_on_none w)
  next
    case False
    define space where "space = index_of wide_space content"
    define word where "word = (case space of None \<Rightarrow> content | Some i \<Rightarrow> take i content)"
    define rest where "rest = (case space of None \<Rightarrow> [] | Some i \<Rightarrow> drop (i + 1) content)"
    have parts: "split_on wide_space content = (case space of None \<Rightarrow> [content] | Some i \<Rightarrow> word # split_on wide_space rest)"
      by (subst split_on_find) (simp add: space_def word_def rest_def split: option.split)
    have rest_words: "list_all (\<lambda>w. length w \<le> 78) (split_on wide_space rest)"
      using "1.prems"(5) parts by (auto simp: rest_def split: option.splits)
    have word_len: "length word \<le> 78"
      using "1.prems"(5) parts by (auto simp: word_def split: option.splits)
    have clean: "10 \<notin> set word" "10 \<notin> set rest"
      using "1.prems"(4) by (auto simp: word_def rest_def split: option.splits dest: in_set_takeD in_set_dropD)
    note eq = wrap_summary.simps [of content lineLength, folded space_def, unfolded Let_def,
        folded word_def rest_def]
    note IH = "1.IH" [OF False refl refl refl, folded space_def, folded word_def rest_def]
    consider (new_line) "lineLength \<noteq> 0 \<and> lineLength + 1 + length word > kWidth - kColumn"
      | (same_line) "lineLength \<noteq> 0" "\<not> lineLength + 1 + length word > kWidth - kColumn"
      | (first) "lineLength = 0" by blast
    then show ?thesis
    proof cases
      case new_line
      have "list_all (\<lambda>l. length l \<le> kWidth)
          (split_on 10 ((replicate kColumn wide_space @ word) @ wrap_summary rest (length word)))"
        using new_line clean word_len rest_words by (intro IH(1)) (auto simp: w)
      then show ?thesis
        using new_line False "1.prems"(1-3) by (simp add: eq newline_def split_on_append w)
    next
      case same_line
      have "list_all (\<lambda>l. length l \<le> kWidth)
          (split_on 10 ((pre @ [wide_space] @ word) @ wrap_summary rest (lineLength + 1 + length word)))"
        using same_line clean rest_words "1.prems"(1,2) by (intro IH(2)) (auto simp: w)
      then show ?thesis using same_line False by (simp add: eq)
    next
      case first
      have "list_all (\<lambda>l. length l \<le> kWidth)
          (split_on 10 ((pre @ word) @ wrap_summary rest (length word)))"
        using first clean word_len rest_words "1.prems"(1,2) by (intro IH(3)) (auto simp: w)
      then show ?thesis unfolding eq using first False by simp
    qed
  qed
qed

text \<open>The same bound read in one pass over the text.\<close>

fun words_within :: "nat \<Rightarrow> nat \<Rightarrow> string \<Rightarrow> bool" where
  "words_within limit n [] = (n \<le> limit)"
| "words_within limit n (c # s) =
     (c \<noteq> CHR 0x0A \<and> (if c = CHR '' '' then n \<le> limit \<and> words_within limit 0 s else words_within limit (n + 1) s))"

lemma words_within_split:
  "words_within limit n s \<longleftrightarrow> CHR 0x0A \<notin> set s \<and>
     n + length (hd (split_on CHR '' '' s)) \<le> limit \<and>
     list_all (\<lambda>w. length w \<le> limit) (tl (split_on CHR '' '' s))"
proof (induction s arbitrary: n)
  case Nil
  then show ?case by simp
next
  case (Cons c s)
  obtain p ps where "split_on CHR '' '' s = p # ps" by (meson list.exhaust split_on_nonempty)
  then show ?case using Cons.IH by auto
qed

definition wraps :: "wstring \<Rightarrow> bool" where
  "wraps t \<longleftrightarrow> 10 \<notin> set t \<and> list_all (\<lambda>w. length w \<le> 78) (split_on wide_space t)"

lemma words_within_wraps:
  assumes "words_within 78 0 s"
  shows "wraps (W s)"
proof -
  obtain p ps where ps: "split_on CHR '' '' s = p # ps" by (meson list.exhaust split_on_nonempty)
  have "10 \<notin> set (W s)"
  proof
    assume "10 \<in> set (W s)"
    then obtain c where c: "c \<in> set s" "(10 :: u16) = of_nat (code c)" by (auto simp: W_def)
    then have "W [CHR 0x0A] = W [c]" by (simp add: W_simps code_def)
    with c(1) assms show False by (simp add: words_within_split)
  qed
  moreover have "split_on wide_space (W s) = map W (split_on CHR '' '' s)"
    using split_on_W [of "CHR '' ''" s] by (simp add: code_def)
  ultimately show ?thesis
    using assms by (simp add: wraps_def words_within_split ps list_all_iff)
qed

lemma summaries_wrap: "list_all (\<lambda>e. wraps (summary e)) kRedXeCommandLineSwitches"
  unfolding kRedXeCommandLineSwitches_def catalog_entry_def
  by (simp only: list.pred_inject RedXeCommandLineSwitch.simps simp_thms; intro conjI;
      rule words_within_wraps; code_simp)

lemma leads_fit:
  "list_all (\<lambda>e. 10 \<notin> set (help_lead_text e) \<and> length (help_lead_text e) \<le> kWidth) kRedXeCommandLineSwitches"
  unfolding kRedXeCommandLineSwitches_def catalog_entry_def
  by (simp only: list.pred_inject help_lead_text_def RedXeCommandLineSwitch.simps option.case
      RedXeSwitchValue.distinct if_True if_False simp_thms append_Nil)
    (simp add: W_simps code_def kWidth_def)

lemma help_entry_fits:
  assumes "10 \<notin> set (help_lead_text e)" "length (help_lead_text e) \<le> kWidth" "wraps (summary e)"
  shows "list_all (\<lambda>l. length l \<le> kWidth) (split_on 10 (help_entry e))"
proof -
  have body: "list_all (\<lambda>l. length l \<le> kWidth) (split_on 10 (pre @ wrap_summary (summary e) 0))"
    if "10 \<notin> set pre" "length pre \<le> kColumn" for pre
    using wrap_lines [of pre 0 "summary e"] that assms(3) by (simp add: wraps_def)
  have close: "list_all (\<lambda>l. length l \<le> kWidth) (split_on 10 (t @ newline))"
    if "list_all (\<lambda>l. length l \<le> kWidth) (split_on 10 t)" for t
    using that by (simp add: newline_def split_on_snoc)
  show ?thesis
  proof (cases "length (help_lead_text e) < kColumn")
    case True
    have "10 \<notin> set (help_lead_text e @ replicate (kColumn - length (help_lead_text e)) wide_space)"
      using assms(1) by simp
    from close [OF body [OF this]] True show ?thesis
      by (simp add: help_entry_def help_lead_def Let_def)
  next
    case False
    have "list_all (\<lambda>l. length l \<le> kWidth)
        (split_on 10 (help_lead_text e @ 10 # (replicate kColumn wide_space @ wrap_summary (summary e) 0)))"
      using assms(1,2) body [of "replicate kColumn wide_space"] by (simp add: split_on_append)
    from close [OF this] False show ?thesis
      by (simp add: help_entry_def help_lead_def Let_def newline_def)
  qed
qed

section \<open>Probe tokens\<close>

lemma wide_digit_code: "wide_digit (of_nat (code c)) \<longleftrightarrow> is_digit c"
proof -
  have "unat (of_nat (code c) :: u16) = code c"
    by (rule unat_of_nat_u16) (rule order_less_trans [OF code_less], simp)
  then show ?thesis by (simp add: wide_digit_def is_digit_def)
qed

lemma probe_digits_dec:
  assumes "\<forall>c \<in> set s. is_digit c" "dec_from (unat acc) s \<le> 3600"
  shows "probe_digits acc (W s) = Some (of_nat (dec_from (unat acc) s))"
  using assms
proof (induction s arbitrary: acc)
  case Nil
  then show ?case by (simp add: W_simps)
next
  case (Cons c s)
  have d: "is_digit c" "digit_value c \<le> 9" using Cons.prems(1) digit_value_le [of c] by auto
  have le: "unat acc * 10 + digit_value c \<le> 3600"
    using Cons.prems(2) dec_from_ge [of "unat acc * 10 + digit_value c" s] by simp
  have "(ucast (of_nat (code c) :: u16) :: u32) - 48 = of_nat (digit_value c)"
  proof -
    have "(ucast (of_nat (code c) :: u16) :: u32) = of_nat (code c)"
      using order_less_trans [OF code_less, of "2 ^ 16" c]
      by (simp add: unsigned_of_nat take_bit_nat_eq_self)
    then show ?thesis using d(1) by (simp add: digit_value_def is_digit_def of_nat_diff)
  qed
  moreover have "unat (acc * 10 + of_nat (digit_value c)) = unat acc * 10 + digit_value c"
    using le by (simp add: unat_word_ariths unat_of_nat)
  moreover have "\<not> acc > 360" using le by (simp add: word_less_nat_alt)
  ultimately show ?case
    using Cons.IH [of "acc * 10 + of_nat (digit_value c)"] Cons.prems d
    by (simp add: W_simps wide_digit_code)
qed

section \<open>Properties\<close>

text \<open>Every switch of the catalog is reachable by its own token: its name, with \<open>=value\<close> where the
  value is joined, selects that entry and no other.\<close>

lemma catalog_roundtrip:
  assumes "v \<noteq> []" "k \<in> set (map switch_key kRedXeCommandLineSwitches)"
  shows "map_option switch_key (RedXeFindSwitch (switch_token k v)) = Some k"
  using assms by (rule switch_token_found)

lemma catalog_roundtrip_witness:
  "map_option switch_key (RedXeFindSwitch (switch_token (SwitchProbe, W ''--probe'', ValueOptionalJoined) (W ''60'')))
     = Some (SwitchProbe, W ''--probe'', ValueOptionalJoined)"
  by (rule catalog_roundtrip) (simp add: W_simps, unfold switch_keys, simp)

text \<open>The unknown-argument check accepts exactly the lines made of catalog switches, each
  separate-value switch consuming the argument after it whatever it looks like.\<close>

lemma unknown_argument_none_iff:
  "RedXeFindUnknownArgument arguments = None \<longleftrightarrow> known_line (tl arguments)"
  using unknown_scan_known known_unknown_scan by (auto simp: RedXeFindUnknownArgument_def)

text \<open>An accepted probe interval is at most 3600 seconds, and it is zero exactly where no argument in
  switch position asks for a probe.\<close>

lemma probe_interval_range:
  assumes "RedXeParseProbeArguments arguments = Some s"
  shows "s \<le> 3600 \<and> (s = 0 \<longleftrightarrow> list_all (\<lambda>t. \<not> is_probe t) (switch_tokens (tl arguments)))"
  using assms probe_fold_spec [of 0 _ s]
  by (simp add: RedXeParseProbeArguments_def probe_scan_fold list_all_iff)

lemma find_probe:
  assumes "v \<noteq> []"
  shows "\<exists>e. RedXeFindSwitch (W ''--probe='' @ v) = Some e \<and> valueKind e = ValueOptionalJoined \<and> switch_id e = SwitchProbe"
proof -
  have "map_option switch_key (RedXeFindSwitch (switch_token (SwitchProbe, W ''--probe'', ValueOptionalJoined) v))
      = Some (SwitchProbe, W ''--probe'', ValueOptionalJoined)"
    by (rule switch_token_found [OF assms]) (unfold switch_keys, simp)
  moreover have "switch_token (SwitchProbe, W ''--probe'', ValueOptionalJoined) v = W ''--probe='' @ v"
    by (simp add: switch_token_def W_simps)
  ultimately show ?thesis by (auto simp: switch_key_def)
qed

lemma RedXeSwitchName_probe: "RedXeSwitchName SwitchProbe = W ''--probe''"
  by (simp add: RedXeSwitchName_def RedXeSwitchInfo_def kRedXeCommandLineSwitches_def catalog_entry_def)

lemma probe_value_dec:
  assumes "1 \<le> n" "n \<le> 3600"
  shows "probe_value (W ''--probe='' @ W (dec_string n)) = Some (of_nat n)"
proof -
  have "probe_digits 0 (W (dec_string n)) = Some (of_nat n)"
    using probe_digits_dec [of "dec_string n" 0] assms dec_string_digits [of _ n] by simp
  moreover have "(of_nat n :: u32) \<noteq> 0 \<and> \<not> (of_nat n :: u32) > 3600"
    using assms by (simp add: word_less_nat_alt unat_of_nat take_bit_nat_eq_self of_nat_eq_0_iff unat_eq_zero [symmetric])
  moreover have "W (dec_string n) \<noteq> []" by simp
  ultimately show ?thesis
    by (simp add: probe_value_def RedXeSwitchName_probe W_simps)
qed

text \<open>\<open>--probe=n\<close> asks for n seconds, for every whole number of seconds from 1 to 3600.\<close>

lemma probe_interval_roundtrip:
  assumes "1 \<le> n" "n \<le> 3600"
  shows "RedXeParseProbeArguments [program, W ''--probe='' @ W (dec_string n)] = Some (of_nat n)"
proof -
  have "W (dec_string n) \<noteq> []" by simp
  from find_probe [OF this] obtain e where
    "RedXeFindSwitch (W ''--probe='' @ W (dec_string n)) = Some e"
    "valueKind e = ValueOptionalJoined" "switch_id e = SwitchProbe" by blast
  then show ?thesis
    using probe_value_dec [OF assms] by (simp add: RedXeParseProbeArguments_def)
qed

lemma probe_interval_roundtrip_witness:
  "RedXeParseProbeArguments [[], W ''--probe='' @ W (dec_string 90)] = Some (of_nat 90)"
  by (rule probe_interval_roundtrip) simp_all

lemma probe_interval_range_witness:
  "(90 :: u32) \<le> 3600 \<and> ((90 :: u32) = 0 \<longleftrightarrow>
     list_all (\<lambda>t. \<not> is_probe t) (switch_tokens (tl [[], W ''--probe='' @ W (dec_string 90)])))"
proof -
  have n: "1 \<le> (90::nat)" "(90::nat) \<le> 3600" by simp_all
  have "W (dec_string 90) \<noteq> []" by simp
  from find_probe [OF this] obtain e where
    "RedXeFindSwitch (W ''--probe='' @ W (dec_string 90)) = Some e"
    "valueKind e = ValueOptionalJoined" "switch_id e = SwitchProbe" by blast
  then have "RedXeParseProbeArguments [[], W ''--probe='' @ W (dec_string 90)] = Some 90"
    using probe_value_dec [OF n] by (simp add: RedXeParseProbeArguments_def)
  from probe_interval_range [OF this] show ?thesis by simp
qed

text \<open>No line of an entry of the help text is wider than 110 columns.\<close>

lemma help_fits_console:
  "list_all (\<lambda>e. list_all (\<lambda>l. length l \<le> kWidth) (split_on 10 (help_entry e))) kRedXeCommandLineSwitches"
  using summaries_wrap leads_fit help_entry_fits unfolding list_all_iff by blast

text \<open>
  The readers of \<open>Main.cpp\<close> do not skip the values of other switches: here \<open>--dock\<close> is the page of
  \<open>--page\<close> for the unknown-argument check, and a switch with the value \<open>--widget\<close> for the dock reader.
\<close>

lemma value_read_as_switch:
  "let arguments = [[], W ''--page'', W ''--dock'', W ''--widget'', W ''3'']
   in RedXeFindUnknownArgument arguments = None \<and>
      GetValueArgument arguments (RedXeSwitchName SwitchPage) = Some (W ''--dock'') \<and>
      GetValueArgument arguments (RedXeSwitchName SwitchDock) = Some (W ''--widget'')"
proof -
  have found: "\<exists>e. RedXeFindSwitch n = Some e \<and> valueKind e = ValueSeparate"
    if "(i, n, ValueSeparate) \<in> set (map switch_key kRedXeCommandLineSwitches)" for i n
    using switch_token_found [of "[0]" "(i, n, ValueSeparate)"] that
    by (auto simp: switch_token_def switch_key_def)
  have "\<exists>e. RedXeFindSwitch (W ''--page'') = Some e \<and> valueKind e = ValueSeparate"
    by (rule found [of SwitchPage]) (unfold switch_keys, simp)
  moreover have "\<exists>e. RedXeFindSwitch (W ''--widget'') = Some e \<and> valueKind e = ValueSeparate"
    by (rule found [of SwitchWidget]) (unfold switch_keys, simp)
  moreover have "RedXeSwitchName SwitchPage = W ''--page''" "RedXeSwitchName SwitchDock = W ''--dock''"
    by (simp_all add: RedXeSwitchName_def RedXeSwitchInfo_def kRedXeCommandLineSwitches_def catalog_entry_def)
  ultimately show ?thesis
    by (auto simp: Let_def RedXeFindUnknownArgument_def GetValueArgument_def)
qed

end
