(* ===== verification/Dock_Options.thy ===== *)
theory Dock_Options
  imports Display_Selection Command_Line
begin

text \<open>
  The dock's settings (\<open>DockSettings\<close> of \<open>RedXe/Settings.h\<close>), the \<open>--dock*\<close> switches that override them
  (\<open>RedXe/DockOptions.h\<close>, read by \<open>Main.cpp\<close>) and the dock written on a first start without a XENEON
  (\<open>MakeFirstRunDock\<close> of \<open>Application.cpp\<close>). \<open>SettingsText\<close>, a zero-filled buffer with a length, is the
  text it holds. \<open>WideCharToMultiByte\<close> with its buffer size is the parameter \<open>to_utf8\<close>.
\<close>

section \<open>Settings\<close>

definition kMaximumSettingsTextBytes :: nat where "kMaximumSettingsTextBytes = 512"

definition kDockMaximumRevealDelayMilliseconds :: u32 where "kDockMaximumRevealDelayMilliseconds = 2000"
definition kDockDefaultRevealDelayMilliseconds :: u32 where "kDockDefaultRevealDelayMilliseconds = 150"
definition kDockMaximumHideDelayMilliseconds :: u32 where "kDockMaximumHideDelayMilliseconds = 10000"
definition kDockDefaultHideDelayMilliseconds :: u32 where "kDockDefaultHideDelayMilliseconds = 800"
definition kDockMaximumAnimationMilliseconds :: u32 where "kDockMaximumAnimationMilliseconds = 1000"
definition kDockDefaultAnimationMilliseconds :: u32 where "kDockDefaultAnimationMilliseconds = 200"

record DockSettings =
  dock_edge :: DockEdge
  dock_monitor :: string
  thicknessDips :: u32
  dock_mode :: DockMode
  reserveWorkArea :: bool
  peekPixels :: u32
  revealDelayMilliseconds :: u32
  hideDelayMilliseconds :: u32
  animationMilliseconds :: u32

definition DefaultDockSettings :: DockSettings where
  "DefaultDockSettings =
     \<lparr>dock_edge = EdgeNone, dock_monitor = kDockDefaultMonitor, thicknessDips = kDockDefaultThicknessDips,
      dock_mode = ModeFixed, reserveWorkArea = True, peekPixels = kDockDefaultPeekPixels,
      revealDelayMilliseconds = kDockDefaultRevealDelayMilliseconds,
      hideDelayMilliseconds = kDockDefaultHideDelayMilliseconds,
      animationMilliseconds = kDockDefaultAnimationMilliseconds\<rparr>"

section \<open>The switches\<close>

record DockOverrides =
  hasEdge :: bool
  ov_edge :: DockEdge
  hasMonitor :: bool
  ov_monitor :: string
  hasMode :: bool
  ov_mode :: DockMode
  hasThickness :: bool
  ov_thickness :: u32
  hasReserve :: bool
  ov_reserve :: bool
  hasPeek :: bool
  ov_peek :: u32

definition DockOverrides_init :: DockOverrides where
  "DockOverrides_init =
     \<lparr>hasEdge = False, ov_edge = EdgeNone, hasMonitor = False, ov_monitor = [], hasMode = False,
      ov_mode = ModeFixed, hasThickness = False, ov_thickness = kDockDefaultThicknessDips,
      hasReserve = False, ov_reserve = True, hasPeek = False, ov_peek = kDockDefaultPeekPixels\<rparr>"

definition DockOverrides_Any :: "DockOverrides \<Rightarrow> bool" where
  "DockOverrides_Any ov \<longleftrightarrow>
     hasEdge ov \<or> hasMonitor ov \<or> hasMode ov \<or> hasThickness ov \<or> hasReserve ov \<or> hasPeek ov"

type_synonym narrowing = "wstring \<Rightarrow> nat \<Rightarrow> string option"

definition NarrowUtf8 :: "narrowing \<Rightarrow> wstring \<Rightarrow> string option" where
  "NarrowUtf8 to_utf8 wide =
     (if wide = [] then None
      else case to_utf8 wide kMaximumSettingsTextBytes of
             None \<Rightarrow> None
           | Some s \<Rightarrow> if s = [] \<or> length s > kMaximumSettingsTextBytes then None else Some s)"

text \<open>\<open>DockOptionsDetail::ParseUnsigned\<close>: at most ten digits, so the 64-bit value does not wrap.\<close>

fun option_digits :: "u64 \<Rightarrow> wstring \<Rightarrow> u64 option" where
  "option_digits acc [] = Some acc"
| "option_digits acc (c # cs) =
     (if \<not> wide_digit c then None else option_digits (acc * 10 + (ucast c - 48)) cs)"

definition ParseUnsignedOption :: "wstring \<Rightarrow> u32 \<Rightarrow> u32 \<Rightarrow> u32 option" where
  "ParseUnsignedOption v minimum maximum =
     (if v = [] \<or> length v > 10 then None
      else case option_digits 0 v of
             None \<Rightarrow> None
           | Some r \<Rightarrow> if r < ucast minimum \<or> r > ucast maximum then None else Some (ucast r))"

definition ParseDockEdgeArgument :: "narrowing \<Rightarrow> wstring \<Rightarrow> DockOverrides \<Rightarrow> DockOverrides option" where
  "ParseDockEdgeArgument to_utf8 v overrides =
     (let at = index_of (of_nat (code CHR ''@'')) v;
          edgeText = (case at of None \<Rightarrow> v | Some i \<Rightarrow> take i v);
          monitorText = (case at of None \<Rightarrow> [] | Some i \<Rightarrow> drop (i + 1) v)
      in if at \<noteq> None \<and> monitorText = [] then None
         else case NarrowUtf8 to_utf8 edgeText of
                None \<Rightarrow> None
              | Some narrowEdge \<Rightarrow>
                  (case DockEdgeParse narrowEdge of
                     None \<Rightarrow> None
                   | Some edge \<Rightarrow>
                       (if monitorText = [] then Some (overrides\<lparr>hasEdge := True, ov_edge := edge\<rparr>)
                        else case NarrowUtf8 to_utf8 monitorText of
                               None \<Rightarrow> None
                             | Some monitor \<Rightarrow>
                                 (if ParseMonitorSelector monitor False = None then None
                                  else Some (overrides\<lparr>hasEdge := True, ov_edge := edge,
                                                       hasMonitor := True, ov_monitor := monitor\<rparr>)))))"

definition ParseDockModeArgument :: "narrowing \<Rightarrow> wstring \<Rightarrow> DockOverrides \<Rightarrow> DockOverrides option" where
  "ParseDockModeArgument to_utf8 v overrides =
     (case NarrowUtf8 to_utf8 v of
        None \<Rightarrow> None
      | Some narrow \<Rightarrow>
          map_option (\<lambda>mode. overrides\<lparr>hasMode := True, ov_mode := mode\<rparr>) (DockModeParse narrow))"

definition ParseDockThicknessArgument :: "wstring \<Rightarrow> DockOverrides \<Rightarrow> DockOverrides option" where
  "ParseDockThicknessArgument v overrides =
     map_option (\<lambda>parsed. overrides\<lparr>hasThickness := True, ov_thickness := parsed\<rparr>)
       (ParseUnsignedOption v kDockMinimumThicknessDips kDockMaximumThicknessDips)"

definition ParseDockReserveArgument :: "wstring \<Rightarrow> DockOverrides \<Rightarrow> DockOverrides option" where
  "ParseDockReserveArgument v overrides =
     (if v = W ''on'' then Some (overrides\<lparr>ov_reserve := True, hasReserve := True\<rparr>)
      else if v = W ''off'' then Some (overrides\<lparr>ov_reserve := False, hasReserve := True\<rparr>)
      else None)"

definition ParseDockPeekArgument :: "wstring \<Rightarrow> DockOverrides \<Rightarrow> DockOverrides option" where
  "ParseDockPeekArgument v overrides =
     map_option (\<lambda>parsed. overrides\<lparr>hasPeek := True, ov_peek := parsed\<rparr>)
       (ParseUnsignedOption v kDockMinimumPeekPixels kDockMaximumPeekPixels)"

text \<open>The table of \<open>Main.cpp\<close> and the loop over it; \<open>None\<close> ends the run with exit code 2.\<close>

definition dockSwitches :: "narrowing \<Rightarrow> (wstring \<times> (wstring \<Rightarrow> DockOverrides \<Rightarrow> DockOverrides option)) list" where
  "dockSwitches to_utf8 =
     [(RedXeSwitchName SwitchDock, ParseDockEdgeArgument to_utf8),
      (RedXeSwitchName SwitchDockMode, ParseDockModeArgument to_utf8),
      (RedXeSwitchName SwitchDockThickness, ParseDockThicknessArgument),
      (RedXeSwitchName SwitchDockReserve, ParseDockReserveArgument),
      (RedXeSwitchName SwitchDockPeek, ParseDockPeekArgument)]"

fun read_dock_switches ::
    "wstring list \<Rightarrow> (wstring \<times> (wstring \<Rightarrow> DockOverrides \<Rightarrow> DockOverrides option)) list \<Rightarrow> DockOverrides
     \<Rightarrow> DockOverrides option" where
  "read_dock_switches argv [] overrides = Some overrides"
| "read_dock_switches argv ((name, parse) # switches) overrides =
     (case GetValueArgument argv name of
        None \<Rightarrow> None
      | Some v \<Rightarrow>
          (if v = [] then read_dock_switches argv switches overrides
           else case parse v overrides of
                  None \<Rightarrow> None
                | Some overrides' \<Rightarrow> read_dock_switches argv switches overrides'))"

definition ReadDockOverrides :: "narrowing \<Rightarrow> wstring list \<Rightarrow> DockOverrides option" where
  "ReadDockOverrides to_utf8 argv =
     read_dock_switches argv (dockSwitches to_utf8) DockOverrides_init"

definition EffectiveDockSettings :: "DockSettings \<Rightarrow> DockOverrides \<Rightarrow> DockSettings" where
  "EffectiveDockSettings document ov =
     document\<lparr>dock_edge := (if hasEdge ov then ov_edge ov else dock_edge document),
              dock_monitor := (if hasMonitor ov then ov_monitor ov else dock_monitor document),
              dock_mode := (if hasMode ov then ov_mode ov else dock_mode document),
              thicknessDips := (if hasThickness ov then ov_thickness ov else thicknessDips document),
              reserveWorkArea := (if hasReserve ov then ov_reserve ov else reserveWorkArea document),
              peekPixels := (if hasPeek ov then ov_peek ov else peekPixels document)\<rparr>"

section \<open>The first start without a XENEON\<close>

record FirstRunTopology =
  topology_displays :: nat
  topology_monitor :: RECT
  topology_work :: RECT
  topology_dpi :: u32

text \<open>
  The displays are the walk of \<open>EnumerateDisplays\<close>; \<open>autohide_bar\<close> is the answer of the shell to
  \<open>ABM_GETAUTOHIDEBAREX\<close>, \<open>is_window\<close> that of the window manager.
\<close>

definition AutohideBarOnEdge ::
    "('hwnd \<Rightarrow> bool) \<Rightarrow> (u32 \<Rightarrow> RECT \<Rightarrow> 'hwnd option) \<Rightarrow> DockEdge \<Rightarrow> RECT \<Rightarrow> bool" where
  "AutohideBarOnEdge is_window autohide_bar edge monitor =
     DockAutohideBarHoldsEdge is_window (autohide_bar (DockAppBarEdge edge) monitor)"

definition shares_edge :: "DockMonitorCandidate list \<Rightarrow> nat \<Rightarrow> DockEdge \<Rightarrow> bool" where
  "shares_edge displays chosen edge \<longleftrightarrow>
     list_ex (\<lambda>i. i \<noteq> chosen \<and>
                  DockDisplayTouchesEdge (cand_monitor (displays ! chosen)) (cand_monitor (displays ! i)) edge)
       [0..<length displays]"

definition MakeFirstRunDock ::
    "muldiv \<Rightarrow> ('hwnd \<Rightarrow> bool) \<Rightarrow> (u32 \<Rightarrow> RECT \<Rightarrow> 'hwnd option) \<Rightarrow> (wstring \<Rightarrow> wstring \<Rightarrow> bool)
     \<Rightarrow> DockMonitorCandidate list \<Rightarrow> (DockSettings \<times> FirstRunTopology) option" where
  "MakeFirstRunDock md is_window autohide_bar ordinal_equal displays =
     (let monitorSelector = DockFirstRunMonitor (length displays)
      in case ParseMonitorSelector monitorSelector False of
           None \<Rightarrow> None
         | Some s \<Rightarrow>
             (case SelectDockMonitor ordinal_equal s [] displays of
                None \<Rightarrow> None
              | Some (chosen, _) \<Rightarrow>
                  (let display = displays ! chosen;
                       edge = DockFirstRunEdge (cand_monitor display) (cand_work display)
                                (AutohideBarOnEdge is_window autohide_bar EdgeTop (cand_monitor display))
                                (AutohideBarOnEdge is_window autohide_bar EdgeBottom (cand_monitor display))
                                (shares_edge displays chosen EdgeTop) (shares_edge displays chosen EdgeBottom)
                   in Some (DefaultDockSettings\<lparr>dock_edge := edge, dock_mode := ModeAutohide,
                              dock_monitor := monitorSelector,
                              thicknessDips := DockFirstRunThicknessDips md (cand_monitor display)
                                                 (cand_work display) edge (cand_dpi display)\<rparr>,
                            \<lparr>topology_displays = length displays, topology_monitor = cand_monitor display,
                             topology_work = cand_work display, topology_dpi = cand_dpi display\<rparr>))))"

section \<open>Valid settings\<close>

definition dock_settings_valid :: "DockSettings \<Rightarrow> bool" where
  "dock_settings_valid d \<longleftrightarrow>
     kDockMinimumThicknessDips \<le> thicknessDips d \<and> thicknessDips d \<le> kDockMaximumThicknessDips \<and>
     kDockMinimumPeekPixels \<le> peekPixels d \<and> peekPixels d \<le> kDockMaximumPeekPixels \<and>
     length (dock_monitor d) \<le> kMaximumSettingsTextBytes \<and>
     ParseMonitorSelector (dock_monitor d) False \<noteq> None"

definition overrides_valid :: "DockOverrides \<Rightarrow> bool" where
  "overrides_valid ov \<longleftrightarrow>
     (hasThickness ov \<longrightarrow> kDockMinimumThicknessDips \<le> ov_thickness ov \<and> ov_thickness ov \<le> kDockMaximumThicknessDips) \<and>
     (hasPeek ov \<longrightarrow> kDockMinimumPeekPixels \<le> ov_peek ov \<and> ov_peek ov \<le> kDockMaximumPeekPixels) \<and>
     (hasMonitor ov \<longrightarrow> length (ov_monitor ov) \<le> kMaximumSettingsTextBytes \<and>
        ParseMonitorSelector (ov_monitor ov) False \<noteq> None)"

lemma ParseUnsignedOption_range:
  assumes "ParseUnsignedOption v lo hi = Some p"
  shows "lo \<le> p \<and> p \<le> hi"
proof -
  obtain r where r: "\<not> r < ucast lo" "\<not> r > (ucast hi :: u64)" "p = ucast r"
  proof (cases "option_digits 0 v")
    case (Some r)
    with assms that [of r] show thesis by (simp add: ParseUnsignedOption_def split: if_splits)
  qed (use assms in \<open>simp add: ParseUnsignedOption_def split: if_splits\<close>)
  have le: "unat r \<le> unat hi" using r(2) by (simp add: word_less_nat_alt unat_ucast_u64)
  then have "unat p = unat r"
    unfolding r(3) by (intro unat_ucast_u32) (use unat_less_u32 [of hi] in linarith)
  with le r(1) show ?thesis by (simp add: word_le_nat_alt word_less_nat_alt unat_ucast_u64)
qed

lemma NarrowUtf8_length: "NarrowUtf8 f w = Some s \<Longrightarrow> length s \<le> kMaximumSettingsTextBytes"
  by (auto simp: NarrowUtf8_def split: if_splits option.splits)

lemma parse_valid:
  assumes "(n, parse) \<in> set (dockSwitches f)" "parse v ov = Some ov'" "overrides_valid ov"
  shows "overrides_valid ov'"
proof -
  from assms(1) consider "parse = ParseDockEdgeArgument f" | "parse = ParseDockModeArgument f"
    | "parse = ParseDockThicknessArgument" | "parse = ParseDockReserveArgument" | "parse = ParseDockPeekArgument"
    by (auto simp: dockSwitches_def)
  then show ?thesis
  proof cases
    case 1
    with assms(2,3) show ?thesis
      by (auto simp: ParseDockEdgeArgument_def Let_def overrides_valid_def
          split: if_splits option.splits dest: NarrowUtf8_length)
  next
    case 2
    with assms(2,3) show ?thesis
      by (auto simp: ParseDockModeArgument_def overrides_valid_def split: option.splits)
  next
    case 3
    with assms(2,3) show ?thesis
      by (auto simp: ParseDockThicknessArgument_def overrides_valid_def dest: ParseUnsignedOption_range)
  next
    case 4
    with assms(2,3) show ?thesis
      by (auto simp: ParseDockReserveArgument_def overrides_valid_def split: if_splits)
  next
    case 5
    with assms(2,3) show ?thesis
      by (auto simp: ParseDockPeekArgument_def overrides_valid_def dest: ParseUnsignedOption_range)
  qed
qed

lemma read_dock_switches_valid:
  "read_dock_switches args switches ov = Some ov' \<Longrightarrow> set switches \<subseteq> set (dockSwitches f) \<Longrightarrow>
   overrides_valid ov \<Longrightarrow> overrides_valid ov'"
proof (induction args switches ov rule: read_dock_switches.induct)
  case (2 args n parse switches ov)
  then show ?case
    by (auto split: option.splits if_splits dest: parse_valid)
qed simp

lemma overrides_valid_init: "overrides_valid DockOverrides_init"
  by (simp add: overrides_valid_def DockOverrides_init_def)

lemma ReadDockOverrides_valid: "ReadDockOverrides f args = Some ov \<Longrightarrow> overrides_valid ov"
  unfolding ReadDockOverrides_def
  by (rule read_dock_switches_valid [OF _ subset_refl overrides_valid_init])

lemma EffectiveDockSettings_valid:
  "dock_settings_valid d \<Longrightarrow> overrides_valid ov \<Longrightarrow> dock_settings_valid (EffectiveDockSettings d ov)"
  by (simp add: dock_settings_valid_def overrides_valid_def EffectiveDockSettings_def)

lemma parse_default_monitor: "ParseMonitorSelector kDockDefaultMonitor False = Some (MonitorSelector_init\<lparr>mon_kind := MonitorPrimary\<rparr>)"
  by (simp add: ParseMonitorSelector_def kDockDefaultMonitor_def)
lemma parse_secondary_monitor: "ParseMonitorSelector kDockSecondaryMonitor False = Some (MonitorSelector_init\<lparr>mon_kind := MonitorSecondary\<rparr>)"
  by (simp add: ParseMonitorSelector_def kDockSecondaryMonitor_def)

lemma DockFirstRunThicknessDips_range:
  "kDockMinimumThicknessDips \<le> DockFirstRunThicknessDips md m w e dpi \<and>
   DockFirstRunThicknessDips md m w e dpi \<le> kDockMaximumThicknessDips"
proof -
  define x where "x = clamp_to ((fst (DockClampThickness (max 1 (md (if DockEdgeIsHorizontal e then rright w - rleft w
                  else rbottom w - rtop w) kDockDesignShortSideDips kDockDesignLongSideDips)) m e) * 96) sdiv scale_dpi dpi) 32 1080"
  have x: "32 \<le> x" "x \<le> 1080" unfolding x_def by (rule clamp_to_bounds; simp)+
  then have "unat (u32_of_long x) = nat x" by (intro unat_u32_of_long) auto
  moreover have "DockFirstRunThicknessDips md m w e dpi = u32_of_long x"
    by (simp add: DockFirstRunThicknessDips_def Let_def x_def kDockMinimumThicknessDips_def
        kDockMaximumThicknessDips_def long_of_u32_small)
  ultimately show ?thesis using x
    by (simp add: word_le_nat_alt nat_le_iff le_nat_iff kDockMinimumThicknessDips_def kDockMaximumThicknessDips_def)
qed

lemma DockFirstRunEdge_horizontal:
  "DockFirstRunEdge m w a b c e = EdgeTop \<longleftrightarrow> DockFirstRunEdge m w a b c e \<noteq> EdgeBottom"
  by (simp add: DockFirstRunEdge_def Let_def)

section \<open>Properties\<close>

text \<open>Whatever \<open>--dock*\<close> switches the command line holds, once they are accepted the dock of the run
  is valid where the document's is: thickness and peek in their ranges, and a monitor text that the
  selector grammar reads as one monitor.\<close>

lemma dock_switches_keep_settings_valid:
  assumes "ReadDockOverrides to_utf8 argv = Some ov" "dock_settings_valid document"
  shows "dock_settings_valid (EffectiveDockSettings document ov)"
  using assms(2) ReadDockOverrides_valid [OF assms(1)] by (rule EffectiveDockSettings_valid)

lemma dock_switch_names:
  "RedXeSwitchName SwitchDock = W ''--dock''"
  "RedXeSwitchName SwitchDockMode = W ''--dock-mode''"
  "RedXeSwitchName SwitchDockThickness = W ''--dock-thickness''"
  "RedXeSwitchName SwitchDockReserve = W ''--dock-reserve''"
  "RedXeSwitchName SwitchDockPeek = W ''--dock-peek''"
  by (simp_all add: RedXeSwitchName_def RedXeSwitchInfo_def kRedXeCommandLineSwitches_def catalog_entry_def)

definition ascii_to_utf8 :: narrowing where
  "ascii_to_utf8 wide limit =
     (if length wide \<le> limit \<and> list_all (\<lambda>c. unat c < 128) wide
      then Some (map (\<lambda>c. char_of (unat c)) wide) else None)"

lemma DefaultDockSettings_valid: "dock_settings_valid DefaultDockSettings"
  by (simp add: dock_settings_valid_def DefaultDockSettings_def parse_default_monitor
      kMaximumSettingsTextBytes_def)
    (simp add: kDockMinimumThicknessDips_def kDockMaximumThicknessDips_def kDockDefaultThicknessDips_def
      kDockMinimumPeekPixels_def kDockMaximumPeekPixels_def kDockDefaultPeekPixels_def kDockDefaultMonitor_def)

lemma dock_switches_keep_settings_valid_witness:
  "\<exists>ov. ReadDockOverrides ascii_to_utf8 [[], W ''--dock'', W ''bottom@2'', W ''--dock-peek'', W ''64''] = Some ov
     \<and> dock_edge (EffectiveDockSettings DefaultDockSettings ov) = EdgeBottom
     \<and> dock_settings_valid (EffectiveDockSettings DefaultDockSettings ov)"
proof -
  define ov where "ov = DockOverrides_init
    \<lparr>hasEdge := True, ov_edge := EdgeBottom, hasMonitor := True, ov_monitor := ''2'', hasPeek := True, ov_peek := 64\<rparr>"
  have edge: "ParseDockEdgeArgument ascii_to_utf8 (W ''bottom@2'') DockOverrides_init
      = Some (DockOverrides_init\<lparr>hasEdge := True, ov_edge := EdgeBottom, hasMonitor := True, ov_monitor := ''2''\<rparr>)"
    by code_simp
  have peek: "ParseUnsignedOption (W ''64'') kDockMinimumPeekPixels kDockMaximumPeekPixels = Some 64"
    by code_simp
  have ov: "ReadDockOverrides ascii_to_utf8 [[], W ''--dock'', W ''bottom@2'', W ''--dock-peek'', W ''64''] = Some ov"
    by (simp add: ReadDockOverrides_def dockSwitches_def GetValueArgument_def dock_switch_names edge peek
        ParseDockPeekArgument_def ov_def)
  have "dock_edge (EffectiveDockSettings DefaultDockSettings ov) = EdgeBottom"
    by (simp add: EffectiveDockSettings_def ov_def)
  with ov dock_switches_keep_settings_valid [OF ov DefaultDockSettings_valid] show ?thesis by blast
qed

text \<open>The dock of a first start is a valid autohide bar at the top or bottom of the display its
  monitor text selects again at every later start over the same displays, and with several displays that
  text is \<open>secondary\<close>.\<close>

lemma first_run_dock_is_placed_where_measured:
  assumes "MakeFirstRunDock md is_window autohide_bar oe displays = Some (dock, topology)"
  shows "dock_settings_valid dock \<and> dock_mode dock = ModeAutohide \<and> dock_edge dock \<in> {EdgeTop, EdgeBottom} \<and>
    (dock_monitor dock = kDockSecondaryMonitor \<longleftrightarrow> 1 < length displays) \<and>
    (\<exists>s chosen fellBack. ParseMonitorSelector (dock_monitor dock) False = Some s \<and>
       SelectDockMonitor oe s [] displays = Some (chosen, fellBack) \<and>
       cand_monitor (displays ! chosen) = topology_monitor topology)"
proof -
  obtain s where s1: "ParseMonitorSelector (DockFirstRunMonitor (length displays)) False = Some s"
    using assms by (auto simp: MakeFirstRunDock_def Let_def split: option.splits)
  obtain chosen fb where s2: "SelectDockMonitor oe s [] displays = Some (chosen, fb)"
    using assms s1 by (auto simp: MakeFirstRunDock_def Let_def split: option.splits)
  note s = s1 s2
  have d: "dock_monitor dock = DockFirstRunMonitor (length displays)" "dock_mode dock = ModeAutohide"
      "dock_edge dock = EdgeTop \<or> dock_edge dock = EdgeBottom"
      "thicknessDips dock = DockFirstRunThicknessDips md (cand_monitor (displays ! chosen))
         (cand_work (displays ! chosen)) (dock_edge dock) (cand_dpi (displays ! chosen))"
      "peekPixels dock = kDockDefaultPeekPixels"
      "topology_monitor topology = cand_monitor (displays ! chosen)"
    using assms by (auto simp: MakeFirstRunDock_def Let_def DefaultDockSettings_def s DockFirstRunEdge_horizontal)
  have "dock_edge dock \<in> {EdgeTop, EdgeBottom}" using d(3) by simp
  moreover have "length (dock_monitor dock) \<le> kMaximumSettingsTextBytes"
    "dock_monitor dock = kDockSecondaryMonitor \<longleftrightarrow> 1 < length displays"
    by (auto simp: d(1) DockFirstRunMonitor_def kDockSecondaryMonitor_def kDockDefaultMonitor_def
        kMaximumSettingsTextBytes_def)
  moreover have "kDockMinimumPeekPixels \<le> kDockDefaultPeekPixels \<and> kDockDefaultPeekPixels \<le> kDockMaximumPeekPixels"
    by (simp add: kDockMinimumPeekPixels_def kDockMaximumPeekPixels_def kDockDefaultPeekPixels_def)
  ultimately show ?thesis
    using s d DockFirstRunThicknessDips_range
    by (auto simp: dock_settings_valid_def)
qed

lemma first_run_dock_is_placed_where_measured_witness:
  "\<exists>dock topology. MakeFirstRunDock muldiv_ref (\<lambda>_. True) (\<lambda>_ _. None :: unit option) (=) example_candidates
       = Some (dock, topology) \<and> dock_settings_valid dock \<and> dock_edge dock \<in> {EdgeTop, EdgeBottom}"
proof -
  have "MakeFirstRunDock muldiv_ref (\<lambda>_. True) (\<lambda>_ _. None :: unit option) (=) example_candidates \<noteq> None"
    by code_simp
  then obtain dock topology where
    "MakeFirstRunDock muldiv_ref (\<lambda>_. True) (\<lambda>_ _. None :: unit option) (=) example_candidates = Some (dock, topology)"
    by auto
  with first_run_dock_is_placed_where_measured [OF this] show ?thesis by blast
qed

end
