(* ===== verification/Dock_AppBar.thy ===== *)
theory Dock_AppBar
  imports Dock_Geometry
begin

text \<open>
  The app-bar registration of the dock (\<open>RedXe/DockPlacement.h\<close>: \<open>DockReservation\<close> to
  \<open>DockAppBarCommitted\<close>, and the placement requests) and the part of \<open>RedXe/Application.cpp\<close> that
  carries a plan out (\<open>RegisterDockAppBar\<close>, \<open>UnregisterDockAppBar\<close>, the message loop of
  \<open>PlaceDockPass\<close>, and \<open>PlaceDock\<close>). The Windows shell is not under src/: its answers (whether it
  accepts a registration, which rectangles it returns) are arguments, unconstrained. What it holds is
  a state of its own, which only the messages it receives change.
\<close>

section \<open>What a dock reserves\<close>

datatype DockReservation = ReserveNone | ReserveBar | ReserveStrip

definition DockReservationFor :: "DockMode \<Rightarrow> bool \<Rightarrow> DockReservation" where
  "DockReservationFor mode reserveWorkArea =
     (if mode = ModeAutohide then ReserveStrip
      else if reserveWorkArea then ReserveBar else ReserveNone)"

fun DockReservedPixels :: "DockReservation \<Rightarrow> int \<Rightarrow> int \<Rightarrow> int" where
  "DockReservedPixels ReserveBar thicknessPx peekPx = thicknessPx"
| "DockReservedPixels ReserveStrip thicknessPx peekPx = peekPx"
| "DockReservedPixels ReserveNone thicknessPx peekPx = 0"

definition DockReservationProposal ::
  "DockReservation \<Rightarrow> RECT \<Rightarrow> DockEdge \<Rightarrow> int \<Rightarrow> int \<Rightarrow> RECT" where
  "DockReservationProposal reservation monitor edge thicknessPx peekPx =
     (let reservedPx = DockReservedPixels reservation thicknessPx peekPx
      in if reservedPx > 0 then DockTrimToThickness monitor edge reservedPx else empty_rect)"

section \<open>The plan of one placement pass\<close>

record DockAppBarState =
  registered :: bool
  reservation :: DockReservation
  appbar_edge :: DockEdge
  appbar_dpi :: u32
  proposal :: RECT
  reserved :: RECT

definition DockAppBarState_init :: DockAppBarState where
  "DockAppBarState_init =
     \<lparr>registered = False, reservation = ReserveNone, appbar_edge = EdgeNone, appbar_dpi = 0,
      proposal = empty_rect, reserved = empty_rect\<rparr>"

definition kDockAppBarNew :: u32 where "kDockAppBarNew = 0"
definition kDockAppBarRemove :: u32 where "kDockAppBarRemove = 1"
definition kDockAppBarQueryPos :: u32 where "kDockAppBarQueryPos = 2"
definition kDockAppBarSetPos :: u32 where "kDockAppBarSetPos = 3"

text \<open>
  The plan is the filled prefix of the four-element message array.
\<close>

definition PlanDockAppBar ::
  "DockAppBarState \<Rightarrow> DockReservation \<Rightarrow> DockEdge \<Rightarrow> RECT \<Rightarrow> u32 \<Rightarrow> bool \<Rightarrow> u32 list" where
  "PlanDockAppBar current want edge prop dpi stale =
     (let held = (if registered current then reservation current else ReserveNone);
          drop = (held \<noteq> ReserveNone \<and> want = ReserveNone);
          reg = (registered current \<and> \<not> drop);
          held' = (if drop then ReserveNone else held);
          changed = (held' \<noteq> want \<or> appbar_edge current \<noteq> edge \<or> appbar_dpi current \<noteq> dpi
                     \<or> \<not> DockRectEquals (proposal current) prop)
      in (if drop then [kDockAppBarRemove] else [])
         @ (if \<not> reg then [kDockAppBarNew] else [])
         @ (if want \<noteq> ReserveNone \<and> (\<not> reg \<or> stale \<or> changed)
            then [kDockAppBarQueryPos, kDockAppBarSetPos] else []))"

definition DockAppBarCommitted ::
  "DockAppBarState \<Rightarrow> DockReservation \<Rightarrow> DockEdge \<Rightarrow> RECT \<Rightarrow> u32 \<Rightarrow> RECT \<Rightarrow> DockAppBarState" where
  "DockAppBarCommitted state want edge prop dpi rc =
     state\<lparr>reservation := want, appbar_edge := edge, appbar_dpi := dpi, proposal := prop,
           reserved := rc\<rparr>"

section \<open>The shell\<close>

text \<open>The messages of a pass, with the edge and the rectangle in their \<open>APPBARDATA\<close>.\<close>

datatype appbar_call = CallNew | CallRemove | CallQueryPos DockEdge RECT | CallSetPos DockEdge RECT

text \<open>The shell's answers: to ABM_NEW, and the rectangles ABM_QUERYPOS and ABM_SETPOS leave behind.\<close>

record shell_answers =
  accepts_new :: bool
  query_rect :: "RECT \<Rightarrow> RECT"
  set_rect :: "RECT \<Rightarrow> RECT"

text \<open>
  What the shell holds for the window: the registration, the reservation it has granted, and the edge
  of the last ABM_QUERYPOS. \<open>sh_ok\<close> says that every message so far was one it can honour: ABM_NEW only for an
  unregistered bar, every other message only for a registered one, and ABM_SETPOS only after an ABM_QUERYPOS for the
  same edge. A restarted Explorer has forgotten the bar (\<open>sh_restarted\<close>, until the application has handled its
  broadcast); it ignores messages about a bar it does not know.
\<close>

record shell_view =
  sh_registered :: bool
  sh_granted :: "(DockEdge \<times> RECT) option"
  sh_queried :: "DockEdge option"
  sh_restarted :: bool
  sh_ok :: bool

definition shell_view_init :: shell_view where
  "shell_view_init = \<lparr>sh_registered = False, sh_granted = None, sh_queried = None, sh_restarted = False, sh_ok = True\<rparr>"

definition shell_knows :: "bool \<Rightarrow> shell_view \<Rightarrow> shell_view" where
  "shell_knows honoured v = v\<lparr>sh_ok := sh_ok v \<and> (sh_restarted v \<or> honoured)\<rparr>"

fun SHAppBarMessage :: "shell_answers \<Rightarrow> appbar_call \<Rightarrow> shell_view \<Rightarrow> (bool \<times> RECT) \<times> shell_view" where
  "SHAppBarMessage shell CallNew v =
     ((accepts_new shell \<and> \<not> sh_registered v, empty_rect),
      (shell_knows (\<not> sh_registered v) v)\<lparr>sh_registered := sh_registered v \<or> accepts_new shell\<rparr>)"
| "SHAppBarMessage shell CallRemove v =
     ((True, empty_rect),
      (shell_knows (sh_registered v) v)\<lparr>sh_registered := False, sh_granted := None, sh_queried := None\<rparr>)"
| "SHAppBarMessage shell (CallQueryPos edge rc) v =
     ((True, query_rect shell rc), (shell_knows (sh_registered v) v)\<lparr>sh_queried := Some edge\<rparr>)"
| "SHAppBarMessage shell (CallSetPos edge rc) v =
     ((True, set_rect shell rc),
      (shell_knows (sh_registered v \<and> sh_queried v = Some edge) v)
        \<lparr>sh_queried := None, sh_granted := (if sh_registered v then Some (edge, set_rect shell rc) else None)\<rparr>)"

section \<open>Carrying the plan out\<close>

text \<open>A function that sends messages takes the shell's state and returns the one it leaves.\<close>

definition RegisterDockAppBar :: "shell_answers \<Rightarrow> DockAppBarState \<Rightarrow> shell_view \<Rightarrow> DockAppBarState \<times> shell_view" where
  "RegisterDockAppBar shell state v =
     (if registered state then (state, v)
      else
        (let ((accepted, _), v) = SHAppBarMessage shell CallNew v
         in (DockAppBarState_init\<lparr>registered := accepted\<rparr>, v)))"

definition UnregisterDockAppBar :: "shell_answers \<Rightarrow> DockAppBarState \<Rightarrow> shell_view \<Rightarrow> DockAppBarState \<times> shell_view" where
  "UnregisterDockAppBar shell state v =
     (DockAppBarState_init, if registered state then snd (SHAppBarMessage shell CallRemove v) else v)"

text \<open>The inputs of one pass after the monitor is resolved and the thickness clamped.\<close>

record placement_inputs =
  in_reservation :: DockReservation
  in_edge :: DockEdge
  in_monitor :: RECT
  in_dpi :: u32
  in_thickness :: int
  in_peek :: int

definition pass_proposal :: "placement_inputs \<Rightarrow> RECT" where
  "pass_proposal i =
     DockReservationProposal (in_reservation i) (in_monitor i) (in_edge i) (in_thickness i) (in_peek i)"

text \<open>
  What the loop over the plan changes: the registration record, the \<open>APPBARDATA\<close> rectangle it
  passes to the shell, and whether it dropped a reservation.
\<close>

record pass_state =
  bar :: DockAppBarState
  data_rc :: RECT
  reservationDropped :: bool

definition place_message ::
  "shell_answers \<Rightarrow> placement_inputs \<Rightarrow> u32 \<Rightarrow> pass_state \<times> shell_view \<Rightarrow> pass_state \<times> shell_view" where
  "place_message shell i message sv =
     (let (s, v) = sv
      in if message = kDockAppBarRemove then
           (let (state, v) = UnregisterDockAppBar shell (bar s) v
            in (s\<lparr>bar := state, reservationDropped := True\<rparr>, v))
         else if message = kDockAppBarNew then
           (let (state, v) = RegisterDockAppBar shell (bar s) v in (s\<lparr>bar := state\<rparr>, v))
         else if message = kDockAppBarQueryPos then
           (if registered (bar s) then
              (let ((_, rc), v) = SHAppBarMessage shell (CallQueryPos (in_edge i) (pass_proposal i)) v
               in (s\<lparr>data_rc := rc\<rparr>, v))
            else (s, v))
         else if message = kDockAppBarSetPos then
           (if registered (bar s) then
              (let trimmed = DockTrimToThickness (data_rc s) (in_edge i)
                               (DockReservedPixels (in_reservation i) (in_thickness i) (in_peek i));
                   ((_, rc), v) = SHAppBarMessage shell (CallSetPos (in_edge i) trimmed) v
               in (s\<lparr>data_rc := rc,
                     bar := DockAppBarCommitted (bar s) (in_reservation i) (in_edge i) (pass_proposal i)
                              (in_dpi i) rc\<rparr>, v))
            else (s, v))
         else (s, v))"

definition DockReservesWorkArea :: "DockAppBarState \<Rightarrow> bool" where
  "DockReservesWorkArea state \<longleftrightarrow> registered state \<and> reservation state \<noteq> ReserveNone"

definition place_appbar ::
  "shell_answers \<Rightarrow> placement_inputs \<Rightarrow> bool \<Rightarrow> DockAppBarState \<Rightarrow> shell_view \<Rightarrow> pass_state \<times> shell_view" where
  "place_appbar shell i stale state v =
     fold (place_message shell i)
       (PlanDockAppBar state (in_reservation i) (in_edge i) (pass_proposal i) (in_dpi i) stale)
       (\<lparr>bar = state, data_rc = empty_rect, reservationDropped = False\<rparr>, v)"

text \<open>
  The full bar of a pass: grown from the committed reservation, or against the work area, which is read
  again (\<open>refreshed\<close>, \<open>None\<close> when the display is gone) after a dropped reservation.
\<close>

definition pass_full_rect :: "placement_inputs \<Rightarrow> pass_state \<Rightarrow> RECT \<Rightarrow> RECT option \<Rightarrow> RECT" where
  "pass_full_rect i s work refreshed =
     (let work' = (if reservationDropped s \<and> \<not> DockReservesWorkArea (bar s)
                   then (case refreshed of None \<Rightarrow> work | Some w \<Rightarrow> w) else work)
      in if DockReservesWorkArea (bar s)
         then DockFullRectFromReserved (reserved (bar s)) (in_edge i) (in_thickness i)
         else DockOverlayRect work' (in_edge i) (in_thickness i))"

section \<open>Placement requests\<close>

record DockPlacementRequests =
  placing :: bool
  again :: bool
  againResizes :: bool
  extraPasses :: nat

definition DockPlacementRequests_init :: DockPlacementRequests where
  "DockPlacementRequests_init =
     \<lparr>placing = False, again = False, againResizes = False, extraPasses = 0\<rparr>"

definition kDockMaximumExtraPlacementPasses :: nat where
  "kDockMaximumExtraPlacementPasses = 2"

definition BeginDockPlacement ::
  "DockPlacementRequests \<Rightarrow> bool \<Rightarrow> bool \<times> DockPlacementRequests" where
  "BeginDockPlacement requests resizeDashboard =
     (if placing requests then
        (False, requests\<lparr>again := True,
                         againResizes := againResizes requests \<or> resizeDashboard\<rparr>)
      else (True, DockPlacementRequests_init\<lparr>placing := True\<rparr>))"

text \<open>The out parameter is the second component, \<open>None\<close> where the call ends the placement.\<close>

definition NextDockPlacementPass ::
  "DockPlacementRequests \<Rightarrow> bool option \<times> DockPlacementRequests" where
  "NextDockPlacementPass requests =
     (if \<not> placing requests \<or> \<not> again requests
         \<or> extraPasses requests \<ge> kDockMaximumExtraPlacementPasses
      then (None, DockPlacementRequests_init)
      else (Some (againResizes requests),
            requests\<lparr>again := False, againResizes := False,
                     extraPasses := extraPasses requests + 1\<rparr>))"

text \<open>
  \<open>PlaceDock\<close>: the first pass, then \<open>NextDockPlacementPass\<close> until it ends the placement. What a pass
  does is abstract here; what matters is the requests that arrive while it runs (\<open>raised n\<close> lists the
  \<open>resizeDashboard\<close> of each request heard inside pass \<open>n\<close>). The result lists the passes run, each with
  its \<open>resizeDashboard\<close>, and the requests record at the end.
\<close>

definition hear_requests :: "bool list \<Rightarrow> DockPlacementRequests \<Rightarrow> DockPlacementRequests" where
  "hear_requests heard requests = fold (\<lambda>b r. snd (BeginDockPlacement r b)) heard requests"

lemma hear_requests_placing:
  "placing r \<Longrightarrow> hear_requests heard r =
     r\<lparr>again := again r \<or> heard \<noteq> [], againResizes := againResizes r \<or> True \<in> set heard\<rparr>"
  by (induction heard arbitrary: r) (auto simp: hear_requests_def BeginDockPlacement_def)

lemma extraPasses_hear [simp]: "placing r \<Longrightarrow> extraPasses (hear_requests heard r) = extraPasses r"
  by (simp add: hear_requests_placing)

function more_passes ::
  "(nat \<Rightarrow> bool list) \<Rightarrow> nat \<Rightarrow> DockPlacementRequests \<Rightarrow> bool list \<times> DockPlacementRequests" where
  "more_passes raised n r =
     (case NextDockPlacementPass r of
        (None, r') \<Rightarrow> ([], r')
      | (Some resize, r') \<Rightarrow>
          (let (passes, r'') = more_passes raised (Suc n) (hear_requests (raised n) r')
           in (resize # passes, r'')))"
  by pat_completeness auto
termination
  by (relation "measure (\<lambda>(_, _, r). kDockMaximumExtraPlacementPasses - extraPasses r)")
    (auto simp: NextDockPlacementPass_def split: if_splits)

declare more_passes.simps [simp del]

definition PlaceDock ::
  "(nat \<Rightarrow> bool list) \<Rightarrow> DockPlacementRequests \<Rightarrow> bool \<Rightarrow> bool list \<times> DockPlacementRequests" where
  "PlaceDock raised requests resizeDashboard =
     (case BeginDockPlacement requests resizeDashboard of
        (False, r) \<Rightarrow> ([], r)
      | (True, r) \<Rightarrow>
          (let (passes, r') = more_passes raised 1 (hear_requests (raised 0) r)
           in (resizeDashboard # passes, r')))"

section \<open>The life of a registration\<close>

text \<open>
  Placement passes, removals of the registration (a change to the standard window, the end of the dock), the restart of
  Explorer and its broadcast, which \<open>OnTaskbarCreated\<close> answers with a removal; the pass it then makes is one of the
  passes.
\<close>

datatype dock_op =
    OpPass shell_answers placement_inputs bool | OpUnregister shell_answers | OpShellRestarts | OpTaskbarCreated shell_answers

fun dock_op_step :: "DockAppBarState \<times> shell_view \<Rightarrow> dock_op \<Rightarrow> DockAppBarState \<times> shell_view" where
  "dock_op_step (st, v) (OpPass shell i stale) = (let (s, v) = place_appbar shell i stale st v in (bar s, v))"
| "dock_op_step (st, v) (OpUnregister shell) = UnregisterDockAppBar shell st v"
| "dock_op_step (st, v) OpShellRestarts =
     (st, v\<lparr>sh_registered := False, sh_granted := None, sh_queried := None, sh_restarted := True\<rparr>)"
| "dock_op_step (st, v) (OpTaskbarCreated shell) =
     (let (st, v) = UnregisterDockAppBar shell st v in (st, v\<lparr>sh_restarted := False\<rparr>))"

definition shell_agrees :: "DockAppBarState \<times> shell_view \<Rightarrow> bool" where
  "shell_agrees sv \<longleftrightarrow>
     (case sv of (st, v) \<Rightarrow>
        sh_ok v \<and> (sh_registered v \<longrightarrow> registered st) \<and> (\<not> sh_registered v \<longrightarrow> sh_granted v = None) \<and>
        (sh_restarted v \<or>
           sh_registered v = registered st \<and>
           sh_granted v = (if DockReservesWorkArea st then Some (appbar_edge st, reserved st) else None)))"

lemma message_numbers [simp]:
  "kDockAppBarNew \<noteq> kDockAppBarRemove" "kDockAppBarQueryPos \<noteq> kDockAppBarRemove"
  "kDockAppBarSetPos \<noteq> kDockAppBarRemove" "kDockAppBarQueryPos \<noteq> kDockAppBarNew"
  "kDockAppBarSetPos \<noteq> kDockAppBarNew" "kDockAppBarSetPos \<noteq> kDockAppBarQueryPos"
  "kDockAppBarRemove \<noteq> kDockAppBarNew" "kDockAppBarRemove \<noteq> kDockAppBarQueryPos"
  "kDockAppBarRemove \<noteq> kDockAppBarSetPos" "kDockAppBarNew \<noteq> kDockAppBarQueryPos"
  "kDockAppBarNew \<noteq> kDockAppBarSetPos" "kDockAppBarQueryPos \<noteq> kDockAppBarSetPos"
  by (simp_all add: kDockAppBarNew_def kDockAppBarRemove_def kDockAppBarQueryPos_def
      kDockAppBarSetPos_def)

lemmas appbar_defs =
  place_message_def shell_knows_def RegisterDockAppBar_def UnregisterDockAppBar_def place_appbar_def
  DockAppBarCommitted_def DockAppBarState_init_def DockReservesWorkArea_def Let_def

lemma pass_keeps_agreement:
  assumes "shell_agrees (st, v)"
  shows "shell_agrees (dock_op_step (st, v) (OpPass shell i stale))"
  using assms
  by (auto simp: shell_agrees_def PlanDockAppBar_def appbar_defs split: if_splits)

lemma other_ops_keep_agreement:
  assumes "shell_agrees (st, v)"
  shows "shell_agrees (dock_op_step (st, v) (OpUnregister shell))" "shell_agrees (dock_op_step (st, v) OpShellRestarts)"
    "shell_agrees (dock_op_step (st, v) (OpTaskbarCreated shell))"
  using assms by (auto simp: shell_agrees_def appbar_defs)

lemma ops_keep_agreement: "shell_agrees sv \<Longrightarrow> shell_agrees (foldl dock_op_step sv ops)"
proof (induction ops arbitrary: sv)
  case Nil
  then show ?case by simp
next
  case (Cons x ops)
  obtain st v where sv: "sv = (st, v)" by (cases sv)
  have "shell_agrees (dock_op_step sv x)"
    using Cons.prems unfolding sv
    by (cases x) (simp_all only: pass_keeps_agreement other_ops_keep_agreement)
  then show ?case by (simp add: Cons.IH)
qed

text \<open>C32: whatever the shell answers and in whatever order passes, removals and restarts of Explorer come, the record the
  application keeps agrees with what the shell holds, which changes by the messages it receives alone: the application
  never sends a message the shell cannot honour, the shell has the bar registered exactly when the record says
  so, and it has granted a reservation exactly when \<open>DockReservesWorkArea\<close> says so, on the edge and with the rectangle in
  the record. Between a restart and the broadcast that announces it the record may be ahead of the shell, never behind.\<close>

theorem appbar_record_agrees_with_shell:
  fixes ops :: "dock_op list"
  defines "sv \<equiv> foldl dock_op_step (DockAppBarState_init, shell_view_init) ops"
  shows "sh_ok (snd sv) \<and> (sh_registered (snd sv) \<longrightarrow> registered (fst sv)) \<and>
    (sh_restarted (snd sv) \<or>
       sh_registered (snd sv) = registered (fst sv) \<and>
       sh_granted (snd sv) = (if DockReservesWorkArea (fst sv) then Some (appbar_edge (fst sv), reserved (fst sv)) else None))"
proof -
  have "shell_agrees sv"
    unfolding sv_def
    by (rule ops_keep_agreement)
      (simp add: shell_agrees_def shell_view_init_def DockAppBarState_init_def DockReservesWorkArea_def)
  then show ?thesis by (simp add: shell_agrees_def split_beta)
qed

definition sample_shell :: shell_answers where
  "sample_shell = \<lparr>accepts_new = True, query_rect = (\<lambda>r. r\<lparr>rtop := 40\<rparr>), set_rect = (\<lambda>r. r)\<rparr>"

definition sample_inputs :: placement_inputs where
  "sample_inputs = \<lparr>in_reservation = ReserveBar, in_edge = EdgeTop, in_monitor = mkrect 0 0 2560 1440,
     in_dpi = 96, in_thickness = 180, in_peek = 4\<rparr>"

definition sample_ops :: "dock_op list" where
  "sample_ops = [OpPass sample_shell sample_inputs False, OpShellRestarts, OpTaskbarCreated sample_shell,
     OpPass sample_shell sample_inputs False]"

lemma sample_record:
  "DockReservesWorkArea (fst (foldl dock_op_step (DockAppBarState_init, shell_view_init) sample_ops))"
  "\<not> sh_restarted (snd (foldl dock_op_step (DockAppBarState_init, shell_view_init) sample_ops))"
  "appbar_edge (fst (foldl dock_op_step (DockAppBarState_init, shell_view_init) sample_ops)) = EdgeTop"
  "reserved (fst (foldl dock_op_step (DockAppBarState_init, shell_view_init) sample_ops)) = mkrect 0 40 2560 220"
  by code_simp+

lemma appbar_record_agrees_with_shell_witness:
  "sh_granted (snd (foldl dock_op_step (DockAppBarState_init, shell_view_init) sample_ops)) = Some (EdgeTop, mkrect 0 40 2560 220)"
  using appbar_record_agrees_with_shell [of sample_ops] by (simp only: sample_record if_True simp_thms)

text \<open>The plan fits the four-element array, and ABM_SETPOS is always the message after ABM_QUERYPOS.\<close>

lemma plan_length: "length (PlanDockAppBar st want edge prop dpi stale) \<le> 4"
  by (simp add: PlanDockAppBar_def Let_def)

text \<open>A pass over a reservation the shell already holds is silent: once a pass has ended with the
  bar registered, planning again for the same reservation, edge, DPI and proposal, with no shell change in
  between, sends nothing (so the work area is never reset by a reload or a thickness drag that leaves
  the reservation alone).\<close>

theorem replanning_is_silent:
  assumes "registered (bar (fst (place_appbar shell i stale st v)))" and "in_reservation i' = in_reservation i"
    and "in_edge i' = in_edge i" and "in_dpi i' = in_dpi i" and "pass_proposal i' = pass_proposal i"
  shows "PlanDockAppBar (bar (fst (place_appbar shell i stale st v))) (in_reservation i') (in_edge i')
           (pass_proposal i') (in_dpi i') False = []"
  using assms
  by (auto simp: PlanDockAppBar_def appbar_defs DockRectEquals_iff split: if_splits)

text \<open>The witness is an autohide bar dragged from 180 to 260 pixels: its strip stays reserved as it is.\<close>

theorem replanning_is_silent_witness:
  "let shell = \<lparr>accepts_new = True, query_rect = (\<lambda>r. r), set_rect = (\<lambda>r. r)\<rparr>;
       i = \<lparr>in_reservation = ReserveStrip, in_edge = EdgeTop, in_monitor = mkrect 0 0 2560 1440,
            in_dpi = 96, in_thickness = 180, in_peek = 4\<rparr>;
       i' = i\<lparr>in_thickness := 260\<rparr>
   in PlanDockAppBar (bar (fst (place_appbar shell i False DockAppBarState_init shell_view_init))) (in_reservation i')
        (in_edge i') (pass_proposal i') (in_dpi i') False = []"
  unfolding Let_def
  by (rule replanning_is_silent)
    (simp_all add: PlanDockAppBar_def appbar_defs shell_view_init_def pass_proposal_def
      DockReservationProposal_def)

section \<open>Placement requests\<close>

lemma more_passes_idle: "\<not> again r \<Longrightarrow> more_passes raised n r = ([], DockPlacementRequests_init)"
  by (subst more_passes.simps) (simp add: NextDockPlacementPass_def)

lemma more_passes_spent:
  "kDockMaximumExtraPlacementPasses \<le> extraPasses r \<Longrightarrow>
   more_passes raised n r = ([], DockPlacementRequests_init)"
  by (subst more_passes.simps) (simp add: NextDockPlacementPass_def)

lemma more_passes_again:
  assumes "placing r" and "again r" and "extraPasses r < kDockMaximumExtraPlacementPasses"
  shows "more_passes raised n r =
    (let (passes, r') = more_passes raised (Suc n)
           (r\<lparr>extraPasses := extraPasses r + 1, again := raised n \<noteq> [],
             againResizes := True \<in> set (raised n)\<rparr>)
     in (againResizes r # passes, r'))"
  using assms
  by (subst more_passes.simps) (simp add: NextDockPlacementPass_def hear_requests_placing)

text \<open>C33: a placement runs one to three passes: a request heard inside a pass is never dropped while
  an extra pass is left, each extra pass follows the dashboard exactly when one of the requests it answers
  asked for that, two extra passes end the placement whatever the second one raises, and the requests
  record is always left idle, so the next placement starts afresh.\<close>

theorem PlaceDock_passes:
  assumes "\<not> placing requests"
  shows "PlaceDock raised requests resizeDashboard =
    (resizeDashboard #
       (if raised 0 = [] then []
        else (True \<in> set (raised 0)) # (if raised 1 = [] then [] else [True \<in> set (raised 1)])),
     DockPlacementRequests_init)"
  using assms
  by (simp add: PlaceDock_def BeginDockPlacement_def hear_requests_placing DockPlacementRequests_init_def
      more_passes_again more_passes_idle more_passes_spent kDockMaximumExtraPlacementPasses_def)

theorem PlaceDock_passes_witness:
  "PlaceDock (\<lambda>n. [False, n = 1]) DockPlacementRequests_init True =
    ([True, False, True], DockPlacementRequests_init)"
  using PlaceDock_passes [of DockPlacementRequests_init "\<lambda>n. [False, n = 1]" True]
  by (simp add: DockPlacementRequests_init_def)

end
