(* ===== verification/Dock_Reveal.thy ===== *)
theory Dock_Reveal
  imports Dock_Options Dock_AppBar
begin

text \<open>
  The autohide dock: the reveal state machine of \<open>RedXe/DockPlacement.h\<close> and the controller of
  \<open>RedXe/Application.cpp\<close> around it (\<open>OnDockEvent\<close>, \<open>EvaluateDockHolds\<close>, \<open>ApplyDockRevealState\<close>, the dwell
  and hide timer, the slide). The window's size across the edge is \<open>visible\<close>, its rectangle
  \<open>window_rect\<close>. Time comes from \<open>QueryPerformanceCounter\<close>, so a step takes its answer; the easing of a
  running slide is floating point, so a step takes the eased size, whatever it is.
\<close>

section \<open>The state machine\<close>

datatype DockRevealState = Revealed | HidePending | Hidden | RevealPending

datatype DockRevealEvent =
    PointerEnteredStrip | PointerLeft | DwellElapsed | HideElapsed | TouchOnStrip | ActionShow
  | ActionHide | ActionToggle | PageOrWidgetChange | HoldsChanged | Pin

record DockHolds =
  pointerInside :: bool
  windowActive :: bool
  captureActive :: bool
  widgetRaised :: bool
  dialogShown :: bool
  pinned :: bool
  pinnedByAction :: bool
  revealSliding :: bool

definition AnyOther :: "DockHolds \<Rightarrow> bool" where
  "AnyOther h \<longleftrightarrow> pointerInside h \<or> windowActive h \<or> captureActive h \<or> widgetRaised h \<or> dialogShown h \<or> pinned h"

definition AnyHold :: "DockHolds \<Rightarrow> bool" where
  "AnyHold h \<longleftrightarrow> AnyOther h \<or> pinnedByAction h \<or> revealSliding h"

definition RefusesHide :: "DockHolds \<Rightarrow> bool" where
  "RefusesHide h \<longleftrightarrow> captureActive h \<or> widgetRaised h \<or> dialogShown h \<or> pinned h"

definition DockStateShowsStrip :: "DockRevealState \<Rightarrow> bool" where
  "DockStateShowsStrip s \<longleftrightarrow> s = Hidden \<or> s = RevealPending"

definition NextDockRevealState ::
    "DockRevealState \<Rightarrow> DockRevealEvent \<Rightarrow> DockHolds \<Rightarrow> u32 \<Rightarrow> u32 \<Rightarrow> DockRevealState" where
  "NextDockRevealState current event holds revealDelay hideDelay =
     (let hideTarget = (if hideDelay = 0 then Hidden else HidePending);
          revealTarget = (if revealDelay = 0 then Revealed else RevealPending)
      in case event of
           Pin \<Rightarrow> Revealed
         | PointerEnteredStrip \<Rightarrow> (if current = Hidden then revealTarget else current)
         | DwellElapsed \<Rightarrow> (if current = RevealPending then Revealed else current)
         | PointerLeft \<Rightarrow> (if current = RevealPending then Hidden else current)
         | TouchOnStrip \<Rightarrow> Revealed
         | ActionShow \<Rightarrow> Revealed
         | PageOrWidgetChange \<Rightarrow> Revealed
         | ActionHide \<Rightarrow>
             (if DockStateShowsStrip current then Hidden
              else if RefusesHide holds then current else Hidden)
         | ActionToggle \<Rightarrow>
             (if DockStateShowsStrip current then Revealed
              else if RefusesHide holds then current else Hidden)
         | HideElapsed \<Rightarrow> (if current = HidePending then Hidden else current)
         | HoldsChanged \<Rightarrow>
             (if current = Revealed then (if AnyHold holds then current else hideTarget)
              else if current = HidePending then (if AnyHold holds then Revealed else current)
              else current))"

section \<open>The controller\<close>

text \<open>
  The members of \<open>Application\<close> the controller reads and writes. \<open>timer\<close> is the running dock timer and its
  period (\<open>_dockTimerArmed\<close>); \<open>capture\<close> stands for the eight conditions that \<open>CurrentDockHolds\<close> joins in
  \<open>captureActive\<close>, \<open>dialog\<close> for an open settings-error dialog, \<open>screenshot\<close> for a pending capture.
\<close>

record dock_app =
  dock :: DockSettings
  dockActive :: bool
  fullRect :: RECT
  reveal :: DockRevealState
  slideActive :: bool
  slideFromPx :: int
  visiblePx :: int
  slideStartQpc :: u64
  slideDurationQpc :: u64
  window_rect :: RECT
  timer :: "u32 option"
  insidePointer :: bool
  pinnedAction :: bool
  activeWindow :: bool
  capture :: bool
  raisedActive :: bool
  dialog :: bool
  screenshot :: bool
  rendererReady :: bool
  qpcFrequency :: u64

definition DockHiddenOrHiding :: "dock_app \<Rightarrow> bool" where
  "DockHiddenOrHiding a \<longleftrightarrow> dockActive a \<and> dock_mode (dock a) = ModeAutohide \<and> DockStateShowsStrip (reveal a)"

definition DockHidden :: "dock_app \<Rightarrow> bool" where
  "DockHidden a \<longleftrightarrow> DockHiddenOrHiding a \<and> \<not> slideActive a"

definition CurrentDockHolds :: "dock_app \<Rightarrow> DockHolds" where
  "CurrentDockHolds a =
     \<lparr>pointerInside = insidePointer a, windowActive = activeWindow a, captureActive = capture a,
      widgetRaised = raisedActive a, dialogShown = dialog a, pinned = screenshot a,
      pinnedByAction = pinnedAction a, revealSliding = slideActive a \<and> \<not> DockHiddenOrHiding a\<rparr>"

definition DockFullPixels :: "dock_app \<Rightarrow> int" where
  "DockFullPixels a =
     (if rright (fullRect a) > rleft (fullRect a) \<and> rbottom (fullRect a) > rtop (fullRect a)
      then DockCrossPixels (fullRect a) (dock_edge (dock a)) else 0)"

definition DockPeekPixels :: "dock_app \<Rightarrow> int" where
  "DockPeekPixels a = DockClampPeek (peekPixels (dock a)) (DockFullPixels a)"

text \<open>\<open>ArmDockTimer\<close> with the window open; \<open>SetTimer\<close>'s period is at least one millisecond.\<close>

definition ArmDockTimer :: "u32 \<Rightarrow> dock_app \<Rightarrow> dock_app" where
  "ArmDockTimer delayMilliseconds a = a\<lparr>timer := Some (max delayMilliseconds 1)\<rparr>"

definition KillDockTimer :: "dock_app \<Rightarrow> dock_app" where
  "KillDockTimer a = a\<lparr>timer := None\<rparr>"

definition SetDockVisiblePixels :: "int \<Rightarrow> dock_app \<Rightarrow> dock_app" where
  "SetDockVisiblePixels v a =
     (let fullPx = DockFullPixels a
      in if fullPx \<le> 0 then a
         else
           (let v = clamp_to v 1 fullPx;
                a = (if \<not> slideActive a \<or> v \<noteq> visiblePx a
                     then a\<lparr>window_rect := DockHiddenRect (fullRect a) (dock_edge (dock a)) v\<rparr> else a)
            in a\<lparr>visiblePx := v\<rparr>))"

text \<open>The part of \<open>FinishDockRevealChange\<close> that the reveal machine reads: a hidden bar forgets its pointer.\<close>

definition FinishDockRevealChange :: "dock_app \<Rightarrow> dock_app" where
  "FinishDockRevealChange a =
     (if DockHidden a \<and> reveal a \<noteq> RevealPending then a\<lparr>insidePointer := False\<rparr> else a)"

text \<open>The first half of \<open>ApplyDockRevealState\<close>: the new state and its timer.\<close>

definition enter_reveal_state :: "DockRevealState \<Rightarrow> dock_app \<Rightarrow> dock_app" where
  "enter_reveal_state state a =
     (let a = (KillDockTimer a)\<lparr>reveal := state\<rparr>
      in if state = RevealPending then ArmDockTimer (revealDelayMilliseconds (dock a)) a
         else if state = HidePending then ArmDockTimer (hideDelayMilliseconds (dock a)) a
         else a)"

text \<open>Its second half, where the bar changes between full and strip; \<open>qpc\<close> answers \<open>QueryPerformanceCounter\<close>.\<close>

definition start_slide :: "u64 option \<Rightarrow> bool \<Rightarrow> dock_app \<Rightarrow> dock_app" where
  "start_slide qpc wasStrip a =
     (let fullPx = DockFullPixels a; peekPx = DockPeekPixels a;
          targetPx = (if DockStateShowsStrip (reveal a) then peekPx else fullPx);
          fromPx = (if slideActive a then visiblePx a else if wasStrip then peekPx else fullPx);
          duration = DockSlideDurationMilliseconds (animationMilliseconds (dock a)) fromPx targetPx
                       peekPx fullPx
      in if duration = 0 \<or> qpcFrequency a = 0 \<or> \<not> rendererReady a \<or> qpc = None
         then FinishDockRevealChange (SetDockVisiblePixels targetPx (a\<lparr>slideActive := False\<rparr>))
         else FinishDockRevealChange (SetDockVisiblePixels fromPx
                (a\<lparr>slideActive := True, slideFromPx := fromPx, slideStartQpc := the qpc,
                   slideDurationQpc := max 1 (qpcFrequency a * ucast duration div 1000)\<rparr>)))"

definition ApplyDockRevealState :: "u64 option \<Rightarrow> DockRevealState \<Rightarrow> dock_app \<Rightarrow> dock_app" where
  "ApplyDockRevealState qpc state a =
     (if state = reveal a then a
      else
        (let wasStrip = DockStateShowsStrip (reveal a); a = enter_reveal_state state a
         in if DockStateShowsStrip state = wasStrip then a else start_slide qpc wasStrip a))"

definition SettleDockSlide :: "dock_app \<Rightarrow> dock_app" where
  "SettleDockSlide a =
     (if \<not> slideActive a then a
      else
        (let a = a\<lparr>slideActive := False\<rparr>
         in FinishDockRevealChange
              (SetDockVisiblePixels (if DockHiddenOrHiding a then DockPeekPixels a else DockFullPixels a) a)))"

text \<open>\<open>eased\<close> is the size that \<open>DockSlideVisiblePixels\<close> gives before the slide's end.\<close>

definition TickDockSlide :: "u64 option \<Rightarrow> int \<Rightarrow> dock_app \<Rightarrow> dock_app" where
  "TickDockSlide qpc eased a =
     (if \<not> slideActive a then a
      else if (\<exists>now. qpc = Some now) \<and> the qpc - slideStartQpc a < slideDurationQpc a
      then SetDockVisiblePixels eased a
      else SettleDockSlide a)"

definition autohide_active :: "dock_app \<Rightarrow> bool" where
  "autohide_active a \<longleftrightarrow> dockActive a \<and> dock_mode (dock a) = ModeAutohide"

definition OnDockEvent :: "u64 option \<Rightarrow> DockRevealEvent \<Rightarrow> dock_app \<Rightarrow> dock_app" where
  "OnDockEvent qpc event a =
     (if \<not> autohide_active a then a
      else
        (let a = (if event = ActionShow \<or> (event = ActionToggle \<and> DockStateShowsStrip (reveal a))
                  then a\<lparr>pinnedAction := \<not> AnyOther (CurrentDockHolds a)\<rparr>
                  else if event = ActionHide \<or> event = ActionToggle
                  then a\<lparr>pinnedAction := False\<rparr> else a)
         in ApplyDockRevealState qpc
              (NextDockRevealState (reveal a) event (CurrentDockHolds a)
                 (revealDelayMilliseconds (dock a)) (hideDelayMilliseconds (dock a))) a))"

definition EvaluateDockHolds :: "u64 option \<Rightarrow> dock_app \<Rightarrow> dock_app" where
  "EvaluateDockHolds qpc a =
     (if \<not> autohide_active a then a
      else
        (let holds = CurrentDockHolds a;
             gives_way = pinnedAction a \<and> AnyOther holds;
             a = (if gives_way then a\<lparr>pinnedAction := False\<rparr> else a);
             holds = (if gives_way then holds\<lparr>pinnedByAction := False\<rparr> else holds)
         in ApplyDockRevealState qpc
              (NextDockRevealState (reveal a) HoldsChanged holds
                 (revealDelayMilliseconds (dock a)) (hideDelayMilliseconds (dock a))) a))"

definition RevealDockForChange :: "u64 option \<Rightarrow> dock_app \<Rightarrow> dock_app" where
  "RevealDockForChange qpc a =
     SettleDockSlide (if DockHiddenOrHiding a then OnDockEvent qpc PageOrWidgetChange a else a)"

section \<open>The messages that drive it\<close>

text \<open>\<open>WM_TIMER\<close> with \<open>kDockTimerId\<close>.\<close>

definition OnDockTimer :: "u64 option \<Rightarrow> dock_app \<Rightarrow> dock_app" where
  "OnDockTimer qpc a =
     (let a = KillDockTimer a
      in OnDockEvent qpc (if reveal a = RevealPending then DwellElapsed else HideElapsed) a)"

text \<open>A real mouse move over the window (\<open>WM_MOUSEMOVE\<close>).\<close>

definition OnDockMouseMove :: "u64 option \<Rightarrow> dock_app \<Rightarrow> dock_app" where
  "OnDockMouseMove qpc a =
     (if insidePointer a then a
      else
        (let a = a\<lparr>insidePointer := True\<rparr>
         in if DockHiddenOrHiding a then OnDockEvent qpc PointerEnteredStrip a else EvaluateDockHolds qpc a))"

text \<open>\<open>WM_MOUSELEAVE\<close>; \<open>stillInside\<close> is the re-test of the cursor.\<close>

definition OnDockMouseLeave :: "u64 option \<Rightarrow> bool \<Rightarrow> dock_app \<Rightarrow> dock_app" where
  "OnDockMouseLeave qpc stillInside a =
     (if dockActive a then
        (if \<not> stillInside \<and> insidePointer a then
           (let a = a\<lparr>insidePointer := False\<rparr>
            in if reveal a = RevealPending then OnDockEvent qpc PointerLeft a else EvaluateDockHolds qpc a)
         else a)
      else a\<lparr>insidePointer := False\<rparr>)"

text \<open>\<open>StopDockInteraction\<close> on the members modelled here, and \<open>ResetDockPlacementState\<close>.\<close>

definition StopDockInteraction :: "dock_app \<Rightarrow> dock_app" where
  "StopDockInteraction a = (KillDockTimer a)\<lparr>slideActive := False\<rparr>"

definition ResetDockPlacementState :: "dock_app \<Rightarrow> dock_app" where
  "ResetDockPlacementState a =
     a\<lparr>reveal := Revealed, slideActive := False, visiblePx := 0, fullRect := empty_rect,
       insidePointer := False, pinnedAction := False\<rparr>"

text \<open>
  The events of a run. \<open>EvInputs\<close> is any change of the other holds; \<open>EvTurn\<close> is the evaluation of the holds that the
  loop of \<open>Run\<close> makes once a turn (\<open>WM_ACTIVATE\<close> and the handlers of a thickness drag make it at once), so that other
  messages, the dock timer among them, may come between a change and its evaluation; \<open>EvPress\<close> a touch, pen contact or click while the strip shows, \<open>EvVerb\<close> one of the
  three dock actions, \<open>EvShot\<close> the request of a capture.
\<close>

datatype dock_event =
    EvTimer | EvMove | EvLeave bool | EvPress | EvVerb DockRevealEvent | EvChange | EvShot
  | EvInputs bool bool bool bool bool | EvTurn | EvTick int | EvSettle

fun dock_step :: "u64 option \<Rightarrow> dock_event \<Rightarrow> dock_app \<Rightarrow> dock_app" where
  "dock_step qpc EvTimer a = (if timer a = None then a else OnDockTimer qpc a)"
| "dock_step qpc EvMove a = OnDockMouseMove qpc a"
| "dock_step qpc (EvLeave stillInside) a = OnDockMouseLeave qpc stillInside a"
| "dock_step qpc EvPress a = (if DockHiddenOrHiding a then OnDockEvent qpc TouchOnStrip a else a)"
| "dock_step qpc (EvVerb v) a =
     (if v \<in> {ActionShow, ActionHide, ActionToggle} then OnDockEvent qpc v a else a)"
| "dock_step qpc EvChange a = RevealDockForChange qpc a"
| "dock_step qpc EvShot a = OnDockEvent qpc Pin (a\<lparr>screenshot := True\<rparr>)"
| "dock_step qpc (EvInputs active cap raised dlg shot) a =
     a\<lparr>activeWindow := active, capture := cap, raisedActive := raised, dialog := dlg, screenshot := shot\<rparr>"
| "dock_step qpc EvTurn a = EvaluateDockHolds qpc a"
| "dock_step qpc (EvTick eased) a = TickDockSlide qpc eased a"
| "dock_step qpc EvSettle a = SettleDockSlide a"

text \<open>The bar placed by \<open>PlaceDock\<close> on a screen edge, and revealed: where a run starts.\<close>

definition dock_started :: "dock_app \<Rightarrow> bool" where
  "dock_started a \<longleftrightarrow> autohide_active a \<and> dock_edge (dock a) \<noteq> EdgeNone \<and> rect_nonempty (fullRect a) \<and>
     reveal a = Revealed \<and> \<not> slideActive a \<and> timer a = None \<and> \<not> pinnedAction a \<and>
     window_rect a = fullRect a"

inductive dock_reaches :: "dock_app \<Rightarrow> dock_app \<Rightarrow> bool" where
  start: "dock_started a \<Longrightarrow> dock_reaches a a"
| step: "dock_reaches a b \<Longrightarrow> dock_reaches a (dock_step qpc e b)"

section \<open>Sizes and windows\<close>

text \<open>The size the reveal state asks for once no slide runs, and the size the window has.\<close>

definition settled_size :: "dock_app \<Rightarrow> int" where
  "settled_size a = (if DockStateShowsStrip (reveal a) then DockPeekPixels a else DockFullPixels a)"

definition window_size :: "dock_app \<Rightarrow> int" where
  "window_size a = (if slideActive a then visiblePx a else settled_size a)"

definition placed :: "dock_app \<Rightarrow> bool" where
  "placed a \<longleftrightarrow> autohide_active a \<and> dock_edge (dock a) \<noteq> EdgeNone \<and> rect_nonempty (fullRect a)"

definition window_ok :: "dock_app \<Rightarrow> bool" where
  "window_ok a \<longleftrightarrow> window_rect a = DockHiddenRect (fullRect a) (dock_edge (dock a)) (window_size a) \<and>
     1 \<le> window_size a \<and> window_size a \<le> DockFullPixels a"

definition timer_ok :: "dock_app \<Rightarrow> bool" where
  "timer_ok a \<longleftrightarrow> timer a =
     (case reveal a of
        RevealPending \<Rightarrow> Some (max (revealDelayMilliseconds (dock a)) 1)
      | HidePending \<Rightarrow> Some (max (hideDelayMilliseconds (dock a)) 1)
      | _ \<Rightarrow> None)"

lemma DockFullPixels_pos: "placed a \<Longrightarrow> 1 \<le> DockFullPixels a"
  by (auto simp: placed_def DockFullPixels_def DockCrossPixels_def rect_nonempty_def)

lemma DockPeekPixels_range:
  assumes "placed a"
  shows "1 \<le> DockPeekPixels a" "DockPeekPixels a \<le> DockFullPixels a"
  using DockFullPixels_pos [OF assms] clamp_to_bounds [of 1 "max 1 (DockFullPixels a)"]
  by (auto simp: DockPeekPixels_def DockClampPeek_def max_def)

lemma settled_size_range:
  assumes "placed a"
  shows "1 \<le> settled_size a" "settled_size a \<le> DockFullPixels a"
  using DockFullPixels_pos [OF assms] DockPeekPixels_range [OF assms] by (auto simp: settled_size_def)

text \<open>What two states of the controller share when their sizes agree.\<close>

definition same_bar :: "dock_app \<Rightarrow> dock_app \<Rightarrow> bool" where
  "same_bar a b \<longleftrightarrow> dock b = dock a \<and> dockActive b = dockActive a \<and> fullRect b = fullRect a"

lemma same_bar_simps:
  assumes "same_bar a b"
  shows "DockFullPixels b = DockFullPixels a" "DockPeekPixels b = DockPeekPixels a" "placed b = placed a"
    "autohide_active b = autohide_active a"
  using assms by (simp_all add: same_bar_def DockFullPixels_def DockPeekPixels_def placed_def autohide_active_def)

lemma window_ok_same:
  assumes "same_bar a b" "DockStateShowsStrip (reveal b) = DockStateShowsStrip (reveal a)"
    "slideActive b = slideActive a" "visiblePx b = visiblePx a" "window_rect b = window_rect a"
  shows "window_ok b = window_ok a"
proof -
  have "settled_size b = settled_size a"
    using assms(2) same_bar_simps [OF assms(1)] by (simp add: settled_size_def)
  then have "window_size b = window_size a" using assms(3,4) by (simp add: window_size_def)
  with assms(1,5) same_bar_simps [OF assms(1)] show ?thesis by (simp add: window_ok_def same_bar_def)
qed

lemma timer_ok_same:
  "same_bar a b \<Longrightarrow> reveal b = reveal a \<Longrightarrow> timer b = timer a \<Longrightarrow> timer_ok b = timer_ok a"
  by (simp add: timer_ok_def same_bar_def cong: DockRevealState.case_cong)

lemma SetDockVisiblePixels_eq:
  assumes "1 \<le> v" "v \<le> DockFullPixels a"
    "\<not> slideActive a \<or> v \<noteq> visiblePx a \<or> window_rect a = DockHiddenRect (fullRect a) (dock_edge (dock a)) v"
  shows "SetDockVisiblePixels v a =
    a\<lparr>window_rect := DockHiddenRect (fullRect a) (dock_edge (dock a)) v, visiblePx := v\<rparr>"
  using assms by (auto simp: SetDockVisiblePixels_def Let_def clamp_to_id)

lemma FinishDockRevealChange_sel [simp]:
  "dock (FinishDockRevealChange a) = dock a" "dockActive (FinishDockRevealChange a) = dockActive a"
  "fullRect (FinishDockRevealChange a) = fullRect a" "reveal (FinishDockRevealChange a) = reveal a"
  "slideActive (FinishDockRevealChange a) = slideActive a" "visiblePx (FinishDockRevealChange a) = visiblePx a"
  "window_rect (FinishDockRevealChange a) = window_rect a" "timer (FinishDockRevealChange a) = timer a"
  "pinnedAction (FinishDockRevealChange a) = pinnedAction a" "activeWindow (FinishDockRevealChange a) = activeWindow a"
  "capture (FinishDockRevealChange a) = capture a" "raisedActive (FinishDockRevealChange a) = raisedActive a"
  "dialog (FinishDockRevealChange a) = dialog a" "screenshot (FinishDockRevealChange a) = screenshot a"
  by (simp_all add: FinishDockRevealChange_def)

lemma FinishDockRevealChange_pointer:
  "insidePointer (FinishDockRevealChange a) \<Longrightarrow> insidePointer a"
  "\<not> DockStateShowsStrip (reveal a) \<Longrightarrow> insidePointer (FinishDockRevealChange a) = insidePointer a"
  by (auto simp: FinishDockRevealChange_def DockHidden_def DockHiddenOrHiding_def split: if_splits)

text \<open>The holds that the controller only reads.\<close>

definition same_holds :: "dock_app \<Rightarrow> dock_app \<Rightarrow> bool" where
  "same_holds a b \<longleftrightarrow> pinnedAction b = pinnedAction a \<and> activeWindow b = activeWindow a \<and> capture b = capture a \<and>
     raisedActive b = raisedActive a \<and> dialog b = dialog a \<and> screenshot b = screenshot a"

definition moved :: "dock_app \<Rightarrow> int \<Rightarrow> dock_app" where
  "moved a v = a\<lparr>window_rect := DockHiddenRect (fullRect a) (dock_edge (dock a)) v, visiblePx := v\<rparr>"

text \<open>What a change of the reveal state to \<open>state\<close> leaves, from \<open>a\<close> to \<open>b\<close>.\<close>

definition revealed_to :: "DockRevealState \<Rightarrow> dock_app \<Rightarrow> dock_app \<Rightarrow> bool" where
  "revealed_to state a b \<longleftrightarrow> reveal b = state \<and> same_bar a b \<and> same_holds a b \<and> window_ok b \<and> timer_ok b \<and>
     (insidePointer b \<longrightarrow> insidePointer a) \<and>
     (\<not> DockStateShowsStrip state \<longrightarrow> insidePointer b = insidePointer a)"

lemma finish_moved:
  assumes "same_bar a x" "same_holds a x" "timer_ok x" "reveal x = state" "insidePointer x = insidePointer a"
    and v: "1 \<le> v" "v \<le> DockFullPixels x" "slideActive x \<or> v = settled_size x"
  shows "revealed_to state a (FinishDockRevealChange (moved x v))"
proof -
  let ?b = "FinishDockRevealChange (moved x v)"
  have x: "same_bar x ?b" by (simp add: same_bar_def moved_def)
  have "settled_size ?b = settled_size x"
    by (simp add: settled_size_def same_bar_simps [OF x]) (simp add: moved_def)
  then have size: "window_size ?b = v"
    using v(3) by (auto simp: window_size_def moved_def)
  have "window_ok ?b"
    unfolding window_ok_def size same_bar_simps [OF x] using v(1,2) by (simp add: moved_def)
  moreover have "timer_ok ?b" using assms(3)
    by (simp add: timer_ok_def moved_def split: DockRevealState.splits)
  moreover have "insidePointer ?b \<Longrightarrow> insidePointer a"
    using FinishDockRevealChange_pointer(1) [of "moved x v"] assms(5) by (simp add: moved_def)
  moreover have "\<not> DockStateShowsStrip state \<Longrightarrow> insidePointer ?b = insidePointer a"
    using FinishDockRevealChange_pointer(2) [of "moved x v"] assms(4,5) by (simp add: moved_def)
  ultimately show ?thesis
    using assms(1,2,4) by (auto simp: revealed_to_def same_bar_def same_holds_def moved_def)
qed

lemma ApplyDockRevealState_spec:
  fixes qpc :: "u64 option"
  assumes "placed a" "window_ok a" "state = reveal a \<longrightarrow> timer_ok a"
  defines "b \<equiv> ApplyDockRevealState qpc state a"
  shows "revealed_to state a b"
proof (cases "state = reveal a")
  case True
  with assms show ?thesis by (simp add: ApplyDockRevealState_def revealed_to_def same_bar_def same_holds_def)
next
  case False
  define c where "c = enter_reveal_state state a"
  have c: "reveal c = state" "same_bar a c" "same_holds a c" "timer_ok c" "insidePointer c = insidePointer a"
    "slideActive c = slideActive a" "visiblePx c = visiblePx a" "window_rect c = window_rect a"
    by (cases state; simp add: c_def enter_reveal_state_def Let_def KillDockTimer_def ArmDockTimer_def same_bar_def same_holds_def
        timer_ok_def)+
  show ?thesis
  proof (cases "DockStateShowsStrip state = DockStateShowsStrip (reveal a)")
    case True
    then have "b = c"
      using False by (simp add: b_def c_def ApplyDockRevealState_def)
    moreover have "window_ok c"
      using window_ok_same [OF c(2)] c True assms(2) by simp
    ultimately show ?thesis using c by (simp add: revealed_to_def)
  next
    case flip: False
    define fromPx where "fromPx = (if slideActive a then visiblePx a
      else if DockStateShowsStrip (reveal a) then DockPeekPixels a else DockFullPixels a)"
    define targetPx where "targetPx = (if DockStateShowsStrip state then DockPeekPixels a else DockFullPixels a)"
    have from_size: "fromPx = window_size a" by (simp add: fromPx_def window_size_def settled_size_def)
    define d where "d = c\<lparr>slideActive := False\<rparr>"
    define e where "e dur = c\<lparr>slideActive := True, slideFromPx := fromPx, slideStartQpc := the qpc,
        slideDurationQpc := max 1 (qpcFrequency c * ucast (dur :: u32) div 1000)\<rparr>" for dur
    note sizes = same_bar_simps [OF c(2)]
    have b: "b = FinishDockRevealChange (SetDockVisiblePixels targetPx d) \<or>
        (\<exists>dur. b = FinishDockRevealChange (SetDockVisiblePixels fromPx (e dur)))"
    proof -
      have "b = start_slide qpc (DockStateShowsStrip (reveal a)) c"
        using False flip by (simp add: b_def c_def ApplyDockRevealState_def)
      then show ?thesis
        unfolding start_slide_def Let_def sizes c(1,6,7) d_def e_def fromPx_def [symmetric] targetPx_def [symmetric]
        by auto
    qed
    have d: "same_bar a d" "reveal d = state" "same_holds a d" "timer_ok d" "insidePointer d = insidePointer a"
      "\<not> slideActive d"
      using c by (simp_all add: d_def same_bar_def same_holds_def timer_ok_def cong: DockRevealState.case_cong)
    have e: "same_bar a (e dur)" "reveal (e dur) = state" "same_holds a (e dur)" "timer_ok (e dur)"
      "insidePointer (e dur) = insidePointer a" "slideActive (e dur)" "window_rect (e dur) = window_rect a" for dur
      using c by (simp_all add: e_def same_bar_def same_holds_def timer_ok_def cong: DockRevealState.case_cong)
    have target: "1 \<le> targetPx" "targetPx \<le> DockFullPixels a"
      using DockFullPixels_pos [OF assms(1)] DockPeekPixels_range [OF assms(1)] by (auto simp: targetPx_def)
    have "fromPx = window_size a" "1 \<le> fromPx" "fromPx \<le> DockFullPixels a"
      "window_rect a = DockHiddenRect (fullRect a) (dock_edge (dock a)) fromPx"
      using assms(2) by (simp_all add: from_size window_ok_def)
    note from_ok = this
    show ?thesis
      using b
    proof (elim disjE exE)
      assume "b = FinishDockRevealChange (SetDockVisiblePixels targetPx d)"
      moreover have "SetDockVisiblePixels targetPx d = moved d targetPx"
        unfolding moved_def using target d same_bar_simps [OF d(1)] by (intro SetDockVisiblePixels_eq) simp_all
      moreover have "targetPx = settled_size d"
        by (simp add: targetPx_def settled_size_def d(2) same_bar_simps [OF d(1)])
      ultimately show ?thesis
        using d target same_bar_simps [OF d(1)] by (simp add: finish_moved)
    next
      fix dur assume "b = FinishDockRevealChange (SetDockVisiblePixels fromPx (e dur))"
      moreover have "SetDockVisiblePixels fromPx (e dur) = moved (e dur) fromPx"
        unfolding moved_def using from_ok e [of dur] same_bar_simps [OF e(1) [of dur]]
        by (intro SetDockVisiblePixels_eq) (simp_all add: same_bar_def)
      ultimately show ?thesis
        using e [of dur] from_ok same_bar_simps [OF e(1) [of dur]] by (simp add: finish_moved)
    qed
  qed
qed

section \<open>The invariant\<close>

definition dock_inv :: "dock_app \<Rightarrow> bool" where
  "dock_inv a \<longleftrightarrow> placed a \<and> window_ok a \<and> timer_ok a \<and>
     (pinnedAction a \<longrightarrow> reveal a = Revealed)"

lemma revealed_to_inv:
  assumes "revealed_to state a b" "placed a" "pinnedAction a \<longrightarrow> state = Revealed"
  shows "dock_inv b"
  using assms same_bar_simps [of a b]
  by (auto simp: dock_inv_def revealed_to_def same_holds_def)

lemma next_revealed:
  "event = ActionShow \<or> (event = ActionToggle \<and> DockStateShowsStrip s) \<or>
     (event \<notin> {ActionHide, ActionToggle, HoldsChanged} \<and> s = Revealed) \<Longrightarrow>
   NextDockRevealState s event h r d = Revealed"
  by (cases event) (auto simp: NextDockRevealState_def Let_def)

lemma next_elapsed:
  "NextDockRevealState RevealPending DwellElapsed h r d = Revealed"
  "NextDockRevealState HidePending HideElapsed h r d = Hidden"
  by (simp_all add: NextDockRevealState_def)

lemma next_holds_changed:
  "NextDockRevealState s HoldsChanged h r d =
     (if s = Revealed \<and> \<not> AnyHold h then (if d = 0 then Hidden else HidePending)
      else if s = HidePending \<and> AnyHold h then Revealed else s)"
  by (simp add: NextDockRevealState_def Let_def)

text \<open>A change of the controller's inputs keeps the bar's part of the invariant.\<close>

lemma OnDockEvent_inv:
  assumes "placed a" "window_ok a" "timer_ok a \<or> (event = DwellElapsed \<and> reveal a = RevealPending)
      \<or> (event = HideElapsed \<and> reveal a = HidePending)"
    "pinnedAction a \<longrightarrow> reveal a = Revealed"
    "event \<noteq> HoldsChanged"
  shows "dock_inv (OnDockEvent qpc event a)"
proof -
  define c where "c = (if event = ActionShow \<or> (event = ActionToggle \<and> DockStateShowsStrip (reveal a))
                  then a\<lparr>pinnedAction := \<not> AnyOther (CurrentDockHolds a)\<rparr>
                  else if event = ActionHide \<or> event = ActionToggle
                  then a\<lparr>pinnedAction := False\<rparr> else a)"
  define state where "state = NextDockRevealState (reveal c) event (CurrentDockHolds c)
      (revealDelayMilliseconds (dock c)) (hideDelayMilliseconds (dock c))"
  have c: "same_bar a c" "reveal c = reveal a" "slideActive c = slideActive a" "visiblePx c = visiblePx a"
    "window_rect c = window_rect a" "timer c = timer a"
    by (auto simp: c_def same_bar_def)
  note sizes = same_bar_simps [OF c(1)]
  have "OnDockEvent qpc event a = ApplyDockRevealState qpc state c"
    using assms(1) by (simp add: OnDockEvent_def placed_def state_def c_def Let_def)
  moreover have "placed c" using assms(1) sizes by simp
  moreover have "window_ok c"
    using window_ok_same [OF c(1)] c assms(2) by simp
  moreover have "timer_ok c = timer_ok a" using timer_ok_same [OF c(1,2,6)] .
  moreover have "state = reveal c \<longrightarrow> timer_ok a"
    using assms(3) next_elapsed unfolding state_def c(2) by force
  moreover have "pinnedAction c \<longrightarrow> state = Revealed"
  proof
    assume "pinnedAction c"
    then have "event = ActionShow \<or> (event = ActionToggle \<and> DockStateShowsStrip (reveal a)) \<or>
        (event \<notin> {ActionHide, ActionToggle} \<and> pinnedAction a)"
      by (auto simp: c_def split: if_splits)
    then show "state = Revealed"
      unfolding state_def c(2) using assms(4,5) by (intro next_revealed) auto
  qed
  ultimately show ?thesis
    using revealed_to_inv [of state c] ApplyDockRevealState_spec [of c state qpc] by simp
qed

lemma EvaluateDockHolds_inv:
  assumes "placed a" "window_ok a" "timer_ok a" "pinnedAction a \<longrightarrow> reveal a = Revealed"
  shows "dock_inv (EvaluateDockHolds qpc a)"
proof -
  define gives_way where "gives_way \<longleftrightarrow> pinnedAction a \<and> AnyOther (CurrentDockHolds a)"
  define c where "c = (if gives_way then a\<lparr>pinnedAction := False\<rparr> else a)"
  define holds where "holds = (if gives_way then (CurrentDockHolds a)\<lparr>pinnedByAction := False\<rparr> else CurrentDockHolds a)"
  define state where "state = NextDockRevealState (reveal c) HoldsChanged holds
      (revealDelayMilliseconds (dock c)) (hideDelayMilliseconds (dock c))"
  have c: "same_bar a c" "reveal c = reveal a" "slideActive c = slideActive a" "visiblePx c = visiblePx a"
    "window_rect c = window_rect a" "timer c = timer a"
    by (auto simp: c_def same_bar_def)
  note sizes = same_bar_simps [OF c(1)]
  have any: "AnyHold holds \<longleftrightarrow> AnyHold (CurrentDockHolds a)"
    by (auto simp: holds_def AnyHold_def AnyOther_def gives_way_def)
  have pin: "pinnedAction a \<Longrightarrow> AnyHold (CurrentDockHolds a)" by (simp add: AnyHold_def CurrentDockHolds_def)
  have "EvaluateDockHolds qpc a = ApplyDockRevealState qpc state c"
    using assms(1) by (simp add: EvaluateDockHolds_def placed_def state_def c_def holds_def gives_way_def Let_def)
  moreover have "placed c" using assms(1) sizes by simp
  moreover have "window_ok c"
    using window_ok_same [OF c(1)] c assms(2) by simp
  moreover have "timer_ok c" using assms(3) timer_ok_same [OF c(1,2,6)] by simp
  moreover have "pinnedAction c \<longrightarrow> state = Revealed"
    using assms(4) c(2) any pin by (auto simp: state_def c_def next_holds_changed split: if_splits)
  ultimately show ?thesis
    using revealed_to_inv [of state c] ApplyDockRevealState_spec [of c state qpc] by simp
qed

lemma SettleDockSlide_inv:
  assumes "dock_inv a"
  shows "dock_inv (SettleDockSlide a)"
proof (cases "slideActive a")
  case True
  define c where "c = a\<lparr>slideActive := False\<rparr>"
  have c: "same_bar a c" "same_holds a c" "reveal c = reveal a" "insidePointer c = insidePointer a" "\<not> slideActive c"
    by (simp_all add: c_def same_bar_def same_holds_def)
  have "timer_ok c" using assms by (simp add: c_def dock_inv_def timer_ok_def cong: DockRevealState.case_cong)
  have a: "placed a" using assms by (simp add: dock_inv_def)
  have size: "(if DockHiddenOrHiding c then DockPeekPixels c else DockFullPixels c) = settled_size c"
    using a by (simp add: settled_size_def DockHiddenOrHiding_def placed_def autohide_active_def c_def)
  have range: "1 \<le> settled_size c" "settled_size c \<le> DockFullPixels c"
    using settled_size_range [of c] a same_bar_simps [OF c(1)] by simp_all
  have "SettleDockSlide a = FinishDockRevealChange (SetDockVisiblePixels (settled_size c) c)"
    using True by (simp add: SettleDockSlide_def Let_def c_def [symmetric] size)
  also have "SetDockVisiblePixels (settled_size c) c = moved c (settled_size c)"
    unfolding moved_def using range c by (intro SetDockVisiblePixels_eq) simp_all
  finally have "revealed_to (reveal a) a (SettleDockSlide a)"
    using finish_moved [OF c(1,2) \<open>timer_ok c\<close> c(3,4) range] by simp
  then show ?thesis
    using assms by (intro revealed_to_inv) (auto simp: dock_inv_def)
qed (use assms in \<open>simp add: SettleDockSlide_def\<close>)

lemma TickDockSlide_inv:
  assumes "dock_inv a"
  shows "dock_inv (TickDockSlide qpc eased a)"
proof -
  have "dock_inv (SetDockVisiblePixels eased a)" if sl: "slideActive a"
  proof -
    define v where "v = clamp_to eased 1 (DockFullPixels a)"
    have a: "placed a" "window_ok a" using assms by (simp_all add: dock_inv_def)
    have v: "1 \<le> v" "v \<le> DockFullPixels a"
      unfolding v_def using DockFullPixels_pos [OF a(1)] by (simp_all add: clamp_to_bounds)
    have "SetDockVisiblePixels eased a = SetDockVisiblePixels v a"
      using v by (simp add: SetDockVisiblePixels_def Let_def v_def clamp_to_id)
    also have "\<dots> = moved a v"
      unfolding moved_def using v a(2) sl
      by (intro SetDockVisiblePixels_eq) (auto simp: window_ok_def window_size_def)
    finally have eq: "SetDockVisiblePixels eased a = moved a v" .
    have "same_bar a (moved a v)" by (simp add: same_bar_def moved_def)
    note sizes = same_bar_simps [OF this]
    have "window_ok (moved a v)"
      using v sl by (simp add: window_ok_def window_size_def sizes) (simp add: moved_def)
    with assms show ?thesis
      by (simp add: eq dock_inv_def sizes)
        (simp add: moved_def timer_ok_def cong: DockRevealState.case_cong)
  qed
  with SettleDockSlide_inv [OF assms] assms show ?thesis by (simp add: TickDockSlide_def)
qed

lemma dock_started_inv:
  assumes "dock_started a"
  shows "dock_inv a"
proof -
  have a: "placed a" using assms by (simp add: dock_started_def placed_def)
  then have "DockFullPixels a = DockCrossPixels (fullRect a) (dock_edge (dock a))"
    by (simp add: DockFullPixels_def placed_def rect_nonempty_def)
  then have "window_ok a"
    using assms DockFullPixels_pos [OF a]
    by (simp add: window_ok_def window_size_def settled_size_def dock_started_def DockStateShowsStrip_def
        DockHidden_eq_Trim)
  with a assms show ?thesis by (simp add: dock_inv_def dock_started_def timer_ok_def)
qed

lemma dock_inv_parts:
  assumes "dock_inv a"
  shows "placed a" "window_ok a" "timer_ok a" "pinnedAction a \<longrightarrow> reveal a = Revealed"
  using assms by (simp_all add: dock_inv_def)

text \<open>Changing an input that the controller only reads keeps the bar's facts.\<close>

lemma input_change:
  assumes "dock_inv a" "same_bar a b" "reveal b = reveal a" "slideActive b = slideActive a"
    "visiblePx b = visiblePx a" "window_rect b = window_rect a" "timer b = timer a" "pinnedAction b = pinnedAction a"
  shows "placed b" "window_ok b" "timer_ok b" "pinnedAction b \<longrightarrow> reveal b = Revealed"
  using dock_inv_parts [OF assms(1)] assms(3,8) same_bar_simps [OF assms(2)]
    window_ok_same [OF assms(2) _ assms(4,5,6)] timer_ok_same [OF assms(2,3,7)]
  by simp_all

lemma OnDockTimer_inv:
  assumes "dock_inv a" "timer a \<noteq> None"
  shows "dock_inv (OnDockTimer qpc a)"
proof -
  note a = dock_inv_parts [OF assms(1)]
  have r: "reveal a = RevealPending \<or> reveal a = HidePending"
    using a(3) assms(2) by (auto simp: timer_ok_def split: DockRevealState.splits)
  have k: "same_bar a (KillDockTimer a)" by (simp add: KillDockTimer_def same_bar_def)
  have w: "placed (KillDockTimer a)" "window_ok (KillDockTimer a)"
    using a(1,2) same_bar_simps [OF k] window_ok_same [OF k] by (simp_all add: KillDockTimer_def)
  show ?thesis
    unfolding OnDockTimer_def Let_def
    using r a(4) by (intro OnDockEvent_inv w) (auto simp: KillDockTimer_def)
qed

lemma dock_step_inv:
  assumes "dock_inv a"
  shows "dock_inv (dock_step qpc e a)"
proof -
  note a = dock_inv_parts [OF assms]
  show ?thesis
  proof (cases e)
    case EvTimer
    then show ?thesis using assms OnDockTimer_inv by simp
  next
    case EvMove
    define b where "b = a\<lparr>insidePointer := True\<rparr>"
    have "placed b" "window_ok b" "timer_ok b" "pinnedAction b \<longrightarrow> reveal b = Revealed"
      using assms by (rule input_change; simp add: b_def same_bar_def)+
    note b = this
    have "dock_inv (if DockHiddenOrHiding b then OnDockEvent qpc PointerEnteredStrip b else EvaluateDockHolds qpc b)"
      using OnDockEvent_inv [of b PointerEnteredStrip qpc] EvaluateDockHolds_inv [of b qpc] b by simp
    then show ?thesis using assms EvMove unfolding b_def
      by (simp add: OnDockMouseMove_def Let_def split: if_splits)
  next
    case (EvLeave stillInside)
    define b where "b = a\<lparr>insidePointer := False\<rparr>"
    have "placed b" "window_ok b" "timer_ok b" "pinnedAction b \<longrightarrow> reveal b = Revealed"
      using assms by (rule input_change; simp add: b_def same_bar_def)+
    note b = this
    have "dock_inv (if reveal b = RevealPending then OnDockEvent qpc PointerLeft b else EvaluateDockHolds qpc b)"
      using OnDockEvent_inv [of b PointerLeft qpc] EvaluateDockHolds_inv [of b qpc] b by simp
    moreover have "dockActive a" using a(1) by (simp add: placed_def autohide_active_def)
    ultimately show ?thesis using assms EvLeave unfolding b_def
      by (simp add: OnDockMouseLeave_def Let_def split: if_splits)
  next
    case EvPress
    then show ?thesis using a assms OnDockEvent_inv [of a TouchOnStrip qpc] by simp
  next
    case (EvVerb v)
    then show ?thesis using a assms OnDockEvent_inv [of a v qpc] by auto
  next
    case EvChange
    then show ?thesis
      using a assms OnDockEvent_inv [of a PageOrWidgetChange qpc] SettleDockSlide_inv
      by (simp add: RevealDockForChange_def)
  next
    case EvShot
    define b where "b = a\<lparr>screenshot := True\<rparr>"
    have "placed b" "window_ok b" "timer_ok b" "pinnedAction b \<longrightarrow> reveal b = Revealed"
      using assms by (rule input_change; simp add: b_def same_bar_def)+
    with OnDockEvent_inv [of b Pin qpc] EvShot show ?thesis by (simp add: b_def)
  next
    case (EvInputs active cap raised dlg shot)
    define b where "b = a\<lparr>activeWindow := active, capture := cap, raisedActive := raised,
        dialog := dlg, screenshot := shot\<rparr>"
    have "placed b" "window_ok b" "timer_ok b" "pinnedAction b \<longrightarrow> reveal b = Revealed"
      using assms by (rule input_change; simp add: b_def same_bar_def)+
    with EvInputs show ?thesis by (simp add: b_def dock_inv_def)
  next
    case EvTurn
    then show ?thesis using a EvaluateDockHolds_inv [of a qpc] by simp
  next
    case (EvTick eased)
    then show ?thesis using TickDockSlide_inv [OF assms] by simp
  next
    case EvSettle
    then show ?thesis using SettleDockSlide_inv [OF assms] by simp
  qed
qed

lemma dock_reaches_inv: "dock_reaches a b \<Longrightarrow> dock_inv b"
  by (induction rule: dock_reaches.induct) (auto intro: dock_started_inv dock_step_inv)

section \<open>Properties\<close>

lemma next_to_strip:
  assumes "DockStateShowsStrip (NextDockRevealState s event h r d)" "\<not> DockStateShowsStrip s"
  shows "(event \<in> {ActionHide, ActionToggle} \<and> \<not> RefusesHide h) \<or> (event = HideElapsed \<and> s = HidePending)
    \<or> (event = HoldsChanged \<and> \<not> AnyHold h)"
  using assms by (cases event) (auto simp: NextDockRevealState_def DockStateShowsStrip_def Let_def split: if_splits)

lemma SetDockVisiblePixels_sel [simp]:
  "dock (SetDockVisiblePixels v a) = dock a" "dockActive (SetDockVisiblePixels v a) = dockActive a"
  "fullRect (SetDockVisiblePixels v a) = fullRect a" "reveal (SetDockVisiblePixels v a) = reveal a"
  "pinnedAction (SetDockVisiblePixels v a) = pinnedAction a" "activeWindow (SetDockVisiblePixels v a) = activeWindow a"
  "capture (SetDockVisiblePixels v a) = capture a" "raisedActive (SetDockVisiblePixels v a) = raisedActive a"
  "dialog (SetDockVisiblePixels v a) = dialog a" "screenshot (SetDockVisiblePixels v a) = screenshot a"
  by (simp_all add: SetDockVisiblePixels_def Let_def)

lemma enter_reveal_state_same: "same_holds a (enter_reveal_state s a) \<and> same_bar a (enter_reveal_state s a) \<and> reveal (enter_reveal_state s a) = s"
  by (cases s) (simp_all add: enter_reveal_state_def same_holds_def same_bar_def KillDockTimer_def ArmDockTimer_def Let_def)

lemma start_slide_same: "same_holds a (start_slide qpc w a) \<and> same_bar a (start_slide qpc w a) \<and> reveal (start_slide qpc w a) = reveal a"
  by (simp add: start_slide_def same_holds_def same_bar_def Let_def)

lemma ApplyDockRevealState_same:
  "same_holds a (ApplyDockRevealState qpc s a) \<and> reveal (ApplyDockRevealState qpc s a) = s"
  using enter_reveal_state_same [of a s] start_slide_same [of "enter_reveal_state s a" qpc]
  by (simp add: ApplyDockRevealState_def same_holds_def Let_def)

text \<open>A change that leaves the state is none.\<close>

lemma ApplyDockRevealState_stays [simp]: "ApplyDockRevealState qpc (reveal a) a = a"
  by (simp add: ApplyDockRevealState_def)

text \<open>What an evaluation does to the state, and that it keeps every hold but the pin of an action.\<close>

lemma EvaluateDockHolds_state:
  assumes "autohide_active a"
  shows "reveal (EvaluateDockHolds qpc a) =
      NextDockRevealState (reveal a) HoldsChanged (CurrentDockHolds a) (revealDelayMilliseconds (dock a)) (hideDelayMilliseconds (dock a))"
    and "same_holds (a\<lparr>pinnedAction := pinnedAction a \<and> \<not> AnyOther (CurrentDockHolds a)\<rparr>) (EvaluateDockHolds qpc a)"
proof -
  define gives_way where "gives_way \<longleftrightarrow> pinnedAction a \<and> AnyOther (CurrentDockHolds a)"
  define c where "c = (if gives_way then a\<lparr>pinnedAction := False\<rparr> else a)"
  define holds where "holds = (if gives_way then (CurrentDockHolds a)\<lparr>pinnedByAction := False\<rparr> else CurrentDockHolds a)"
  have eq: "EvaluateDockHolds qpc a = ApplyDockRevealState qpc (NextDockRevealState (reveal c) HoldsChanged holds
      (revealDelayMilliseconds (dock c)) (hideDelayMilliseconds (dock c))) c"
    using assms by (simp add: EvaluateDockHolds_def c_def holds_def gives_way_def Let_def)
  have same: "AnyHold holds = AnyHold (CurrentDockHolds a)"
    by (auto simp: holds_def AnyHold_def AnyOther_def gives_way_def)
  have c: "reveal c = reveal a" "dock c = dock a"
    "same_holds (a\<lparr>pinnedAction := pinnedAction a \<and> \<not> AnyOther (CurrentDockHolds a)\<rparr>) c"
    by (auto simp: c_def same_holds_def gives_way_def)
  show "reveal (EvaluateDockHolds qpc a) =
      NextDockRevealState (reveal a) HoldsChanged (CurrentDockHolds a) (revealDelayMilliseconds (dock a)) (hideDelayMilliseconds (dock a))"
    unfolding eq by (simp add: ApplyDockRevealState_same c next_holds_changed same)
  show "same_holds (a\<lparr>pinnedAction := pinnedAction a \<and> \<not> AnyOther (CurrentDockHolds a)\<rparr>) (EvaluateDockHolds qpc a)"
    using c(3) ApplyDockRevealState_same [of c qpc] unfolding eq by (simp add: same_holds_def)
qed

lemma SettleDockSlide_reveal: "reveal (SettleDockSlide a) = reveal a"
  by (simp add: SettleDockSlide_def Let_def)

lemma TickDockSlide_reveal: "reveal (TickDockSlide qpc eased a) = reveal a"
  by (simp add: TickDockSlide_def SettleDockSlide_reveal)

text \<open>An evaluation that finds a hold leaves a shown bar revealed, and one that finds none leaves none behind.\<close>

lemma EvaluateDockHolds_held:
  assumes "autohide_active a" "\<not> DockStateShowsStrip (reveal a)" "AnyHold (CurrentDockHolds a)"
  shows "reveal (EvaluateDockHolds qpc a) = Revealed"
  using assms by (cases "reveal a") (auto simp: EvaluateDockHolds_state next_holds_changed DockStateShowsStrip_def)

lemma EvaluateDockHolds_unheld:
  assumes "placed a" "window_ok a" "timer_ok a" "pinnedAction a \<longrightarrow> reveal a = Revealed" "reveal a = Revealed"
    and "AnyHold (CurrentDockHolds (EvaluateDockHolds qpc a))"
  shows "AnyHold (CurrentDockHolds a)"
proof (rule ccontr)
  assume none: "\<not> AnyHold (CurrentDockHolds a)"
  have act: "autohide_active a" using assms(1) by (simp add: placed_def)
  let ?b = "EvaluateDockHolds qpc a"
  have free: "\<not> insidePointer a" "\<not> activeWindow a" "\<not> capture a" "\<not> raisedActive a" "\<not> dialog a" "\<not> screenshot a"
      "\<not> pinnedAction a" "\<not> slideActive a"
    using none assms(5) act
    by (auto simp: AnyHold_def AnyOther_def CurrentDockHolds_def DockHiddenOrHiding_def DockStateShowsStrip_def)
  have eq: "?b = ApplyDockRevealState qpc (if hideDelayMilliseconds (dock a) = 0 then Hidden else HidePending) a"
    using act free none assms(5) by (simp add: EvaluateDockHolds_def Let_def next_holds_changed)
  have b: "revealed_to (if hideDelayMilliseconds (dock a) = 0 then Hidden else HidePending) a ?b"
    unfolding eq using assms(1-3,5) by (intro ApplyDockRevealState_spec) auto
  have slide: "slideActive ?b \<Longrightarrow> DockStateShowsStrip (reveal ?b)"
    using free(8) assms(5)
    by (auto simp: eq ApplyDockRevealState_def enter_reveal_state_def KillDockTimer_def ArmDockTimer_def DockStateShowsStrip_def Let_def
        split: if_splits) (simp_all add: start_slide_def Let_def)
  have "autohide_active ?b" using b act same_bar_simps [of a ?b] by (simp add: revealed_to_def)
  then have "\<not> revealSliding (CurrentDockHolds ?b)"
    using slide by (auto simp: CurrentDockHolds_def DockHiddenOrHiding_def autohide_active_def)
  then have "\<not> AnyHold (CurrentDockHolds ?b)"
    using b free by (auto simp: AnyHold_def AnyOther_def CurrentDockHolds_def revealed_to_def same_holds_def)
  with assms(6) show False by blast
qed

text \<open>C1: once its slide has ended the window of an autohide dock is the peek strip while the bar is
  hidden or about to be revealed and the full bar otherwise, after any events whatever their timing.\<close>

theorem settled_window_follows_state:
  assumes "dock_reaches a b" "\<not> slideActive b"
  shows "window_rect b =
    (if DockStateShowsStrip (reveal b) then DockHiddenRect (fullRect b) (dock_edge (dock b)) (DockPeekPixels b)
     else fullRect b)"
proof -
  have inv: "placed b" "window_ok b" using dock_reaches_inv [OF assms(1)] by (simp_all add: dock_inv_def)
  have "DockFullPixels b = DockCrossPixels (fullRect b) (dock_edge (dock b))"
    using inv(1) by (simp add: DockFullPixels_def placed_def rect_nonempty_def)
  with inv(2) assms(2) show ?thesis
    by (simp add: window_ok_def window_size_def settled_size_def DockHidden_eq_Trim)
qed

text \<open>While a slide runs the window never leaves the bar: it is the full bar cut to a size between one
  pixel and the whole thickness, from the screen edge.\<close>

theorem sliding_window_inside_bar:
  assumes "dock_reaches a b" "slideActive b"
  shows "window_rect b = DockHiddenRect (fullRect b) (dock_edge (dock b)) (visiblePx b) \<and>
    1 \<le> visiblePx b \<and> visiblePx b \<le> DockCrossPixels (fullRect b) (dock_edge (dock b))"
proof -
  have inv: "placed b" "window_ok b" using dock_reaches_inv [OF assms(1)] by (simp_all add: dock_inv_def)
  have "DockFullPixels b = DockCrossPixels (fullRect b) (dock_edge (dock b))"
    using inv(1) by (simp add: DockFullPixels_def placed_def rect_nonempty_def)
  with inv(2) assms(2) show ?thesis by (simp add: window_ok_def window_size_def)
qed

text \<open>C6: the dock timer runs exactly while the bar waits: with the dwell delay while a reveal is pending,
  with the hide delay while a hide is, and not at all otherwise.\<close>

theorem timer_runs_exactly_while_pending:
  assumes "dock_reaches a b"
  shows "timer b =
     (case reveal b of
        RevealPending \<Rightarrow> Some (max (revealDelayMilliseconds (dock b)) 1)
      | HidePending \<Rightarrow> Some (max (hideDelayMilliseconds (dock b)) 1)
      | _ \<Rightarrow> None)"
  using dock_reaches_inv [OF assms] by (simp add: dock_inv_def timer_ok_def)

text \<open>A run of events with the clock's answers; \<open>holds_through\<close> is a condition on the holds after each of them.\<close>

fun dock_run :: "(u64 option \<times> dock_event) list \<Rightarrow> dock_app \<Rightarrow> dock_app" where
  "dock_run [] a = a"
| "dock_run ((qpc, e) # es) a = dock_run es (dock_step qpc e a)"

fun holds_through :: "(DockHolds \<Rightarrow> bool) \<Rightarrow> (u64 option \<times> dock_event) list \<Rightarrow> dock_app \<Rightarrow> bool" where
  "holds_through P [] a \<longleftrightarrow> P (CurrentDockHolds a)"
| "holds_through P ((qpc, e) # es) a \<longleftrightarrow> P (CurrentDockHolds a) \<and> holds_through P es (dock_step qpc e a)"

definition hides_by_action :: "u64 option \<times> dock_event \<Rightarrow> bool" where
  "hides_by_action e \<longleftrightarrow> snd e \<in> {EvVerb ActionHide, EvVerb ActionToggle}"

lemma AnyHold_refuses: "RefusesHide h \<Longrightarrow> AnyHold h"
  by (auto simp: AnyHold_def AnyOther_def RefusesHide_def)

lemma holds_through_mono: "(\<And>h. P h \<Longrightarrow> Q h) \<Longrightarrow> holds_through P es a \<Longrightarrow> holds_through Q es a"
  by (induction es arbitrary: a) auto

lemma held_evaluation:
  assumes "dock_inv a" "reveal a = Revealed" "same_bar a b" "reveal b = reveal a" "slideActive b = slideActive a"
    "visiblePx b = visiblePx a" "window_rect b = window_rect a" "timer b = timer a" "pinnedAction b = pinnedAction a"
    and "AnyHold (CurrentDockHolds (EvaluateDockHolds qpc b))"
  shows "reveal (EvaluateDockHolds qpc b) = Revealed"
proof -
  note b = input_change [OF assms(1) assms(3-9)]
  have "AnyHold (CurrentDockHolds b)" by (rule EvaluateDockHolds_unheld [OF b _ assms(10)]) (simp add: assms(2,4))
  then show ?thesis using b(1) assms(2,4) by (intro EvaluateDockHolds_held) (simp_all add: placed_def DockStateShowsStrip_def)
qed

text \<open>A revealed bar stays revealed in a step after which it is held, or which a hold refuses.\<close>

lemma held_step:
  assumes inv: "dock_inv a" and full: "reveal a = Revealed" and held: "AnyHold (CurrentDockHolds (dock_step qpc e a))"
    and verb: "hides_by_action (qpc, e) \<Longrightarrow> RefusesHide (CurrentDockHolds a)"
  shows "reveal (dock_step qpc e a) = Revealed"
proof -
  note a = dock_inv_parts [OF inv]
  have act: "autohide_active a" "dockActive a" using a(1) by (simp_all add: placed_def autohide_active_def)
  have shown: "\<not> DockHiddenOrHiding b" if "reveal b = Revealed" for b
    using that by (simp add: DockHiddenOrHiding_def DockStateShowsStrip_def)
  have on_event: "reveal (OnDockEvent q v b) = Revealed"
    if "reveal b = Revealed" "v \<notin> {ActionHide, ActionToggle, HoldsChanged}" for q v b
    using that ApplyDockRevealState_same next_revealed [of v Revealed]
    by (auto simp: OnDockEvent_def Let_def DockStateShowsStrip_def)
  show ?thesis
  proof (cases e)
    case EvTimer
    then show ?thesis using a(3) full by (simp add: timer_ok_def)
  next
    case EvMove
    then show ?thesis
      using held full held_evaluation [OF inv full, of "a\<lparr>insidePointer := True\<rparr>" qpc]
      by (auto simp: OnDockMouseMove_def Let_def shown same_bar_def)
  next
    case (EvLeave stillInside)
    then show ?thesis
      using held full act held_evaluation [OF inv full, of "a\<lparr>insidePointer := False\<rparr>" qpc]
      by (auto simp: OnDockMouseLeave_def Let_def same_bar_def)
  next
    case EvTurn
    then show ?thesis using held full held_evaluation [OF inv full, of a qpc] by (simp add: same_bar_def)
  next
    case (EvVerb v)
    show ?thesis
    proof (cases "v \<in> {ActionHide, ActionToggle}")
      case True
      then have refuses: "RefusesHide (CurrentDockHolds (a\<lparr>pinnedAction := False\<rparr>))"
        using verb EvVerb by (simp add: hides_by_action_def RefusesHide_def CurrentDockHolds_def)
      then show ?thesis
        using EvVerb True full act
        by (auto simp: OnDockEvent_def ApplyDockRevealState_same DockStateShowsStrip_def NextDockRevealState_def Let_def)
    next
      case False
      then show ?thesis using EvVerb full on_event by auto
    qed
  qed (use full on_event shown in \<open>auto simp: RevealDockForChange_def SettleDockSlide_reveal TickDockSlide_reveal\<close>)
qed

lemma held_run:
  assumes "dock_inv a" "reveal a = Revealed" "holds_through AnyHold es a"
    and "holds_through RefusesHide es a \<or> \<not> list_ex hides_by_action es"
  shows "reveal (dock_run es a) = Revealed"
  using assms
proof (induction es arbitrary: a)
  case (Cons x es)
  obtain qpc e where x: "x = (qpc, e)" by (cases x)
  have "AnyHold (CurrentDockHolds (dock_step qpc e a))" using Cons.prems(3) x by (cases es) auto
  then have "reveal (dock_step qpc e a) = Revealed"
    using Cons.prems(1,2,4) x by (intro held_step) auto
  with Cons.prems x show ?case by (auto intro!: Cons.IH dock_step_inv)
qed simp

text \<open>C5: a held bar stays. Once the loop has evaluated the holds of a shown bar, it is revealed and stays so through any
  further events (timer, pointer, presses, changes of the holds, evaluations, ticks, whatever their order) as long as
  some hold is up after each of them: any hold does against everything but the actions that hide the bar, and an
  interaction, a raised widget, an open dialog or a pending capture does against these actions too.\<close>

theorem held_bar_stays:
  assumes "dock_reaches a b" "\<not> DockStateShowsStrip (reveal b)"
    and "holds_through RefusesHide es (dock_step qpc EvTurn b) \<or>
      holds_through AnyHold es (dock_step qpc EvTurn b) \<and> \<not> list_ex hides_by_action es"
    and "AnyHold (CurrentDockHolds b)"
  shows "reveal (dock_run es (dock_step qpc EvTurn b)) = Revealed"
proof -
  have inv: "dock_inv b" by (rule dock_reaches_inv [OF assms(1)])
  then have act: "autohide_active b" by (simp add: dock_inv_def placed_def)
  have "reveal (dock_step qpc EvTurn b) = Revealed"
    using EvaluateDockHolds_held [OF act assms(2,4)] by simp
  then show ?thesis
    using assms(3) holds_through_mono [of RefusesHide AnyHold, OF AnyHold_refuses] by (intro held_run dock_step_inv inv) auto
qed

text \<open>C7: a bar that nothing holds does hide: from any shown and settled state with the pointer outside and
  no pin, clearing the other holds, a turn of the loop and the end of the hide delay hide it.\<close>

theorem released_bar_hides:
  assumes "dock_reaches a b" "\<not> DockStateShowsStrip (reveal b)" "\<not> slideActive b"
    "\<not> insidePointer b" "\<not> pinnedAction b"
  shows "reveal (dock_step q3 EvTimer (dock_step q2 EvTurn (dock_step q1 (EvInputs False False False False False) b))) = Hidden"
proof -
  define c where "c = b\<lparr>activeWindow := False, capture := False, raisedActive := False, dialog := False, screenshot := False\<rparr>"
  define d where "d = dock_step q2 EvTurn (dock_step q1 (EvInputs False False False False False) b)"
  have inv: "dock_inv b" using dock_reaches_inv [OF assms(1)] .
  then have act: "autohide_active c" by (simp add: c_def dock_inv_def placed_def autohide_active_def)
  have none: "\<not> AnyHold (CurrentDockHolds c)" "\<not> pinnedAction c"
    using assms(3-5) by (simp_all add: c_def AnyHold_def AnyOther_def CurrentDockHolds_def)
  have r: "reveal c = Revealed \<or> reveal c = HidePending"
    using assms(2) by (cases "reveal b") (auto simp: c_def DockStateShowsStrip_def)
  have "d = EvaluateDockHolds q2 c" by (simp add: d_def c_def)
  also have "\<dots> = ApplyDockRevealState q2
      (NextDockRevealState (reveal c) HoldsChanged (CurrentDockHolds c)
         (revealDelayMilliseconds (dock c)) (hideDelayMilliseconds (dock c))) c"
    using act none by (simp add: EvaluateDockHolds_def Let_def)
  finally have d: "reveal d = Hidden \<or> reveal d = HidePending"
    using r none ApplyDockRevealState_same [of c q2] by (auto simp: next_holds_changed)
  have invd: "dock_inv d" unfolding d_def by (intro dock_step_inv inv)
  then have t: "timer_ok d" "autohide_active d" by (simp_all add: dock_inv_def placed_def)
  show ?thesis
    unfolding d_def [symmetric]
  proof (cases "reveal d = Hidden")
    case True
    then have "timer d = None" using t(1) by (simp add: timer_ok_def)
    with True show "reveal (dock_step q3 EvTimer d) = Hidden" by simp
  next
    case False
    with d have p: "reveal d = HidePending" by simp
    then have "timer d \<noteq> None" using t(1) by (simp add: timer_ok_def)
    moreover have "OnDockEvent q3 HideElapsed (KillDockTimer d) =
        ApplyDockRevealState q3 Hidden (KillDockTimer d)"
      using t(2) p by (simp add: OnDockEvent_def autohide_active_def KillDockTimer_def Let_def next_elapsed)
    ultimately show "reveal (dock_step q3 EvTimer d) = Hidden"
      using p ApplyDockRevealState_same [of "KillDockTimer d" q3 Hidden]
      by (simp add: OnDockTimer_def Let_def KillDockTimer_def)
  qed
qed

section \<open>Examples\<close>

definition example_dock :: dock_app where
  "example_dock =
     \<lparr>dock = DefaultDockSettings\<lparr>dock_edge := EdgeBottom, dock_mode := ModeAutohide\<rparr>, dockActive = True,
      fullRect = mkrect 0 900 1920 1080, reveal = Revealed, slideActive = False, slideFromPx = 0, visiblePx = 0,
      slideStartQpc = 0, slideDurationQpc = 0, window_rect = mkrect 0 900 1920 1080, timer = None,
      insidePointer = False, pinnedAction = False, activeWindow = False, capture = False,
      raisedActive = False, dialog = False, screenshot = False, rendererReady = True, qpcFrequency = 1000\<rparr>"

lemma example_started: "dock_started example_dock"
  by (simp add: dock_started_def example_dock_def autohide_active_def rect_nonempty_def DefaultDockSettings_def)

definition example_hidden :: dock_app where
  "example_hidden = dock_step None (EvVerb ActionHide) example_dock"

definition example_sliding :: dock_app where
  "example_sliding = dock_step (Some 5) (EvVerb ActionHide) example_dock"

lemma example_reaches: "dock_reaches example_dock example_hidden" "dock_reaches example_dock example_sliding"
  unfolding example_hidden_def example_sliding_def by (intro dock_reaches.intros example_started)+

lemma settled_window_follows_state_witness:
  "window_rect example_hidden =
    (if DockStateShowsStrip (reveal example_hidden)
     then DockHiddenRect (fullRect example_hidden) (dock_edge (dock example_hidden)) (DockPeekPixels example_hidden)
     else fullRect example_hidden)"
  by (rule settled_window_follows_state [OF example_reaches(1)]) code_simp

lemma sliding_window_inside_bar_witness:
  "window_rect example_sliding =
     DockHiddenRect (fullRect example_sliding) (dock_edge (dock example_sliding)) (visiblePx example_sliding) \<and>
    1 \<le> visiblePx example_sliding \<and>
    visiblePx example_sliding \<le> DockCrossPixels (fullRect example_sliding) (dock_edge (dock example_sliding))"
  by (rule sliding_window_inside_bar [OF example_reaches(2)]) code_simp

lemma timer_runs_exactly_while_pending_witness:
  "timer example_hidden =
     (case reveal example_hidden of
        RevealPending \<Rightarrow> Some (max (revealDelayMilliseconds (dock example_hidden)) 1)
      | HidePending \<Rightarrow> Some (max (hideDelayMilliseconds (dock example_hidden)) 1)
      | _ \<Rightarrow> None)"
  by (rule timer_runs_exactly_while_pending [OF example_reaches(1)])

definition example_raised :: dock_app where
  "example_raised = dock_step None (EvInputs False False True False False) example_dock"

definition example_hold_events :: "(u64 option \<times> dock_event) list" where
  "example_hold_events = [(None, EvTimer), (None, EvVerb ActionHide), (None, EvInputs False False False True False), (None, EvTurn)]"

lemma held_bar_stays_witness:
  "reveal (dock_run example_hold_events (dock_step None EvTurn example_raised)) = Revealed"
proof -
  have "dock_reaches example_dock example_raised"
    unfolding example_raised_def by (intro dock_reaches.intros example_started)
  moreover have "\<not> DockStateShowsStrip (reveal example_raised)" "AnyHold (CurrentDockHolds example_raised)"
    "holds_through RefusesHide example_hold_events (dock_step None EvTurn example_raised)" by code_simp+
  ultimately show ?thesis using held_bar_stays [of example_dock example_raised example_hold_events None] by blast
qed

lemma released_bar_hides_witness:
  "reveal (dock_step None EvTimer (dock_step None EvTurn (dock_step None (EvInputs False False False False False) example_dock))) = Hidden"
  by (rule released_bar_hides [OF dock_reaches.start [OF example_started]]; code_simp)

end
