(* ===== verification/Work_Lane.thy ===== *)
theory Work_Lane
  imports RedXe_Prelude
begin

unbundle bit_operations_syntax

text \<open>
  What the construction and the control work queue have in common: a table of slots that the UI thread fills
  and empties and one worker thread works through. \<open>lane_move\<close> is the abstract lane, the contract both queues
  implement; \<open>work_lane\<close> is the interface a queue is interpreted by, and its lemmas hold for both.
\<close>

section \<open>Result codes\<close>

type_synonym hresult = u32

definition SUCCEEDED :: "hresult \<Rightarrow> bool" where "SUCCEEDED hr \<longleftrightarrow> sint hr \<ge> 0"
definition FAILED :: "hresult \<Rightarrow> bool" where "FAILED hr \<longleftrightarrow> sint hr < 0"
definition S_OK :: hresult where "S_OK = 0"
definition S_FALSE :: hresult where "S_FALSE = 1"
definition E_POINTER :: hresult where "E_POINTER = 0x80004003"
definition E_INVALIDARG :: hresult where "E_INVALIDARG = 0x80070057"
definition E_FAIL :: hresult where "E_FAIL = 0x80004005"
definition E_UNEXPECTED :: hresult where "E_UNEXPECTED = 0x8000FFFF"
definition E_OUTOFMEMORY :: hresult where "E_OUTOFMEMORY = 0x8007000E"
definition HRESULT_FROM_WIN32 :: "u32 \<Rightarrow> hresult" where
  "HRESULT_FROM_WIN32 code = (if sint code \<le> 0 then code else (code AND 0xFFFF) OR 0x80070000)"

section \<open>Tables\<close>

lemma list_ex_update:
  "i < length xs \<Longrightarrow> \<not> P x \<Longrightarrow> list_ex P (xs[i := x]) \<Longrightarrow> list_ex P xs"
  using set_update_subset_insert [of xs i x] by (auto simp: list_ex_iff)

lemma list_all_update:
  "list_all P xs \<Longrightarrow> P x \<Longrightarrow> list_all P (xs[i := x])"
  using set_update_subset_insert [of xs i x] by (auto simp: list_all_iff)

lemma list_ex_updated:
  "i < length xs \<Longrightarrow> list_ex P (xs[i := x]) \<longleftrightarrow> P x \<or> (\<exists>j < length xs. j \<noteq> i \<and> P (xs ! j))"
  by (auto simp: list_ex_length nth_list_update split: if_splits)

text \<open>A ring in an array, read from its head, is a rotation.\<close>

lemma rotate_update:
  assumes "k < length xs"
  shows "rotate h (xs[(h + k) mod length xs := x]) = (rotate h xs)[k := x]"
proof (rule nth_equalityI)
  fix i assume "i < length (rotate h (xs[(h + k) mod length xs := x]))"
  then have i: "i < length xs" by simp
  have "i = k" if eq: "(h + k) mod length xs = (h + i) mod length xs"
  proof -
    obtain a b where "h + k + length xs * a = h + i + length xs * b" using eq nat_mod_eq_iff by blast
    then have "k + length xs * a = i + length xs * b" by simp
    then have "(k + length xs * a) mod length xs = (i + length xs * b) mod length xs" by simp
    then show "i = k" using i assms by simp
  qed
  moreover have "(h + m) mod length xs < length xs" for m using i by (intro mod_less_divisor) auto
  ultimately show "rotate h (xs[(h + k) mod length xs := x]) ! i = (rotate h xs)[k := x] ! i"
    using i assms by (auto simp: nth_rotate nth_list_update)
qed simp

lemma rotate_next: "length xs = n \<Longrightarrow> 0 < n \<Longrightarrow> rotate ((h + 1) mod n) xs = rotate1 (rotate h xs)"
  using rotate_conv_mod [of "h + 1" xs] by simp

section \<open>The abstract lane\<close>

text \<open>The private \<open>State\<close> of both queues. A work item is the address of its interface; null is \<open>None\<close>.\<close>

datatype SlotState = Empty | Queued | Running | Complete

type_synonym work = nat
type_synonym lane_slot = "work option \<times> SlotState"

abbreviation empty_slot :: lane_slot where "empty_slot \<equiv> (None, Empty)"

text \<open>
  A lane is its table and the slot the worker is busy with. \<open>put\<close> fills a free slot with a work item that is
  in no slot, \<open>begin_work\<close> and \<open>end_work\<close> are the worker's, and \<open>clear\<close> empties any slots but the one in work.
\<close>

inductive lane_move :: "lane_slot list \<times> nat option \<Rightarrow> lane_slot list \<times> nat option \<Rightarrow> bool" where
  rest: "lane_move l l"
| put: "i < length t \<Longrightarrow> t ! i = empty_slot \<Longrightarrow> Some w \<notin> fst ` set t
        \<Longrightarrow> lane_move (t, b) (t[i := (Some w, Queued)], b)"
| begin_work: "i < length t \<Longrightarrow> t ! i = (Some w, Queued) \<Longrightarrow> lane_move (t, None) (t[i := (Some w, Running)], Some i)"
| end_work: "i < length t \<Longrightarrow> t ! i = (Some w, Running) \<Longrightarrow> lane_move (t, Some i) (t[i := (Some w, Complete)], None)"
| clear: "length t' = length t \<Longrightarrow>
          \<forall>i < length t. t' ! i = t ! i \<or> (t' ! i = empty_slot \<and> snd (t ! i) \<noteq> Running)
          \<Longrightarrow> lane_move (t, b) (t', b)"

definition lane_ok :: "lane_slot list \<times> nat option \<Rightarrow> bool" where
  "lane_ok l \<longleftrightarrow>
     (\<forall>i < length (fst l). snd (fst l ! i) = Running \<longleftrightarrow> snd l = Some i) \<and>
     (\<forall>i < length (fst l). snd (fst l ! i) = Empty \<longleftrightarrow> fst (fst l ! i) = None) \<and>
     (\<forall>i < length (fst l). \<forall>j < length (fst l).
        i \<noteq> j \<longrightarrow> fst (fst l ! i) \<noteq> None \<longrightarrow> fst (fst l ! i) \<noteq> fst (fst l ! j)) \<and>
     (\<forall>i. snd l = Some i \<longrightarrow> i < length (fst l))"

lemma lane_ok_start: "lane_ok (replicate n empty_slot, None)"
  by (simp add: lane_ok_def)

lemma lane_move_length: "lane_move l l' \<Longrightarrow> length (fst l') = length (fst l)"
  by (induction rule: lane_move.induct) auto

lemma lane_move_ok:
  assumes "lane_move l l'" "lane_ok l"
  shows "lane_ok l'"
  using assms
proof (induction rule: lane_move.induct)
  case (put i t w b)
  have "fst (t ! j) \<noteq> Some w" if "j < length t" for j
    using put.hyps(3) that by (metis image_eqI nth_mem)
  with put show ?case
    by (simp add: lane_ok_def nth_list_update) (metis option.distinct(1) SlotState.distinct(1,3) fst_conv snd_conv)
next
  case (begin_work i t w)
  then show ?case
    by (auto simp: lane_ok_def nth_list_update) (metis fst_conv option.distinct(1))+
next
  case (end_work i t w)
  then show ?case
    by (auto simp: lane_ok_def nth_list_update) (metis fst_conv option.distinct(1))+
next
  case (clear t' t b)
  have c: "\<And>i. i < length t \<Longrightarrow> t' ! i = t ! i \<or> (t' ! i = empty_slot \<and> snd (t ! i) \<noteq> Running)"
    using clear.hyps(2) by blast
  show ?case
    unfolding lane_ok_def fst_conv snd_conv clear.hyps(1)
  proof (intro conjI allI impI)
    fix i assume i: "i < length t"
    show "(snd (t' ! i) = Running) = (b = Some i)" "(snd (t' ! i) = Empty) = (fst (t' ! i) = None)"
      using clear.prems c [OF i] i by (auto simp: lane_ok_def)
    fix j assume j: "j < length t" "i \<noteq> j" "fst (t' ! i) \<noteq> None"
    then have "t' ! i = t ! i" using c [OF i] by auto
    moreover have "fst (t ! i) \<noteq> fst (t ! j)"
      using clear.prems i j \<open>t' ! i = t ! i\<close> unfolding lane_ok_def fst_conv by metis
    ultimately show "fst (t' ! i) \<noteq> fst (t' ! j)" using c [OF j(1)] j(3) by auto
  next
    fix i assume "b = Some i"
    then show "i < length t" using clear.prems by (simp add: lane_ok_def)
  qed
qed simp

section \<open>Runs\<close>

text \<open>
  A queue is a step function on its states: \<open>step e s\<close> is \<open>None\<close> when \<open>e\<close> cannot happen in \<open>s\<close>. A run
  is any sequence of steps, of the UI thread, of the worker, in any interleaving.
\<close>

inductive reaches :: "('e \<Rightarrow> 's \<Rightarrow> 's option) \<Rightarrow> 's \<Rightarrow> 's \<Rightarrow> bool" for step :: "'e \<Rightarrow> 's \<Rightarrow> 's option" and a :: 's where
  reaches_start: "reaches step a a"
| reaches_step: "reaches step a s \<Longrightarrow> step e s = Some s' \<Longrightarrow> reaches step a s'"

text \<open>\<open>turns busy waiting step s n s'\<close>: a run from \<open>s\<close> to \<open>s'\<close> on which \<open>waiting\<close> holds throughout and the
  worker takes \<open>n\<close> items.\<close>

inductive turns :: "('s \<Rightarrow> nat option) \<Rightarrow> ('s \<Rightarrow> bool) \<Rightarrow> ('e \<Rightarrow> 's \<Rightarrow> 's option) \<Rightarrow> 's \<Rightarrow> nat \<Rightarrow> 's \<Rightarrow> bool"
  for busy :: "'s \<Rightarrow> nat option" and waiting :: "'s \<Rightarrow> bool" and step :: "'e \<Rightarrow> 's \<Rightarrow> 's option" and a :: 's where
  turns_start: "waiting a \<Longrightarrow> turns busy waiting step a 0 a"
| turns_step: "turns busy waiting step a n s \<Longrightarrow> step e s = Some s' \<Longrightarrow> waiting s'
    \<Longrightarrow> turns busy waiting step a (if busy s = None \<and> busy s' \<noteq> None then n + 1 else n) s'"

fun run_events :: "('e \<Rightarrow> 's \<Rightarrow> 's option) \<Rightarrow> 's \<Rightarrow> 'e list \<Rightarrow> 's option" where
  "run_events step s [] = Some s"
| "run_events step s (e # es) = (case step e s of None \<Rightarrow> None | Some s' \<Rightarrow> run_events step s' es)"

lemma reaches_trans: "reaches step s t \<Longrightarrow> reaches step a s \<Longrightarrow> reaches step a t"
proof (induction rule: reaches.induct)
  case (reaches_step u e v)
  then have "reaches step a u" by simp
  then show ?case using reaches_step.hyps(2) by (rule reaches.reaches_step [where step = step])
qed

lemma run_events_reaches: "run_events step s es = Some s' \<Longrightarrow> reaches step s s'"
proof (induction es arbitrary: s)
  case (Cons e es)
  then obtain t where t: "step e s = Some t" "run_events step t es = Some s'"
    by (auto split: option.splits)
  have "reaches step s t" using reaches_start [of step s] t(1) by (rule reaches_step [where step = step])
  then show ?case using reaches_trans [OF Cons.IH [OF t(2)]] by simp
qed (simp add: reaches_start)

text \<open>An event list computes such a run.\<close>

fun turns_run :: "('s \<Rightarrow> nat option) \<Rightarrow> ('s \<Rightarrow> bool) \<Rightarrow> ('e \<Rightarrow> 's \<Rightarrow> 's option) \<Rightarrow> nat \<Rightarrow> 's \<Rightarrow> 'e list
    \<Rightarrow> (nat \<times> 's) option" where
  "turns_run busy waiting step n s [] = Some (n, s)"
| "turns_run busy waiting step n s (e # es) =
     (case step e s of
        None \<Rightarrow> None
      | Some s' \<Rightarrow>
          (if waiting s'
           then turns_run busy waiting step (if busy s = None \<and> busy s' \<noteq> None then n + 1 else n) s' es
           else None))"

lemma turns_run_turns:
  "turns busy waiting step a n s \<Longrightarrow> turns_run busy waiting step n s es = Some (m, s') \<Longrightarrow> turns busy waiting step a m s'"
proof (induction es arbitrary: n s)
  case (Cons e es)
  then obtain t where t: "step e s = Some t" "waiting t"
      "turns_run busy waiting step (if busy s = None \<and> busy t \<noteq> None then n + 1 else n) t es = Some (m, s')"
    by (auto split: option.splits if_splits)
  have "turns busy waiting step a (if busy s = None \<and> busy t \<noteq> None then n + 1 else n) t"
    using Cons.prems(1) t(1,2) by (rule turns_step [where step = step and waiting = waiting])
  then show ?case using t(3) by (rule Cons.IH)
qed simp

section \<open>The two threads\<close>

text \<open>
  Where the worker thread is: before \<open>std::thread\<close> is made and after it is joined, in the wait of its outer
  loop, about to look at the stop event, about to take the lock and select, in \<open>Run\<close> of the work in a slot,
  about to publish its result, about to call \<open>_notify\<close>, or returned.
\<close>

datatype worker_pc = NoThread | AtWait | AtCheck | AtSelect | AtRun nat | AtPublish nat hresult | AtNotify bool | Returned

definition busy_with :: "worker_pc \<Rightarrow> nat option" where
  "busy_with pc = (case pc of AtRun i \<Rightarrow> Some i | AtPublish i _ \<Rightarrow> Some i | _ \<Rightarrow> None)"

lemma busy_with_simps [simp]:
  "busy_with NoThread = None" "busy_with AtWait = None" "busy_with AtCheck = None" "busy_with AtSelect = None"
  "busy_with (AtRun i) = Some i" "busy_with (AtPublish i r) = Some i" "busy_with (AtNotify n) = None"
  "busy_with Returned = None"
  by (simp_all add: busy_with_def)

text \<open>What the outcome of making the thread can be.\<close>

datatype thread_start = ThreadStarted | ThreadSystemError | ThreadNoMemory

text \<open>
  What happens to work items, in order: accepted by \<open>Enqueue\<close>, \<open>Run\<close> called, \<open>Complete\<close> called, released
  without \<open>Complete\<close>.
\<close>

datatype queue_event = Accepted work | Started work | Delivered work hresult | Dropped work

section \<open>Taking turns\<close>

text \<open>The worker looks for work from the slot after the one it took last.\<close>

definition round_robin :: "lane_slot list \<Rightarrow> nat \<Rightarrow> nat option" where
  "round_robin t last_one =
     find (\<lambda>i. snd (t ! i) = Queued) (map (\<lambda>k. (last_one + k) mod length t) [1..<length t + 1])"

definition turns_left :: "nat \<Rightarrow> nat \<Rightarrow> nat \<Rightarrow> nat" where
  "turns_left n last_one i = (if last_one < i then i - last_one - 1 else i + n - last_one - 1)"

lemma turns_left_mod:
  assumes "i < n" "last_one < n"
  shows "turns_left n last_one i < n \<and> (last_one + (turns_left n last_one i + 1)) mod n = i"
  using assms by (auto simp: turns_left_def mod_if)

lemma turns_left_unique:
  assumes "last_one < n" "k < n"
  shows "turns_left n last_one ((last_one + (k + 1)) mod n) = k"
proof (cases "last_one + (k + 1) < n")
  case False
  then have "(last_one + (k + 1)) mod n = last_one + (k + 1) - n"
    using assms by (simp add: mod_if)
  moreover have "\<not> last_one < last_one + (k + 1) - n" "last_one + (k + 1) - n + n - last_one - 1 = k"
    using False assms by linarith+
  ultimately show ?thesis unfolding turns_left_def by (simp only: if_False)
qed (simp add: turns_left_def)

lemma find_upt_least:
  assumes "find P (map f [1..<n + 1]) = Some x" "k < n" "P (f (k + 1))"
  shows "\<exists>j \<le> k. x = f (j + 1) \<and> P x"
proof -
  obtain j where j: "j < n" "x = f (j + 1)" "P x" "\<forall>i < j. \<not> P (f (i + 1))"
    using assms(1) by (auto simp: find_Some_iff simp del: upt_Suc)
  then have "\<not> k < j" using assms(3) by blast
  with j show ?thesis by (intro exI [of _ j]) simp
qed

lemma round_robin_Some:
  "round_robin t c = Some j \<Longrightarrow> t \<noteq> [] \<Longrightarrow> j < length t \<and> snd (t ! j) = Queued"
  by (auto simp: round_robin_def find_Some_iff simp del: upt_Suc)

lemma round_robin_None: "round_robin t c = None \<Longrightarrow> c < length t \<Longrightarrow> i < length t \<Longrightarrow> snd (t ! i) \<noteq> Queued"
proof
  assume n: "round_robin t c = None" and c: "c < length t" and i: "i < length t" "snd (t ! i) = Queued"
  define k where "k = turns_left (length t) c i"
  have "k < length t" "(c + (k + 1)) mod length t = i" using turns_left_mod [OF i(1) c] by (simp_all add: k_def)
  then have "i \<in> (\<lambda>k. (c + k) mod length t) ` set [1..<length t + 1]"
    by (intro image_eqI [of _ _ "k + 1"]) (simp_all del: upt_Suc)
  with n i(2) show False by (auto simp: round_robin_def find_None_iff)
qed

text \<open>While an item waits, every item taken before it brings its turn nearer.\<close>

lemma round_robin_nearer:
  assumes "round_robin t c = Some j" "i < length t" "snd (t ! i) = Queued" "c < length t" "i \<noteq> j"
  shows "turns_left (length t) j i < turns_left (length t) c i"
proof -
  define n where "n = length t"
  define k where "k = turns_left n c i"
  have k: "k < n" "(c + (k + 1)) mod n = i" using turns_left_mod [of i n c] assms by (simp_all add: n_def k_def)
  obtain m where m: "m \<le> k" "j = (c + (m + 1)) mod n"
    using find_upt_least [OF assms(1) [unfolded round_robin_def, folded n_def] k(1)] k assms(3) by blast
  with k assms(5) have "m < k" by (metis le_neq_implies_less)
  have "turns_left n c j = m" using turns_left_unique [of c n m] m k assms(4) by (simp add: n_def)
  with \<open>m < k\<close> have "turns_left n c j < turns_left n c i" by (simp add: k_def)
  moreover have "j < n" using m k by simp
  ultimately show ?thesis using assms(2,4,5) unfolding n_def [symmetric]
    by (auto simp: turns_left_def split: if_splits)
qed

section \<open>The interface of a queue\<close>

text \<open>
  A queue gives its states, the view of a state as a lane, the slot taken last and its steps, and promises
  that every step is a move of the lane, that work is taken in turn, and that the cursor moves otherwise
  only when nothing waits.
\<close>

locale work_lane =
  fixes start :: 's and lane :: "'s \<Rightarrow> lane_slot list \<times> nat option" and cursor :: "'s \<Rightarrow> nat"
    and step :: "'e \<Rightarrow> 's \<Rightarrow> 's option" and ok :: "'s \<Rightarrow> bool" and capacity :: nat
  assumes start_ok: "ok start" "lane_ok (lane start)"
    and ok_shape: "ok s \<Longrightarrow> length (fst (lane s)) = capacity \<and> cursor s < capacity"
    and step_ok: "ok s \<Longrightarrow> lane_ok (lane s) \<Longrightarrow> step e s = Some s' \<Longrightarrow> ok s'"
    and step_lane: "ok s \<Longrightarrow> lane_ok (lane s) \<Longrightarrow> step e s = Some s' \<Longrightarrow> lane_move (lane s) (lane s')"
    and step_turn: "ok s \<Longrightarrow> lane_ok (lane s) \<Longrightarrow> step e s = Some s' \<Longrightarrow> snd (lane s) = None
      \<Longrightarrow> snd (lane s') = Some i \<Longrightarrow> round_robin (fst (lane s)) (cursor s) = Some i \<and> cursor s' = i"
    and step_cursor: "ok s \<Longrightarrow> lane_ok (lane s) \<Longrightarrow> step e s = Some s' \<Longrightarrow> snd (lane s) \<noteq> None \<or> snd (lane s') = None
      \<Longrightarrow> i < capacity \<Longrightarrow> snd (fst (lane s') ! i) = Queued \<Longrightarrow> snd (fst (lane s) ! i) = Queued
      \<Longrightarrow> cursor s' = cursor s"
begin

lemma reaches_inv: "reaches step start s \<Longrightarrow> ok s \<and> lane_ok (lane s)"
proof (induction rule: reaches.induct)
  case (reaches_step s e s')
  then show ?case using step_ok step_lane lane_move_ok by blast
qed (use start_ok in blast)

lemma one_at_a_time:
  assumes "reaches step start s" "i < capacity" "snd (fst (lane s) ! i) = Running"
  shows "snd (lane s) = Some i"
  using assms reaches_inv ok_shape unfolding lane_ok_def by blast

lemma no_duplicates:
  assumes "reaches step start s" "i < capacity" "j < capacity" "i \<noteq> j" "fst (fst (lane s) ! i) \<noteq> None"
  shows "fst (fst (lane s) ! i) \<noteq> fst (fst (lane s) ! j)"
  using assms reaches_inv ok_shape unfolding lane_ok_def by metis

lemma turns_bounded:
  assumes "reaches step start s"
    and "turns (\<lambda>s. snd (lane s)) (\<lambda>s. snd (fst (lane s) ! i) = Queued) step s n s'" and "i < capacity"
  shows "reaches step start s' \<and> snd (fst (lane s') ! i) = Queued \<and>
    n + turns_left capacity (cursor s') i \<le> turns_left capacity (cursor s) i"
  using assms(2)
proof (induction rule: turns.induct)
  case turns_start
  with assms(1) show ?case by simp
next
  case (turns_step n s e s')
  then have r: "reaches step start s" by simp
  then have inv: "ok s" "lane_ok (lane s)" using reaches_inv by blast+
  have inv3: "reaches step start s'" using r turns_step.hyps(2) by (rule reaches_step [where step = step])
  have shape: "length (fst (lane s)) = capacity" "cursor s < capacity" using ok_shape [OF inv(1)] by blast+
  show ?case
  proof (cases "snd (lane s) = None \<and> snd (lane s') \<noteq> None")
    case True
    then obtain j where j: "snd (lane s') = Some j" by blast
    have t: "round_robin (fst (lane s)) (cursor s) = Some j" "cursor s' = j"
      using step_turn [OF inv(1,2) turns_step.hyps(2)] True j by blast+
    have "snd (fst (lane s') ! i) \<noteq> Running" using turns_step.hyps(3) by simp
    moreover have "j < capacity \<Longrightarrow> snd (fst (lane s') ! j) = Running"
      using reaches_inv [OF inv3] j ok_shape unfolding lane_ok_def by metis
    ultimately have "i \<noteq> j" using assms(3) by blast
    then have "turns_left capacity j i < turns_left capacity (cursor s) i"
      using round_robin_nearer [OF t(1), of i] shape assms(3) turns_step.IH by simp
    with True t(2) turns_step inv3 show ?thesis by auto
  next
    case False
    then have "snd (lane s) \<noteq> None \<or> snd (lane s') = None" by simp
    moreover have "snd (fst (lane s) ! i) = Queued" using turns_step.IH by blast
    ultimately have "cursor s' = cursor s"
      using step_cursor [OF inv(1,2) turns_step.hyps(2) _ assms(3) turns_step.hyps(3)] by blast
    moreover have "(if snd (lane s) = None \<and> snd (lane s') \<noteq> None then n + 1 else n) = n" using False by auto
    ultimately show ?thesis using turns_step inv3 by simp
  qed
qed

lemma fair:
  assumes "reaches step start s" "i < capacity"
    and "turns (\<lambda>s. snd (lane s)) (\<lambda>s. snd (fst (lane s) ! i) = Queued) step s n s'"
  shows "n < capacity"
proof -
  have "cursor s < capacity" using reaches_inv [OF assms(1)] ok_shape by blast
  then have "turns_left capacity (cursor s) i < capacity" using turns_left_mod assms(2) by blast
  with turns_bounded [OF assms(1,3,2)] show ?thesis by linarith
qed

end

end
