(* ===== verification/Widget_Status.thy ===== *)
theory Widget_Status
  imports Work_Lane
begin

unbundle bit_operations_syntax

text \<open>
  The status table of \<open>RedXe/PluginHost.cpp\<close>: what widgets report about themselves, read by instance id or, without a
  lock, through a binding. An entry's word holds the status and a generation that changes whenever the entry is reset,
  so that the key of a binding names one use of one entry. Ids are C strings, so a text has no zero character; a null
  pointer is \<open>None\<close>.
\<close>

section \<open>Ids\<close>

definition char_between :: "char \<Rightarrow> char \<Rightarrow> char \<Rightarrow> bool" where
  "char_between lo hi ch \<longleftrightarrow> of_char lo \<le> (of_char ch :: nat) \<and> (of_char ch :: nat) \<le> of_char hi"

definition RedXeAsciiLower :: "char \<Rightarrow> char" where
  "RedXeAsciiLower value = (if char_between CHR ''A'' CHR ''Z'' value then char_of ((of_char value :: nat) + 32) else value)"

fun equals_ignore_case :: "string \<Rightarrow> string \<Rightarrow> bool" where
  "equals_ignore_case (l # left) (r # right) =
     (if RedXeAsciiLower l \<noteq> RedXeAsciiLower r then False else equals_ignore_case left right)"
| "equals_ignore_case left right \<longleftrightarrow> left = [] \<and> right = []"

definition RedXeIsMachineIdCharacter :: "char \<Rightarrow> bool \<Rightarrow> bool" where
  "RedXeIsMachineIdCharacter value first \<longleftrightarrow>
     (let alphaNumeric = char_between CHR ''A'' CHR ''Z'' value \<or> char_between CHR ''a'' CHR ''z'' value \<or>
            char_between CHR ''0'' CHR ''9'' value
      in alphaNumeric \<or> (\<not> first \<and> (value = CHR ''_'' \<or> value = CHR ''.'' \<or> value = CHR ''-'')))"

fun machine_id_loop :: "nat \<Rightarrow> string \<Rightarrow> bool" where
  "machine_id_loop len [] = True"
| "machine_id_loop len (c # text) =
     (if len \<ge> 128 \<or> \<not> RedXeIsMachineIdCharacter c (len = 0) then False else machine_id_loop (len + 1) text)"

definition RedXeIsValidMachineId :: "string option \<Rightarrow> bool" where
  "RedXeIsValidMachineId value = (case value of None \<Rightarrow> False | Some text \<Rightarrow> text \<noteq> [] \<and> machine_id_loop 0 text)"

lemma equals_ignore_case_iff: "equals_ignore_case left right \<longleftrightarrow> map RedXeAsciiLower left = map RedXeAsciiLower right"
  by (induction left right rule: equals_ignore_case.induct) auto

lemma machine_id_loop_length: "machine_id_loop len s \<Longrightarrow> s = [] \<or> len + length s \<le> 128"
  by (induction len s rule: machine_id_loop.induct) (auto split: if_splits)

section \<open>The table\<close>

definition kMaximumWidgetStatusSlots :: nat where "kMaximumWidgetStatusSlots = 64"
definition kMaximumWidgetStatusIdBytes :: nat where "kMaximumWidgetStatusIdBytes = 128"
definition kMaximumWidgetStatusReasonCharacters :: nat where "kMaximumWidgetStatusReasonCharacters = 96"

definition RedXeWidgetStatusOk :: u32 where "RedXeWidgetStatusOk = 0"
definition RedXeWidgetStatusUnavailable :: u32 where "RedXeWidgetStatusUnavailable = 3"

record WidgetStatusSlot =
  ws_id :: string
  ws_reason :: "u16 list"
  statusAndGeneration :: u64
  ws_bindings :: u32
  ws_used :: bool

definition WidgetStatusSlot_init :: WidgetStatusSlot where
  "WidgetStatusSlot_init = \<lparr>ws_id = [], ws_reason = [], statusAndGeneration = ucast RedXeWidgetStatusOk, ws_bindings = 0, ws_used = False\<rparr>"

definition generation :: "WidgetStatusSlot \<Rightarrow> u64" where
  "generation slot = drop_bit 32 (statusAndGeneration slot)"

definition high_half :: "u64 \<Rightarrow> u64" where
  "high_half state = state AND 0xFFFFFFFF00000000"

definition ResetWidgetStatusSlot :: "WidgetStatusSlot \<Rightarrow> WidgetStatusSlot" where
  "ResetWidgetStatusSlot slot =
     \<lparr>ws_id = [], ws_reason = [],
      statusAndGeneration = push_bit 32 (min (generation slot + 1) 0xFFFFFFFF) OR ucast RedXeWidgetStatusOk,
      ws_bindings = 0, ws_used = False\<rparr>"

text \<open>The loop of a report or a binding: the entry of the id, or the first free one that is not retired.\<close>

definition slot_of :: "string \<Rightarrow> WidgetStatusSlot list \<Rightarrow> nat option" where
  "slot_of instanceId slots = find (\<lambda>i. ws_used (slots ! i) \<and> equals_ignore_case (ws_id (slots ! i)) instanceId) [0..<length slots]"

definition free_slot :: "WidgetStatusSlot list \<Rightarrow> nat option" where
  "free_slot slots = find (\<lambda>i. \<not> ws_used (slots ! i) \<and> generation (slots ! i) \<noteq> 0xFFFFFFFF) [0..<length slots]"

definition TakeStatusSlot :: "string \<Rightarrow> WidgetStatusSlot list \<Rightarrow> (nat \<times> WidgetStatusSlot list) option" where
  "TakeStatusSlot instanceId slots =
     (case slot_of instanceId slots of
        Some i \<Rightarrow> Some (i, slots)
      | None \<Rightarrow>
          (case free_slot slots of
             None \<Rightarrow> None
           | Some i \<Rightarrow> Some (i, slots[i := (ResetWidgetStatusSlot (slots ! i))
               \<lparr>ws_used := True, ws_id := take (kMaximumWidgetStatusIdBytes - 1) instanceId\<rparr>])))"

definition binding_key :: "u64 \<Rightarrow> nat \<Rightarrow> u64" where
  "binding_key state i = high_half state OR ucast (of_nat (i + 1) :: u32)"

text \<open>The part of \<open>BindWidgetStatus\<close> after the binding has been reset; the key is what the binding holds then.\<close>

definition BindWidgetStatus ::
    "bool \<Rightarrow> string option \<Rightarrow> WidgetStatusSlot list \<Rightarrow> hresult \<times> u64 option \<times> WidgetStatusSlot list" where
  "BindWidgetStatus shutdown instanceId slots =
     (if shutdown then (E_UNEXPECTED, None, slots)
      else if \<not> RedXeIsValidMachineId instanceId then (E_INVALIDARG, None, slots)
      else
        (case TakeStatusSlot (the instanceId) slots of
           None \<Rightarrow> (HRESULT_FROM_WIN32 68, None, slots)
         | Some (i, slots) \<Rightarrow>
             if ws_bindings (slots ! i) = 0xFFFFFFFF then (HRESULT_FROM_WIN32 68, None, slots)
             else (S_OK, Some (binding_key (statusAndGeneration (slots ! i)) i),
                   slots[i := (slots ! i)\<lparr>ws_bindings := ws_bindings (slots ! i) + 1\<rparr>])))"


text \<open>The part of \<open>ReleaseWidgetStatusBinding\<close> under the lock: the id it then clears, if any.\<close>

definition ReleaseWidgetStatusBinding :: "u64 \<Rightarrow> WidgetStatusSlot list \<Rightarrow> string \<times> WidgetStatusSlot list" where
  "ReleaseWidgetStatusBinding key slots =
     (let encodedIndex = unat (ucast key :: u32)
      in if encodedIndex = 0 \<or> encodedIndex > length slots then ([], slots)
         else
           (let slot = slots ! (encodedIndex - 1)
            in if generation slot \<noteq> drop_bit 32 key \<or> ws_bindings slot = 0 then ([], slots)
               else
                 (let slot = slot\<lparr>ws_bindings := ws_bindings slot - 1\<rparr>
                  in (if ws_bindings slot = 0 then ws_id slot else [], slots[encodedIndex - 1 := slot]))))"

text \<open>A report, with its reason if it gives one. The flag says whether the host is asked to draw.\<close>

definition ReportWidgetStatus ::
    "string option \<Rightarrow> u32 \<Rightarrow> u16 list option \<Rightarrow> WidgetStatusSlot list \<Rightarrow> hresult \<times> bool \<times> WidgetStatusSlot list" where
  "ReportWidgetStatus instanceId status text slots =
     (if \<not> RedXeIsValidMachineId instanceId \<or> status > RedXeWidgetStatusUnavailable then (E_INVALIDARG, False, slots)
      else
        (let reason = (case text of Some text \<Rightarrow> take (kMaximumWidgetStatusReasonCharacters - 1) text | None \<Rightarrow> [])
         in case TakeStatusSlot (the instanceId) slots of
              None \<Rightarrow> (HRESULT_FROM_WIN32 68, False, slots)
            | Some (i, slots) \<Rightarrow>
                (let state = statusAndGeneration (slots ! i)
                 in (S_OK, (ucast state :: u32) \<noteq> status \<or> ws_reason (slots ! i) \<noteq> reason,
                     slots[i := (slots ! i)\<lparr>statusAndGeneration := high_half state OR ucast status, ws_reason := reason\<rparr>]))))"

definition WidgetStatus :: "string option \<Rightarrow> WidgetStatusSlot list \<Rightarrow> u32" where
  "WidgetStatus instanceId slots =
     (case instanceId of
        None \<Rightarrow> RedXeWidgetStatusOk
      | Some text \<Rightarrow>
          if text = [] then RedXeWidgetStatusOk
          else (case slot_of text slots of
                  None \<Rightarrow> RedXeWidgetStatusOk
                | Some i \<Rightarrow> ucast (statusAndGeneration (slots ! i))))"

text \<open>The reason the caller's buffer of \<open>capacity\<close> characters receives, when there is one that fits.\<close>

definition WidgetStatusReason :: "string option \<Rightarrow> nat \<Rightarrow> WidgetStatusSlot list \<Rightarrow> u16 list option" where
  "WidgetStatusReason instanceId capacity slots =
     (case instanceId of
        None \<Rightarrow> None
      | Some text \<Rightarrow>
          if text = [] \<or> capacity = 0 then None
          else (case slot_of text slots of
                  None \<Rightarrow> None
                | Some i \<Rightarrow> if ws_reason (slots ! i) \<noteq> [] then Some (take (capacity - 1) (ws_reason (slots ! i))) else None))"

text \<open>The table's part of \<open>ClearWidgetStatus\<close>.\<close>

definition ClearWidgetStatus :: "string \<Rightarrow> WidgetStatusSlot list \<Rightarrow> WidgetStatusSlot list" where
  "ClearWidgetStatus instanceId slots =
     (if instanceId = [] then slots
      else (case slot_of instanceId slots of
              None \<Rightarrow> slots
            | Some i \<Rightarrow> if ws_bindings (slots ! i) \<noteq> 0 then slots else slots[i := ResetWidgetStatusSlot (slots ! i)]))"

text \<open>What \<open>Shutdown\<close> does to the table.\<close>

definition ShutdownStatus :: "WidgetStatusSlot list \<Rightarrow> WidgetStatusSlot list" where
  "ShutdownStatus slots = map ResetWidgetStatusSlot slots"

section \<open>Calls in any order\<close>

text \<open>
  Each call is one step, since it works under the lock; giving a binding up is two, with other calls between them. The
  state has the bindings that widgets hold, each with the id it was made for, and the ids still to be cleared; the bindings
  that were held when \<open>Shutdown\<close> reset the table are the stale ones.
\<close>

record status_host =
  sh_slots :: "WidgetStatusSlot list"
  sh_held :: "(u64 \<times> string) list"
  sh_stale :: "(u64 \<times> string) list"
  sh_clearing :: "string list"

definition status_host_init :: status_host where
  "status_host_init = \<lparr>sh_slots = replicate kMaximumWidgetStatusSlots WidgetStatusSlot_init, sh_held = [], sh_stale = [],
     sh_clearing = []\<rparr>"

datatype status_call = Binds bool "string option" | Unbinds "u64 \<times> string" | Clears nat | ClearsId string
  | Reports "string option" u32 "u16 list option" | ShutsTable

fun status_step :: "status_call \<Rightarrow> status_host \<Rightarrow> status_host option" where
  "status_step (Binds shutdown instanceId) h =
     (let (result, key, slots) = BindWidgetStatus shutdown instanceId (sh_slots h)
      in Some (h\<lparr>sh_slots := slots, sh_held := (case key of Some k \<Rightarrow> (k, the instanceId) # sh_held h | None \<Rightarrow> sh_held h)\<rparr>))"
| "status_step (Unbinds held) h =
     (if held \<notin> set (sh_held h) \<union> set (sh_stale h) then None
      else
        (let (released, slots) = ReleaseWidgetStatusBinding (fst held) (sh_slots h)
         in Some (h\<lparr>sh_slots := slots, sh_held := remove1 held (sh_held h),
                sh_stale := remove1 held (sh_stale h),
                sh_clearing := (if released \<noteq> [] then released # sh_clearing h else sh_clearing h)\<rparr>)))"
| "status_step (Clears n) h =
     (if n \<ge> length (sh_clearing h) then None
      else Some (h\<lparr>sh_slots := ClearWidgetStatus (sh_clearing h ! n) (sh_slots h),
             sh_clearing := take n (sh_clearing h) @ drop (Suc n) (sh_clearing h)\<rparr>))"
| "status_step (ClearsId instanceId) h = Some (h\<lparr>sh_slots := ClearWidgetStatus instanceId (sh_slots h)\<rparr>)"
| "status_step (Reports instanceId status text) h =
     (let (result, changed, slots) = ReportWidgetStatus instanceId status text (sh_slots h) in Some (h\<lparr>sh_slots := slots\<rparr>))"
| "status_step ShutsTable h =
     Some (h\<lparr>sh_slots := ShutdownStatus (sh_slots h), sh_held := [], sh_stale := sh_held h @ sh_stale h\<rparr>)"

section \<open>Keys\<close>

lemma bit_high: "bit (0xFFFFFFFF00000000 :: u64) i \<longleftrightarrow> 32 \<le> i \<and> i < 64"
proof -
  have "(0xFFFFFFFF00000000 :: u64) = push_bit 32 (mask 32)" by (simp add: mask_eq_exp_minus_1)
  then show ?thesis by (simp only: bit_push_bit_iff bit_mask_iff possible_bit_word) auto
qed

lemma bit_high_half: "bit (high_half s) i \<longleftrightarrow> bit s i \<and> 32 \<le> i"
  using bit_imp_le_length [of s i] unfolding high_half_def bit_and_iff bit_high by auto

lemma high_half_parts:
  "drop_bit 32 (high_half s OR ucast n) = drop_bit 32 s" "(ucast (high_half s OR ucast n) :: u32) = n" for n :: u32
proof -
  have n: "bit n i \<Longrightarrow> i < 32" for i using bit_imp_le_length [of n i] by simp
  show "drop_bit 32 (high_half s OR ucast n) = drop_bit 32 s"
    by (rule bit_word_eqI) (auto simp: bit_drop_bit_eq bit_or_iff bit_high_half bit_ucast_iff dest: n)
  show "(ucast (high_half s OR ucast n) :: u32) = n"
    by (rule bit_word_eqI) (auto simp: bit_or_iff bit_high_half bit_ucast_iff)
qed


section \<open>The invariant\<close>








lemma slot_of_Some:
  "slot_of instanceId slots = Some i \<Longrightarrow>
   i < length slots \<and> ws_used (slots ! i) \<and> equals_ignore_case (ws_id (slots ! i)) instanceId"
  by (auto simp: slot_of_def find_Some_iff)

lemma slot_of_None:
  "slot_of instanceId slots = None \<longleftrightarrow>
   (\<forall>i < length slots. ws_used (slots ! i) \<longrightarrow> \<not> equals_ignore_case (ws_id (slots ! i)) instanceId)"
  by (auto simp: slot_of_def find_None_iff)

lemma free_slot_Some: "free_slot slots = Some i \<Longrightarrow> i < length slots \<and> \<not> ws_used (slots ! i)"
  by (auto simp: free_slot_def find_Some_iff)









definition reported :: "u32 \<Rightarrow> u16 list \<Rightarrow> WidgetStatusSlot \<Rightarrow> WidgetStatusSlot" where
  "reported status reason slot = slot\<lparr>statusAndGeneration := high_half (statusAndGeneration slot) OR ucast status, ws_reason := reason\<rparr>"

lemma reported_simps [simp]:
  "generation (reported status reason slot) = generation slot" "ws_used (reported status reason slot) = ws_used slot"
  "ws_id (reported status reason slot) = ws_id slot" "ws_bindings (reported status reason slot) = ws_bindings slot"
  "ucast (statusAndGeneration (reported status reason slot)) = status"
  by (simp_all add: reported_def generation_def high_half_parts del: drop_bit_or)







section \<open>Generations\<close>




lemma high_word:
  fixes m :: u64
  assumes "m \<le> 0xFFFFFFFF"
  shows "drop_bit 32 (push_bit 32 m) = m" "(ucast (push_bit 32 m) :: u32) = 0"
proof -
  have "unat m < 2 ^ 32" using assms by (simp add: word_le_nat_alt)
  then have "take_bit 32 (unat m) = unat m" by (rule take_bit_nat_eq_self)
  moreover have "unat (take_bit 32 m) = take_bit 32 (unat m)" by (rule unsigned_take_bit_eq)
  ultimately have "unat (take_bit 32 m) = unat m" by simp
  then have small: "take_bit 32 m = m" by (simp add: word_unat_eq_iff)
  have "bit m i \<Longrightarrow> i < 32" for i using small by (metis bit_take_bit_iff)
  then show "drop_bit 32 (push_bit 32 m) = m"
    by (intro bit_word_eqI) (auto simp: bit_drop_bit_eq bit_push_bit_iff possible_bit_word)
  show "(ucast (push_bit 32 m) :: u32) = 0"
    by (rule bit_word_eqI) (auto simp: bit_ucast_iff bit_push_bit_iff)
qed

lemma ResetWidgetStatusSlot_simps [simp]:
  "generation (ResetWidgetStatusSlot slot) = min (generation slot + 1) 0xFFFFFFFF"
  "(ucast (statusAndGeneration (ResetWidgetStatusSlot slot)) :: u32) = RedXeWidgetStatusOk"
  "\<not> ws_used (ResetWidgetStatusSlot slot)" "ws_bindings (ResetWidgetStatusSlot slot) = 0" "ws_id (ResetWidgetStatusSlot slot) = []"
proof -
  have word: "statusAndGeneration (ResetWidgetStatusSlot slot) = push_bit 32 (min (generation slot + 1) 0xFFFFFFFF)"
    by (simp add: ResetWidgetStatusSlot_def RedXeWidgetStatusOk_def)
  show "generation (ResetWidgetStatusSlot slot) = min (generation slot + 1) 0xFFFFFFFF"
    unfolding generation_def [of "ResetWidgetStatusSlot slot"] word by (rule high_word) simp
  show "(ucast (statusAndGeneration (ResetWidgetStatusSlot slot)) :: u32) = RedXeWidgetStatusOk"
    unfolding word RedXeWidgetStatusOk_def by (rule high_word) simp
qed (simp_all add: ResetWidgetStatusSlot_def)

























section \<open>What a binding reads\<close>
















section \<open>An id that is too long\<close>

definition used_entries :: "WidgetStatusSlot list \<Rightarrow> nat" where
  "used_entries slots = length (filter ws_used slots)"

definition ids_short :: "WidgetStatusSlot list \<Rightarrow> bool" where
  "ids_short slots \<longleftrightarrow> (\<forall>slot \<in> set slots. length (ws_id slot) < 128)"

lemma ids_short_update: "ids_short slots \<Longrightarrow> length (ws_id s) < 128 \<Longrightarrow> ids_short (slots[i := s])"
  unfolding ids_short_def using set_update_subset_insert [of slots i s] by auto

lemma ids_short_keep: "ids_short slots \<Longrightarrow> i < length slots \<Longrightarrow> length (ws_id (slots ! i)) < 128"
  by (simp add: ids_short_def)

lemma Take_short: "ids_short slots \<Longrightarrow> TakeStatusSlot s slots = Some (i, slots') \<Longrightarrow> ids_short slots' \<and> i < length slots'"
  using slot_of_Some [of s slots i] free_slot_Some [of slots i]
  by (auto simp: TakeStatusSlot_def kMaximumWidgetStatusIdBytes_def split: option.splits intro!: ids_short_update)

lemma status_step_short:
  assumes "ids_short (sh_slots h)" "status_step call h = Some h'"
  shows "ids_short (sh_slots h')"
proof -
  have clear: "ids_short (ClearWidgetStatus s slots)" if "ids_short slots" for s slots
    using that by (auto simp: ClearWidgetStatus_def ResetWidgetStatusSlot_def split: option.split intro!: ids_short_update)
  show ?thesis
  proof (cases call)
    case (Binds shutdown s)
    then show ?thesis using assms
      by (auto simp: BindWidgetStatus_def split: if_splits option.splits prod.splits
          dest!: Take_short [OF assms(1)] intro!: ids_short_update simp: ids_short_keep)
  next
    case (Unbinds held)
    then show ?thesis using assms
      by (auto simp: ReleaseWidgetStatusBinding_def Let_def split: if_splits prod.splits intro!: ids_short_update simp: ids_short_keep)
  next
    case (Reports s status reason)
    then show ?thesis using assms
      by (auto simp: ReportWidgetStatus_def Let_def split: if_splits option.splits prod.splits
          dest!: Take_short [OF assms(1)] intro!: ids_short_update simp: ids_short_keep)
  qed (use assms clear in \<open>auto simp: ids_short_def ShutdownStatus_def split: if_splits\<close>)
qed

lemma status_reaches_short: "reaches status_step status_host_init h \<Longrightarrow> ids_short (sh_slots h)"
proof (induction rule: reaches.induct)
  case (reaches_step h call h')
  then show ?case using status_step_short by blast
qed (simp add: ids_short_def status_host_init_def WidgetStatusSlot_init_def)

lemma slot_of_long:
  assumes "ids_short slots" "length s = 128"
  shows "slot_of s slots = None"
proof -
  have "\<not> equals_ignore_case (ws_id (slots ! i)) s" if "i < length slots" for i
    using ids_short_keep [OF assms(1) that] assms(2) unfolding equals_ignore_case_iff by (metis length_map less_irrefl)
  then show ?thesis by (simp add: slot_of_None)
qed

lemma used_entries_take:
  assumes "i < length slots" "\<not> ws_used (slots ! i)" "ws_used s"
  shows "used_entries (slots[i := s]) = used_entries slots + 1"
  using assms unfolding used_entries_def by (induction slots arbitrary: i) (auto split: nat.splits simp: nth_Cons)

lemma unlisted_reads_ok: "slot_of s slots = None \<Longrightarrow> WidgetStatus (Some s) slots = RedXeWidgetStatusOk"
  by (simp add: WidgetStatus_def)

text \<open>C39: An id of 128 characters, which RedXeIsValidMachineId allows, does not fit its entry. Whatever was called before, its
  report is accepted whenever an entry is free, and takes a new entry, which then holds the status under the first 127
  characters; with no free entry it is refused with \<open>ERROR_TOO_MANY_NAMES\<close>, however often the same widget has reported
  before. A lookup by the widget's id never finds an entry: it reads Ok before and after the report.\<close>

theorem long_id_report_is_lost:
  assumes "reaches status_step status_host_init h"
      and "RedXeIsValidMachineId (Some s)" "length s = 128" "status \<le> RedXeWidgetStatusUnavailable"
  shows "WidgetStatus (Some s) (sh_slots h) = RedXeWidgetStatusOk \<and>
    (case free_slot (sh_slots h) of
       None \<Rightarrow> ReportWidgetStatus (Some s) status reason (sh_slots h) = (HRESULT_FROM_WIN32 68, False, sh_slots h)
     | Some i \<Rightarrow>
         \<exists>changed slots. ReportWidgetStatus (Some s) status reason (sh_slots h) = (S_OK, changed, slots) \<and>
           used_entries slots = used_entries (sh_slots h) + 1 \<and> ws_used (slots ! i) \<and> ws_id (slots ! i) = take 127 s \<and>
           ucast (statusAndGeneration (slots ! i)) = status \<and> WidgetStatus (Some s) slots = RedXeWidgetStatusOk)"
proof -
  have short: "ids_short (sh_slots h)" by (rule status_reaches_short [OF assms(1)])
  note none = slot_of_long [OF short assms(3)]
  have valid: "\<not> status > RedXeWidgetStatusUnavailable" using assms(4) by simp
  show ?thesis
  proof (cases "free_slot (sh_slots h)")
    case None
    then show ?thesis using none assms(2) valid by (simp add: unlisted_reads_ok ReportWidgetStatus_def TakeStatusSlot_def)
  next
    case (Some i)
    obtain result changed slots where run: "ReportWidgetStatus (Some s) status reason (sh_slots h) = (result, changed, slots)"
      by (rule prod_cases3)
    define new where "new = (ResetWidgetStatusSlot (sh_slots h ! i))\<lparr>ws_used := True, ws_id := take 127 s\<rparr>"
    have take: "TakeStatusSlot s (sh_slots h) = Some (i, (sh_slots h)[i := new])"
      using none Some by (simp add: TakeStatusSlot_def new_def kMaximumWidgetStatusIdBytes_def)
    have i: "i < length (sh_slots h)" "\<not> ws_used (sh_slots h ! i)" using free_slot_Some [OF Some] by simp_all
    obtain shown where slots: "result = S_OK" "slots = (sh_slots h)[i := reported status shown new]"
      using run assms(2) valid take i(1) by (auto simp: ReportWidgetStatus_def reported_def Let_def)
    have new: "ws_used new" "ws_id new = take 127 s" by (simp_all add: new_def)
    have "ids_short slots" unfolding slots(2) by (rule ids_short_update [OF short]) (simp add: new)
    then have "WidgetStatus (Some s) slots = RedXeWidgetStatusOk"
      using slot_of_long [of slots s] assms(3) by (simp add: unlisted_reads_ok)
    moreover have "used_entries slots = used_entries (sh_slots h) + 1"
      unfolding slots(2) by (rule used_entries_take [OF i]) (simp add: new)
    ultimately show ?thesis using Some run slots i(1) none by (simp add: unlisted_reads_ok new)
  qed
qed

definition long_id :: string where
  "long_id = replicate 128 CHR ''a''"

theorem long_id_report_is_lost_witness:
  "\<exists>changed slots. ReportWidgetStatus (Some long_id) 3 None (sh_slots status_host_init) = (S_OK, changed, slots) \<and>
     ws_id (slots ! 0) = take 127 long_id \<and> WidgetStatus (Some long_id) slots = RedXeWidgetStatusOk"
proof -
  have "RedXeIsValidMachineId (Some long_id)" "length long_id = 128" "(3 :: u32) \<le> RedXeWidgetStatusUnavailable"
    "free_slot (sh_slots status_host_init) = Some 0" by code_simp+
  then show ?thesis using long_id_report_is_lost [OF reaches_start, of long_id 3 None] by auto
qed

end
