(* ===== verification/Action_Queue.thy ===== *)
theory Action_Queue
  imports Work_Lane Action_Targets
begin

text \<open>
  The queue of host actions of \<open>RedXe/PluginHost.cpp\<close>: any thread requests an action, which the UI thread performs when it
  drains the queue. A message tells the UI thread to drain; at most one is on its way, which \<open>_pendingHostActionPost\<close>
  records. Texts are C strings, a null pointer is \<open>None\<close>.
\<close>

section \<open>Requests\<close>

definition kHostActionRingSlots :: nat where "kHostActionRingSlots = 16"
definition kMaximumQueuedInputAgeMilliseconds :: u64 where "kMaximumQueuedInputAgeMilliseconds = 1000"

definition lower_letter :: "char \<Rightarrow> bool" where
  "lower_letter ch \<longleftrightarrow> of_char CHR ''a'' \<le> (of_char ch :: nat) \<and> (of_char ch :: nat) \<le> of_char CHR ''z''"

definition name_character :: "char \<Rightarrow> bool" where
  "name_character ch \<longleftrightarrow> lower_letter ch \<or>
     (of_char CHR ''A'' \<le> (of_char ch :: nat) \<and> (of_char ch :: nat) \<le> of_char CHR ''Z'') \<or>
     (of_char CHR ''0'' \<le> (of_char ch :: nat) \<and> (of_char ch :: nat) \<le> of_char CHR ''9'')"

fun action_name_loop :: "nat \<Rightarrow> nat \<Rightarrow> bool \<Rightarrow> string \<Rightarrow> bool" where
  "action_name_loop len segments segmentStart [] \<longleftrightarrow> segments \<ge> 2 \<and> \<not> segmentStart"
| "action_name_loop len segments segmentStart (c # rest) =
     (if len \<ge> kRedXeMaximumActionNameBytes then False
      else if c = CHR ''.'' then
        (if segmentStart \<or> segments \<ge> 4 then False else action_name_loop (len + 1) (segments + 1) True rest)
      else if segmentStart then (if \<not> lower_letter c then False else action_name_loop (len + 1) segments False rest)
      else if \<not> name_character c then False
      else action_name_loop (len + 1) segments segmentStart rest)"

definition RedXeIsActionNameSyntax :: "string option \<Rightarrow> bool" where
  "RedXeIsActionNameSyntax value =
     (case value of
        None \<Rightarrow> False
      | Some name \<Rightarrow> if name = [] \<or> \<not> lower_letter (hd name) then False else action_name_loop 0 1 False name)"

text \<open>\<open>rq_size\<close> is whether the size member has its value.\<close>

record ActionRequest =
  rq_size :: bool
  rq_action :: "string option"
  rq_target :: "string option"

definition CheckActionRequest :: "ActionRequest option \<Rightarrow> hresult" where
  "CheckActionRequest request =
     (case request of
        None \<Rightarrow> E_POINTER
      | Some r \<Rightarrow>
          if \<not> rq_size r \<or> rq_action r = None \<or> \<not> RedXeIsActionNameSyntax (rq_action r) then E_INVALIDARG
          else (case rq_target r of
                  Some target \<Rightarrow> if length target > kRedXeMaximumActionTargetBytes then E_INVALIDARG else S_OK
                | None \<Rightarrow> S_OK))"

definition target_of :: "ActionRequest \<Rightarrow> string" where
  "target_of r = (case rq_target r of Some target \<Rightarrow> target | None \<Rightarrow> [])"

definition NamespaceOf :: "string \<Rightarrow> string" where
  "NamespaceOf name = (if CHR ''.'' \<in> set name then takeWhile (\<lambda>c. c \<noteq> CHR ''.'') name else [])"

definition kDefaultNamespaces :: "string list" where
  "kDefaultNamespaces = [''page'', ''widget'', ''redxe'', ''system'', ''keys'', ''mouse'']"

definition kRedXeBundledActionNamespaces :: "string list" where
  "kRedXeBundledActionNamespaces = [''logicon'', ''zoom'']"

definition IsDefaultNamespace :: "string \<Rightarrow> bool" where
  "IsDefaultNamespace space \<longleftrightarrow> list_ex (\<lambda>name. space = name) kDefaultNamespaces"

definition IsRegisteredNamespace :: "string \<Rightarrow> bool" where
  "IsRegisteredNamespace space \<longleftrightarrow> list_ex (\<lambda>name. space = name) kRedXeBundledActionNamespaces"

section \<open>The queue\<close>

record HostActionSlot =
  ha_action :: string
  ha_target :: string
  ha_queued :: u64
  ha_used :: bool

definition HostActionSlot_init :: HostActionSlot where
  "HostActionSlot_init = \<lparr>ha_action = [], ha_target = [], ha_queued = 0, ha_used = False\<rparr>"

record ActionQueue =
  hostActions :: "HostActionSlot list"
  hostActionHead :: nat
  hostActionCount :: nat
  pendingHostActionPost :: bool

definition ActionQueue_init :: ActionQueue where
  "ActionQueue_init = \<lparr>hostActions = replicate kHostActionRingSlots HostActionSlot_init, hostActionHead = 0, hostActionCount = 0,
     pendingHostActionPost = False\<rparr>"

definition action_index :: "ActionQueue \<Rightarrow> nat \<Rightarrow> nat" where
  "action_index q offset = (hostActionHead q + offset) mod kHostActionRingSlots"

text \<open>The loop of \<open>RequestAction\<close> over the pending entries.\<close>

definition find_pending :: "ActionQueue \<Rightarrow> string \<Rightarrow> string \<Rightarrow> nat option" where
  "find_pending q action target =
     find (\<lambda>offset. ha_used (hostActions q ! action_index q offset) \<and> ha_action (hostActions q ! action_index q offset) = action \<and>
         ha_target (hostActions q ! action_index q offset) = target)
       [0..<hostActionCount q]"

text \<open>\<open>RequestAction\<close> up to the end of its lock; the flag says that \<open>RequestHostActionDrain\<close> is called next.\<close>

definition RequestAction :: "bool \<Rightarrow> ActionRequest option \<Rightarrow> u64 \<Rightarrow> ActionQueue \<Rightarrow> hresult \<times> bool \<times> ActionQueue" where
  "RequestAction shutdown request now q =
     (let checked = CheckActionRequest request
      in if FAILED checked then (checked, False, q)
         else
           (let r = the request; action = the (rq_action r); target = target_of r; space = NamespaceOf action
            in if \<not> IsDefaultNamespace space \<and> \<not> IsRegisteredNamespace space then (E_INVALIDARG, False, q)
               else if shutdown then (E_UNEXPECTED, False, q)
               else
                 (case find_pending q action target of
                    Some offset \<Rightarrow>
                      (S_FALSE, False, q\<lparr>hostActions := (hostActions q)[action_index q offset :=
                         (hostActions q ! action_index q offset)\<lparr>ha_queued := now\<rparr>]\<rparr>)
                  | None \<Rightarrow>
                      if hostActionCount q \<ge> kHostActionRingSlots then (HRESULT_FROM_WIN32 170, False, q)
                      else
                        (S_OK, True, q\<lparr>hostActions := (hostActions q)[action_index q (hostActionCount q) :=
                           \<lparr>ha_action = action, ha_target = target, ha_queued = now, ha_used = True\<rparr>],
                           hostActionCount := hostActionCount q + 1\<rparr>))))"

text \<open>
  \<open>IsExpiredInput\<close>: \<open>tracked\<close> is what \<open>HostActions::ReleasesTrackedHold\<close> answers, and \<open>injects\<close> whether the action's
  descriptor is found and injects input.
\<close>

definition IsExpiredInput :: "HostActionSlot \<Rightarrow> u64 \<Rightarrow> bool \<Rightarrow> bool \<Rightarrow> bool" where
  "IsExpiredInput slot now tracked injects =
     (if now - ha_queued slot \<le> kMaximumQueuedInputAgeMilliseconds then False else if tracked then False else injects)"

text \<open>One turn of the loop of \<open>DrainHostActions\<close>: the entry that is taken, or none.\<close>

definition DrainTake :: "ActionQueue \<Rightarrow> HostActionSlot option \<times> ActionQueue" where
  "DrainTake q =
     (if hostActionCount q = 0 then (None, q)
      else
        (Some (hostActions q ! hostActionHead q),
         q\<lparr>hostActions := (hostActions q)[hostActionHead q := HostActionSlot_init],
           hostActionHead := (hostActionHead q + 1) mod kHostActionRingSlots, hostActionCount := hostActionCount q - 1\<rparr>))"

text \<open>The waiting entries, in order.\<close>

definition pending_slots :: "ActionQueue \<Rightarrow> HostActionSlot list" where
  "pending_slots q = take (hostActionCount q) (rotate (hostActionHead q) (hostActions q))"

section \<open>Threads\<close>

text \<open>
  Beside the queue: whether the host has a window or is shut down, the drain messages in the window's queue, the threads in
  \<open>RequestHostActionDrain\<close> before its exchange and before its \<open>PostMessageW\<close>, and the drains in progress (a performed
  action may dispatch messages and so nest another). \<open>hs_unposted\<close> records that a message could not be posted, and
  \<open>hs_taken\<close> what became of the requests that have left the queue. \<open>Shutdown\<close> clears the queue and sets its flag in two
  steps, or sets the flag only, when a worker does not end and the runtime is retained.
\<close>

datatype request_fate = RequestPerformed | RequestExpired | RequestDropped

definition ClearActions :: "ActionQueue \<Rightarrow> ActionQueue" where
  "ClearActions q =
     q\<lparr>hostActions := map (\<lambda>_. HostActionSlot_init) (hostActions q), hostActionHead := 0, hostActionCount := 0,
       pendingHostActionPost := False\<rparr>"

record host_state =
  hs_queue :: ActionQueue
  hs_window :: bool
  hs_shutdown :: bool
  hs_posted :: nat
  hs_notifying :: nat
  hs_posting :: nat
  hs_draining :: nat
  hs_unposted :: bool
  hs_accepted :: "(string \<times> string) list"
  hs_taken :: "(string \<times> string \<times> request_fate) list"
  hs_cleared :: bool

definition host_state_init :: host_state where
  "host_state_init = \<lparr>hs_queue = ActionQueue_init, hs_window = False, hs_shutdown = False, hs_posted = 0, hs_notifying = 0,
     hs_posting = 0, hs_draining = 0, hs_unposted = False, hs_accepted = [], hs_taken = [], hs_cleared = False\<rparr>"

datatype host_call = Requests "ActionRequest option" u64 | LaunchFinished | Exchanges | Posts bool | DrainBegins
  | DrainTurns u64 bool bool | SetsWindow bool | ClearsActions | ShutsDown

definition asked :: "ActionRequest option \<Rightarrow> string \<times> string" where
  "asked request = (the (rq_action (the request)), target_of (the request))"

fun host_step :: "host_call \<Rightarrow> host_state \<Rightarrow> host_state option" where
  "host_step (Requests request now) s =
     (let (result, notify, q) = RequestAction (hs_shutdown s) request now (hs_queue s)
      in Some (s\<lparr>hs_queue := q, hs_notifying := hs_notifying s + (if notify then 1 else 0),
             hs_accepted := (if result = S_OK then hs_accepted s @ [asked request] else hs_accepted s)\<rparr>))"
| "host_step LaunchFinished s = Some (s\<lparr>hs_notifying := hs_notifying s + 1\<rparr>)"
| "host_step Exchanges s =
     (if hs_notifying s = 0 then None
      else
        (let s = s\<lparr>hs_notifying := hs_notifying s - 1\<rparr>
         in if \<not> hs_window s then Some (s\<lparr>hs_unposted := True\<rparr>)
            else if pendingHostActionPost (hs_queue s) then Some s
            else Some (s\<lparr>hs_queue := (hs_queue s)\<lparr>pendingHostActionPost := True\<rparr>, hs_posting := hs_posting s + 1\<rparr>)))"
| "host_step (Posts ok) s =
     (if hs_posting s = 0 then None
      else
        (let s = s\<lparr>hs_posting := hs_posting s - 1\<rparr>
         in if ok then Some (s\<lparr>hs_posted := hs_posted s + 1\<rparr>)
            else Some (s\<lparr>hs_queue := (hs_queue s)\<lparr>pendingHostActionPost := False\<rparr>, hs_unposted := True\<rparr>)))"
| "host_step DrainBegins s =
     (if hs_posted s = 0 then None
      else Some (s\<lparr>hs_posted := hs_posted s - 1, hs_queue := (hs_queue s)\<lparr>pendingHostActionPost := False\<rparr>,
             hs_draining := hs_draining s + 1\<rparr>))"
| "host_step (DrainTurns now tracked injects) s =
     (if hs_draining s = 0 then None
      else
        (case DrainTake (hs_queue s) of
           (None, q) \<Rightarrow> Some (s\<lparr>hs_draining := hs_draining s - 1\<rparr>)
         | (Some slot, q) \<Rightarrow>
             Some (s\<lparr>hs_queue := q,
               hs_taken := (if ha_used slot
                            then hs_taken s @ [(ha_action slot, ha_target slot,
                                    if IsExpiredInput slot now tracked injects then RequestExpired else RequestPerformed)]
                            else hs_taken s)\<rparr>)))"
| "host_step (SetsWindow window) s = Some (s\<lparr>hs_window := window\<rparr>)"
| "host_step ClearsActions s =
     Some (s\<lparr>hs_queue := ClearActions (hs_queue s), hs_cleared := True,
       hs_taken := hs_taken s @ map (\<lambda>slot. (ha_action slot, ha_target slot, RequestDropped)) (pending_slots (hs_queue s))\<rparr>)"
| "host_step ShutsDown s = Some (s\<lparr>hs_shutdown := True\<rparr>)"

section \<open>The ring\<close>

definition slot_request :: "HostActionSlot \<Rightarrow> string \<times> string" where
  "slot_request slot = (ha_action slot, ha_target slot)"

definition queue_ok :: "ActionQueue \<Rightarrow> bool" where
  "queue_ok q \<longleftrightarrow>
     length (hostActions q) = kHostActionRingSlots \<and> hostActionHead q < kHostActionRingSlots \<and>
     hostActionCount q \<le> kHostActionRingSlots \<and> list_all ha_used (pending_slots q) \<and>
     distinct (map slot_request (pending_slots q))"

lemma pending_nth:
  assumes "queue_ok q" "offset < hostActionCount q"
  shows "hostActions q ! action_index q offset = pending_slots q ! offset"
  using assms by (simp add: queue_ok_def pending_slots_def action_index_def nth_rotate)

lemma pending_length: "queue_ok q \<Longrightarrow> length (pending_slots q) = hostActionCount q"
  by (simp add: queue_ok_def pending_slots_def)

lemma pending_update:
  assumes "queue_ok q" "offset < kHostActionRingSlots"
  shows "take n (rotate (hostActionHead q) ((hostActions q)[action_index q offset := slot])) =
    (take n (rotate (hostActionHead q) (hostActions q)))[offset := slot]"
  using assms rotate_update [of offset "hostActions q" "hostActionHead q" slot]
  by (simp add: queue_ok_def action_index_def take_update_swap)


lemma queue_ok_init: "queue_ok ActionQueue_init"
  by (simp add: queue_ok_def ActionQueue_init_def pending_slots_def kHostActionRingSlots_def)

lemma RequestAction_runs:
  assumes "RequestAction shutdown request now q = (result, notify, q')"
  obtains (early) "q' = q" "\<not> notify" "result \<noteq> S_OK"
    | (some) offset where "find_pending q (the (rq_action (the request))) (target_of (the request)) = Some offset"
        "result = S_FALSE" "\<not> notify"
        "q' = q\<lparr>hostActions := (hostActions q)[action_index q offset := (hostActions q ! action_index q offset)\<lparr>ha_queued := now\<rparr>]\<rparr>"
    | (none) "find_pending q (the (rq_action (the request))) (target_of (the request)) = None"
        "hostActionCount q < kHostActionRingSlots" "result = S_OK" notify
        "q' = q\<lparr>hostActions := (hostActions q)[action_index q (hostActionCount q) :=
           \<lparr>ha_action = fst (asked request), ha_target = snd (asked request), ha_queued = now, ha_used = True\<rparr>],
           hostActionCount := hostActionCount q + 1\<rparr>"
proof -
  have refused: "E_INVALIDARG \<noteq> S_OK" "E_UNEXPECTED \<noteq> S_OK" "HRESULT_FROM_WIN32 170 \<noteq> S_OK" "\<not> FAILED S_OK"
    by code_simp+
  show ?thesis
  proof (cases "FAILED (CheckActionRequest request) \<or>
      \<not> IsDefaultNamespace (NamespaceOf (the (rq_action (the request)))) \<and>
      \<not> IsRegisteredNamespace (NamespaceOf (the (rq_action (the request)))) \<or> shutdown")
    case True
    then show ?thesis
      using assms refused
      by (intro early)
        (cases "FAILED (CheckActionRequest request)"; cases "\<not> IsDefaultNamespace (NamespaceOf (the (rq_action (the request)))) \<and>
            \<not> IsRegisteredNamespace (NamespaceOf (the (rq_action (the request))))"; auto simp: RequestAction_def Let_def)+
  next
    case False
    note open_queue = this
    show ?thesis
    proof (cases "find_pending q (the (rq_action (the request))) (target_of (the request))")
      case (Some offset)
      then show ?thesis using assms open_queue by (intro some) (auto simp: RequestAction_def Let_def)
    next
      case None
      show ?thesis
      proof (cases "hostActionCount q < kHostActionRingSlots")
        case True
        then show ?thesis using assms open_queue None by (intro none) (auto simp: RequestAction_def Let_def asked_def)
      next
        case False
        then show ?thesis using assms open_queue None refused by (intro early) (auto simp: RequestAction_def Let_def)
      qed
    qed
  qed
qed

text \<open>What one request does to the pending entries: it replaces the time of an equal one, is added behind them, or changes nothing.\<close>

lemma RequestAction_cases:
  assumes "queue_ok q" "RequestAction shutdown request now q = (result, notify, q')"
  obtains (refused) "q' = q" "\<not> notify" "result \<noteq> S_OK"
  | (coalesced) offset where "result = S_FALSE" "\<not> notify" "offset < hostActionCount q"
      "slot_request (pending_slots q ! offset) = asked request"
      "q' = q\<lparr>hostActions := (hostActions q)[action_index q offset := (pending_slots q ! offset)\<lparr>ha_queued := now\<rparr>]\<rparr>"
  | (queued) "result = S_OK" notify "hostActionCount q < kHostActionRingSlots"
      "asked request \<notin> set (map slot_request (pending_slots q))"
      "q' = q\<lparr>hostActions := (hostActions q)[action_index q (hostActionCount q) :=
           \<lparr>ha_action = fst (asked request), ha_target = snd (asked request), ha_queued = now, ha_used = True\<rparr>],
           hostActionCount := hostActionCount q + 1\<rparr>"
proof -
  let ?found = "find_pending q (the (rq_action (the request))) (target_of (the request))"
  let ?equal = "\<lambda>offset. ha_used (hostActions q ! action_index q offset) \<and>
     ha_action (hostActions q ! action_index q offset) = the (rq_action (the request)) \<and>
     ha_target (hostActions q ! action_index q offset) = target_of (the request)"
  have used: "ha_used (pending_slots q ! offset)" if "offset < hostActionCount q" for offset
    using assms(1) that by (simp add: queue_ok_def list_all_length pending_length [OF assms(1)])
  have equal: "?equal offset \<longleftrightarrow> slot_request (pending_slots q ! offset) = asked request" if "offset < hostActionCount q" for offset
    using used [OF that] by (simp add: pending_nth [OF assms(1) that] slot_request_def asked_def)
  consider (early) "q' = q" "\<not> notify" "result \<noteq> S_OK"
    | (some) offset where "?found = Some offset" "result = S_FALSE" "\<not> notify"
        "q' = q\<lparr>hostActions := (hostActions q)[action_index q offset := (hostActions q ! action_index q offset)\<lparr>ha_queued := now\<rparr>]\<rparr>"
    | (none) "?found = None" "hostActionCount q < kHostActionRingSlots" "result = S_OK" notify
        "q' = q\<lparr>hostActions := (hostActions q)[action_index q (hostActionCount q) :=
           \<lparr>ha_action = fst (asked request), ha_target = snd (asked request), ha_queued = now, ha_used = True\<rparr>],
           hostActionCount := hostActionCount q + 1\<rparr>"
    by (rule RequestAction_runs [OF assms(2)])
  then show ?thesis
  proof cases
    case early
    then show ?thesis by (rule refused)
  next
    case some
    have offset: "offset < hostActionCount q" "?equal offset"
      using some(1) by (auto simp: find_pending_def find_Some_iff)
    show ?thesis
      using some(2-4) offset(1) equal [OF offset(1)] offset(2)
      by (intro coalesced) (simp_all add: pending_nth [OF assms(1)])
  next
    case none
    have "\<not> ?equal offset" if "offset < hostActionCount q" for offset
      using none(1) that by (auto simp: find_pending_def find_None_iff)
    then have "asked request \<notin> set (map slot_request (pending_slots q))"
      using equal pending_length [OF assms(1)] unfolding in_set_conv_nth by (metis length_map nth_map)
    with none(2-5) show ?thesis by (intro queued) auto
  qed
qed

lemma pending_coalesced:
  assumes "queue_ok q" "offset < hostActionCount q"
    and "q' = q\<lparr>hostActions := (hostActions q)[action_index q offset := (pending_slots q ! offset)\<lparr>ha_queued := now\<rparr>]\<rparr>"
  shows "pending_slots q' = (pending_slots q)[offset := (pending_slots q ! offset)\<lparr>ha_queued := now\<rparr>]"
    and "map slot_request (pending_slots q') = map slot_request (pending_slots q)"
    and "queue_ok q'"
proof -
  have small: "offset < kHostActionRingSlots" using assms(1,2) by (simp add: queue_ok_def)
  show slots: "pending_slots q' = (pending_slots q)[offset := (pending_slots q ! offset)\<lparr>ha_queued := now\<rparr>]"
    using assms(3) pending_update [OF assms(1) small] by (simp add: pending_slots_def)
  show same: "map slot_request (pending_slots q') = map slot_request (pending_slots q)"
    using assms(2) pending_length [OF assms(1)]
    by (simp add: slots map_update slot_request_def list_update_same_conv)
  have "list_all ha_used (pending_slots q')"
    using assms(1,2) pending_length [OF assms(1)]
    by (auto simp: slots queue_ok_def list_all_length nth_list_update)
  then show "queue_ok q'"
    using assms(1,3) same unfolding queue_ok_def by simp
qed

lemma pending_queued:
  assumes "queue_ok q" "hostActionCount q < kHostActionRingSlots" "ha_used slot" "slot_request slot \<notin> set (map slot_request (pending_slots q))"
    and "q' = q\<lparr>hostActions := (hostActions q)[action_index q (hostActionCount q) := slot], hostActionCount := hostActionCount q + 1\<rparr>"
  shows "pending_slots q' = pending_slots q @ [slot]" and "queue_ok q'"
proof -
  have long: "hostActionCount q < length (rotate (hostActionHead q) (hostActions q))"
    using assms(1,2) by (simp add: queue_ok_def)
  show slots: "pending_slots q' = pending_slots q @ [slot]"
    using long assms(5) pending_update [OF assms(1,2), of "hostActionCount q + 1" slot]
    by (simp add: pending_slots_def take_Suc_conv_app_nth list_update_append)
  show "queue_ok q'"
    using assms(1-4) assms(5) slots unfolding queue_ok_def by simp
qed

lemma pending_taken:
  assumes "queue_ok q" "DrainTake q = (Some slot, q')"
  shows "pending_slots q = slot # pending_slots q'" and "queue_ok q'" and "ha_used slot"
proof -
  have taken: "hostActionCount q \<noteq> 0" "slot = hostActions q ! hostActionHead q"
    "q' = q\<lparr>hostActions := (hostActions q)[hostActionHead q := HostActionSlot_init],
       hostActionHead := (hostActionHead q + 1) mod kHostActionRingSlots, hostActionCount := hostActionCount q - 1\<rparr>"
    using assms(2) by (auto simp: DrainTake_def split: if_splits)
  have ring: "length (hostActions q) = kHostActionRingSlots" "hostActionHead q < kHostActionRingSlots"
    using assms(1) by (simp_all add: queue_ok_def)
  show slots: "pending_slots q = slot # pending_slots q'"
  proof (rule nth_equalityI)
    have "hostActionCount q \<le> kHostActionRingSlots" using assms(1) by (simp add: queue_ok_def)
    then show "length (pending_slots q) = length (slot # pending_slots q')"
      using ring(1) taken(1,3) by (auto simp: pending_slots_def min_def)
    fix i assume i: "i < length (pending_slots q)"
    show "pending_slots q ! i = (slot # pending_slots q') ! i"
    proof (cases i)
      case 0
      then show ?thesis using i ring taken(2) by (simp add: pending_slots_def nth_rotate)
    next
      case (Suc k)
      have k: "k < hostActionCount q - 1" "k + 1 < kHostActionRingSlots" using i Suc ring(1) by (auto simp: pending_slots_def)
      then have "(hostActionHead q + 1 + k) mod kHostActionRingSlots \<noteq> hostActionHead q"
        using ring(2) by (auto simp: kHostActionRingSlots_def mod_if split: if_splits)
      then show ?thesis
        using i k Suc ring taken(3) by (simp add: pending_slots_def nth_rotate mod_simps nth_list_update ac_simps)
    qed
  qed
  show "ha_used slot" using assms(1) slots by (simp add: queue_ok_def)
  show "queue_ok q'" using assms(1) slots taken(3) unfolding queue_ok_def by (auto simp: kHostActionRingSlots_def)
qed


section \<open>Every interleaving\<close>

definition waiting :: "host_state \<Rightarrow> (string \<times> string) list" where
  "waiting s = map slot_request (pending_slots (hs_queue s))"

definition done_requests :: "host_state \<Rightarrow> (string \<times> string) list" where
  "done_requests s = map (\<lambda>(action, target, fate). (action, target)) (hs_taken s)"

text \<open>The abstract queue: the accepted requests are those that have left the queue and then the waiting ones.\<close>

definition queue_order :: "host_state \<Rightarrow> bool" where
  "queue_order s \<longleftrightarrow> queue_ok (hs_queue s) \<and>
     hs_accepted s = done_requests s @ waiting s \<and>
     (hs_cleared s \<or> list_all (\<lambda>(action, target, fate). fate \<noteq> RequestDropped) (hs_taken s))"

text \<open>A message counts as on its way while a thread is about to post it.\<close>

definition wakes_up :: "host_state \<Rightarrow> bool" where
  "wakes_up s \<longleftrightarrow>
     (pendingHostActionPost (hs_queue s) \<longrightarrow> 0 < hs_posted s + hs_posting s) \<and>
     (hs_unposted s \<or> hostActionCount (hs_queue s) = 0 \<or> 0 < hs_notifying s + hs_posting s + hs_posted s + hs_draining s)"

lemma queue_ok_pending [simp]: "queue_ok (q\<lparr>pendingHostActionPost := flag\<rparr>) \<longleftrightarrow> queue_ok q"
  by (simp add: queue_ok_def pending_slots_def)

lemma pending_slots_pending [simp]: "pending_slots (q\<lparr>pendingHostActionPost := flag\<rparr>) = pending_slots q"
  by (simp add: pending_slots_def)

lemma request_keeps_order:
  assumes "queue_order s" "host_step (Requests request now) s = Some s'"
  shows "queue_order s'"
proof -
  obtain result notify q where run: "RequestAction (hs_shutdown s) request now (hs_queue s) = (result, notify, q)"
    by (metis prod_cases3)
  have s': "hs_queue s' = q" "hs_taken s' = hs_taken s" "hs_cleared s' = hs_cleared s"
    "hs_accepted s' = (if result = S_OK then hs_accepted s @ [asked request] else hs_accepted s)"
    using assms(2) run by auto
  have ok: "queue_ok (hs_queue s)" using assms(1) by (simp add: queue_order_def)
  from ok run show ?thesis
  proof (cases rule: RequestAction_cases)
    case refused
    then show ?thesis using assms(1) s' by (simp add: queue_order_def waiting_def done_requests_def)
  next
    case (coalesced offset)
    then show ?thesis using assms(1) s' pending_coalesced (2,3) [OF ok coalesced(3,5)]
      by (simp add: queue_order_def waiting_def done_requests_def S_OK_def S_FALSE_def)
  next
    case queued
    let ?slot = "\<lparr>ha_action = fst (asked request), ha_target = snd (asked request), ha_queued = now, ha_used = True\<rparr>"
    have slot: "ha_used ?slot" "slot_request ?slot = asked request" by (simp_all add: slot_request_def)
    have fresh: "slot_request ?slot \<notin> set (map slot_request (pending_slots (hs_queue s)))"
      unfolding slot(2) by (rule queued(4))
    show ?thesis using assms(1) s' queued(1) slot(2) pending_queued [OF ok queued(3) slot(1) fresh queued(5)]
      by (simp add: queue_order_def waiting_def done_requests_def)
  qed
qed

lemma turn_keeps_order:
  assumes "queue_order s" "host_step (DrainTurns now tracked injects) s = Some s'"
  shows "queue_order s'"
proof -
  have ok: "queue_ok (hs_queue s)" using assms(1) by (simp add: queue_order_def)
  obtain taken q where run: "DrainTake (hs_queue s) = (taken, q)" by fastforce
  show ?thesis
  proof (cases taken)
    case None
    then show ?thesis using assms run by (auto simp: queue_order_def waiting_def done_requests_def split: if_splits)
  next
    case (Some slot)
    then show ?thesis using assms run pending_taken [OF ok, of slot q]
      by (auto simp: queue_order_def waiting_def done_requests_def slot_request_def split: if_splits)
  qed
qed

lemma cleared_queue: "queue_ok q \<Longrightarrow> queue_ok (ClearActions q) \<and> pending_slots (ClearActions q) = []"
  by (simp add: queue_ok_def pending_slots_def ClearActions_def kHostActionRingSlots_def)

lemma clear_keeps_order:
  assumes "queue_order s" "host_step ClearsActions s = Some s'"
  shows "queue_order s'"
proof -
  have "hs_queue s' = ClearActions (hs_queue s)" "hs_accepted s' = hs_accepted s" "hs_cleared s'"
    "done_requests s' = done_requests s @ waiting s"
    using assms(2) by (auto simp: done_requests_def waiting_def slot_request_def)
  then show ?thesis using assms(1) cleared_queue [of "hs_queue s"] by (simp add: queue_order_def waiting_def)
qed

lemma host_step_order: "queue_order s \<Longrightarrow> host_step call s = Some s' \<Longrightarrow> queue_order s'"
proof (cases call)
  case Requests
  then show "queue_order s \<Longrightarrow> host_step call s = Some s' \<Longrightarrow> queue_order s'" using request_keeps_order by blast
next
  case DrainTurns
  then show "queue_order s \<Longrightarrow> host_step call s = Some s' \<Longrightarrow> queue_order s'" using turn_keeps_order by blast
next
  case ClearsActions
  then show "queue_order s \<Longrightarrow> host_step call s = Some s' \<Longrightarrow> queue_order s'" using clear_keeps_order by blast
qed (auto simp: queue_order_def waiting_def done_requests_def Let_def split: if_splits)

lemma reach_order: "reaches host_step host_state_init s \<Longrightarrow> queue_order s"
proof (induction rule: reaches.induct)
  case reaches_start
  show ?case by (simp add: queue_order_def waiting_def done_requests_def host_state_init_def queue_ok_init)
    (simp add: pending_slots_def ActionQueue_init_def)
next
  case reaches_step
  then show ?case by (auto intro: host_step_order)
qed

lemma request_keeps_waking:
  assumes "queue_ok (hs_queue s)" "wakes_up s" "host_step (Requests request now) s = Some s'"
  shows "wakes_up s'"
proof -
  obtain result notify q where run: "RequestAction (hs_shutdown s) request now (hs_queue s) = (result, notify, q)"
    by (metis prod_cases3)
  from assms(1) run show ?thesis
    by (cases rule: RequestAction_cases) (use assms(2,3) run in \<open>auto simp: wakes_up_def\<close>)
qed

lemma host_step_waking:
  assumes "queue_ok (hs_queue s)" "wakes_up s" "host_step call s = Some s'"
  shows "wakes_up s'"
proof (cases call)
  case Requests
  then show ?thesis using request_keeps_waking assms by blast
next
  case DrainTurns
  then show ?thesis using assms(2,3)
    by (auto simp: wakes_up_def DrainTake_def split: if_splits)
qed (use assms(2,3) in \<open>auto simp: wakes_up_def ClearActions_def Let_def split: if_splits\<close>)

lemma reach_waking: "reaches host_step host_state_init s \<Longrightarrow> wakes_up s"
proof (induction rule: reaches.induct)
  case reaches_start
  show ?case by (simp add: wakes_up_def host_state_init_def ActionQueue_init_def)
next
  case reaches_step
  then show ?case using host_step_waking reach_order by (auto simp: queue_order_def)
qed

section \<open>A drain\<close>

lemma empty_turn:
  assumes "queue_order s" "waiting s = []" "0 < hs_draining s"
  shows "host_step (DrainTurns now tracked injects) s = Some (s\<lparr>hs_draining := hs_draining s - 1\<rparr>)"
proof -
  have "hostActionCount (hs_queue s) = 0"
    using assms(1,2) pending_length [of "hs_queue s"] by (auto simp: queue_order_def waiting_def)
  then show ?thesis using assms(3) by (simp add: DrainTake_def)
qed

lemma taking_turn:
  assumes "queue_order s" "waiting s = request # rest" "0 < hs_draining s"
  obtains s' performed where "host_step (DrainTurns now tracked injects) s = Some s'" "waiting s' = rest"
    "hs_taken s' = hs_taken s @ [(fst request, snd request, performed)]" "hs_draining s' = hs_draining s" "queue_order s'"
    "performed \<noteq> RequestDropped" "hs_accepted s' = hs_accepted s"
proof -
  have ok: "queue_ok (hs_queue s)" using assms(1) by (simp add: queue_order_def)
  have "hostActionCount (hs_queue s) \<noteq> 0"
    using assms(2) pending_length [OF ok] by (auto simp: waiting_def)
  then obtain slot q where run: "DrainTake (hs_queue s) = (Some slot, q)" by (simp add: DrainTake_def)
  note taken = pending_taken [OF ok run]
  let ?s = "s\<lparr>hs_queue := q, hs_taken := hs_taken s @ [(ha_action slot, ha_target slot,
      if IsExpiredInput slot now tracked injects then RequestExpired else RequestPerformed)]\<rparr>"
  have step: "host_step (DrainTurns now tracked injects) s = Some ?s" using assms(3) run taken(3) by simp
  show ?thesis
  proof (rule that [OF step])
    show "waiting ?s = rest" using assms(2) taken(1) by (simp add: waiting_def)
    show "hs_taken ?s = hs_taken s @ [(fst request, snd request,
        if IsExpiredInput slot now tracked injects then RequestExpired else RequestPerformed)]"
      using assms(2) taken(1) by (auto simp: waiting_def slot_request_def)
    show "hs_draining ?s = hs_draining s" by simp
    show "queue_order ?s" by (rule turn_keeps_order [OF assms(1) step])
    show "hs_accepted ?s = hs_accepted s" by simp
    show "(if IsExpiredInput slot now tracked injects then RequestExpired else RequestPerformed) \<noteq> RequestDropped" by simp
  qed
qed

lemma pending_slot_found:
  assumes "queue_ok q" "request \<in> set (map slot_request (pending_slots q))"
  shows "find_pending q (fst request) (snd request) \<noteq> None"
proof -
  obtain offset where offset: "offset < hostActionCount q" "slot_request (pending_slots q ! offset) = request"
    using assms(2) pending_length [OF assms(1)] unfolding in_set_conv_nth by (metis length_map nth_map)
  moreover have "ha_used (pending_slots q ! offset)"
    using assms(1) offset(1) pending_length [OF assms(1)] by (simp add: queue_ok_def list_all_length)
  ultimately show ?thesis
    using pending_nth [OF assms(1) offset(1)]
    by (auto simp: find_pending_def find_None_iff slot_request_def intro!: exI [of _ offset])
qed

text \<open>The requests that leave the queue from one state to a later one, none of them dropped by a shutdown.\<close>

definition drained :: "(string \<times> string) list \<Rightarrow> host_state \<Rightarrow> host_state \<Rightarrow> bool" where
  "drained requests s s' \<longleftrightarrow>
     (\<exists>fates. length fates = length requests \<and> RequestDropped \<notin> set fates \<and>
        hs_taken s' = hs_taken s @ map2 (\<lambda>(action, target) fate. (action, target, fate)) requests fates)"

lemma drained_nil: "drained [] s s' \<longleftrightarrow> hs_taken s' = hs_taken s"
  by (simp add: drained_def)

lemma drained_cons:
  assumes "hs_taken s1 = hs_taken s @ [(fst request, snd request, fate)]" "fate \<noteq> RequestDropped" "drained rest s1 s'"
  shows "drained (request # rest) s s'"
proof -
  obtain fates where "length fates = length rest" "RequestDropped \<notin> set fates"
    "hs_taken s' = hs_taken s1 @ map2 (\<lambda>(action, target) fate. (action, target, fate)) rest fates"
    using assms(3) by (auto simp: drained_def)
  then show ?thesis using assms(1,2) unfolding drained_def
    by (intro exI [of _ "fate # fates"]) (auto simp: split_beta)
qed

lemma drain_turns:
  assumes "queue_order s" "0 < hs_draining s" "length ticks = length (waiting s) + 1"
  shows "\<exists>s'. run_events host_step s (map (\<lambda>(now, tracked, injects). DrainTurns now tracked injects) ticks) = Some s' \<and>
     waiting s' = [] \<and> hs_draining s' = hs_draining s - 1 \<and> drained (waiting s) s s' \<and> hs_accepted s' = hs_accepted s \<and> queue_order s'"
  using assms
proof (induction ticks arbitrary: s)
  case Nil
  then show ?case by simp
next
  case (Cons tick ticks)
  obtain now tracked injects where tick: "tick = (now, tracked, injects)" by (cases tick)
  show ?case
  proof (cases "waiting s")
    case Nil
    let ?s = "s\<lparr>hs_draining := hs_draining s - 1\<rparr>"
    note step = empty_turn [OF Cons.prems(1) Nil Cons.prems(2), of now tracked injects]
    have "queue_order ?s" by (rule host_step_order [OF Cons.prems(1) step])
    then show ?thesis using Cons.prems(3) Nil tick step
      by (simp add: drained_nil waiting_def del: host_step.simps)
  next
    case rest: (Cons request rest)
    obtain s1 fate where s1: "host_step (DrainTurns now tracked injects) s = Some s1" "waiting s1 = rest"
      "hs_taken s1 = hs_taken s @ [(fst request, snd request, fate)]" "hs_draining s1 = hs_draining s" "queue_order s1"
      "fate \<noteq> RequestDropped" "hs_accepted s1 = hs_accepted s"
      using taking_turn [OF Cons.prems(1) rest Cons.prems(2)] by metis
    have more: "length ticks = length (waiting s1) + 1" "0 < hs_draining s1"
      using Cons.prems(2,3) rest s1(2,4) by simp_all
    from Cons.IH [OF s1(5) more(2,1)] show ?thesis
      using tick s1 rest drained_cons [OF s1(3,6)] by (auto simp del: host_step.simps)
  qed
qed

section \<open>What the queue promises\<close>

text \<open>C13: in each interleaving of requests, posts, (nested) drains and the steps of a shutdown, the accepted requests leave the
  queue exactly in the order of submission, each one once: what was accepted is what has left the queue (performed, expired
  or dropped) followed by what still waits. Only the clearing of the queue in \<open>Shutdown\<close> drops a request. The waiting requests are distinct
  (an identical one is coalesced) and at most 16.\<close>

theorem actions_run_in_order:
  assumes "reaches host_step host_state_init s"
  shows "hs_accepted s = done_requests s @ waiting s \<and> distinct (waiting s) \<and> length (waiting s) \<le> kHostActionRingSlots \<and>
    (hs_cleared s \<or> list_all (\<lambda>(action, target, fate). fate \<noteq> RequestDropped) (hs_taken s))"
  using reach_order [OF assms] by (auto simp: queue_order_def queue_ok_def waiting_def pending_slots_def)

definition host_request :: "string \<Rightarrow> string \<Rightarrow> ActionRequest option" where
  "host_request action target = Some \<lparr>rq_size = True, rq_action = Some action, rq_target = Some target\<rparr>"

definition host_trace :: "host_call list" where
  "host_trace = [SetsWindow True, Requests (host_request ''page.next'' '''') 0, Exchanges, Posts True, DrainBegins,
     Requests (host_request ''keys.send'' ''ctrl+c'') 5, DrainTurns 6 False False]"

theorem actions_run_in_order_witness:
  "\<exists>s. run_events host_step host_state_init host_trace = Some s \<and> hs_taken s = [(''page.next'', '''', RequestPerformed)] \<and> waiting s = [(''keys.send'', ''ctrl+c'')] \<and>
     hs_accepted s = done_requests s @ waiting s"
proof -
  have "case run_events host_step host_state_init host_trace of None \<Rightarrow> False
      | Some s \<Rightarrow> hs_taken s = [(''page.next'', '''', RequestPerformed)] \<and> waiting s = [(''keys.send'', ''ctrl+c'')]"
    by code_simp
  then obtain s where run: "run_events host_step host_state_init host_trace = Some s"
    and result: "hs_taken s = [(''page.next'', '''', RequestPerformed)]" "waiting s = [(''keys.send'', ''ctrl+c'')]"
    by (cases "run_events host_step host_state_init host_trace") auto
  from actions_run_in_order [OF run_events_reaches [OF run]] run result show ?thesis by blast
qed

text \<open>C14: a queued action is performed: in each reachable state a drain that begins and runs undisturbed ends after one turn
  more than actions wait, and has then taken them all, in order, each performed or, being old input, expired; and while actions wait, a thread is about to post the drain
  message, the message is in the window's queue, or a drain runs, unless a message could not be posted.\<close>

theorem queued_actions_are_drained:
  assumes "reaches host_step host_state_init s"
  shows "(hs_unposted s \<or> waiting s = [] \<or> 0 < hs_notifying s + hs_posting s + hs_posted s + hs_draining s) \<and>
    (0 < hs_posted s \<longrightarrow> length ticks = length (waiting s) + 1 \<longrightarrow>
      (\<exists>s'. run_events host_step s (DrainBegins # map (\<lambda>(now, tracked, injects). DrainTurns now tracked injects) ticks) = Some s' \<and>
        waiting s' = [] \<and> hs_draining s' = hs_draining s \<and> done_requests s' = hs_accepted s \<and> drained (waiting s) s s'))"
proof (intro conjI impI)
  have order: "queue_order s" by (rule reach_order [OF assms])
  show "hs_unposted s \<or> waiting s = [] \<or> 0 < hs_notifying s + hs_posting s + hs_posted s + hs_draining s"
    using reach_waking [OF assms] order pending_length [of "hs_queue s"] by (auto simp: wakes_up_def queue_order_def waiting_def)
  assume posted: "0 < hs_posted s" and long: "length ticks = length (waiting s) + 1"
  obtain s1 where s1: "host_step DrainBegins s = Some s1" "hs_draining s1 = hs_draining s + 1" "waiting s1 = waiting s"
    "hs_taken s1 = hs_taken s" "hs_accepted s1 = hs_accepted s"
    using posted by (simp add: waiting_def)
  have order1: "queue_order s1" by (rule host_step_order [OF order s1(1)])
  from drain_turns [OF order1] s1(2,3) long
  obtain s' where s': "run_events host_step s1 (map (\<lambda>(now, tracked, injects). DrainTurns now tracked injects) ticks) = Some s'"
    "waiting s' = []" "hs_draining s' = hs_draining s" "drained (waiting s) s1 s'" "hs_accepted s' = hs_accepted s1" "queue_order s'"
    by auto
  have "done_requests s' = hs_accepted s" using s'(2,5,6) s1(5) by (simp add: queue_order_def)
  moreover have "drained (waiting s) s s'" using s'(4) s1(4) by (simp add: drained_def)
  ultimately show "\<exists>s'. run_events host_step s (DrainBegins # map (\<lambda>(now, tracked, injects). DrainTurns now tracked injects) ticks) = Some s' \<and>
        waiting s' = [] \<and> hs_draining s' = hs_draining s \<and> done_requests s' = hs_accepted s \<and> drained (waiting s) s s'"
    using s1(1) s'(1-3) by (auto simp del: host_step.simps)
qed

theorem queued_actions_are_drained_witness:
  "\<exists>s s'. run_events host_step host_state_init (take 4 host_trace) = Some s \<and> waiting s = [(''page.next'', '''')] \<and>
     run_events host_step s [DrainBegins, DrainTurns 6 False False, DrainTurns 7 False False] = Some s' \<and> waiting s' = [] \<and>
     done_requests s' = hs_accepted s"
proof -
  have "case run_events host_step host_state_init (take 4 host_trace) of None \<Rightarrow> False
      | Some s \<Rightarrow> hs_posted s = 1 \<and> waiting s = [(''page.next'', '''')]"
    by code_simp
  then obtain s where run: "run_events host_step host_state_init (take 4 host_trace) = Some s"
    and result: "hs_posted s = 1" "waiting s = [(''page.next'', '''')]"
    by (cases "run_events host_step host_state_init (take 4 host_trace)") auto
  from queued_actions_are_drained [OF run_events_reaches [OF run], of "[(6, False, False), (7, False, False)]"]
  obtain s' where "run_events host_step s [DrainBegins, DrainTurns 6 False False, DrainTurns 7 False False] = Some s'" "waiting s' = []"
    "done_requests s' = hs_accepted s"
    using result by auto
  with run result(2) show ?thesis by blast
qed

text \<open>C40: after a drain message that could not be posted, asking for the same action again does not wake the UI thread: while
  no drain is on its way, a request equal to a waiting one is answered \<open>S_FALSE\<close>, changes at most the time of the waiting
  one and posts nothing, so the action stays where it is until a different one is requested.\<close>

theorem repeated_request_posts_nothing:
  assumes "reaches host_step host_state_init s" "\<not> hs_shutdown s" "asked request \<in> set (waiting s)" "CheckActionRequest request = S_OK"
    and "hs_notifying s = 0" "hs_posting s = 0" "hs_posted s = 0" "hs_draining s = 0"
    and "IsDefaultNamespace (NamespaceOf (fst (asked request)))"
  shows "\<exists>s'. host_step (Requests request now) s = Some s' \<and> fst (RequestAction (hs_shutdown s) request now (hs_queue s)) = S_FALSE \<and>
    waiting s' = waiting s \<and> hs_notifying s' = 0 \<and> hs_posting s' = 0 \<and> hs_posted s' = 0 \<and> hs_draining s' = 0"
proof -
  have ok: "queue_ok (hs_queue s)" using reach_order [OF assms(1)] by (simp add: queue_order_def)
  obtain result notify q where run: "RequestAction (hs_shutdown s) request now (hs_queue s) = (result, notify, q)"
    by (metis prod_cases3)
  from ok run show ?thesis
  proof (cases rule: RequestAction_cases)
    case (coalesced offset)
    then show ?thesis using run assms(5-8) pending_coalesced (2) [OF ok coalesced(3,5)] by (simp add: waiting_def)
  next
    case queued
    then show ?thesis using assms(3) by (simp add: waiting_def)
  next
    case refused
    have "find_pending (hs_queue s) (fst (asked request)) (snd (asked request)) \<noteq> None"
      using assms(3) pending_slot_found [OF ok] unfolding waiting_def by blast
    moreover have "\<not> FAILED S_OK" by code_simp
    ultimately have "result = S_FALSE"
      using run assms(2,4,9) by (auto simp: RequestAction_def Let_def asked_def)
    then show ?thesis using run refused assms(5-8) by (simp add: waiting_def)
  qed
qed

theorem repeated_request_posts_nothing_witness:
  "\<exists>s s'. run_events host_step host_state_init [SetsWindow True, Requests (host_request ''page.next'' '''') 0, Exchanges, Posts False] = Some s \<and>
     host_step (Requests (host_request ''page.next'' '''') 9) s = Some s' \<and> waiting s' = [(''page.next'', '''')] \<and>
     hs_notifying s' = 0 \<and> hs_posting s' = 0 \<and> hs_posted s' = 0 \<and> hs_draining s' = 0"
proof -
  let ?calls = "[SetsWindow True, Requests (host_request ''page.next'' '''') 0, Exchanges, Posts False]"
  have "case run_events host_step host_state_init ?calls of None \<Rightarrow> False
      | Some s \<Rightarrow> waiting s = [(''page.next'', '''')] \<and> \<not> hs_shutdown s \<and> hs_notifying s = 0 \<and> hs_posting s = 0 \<and>
          hs_posted s = 0 \<and> hs_draining s = 0"
    by code_simp
  then obtain s where run: "run_events host_step host_state_init ?calls = Some s"
    and idle: "waiting s = [(''page.next'', '''')]" "\<not> hs_shutdown s" "hs_notifying s = 0" "hs_posting s = 0"
      "hs_posted s = 0" "hs_draining s = 0"
    by (cases "run_events host_step host_state_init ?calls") auto
  have request: "asked (host_request ''page.next'' '''') = (''page.next'', '''')"
    "CheckActionRequest (host_request ''page.next'' '''') = S_OK" "IsDefaultNamespace (NamespaceOf ''page.next'')"
    by code_simp+
  from repeated_request_posts_nothing [OF run_events_reaches [OF run] idle(2), of "host_request ''page.next'' ''''" 9]
  show ?thesis using run idle request by auto
qed

end
