(* ===== verification/Logicon_Protocol.thy ===== *)
theory Logicon_Protocol
  imports RedXe_Prelude
begin

unbundle bit_operations_syntax

text \<open>
  The HID++ reports and the image stream of the Logicon plugin
  (\<open>Plugins/Logicon/LogiconProtocol.h\<close> and \<open>.cpp\<close>). A buffer of the caller is the list of its bytes; a
  builder returns the bytes it writes, or \<open>None\<close> for its result 0. A null pointer is \<open>None\<close>. An event's
  arrays with their counts are lists.
\<close>

section \<open>Constants\<close>

definition kReportLong :: u8 where "kReportLong = 0x11"
definition kReportVlpControl :: u8 where "kReportVlpControl = 0x13"
definition kReportVlpImage :: u8 where "kReportVlpImage = 0x14"
definition kLongReportBytes :: nat where "kLongReportBytes = 20"
definition kVlpImageReportBytes :: u32 where "kVlpImageReportBytes = 4095"
definition kFeatureResetReportBytes :: nat where "kFeatureResetReportBytes = 32"
definition kDeviceIndexWired :: u8 where "kDeviceIndexWired = 0xFF"
definition kSoftwareId :: u8 where "kSoftwareId = 0x0B"
definition kErrorMarker :: u8 where "kErrorMarker = 0xFF"
definition kControlPagePrevious :: u16 where "kControlPagePrevious = 0x01A1"
definition kControlPageNext :: u16 where "kControlPageNext = 0x01A2"
definition kControlLcdKeyFirst :: u16 where "kControlLcdKeyFirst = 1"
definition kControlLcdKeyLast :: u16 where "kControlLcdKeyLast = 9"
definition kDialpadControls :: "u16 list" where "kDialpadControls = [0x0053, 0x0056, 0x0059, 0x005A]"
definition kDisplayIndex :: u8 where "kDisplayIndex = 1"
definition kPanelSize :: nat where "kPanelSize = 480"
definition kKeySize :: u32 where "kKeySize = 118"
definition kKeyGap :: u32 where "kKeyGap = 40"
definition kGridOriginX :: u32 where "kGridOriginX = 23"
definition kGridOriginY :: u32 where "kGridOriginY = 6"
definition kGridSize :: u32 where "kGridSize = 434"
definition kKeyColumns :: u32 where "kKeyColumns = 3"
definition kKeyRows :: u32 where "kKeyRows = 3"
definition kKeyCount :: nat where "kKeyCount = 9"
definition kVlpFirstHeaderBytes :: u32 where "kVlpFirstHeaderBytes = 20"
definition kVlpContinuationHeaderBytes :: u32 where "kVlpContinuationHeaderBytes = 5"
definition kMaximumImageBytes :: nat where "kMaximumImageBytes = 0xFFFFFF"
definition kLongParameterBytes :: nat where "kLongParameterBytes = 16"

section \<open>Reports\<close>

definition PutBigEndian16 :: "u16 \<Rightarrow> u8 list" where
  "PutBigEndian16 v = [ucast (drop_bit 8 v), ucast (v AND 0xFF)]"

definition GetBigEndian16 :: "u8 \<Rightarrow> u8 \<Rightarrow> u16" where
  "GetBigEndian16 a b = push_bit 8 (ucast a) OR ucast b"

text \<open>A copy over a zeroed buffer: \<open>memset\<close> then \<open>memcpy\<close> at an offset.\<close>

definition zero_filled :: "nat \<Rightarrow> u8 list \<Rightarrow> u8 list" where
  "zero_filled n xs = xs @ replicate (n - length xs) 0"

definition BuildLongReport ::
    "u8 \<Rightarrow> u8 \<Rightarrow> u8 \<Rightarrow> u8 list option \<Rightarrow> nat \<Rightarrow> nat \<Rightarrow> u8 list option" where
  "BuildLongReport deviceIndex featureIndex func params paramBytes capacity =
     (if capacity < kLongReportBytes \<or> func > 0x0F \<or> paramBytes > kLongParameterBytes
         \<or> (paramBytes \<noteq> 0 \<and> params = None)
      then None
      else Some (zero_filled kLongReportBytes
             ([kReportLong, deviceIndex, featureIndex, push_bit 4 func OR kSoftwareId]
              @ (if paramBytes \<noteq> 0 then take paramBytes (the params) else []))))"

definition BuildGetFeatureReport :: "u8 \<Rightarrow> u16 \<Rightarrow> nat \<Rightarrow> u8 list option" where
  "BuildGetFeatureReport deviceIndex featureId capacity =
     BuildLongReport deviceIndex 0 0 (Some (zero_filled 3 (PutBigEndian16 featureId))) 3 capacity"

definition BuildGetCidReportingReport :: "u8 \<Rightarrow> u8 \<Rightarrow> u16 \<Rightarrow> nat \<Rightarrow> u8 list option" where
  "BuildGetCidReportingReport deviceIndex featureIndex controlId capacity =
     BuildLongReport deviceIndex featureIndex 2 (Some (PutBigEndian16 controlId)) 2 capacity"

definition BuildSetCidReportingReport ::
    "u8 \<Rightarrow> u8 \<Rightarrow> u16 \<Rightarrow> u8 \<Rightarrow> u16 \<Rightarrow> u8 \<Rightarrow> nat \<Rightarrow> u8 list option" where
  "BuildSetCidReportingReport deviceIndex featureIndex controlId flags remap flags2 capacity =
     BuildLongReport deviceIndex featureIndex 3
       (Some (PutBigEndian16 controlId @ [flags] @ PutBigEndian16 remap @ [flags2])) 6 capacity"

definition BuildSetBrightnessReport :: "u8 \<Rightarrow> u8 \<Rightarrow> u32 \<Rightarrow> nat \<Rightarrow> u8 list option" where
  "BuildSetBrightnessReport deviceIndex featureIndex percent capacity =
     BuildLongReport deviceIndex featureIndex 2
       (Some (PutBigEndian16 (ucast (min (max percent 1) 100)))) 2 capacity"

definition BuildResetToLogoFeatureReport :: "nat \<Rightarrow> u8 list option" where
  "BuildResetToLogoFeatureReport capacity =
     (if capacity < kFeatureResetReportBytes then None else Some (zero_filled capacity [0x03, 0x02]))"

record HidppFrame =
  reportId :: u8
  deviceIndex :: u8
  featureIndex :: u8
  function_id :: u8
  softwareId :: u8
  frame_error :: bool
  errorCode :: u8
  frame_params :: "u8 list option"

definition HidppFrame_init :: HidppFrame where
  "HidppFrame_init = \<lparr>reportId = 0, deviceIndex = 0, featureIndex = 0, function_id = 0, softwareId = 0,
     frame_error = False, errorCode = 0, frame_params = None\<rparr>"

definition ParseHidppFrame :: "u8 list option \<Rightarrow> HidppFrame option" where
  "ParseHidppFrame buffer =
     (case buffer of
        None \<Rightarrow> None
      | Some report \<Rightarrow>
          (if length report < 5 then None
           else if report ! 0 \<noteq> kReportLong \<and> report ! 0 \<noteq> kReportVlpControl then None
           else if report ! 0 = kReportLong \<and> report ! 2 = kErrorMarker \<and> length report \<ge> 6 then
             Some \<lparr>reportId = report ! 0, deviceIndex = report ! 1, featureIndex = report ! 3,
                   function_id = drop_bit 4 (report ! 4), softwareId = report ! 4 AND 0x0F,
                   frame_error = True, errorCode = report ! 5, frame_params = Some (drop 6 report)\<rparr>
           else
             Some \<lparr>reportId = report ! 0, deviceIndex = report ! 1, featureIndex = report ! 2,
                   function_id = drop_bit 4 (report ! 3), softwareId = report ! 3 AND 0x0F,
                   frame_error = False, errorCode = 0, frame_params = Some (drop 4 report)\<rparr>))"

definition FrameAnswers :: "HidppFrame \<Rightarrow> u8 \<Rightarrow> u8 \<Rightarrow> bool" where
  "FrameAnswers frame feature func \<longleftrightarrow>
     featureIndex frame = feature \<and> softwareId frame = kSoftwareId \<and>
     (frame_error frame \<or> function_id frame = func)"

record CidReporting =
  controlId :: u16
  cid_flags :: u8
  remap :: u16
  flags2 :: u8

definition ParseCidReporting :: "HidppFrame \<Rightarrow> CidReporting option" where
  "ParseCidReporting frame =
     (case frame_params frame of
        None \<Rightarrow> None
      | Some p \<Rightarrow>
          (if frame_error frame \<or> length p < 6 then None
           else Some \<lparr>controlId = GetBigEndian16 (p ! 0) (p ! 1), cid_flags = p ! 2,
                      remap = GetBigEndian16 (p ! 3) (p ! 4), flags2 = p ! 5\<rparr>))"

section \<open>Input events\<close>

datatype InputKind = InputNone | DivertedButtons | DisplayKeys

record InputEvent =
  event_kind :: InputKind
  event_controls :: "u16 list"
  event_keys :: "u8 list"
  event_mask :: u32

definition InputEvent_init :: InputEvent where
  "InputEvent_init = \<lparr>event_kind = InputNone, event_controls = [], event_keys = [], event_mask = 0\<rparr>"

fun key_scan :: "u8 list \<Rightarrow> InputEvent \<Rightarrow> InputEvent" where
  "key_scan [] event = event"
| "key_scan (key # rest) event =
     (if key = 0 then event
      else if ucast key \<ge> kControlLcdKeyFirst \<and> ucast key \<le> kControlLcdKeyLast
              \<and> length (event_keys event) < kKeyCount
      then key_scan rest (event\<lparr>event_keys := event_keys event @ [key],
                                event_mask := event_mask event OR push_bit (unat key - 1) 1\<rparr>)
      else key_scan rest event)"

fun control_scan :: "u8 list \<Rightarrow> InputEvent \<Rightarrow> InputEvent" where
  "control_scan (a # b # rest) event =
     (if length (event_controls event) \<ge> 4 then event
      else
        (let control = GetBigEndian16 a b
         in if control = 0 then event
            else control_scan rest
                   (event\<lparr>event_controls := event_controls event @ [control],
                          event_mask := (if control = kControlPagePrevious then event_mask event OR 1
                                   else if control = kControlPageNext then event_mask event OR 2
                                   else event_mask event)\<rparr>)))"
| "control_scan _ event = event"

definition ParseInputEvent :: "u8 list option \<Rightarrow> u8 \<Rightarrow> u8 \<Rightarrow> InputEvent option" where
  "ParseInputEvent buffer displayFeatureIndex reprogFeatureIndex =
     (case buffer of
        None \<Rightarrow> None
      | Some report \<Rightarrow>
          (if length report < 6 \<or> report ! 1 \<noteq> kDeviceIndexWired then None
           else if report ! 0 = kReportVlpControl then
             (if report ! 2 \<noteq> displayFeatureIndex \<or> report ! 3 \<noteq> 0 \<or> report ! 5 \<noteq> kDisplayIndex then None
              else Some (key_scan (drop 6 report) (InputEvent_init\<lparr>event_kind := DisplayKeys\<rparr>)))
           else if report ! 0 = kReportLong then
             (if report ! 2 \<noteq> reprogFeatureIndex \<or> report ! 3 \<noteq> 0 then None
              else Some (control_scan (drop 4 report) (InputEvent_init\<lparr>event_kind := DivertedButtons\<rparr>)))
           else None))"

definition DialpadButtonMask :: "InputEvent \<Rightarrow> u32" where
  "DialpadButtonMask event =
     (if event_kind event \<noteq> DivertedButtons then 0
      else foldl (\<lambda>m control. foldl (\<lambda>m (button, c). if control = c then m OR push_bit button 1 else m)
                                   m (enumerate 0 kDialpadControls))
             0 (take 4 (event_controls event)))"

section \<open>Regions\<close>

record ImageRegion =
  rx :: u16
  ry :: u16
  rwidth :: u16
  rheight :: u16

definition KeyColumn :: "u32 \<Rightarrow> u32" where
  "KeyColumn slot = slot mod kKeyColumns"

definition KeyRow :: "u32 \<Rightarrow> u32" where
  "KeyRow slot = (slot div kKeyColumns) mod kKeyRows"

definition KeyRegion :: "u32 \<Rightarrow> ImageRegion" where
  "KeyRegion slot =
     \<lparr>rx = ucast (kGridOriginX + KeyColumn slot * (kKeySize + kKeyGap)),
      ry = ucast (kGridOriginY + KeyRow slot * (kKeySize + kKeyGap)),
      rwidth = ucast kKeySize, rheight = ucast kKeySize\<rparr>"

definition GridRegion :: ImageRegion where
  "GridRegion = \<lparr>rx = ucast kGridOriginX, ry = ucast kGridOriginY, rwidth = ucast kGridSize, rheight = ucast kGridSize\<rparr>"

section \<open>The image stream\<close>

definition VlpPacketCount :: "u32 \<Rightarrow> u32" where
  "VlpPacketCount stream_bytes =
     (if stream_bytes = 0 then 0
      else
        (let firstPayload = kVlpImageReportBytes - kVlpFirstHeaderBytes
         in if stream_bytes \<le> firstPayload then 1
            else
              (let remaining = stream_bytes - firstPayload;
                   continuationPayload = kVlpImageReportBytes - kVlpContinuationHeaderBytes
               in 1 + (remaining + continuationPayload - 1) div continuationPayload)))"

definition VlpSequenceByte :: "u32 \<Rightarrow> bool \<Rightarrow> bool \<Rightarrow> u8" where
  "VlpSequenceByte index first last_one =
     ((ucast ((index AND 0x0F) OR 0x20) OR (if first then 0x80 else 0)) OR (if last_one then 0x40 else 0))"

record VlpImageStream =
  stream_image :: "u8 list option"
  stream_bytes :: u32
  stream_offset :: u32
  stream_sequence :: u32
  stream_feature :: u8
  deferUpdate :: bool
  stream_region :: ImageRegion

definition BeginVlpImageStream :: "u8 \<Rightarrow> ImageRegion \<Rightarrow> bool \<Rightarrow> u8 list option \<Rightarrow> VlpImageStream option" where
  "BeginVlpImageStream feature r defer buffer =
     (case buffer of
        None \<Rightarrow> None
      | Some bytes \<Rightarrow>
          (if length bytes = 0 \<or> length bytes > kMaximumImageBytes \<or> rwidth r = 0 \<or> rheight r = 0
              \<or> unat (rx r) + unat (rwidth r) > kPanelSize \<or> unat (ry r) + unat (rheight r) > kPanelSize
           then None
           else Some \<lparr>stream_image = Some bytes, stream_bytes = of_nat (length bytes), stream_offset = 0,
                      stream_sequence = 0, stream_feature = feature, deferUpdate = defer, stream_region = r\<rparr>))"

definition first_header :: "VlpImageStream \<Rightarrow> u8 list" where
  "first_header s =
     [kDisplayIndex, if deferUpdate s then 1 else 0, 1, 0]
     @ PutBigEndian16 (rx (stream_region s)) @ PutBigEndian16 (ry (stream_region s))
     @ PutBigEndian16 (rwidth (stream_region s)) @ PutBigEndian16 (rheight (stream_region s))
     @ [ucast (drop_bit 16 (stream_bytes s) AND 0xFF)]
     @ PutBigEndian16 (ucast (stream_bytes s AND 0xFFFF))"

definition NextVlpPacket :: "VlpImageStream \<Rightarrow> nat \<Rightarrow> (u8 list \<times> VlpImageStream) option" where
  "NextVlpPacket s capacity =
     (case stream_image s of
        None \<Rightarrow> None
      | Some bytes \<Rightarrow>
          (if capacity < unat kVlpImageReportBytes \<or> stream_offset s \<ge> stream_bytes s then None
           else
             (let first = (stream_offset s = 0);
                  headerBytes = (if first then kVlpFirstHeaderBytes else kVlpContinuationHeaderBytes);
                  chunk = min (stream_bytes s - stream_offset s) (kVlpImageReportBytes - headerBytes);
                  last_one = (stream_offset s + chunk \<ge> stream_bytes s);
                  seqn = stream_sequence s + 1;
                  header = [kReportVlpImage, kDeviceIndexWired, stream_feature s, push_bit 4 2 OR kSoftwareId,
                            VlpSequenceByte seqn first last_one]
                           @ (if first then first_header s else []);
                  payload = take (unat chunk) (drop (unat (stream_offset s)) bytes)
              in Some (zero_filled (unat kVlpImageReportBytes) (header @ payload),
                       s\<lparr>stream_sequence := seqn, stream_offset := stream_offset s + chunk\<rparr>))))"

section \<open>Framing\<close>

lemma GetPut16: "GetBigEndian16 (ucast (drop_bit 8 v)) (ucast (v AND 0xFF)) = v"
proof (rule bit_word_eqI)
  fix n assume "n < LENGTH(16)"
  have m: "(0xFF :: u16) = mask 8" by (simp add: mask_eq_exp_minus_1)
  show "bit (GetBigEndian16 (ucast (drop_bit 8 v)) (ucast (v AND 0xFF))) n = bit v n"
    using \<open>n < LENGTH(16)\<close> unfolding GetBigEndian16_def m
    by (auto simp: bit_simps)
qed

lemma PutGet16:
  "\<exists>a b. PutBigEndian16 v = [a, b] \<and> GetBigEndian16 a b = v"
  by (simp add: PutBigEndian16_def GetPut16)

lemma length_zero_filled [simp]: "length xs \<le> n \<Longrightarrow> length (zero_filled n xs) = n"
  by (simp add: zero_filled_def)

lemma function_software_byte:
  assumes "f \<le> (0x0F :: u8)"
  shows "drop_bit 4 (push_bit 4 f OR kSoftwareId) = f \<and> (push_bit 4 f OR kSoftwareId) AND 0x0F = kSoftwareId"
proof -
  have "unat f \<le> 15" using assms by (simp add: word_le_nat_alt)
  then have "unat f \<in> set [0..<16]" by simp
  moreover have "f = of_nat (unat f)" by simp
  ultimately obtain n where "n \<in> set [0..<16]" "f = of_nat n" by blast
  then show ?thesis by (auto simp: upt_conv_Cons kSoftwareId_def)
qed

section \<open>Reports\<close>

lemma BuildLongReport_eq:
  assumes "func \<le> 0x0F" "length params \<le> 16" "20 \<le> capacity"
  shows "BuildLongReport dev feat func (Some params) (length params) capacity =
    Some ([kReportLong, dev, feat, push_bit 4 func OR kSoftwareId] @ params @ replicate (16 - length params) 0)"
  using assms by (auto simp: BuildLongReport_def zero_filled_def kLongReportBytes_def kLongParameterBytes_def)

text \<open>A command's report is read back as that command: the parser returns the device, the feature, the
  function and the parameters the builder was given, and the frame answers the command it was built for.
  The feature index 0xFF is the mark of an error frame and is excluded.\<close>

lemma long_report_roundtrip:
  assumes "func \<le> 0x0F" "length params \<le> 16" "20 \<le> capacity" "feat \<noteq> kErrorMarker"
  shows "\<exists>report frame. BuildLongReport dev feat func (Some params) (length params) capacity = Some report \<and>
    length report = 20 \<and> ParseHidppFrame (Some report) = Some frame \<and> \<not> frame_error frame \<and>
    deviceIndex frame = dev \<and> map_option (take (length params)) (frame_params frame) = Some params \<and>
    FrameAnswers frame feat func"
proof -
  let ?r = "[kReportLong, dev, feat, push_bit 4 func OR kSoftwareId] @ params @ replicate (16 - length params) 0"
  have "length ?r = 20" using assms(2) by simp
  with assms(4) have "ParseHidppFrame (Some ?r) =
    Some \<lparr>reportId = kReportLong, deviceIndex = dev, featureIndex = feat,
          function_id = drop_bit 4 (push_bit 4 func OR kSoftwareId),
          softwareId = (push_bit 4 func OR kSoftwareId) AND 0x0F, frame_error = False, errorCode = 0,
          frame_params = Some (params @ replicate (16 - length params) 0)\<rparr>"
    by (simp add: ParseHidppFrame_def numeral_2_eq_2 numeral_3_eq_3)
  with BuildLongReport_eq [OF assms(1-3)] function_software_byte [OF assms(1)] \<open>length ?r = 20\<close> show ?thesis
    by (intro exI [of _ ?r]) (simp add: FrameAnswers_def)
qed

lemma long_report_roundtrip_witness:
  "\<exists>report frame. BuildLongReport 1 9 3 (Some [0x01, 0xA2]) (length [0x01 :: u8, 0xA2]) 20 = Some report \<and>
    length report = 20 \<and> ParseHidppFrame (Some report) = Some frame \<and> \<not> frame_error frame \<and>
    deviceIndex frame = 1 \<and> map_option (take (length [0x01 :: u8, 0xA2])) (frame_params frame) = Some [0x01, 0xA2] \<and>
    FrameAnswers frame 9 3"
  by (rule long_report_roundtrip) (simp_all add: kErrorMarker_def)

text \<open>The parameters of a setCidReporting command are the fields that the decoder of the response
  reads, byte for byte, 16-bit values high byte first.\<close>

lemma cid_reporting_roundtrip:
  assumes "20 \<le> capacity" "feat \<noteq> kErrorMarker"
  shows "\<exists>report frame. BuildSetCidReportingReport dev feat cid flg rem flg2 capacity = Some report \<and>
    ParseHidppFrame (Some report) = Some frame \<and>
    ParseCidReporting frame = Some \<lparr>controlId = cid, cid_flags = flg, remap = rem, flags2 = flg2\<rparr>"
proof -
  obtain a b where ab: "PutBigEndian16 cid = [a, b]" "GetBigEndian16 a b = cid" using PutGet16 by blast
  obtain c d where cd: "PutBigEndian16 rem = [c, d]" "GetBigEndian16 c d = rem" using PutGet16 by blast
  let ?p = "[a, b, flg, c, d, flg2]"
  let ?r = "[kReportLong, dev, feat, push_bit 4 3 OR kSoftwareId] @ ?p @ replicate 10 0"
  have "length ?p = 6" by simp
  with BuildLongReport_eq [of 3 ?p capacity dev feat] assms(1)
  have "BuildLongReport dev feat 3 (Some ?p) 6 capacity = Some ?r" by (simp del: list.size)
  then have "BuildSetCidReportingReport dev feat cid flg rem flg2 capacity = Some ?r"
    by (simp add: BuildSetCidReportingReport_def ab cd)
  moreover have "\<exists>f. ParseHidppFrame (Some ?r) = Some f \<and> \<not> frame_error f \<and> frame_params f = Some (?p @ replicate 10 0)"
    using assms(2) by (simp add: ParseHidppFrame_def numeral_2_eq_2)
  moreover have "(?p @ replicate 10 0) ! 3 = c" by (simp add: numeral_3_eq_3)
  moreover have "(?p @ replicate 10 0) ! 2 = flg" by (simp add: numeral_2_eq_2)
  moreover have "(?p @ replicate 10 0) ! 4 = d" "(?p @ replicate 10 0) ! 5 = flg2" by simp_all
  ultimately show ?thesis
    by (auto simp: ParseCidReporting_def ab cd)
qed

lemma cid_reporting_roundtrip_witness:
  "\<exists>report frame. BuildSetCidReportingReport 0xFF 8 0x01A1 3 0x01A1 0 64 = Some report \<and>
    ParseHidppFrame (Some report) = Some frame \<and>
    ParseCidReporting frame = Some \<lparr>controlId = 0x01A1, cid_flags = 3, remap = 0x01A1, flags2 = 0\<rparr>"
  by (rule cid_reporting_roundtrip) (simp_all add: kErrorMarker_def)

section \<open>Key regions\<close>

definition region_left :: "ImageRegion \<Rightarrow> nat" where "region_left r = unat (rx r)"
definition region_top :: "ImageRegion \<Rightarrow> nat" where "region_top r = unat (ry r)"
definition region_right :: "ImageRegion \<Rightarrow> nat" where "region_right r = unat (rx r) + unat (rwidth r)"
definition region_bottom :: "ImageRegion \<Rightarrow> nat" where "region_bottom r = unat (ry r) + unat (rheight r)"

definition region_inside :: "ImageRegion \<Rightarrow> ImageRegion \<Rightarrow> bool" where
  "region_inside a b \<longleftrightarrow> region_left b \<le> region_left a \<and> region_top b \<le> region_top a \<and>
     region_right a \<le> region_right b \<and> region_bottom a \<le> region_bottom b"

definition region_disjoint :: "ImageRegion \<Rightarrow> ImageRegion \<Rightarrow> bool" where
  "region_disjoint a b \<longleftrightarrow> region_right a \<le> region_left b \<or> region_right b \<le> region_left a \<or>
     region_bottom a \<le> region_top b \<or> region_bottom b \<le> region_top a"

text \<open>The nine LCD keys lie inside the grid image and do not overlap.\<close>

lemma key_regions_tile_grid:
  "list_all (\<lambda>a. region_inside (KeyRegion a) GridRegion \<and>
      list_all (\<lambda>b. a = b \<or> region_disjoint (KeyRegion a) (KeyRegion b)) [0, 1, 2, 3, 4, 5, 6, 7, 8])
    [0, 1, 2, 3, 4, 5, 6, 7, 8]"
  by code_simp

section \<open>The image stream\<close>

text \<open>The packets a caller writes that takes packets until there are none.\<close>

lemma NextVlpPacket_progress:
  assumes "NextVlpPacket s capacity = Some (packet, s')"
  shows "stream_offset s < stream_bytes s \<and> stream_bytes s' = stream_bytes s \<and>
    unat (stream_offset s) < unat (stream_offset s') \<and> unat (stream_offset s') \<le> unat (stream_bytes s)"
proof -
  have "\<not> stream_bytes s \<le> stream_offset s"
    using assms by (cases "stream_bytes s \<le> stream_offset s") (auto simp: NextVlpPacket_def split: option.splits)
  then have lt: "stream_offset s < stream_bytes s" by simp
  define k :: u32 where "k = kVlpImageReportBytes - (if stream_offset s = 0 then kVlpFirstHeaderBytes else kVlpContinuationHeaderBytes)"
  define c where "c = min (stream_bytes s - stream_offset s) k"
  have off: "stream_offset s' = stream_offset s + c" "stream_bytes s' = stream_bytes s"
    using assms by (auto simp: NextVlpPacket_def Let_def c_def k_def split: option.splits if_splits)
  have k: "unat k = (if stream_offset s = 0 then 4075 else 4090)"
    by (simp add: k_def kVlpImageReportBytes_def kVlpFirstHeaderBytes_def kVlpContinuationHeaderBytes_def)
  have d: "unat (stream_bytes s - stream_offset s) = unat (stream_bytes s) - unat (stream_offset s)"
    using lt by (simp add: unat_sub less_imp_le)
  have c: "unat c = min (unat (stream_bytes s) - unat (stream_offset s)) (unat k)"
    by (simp add: c_def min_def word_le_nat_alt d)
  have "unat (stream_offset s) < unat (stream_bytes s)" using lt by (simp add: word_less_nat_alt)
  moreover have "unat (stream_bytes s) < 2 ^ 32" using unsigned_less [of "stream_bytes s"] by simp
  ultimately have "unat (stream_offset s + c) = unat (stream_offset s) + unat c"
    using c by (subst unat_add_lem [THEN iffD1]) auto
  with lt off c k \<open>unat (stream_offset s) < unat (stream_bytes s)\<close> show ?thesis by auto
qed

function vlp_packets :: "VlpImageStream \<Rightarrow> u8 list list" where
  "vlp_packets s =
     (case NextVlpPacket s 4095 of None \<Rightarrow> [] | Some (packet, s') \<Rightarrow> packet # vlp_packets s')"
  by pat_completeness auto
termination
  by (relation "measure (\<lambda>s. unat (stream_bytes s) - unat (stream_offset s))")
     (auto dest: NextVlpPacket_progress)

declare vlp_packets.simps [simp del]

definition packet_bytes :: "u8 \<Rightarrow> u8 \<Rightarrow> u8 list \<Rightarrow> u8 list \<Rightarrow> u8 list" where
  "packet_bytes feature seqbyte header payload =
     zero_filled 4095 ([kReportVlpImage, kDeviceIndexWired, feature, push_bit 4 2 OR kSoftwareId, seqbyte] @ header @ payload)"

fun rest_packets :: "u8 \<Rightarrow> u32 \<Rightarrow> u8 list \<Rightarrow> u8 list list" where
  "rest_packets feature n [] = []"
| "rest_packets feature n (x # xs) =
     packet_bytes feature (VlpSequenceByte (n + 1) False (length (x # xs) \<le> 4090)) [] (take 4090 (x # xs))
     # rest_packets feature (n + 1) (drop 4090 (x # xs))"

lemma NextVlpPacket_eq:
  assumes "stream_image s = Some xs" "stream_bytes s = of_nat (length xs)" "length xs \<le> 0xFFFFFF"
    and "stream_offset s = of_nat k" "k < length xs"
  defines "c \<equiv> min (length xs - k) (if k = 0 then 4075 else 4090)"
  shows "NextVlpPacket s 4095 =
    Some (packet_bytes (stream_feature s) (VlpSequenceByte (stream_sequence s + 1) (k = 0) (length xs \<le> k + c))
            (if k = 0 then first_header s else []) (take c (drop k xs)),
          s\<lparr>stream_sequence := stream_sequence s + 1, stream_offset := of_nat (k + c)\<rparr>)"
proof -
  have n: "unat (of_nat m :: u32) = m" if "m \<le> length xs" for m
    using that assms(3) by (simp add: unat_of_nat take_bit_nat_eq_self)
  have first: "stream_offset s = 0 \<longleftrightarrow> k = 0"
  proof -
    have "unat (stream_offset s) = k" using n [of k] assms(4,5) by simp
    then show ?thesis by (metis unsigned_0 unsigned_eq_0_iff)
  qed
  define h :: u32 where "h = (if stream_offset s = 0 then kVlpFirstHeaderBytes else kVlpContinuationHeaderBytes)"
  have h: "unat (kVlpImageReportBytes - h) = (if k = 0 then 4075 else 4090)"
    by (simp add: h_def first kVlpImageReportBytes_def kVlpFirstHeaderBytes_def kVlpContinuationHeaderBytes_def)
  have le: "(of_nat k :: u32) \<le> of_nat (length xs)"
    using n [of k] n [of "length xs"] assms(5) by (simp add: word_le_nat_alt)
  have "unat (min (stream_bytes s - stream_offset s) (kVlpImageReportBytes - h)) = c"
  proof -
    have "unat (stream_bytes s - stream_offset s) = length xs - k"
      using le n [of k] n [of "length xs"] assms(5) by (simp add: assms(2,4) unat_sub)
    then show ?thesis by (simp add: min_def word_le_nat_alt h c_def)
  qed
  moreover have "c \<le> length xs" by (simp add: c_def)
  ultimately have chunk: "min (stream_bytes s - stream_offset s) (kVlpImageReportBytes - h) = of_nat c"
    using n [of c] by (metis word_eq_iff_unsigned [where ?'a = nat])
  have off: "stream_offset s + of_nat c = of_nat (k + c)" by (simp add: assms(4))
  have "k + c \<le> length xs" using assms(5) by (simp add: c_def)
  then have last_one: "stream_bytes s \<le> of_nat (k + c) \<longleftrightarrow> length xs \<le> k + c"
    using n [of "k + c"] n [of "length xs"] by (simp add: word_le_nat_alt assms(2) del: of_nat_add)
  have lt: "\<not> stream_bytes s \<le> stream_offset s"
    using n [of k] n [of "length xs"] assms(5) by (simp add: word_le_nat_alt assms(2,4))
  have "unat kVlpImageReportBytes = 4095" by (simp add: kVlpImageReportBytes_def)
  with lt n [of c] n [of k] \<open>c \<le> length xs\<close> assms(5) show ?thesis
    unfolding NextVlpPacket_def Let_def h_def [symmetric] chunk off last_one
    by (simp add: assms(1,4) first packet_bytes_def first [unfolded assms(4)] del: of_nat_add)
qed

lemma rest_packets_stream:
  assumes "stream_image s = Some xs" "stream_bytes s = of_nat (length xs)" "length xs \<le> 0xFFFFFF"
    and "stream_offset s = of_nat k" "0 < k" "k \<le> length xs"
  shows "vlp_packets s = rest_packets (stream_feature s) (stream_sequence s) (drop k xs)"
  using assms
proof (induction "length xs - k" arbitrary: s k rule: less_induct)
  case less
  show ?case
  proof (cases "k = length xs")
    case True
    with less.prems show ?thesis by (subst vlp_packets.simps) (simp add: NextVlpPacket_def)
  next
    case False
    then have k: "k < length xs" using less.prems by simp
    define c where "c = min (length xs - k) 4090"
    let ?s = "s\<lparr>stream_sequence := stream_sequence s + 1, stream_offset := of_nat (k + c)\<rparr>"
    have "vlp_packets ?s = rest_packets (stream_feature ?s) (stream_sequence ?s) (drop (k + c) xs)"
      by (rule less.hyps) (use less.prems k in \<open>auto simp: c_def\<close>)
    moreover have "drop (k + c) xs = drop 4090 (drop k xs)" by (simp add: c_def min_def add.commute)
    moreover have "take c (drop k xs) = take 4090 (drop k xs)" by (simp add: c_def min_def)
    moreover have "length xs \<le> k + c \<longleftrightarrow> length (drop k xs) \<le> 4090" using k by (auto simp: c_def)
    moreover obtain y ys where "drop k xs = y # ys" using k by (cases "drop k xs") auto
    ultimately show ?thesis
      using NextVlpPacket_eq [OF less.prems(1-4) k] less.prems(5)
      by (subst vlp_packets.simps) (simp add: c_def [symmetric])
  qed
qed

lemma length_packet_bytes: "length header + length payload \<le> 4090 \<Longrightarrow> length (packet_bytes f q header payload) = 4095"
  by (simp add: packet_bytes_def)

lemma packet_bytes_flag: "packet_bytes f q header payload ! 4 = q"
  by (simp add: packet_bytes_def zero_filled_def)

lemma drop_header: "drop (5 + n) (a # b # c # d # e # xs) = drop n xs"
  by (simp add: numeral_eq_Suc)

lemma drop_packet_bytes:
  "\<exists>z. drop (5 + length header) (packet_bytes f q header payload) = payload @ z"
  by (simp add: packet_bytes_def zero_filled_def drop_header)

lemma drop_full_packet:
  "length header + length payload = 4090 \<Longrightarrow> drop (5 + length header) (packet_bytes f q header payload) = payload"
  by (simp add: packet_bytes_def zero_filled_def drop_header)

lemma rest_packets_length: "length (rest_packets f n xs) = (length xs + 4089) div 4090"
proof (induction f n xs rule: rest_packets.induct)
  case (2 f n x xs)
  have "(length (drop 4090 (x # xs)) + 4089) div 4090 + 1 = (length (x # xs) + 4089) div 4090"
  proof (cases "length (x # xs) \<le> 4090")
    case True
    then have "(length (x # xs) + 4089) div 4090 = 1" by (intro div_nat_eqI) auto
    with True show ?thesis by simp
  next
    case False
    then have "length (x # xs) + 4089 = (length (drop 4090 (x # xs)) + 4089) + 4090" by simp
    then show ?thesis by (metis div_add_self2 zero_neq_numeral)
  qed
  with 2 show ?case by simp
qed simp

lemma rest_packets_sizes: "packet \<in> set (rest_packets f n xs) \<Longrightarrow> length packet = 4095"
  by (induction f n xs rule: rest_packets.induct) (auto simp: length_packet_bytes)

lemma rest_packets_payload: "\<exists>z. concat (map (drop 5) (rest_packets f n xs)) = xs @ z"
proof (induction f n xs rule: rest_packets.induct)
  case (2 f n x xs)
  define ys where "ys = x # xs"
  define q where "q = VlpSequenceByte (n + 1) False (length ys \<le> 4090)"
  have e: "rest_packets f n ys = packet_bytes f q [] (take 4090 ys) # rest_packets f (n + 1) (drop 4090 ys)"
    by (simp add: ys_def q_def)
  show ?case
  proof (cases "length ys \<le> 4090")
    case True
    with e drop_packet_bytes [of "[]" f q "take 4090 ys"] show ?thesis by (simp flip: ys_def)
  next
    case False
    then have "drop 5 (packet_bytes f q [] (take 4090 ys)) = take 4090 ys"
      using drop_full_packet [of "[]" "take 4090 ys" f q] by simp
    moreover obtain z where "concat (map (drop 5) (rest_packets f (n + 1) (drop 4090 ys))) = drop 4090 ys @ z"
      using 2 unfolding ys_def by blast
    ultimately have "concat (map (drop 5) (rest_packets f n ys)) = ys @ z" unfolding e by simp
    then show ?thesis unfolding ys_def by blast
  qed
qed simp

lemma VlpSequenceByte_flags:
  "bit (VlpSequenceByte n first last_one) 7 = first" "bit (VlpSequenceByte n first last_one) 6 = last_one"
  "VlpSequenceByte n first last_one AND 0x0F = ucast n AND 0x0F"
proof -
  have m: "(0x0F :: u32) = mask 4" "(0x0F :: u8) = mask 4" by (simp_all add: mask_eq_exp_minus_1)
  have e: "(0x20 :: u32) = push_bit 5 1" "(0x80 :: u8) = push_bit 7 1" "(0x40 :: u8) = push_bit 6 1" by simp_all
  show "bit (VlpSequenceByte n first last_one) 7 = first" "bit (VlpSequenceByte n first last_one) 6 = last_one"
    unfolding VlpSequenceByte_def m e by (auto simp: bit_simps simp del: push_bit_of_1)
  show "VlpSequenceByte n first last_one AND 0x0F = ucast n AND 0x0F"
    unfolding VlpSequenceByte_def m e by (rule bit_word_eqI) (auto simp: bit_simps simp del: push_bit_of_1)
qed

lemma rest_packets_last_flag:
  "i < length (rest_packets f n xs) \<Longrightarrow>
     bit (rest_packets f n xs ! i ! 4) 6 = (i + 1 = length (rest_packets f n xs)) \<and> \<not> bit (rest_packets f n xs ! i ! 4) 7"
proof (induction f n xs arbitrary: i rule: rest_packets.induct)
  case (2 f n x xs)
  define q where "q = VlpSequenceByte (n + 1) False (length (x # xs) \<le> 4090)"
  define r where "r = rest_packets f (n + 1) (drop 4090 (x # xs))"
  have e: "rest_packets f n (x # xs) = packet_bytes f q [] (take 4090 (x # xs)) # r"
    by (simp add: q_def r_def)
  have "r = [] \<longleftrightarrow> length (x # xs) \<le> 4090"
    unfolding r_def by (cases "drop 4090 (x # xs)") (auto simp del: drop_Suc_Cons)
  then have "bit q 6 = (length r = 0)" "\<not> bit q 7" by (simp_all add: q_def VlpSequenceByte_flags)
  with 2 show ?case unfolding e r_def [symmetric] by (cases i) (auto simp: packet_bytes_flag)
qed simp

lemma length_first_header: "length (first_header s) = 15"
  by (simp add: first_header_def PutBigEndian16_def)

lemma unat_VlpPacketCount:
  assumes "0 < n" "n \<le> 0xFFFFFF"
  shows "unat (VlpPacketCount (of_nat n)) = 1 + (n - 4075 + 4089) div 4090"
proof -
  have n: "unat (of_nat m :: u32) = m" if "m \<le> 0x1FFFFFF" for m
    using that by (simp add: unat_of_nat take_bit_nat_eq_self)
  have "unat (of_nat n :: u32) = n" using n [of n] assms(2) by simp
  then have z: "(of_nat n :: u32) \<noteq> 0" using assms(1) by (metis less_irrefl unsigned_0)
  show ?thesis
  proof (cases "n \<le> 4075")
    case True
    then have "(of_nat n :: u32) \<le> 4075" using n [of n] by (simp add: word_le_nat_alt)
    with True z show ?thesis
      by (simp add: VlpPacketCount_def kVlpImageReportBytes_def kVlpFirstHeaderBytes_def)
  next
    case False
    then have big: "\<not> (of_nat n :: u32) \<le> 4075" using n [of n] assms by (simp add: word_le_nat_alt)
    have "(of_nat n :: u32) - 4075 + 4090 - 1 = of_nat (n - 4075 + 4089)"
      using False by (simp add: of_nat_diff)
    then have "VlpPacketCount (of_nat n) = 1 + of_nat (n - 4075 + 4089) div 4090"
      using z big by (simp add: VlpPacketCount_def Let_def kVlpImageReportBytes_def kVlpFirstHeaderBytes_def
        kVlpContinuationHeaderBytes_def add.commute)
    also have "(of_nat (n - 4075 + 4089) :: u32) div 4090 = of_nat ((n - 4075 + 4089) div 4090)"
    proof (rule word_eq_iff_unsigned [where ?'a = nat, THEN iffD2])
      define m where "m = n - 4075 + 4089"
      have "m \<le> 0x1FFFFFF" "m div 4090 \<le> 0x1FFFFFF"
        using assms(2) div_le_dividend [of m 4090] unfolding m_def by linarith+
      with n [of m] n [of "m div 4090"] show "unat ((of_nat (n - 4075 + 4089) :: u32) div 4090) = unat (of_nat ((n - 4075 + 4089) div 4090) :: u32)"
        unfolding m_def [symmetric] by (simp add: unat_div)
    qed
    finally have "VlpPacketCount (of_nat n) = of_nat (1 + (n - 4075 + 4089) div 4090)" by simp
    moreover have "1 + (n - 4075 + 4089) div 4090 \<le> 0x1FFFFFF"
      using assms(2) div_le_dividend [of "n - 4075 + 4089" 4090] by linarith
    ultimately show ?thesis using n by metis
  qed
qed

lemma vlp_packets_begin:
  assumes "BeginVlpImageStream feature r defer (Some xs) = Some s"
  defines "packet \<equiv> packet_bytes feature (VlpSequenceByte 1 True (length xs \<le> 4075)) (first_header s) (take 4075 xs)"
  shows "xs \<noteq> [] \<and> length xs \<le> 0xFFFFFF \<and> vlp_packets s = packet # rest_packets feature 1 (drop 4075 xs)"
proof -
  have s: "stream_image s = Some xs" "stream_bytes s = of_nat (length xs)" "length xs \<le> 0xFFFFFF"
    "stream_offset s = of_nat 0" "stream_sequence s = 0" "stream_feature s = feature" "xs \<noteq> []"
    using assms(1) by (auto simp: BeginVlpImageStream_def kMaximumImageBytes_def split: if_splits)
  define c where "c = min (length xs) 4075"
  let ?s = "s\<lparr>stream_sequence := 1, stream_offset := of_nat c\<rparr>"
  have "vlp_packets ?s = rest_packets (stream_feature ?s) (stream_sequence ?s) (drop c xs)"
    by (rule rest_packets_stream) (use s in \<open>auto simp: c_def\<close>)
  moreover have "drop c xs = drop 4075 xs" "take c xs = take 4075 xs" "length xs \<le> c \<longleftrightarrow> length xs \<le> 4075"
    by (auto simp: c_def min_def)
  ultimately show ?thesis
    using NextVlpPacket_eq [OF s(1-4)] s
    by (subst vlp_packets.simps) (simp add: c_def [symmetric] packet_def)
qed

definition vlp_payload :: "u8 list list \<Rightarrow> u8 list" where
  "vlp_payload packets =
     drop (unat kVlpFirstHeaderBytes) (hd packets)
     @ concat (map (drop (unat kVlpContinuationHeaderBytes)) (tl packets))"

text \<open>C37: taking packets until there are none gives exactly the announced number of packets, each of the
  fixed report size, whose payloads, headers removed, are the image followed by the padding of the last
  one: no byte is lost, repeated or reordered. The first mark is on the first packet only, the last mark on
  the last packet only.\<close>

theorem image_stream_reassembles:
  assumes "BeginVlpImageStream feature r defer (Some xs) = Some s"
  shows "length (vlp_packets s) = unat (VlpPacketCount (of_nat (length xs))) \<and>
    list_all (\<lambda>packet. length packet = unat kVlpImageReportBytes) (vlp_packets s) \<and>
    take (length xs) (vlp_payload (vlp_packets s)) = xs \<and>
    map (\<lambda>packet. bit (packet ! 4) 7) (vlp_packets s) = True # replicate (length (vlp_packets s) - 1) False \<and>
    map (\<lambda>packet. bit (packet ! 4) 6) (vlp_packets s) = replicate (length (vlp_packets s) - 1) False @ [True]"
proof -
  define q where "q = VlpSequenceByte 1 True (length xs \<le> 4075)"
  define rest where "rest = rest_packets feature 1 (drop 4075 xs)"
  define p where "p = packet_bytes feature q (first_header s) (take 4075 xs)"
  note b = vlp_packets_begin [OF assms, folded q_def rest_def, folded p_def]
  have e: "vlp_packets s = p # rest" and xs: "0 < length xs" "length xs \<le> 0xFFFFFF" using b by auto
  have len: "length rest = (length xs - 4075 + 4089) div 4090"
    by (simp add: rest_def rest_packets_length)
  have sizes: "list_all (\<lambda>packet. length packet = unat kVlpImageReportBytes) (vlp_packets s)"
    using rest_packets_sizes [of _ feature 1 "drop 4075 xs", folded rest_def]
    by (auto simp: e p_def list_all_iff kVlpImageReportBytes_def length_packet_bytes length_first_header)
  obtain z where z: "concat (map (drop 5) rest) = drop 4075 xs @ z"
    using rest_packets_payload unfolding rest_def by blast
  obtain z' where z': "drop 20 p = take 4075 xs @ z'"
    using drop_packet_bytes [of "first_header s" feature q "take 4075 xs"] by (auto simp: p_def length_first_header)
  have "z' = []" if "\<not> length xs \<le> 4075"
    using drop_full_packet [of "first_header s" "take 4075 xs" feature q] z' that by (simp add: p_def length_first_header)
  then have "take (length xs) (vlp_payload (vlp_packets s)) = xs"
    using z z' by (cases "length xs \<le> 4075")
      (auto simp: vlp_payload_def e kVlpFirstHeaderBytes_def kVlpContinuationHeaderBytes_def simp flip: append_assoc)
  moreover have "p ! 4 = q" by (simp add: p_def packet_bytes_flag)
  moreover have "map (\<lambda>packet. bit (packet ! 4) 7) rest = replicate (length rest) False"
    using rest_packets_last_flag [of _ feature 1 "drop 4075 xs", folded rest_def]
    by (auto intro!: nth_equalityI)
  moreover have "map (\<lambda>packet. bit (packet ! 4) 6) (p # rest) = replicate (length rest) False @ [True]"
  proof (rule nth_equalityI)
    fix i assume "i < length (map (\<lambda>packet. bit (packet ! 4) 6) (p # rest))"
    moreover have "rest = [] \<longleftrightarrow> length xs \<le> 4075"
      by (simp add: rest_def flip: length_0_conv) (auto simp: rest_packets_length div_eq_0_iff)
    ultimately show "map (\<lambda>packet. bit (packet ! 4) 6) (p # rest) ! i = (replicate (length rest) False @ [True]) ! i"
      using rest_packets_last_flag [of "i - 1" feature 1 "drop 4075 xs", folded rest_def] \<open>p ! 4 = q\<close>
      by (cases i) (auto simp: q_def VlpSequenceByte_flags nth_append less_Suc_eq)
  qed simp
  ultimately show ?thesis
    using sizes by (auto simp: e len unat_VlpPacketCount [OF xs] q_def VlpSequenceByte_flags)
qed

lemma image_stream_reassembles_witness:
  "\<exists>s. BeginVlpImageStream 7 GridRegion True (Some (replicate 9000 1)) = Some s \<and> length (vlp_packets s) = 3 \<and>
    take 9000 (vlp_payload (vlp_packets s)) = replicate 9000 1"
proof -
  obtain s where s: "BeginVlpImageStream 7 GridRegion True (Some (replicate 9000 1)) = Some s"
    by (simp add: BeginVlpImageStream_def kMaximumImageBytes_def GridRegion_def kGridOriginX_def kGridOriginY_def
      kGridSize_def kPanelSize_def)
  from image_stream_reassembles [OF s] unat_VlpPacketCount [of 9000] s show ?thesis by auto
qed

section \<open>Input events\<close>

definition keys_agree :: "InputEvent \<Rightarrow> bool" where
  "keys_agree event \<longleftrightarrow>
     length (event_keys event) \<le> kKeyCount \<and> (\<forall>key \<in> set (event_keys event). 1 \<le> key \<and> key \<le> 9) \<and>
     (\<forall>i. bit (event_mask event) i \<longleftrightarrow> (\<exists>key \<in> set (event_keys event). unat key = i + 1))"

lemma key_scan_agree:
  "keys_agree event \<Longrightarrow> keys_agree (key_scan report event) \<and> event_kind (key_scan report event) = event_kind event"
proof (induction report event rule: key_scan.induct)
  case (2 key rest event)
  have "keys_agree (event\<lparr>event_keys := event_keys event @ [key],
                          event_mask := event_mask event OR push_bit (unat key - 1) 1\<rparr>)"
    if "(ucast key :: u16) \<ge> 1" "(ucast key :: u16) \<le> 9" "length (event_keys event) < kKeyCount"
  proof -
    have k: "1 \<le> unat key" "unat key \<le> 9"
      using that unsigned_less [of key, where ?'a = nat]
      by (simp_all add: word_le_nat_alt unsigned_ucast_eq take_bit_nat_eq_self)
    then have "bit (push_bit (unat key - 1) 1 :: u32) i \<longleftrightarrow> unat key = i + 1" for i
      by (auto simp: bit_simps)
    with 2(3) that(3) k show ?thesis by (auto simp: keys_agree_def bit_or_iff word_le_nat_alt)
  qed
  with 2 show ?case by (auto simp: kControlLcdKeyFirst_def kControlLcdKeyLast_def)
qed simp

text \<open>A report of the display names at most nine keys, each a key of the grid, and its mask has a bit for
  exactly the keys it names.\<close>

lemma display_keys_mask:
  assumes "ParseInputEvent buffer display reprog = Some event" "event_kind event = DisplayKeys"
  shows "length (event_keys event) \<le> kKeyCount \<and> list_all (\<lambda>key. 1 \<le> key \<and> key \<le> 9) (event_keys event) \<and>
    (\<forall>i. bit (event_mask event) i \<longleftrightarrow> i + 1 \<in> unat ` set (event_keys event))"
proof -
  have base: "keys_agree (InputEvent_init\<lparr>event_kind := k\<rparr>)" for k
    by (simp add: keys_agree_def InputEvent_init_def)
  have other: "event_kind (control_scan bytes ev) = event_kind ev" for bytes ev
    by (induction bytes ev rule: control_scan.induct) (auto simp: Let_def)
  have "keys_agree event"
    using assms base [THEN key_scan_agree]
    by (auto simp: ParseInputEvent_def other split: option.splits if_splits)
  moreover have "(\<exists>key \<in> set keys. unat key = i + 1) \<longleftrightarrow> i + 1 \<in> unat ` set keys" for keys :: "u8 list" and i
    by (metis imageE imageI)
  ultimately show ?thesis by (simp add: keys_agree_def list_all_iff)
qed

lemma display_keys_mask_witness:
  "\<exists>event. ParseInputEvent (Some [0x13, 0xFF, 7, 0, 0, 1, 3, 9, 0, 4]) 7 8 = Some event \<and> event_keys event = [3, 9] \<and>
    (\<forall>i. bit (event_mask event) i \<longleftrightarrow> i + 1 \<in> {3, 9})"
proof -
  have "map_option (\<lambda>e. (event_kind e, event_keys e)) (ParseInputEvent (Some [0x13, 0xFF, 7, 0, 0, 1, 3, 9, 0, 4]) 7 8)
      = Some (DisplayKeys, [3, 9])"
    by code_simp
  then obtain event where e: "ParseInputEvent (Some [0x13, 0xFF, 7, 0, 0, 1, 3, 9, 0, 4]) 7 8 = Some event"
    "event_kind event = DisplayKeys" "event_keys event = [3, 9]" by auto
  from display_keys_mask [OF e(1,2)] e show ?thesis by auto
qed

end
