(* ===== verification/Logicon_Device.thy ===== *)
theory Logicon_Device
  imports Logicon_Protocol Work_Lane
begin

text \<open>
  \<open>Logicon/LogiconDevice\<close>: one session with a HID++ device over its opened collections, on the device lane. The port of
  \<open>LogiconHid.h\<close> is the seam: its operations, the clock and the waits are functions of an environment state that every
  call threads through, so a device model (\<open>Logicon_Synthetic\<close>) can take their place.
\<close>

section \<open>The port\<close>

record HidCollectionInfo =
  outputReportBytes :: u32
  featureReportBytes :: u32
  outputReportMask :: u32
  featureReportMask :: u32

definition mask_supports :: "u32 \<Rightarrow> u8 \<Rightarrow> bool" where
  "mask_supports m rid \<longleftrightarrow> rid < 32 \<and> m AND push_bit (unat rid) 1 \<noteq> 0"

definition SupportsOutput :: "HidCollectionInfo \<Rightarrow> u8 \<Rightarrow> bool" where
  "SupportsOutput info rid = mask_supports (outputReportMask info) rid"

definition SupportsFeature :: "HidCollectionInfo \<Rightarrow> u8 \<Rightarrow> bool" where
  "SupportsFeature info rid = mask_supports (featureReportMask info) rid"

text \<open>
  A port is named by its place in the session. A report read is the bytes up to the capacity; \<open>S_FALSE\<close> says that none is
  ready. A wait ends with the stop event, with a report or its time run out, or fails.
\<close>

datatype wait_end = StopSignaled | WaitOver | WaitFailed u32

record 'e hid_ops =
  take_report :: "nat \<Rightarrow> nat \<Rightarrow> 'e \<Rightarrow> (hresult \<times> u8 list) \<times> 'e"
  write_report :: "nat \<Rightarrow> u8 list \<Rightarrow> bool \<Rightarrow> 'e \<Rightarrow> hresult \<times> 'e"
  set_feature :: "nat \<Rightarrow> u8 list \<Rightarrow> bool \<Rightarrow> 'e \<Rightarrow> hresult \<times> 'e"
  port_disconnected :: "nat \<Rightarrow> 'e \<Rightarrow> bool"
  tick_count :: "'e \<Rightarrow> u32"
  tick_count64 :: "'e \<Rightarrow> u64"
  wait_reports :: "bool \<Rightarrow> u64 \<Rightarrow> 'e \<Rightarrow> wait_end \<times> 'e"
  stop_signaled :: "'e \<Rightarrow> bool"

section \<open>State\<close>

definition kFeatureSet :: u16 where "kFeatureSet = 0x0001"
definition kFeatureReprogControls :: u16 where "kFeatureReprogControls = 0x1B04"
definition kFeatureContextualDisplay :: u16 where "kFeatureContextualDisplay = 0x19A1"
definition kFeatureBrightness :: u16 where "kFeatureBrightness = 0x8040"
definition kCidReportingDivert :: u8 where "kCidReportingDivert = 0x03"
definition kMaximumHidCollections :: nat where "kMaximumHidCollections = 4"
definition kInputBufferBytes :: nat where "kInputBufferBytes = 4096"
definition kCommandTimeoutMilliseconds :: u64 where "kCommandTimeoutMilliseconds = 1000"
definition kTraceSlots :: nat where "kTraceSlots = 32"
definition kTraceBytes :: nat where "kTraceBytes = 24"
definition kMaximumSavedControls :: nat where "kMaximumSavedControls = 4"
definition kObservedDisplayFeatureIndex :: u8 where "kObservedDisplayFeatureIndex = 0x02"

record DeviceFeatures =
  display :: u8
  reprogControls :: u8
  brightness :: u8
  displayAssumed :: bool

datatype DeviceRole = Keypad | Dialpad

record ControlState =
  keys :: u32
  pageButtons :: u32
  dialButtons :: u32

record ControlEdges =
  keysDown :: u32
  pageButtonsDown :: u32
  dialButtonsDown :: u32

record TraceEntry =
  trace_tick :: u32
  trace_length :: nat
  outbound :: bool
  trace_bytes :: "u8 list"

record LookupRecord =
  lookup_feature :: u16
  lookup_result :: hresult
  lookup_params :: "u8 list"

record DeviceCounters =
  reportsIn :: u32
  reportsOut :: u32
  imagePackets :: u32
  imagesWritten :: u32
  commandErrors :: u32
  lastHidppError :: u32
  lastFailure :: hresult

text \<open>The saved controls with their count are a list.\<close>

record DeviceSession =
  ports :: "HidCollectionInfo list"
  role :: DeviceRole
  features :: DeviceFeatures
  controls :: ControlState
  edges :: ControlEdges
  counters :: DeviceCounters
  lastLookup :: LookupRecord
  savedControls :: "CidReporting list"
  divertedDialButtons :: u32
  connected :: bool
  restored :: bool
  trace :: "TraceEntry list"
  traceHead :: nat
  traceCount :: nat

definition DeviceFeatures_init :: DeviceFeatures where
  "DeviceFeatures_init = \<lparr>display = 0, reprogControls = 0, brightness = 0, displayAssumed = False\<rparr>"

definition ControlState_init :: ControlState where
  "ControlState_init = \<lparr>keys = 0, pageButtons = 0, dialButtons = 0\<rparr>"

definition ControlEdges_init :: ControlEdges where
  "ControlEdges_init = \<lparr>keysDown = 0, pageButtonsDown = 0, dialButtonsDown = 0\<rparr>"

definition TraceEntry_init :: TraceEntry where
  "TraceEntry_init = \<lparr>trace_tick = 0, trace_length = 0, outbound = False, trace_bytes = replicate kTraceBytes 0\<rparr>"

definition DeviceSession_init :: DeviceSession where
  "DeviceSession_init =
     \<lparr>ports = [], role = Keypad, features = DeviceFeatures_init, controls = ControlState_init, edges = ControlEdges_init,
      counters = \<lparr>reportsIn = 0, reportsOut = 0, imagePackets = 0, imagesWritten = 0, commandErrors = 0,
                  lastHidppError = 0, lastFailure = S_OK\<rparr>,
      lastLookup = \<lparr>lookup_feature = 0, lookup_result = S_OK, lookup_params = []\<rparr>,
      savedControls = [], divertedDialButtons = 0, connected = False, restored = True,
      trace = replicate kTraceSlots TraceEntry_init, traceHead = 0, traceCount = 0\<rparr>"

section \<open>Ports of a session\<close>

definition AttachPort :: "HidCollectionInfo option \<Rightarrow> DeviceSession \<Rightarrow> hresult \<times> DeviceSession" where
  "AttachPort port s =
     (case port of
        None \<Rightarrow> (E_POINTER, s)
      | Some info \<Rightarrow>
          if length (ports s) \<ge> kMaximumHidCollections then (HRESULT_FROM_WIN32 68, s)
          else (S_OK, s\<lparr>ports := ports s @ [info]\<rparr>))"

definition Detach :: "DeviceSession \<Rightarrow> DeviceSession" where
  "Detach s = s\<lparr>ports := [], role := Keypad, features := DeviceFeatures_init, controls := ControlState_init,
     edges := ControlEdges_init, savedControls := [], divertedDialButtons := 0, connected := False, restored := True\<rparr>"

definition Disconnected :: "'e hid_ops \<Rightarrow> DeviceSession \<Rightarrow> 'e \<Rightarrow> bool" where
  "Disconnected ops s e \<longleftrightarrow> ports s = [] \<or> list_ex (\<lambda>i. port_disconnected ops i e) [0..<length (ports s)]"

definition Connected :: "'e hid_ops \<Rightarrow> DeviceSession \<Rightarrow> 'e \<Rightarrow> bool" where
  "Connected ops s e \<longleftrightarrow> connected s \<and> \<not> Disconnected ops s e"

definition widest_port :: "HidCollectionInfo list \<Rightarrow> nat option" where
  "widest_port infos =
     fold (\<lambda>i widest. case widest of
                         None \<Rightarrow> Some i
                       | Some w \<Rightarrow> if outputReportBytes (infos ! i) > outputReportBytes (infos ! w) then Some i else widest)
       [0..<length infos] None"

definition PortForOutput :: "DeviceSession \<Rightarrow> u8 \<Rightarrow> nat option" where
  "PortForOutput s rid =
     (case find (\<lambda>i. SupportsOutput (ports s ! i) rid) [0..<length (ports s)] of
        Some i \<Rightarrow> Some i
      | None \<Rightarrow> widest_port (ports s))"

definition PortForFeature :: "DeviceSession \<Rightarrow> u8 \<Rightarrow> nat option" where
  "PortForFeature s rid =
     (case find (\<lambda>i. SupportsFeature (ports s ! i) rid) [0..<length (ports s)] of
        Some i \<Rightarrow> Some i
      | None \<Rightarrow> find (\<lambda>i. featureReportBytes (ports s ! i) \<noteq> 0) [0..<length (ports s)])"

section \<open>Trace and input\<close>

definition Trace :: "u32 \<Rightarrow> u8 list \<Rightarrow> bool \<Rightarrow> DeviceSession \<Rightarrow> DeviceSession" where
  "Trace tick report out s =
     (let slot = (traceHead s + traceCount s) mod kTraceSlots;
          s = (if traceCount s = kTraceSlots then s\<lparr>traceHead := (traceHead s + 1) mod kTraceSlots\<rparr>
               else s\<lparr>traceCount := traceCount s + 1\<rparr>)
      in s\<lparr>trace := (trace s)[slot := \<lparr>trace_tick = tick, trace_length = length report, outbound = out,
                                    trace_bytes = zero_filled kTraceBytes (take kTraceBytes report)\<rparr>]\<rparr>)"

definition CopyTrace :: "nat \<Rightarrow> DeviceSession \<Rightarrow> TraceEntry list" where
  "CopyTrace capacity s =
     (let n = min capacity (traceCount s); skip = traceCount s - n
      in map (\<lambda>i. trace s ! ((traceHead s + skip + i) mod kTraceSlots)) [0..<n])"

text \<open>\<open>changed\<close> is what the handling of one report adds to it.\<close>

definition HandleInput :: "u32 \<Rightarrow> u8 list \<Rightarrow> DeviceSession \<Rightarrow> bool \<times> DeviceSession" where
  "HandleInput tick report s =
     (let s = Trace tick report False (s\<lparr>counters := (counters s)\<lparr>reportsIn := reportsIn (counters s) + 1\<rparr>\<rparr>)
      in case ParseInputEvent (Some report) (display (features s)) (reprogControls (features s)) of
           None \<Rightarrow> (False, s)
         | Some event \<Rightarrow>
             (case event_kind event of
                DisplayKeys \<Rightarrow>
                  (keys (controls s) \<noteq> event_mask event,
                   s\<lparr>edges := (edges s)\<lparr>keysDown := keysDown (edges s) OR (event_mask event AND NOT (keys (controls s)))\<rparr>,
                     controls := (controls s)\<lparr>keys := event_mask event\<rparr>\<rparr>)
              | DivertedButtons \<Rightarrow>
                  if role s = Dialpad then
                    (let m = DialpadButtonMask event
                     in (dialButtons (controls s) \<noteq> m,
                         s\<lparr>edges := (edges s)\<lparr>dialButtonsDown :=
                                       dialButtonsDown (edges s) OR (m AND NOT (dialButtons (controls s)))\<rparr>,
                           controls := (controls s)\<lparr>dialButtons := m\<rparr>\<rparr>))
                  else
                    (pageButtons (controls s) \<noteq> event_mask event,
                     s\<lparr>edges := (edges s)\<lparr>pageButtonsDown :=
                                   pageButtonsDown (edges s) OR (event_mask event AND NOT (pageButtons (controls s)))\<rparr>,
                       controls := (controls s)\<lparr>pageButtons := event_mask event\<rparr>\<rparr>)
              | InputNone \<Rightarrow> (False, s)))"

definition WriteReport :: "'e hid_ops \<Rightarrow> u8 list \<Rightarrow> bool \<Rightarrow> DeviceSession \<Rightarrow> 'e \<Rightarrow> hresult \<times> DeviceSession \<times> 'e" where
  "WriteReport ops report stop s e =
     (if report = [] then (E_POINTER, s, e)
      else (case PortForOutput s (hd report) of
              None \<Rightarrow> (HRESULT_FROM_WIN32 50, s, e)
            | Some port \<Rightarrow>
                (let (result, e) = write_report ops port report stop e
                 in if FAILED result then (result, s\<lparr>counters := (counters s)\<lparr>lastFailure := result\<rparr>\<rparr>, e)
                    else
                      (let s = s\<lparr>counters := (counters s)\<lparr>reportsOut := reportsOut (counters s) + 1\<rparr>\<rparr>
                       in (S_OK,
                           if hd report \<noteq> kReportVlpImage \<or> report ! 4 AND 0x80 \<noteq> 0
                           then Trace (tick_count ops e) report True s else s,
                           e)))))"

text \<open>\<open>Pump\<close>: at most 64 reports of each port; a failure ends it. The edges go to the caller in every case.\<close>

primrec pump_port ::
    "'e hid_ops \<Rightarrow> nat \<Rightarrow> nat \<Rightarrow> bool \<Rightarrow> DeviceSession \<Rightarrow> 'e \<Rightarrow> hresult \<times> bool \<times> DeviceSession \<times> 'e" where
  "pump_port ops port 0 changed s e = (S_OK, changed, s, e)"
| "pump_port ops port (Suc n) changed s e =
     (let ((result, report), e) = take_report ops port kInputBufferBytes e
      in if result = S_FALSE then (S_OK, changed, s, e)
         else if FAILED result then (result, changed, s\<lparr>counters := (counters s)\<lparr>lastFailure := result\<rparr>\<rparr>, e)
         else (let (input, s) = HandleInput (tick_count ops e) report s
               in pump_port ops port n (changed \<or> input) s e))"

fun pump_ports ::
    "'e hid_ops \<Rightarrow> nat list \<Rightarrow> bool \<Rightarrow> DeviceSession \<Rightarrow> 'e \<Rightarrow> hresult \<times> bool \<times> DeviceSession \<times> 'e" where
  "pump_ports ops [] changed s e = (S_OK, changed, s, e)"
| "pump_ports ops (port # rest) changed s e =
     (let (result, changed, s, e) = pump_port ops port 64 changed s e
      in if FAILED result then (result, changed, s, e) else pump_ports ops rest changed s e)"

definition Pump ::
    "'e hid_ops \<Rightarrow> DeviceSession \<Rightarrow> 'e \<Rightarrow> hresult \<times> bool \<times> ControlEdges \<times> DeviceSession \<times> 'e" where
  "Pump ops s e =
     (let (result, changed, s, e) = pump_ports ops [0..<length (ports s)] False s e
      in (result, changed, edges s, s\<lparr>edges := ControlEdges_init\<rparr>, e))"

section \<open>Commands\<close>

definition CommandFailure :: "HidppFrame \<Rightarrow> hresult" where
  "CommandFailure frame =
     (if errorCode frame = 5 \<or> errorCode frame = 6 then HRESULT_FROM_WIN32 50
      else if errorCode frame = 7 then HRESULT_FROM_WIN32 170
      else HRESULT_FROM_WIN32 1)"

text \<open>
  The drain of \<open>SendCommand\<close>: it ends at the answer, at a failed read, or with every port empty (or 64 reports read).
\<close>

datatype drain_end = Answered HidppFrame | ReadFailed hresult | Drained

primrec drain_port ::
    "'e hid_ops \<Rightarrow> u8 \<Rightarrow> u8 \<Rightarrow> nat \<Rightarrow> nat \<Rightarrow> DeviceSession \<Rightarrow> 'e \<Rightarrow> drain_end \<times> DeviceSession \<times> 'e" where
  "drain_port ops feature func port 0 s e = (Drained, s, e)"
| "drain_port ops feature func port (Suc n) s e =
     (let ((result, report), e) = take_report ops port kInputBufferBytes e
      in if result = S_FALSE then (Drained, s, e)
         else if FAILED result then (ReadFailed result, s\<lparr>counters := (counters s)\<lparr>lastFailure := result\<rparr>\<rparr>, e)
         else (case ParseHidppFrame (Some report) of
                 Some frame \<Rightarrow>
                   if FrameAnswers frame feature func then
                     (Answered frame,
                      Trace (tick_count ops e) report False
                        (s\<lparr>counters := (counters s)\<lparr>reportsIn := reportsIn (counters s) + 1\<rparr>\<rparr>), e)
                   else drain_port ops feature func port n (snd (HandleInput (tick_count ops e) report s)) e
               | None \<Rightarrow> drain_port ops feature func port n (snd (HandleInput (tick_count ops e) report s)) e))"

fun drain_ports ::
    "'e hid_ops \<Rightarrow> u8 \<Rightarrow> u8 \<Rightarrow> nat list \<Rightarrow> DeviceSession \<Rightarrow> 'e \<Rightarrow> drain_end \<times> DeviceSession \<times> 'e" where
  "drain_ports ops feature func [] s e = (Drained, s, e)"
| "drain_ports ops feature func (port # rest) s e =
     (case drain_port ops feature func port 64 s e of
        (Drained, s, e) \<Rightarrow> drain_ports ops feature func rest s e
      | ended \<Rightarrow> ended)"

text \<open>
  The wait for an answer. The loop has no bound of its own: it ends when the clock reaches the deadline, so a command over
  an environment whose clock stands still need not return (\<open>None\<close>). The result is the code's and the response frame.
\<close>

partial_function (option) await_answer ::
    "'e hid_ops \<Rightarrow> u8 \<Rightarrow> u8 \<Rightarrow> bool \<Rightarrow> u64 \<Rightarrow> DeviceSession \<Rightarrow> 'e \<Rightarrow> (hresult \<times> HidppFrame \<times> DeviceSession \<times> 'e) option" where
  "await_answer ops feature func stop deadline s e =
     (case drain_ports ops feature func [0..<length (ports s)] s e of
        (Answered frame, s, e) \<Rightarrow>
          if frame_error frame then
            Some (CommandFailure frame, frame,
                  s\<lparr>counters := (counters s)\<lparr>commandErrors := commandErrors (counters s) + 1,
                                            lastHidppError := ucast (errorCode frame)\<rparr>\<rparr>, e)
          else Some (S_OK, frame, s, e)
      | (ReadFailed result, s, e) \<Rightarrow> Some (result, HidppFrame_init, s, e)
      | (Drained, s, e) \<Rightarrow>
          (let now = tick_count64 ops e
           in if now \<ge> deadline then
                Some (HRESULT_FROM_WIN32 1460, HidppFrame_init,
                      s\<lparr>counters := (counters s)\<lparr>commandErrors := commandErrors (counters s) + 1,
                                                lastFailure := HRESULT_FROM_WIN32 1460\<rparr>\<rparr>, e)
              else
                (case wait_reports ops stop (deadline - now) e of
                   (StopSignaled, e) \<Rightarrow>
                     if stop then Some (HRESULT_FROM_WIN32 1223, HidppFrame_init, s, e)
                     else await_answer ops feature func stop deadline s e
                 | (WaitFailed code, e) \<Rightarrow> Some (HRESULT_FROM_WIN32 code, HidppFrame_init, s, e)
                 | (WaitOver, e) \<Rightarrow> await_answer ops feature func stop deadline s e)))"

declare await_answer.simps [code]

definition SendCommand ::
    "'e hid_ops \<Rightarrow> u8 \<Rightarrow> u8 \<Rightarrow> u8 list \<Rightarrow> bool \<Rightarrow> DeviceSession \<Rightarrow> 'e
     \<Rightarrow> (hresult \<times> HidppFrame \<times> DeviceSession \<times> 'e) option" where
  "SendCommand ops feature func params stop s e =
     (case BuildLongReport kDeviceIndexWired feature func (Some params) (length params) kLongReportBytes of
        None \<Rightarrow> Some (E_INVALIDARG, HidppFrame_init, s, e)
      | Some report \<Rightarrow>
          (let (result, s, e) = WriteReport ops report stop s e
           in if FAILED result then Some (result, HidppFrame_init, s, e)
              else await_answer ops feature func stop (tick_count64 ops e + kCommandTimeoutMilliseconds) s e))"

definition frame_bytes :: "HidppFrame \<Rightarrow> u8 list" where
  "frame_bytes frame = (case frame_params frame of None \<Rightarrow> [] | Some p \<Rightarrow> p)"

text \<open>\<open>params[0]\<close> of a response, 0 when it has none.\<close>

definition first_param :: "HidppFrame \<Rightarrow> u8" where
  "first_param frame = (case frame_bytes frame of [] \<Rightarrow> 0 | b # _ \<Rightarrow> b)"

section \<open>Features\<close>

text \<open>The walk of \<open>IFeatureSet\<close>; a lookup gives its result and the index, 0 unless it was found.\<close>

fun feature_walk ::
    "'e hid_ops \<Rightarrow> u16 \<Rightarrow> u8 \<Rightarrow> nat list \<Rightarrow> bool \<Rightarrow> DeviceSession \<Rightarrow> 'e \<Rightarrow> (hresult \<times> u8 \<times> DeviceSession \<times> 'e) option" where
  "feature_walk ops featureId setIndex [] stop s e = Some (HRESULT_FROM_WIN32 50, 0, s, e)"
| "feature_walk ops featureId setIndex (candidate # rest) stop s e =
     (case SendCommand ops setIndex 1 [of_nat candidate] stop s e of
        None \<Rightarrow> None
      | Some (result, response, s, e) \<Rightarrow>
          if FAILED result then Some (result, 0, s, e)
          else if length (frame_bytes response) \<ge> 2 \<and>
                  GetBigEndian16 (frame_bytes response ! 0) (frame_bytes response ! 1) = featureId
          then Some (S_OK, of_nat candidate, s, e)
          else feature_walk ops featureId setIndex rest stop s e)"

definition ResolveFeatureThroughSet ::
    "'e hid_ops \<Rightarrow> u16 \<Rightarrow> bool \<Rightarrow> DeviceSession \<Rightarrow> 'e \<Rightarrow> (hresult \<times> u8 \<times> DeviceSession \<times> 'e) option" where
  "ResolveFeatureThroughSet ops featureId stop s e =
     (case SendCommand ops 0 0 [0x00, 0x01, 0x00] stop s e of
        None \<Rightarrow> None
      | Some (result, response, s, e) \<Rightarrow>
          if FAILED result then Some (result, 0, s, e)
          else if first_param response = 0 then Some (HRESULT_FROM_WIN32 50, 0, s, e)
          else
            (let setIndex = first_param response
             in case SendCommand ops setIndex 0 [] stop s e of
                  None \<Rightarrow> None
                | Some (result, response, s, e) \<Rightarrow>
                    if FAILED result then Some (result, 0, s, e)
                    else feature_walk ops featureId setIndex [1..<min (unat (first_param response)) 64 + 1] stop s e))"

definition ResolveFeature ::
    "'e hid_ops \<Rightarrow> u16 \<Rightarrow> bool \<Rightarrow> DeviceSession \<Rightarrow> 'e \<Rightarrow> (hresult \<times> u8 \<times> DeviceSession \<times> 'e) option" where
  "ResolveFeature ops featureId stop s e =
     (case SendCommand ops 0 0 (PutBigEndian16 featureId @ [0]) stop s e of
        None \<Rightarrow> None
      | Some (result, response, s, e) \<Rightarrow>
          (let s = s\<lparr>lastLookup := \<lparr>lookup_feature = featureId, lookup_result = result,
                      lookup_params = (if SUCCEEDED result then take 8 (frame_bytes response) else [])\<rparr>\<rparr>
           in if FAILED result then Some (result, 0, s, e)
              else if first_param response \<noteq> 0 then Some (S_OK, first_param response, s, e)
              else ResolveFeatureThroughSet ops featureId stop s e))"

section \<open>Controls\<close>

definition divert_params :: "u16 \<Rightarrow> u8 \<Rightarrow> u16 \<Rightarrow> u8 \<Rightarrow> u8 list" where
  "divert_params control flags remap_to flags_two = PutBigEndian16 control @ [flags] @ PutBigEndian16 remap_to @ [flags_two]"

fun divert_each ::
    "'e hid_ops \<Rightarrow> u16 list \<Rightarrow> bool \<Rightarrow> DeviceSession \<Rightarrow> 'e \<Rightarrow> (hresult \<times> DeviceSession \<times> 'e) option" where
  "divert_each ops [] stop s e = Some (S_OK, s, e)"
| "divert_each ops (control # rest) stop s e =
     (case SendCommand ops (reprogControls (features s)) 2 (PutBigEndian16 control) stop s e of
        None \<Rightarrow> None
      | Some (result, response, s, e) \<Rightarrow>
          if FAILED result then Some (result, s, e)
          else (case ParseCidReporting response of
                  None \<Rightarrow> Some (HRESULT_FROM_WIN32 13, s, e)
                | Some reporting \<Rightarrow>
                    (let s = s\<lparr>savedControls := savedControls s @ [reporting\<lparr>controlId := control\<rparr>]\<rparr>
                     in case SendCommand ops (reprogControls (features s)) 3
                               (divert_params control (cid_flags reporting OR kCidReportingDivert) (remap reporting)
                                  (flags2 reporting)) stop s e of
                          None \<Rightarrow> None
                        | Some (result, response, s, e) \<Rightarrow>
                            if FAILED result then Some (result, s, e) else divert_each ops rest stop s e)))"

definition DivertControls ::
    "'e hid_ops \<Rightarrow> u16 list \<Rightarrow> bool \<Rightarrow> DeviceSession \<Rightarrow> 'e \<Rightarrow> (hresult \<times> DeviceSession \<times> 'e) option" where
  "DivertControls ops cs stop s e =
     (if length cs > kMaximumSavedControls then Some (E_INVALIDARG, s, e)
      else divert_each ops cs stop (s\<lparr>savedControls := []\<rparr>) e)"

section \<open>Connecting\<close>

definition Connect :: "'e hid_ops \<Rightarrow> bool \<Rightarrow> DeviceSession \<Rightarrow> 'e \<Rightarrow> (hresult \<times> DeviceSession \<times> 'e) option" where
  "Connect ops stop s e =
     (if ports s = [] \<or> PortForOutput s kReportLong = None then Some (HRESULT_FROM_WIN32 1167, s, e)
      else
        (case ResolveFeature ops kFeatureContextualDisplay stop
                (s\<lparr>connected := False, role := Keypad, features := DeviceFeatures_init, controls := ControlState_init\<rparr>) e of
           None \<Rightarrow> None
         | Some (result, index, s, e) \<Rightarrow>
             (let assumed = (result = HRESULT_FROM_WIN32 50);
                  s = s\<lparr>features := (features s)\<lparr>display := (if assumed then kObservedDisplayFeatureIndex else index),
                                               displayAssumed := assumed\<rparr>\<rparr>
              in if FAILED result \<and> \<not> assumed then Some (result, s, e)
                 else
                   (case ResolveFeature ops kFeatureReprogControls stop s e of
                      None \<Rightarrow> None
                    | Some (result, index, s, e) \<Rightarrow>
                        (let s = s\<lparr>features := (features s)\<lparr>reprogControls := index\<rparr>\<rparr>
                         in if FAILED result then Some (result, s, e)
                            else
                              (case ResolveFeature ops kFeatureBrightness stop s e of
                                 None \<Rightarrow> None
                               | Some (_, index, s, e) \<Rightarrow>
                                   (case DivertControls ops [kControlPagePrevious, kControlPageNext] stop
                                           (s\<lparr>features := (features s)\<lparr>brightness := index\<rparr>\<rparr>) e of
                                      None \<Rightarrow> None
                                    | Some (result, s, e) \<Rightarrow>
                                        if FAILED result then Some (result, s, e)
                                        else Some (S_OK, s\<lparr>connected := True, restored := False\<rparr>, e))))))))"

definition dialpad_mask :: "u32 \<Rightarrow> u32" where
  "dialpad_mask buttonMask = buttonMask AND (push_bit (length kDialpadControls) 1 - 1)"

definition ConnectDialpad ::
    "'e hid_ops \<Rightarrow> bool \<Rightarrow> u32 \<Rightarrow> DeviceSession \<Rightarrow> 'e \<Rightarrow> (hresult \<times> DeviceSession \<times> 'e) option" where
  "ConnectDialpad ops stop buttonMask s e =
     (if ports s = [] \<or> PortForOutput s kReportLong = None then Some (HRESULT_FROM_WIN32 1167, s, e)
      else
        (let s = s\<lparr>connected := False, role := Dialpad, features := DeviceFeatures_init, controls := ControlState_init,
                   divertedDialButtons := 0\<rparr>
         in if dialpad_mask buttonMask = 0 then
              Some (S_OK, s\<lparr>savedControls := [], connected := True, restored := False\<rparr>, e)
            else
              (case ResolveFeature ops kFeatureReprogControls stop s e of
                 None \<Rightarrow> None
               | Some (result, index, s, e) \<Rightarrow>
                   (let s = s\<lparr>features := (features s)\<lparr>reprogControls := index\<rparr>\<rparr>
                    in if FAILED result then Some (result, s, e)
                       else
                         (case DivertControls ops
                                 (map snd (filter (\<lambda>(button, _). bit buttonMask button) (enumerate 0 kDialpadControls)))
                                 stop s e of
                            None \<Rightarrow> None
                          | Some (result, s, e) \<Rightarrow>
                              if FAILED result then Some (result, s, e)
                              else Some (S_OK, s\<lparr>divertedDialButtons := dialpad_mask buttonMask, connected := True,
                                                restored := False\<rparr>, e))))))"

section \<open>Restoring and drawing\<close>

text \<open>The loop of \<open>Restore\<close>: the first failure and whether the device still answers.\<close>

fun restore_each ::
    "'e hid_ops \<Rightarrow> CidReporting list \<Rightarrow> bool \<Rightarrow> hresult \<Rightarrow> DeviceSession \<Rightarrow> 'e
     \<Rightarrow> (hresult \<times> bool \<times> DeviceSession \<times> 'e) option" where
  "restore_each ops [] stop failure s e = Some (failure, True, s, e)"
| "restore_each ops (saved # rest) stop failure s e =
     (case SendCommand ops (reprogControls (features s)) 3
             (divert_params (controlId saved) (cid_flags saved) (remap saved) (flags2 saved)) stop s e of
        None \<Rightarrow> None
      | Some (result, response, s, e) \<Rightarrow>
          (let failure = (if FAILED result \<and> SUCCEEDED failure then result else failure)
           in if SUCCEEDED result \<or> frame_error response then restore_each ops rest stop failure s e
              else Some (failure, False, s, e)))"

definition Restore ::
    "'e hid_ops \<Rightarrow> bool \<Rightarrow> bool \<Rightarrow> DeviceSession \<Rightarrow> 'e \<Rightarrow> (hresult \<times> DeviceSession \<times> 'e) option" where
  "Restore ops stop resetToLogo s e =
     (if restored s \<or> ports s = [] \<or> Disconnected ops s e then Some (S_OK, s\<lparr>restored := True\<rparr>, e)
      else
        (case restore_each ops (savedControls s) stop S_OK s e of
           None \<Rightarrow> None
         | Some (failure, answering, s, e) \<Rightarrow>
             (let (failure, e) =
                (if resetToLogo \<and> answering then
                   (case (PortForFeature s 0x03, BuildResetToLogoFeatureReport kFeatureResetReportBytes) of
                      (Some port, Some report) \<Rightarrow>
                        (let (result, e) = set_feature ops port report stop e
                         in (if FAILED result \<and> SUCCEEDED failure then result else failure, e))
                    | _ \<Rightarrow> (failure, e))
                 else (failure, e))
              in Some (failure, s\<lparr>restored := True, connected := False\<rparr>, e))))"

definition SetBrightness ::
    "'e hid_ops \<Rightarrow> u32 \<Rightarrow> bool \<Rightarrow> DeviceSession \<Rightarrow> 'e \<Rightarrow> hresult \<times> DeviceSession \<times> 'e" where
  "SetBrightness ops percent stop s e =
     (if \<not> connected s then (HRESULT_FROM_WIN32 1167, s, e)
      else if brightness (features s) = 0 then (HRESULT_FROM_WIN32 50, s, e)
      else (case BuildSetBrightnessReport kDeviceIndexWired (brightness (features s)) percent kLongReportBytes of
              None \<Rightarrow> (E_INVALIDARG, s, e)
            | Some report \<Rightarrow> WriteReport ops report stop s e))"

text \<open>The packets do not depend on the writes, so the loop is over the packets of the stream.\<close>

fun write_packets ::
    "'e hid_ops \<Rightarrow> u8 list list \<Rightarrow> bool \<Rightarrow> DeviceSession \<Rightarrow> 'e \<Rightarrow> hresult \<times> DeviceSession \<times> 'e" where
  "write_packets ops [] stop s e =
     (S_OK, s\<lparr>counters := (counters s)\<lparr>imagesWritten := imagesWritten (counters s) + 1\<rparr>\<rparr>, e)"
| "write_packets ops (packet # rest) stop s e =
     (if stop \<and> stop_signaled ops e then (HRESULT_FROM_WIN32 1223, s, e)
      else
        (let (result, s, e) = WriteReport ops packet stop s e
         in if FAILED result then (result, s, e)
            else write_packets ops rest stop
                   (s\<lparr>counters := (counters s)\<lparr>imagePackets := imagePackets (counters s) + 1\<rparr>\<rparr>) e))"

definition WriteImage ::
    "'e hid_ops \<Rightarrow> ImageRegion \<Rightarrow> u8 list option \<Rightarrow> bool \<Rightarrow> bool \<Rightarrow> DeviceSession \<Rightarrow> 'e \<Rightarrow> hresult \<times> DeviceSession \<times> 'e" where
  "WriteImage ops region jpeg defer stop s e =
     (if \<not> connected s then (HRESULT_FROM_WIN32 1167, s, e)
      else (case BeginVlpImageStream (display (features s)) region defer jpeg of
              None \<Rightarrow> (E_INVALIDARG, s, e)
            | Some stream \<Rightarrow> write_packets ops (vlp_packets stream) stop s e))"

end
