(* ===== verification/Logicon_Restore.thy ===== *)
theory Logicon_Restore
  imports Logicon_Device
begin

text \<open>
  What a lane does to the controls of a Logicon device between connecting and restoring: no command changes the setup of
  the session, a wait goes turn by turn, and - over the interface \<open>reporting_device\<close>, what the lane relies on in a device -
  Connect saves the flags it changes, the lane's work keeps them, and Restore puts them back.
\<close>

section \<open>What a command leaves of the session\<close>

text \<open>What no command changes: the setup of the session.\<close>

definition same_setup :: "DeviceSession \<Rightarrow> DeviceSession \<Rightarrow> bool" where
  "same_setup s s' \<longleftrightarrow>
     ports s' = ports s \<and> role s' = role s \<and> features s' = features s \<and> savedControls s' = savedControls s \<and>
     divertedDialButtons s' = divertedDialButtons s \<and> connected s' = connected s \<and> restored s' = restored s"

lemma same_setup_refl [simp]: "same_setup s s"
  by (simp add: same_setup_def)

lemma same_setup_trans [trans]: "same_setup s t \<Longrightarrow> same_setup t u \<Longrightarrow> same_setup s u"
  by (simp add: same_setup_def)

lemma same_setup_sel:
  "same_setup s s' \<Longrightarrow> ports s' = ports s" "same_setup s s' \<Longrightarrow> features s' = features s"
  "same_setup s s' \<Longrightarrow> savedControls s' = savedControls s" "same_setup s s' \<Longrightarrow> connected s' = connected s"
  "same_setup s s' \<Longrightarrow> restored s' = restored s" "same_setup s s' \<Longrightarrow> role s' = role s"
  by (simp_all add: same_setup_def)

lemma same_setup_updates [simp]:
  "same_setup s (s\<lparr>counters := c\<rparr>)" "same_setup s (Trace tick report out s)" "same_setup s (snd (HandleInput tick report s))"
  "same_setup s (s\<lparr>lastLookup := l\<rparr>)" "same_setup s (s\<lparr>edges := d\<rparr>)"
  by (auto simp: same_setup_def Trace_def HandleInput_def Let_def split: option.splits InputKind.splits)

lemma WriteReport_setup: "WriteReport ops report stop s e = (hr, s', e') \<Longrightarrow> same_setup s s'"
  by (auto simp: WriteReport_def Let_def same_setup_def Trace_def split: if_splits option.splits prod.splits)

lemma drain_port_setup: "drain_port ops f fn port n s e = (r, s', e') \<Longrightarrow> same_setup s s'"
proof (induction n arbitrary: s e)
  case (Suc n)
  obtain hr report e1 where t: "take_report ops port kInputBufferBytes e = ((hr, report), e1)" by (metis prod.exhaust)
  have step: "same_setup s s'" if "drain_port ops f fn port n (snd (HandleInput (tick_count ops e1) report s)) e1 = (r, s', e')"
    using same_setup_trans [OF same_setup_updates(3) Suc.IH [OF that]] .
  have traced: "same_setup s (Trace (tick_count ops e1) report False (s\<lparr>counters := c\<rparr>))" for c
    using same_setup_trans [OF same_setup_updates(1) same_setup_updates(2)] .
  show ?case
    using Suc.prems step traced by (auto simp: t split: if_splits option.splits)
qed simp

lemma drain_ports_setup: "drain_ports ops f fn ps s e = (r, s', e') \<Longrightarrow> same_setup s s'"
proof (induction ps arbitrary: s e)
  case (Cons p ps)
  obtain d s1 e1 where d: "drain_port ops f fn p 64 s e = (d, s1, e1)" by (metis prod.exhaust)
  show ?case
    using Cons drain_port_setup [OF d] by (cases d) (auto simp: d intro: same_setup_trans)
qed simp

text \<open>The loop of a wait by its turns: the last one ends with an answer, or without; every other one waits and goes on.\<close>

definition answered :: "HidppFrame \<Rightarrow> DeviceSession \<Rightarrow> 'e \<Rightarrow> hresult \<times> HidppFrame \<times> DeviceSession \<times> 'e" where
  "answered frame s e =
     (if frame_error frame then
        (CommandFailure frame, frame,
         s\<lparr>counters := (counters s)\<lparr>commandErrors := commandErrors (counters s) + 1,
                                   lastHidppError := ucast (errorCode frame)\<rparr>\<rparr>, e)
      else (S_OK, frame, s, e))"

definition timed_out :: "DeviceSession \<Rightarrow> DeviceSession" where
  "timed_out s = s\<lparr>counters := (counters s)\<lparr>commandErrors := commandErrors (counters s) + 1,
                                           lastFailure := HRESULT_FROM_WIN32 1460\<rparr>\<rparr>"

lemma await_answer_eq:
  "await_answer ops f fn stop deadline s e =
     (case drain_ports ops f fn [0..<length (ports s)] s e of
        (Answered frame, s, e) \<Rightarrow> Some (answered frame s e)
      | (ReadFailed result, s, e) \<Rightarrow> Some (result, HidppFrame_init, s, e)
      | (Drained, s, e) \<Rightarrow>
          (let now = tick_count64 ops e
           in if now \<ge> deadline then Some (HRESULT_FROM_WIN32 1460, HidppFrame_init, timed_out s, e)
              else
                (case wait_reports ops stop (deadline - now) e of
                   (StopSignaled, e) \<Rightarrow>
                     if stop then Some (HRESULT_FROM_WIN32 1223, HidppFrame_init, s, e)
                     else await_answer ops f fn stop deadline s e
                 | (WaitFailed code, e) \<Rightarrow> Some (HRESULT_FROM_WIN32 code, HidppFrame_init, s, e)
                 | (WaitOver, e) \<Rightarrow> await_answer ops f fn stop deadline s e)))"
  unfolding timed_out_def
  by (subst await_answer.simps) (auto simp: answered_def intro!: prod.case_cong drain_end.case_cong)

lemma await_answer_induct [consumes 1, case_names answer read_failed timeout stopped wait_failed again]:
  assumes "await_answer ops f fn stop deadline s e = Some r"
    and answer: "\<And>s e frame s1 e1. drain_ports ops f fn [0..<length (ports s)] s e = (Answered frame, s1, e1) \<Longrightarrow>
      P s e (answered frame s1 e1)"
    and read_failed: "\<And>s e hr s1 e1. drain_ports ops f fn [0..<length (ports s)] s e = (ReadFailed hr, s1, e1) \<Longrightarrow>
      P s e (hr, HidppFrame_init, s1, e1)"
    and timeout: "\<And>s e s1 e1. drain_ports ops f fn [0..<length (ports s)] s e = (Drained, s1, e1) \<Longrightarrow>
      P s e (HRESULT_FROM_WIN32 1460, HidppFrame_init, timed_out s1, e1)"
    and stopped: "\<And>s e s1 e1 e2. drain_ports ops f fn [0..<length (ports s)] s e = (Drained, s1, e1) \<Longrightarrow>
      wait_reports ops stop (deadline - tick_count64 ops e1) e1 = (StopSignaled, e2) \<Longrightarrow>
      P s e (HRESULT_FROM_WIN32 1223, HidppFrame_init, s1, e2)"
    and wait_failed: "\<And>s e s1 e1 code e2. drain_ports ops f fn [0..<length (ports s)] s e = (Drained, s1, e1) \<Longrightarrow>
      wait_reports ops stop (deadline - tick_count64 ops e1) e1 = (WaitFailed code, e2) \<Longrightarrow>
      P s e (HRESULT_FROM_WIN32 code, HidppFrame_init, s1, e2)"
    and again: "\<And>s e s1 e1 w e2 r. drain_ports ops f fn [0..<length (ports s)] s e = (Drained, s1, e1) \<Longrightarrow>
      tick_count64 ops e1 < deadline \<Longrightarrow> wait_reports ops stop (deadline - tick_count64 ops e1) e1 = (w, e2) \<Longrightarrow>
      P s1 e2 r \<Longrightarrow> P s e r"
  shows "P s e r"
proof -
  let ?P = "\<lambda>o' f' fn' st' d' s e r. o' = ops \<longrightarrow> f' = f \<longrightarrow> fn' = fn \<longrightarrow> st' = stop \<longrightarrow> d' = deadline \<longrightarrow> P s e r"
  have "?P ops f fn stop deadline s e r"
  proof (rule await_answer.raw_induct [where P = ?P, OF _ assms(1)], intro impI)
    fix aw o' f' fn' st' d' s e r
    assume IH: "\<And>o' f' fn' st' d' s e r. aw o' f' fn' st' d' s e = Some r \<Longrightarrow> ?P o' f' fn' st' d' s e r"
    assume eq: "o' = ops" "f' = f" "fn' = fn" "st' = stop" "d' = deadline"
    assume body: "(case drain_ports o' f' fn' [0..<length (ports s)] s e of
        (Answered frame, s, e) \<Rightarrow>
          if frame_error frame then
            Some (CommandFailure frame, frame,
                  s\<lparr>counters := (counters s)\<lparr>commandErrors := commandErrors (counters s) + 1,
                                            lastHidppError := ucast (errorCode frame)\<rparr>\<rparr>, e)
          else Some (S_OK, frame, s, e)
      | (ReadFailed result, s, e) \<Rightarrow> Some (result, HidppFrame_init, s, e)
      | (Drained, s, e) \<Rightarrow>
          (let now = tick_count64 o' e
           in if now \<ge> d' then
                Some (HRESULT_FROM_WIN32 1460, HidppFrame_init,
                      s\<lparr>counters := (counters s)\<lparr>commandErrors := commandErrors (counters s) + 1,
                                                lastFailure := HRESULT_FROM_WIN32 1460\<rparr>\<rparr>, e)
              else
                (case wait_reports o' st' (d' - now) e of
                   (StopSignaled, e) \<Rightarrow>
                     if st' then Some (HRESULT_FROM_WIN32 1223, HidppFrame_init, s, e)
                     else aw o' f' fn' st' d' s e
                 | (WaitFailed code, e) \<Rightarrow> Some (HRESULT_FROM_WIN32 code, HidppFrame_init, s, e)
                 | (WaitOver, e) \<Rightarrow> aw o' f' fn' st' d' s e))) = Some r"
    have goon: "P s1 e2 r" if "aw ops f fn stop deadline s1 e2 = Some r" for s1 e2 using IH [OF that] by blast
    obtain d s1 e1 where d: "drain_ports ops f fn [0..<length (ports s)] s e = (d, s1, e1)" by (metis prod.exhaust)
    show "P s e r"
    proof (cases d)
      case (Answered frame)
      then show ?thesis using body answer [of s e frame s1 e1] d unfolding eq by (auto simp: answered_def split: if_splits)
    next
      case (ReadFailed hr)
      then show ?thesis using body read_failed [of s e hr s1 e1] d unfolding eq by auto
    next
      case Drained
      show ?thesis
      proof (cases "deadline \<le> tick_count64 ops e1")
        case True
        then show ?thesis using body timeout [of s e s1 e1] d Drained unfolding eq timed_out_def by (auto simp: Let_def)
      next
        case False
        obtain w e2 where w: "wait_reports ops stop (deadline - tick_count64 ops e1) e1 = (w, e2)" by (metis prod.exhaust)
        show ?thesis
        proof (cases w)
          case StopSignaled
          then show ?thesis
            using body stopped [of s e s1 e1 e2] again [of s e s1 e1 w e2 r] goon d w Drained False unfolding eq
            by (auto simp: Let_def split: if_splits)
        next
          case (WaitFailed code)
          then show ?thesis
            using body wait_failed [of s e s1 e1 code e2] d w Drained False unfolding eq by (auto simp: Let_def)
        next
          case WaitOver
          then show ?thesis
            using body again [of s e s1 e1 w e2 r] goon d w Drained False unfolding eq by (auto simp: Let_def)
        qed
      qed
    qed
  qed
  then show ?thesis by blast
qed


lemma await_answer_setup:
  assumes "await_answer ops f fn stop deadline s e = Some (hr, frame, s', e')"
  shows "same_setup s s'"
proof -
  have "same_setup s (fst (snd (snd r)))" if "await_answer ops f fn stop deadline s e = Some r" for r
    using that
  proof (induction rule: await_answer_induct)
    case (answer s e frame s1 e1)
    then show ?case using same_setup_trans [OF drain_ports_setup [OF answer(1)]] by (simp add: answered_def)
  next
    case (timeout s e s1 e1)
    then show ?case using same_setup_trans [OF drain_ports_setup [OF timeout(1)]] by (simp add: timed_out_def)
  next
    case (again s e s1 e1 w e2 r)
    then show ?case using same_setup_trans [OF drain_ports_setup [OF again(1)]] by simp
  qed (simp_all add: drain_ports_setup)
  then show ?thesis using assms by fastforce
qed

lemma SendCommand_setup:
  assumes "SendCommand ops f fn ps stop s e = Some (hr, frame, s', e')"
  shows "same_setup s s'"
proof (cases "BuildLongReport kDeviceIndexWired f fn (Some ps) (length ps) kLongReportBytes")
  case None
  then show ?thesis using assms by (simp add: SendCommand_def)
next
  case (Some report)
  obtain r s1 e1 where w: "WriteReport ops report stop s e = (r, s1, e1)" by (metis prod.exhaust)
  show ?thesis
    using assms Some w WriteReport_setup [OF w] same_setup_trans [OF WriteReport_setup [OF w] await_answer_setup]
    by (auto simp: SendCommand_def split: if_splits)
qed

section \<open>The lane between connecting and restoring\<close>

text \<open>What the lane does with a connected session: it pumps input, sets the brightness and draws.\<close>

inductive lane_steps :: "'e hid_ops \<Rightarrow> DeviceSession \<times> 'e \<Rightarrow> DeviceSession \<times> 'e \<Rightarrow> bool" for ops where
  stay: "lane_steps ops x x"
| pump: "lane_steps ops x (s, e) \<Longrightarrow> Pump ops s e = (hr, changed, down, s', e') \<Longrightarrow> lane_steps ops x (s', e')"
| dim: "lane_steps ops x (s, e) \<Longrightarrow> SetBrightness ops percent stop s e = (hr, s', e') \<Longrightarrow> lane_steps ops x (s', e')"
| draw: "lane_steps ops x (s, e) \<Longrightarrow> WriteImage ops region jpeg defer stop s e = (hr, s', e') \<Longrightarrow> lane_steps ops x (s', e')"

lemma vlp_packets_report: "report \<in> set (vlp_packets stream) \<Longrightarrow> report \<noteq> [] \<and> hd report = kReportVlpImage"
proof (induction stream rule: vlp_packets.induct)
  case (1 stream)
  show ?case
  proof (cases "NextVlpPacket stream 4095")
    case None
    then show ?thesis using 1(2) by (simp add: vlp_packets.simps)
  next
    case (Some x)
    obtain packet stream' where x: "x = (packet, stream')" by (rule prod.exhaust)
    have "packet \<noteq> [] \<and> hd packet = kReportVlpImage"
      using Some x by (auto simp: NextVlpPacket_def Let_def zero_filled_def split: option.splits if_splits)
    then show ?thesis using 1(1) [OF Some x [symmetric]] 1(2) Some x by (auto simp: vlp_packets.simps [of stream])
  qed
qed

lemma brightness_report:
  "BuildSetBrightnessReport kDeviceIndexWired f percent kLongReportBytes = Some report \<Longrightarrow> report ! 2 = f"
  by (auto simp: BuildSetBrightnessReport_def BuildLongReport_def zero_filled_def split: if_splits)

lemma divert_each_features:
  "divert_each ops cs stop s e = Some (hr, s', e') \<Longrightarrow> features s' = features s"
proof (induction cs arbitrary: s e)
  case (Cons c cs)
  obtain hr1 resp1 s1 e1 where g: "SendCommand ops (reprogControls (features s)) 2 (PutBigEndian16 c) stop s e = Some (hr1, resp1, s1, e1)"
    using Cons.prems(1) by (auto split: option.splits)
  note f1 = same_setup_sel(2) [OF SendCommand_setup [OF g]]
  show ?case
  proof (cases "FAILED hr1 \<or> ParseCidReporting resp1 = None")
    case True
    then show ?thesis using Cons.prems g f1 by (auto split: if_splits)
  next
    case False
    then obtain r where r: "ParseCidReporting resp1 = Some r" by auto
    let ?s = "s1\<lparr>savedControls := savedControls s1 @ [r\<lparr>controlId := c\<rparr>]\<rparr>"
    obtain hr2 resp2 s2 e2 where t: "SendCommand ops (reprogControls (features ?s)) 3
        (divert_params c (cid_flags r OR kCidReportingDivert) (remap r) (flags2 r)) stop ?s e1 = Some (hr2, resp2, s2, e2)"
      using Cons.prems g r False by (auto split: option.splits)
    note f2 = same_setup_sel(2) [OF SendCommand_setup [OF t]]
    show ?thesis using Cons.prems Cons.IH [of s2 e2] g r t False f1 f2 by (auto split: if_splits)
  qed
qed simp

lemma DivertControls_features: "DivertControls ops cs stop s e = Some (hr, s', e') \<Longrightarrow> features s' = features s"
  using divert_each_features [of ops cs stop "s\<lparr>savedControls := []\<rparr>" e hr s' e']
  by (auto simp: DivertControls_def split: if_splits)

section \<open>A device that keeps its reporting flags\<close>

text \<open>
  What a session relies on: reading a control's reporting tells its flags, writing it sets them and no others, and
  nothing else touches them. \<open>quiet\<close> says that no answer to a command on the controls is still to be read.
\<close>

text \<open>A successful \<open>Connect\<close> is its three lookups and the diversion of the page buttons.\<close>

lemma Connect_phases:
  assumes "Connect ops stop s e = Some (hr, s', e')" "\<not> FAILED hr"
  shows "\<exists>r1 i1 s1 e1 f1 r2 i2 s2 e2 r3 i3 s3 e3 r4 s4.
    ResolveFeature ops kFeatureContextualDisplay stop
      (s\<lparr>connected := False, role := Keypad, features := DeviceFeatures_init, controls := ControlState_init\<rparr>) e = Some (r1, i1, s1, e1) \<and>
    ResolveFeature ops kFeatureReprogControls stop (s1\<lparr>features := f1\<rparr>) e1 = Some (r2, i2, s2, e2) \<and> \<not> FAILED r2 \<and>
    ResolveFeature ops kFeatureBrightness stop (s2\<lparr>features := (features s2)\<lparr>reprogControls := i2\<rparr>\<rparr>) e2 = Some (r3, i3, s3, e3) \<and>
    DivertControls ops [kControlPagePrevious, kControlPageNext] stop
      (s3\<lparr>features := (features s3)\<lparr>brightness := i3\<rparr>\<rparr>) e3 = Some (r4, s4, e') \<and> \<not> FAILED r4 \<and>
    s' = s4\<lparr>connected := True, restored := False\<rparr>"
proof -
  let ?s = "s\<lparr>connected := False, role := Keypad, features := DeviceFeatures_init, controls := ControlState_init\<rparr>"
  have f: "FAILED (HRESULT_FROM_WIN32 1167)" by (simp add: FAILED_def HRESULT_FROM_WIN32_def)
  then have c: "\<not> (ports s = [] \<or> PortForOutput s kReportLong = None)"
    using assms(1,2) by (auto simp: Connect_def split: if_splits)
  obtain r1 i1 s1 e1 where 1: "ResolveFeature ops kFeatureContextualDisplay stop ?s e = Some (r1, i1, s1, e1)"
    using assms(1) c by (auto simp: Connect_def split: option.splits)
  let ?assumed = "r1 = HRESULT_FROM_WIN32 50"
  let ?f1 = "(features s1)\<lparr>display := (if ?assumed then kObservedDisplayFeatureIndex else i1), displayAssumed := ?assumed\<rparr>"
  have ok1: "\<not> (FAILED r1 \<and> \<not> ?assumed)" using assms(1,2) c 1 by (auto simp: Connect_def Let_def split: if_splits)
  obtain r2 i2 s2 e2 where 2: "ResolveFeature ops kFeatureReprogControls stop (s1\<lparr>features := ?f1\<rparr>) e1 = Some (r2, i2, s2, e2)"
    using assms(1) c 1 ok1 by (auto simp: Connect_def Let_def split: option.splits)
  let ?s2 = "s2\<lparr>features := (features s2)\<lparr>reprogControls := i2\<rparr>\<rparr>"
  have ok2: "\<not> FAILED r2" using assms(1,2) c 1 ok1 2 by (auto simp: Connect_def Let_def split: if_splits)
  obtain r3 i3 s3 e3 where 3: "ResolveFeature ops kFeatureBrightness stop ?s2 e2 = Some (r3, i3, s3, e3)"
    using assms(1) c 1 ok1 2 ok2 by (auto simp: Connect_def Let_def split: option.splits)
  let ?s3 = "s3\<lparr>features := (features s3)\<lparr>brightness := i3\<rparr>\<rparr>"
  obtain r4 s4 e4 where 4: "DivertControls ops [kControlPagePrevious, kControlPageNext] stop ?s3 e3 = Some (r4, s4, e4)"
    using assms(1) c 1 ok1 2 ok2 3 by (auto simp: Connect_def Let_def split: option.splits)
  have ok4: "\<not> FAILED r4" and s': "s' = s4\<lparr>connected := True, restored := False\<rparr>" "e' = e4"
    using assms(1,2) c 1 ok1 2 ok2 3 4 by (auto simp: Connect_def Let_def split: if_splits)
  show ?thesis using 1 2 ok2 3 4 ok4 s' by blast
qed

locale reporting_device =
  fixes ops :: "'e hid_ops"
    and index :: u8
    and known :: "u16 \<Rightarrow> bool"
    and flags :: "'e \<Rightarrow> u16 \<Rightarrow> u8"
    and quiet :: "'e \<Rightarrow> bool"
  assumes get_reporting: "quiet e \<Longrightarrow> known c \<Longrightarrow>
      SendCommand ops index 2 (PutBigEndian16 c) stop s e = Some (hr, response, s', e') \<Longrightarrow> \<not> FAILED hr \<Longrightarrow>
      \<exists>r. ParseCidReporting response = Some r \<and> cid_flags r = flags e c"
    and set_reporting: "quiet e \<Longrightarrow> known c \<Longrightarrow>
      SendCommand ops index 3 (divert_params c f m f2) stop s e = Some (hr, response, s', e') \<Longrightarrow>
      quiet e' \<and> (\<forall>d. d \<noteq> c \<longrightarrow> flags e' d = flags e d) \<and> (\<not> FAILED hr \<longrightarrow> flags e' c = f)"
    and other_command: "feature \<noteq> index \<or> func \<noteq> 3 \<Longrightarrow> quiet e \<Longrightarrow>
      SendCommand ops feature func ps stop s e = Some (hr, response, s', e') \<Longrightarrow> quiet e' \<and> flags e' = flags e"
    and other_read: "quiet e \<Longrightarrow> take_report ops port capacity e = (r, e') \<Longrightarrow> quiet e' \<and> flags e' = flags e"
    and other_write: "quiet e \<Longrightarrow> hd report = kReportVlpImage \<or> report ! 2 \<noteq> index \<and> report ! 2 \<noteq> 0 \<Longrightarrow>
      write_report ops port report stop e = (hr, e') \<Longrightarrow> quiet e' \<and> flags e' = flags e"
    and other_feature: "quiet e \<Longrightarrow> set_feature ops port report stop e = (hr, e') \<Longrightarrow> flags e' = flags e"
    and finds_controls: "quiet e \<Longrightarrow> ResolveFeature ops kFeatureReprogControls stop s e = Some (hr, found, s', e') \<Longrightarrow>
      \<not> FAILED hr \<Longrightarrow> found = index"
    and index_not_root: "index \<noteq> 0"
begin

lemma divert_each_saves:
  assumes "divert_each ops cs stop s e = Some (hr, s', e')" "\<not> FAILED hr" "quiet e" "reprogControls (features s) = index"
    "list_all known cs" "distinct cs"
  shows "quiet e' \<and> features s' = features s \<and> ports s' = ports s \<and> (\<forall>d. d \<notin> set cs \<longrightarrow> flags e' d = flags e d) \<and>
    (\<exists>rs. savedControls s' = savedControls s @ rs \<and> map controlId rs = cs \<and> (\<forall>r \<in> set rs. cid_flags r = flags e (controlId r)))"
  using assms
proof (induction cs arbitrary: s e)
  case (Cons c cs)
  note ix = Cons.prems(4)
  obtain hr1 resp1 s1 e1 where g: "SendCommand ops index 2 (PutBigEndian16 c) stop s e = Some (hr1, resp1, s1, e1)"
    using Cons.prems(1) ix by (auto split: option.splits)
  have ok1: "\<not> FAILED hr1" using Cons.prems(1,2) ix g by (auto split: if_splits)
  have q1: "quiet e1" "flags e1 = flags e" using other_command [OF _ Cons.prems(3) g] by auto
  obtain r where r: "ParseCidReporting resp1 = Some r" "cid_flags r = flags e c"
    using get_reporting [OF Cons.prems(3) _ g ok1] Cons.prems(5) by auto
  note setup1 = same_setup_sel [OF SendCommand_setup [OF g]]
  let ?s = "s1\<lparr>savedControls := savedControls s1 @ [r\<lparr>controlId := c\<rparr>]\<rparr>"
  let ?ps = "divert_params c (cid_flags r OR kCidReportingDivert) (remap r) (flags2 r)"
  obtain hr2 resp2 s2 e2 where t: "SendCommand ops index 3 ?ps stop ?s e1 = Some (hr2, resp2, s2, e2)"
    using Cons.prems(1,2) ix g ok1 r(1) setup1 by (auto split: option.splits)
  have ok2: "\<not> FAILED hr2" using Cons.prems(1,2) ix g ok1 r(1) setup1 t by (auto split: if_splits)
  have d: "divert_each ops cs stop s2 e2 = Some (hr, s', e')"
    using Cons.prems(1) ix g ok1 r(1) setup1 t ok2 by simp
  note setup2 = same_setup_sel [OF SendCommand_setup [OF t]]
  have q2: "quiet e2" "\<forall>d. d \<noteq> c \<longrightarrow> flags e2 d = flags e d"
    using set_reporting [OF q1(1) _ t] Cons.prems(5) q1(2) by auto
  obtain rs where rs: "quiet e'" "features s' = features s2" "ports s' = ports s2" "\<forall>d. d \<notin> set cs \<longrightarrow> flags e' d = flags e2 d"
    "savedControls s' = savedControls s2 @ rs" "map controlId rs = cs" "\<forall>r \<in> set rs. cid_flags r = flags e2 (controlId r)"
    using Cons.IH [OF d Cons.prems(2) q2(1)] Cons.prems(4-6) setup1 setup2 by auto
  have "\<forall>r \<in> set rs. controlId r \<noteq> c" using rs(6) Cons.prems(6) by auto
  then show ?case
    using rs q2(2) r(2) setup1 setup2
    by (intro conjI exI [of _ "r\<lparr>controlId := c\<rparr> # rs"]) auto
qed simp

lemma restore_each_failed:
  "restore_each ops rs stop failure s e = Some (failure', answering, s', e') \<Longrightarrow> FAILED failure \<Longrightarrow> FAILED failure'"
proof (induction rs arbitrary: failure s e)
  case (Cons saved rs)
  then show ?case by (auto simp: SUCCEEDED_def FAILED_def split: option.splits if_splits)
qed simp

lemma restore_each_restores:
  assumes "restore_each ops rs stop failure s e = Some (failure', answering, s', e')" "\<not> FAILED failure'" "quiet e"
    "reprogControls (features s) = index" "list_all known (map controlId rs)" "distinct (map controlId rs)"
  shows "quiet e' \<and> (\<forall>r \<in> set rs. flags e' (controlId r) = cid_flags r) \<and>
    (\<forall>d. d \<notin> controlId ` set rs \<longrightarrow> flags e' d = flags e d)"
  using assms
proof (induction rs arbitrary: failure s e)
  case (Cons saved rs)
  note ix = Cons.prems(4)
  have ok: "\<not> FAILED failure" using restore_each_failed [OF Cons.prems(1)] Cons.prems(2) by blast
  let ?ps = "divert_params (controlId saved) (cid_flags saved) (remap saved) (flags2 saved)"
  obtain hr resp s1 e1 where t: "SendCommand ops index 3 ?ps stop s e = Some (hr, resp, s1, e1)"
    using Cons.prems(1) ix by (auto split: option.splits)
  have okh: "\<not> FAILED hr"
  proof
    assume f: "FAILED hr"
    then have "restore_each ops rs stop hr s1 e1 = Some (failure', answering, s', e') \<or> failure' = hr"
      using Cons.prems(1) ix t ok by (auto simp: SUCCEEDED_def FAILED_def split: if_splits)
    then show False using restore_each_failed [of rs stop hr s1 e1] f Cons.prems(2) by blast
  qed
  then have rest: "restore_each ops rs stop failure s1 e1 = Some (failure', answering, s', e')"
    using Cons.prems(1) ix t by (auto simp: SUCCEEDED_def FAILED_def split: if_splits)
  have q: "quiet e1" "\<forall>d. d \<noteq> controlId saved \<longrightarrow> flags e1 d = flags e d" "flags e1 (controlId saved) = cid_flags saved"
    using set_reporting [OF Cons.prems(3) _ t] Cons.prems(5) okh by auto
  note ih = Cons.IH [OF rest Cons.prems(2) q(1)]
  have "reprogControls (features s1) = index" using same_setup_sel [OF SendCommand_setup [OF t]] ix by simp
  then show ?case using ih q Cons.prems(5,6) by auto
qed simp


lemma feature_walk_kept:
  "feature_walk ops featureId setIndex cs stop s e = Some (hr, ix, s', e') \<Longrightarrow> quiet e \<Longrightarrow> quiet e' \<and> flags e' = flags e \<and> same_setup s s'"
proof (induction cs arbitrary: s e)
  case (Cons c cs)
  obtain hr1 resp s1 e1 where g: "SendCommand ops setIndex 1 [of_nat c] stop s e = Some (hr1, resp, s1, e1)"
    using Cons.prems(1) by (auto split: option.splits)
  have "quiet e1 \<and> flags e1 = flags e" using other_command [OF _ Cons.prems(2) g] by simp
  moreover have "same_setup s s1" by (rule SendCommand_setup [OF g])
  ultimately show ?case using Cons.IH [of s1 e1] Cons.prems(1) g same_setup_trans by (auto split: if_splits)
qed simp

lemma ResolveFeatureThroughSet_kept:
  assumes "ResolveFeatureThroughSet ops featureId stop s e = Some (hr, ix, s', e')" "quiet e"
  shows "quiet e' \<and> flags e' = flags e \<and> same_setup s s'"
proof -
  obtain hr1 resp s1 e1 where g: "SendCommand ops 0 0 [0x00, 0x01, 0x00] stop s e = Some (hr1, resp, s1, e1)"
    using assms(1) by (auto simp: ResolveFeatureThroughSet_def split: option.splits)
  have q1: "quiet e1 \<and> flags e1 = flags e" using other_command [OF _ assms(2) g] by simp
  note s1 = SendCommand_setup [OF g]
  show ?thesis
  proof (cases "FAILED hr1 \<or> first_param resp = 0")
    case True
    then show ?thesis using assms(1) g q1 s1 by (auto simp: ResolveFeatureThroughSet_def split: if_splits)
  next
    case False
    obtain hr2 resp2 s2 e2 where t: "SendCommand ops (first_param resp) 0 [] stop s1 e1 = Some (hr2, resp2, s2, e2)"
      using assms(1) g False by (auto simp: ResolveFeatureThroughSet_def Let_def split: option.splits)
    have q2: "quiet e2 \<and> flags e2 = flags e1" using other_command [OF _ _ t] q1 by simp
    note s2 = same_setup_trans [OF s1 SendCommand_setup [OF t]]
    show ?thesis
    proof (cases "FAILED hr2")
      case True
      then show ?thesis using assms(1) g t q1 q2 s2 False by (simp add: ResolveFeatureThroughSet_def Let_def)
    next
      case c: False
      then have "feature_walk ops featureId (first_param resp) [1..<min (unat (first_param resp2)) 64 + 1] stop s2 e2 =
          Some (hr, ix, s', e')"
        using assms(1) g t False by (simp add: ResolveFeatureThroughSet_def Let_def)
      from feature_walk_kept [OF this] q2 show ?thesis using q1 same_setup_trans [OF s2] by simp
    qed
  qed
qed

lemma ResolveFeature_kept:
  assumes "ResolveFeature ops featureId stop s e = Some (hr, ix, s', e')" "quiet e"
  shows "quiet e' \<and> flags e' = flags e \<and> same_setup s s'"
proof -
  obtain hr1 resp s1 e1 where g: "SendCommand ops 0 0 (PutBigEndian16 featureId @ [0]) stop s e = Some (hr1, resp, s1, e1)"
    using assms(1) by (auto simp: ResolveFeature_def split: option.splits)
  let ?s = "s1\<lparr>lastLookup := \<lparr>lookup_feature = featureId, lookup_result = hr1,
      lookup_params = (if SUCCEEDED hr1 then take 8 (frame_bytes resp) else [])\<rparr>\<rparr>"
  have q1: "quiet e1 \<and> flags e1 = flags e" using other_command [OF _ assms(2) g] by simp
  have s1: "same_setup s ?s" using same_setup_trans [OF SendCommand_setup [OF g] same_setup_updates(4)] .
  show ?thesis
  proof (cases "FAILED hr1 \<or> first_param resp \<noteq> 0")
    case True
    then show ?thesis using assms(1) g q1 s1 by (auto simp: ResolveFeature_def Let_def split: if_splits)
  next
    case False
    then have "ResolveFeatureThroughSet ops featureId stop ?s e1 = Some (hr, ix, s', e')"
      using assms(1) g by (simp add: ResolveFeature_def Let_def)
    from ResolveFeatureThroughSet_kept [OF this] q1 show ?thesis using same_setup_trans [OF s1] by simp
  qed
qed

definition saves :: "u16 list \<Rightarrow> 'e \<Rightarrow> DeviceSession \<Rightarrow> 'e \<Rightarrow> bool" where
  "saves cs e s' e' \<longleftrightarrow>
     quiet e' \<and> connected s' \<and> \<not> restored s' \<and> map controlId (savedControls s') = cs \<and>
     (\<forall>r \<in> set (savedControls s'). cid_flags r = flags e (controlId r)) \<and> (\<forall>d. d \<notin> set cs \<longrightarrow> flags e' d = flags e d)"

lemma DivertControls_saves:
  assumes "DivertControls ops cs stop s e = Some (hr, s', e')" "\<not> FAILED hr" "quiet e" "reprogControls (features s) = index"
    "list_all known cs" "distinct cs"
  shows "saves cs e (s'\<lparr>connected := True, restored := False\<rparr>) e' \<and> features s' = features s \<and> ports s' = ports s"
proof -
  have "\<not> length cs > kMaximumSavedControls"
    using assms(1,2) by (auto simp: DivertControls_def FAILED_def E_INVALIDARG_def split: if_splits)
  then have "divert_each ops cs stop (s\<lparr>savedControls := []\<rparr>) e = Some (hr, s', e')" using assms(1) by (simp add: DivertControls_def)
  from divert_each_saves [OF this assms(2,3)] show ?thesis using assms(4-6) by (auto simp: saves_def)
qed

lemma WriteReport_kept:
  assumes "WriteReport ops report stop s e = (hr, s', e')" "quiet e"
    "hd report = kReportVlpImage \<or> report ! 2 \<noteq> index \<and> report ! 2 \<noteq> 0"
  shows "quiet e' \<and> flags e' = flags e \<and> same_setup s s'"
proof -
  show ?thesis
  proof (cases "report = [] \<or> PortForOutput s (hd report) = None")
    case True
    then show ?thesis using assms by (auto simp: WriteReport_def split: if_splits)
  next
    case False
    then obtain p where p: "PortForOutput s (hd report) = Some p" by auto
    obtain d e1 where w: "write_report ops p report stop e = (d, e1)" by (metis prod.exhaust)
    have "e' = e1" using False assms(1) p w by (auto simp: WriteReport_def Let_def split: if_splits)
    then show ?thesis
      using other_write [OF assms(2,3) w] WriteReport_setup [OF assms(1)] by simp
  qed
qed


lemma pump_port_kept:
  "pump_port ops port n changed s e = (hr, changed', s', e') \<Longrightarrow> quiet e \<Longrightarrow> quiet e' \<and> flags e' = flags e \<and> same_setup s s'"
proof (induction n arbitrary: changed s e)
  case (Suc n)
  obtain r report e1 where t: "take_report ops port kInputBufferBytes e = ((r, report), e1)" by (metis prod.exhaust)
  have q: "quiet e1 \<and> flags e1 = flags e" using other_read [OF Suc.prems(2) t] .
  obtain input s1 where h: "HandleInput (tick_count ops e1) report s = (input, s1)" by (rule prod.exhaust)
  then have "same_setup s s1" using same_setup_updates(3) [of s "tick_count ops e1" report] by simp
  then show ?case
    using Suc.IH [of "changed \<or> input" s1 e1] Suc.prems(1) t h q same_setup_trans by (auto split: if_splits)
qed simp

lemma pump_ports_kept:
  "pump_ports ops ps changed s e = (hr, changed', s', e') \<Longrightarrow> quiet e \<Longrightarrow> quiet e' \<and> flags e' = flags e \<and> same_setup s s'"
proof (induction ps arbitrary: changed s e)
  case (Cons p ps)
  obtain r c s1 e1 where t: "pump_port ops p 64 changed s e = (r, c, s1, e1)" by (metis prod.exhaust)
  have "quiet e1 \<and> flags e1 = flags e \<and> same_setup s s1" using pump_port_kept [OF t Cons.prems(2)] .
  then show ?case using Cons.IH [of c s1 e1] Cons.prems(1) t same_setup_trans by (auto split: if_splits)
qed simp

lemma Pump_kept:
  assumes "Pump ops s e = (hr, changed, down, s', e')" "quiet e"
  shows "quiet e' \<and> flags e' = flags e \<and> same_setup s s'"
proof -
  obtain r c s1 e1 where t: "pump_ports ops [0..<length (ports s)] False s e = (r, c, s1, e1)" by (metis prod.exhaust)
  then have "s' = s1\<lparr>edges := ControlEdges_init\<rparr>" "e' = e1" using assms(1) by (simp_all add: Pump_def)
  then show ?thesis using pump_ports_kept [OF t assms(2)] same_setup_trans [OF _ same_setup_updates(5)] by simp
qed

lemma write_packets_kept:
  "write_packets ops packets stop s e = (hr, s', e') \<Longrightarrow> quiet e \<Longrightarrow> \<forall>p \<in> set packets. hd p = kReportVlpImage \<Longrightarrow>
     quiet e' \<and> flags e' = flags e \<and> same_setup s s'"
proof (induction packets arbitrary: s e)
  case (Cons p ps)
  obtain r s1 e1 where t: "WriteReport ops p stop s e = (r, s1, e1)" by (metis prod.exhaust)
  have k: "quiet e1 \<and> flags e1 = flags e \<and> same_setup s s1" using WriteReport_kept [OF t Cons.prems(2)] Cons.prems(3) by simp
  let ?s = "s1\<lparr>counters := (counters s1)\<lparr>imagePackets := imagePackets (counters s1) + 1\<rparr>\<rparr>"
  have u: "same_setup s ?s" using k same_setup_trans same_setup_updates(1) by blast
  show ?case using Cons.IH [of ?s e1] Cons.prems k t same_setup_trans [OF u] by (auto split: if_splits)
qed auto

lemma SetBrightness_kept:
  assumes "SetBrightness ops percent stop s e = (hr, s', e')" "quiet e" "brightness (features s) \<noteq> index"
  shows "quiet e' \<and> flags e' = flags e \<and> same_setup s s'"
proof (cases "\<not> connected s \<or> brightness (features s) = 0")
  case True
  then show ?thesis using assms by (auto simp: SetBrightness_def split: if_splits)
next
  case False
  show ?thesis
  proof (cases "BuildSetBrightnessReport kDeviceIndexWired (brightness (features s)) percent kLongReportBytes")
    case None
    then show ?thesis using assms False by (simp add: SetBrightness_def)
  next
    case (Some report)
    then have "WriteReport ops report stop s e = (hr, s', e')" using assms(1) False by (simp add: SetBrightness_def)
    from WriteReport_kept [OF this assms(2)] show ?thesis using assms(3) brightness_report [OF Some] False by simp
  qed
qed

lemma WriteImage_kept:
  assumes "WriteImage ops region jpeg defer stop s e = (hr, s', e')" "quiet e"
  shows "quiet e' \<and> flags e' = flags e \<and> same_setup s s'"
proof (cases "connected s \<and> BeginVlpImageStream (display (features s)) region defer jpeg \<noteq> None")
  case True
  then obtain stream where "BeginVlpImageStream (display (features s)) region defer jpeg = Some stream" by auto
  then have "write_packets ops (vlp_packets stream) stop s e = (hr, s', e')" using assms(1) True by (simp add: WriteImage_def)
  then show ?thesis using write_packets_kept assms(2) vlp_packets_report by blast
next
  case False
  then show ?thesis using assms by (auto simp: WriteImage_def split: if_splits)
qed

lemma lane_steps_kept:
  "lane_steps ops x y \<Longrightarrow> x = (s, e) \<Longrightarrow> quiet e \<Longrightarrow> brightness (features s) \<noteq> index \<Longrightarrow>
     quiet (snd y) \<and> flags (snd y) = flags e \<and> same_setup s (fst y)"
proof (induction arbitrary: s e rule: lane_steps.induct)
  case (pump x s1 e1 hr changed down s' e')
  then show ?case using Pump_kept [OF pump(2)] same_setup_trans [of s s1 s'] by auto
next
  case (dim x s1 e1 percent stop hr s' e')
  have k: "quiet e1 \<and> flags e1 = flags e \<and> same_setup s s1" using dim by auto
  then have "brightness (features s1) \<noteq> index" using dim.prems(3) same_setup_sel(2) by auto
  then show ?case using SetBrightness_kept [OF dim(2)] k same_setup_trans [of s s1 s'] by auto
next
  case (draw x s1 e1 region jpeg later stop hr s' e')
  then show ?case using WriteImage_kept [OF draw(2)] same_setup_trans [of s s1 s'] by auto
qed auto

lemma Restore_restores:
  assumes "Restore ops stop logo s e' = Some (hr, s', e'')" "\<not> FAILED hr" "saves cs e s e'"
    "cs \<noteq> [] \<Longrightarrow> reprogControls (features s) = index" "list_all known cs" "distinct cs" "ports s \<noteq> []" "\<not> Disconnected ops s e'"
  shows "flags e'' = flags e"
proof -
  have sv: "quiet e'" "\<not> restored s" "map controlId (savedControls s) = cs"
    "\<forall>r \<in> set (savedControls s). cid_flags r = flags e (controlId r)" "\<forall>d. d \<notin> set cs \<longrightarrow> flags e' d = flags e d"
    using assms(3) by (auto simp: saves_def)
  obtain failure answering s1 e1 where t: "restore_each ops (savedControls s) stop S_OK s e' = Some (failure, answering, s1, e1)"
    using assms(1,7,8) sv(2) by (auto simp: Restore_def split: option.splits)
  obtain f2 where f: "hr = f2" "FAILED failure \<longrightarrow> FAILED f2" "quiet e1 \<longrightarrow> flags e'' = flags e1"
    using assms(1,7,8) sv(2) t other_feature
    by (auto simp: Restore_def Let_def SUCCEEDED_def FAILED_def split: if_splits option.splits prod.splits)
  have "\<not> FAILED failure" using f assms(2) by blast
  have "quiet e1 \<and> (\<forall>r \<in> set (savedControls s). flags e1 (controlId r) = cid_flags r) \<and>
    (\<forall>d. d \<notin> controlId ` set (savedControls s) \<longrightarrow> flags e1 d = flags e' d)"
  proof (cases "cs = []")
    case True
    then show ?thesis using t sv(1,3) by simp
  next
    case False
    from restore_each_restores [OF t \<open>\<not> FAILED failure\<close> sv(1) assms(4) [OF False]]
    show ?thesis using assms(5,6) sv(3) by auto
  qed
  then have r: "quiet e1" "\<forall>r \<in> set (savedControls s). flags e1 (controlId r) = cid_flags r"
    "\<forall>d. d \<notin> controlId ` set (savedControls s) \<longrightarrow> flags e1 d = flags e' d"
    by blast+
  have cs: "set cs = controlId ` set (savedControls s)" using sv(3) by (metis set_map)
  have "flags e1 d = flags e d" for d
    using r(2,3) sv(4,5) unfolding cs by (cases "d \<in> controlId ` set (savedControls s)") auto
  then show ?thesis using f(3) r(1) by auto
qed


lemma Connect_saves:
  assumes "Connect ops stop s e = Some (hr, s', e')" "\<not> FAILED hr" "quiet e" "known kControlPagePrevious" "known kControlPageNext"
  shows "saves [kControlPagePrevious, kControlPageNext] e s' e' \<and> ports s' = ports s \<and> reprogControls (features s') = index \<and>
    (\<exists>r s2 e2 s3 e3. quiet e2 \<and> ResolveFeature ops kFeatureBrightness stop s2 e2 = Some (r, brightness (features s'), s3, e3))"
proof -
  let ?s = "s\<lparr>connected := False, role := Keypad, features := DeviceFeatures_init, controls := ControlState_init\<rparr>"
  obtain r1 i1 s1 e1 f1 r2 i2 s2 e2 r3 i3 s3 e3 r4 s4 where
    1: "ResolveFeature ops kFeatureContextualDisplay stop ?s e = Some (r1, i1, s1, e1)" and
    2: "ResolveFeature ops kFeatureReprogControls stop (s1\<lparr>features := f1\<rparr>) e1 = Some (r2, i2, s2, e2)" "\<not> FAILED r2" and
    3: "ResolveFeature ops kFeatureBrightness stop (s2\<lparr>features := (features s2)\<lparr>reprogControls := i2\<rparr>\<rparr>) e2 = Some (r3, i3, s3, e3)" and
    4: "DivertControls ops [kControlPagePrevious, kControlPageNext] stop
          (s3\<lparr>features := (features s3)\<lparr>brightness := i3\<rparr>\<rparr>) e3 = Some (r4, s4, e')" "\<not> FAILED r4" and
    s': "s' = s4\<lparr>connected := True, restored := False\<rparr>"
    using Connect_phases [OF assms(1,2)] by blast
  let ?s1 = "s1\<lparr>features := f1\<rparr>" and ?s2 = "s2\<lparr>features := (features s2)\<lparr>reprogControls := i2\<rparr>\<rparr>"
    and ?s3 = "s3\<lparr>features := (features s3)\<lparr>brightness := i3\<rparr>\<rparr>"
  have k1: "quiet e1 \<and> flags e1 = flags e \<and> same_setup ?s s1" using ResolveFeature_kept [OF 1 assms(3)] .
  have k2: "quiet e2 \<and> flags e2 = flags e1 \<and> same_setup ?s1 s2" using ResolveFeature_kept [OF 2(1)] k1 by blast
  have k3: "quiet e3 \<and> flags e3 = flags e2 \<and> same_setup ?s2 s3" using ResolveFeature_kept [OF 3] k2 by blast
  have i2: "i2 = index" using finds_controls [OF _ 2] k1 by blast
  have f4: "features s4 = features ?s3" by (rule DivertControls_features [OF 4(1)])
  have fs: "reprogControls (features s') = index" "brightness (features s') = i3"
    using s' f4 k3 i2 by (simp_all add: same_setup_def)
  have "saves [kControlPagePrevious, kControlPageNext] e3 s' e' \<and> ports s4 = ports ?s3"
    using DivertControls_saves [OF 4] k3 i2 assms(4,5) s'
    by (simp add: kControlPagePrevious_def kControlPageNext_def same_setup_def)
  moreover have "ports s3 = ports s" using k1 k2 k3 by (simp add: same_setup_def)
  moreover have "flags e3 = flags e" using k1 k2 k3 by simp
  ultimately have "saves [kControlPagePrevious, kControlPageNext] e s' e' \<and> ports s' = ports s"
    using s' by (simp add: saves_def)
  moreover have "\<exists>r s2 e2 s3 e3. quiet e2 \<and> ResolveFeature ops kFeatureBrightness stop s2 e2 = Some (r, brightness (features s'), s3, e3)"
    using k2 3 fs(2) by blast
  ultimately show ?thesis using fs(1) by blast
qed

definition dialpad_controls :: "u32 \<Rightarrow> u16 list" where
  "dialpad_controls buttonMask = map snd (filter (\<lambda>(button, _). bit buttonMask button) (enumerate 0 kDialpadControls))"

lemma ConnectDialpad_saves:
  assumes "ConnectDialpad ops stop buttonMask s e = Some (hr, s', e')" "\<not> FAILED hr" "quiet e"
    "list_all known kDialpadControls"
  shows "\<exists>cs. distinct cs \<and> set cs \<subseteq> set kDialpadControls \<and> saves cs e s' e' \<and> ports s' = ports s \<and>
    brightness (features s') = 0 \<and> (cs \<noteq> [] \<longrightarrow> reprogControls (features s') = index)"
proof -
  have f: "FAILED (HRESULT_FROM_WIN32 1167)" by (simp add: FAILED_def HRESULT_FROM_WIN32_def)
  then have c: "\<not> (ports s = [] \<or> PortForOutput s kReportLong = None)"
    using assms(1,2) by (auto simp: ConnectDialpad_def split: if_splits)
  show ?thesis
  proof (cases "dialpad_mask buttonMask = 0")
    case True
    then show ?thesis
      using assms(1,3) c by (intro exI [of _ "[]"]) (auto simp: ConnectDialpad_def Let_def saves_def DeviceFeatures_init_def)
  next
    case False
    let ?s = "s\<lparr>connected := False, role := Dialpad, features := DeviceFeatures_init, controls := ControlState_init,
                   divertedDialButtons := 0\<rparr>"
    let ?cs = "map snd (filter (\<lambda>(button, _). bit buttonMask button) (enumerate 0 kDialpadControls))"
    obtain r1 i1 s1 e1 where 1: "ResolveFeature ops kFeatureReprogControls stop ?s e = Some (r1, i1, s1, e1)"
      using assms(1) c False by (auto simp: ConnectDialpad_def Let_def split: option.splits)
    let ?s1 = "s1\<lparr>features := (features s1)\<lparr>reprogControls := i1\<rparr>\<rparr>"
    have ok1: "\<not> FAILED r1" using assms(1,2) c False 1 by (auto simp: ConnectDialpad_def Let_def split: if_splits)
    obtain r2 s2 e2 where 2: "DivertControls ops ?cs stop ?s1 e1 = Some (r2, s2, e2)"
      using assms(1) c False 1 ok1 by (auto simp: ConnectDialpad_def Let_def split: option.splits)
    have ok2: "\<not> FAILED r2" and s': "s' = s2\<lparr>divertedDialButtons := dialpad_mask buttonMask, connected := True, restored := False\<rparr>" "e' = e2"
      using assms(1,2) c False 1 ok1 2 by (auto simp: ConnectDialpad_def Let_def split: if_splits)
    have k1: "quiet e1 \<and> flags e1 = flags e \<and> same_setup ?s s1" using ResolveFeature_kept [OF 1 assms(3)] .
    have f2: "features s2 = features ?s1" by (rule DivertControls_features [OF 2])
    have ix: "reprogControls (features ?s1) = index" using finds_controls [OF assms(3) 1 ok1] by simp
    have br: "brightness (features s') = 0" using f2 k1 s' by (simp add: same_setup_def DeviceFeatures_init_def)
    have sub: "set ?cs \<subseteq> set kDialpadControls" by (auto simp: in_set_enumerate_eq)
    have dist: "distinct ?cs" by (simp add: kDialpadControls_def enumerate_eq_zip)
    have "list_all known ?cs" using sub assms(4) unfolding list_all_iff by blast
    from DivertControls_saves [OF 2 ok2 _ ix this dist] k1
    have "saves ?cs e s' e' \<and> ports s' = ports s" using s' by (simp add: saves_def same_setup_def)
    moreover have "reprogControls (features s') = index" using f2 ix s' by simp
    ultimately show ?thesis using sub dist br by blast
  qed
qed

end

end
