(* ===== verification/Logicon_Synthetic.thy ===== *)
theory Logicon_Synthetic
  imports Logicon_Device
begin

text \<open>
  \<open>Logicon/LogiconSynthetic\<close>: the keypad or dialpad in memory that takes the place of the hardware, and the port over it.
  It answers the commands of \<open>Logicon_Device\<close>. Another thread injects reports while the lane waits: what it will inject
  is part of the environment, as are the clock and the stop event.
\<close>

section \<open>The device\<close>

definition kVlpControlReportBytes :: nat where "kVlpControlReportBytes = 32"
definition kSyntheticQueueSlots :: nat where "kSyntheticQueueSlots = 32"
definition kSyntheticRegionSlots :: nat where "kSyntheticRegionSlots = 64"
definition kSyntheticDisplayIndex :: u8 where "kSyntheticDisplayIndex = 0x02"
definition kSyntheticReprogIndex :: u8 where "kSyntheticReprogIndex = 0x0B"
definition kSyntheticBrightnessIndex :: u8 where "kSyntheticBrightnessIndex = 0x0F"
definition kSyntheticDialpadReprogIndex :: u8 where "kSyntheticDialpadReprogIndex = 0x0A"
definition kSyntheticDialpadFeatureCount :: u8 where "kSyntheticDialpadFeatureCount = 0x1D"

record SyntheticImageRecord =
  image_region :: ImageRegion
  image_bytes :: u32
  image_defer :: bool
  image_head :: "u8 list"

text \<open>The ring of queued reports is the list of what is in it.\<close>

record SyntheticKeypad =
  queue :: "u8 list list"
  images :: "SyntheticImageRecord list"
  commands :: u32
  keypad_brightness :: u32
  streamRemaining :: u32
  streaming :: SyntheticImageRecord
  pageFlags :: "u8 list"
  dialFlags :: "u8 list"
  resetSeen :: bool
  hideDisplayFromRoot :: bool
  dialpad :: bool
  unresponsive :: bool

definition SyntheticImageRecord_init :: SyntheticImageRecord where
  "SyntheticImageRecord_init =
     \<lparr>image_region = \<lparr>rx = 0, ry = 0, rwidth = 0, rheight = 0\<rparr>, image_bytes = 0, image_defer = False,
      image_head = [0, 0, 0, 0]\<rparr>"

definition SyntheticKeypad_init :: SyntheticKeypad where
  "SyntheticKeypad_init =
     \<lparr>queue = [], images = [], commands = 0, keypad_brightness = 0, streamRemaining = 0, streaming = SyntheticImageRecord_init,
      pageFlags = [0, 0], dialFlags = [0, 0, 0, 0], resetSeen = False, hideDisplayFromRoot = False, dialpad = False,
      unresponsive = False\<rparr>"

definition Reset :: "SyntheticKeypad \<Rightarrow> SyntheticKeypad" where
  "Reset k = k\<lparr>queue := [], images := [], commands := 0, keypad_brightness := 0, streamRemaining := 0,
     streaming := SyntheticImageRecord_init, pageFlags := [0, 0], dialFlags := [0, 0, 0, 0], resetSeen := False\<rparr>"

definition EnqueueReport :: "u8 list \<Rightarrow> SyntheticKeypad \<Rightarrow> SyntheticKeypad" where
  "EnqueueReport report k =
     (if length (queue k) \<ge> kSyntheticQueueSlots then k
      else k\<lparr>queue := queue k @ [take kVlpControlReportBytes report]\<rparr>)"

definition InjectReport :: "u8 list \<Rightarrow> SyntheticKeypad \<Rightarrow> hresult \<times> SyntheticKeypad" where
  "InjectReport report k =
     (if report = [] then (E_POINTER, k)
      else if length (queue k) \<ge> kSyntheticQueueSlots then (HRESULT_FROM_WIN32 170, k)
      else (S_OK, EnqueueReport report k))"

definition InjectKeys :: "u32 \<Rightarrow> SyntheticKeypad \<Rightarrow> hresult \<times> SyntheticKeypad" where
  "InjectKeys keyMask k =
     InjectReport
       (zero_filled kVlpControlReportBytes
          ([kReportVlpControl, kDeviceIndexWired, kSyntheticDisplayIndex, 0, 0, kDisplayIndex] @
           map (\<lambda>key. of_nat (key + 1)) (filter (\<lambda>key. bit keyMask key) [0..<kKeyCount]))) k"

definition InjectPageButtons :: "u32 \<Rightarrow> SyntheticKeypad \<Rightarrow> hresult \<times> SyntheticKeypad" where
  "InjectPageButtons pageMask k =
     InjectReport
       (zero_filled kLongReportBytes
          ([kReportLong, kDeviceIndexWired, kSyntheticReprogIndex, 0] @
           (if bit pageMask 0 then PutBigEndian16 kControlPagePrevious else []) @
           (if bit pageMask 1 then PutBigEndian16 kControlPageNext else []))) k"

definition InjectDialButtons :: "u32 \<Rightarrow> SyntheticKeypad \<Rightarrow> hresult \<times> SyntheticKeypad" where
  "InjectDialButtons buttonMask k =
     InjectReport
       (zero_filled kLongReportBytes
          ([kReportLong, kDeviceIndexWired, kSyntheticDialpadReprogIndex, 0] @
           concat (map (\<lambda>(button, control). if bit buttonMask button then PutBigEndian16 control else [])
                     (enumerate 0 kDialpadControls)))) k"

definition PageButtonsDiverted :: "SyntheticKeypad \<Rightarrow> bool" where
  "PageButtonsDiverted k \<longleftrightarrow> list_all (\<lambda>flags. flags AND kCidReportingDivert = kCidReportingDivert) (pageFlags k)"

definition DialButtonsDiverted :: "SyntheticKeypad \<Rightarrow> bool" where
  "DialButtonsDiverted k \<longleftrightarrow> list_all (\<lambda>flags. flags AND kCidReportingDivert = kCidReportingDivert) (dialFlags k)"

definition CopyImageRecords :: "nat \<Rightarrow> SyntheticKeypad \<Rightarrow> SyntheticImageRecord list" where
  "CopyImageRecords capacity k = take capacity (images k)"

definition big_endian_at :: "u8 list \<Rightarrow> nat \<Rightarrow> u16" where
  "big_endian_at packet i = GetBigEndian16 (packet ! i) (packet ! (i + 1))"

definition RecordImage :: "u8 list \<Rightarrow> SyntheticKeypad \<Rightarrow> SyntheticKeypad" where
  "RecordImage packet k =
     (if length packet < unat kVlpFirstHeaderBytes then k
      else
        (let sq = packet ! 4;
             k = (if sq AND 0x80 \<noteq> 0 then
                    (let bytes = push_bit 16 (ucast (packet ! 17)) OR push_bit 8 (ucast (packet ! 18)) OR ucast (packet ! 19)
                     in k\<lparr>streaming :=
                            \<lparr>image_region = \<lparr>rx = big_endian_at packet 9, ry = big_endian_at packet 11,
                                             rwidth = big_endian_at packet 13, rheight = big_endian_at packet 15\<rparr>,
                             image_bytes = bytes, image_defer = (packet ! 6 \<noteq> 0),
                             image_head = take 4 (take 4 (drop (unat kVlpFirstHeaderBytes) packet) @ [0, 0, 0, 0])\<rparr>,
                          streamRemaining := bytes - min bytes (kVlpImageReportBytes - kVlpFirstHeaderBytes)\<rparr>)
                  else k\<lparr>streamRemaining := streamRemaining k -
                            min (streamRemaining k) (kVlpImageReportBytes - kVlpContinuationHeaderBytes)\<rparr>)
         in if sq AND 0x40 \<noteq> 0 then
              k\<lparr>images := (if length (images k) < kSyntheticRegionSlots then images k @ [streaming k]
                           else tl (images k) @ [streaming k]),
                streamRemaining := 0\<rparr>
            else k))"

section \<open>Answers\<close>

definition reprog_index :: "SyntheticKeypad \<Rightarrow> u8" where
  "reprog_index k = (if dialpad k then kSyntheticDialpadReprogIndex else kSyntheticReprogIndex)"

definition root_lookup :: "SyntheticKeypad \<Rightarrow> u16 \<Rightarrow> u8" where
  "root_lookup k featureId =
     (if featureId = kFeatureContextualDisplay \<and> \<not> dialpad k then
        (if hideDisplayFromRoot k then 0 else kSyntheticDisplayIndex)
      else if featureId = kFeatureReprogControls then reprog_index k
      else if featureId = kFeatureBrightness \<and> \<not> dialpad k then kSyntheticBrightnessIndex
      else if featureId = 0 \<or> featureId = kFeatureSet then ucast featureId
      else 0)"

definition feature_at :: "SyntheticKeypad \<Rightarrow> u8 \<Rightarrow> u16" where
  "feature_at k queried =
     (if queried = kSyntheticDisplayIndex \<and> \<not> dialpad k then kFeatureContextualDisplay
      else if queried = reprog_index k then kFeatureReprogControls
      else if queried = kSyntheticBrightnessIndex \<and> \<not> dialpad k then kFeatureBrightness
      else if queried = 1 then kFeatureSet
      else 0)"

text \<open>The flags of a control: which of the two arrays, and where in it.\<close>

definition control_slot :: "SyntheticKeypad \<Rightarrow> u16 \<Rightarrow> nat option" where
  "control_slot k control =
     (if dialpad k then find (\<lambda>i. kDialpadControls ! i = control) [0..<length kDialpadControls]
      else if control = kControlPagePrevious then Some 0
      else if control = kControlPageNext then Some 1
      else None)"

definition control_flags :: "SyntheticKeypad \<Rightarrow> nat \<Rightarrow> u8" where
  "control_flags k slot = (if dialpad k then dialFlags k ! slot else pageFlags k ! slot)"

definition set_control_flags :: "nat \<Rightarrow> u8 \<Rightarrow> SyntheticKeypad \<Rightarrow> SyntheticKeypad" where
  "set_control_flags slot flags k =
     (if dialpad k then k\<lparr>dialFlags := (dialFlags k)[slot := flags]\<rparr> else k\<lparr>pageFlags := (pageFlags k)[slot := flags]\<rparr>)"

definition long_response :: "u8 list \<Rightarrow> u8 list \<Rightarrow> u8 list" where
  "long_response report params = zero_filled kLongReportBytes ([kReportLong, report ! 1, report ! 2, report ! 3] @ params)"

definition error_response :: "u8 list \<Rightarrow> u8 \<Rightarrow> u8 list" where
  "error_response report code =
     zero_filled kLongReportBytes [kReportLong, report ! 1, kErrorMarker, report ! 2, report ! 3, code]"

text \<open>What the device answers to a command, and its registers after it.\<close>

definition answer_command :: "u8 list \<Rightarrow> SyntheticKeypad \<Rightarrow> u8 list \<times> SyntheticKeypad" where
  "answer_command report k =
     (let feature = report ! 2; func = drop_bit 4 (report ! 3); control = GetBigEndian16 (report ! 4) (report ! 5)
      in if feature = 0 \<and> func = 0 then (long_response report [root_lookup k control, 0, 1], k)
         else if feature = 1 \<and> func = 0 then
           (long_response report [if dialpad k then kSyntheticDialpadFeatureCount else kSyntheticBrightnessIndex], k)
         else if feature = 1 \<and> func = 1 then
           (long_response report (PutBigEndian16 (feature_at k (report ! 4)) @
              [if report ! 4 = kSyntheticDisplayIndex \<and> \<not> dialpad k then 0x40 else 0]), k)
         else if feature = reprog_index k \<and> (func = 2 \<or> func = 3) then
           (case control_slot k control of
              None \<Rightarrow> (error_response report 1, k)
            | Some slot \<Rightarrow>
                (let k = (if func = 3 then set_control_flags slot (report ! 6) k else k)
                 in (long_response report [report ! 4, report ! 5, control_flags k slot], k)))
         else if feature = kSyntheticBrightnessIndex \<and> func = 2 \<and> \<not> dialpad k then
           (long_response report [], k\<lparr>keypad_brightness := ucast control\<rparr>)
         else if feature = kSyntheticDisplayIndex \<and> \<not> dialpad k then (long_response report [], k)
         else (error_response report 6, k))"

definition HandleWrite :: "u8 list \<Rightarrow> SyntheticKeypad \<Rightarrow> hresult \<times> SyntheticKeypad" where
  "HandleWrite report k =
     (if report = [] then (E_POINTER, k)
      else if report ! 0 = kReportVlpImage then (S_OK, RecordImage report k)
      else if report ! 0 \<noteq> kReportLong \<or> length report < kLongReportBytes then (S_OK, k)
      else
        (let k = k\<lparr>commands := commands k + 1\<rparr>
         in if unresponsive k then (S_OK, k)
            else (let (response, k) = answer_command report k in (S_OK, EnqueueReport response k))))"

definition HandleFeature :: "u8 list \<Rightarrow> SyntheticKeypad \<Rightarrow> hresult \<times> SyntheticKeypad" where
  "HandleFeature report k =
     (if length report < 2 then (E_POINTER, k)
      else (S_OK, if report ! 0 = 0x03 \<and> report ! 1 = 0x02 then k\<lparr>resetSeen := True\<rparr> else k))"

definition TakeQueued :: "nat \<Rightarrow> SyntheticKeypad \<Rightarrow> (hresult \<times> u8 list) \<times> SyntheticKeypad" where
  "TakeQueued capacity k =
     (if capacity = 0 then ((E_POINTER, []), k)
      else (case queue k of
              [] \<Rightarrow> ((S_FALSE, []), k)
            | report # rest \<Rightarrow> ((S_OK, take capacity report), k\<lparr>queue := rest\<rparr>)))"

section \<open>The port\<close>

definition SyntheticHidPort :: "bool \<Rightarrow> HidCollectionInfo" where
  "SyntheticHidPort isDialpad =
     (if isDialpad then
        \<lparr>outputReportBytes = of_nat kLongReportBytes, featureReportBytes = 0,
         outputReportMask = push_bit (unat kReportLong) 1, featureReportMask = 0\<rparr>
      else
        \<lparr>outputReportBytes = kVlpImageReportBytes, featureReportBytes = of_nat kFeatureResetReportBytes,
         outputReportMask = push_bit (unat kReportLong) 1 OR push_bit (unat kReportVlpControl) 1 OR
                            push_bit (unat kReportVlpImage) 1,
         featureReportMask = push_bit 3 1\<rparr>)"

text \<open>
  The lane with a synthetic device: \<open>arrivals\<close> is what the other thread injects in each of the lane's waits to come. A wait
  ends at once when a report is queued, with the next injection, or when its time has run out.
\<close>

record syn_env =
  keypad :: SyntheticKeypad
  now_ms :: nat
  arrivals :: "u8 list list list"
  stopping :: bool

definition on_keypad :: "(SyntheticKeypad \<Rightarrow> 'a \<times> SyntheticKeypad) \<Rightarrow> syn_env \<Rightarrow> 'a \<times> syn_env" where
  "on_keypad f e = (let (r, k) = f (keypad e) in (r, e\<lparr>keypad := k\<rparr>))"

definition inject_all :: "u8 list list \<Rightarrow> SyntheticKeypad \<Rightarrow> SyntheticKeypad" where
  "inject_all reports k = fold (\<lambda>report k. snd (InjectReport report k)) reports k"

definition synthetic_wait :: "bool \<Rightarrow> u64 \<Rightarrow> syn_env \<Rightarrow> wait_end \<times> syn_env" where
  "synthetic_wait stop timeout e =
     (if stop \<and> stopping e then (StopSignaled, e)
      else if queue (keypad e) \<noteq> [] then (WaitOver, e)
      else (case arrivals e of
              reports # rest \<Rightarrow> (WaitOver, e\<lparr>keypad := inject_all reports (keypad e), arrivals := rest\<rparr>)
            | [] \<Rightarrow> (WaitOver, e\<lparr>now_ms := now_ms e + unat timeout\<rparr>)))"

definition synthetic_ops :: "syn_env hid_ops" where
  "synthetic_ops =
     \<lparr>take_report = (\<lambda>port capacity. on_keypad (TakeQueued capacity)),
      write_report = (\<lambda>port report stop. on_keypad (HandleWrite report)),
      set_feature = (\<lambda>port report stop. on_keypad (HandleFeature report)),
      port_disconnected = (\<lambda>port e. False),
      tick_count = (\<lambda>e. of_nat (now_ms e)),
      tick_count64 = (\<lambda>e. of_nat (now_ms e)),
      wait_reports = synthetic_wait,
      stop_signaled = stopping\<rparr>"

end
