(* ===== verification/Logicon_Answers.thy ===== *)
theory Logicon_Answers
  imports Logicon_Restore Logicon_Synthetic
begin

text \<open>
  The synthetic device provides the interface of \<open>Logicon_Restore\<close>: what it answers to a command, that the wait of
  \<open>SendCommand\<close> takes that answer and no other report, and what the command has done to the flags of its controls.
\<close>

section \<open>The synthetic device answers\<close>

definition hits :: "u8 \<Rightarrow> u8 \<Rightarrow> u8 list \<Rightarrow> bool" where
  "hits f fn report \<longleftrightarrow>
     (\<exists>frame. ParseHidppFrame (Some (take kInputBufferBytes report)) = Some frame \<and> FrameAnswers frame f fn)"

text \<open>An answer to some command on this feature.\<close>

definition answers_on :: "u8 \<Rightarrow> u8 list \<Rightarrow> bool" where
  "answers_on f report \<longleftrightarrow>
     (\<exists>frame. ParseHidppFrame (Some (take kInputBufferBytes report)) = Some frame \<and>
        featureIndex frame = f \<and> softwareId frame = kSoftwareId)"

lemma hits_answers: "hits f fn report \<Longrightarrow> answers_on f report"
  by (auto simp: hits_def answers_on_def FrameAnswers_def)

abbreviation queued :: "syn_env \<Rightarrow> u8 list list" where
  "queued e \<equiv> queue (keypad e)"

definition with_queue :: "u8 list list \<Rightarrow> syn_env \<Rightarrow> syn_env" where
  "with_queue q e = e\<lparr>keypad := (keypad e)\<lparr>queue := q\<rparr>\<rparr>"

lemma with_queue_sel [simp]:
  "queued (with_queue q e) = q" "arrivals (with_queue q e) = arrivals e" "with_queue q (with_queue r e) = with_queue q e"
  "now_ms (with_queue q e) = now_ms e" "stopping (with_queue q e) = stopping e" "with_queue (queued e) e = e"
  "keypad (with_queue q e) = (keypad e)\<lparr>queue := q\<rparr>"
  by (simp_all add: with_queue_def)

lemma synthetic_take:
  "take_report synthetic_ops port kInputBufferBytes e =
     (case queued e of
        [] \<Rightarrow> ((S_FALSE, []), e)
      | report # rest \<Rightarrow> ((S_OK, take kInputBufferBytes report), with_queue rest e))"
  by (simp add: synthetic_ops_def on_keypad_def TakeQueued_def kInputBufferBytes_def with_queue_def split: list.split)

text \<open>A drain ends at the first report that answers, or with the queue empty.\<close>

definition drained_to :: "u8 \<Rightarrow> u8 \<Rightarrow> syn_env \<Rightarrow> drain_end \<Rightarrow> syn_env \<Rightarrow> bool" where
  "drained_to f fn e r e' \<longleftrightarrow>
     (\<exists>pre x post frame. queued e = pre @ x # post \<and> \<not> list_ex (hits f fn) pre \<and>
        ParseHidppFrame (Some (take kInputBufferBytes x)) = Some frame \<and> FrameAnswers frame f fn \<and>
        r = Answered frame \<and> e' = with_queue post e) \<or>
     \<not> list_ex (hits f fn) (queued e) \<and> r = Drained \<and> e' = with_queue [] e"

lemma drain_port_synthetic:
  "drain_port synthetic_ops f fn port n s e = (r, s', e') \<Longrightarrow> length (queued e) < n \<Longrightarrow> drained_to f fn e r e'"
proof (induction n arbitrary: s e)
  case (Suc n)
  have codes: "S_OK \<noteq> S_FALSE" "\<not> FAILED S_OK" by (simp_all add: S_OK_def S_FALSE_def FAILED_def)
  show ?case
  proof (cases "queued e")
    case Nil
    then show ?thesis using Suc.prems by (auto simp: synthetic_take drained_to_def with_queue_def)
  next
    case (Cons x rest)
    show ?thesis
    proof (cases "hits f fn x")
      case True
      then obtain frame where "ParseHidppFrame (Some (take kInputBufferBytes x)) = Some frame" "FrameAnswers frame f fn"
        by (auto simp: hits_def)
      then show ?thesis
        using Suc.prems(1) Cons codes unfolding drained_to_def
        by (intro disjI1 exI [of _ "[]"] exI [of _ x] exI [of _ rest] exI [of _ frame]) (auto simp: synthetic_take)
    next
      case False
      then obtain s1 where "drain_port synthetic_ops f fn port n s1 (with_queue rest e) = (r, s', e')"
        using Suc.prems(1) Cons codes by (auto simp: synthetic_take hits_def split: option.splits)
      from Suc.IH [OF this] have "drained_to f fn (with_queue rest e) r e'" using Suc.prems(2) Cons by simp
      then show ?thesis
      proof (unfold drained_to_def, elim disjE exE conjE)
        fix pre y post frame
        assume "queued (with_queue rest e) = pre @ y # post" "\<not> list_ex (hits f fn) pre"
          "ParseHidppFrame (Some (take kInputBufferBytes y)) = Some frame" "FrameAnswers frame f fn"
          "r = Answered frame" "e' = with_queue post (with_queue rest e)"
        then show "(\<exists>pre x post frame. queued e = pre @ x # post \<and> \<not> list_ex (hits f fn) pre \<and>
            ParseHidppFrame (Some (take kInputBufferBytes x)) = Some frame \<and> FrameAnswers frame f fn \<and>
            r = Answered frame \<and> e' = with_queue post e) \<or>
            \<not> list_ex (hits f fn) (queued e) \<and> r = Drained \<and> e' = with_queue [] e"
          using Cons False by (intro disjI1 exI [of _ "x # pre"] exI [of _ y] exI [of _ post] exI [of _ frame]) simp
      qed (use Cons False in auto)
    qed
  qed
qed simp

lemma drain_ports_empty: "queued e = [] \<Longrightarrow> drain_ports synthetic_ops f fn ps s e = (Drained, s, e)"
  by (induction ps) (simp_all add: synthetic_take eval_nat_numeral)

lemma drain_ports_synthetic:
  assumes "drain_ports synthetic_ops f fn ps s e = (r, s', e')" "length (queued e) \<le> kSyntheticQueueSlots" "ps \<noteq> []"
  shows "drained_to f fn e r e'"
proof -
  obtain p rest where ps: "ps = p # rest" using assms(3) by (cases ps) auto
  obtain d s1 e1 where d: "drain_port synthetic_ops f fn p 64 s e = (d, s1, e1)" by (metis prod.exhaust)
  have to: "drained_to f fn e d e1" using drain_port_synthetic [OF d] assms(2) by (simp add: kSyntheticQueueSlots_def)
  show ?thesis
  proof (cases d)
    case Drained
    then have "queued e1 = []" using to by (auto simp: drained_to_def)
    then have "drain_ports synthetic_ops f fn rest s1 e1 = (Drained, s1, e1)" by (rule drain_ports_empty)
    then show ?thesis using assms(1) to d Drained by (simp add: ps)
  qed (use assms(1) to d in \<open>auto simp: ps\<close>)
qed


text \<open>What a wait keeps: every report that is queued or to come has a property of the reports before it.\<close>

definition reports_all :: "(u8 list \<Rightarrow> bool) \<Rightarrow> syn_env \<Rightarrow> bool" where
  "reports_all P e \<longleftrightarrow>
     length (queued e) \<le> kSyntheticQueueSlots \<and> list_all P (queued e) \<and>
     list_all (list_all (\<lambda>report. P (take kVlpControlReportBytes report))) (arrivals e)"

definition same_device :: "syn_env \<Rightarrow> syn_env \<Rightarrow> bool" where
  "same_device e e' \<longleftrightarrow> (\<exists>q. keypad e' = (keypad e)\<lparr>queue := q\<rparr>) \<and> stopping e' = stopping e"

lemma same_device_refl [simp]: "same_device e e" "same_device e (with_queue q e)"
  by (auto simp: same_device_def with_queue_def intro: exI [of _ "queued e"])

lemma same_device_trans: "same_device e f \<Longrightarrow> same_device f g \<Longrightarrow> same_device e g"
  by (auto simp: same_device_def)

lemma inject_all_queue:
  "length (queue k) \<le> kSyntheticQueueSlots \<Longrightarrow> list_all P (queue k) \<Longrightarrow> list_all (\<lambda>r. P (take kVlpControlReportBytes r)) reports \<Longrightarrow>
     (\<exists>q. inject_all reports k = k\<lparr>queue := q\<rparr> \<and> length q \<le> kSyntheticQueueSlots \<and> list_all P q)"
proof (induction reports arbitrary: k)
  case Nil
  then show ?case by (intro exI [of _ "queue k"]) (simp add: inject_all_def)
next
  case (Cons r rs)
  have step: "\<exists>q. snd (InjectReport r k) = k\<lparr>queue := q\<rparr> \<and> length q \<le> kSyntheticQueueSlots \<and> list_all P q"
    using Cons.prems
    by (intro exI [of _ "if r = [] \<or> length (queue k) \<ge> kSyntheticQueueSlots then queue k
          else queue k @ [take kVlpControlReportBytes r]"]) (simp add: InjectReport_def EnqueueReport_def)
  then obtain q where q: "snd (InjectReport r k) = k\<lparr>queue := q\<rparr>" "length q \<le> kSyntheticQueueSlots" "list_all P q" by blast
  from Cons.IH [of "k\<lparr>queue := q\<rparr>"] q Cons.prems(3) show ?case by (simp add: inject_all_def)
qed

lemma synthetic_wait_kept:
  assumes "synthetic_wait stop timeout e = (w, e')" "reports_all P e"
  shows "reports_all P e' \<and> same_device e e' \<and> (\<forall>code. w \<noteq> WaitFailed code)"
proof (cases "(stop \<and> stopping e) \<or> queued e \<noteq> [] \<or> arrivals e = []")
  case True
  then show ?thesis
    using assms by (auto simp: synthetic_wait_def reports_all_def same_device_def split: if_splits list.splits intro: exI [of _ "queued e"])
next
  case False
  then obtain reports rest where a: "arrivals e = reports # rest" by (cases "arrivals e") auto
  have all: "list_all (\<lambda>r. P (take kVlpControlReportBytes r)) reports" using assms(2) a by (simp add: reports_all_def)
  obtain q where q: "inject_all reports (keypad e) = (keypad e)\<lparr>queue := q\<rparr>" "length q \<le> kSyntheticQueueSlots" "list_all P q"
    using inject_all_queue [of "keypad e" P reports] all assms(2) unfolding reports_all_def by blast
  have "w = WaitOver" "e' = e\<lparr>keypad := (keypad e)\<lparr>queue := q\<rparr>, arrivals := rest\<rparr>"
    using assms(1) False a q(1) by (auto simp: synthetic_wait_def)
  then show ?thesis using assms(2) a q by (auto simp: reports_all_def same_device_def)
qed

lemma drained_to_kept:
  "drained_to f fn e r e' \<Longrightarrow> reports_all P e \<Longrightarrow> reports_all P e' \<and> same_device e e' \<and> (\<forall>hr. r \<noteq> ReadFailed hr)"
  by (auto simp: drained_to_def reports_all_def)

lemma timeout_codes [simp]:
  "FAILED (HRESULT_FROM_WIN32 1460)" "FAILED (HRESULT_FROM_WIN32 1223)" "\<not> FAILED S_OK" "\<not> frame_error HidppFrame_init"
  by (simp_all add: FAILED_def HRESULT_FROM_WIN32_def S_OK_def HidppFrame_init_def)

text \<open>A wait for an answer, and with it none that was queued before.\<close>

lemma await_synthetic:
  assumes "await_answer synthetic_ops f fn stop deadline s e = Some (hr, response, s', e')" "reports_all P e" "ports s \<noteq> []"
  shows "reports_all P e' \<and> same_device e e' \<and>
    ((\<forall>x. P x \<longrightarrow> \<not> hits f fn x) \<longrightarrow> FAILED hr \<and> response = HidppFrame_init)"
proof -
  have w: "wait_reports synthetic_ops = synthetic_wait" by (simp add: synthetic_ops_def)
  have hit: "drained_to f fn e (Answered frame) e1 \<Longrightarrow> reports_all P e \<Longrightarrow> \<exists>x. P x \<and> hits f fn x" for e frame e1
    by (auto simp: drained_to_def reports_all_def hits_def)
  have "reports_all P e \<longrightarrow> ports s \<noteq> [] \<longrightarrow>
      (case r of (hr, response, s', e') \<Rightarrow> reports_all P e' \<and> same_device e e' \<and>
         ((\<forall>x. P x \<longrightarrow> \<not> hits f fn x) \<longrightarrow> FAILED hr \<and> response = HidppFrame_init))"
    if "await_answer synthetic_ops f fn stop deadline s e = Some r" for r
    using that
  proof (induction rule: await_answer_induct)
    case (answer s e frame s1 e1)
    show ?case
    proof (intro impI)
      assume a: "reports_all P e" "ports s \<noteq> []"
      have d: "drained_to f fn e (Answered frame) e1"
        using drain_ports_synthetic [OF answer] a by (auto simp: reports_all_def)
      show "case answered frame s1 e1 of (hr, response, s', e') \<Rightarrow> reports_all P e' \<and> same_device e e' \<and>
          ((\<forall>x. P x \<longrightarrow> \<not> hits f fn x) \<longrightarrow> FAILED hr \<and> response = HidppFrame_init)"
        using drained_to_kept [OF d a(1)] hit [OF d a(1)] by (auto simp: answered_def)
    qed
  next
    case (read_failed s e hr s1 e1)
    show ?case
    proof (intro impI)
      assume a: "reports_all P e" "ports s \<noteq> []"
      have "drained_to f fn e (ReadFailed hr) e1"
        using drain_ports_synthetic [OF read_failed] a by (auto simp: reports_all_def)
      from drained_to_kept [OF this a(1)]
      show "case (hr, HidppFrame_init, s1, e1) of (hr, response, s', e') \<Rightarrow> reports_all P e' \<and> same_device e e' \<and>
          ((\<forall>x. P x \<longrightarrow> \<not> hits f fn x) \<longrightarrow> FAILED hr \<and> response = HidppFrame_init)" by blast
    qed
  next
    case (timeout s e s1 e1)
    show ?case
      using drain_ports_synthetic [OF timeout] drained_to_kept [of f fn e Drained e1 P] by (auto simp: reports_all_def)
  next
    case (stopped s e s1 e1 e2)
    show ?case
    proof (intro impI)
      assume a: "reports_all P e" "ports s \<noteq> []"
      have d: "reports_all P e1 \<and> same_device e e1"
        using drain_ports_synthetic [OF stopped(1)] drained_to_kept [of f fn e Drained e1 P] a by (auto simp: reports_all_def)
      from synthetic_wait_kept [OF stopped(2) [unfolded w]] d
      show "case (HRESULT_FROM_WIN32 1223, HidppFrame_init, s1, e2) of (hr, response, s', e') \<Rightarrow> reports_all P e' \<and> same_device e e' \<and>
          ((\<forall>x. P x \<longrightarrow> \<not> hits f fn x) \<longrightarrow> FAILED hr \<and> response = HidppFrame_init)"
        using same_device_trans by fastforce
    qed
  next
    case (wait_failed s e s1 e1 code e2)
    show ?case
    proof (intro impI)
      assume a: "reports_all P e" "ports s \<noteq> []"
      have d: "reports_all P e1"
        using drain_ports_synthetic [OF wait_failed(1)] drained_to_kept [of f fn e Drained e1 P] a by (auto simp: reports_all_def)
      from synthetic_wait_kept [OF wait_failed(2) [unfolded w] this]
      show "case (HRESULT_FROM_WIN32 code, HidppFrame_init, s1, e2) of (hr, response, s', e') \<Rightarrow> reports_all P e' \<and> same_device e e' \<and>
          ((\<forall>x. P x \<longrightarrow> \<not> hits f fn x) \<longrightarrow> FAILED hr \<and> response = HidppFrame_init)" by blast
    qed
  next
    case (again s e s1 e1 w e2 r)
    show ?case
    proof (intro impI)
      assume a: "reports_all P e" "ports s \<noteq> []"
      have d: "reports_all P e1 \<and> same_device e e1"
        using drain_ports_synthetic [OF again(1)] drained_to_kept [of f fn e Drained e1 P] a by (auto simp: reports_all_def)
      have e2: "reports_all P e2 \<and> same_device e1 e2"
        using synthetic_wait_kept [OF again(3) [unfolded w]] d by blast
      have "ports s1 \<noteq> []" using drain_ports_setup [OF again(1)] a(2) by (simp add: same_setup_def)
      then show "case r of (hr, response, s', e') \<Rightarrow> reports_all P e' \<and> same_device e e' \<and>
          ((\<forall>x. P x \<longrightarrow> \<not> hits f fn x) \<longrightarrow> FAILED hr \<and> response = HidppFrame_init)"
        using again(4) e2 d same_device_trans by (auto split: prod.splits)
    qed
  qed
  then show ?thesis using assms by fastforce
qed

text \<open>An answer that is the last of the queue ends the wait at once.\<close>

lemma await_answered:
  assumes "await_answer synthetic_ops f fn stop deadline s e = Some (hr, response, s', e')" "ports s \<noteq> []"
    "queued e = pre @ [x]" "length (queued e) \<le> kSyntheticQueueSlots" "\<not> list_ex (hits f fn) pre"
    "ParseHidppFrame (Some (take kInputBufferBytes x)) = Some frame" "FrameAnswers frame f fn"
  shows "e' = with_queue [] e \<and> response = frame \<and> hr = (if frame_error frame then CommandFailure frame else S_OK)"
proof -
  obtain d s1 e1 where d: "drain_ports synthetic_ops f fn [0..<length (ports s)] s e = (d, s1, e1)" by (metis prod.exhaust)
  have to: "drained_to f fn e d e1" using drain_ports_synthetic [OF d assms(4)] assms(2) by simp
  have h: "hits f fn x" using assms(6,7) by (auto simp: hits_def)
  have "d = Answered frame \<and> e1 = with_queue [] e"
    using to
    unfolding drained_to_def
  proof (elim disjE exE conjE)
    fix pre' y post g
    assume q: "queued e = pre' @ y # post" "\<not> list_ex (hits f fn) pre'" "ParseHidppFrame (Some (take kInputBufferBytes y)) = Some g"
      "FrameAnswers g f fn" "d = Answered g" "e1 = with_queue post e"
    have "hits f fn y" using q(3,4) by (auto simp: hits_def)
    then have "post = []"
      using q(1,2) assms(3,5) by (cases post rule: rev_cases) (auto simp: list_ex_iff)
    then show ?thesis using q assms(3,6) by auto
  next
    assume "\<not> list_ex (hits f fn) (queued e)"
    then show ?thesis using assms(3) h by simp
  qed
  then show ?thesis
    using assms(1) d by (auto simp: await_answer_eq [of synthetic_ops f fn stop deadline s e] answered_def split: if_splits)
qed

section \<open>Commands to the synthetic device\<close>

definition command_report :: "u8 \<Rightarrow> u8 \<Rightarrow> u8 list \<Rightarrow> u8 list" where
  "command_report f fn ps = zero_filled kLongReportBytes ([kReportLong, kDeviceIndexWired, f, push_bit 4 fn OR kSoftwareId] @ ps)"

lemma BuildLongReport_command:
  "BuildLongReport kDeviceIndexWired f fn (Some ps) (length ps) kLongReportBytes =
     (if fn > 0x0F \<or> length ps > kLongParameterBytes then None else Some (command_report f fn ps))"
  by (auto simp: BuildLongReport_def command_report_def)

lemma length_command: "length ps \<le> kLongParameterBytes \<Longrightarrow> length (command_report f fn ps) = kLongReportBytes"
  by (simp add: command_report_def kLongReportBytes_def kLongParameterBytes_def)

lemma command_nth:
  "command_report f fn ps ! 0 = kReportLong" "command_report f fn ps ! 1 = kDeviceIndexWired" "command_report f fn ps ! 2 = f"
  "hd (command_report f fn ps) = kReportLong"
  "command_report f fn ps \<noteq> []"
  by (simp_all add: command_report_def zero_filled_def)

lemma command_function:
  assumes "fn \<le> 0x0F"
  shows "drop_bit 4 (command_report f fn ps ! 3) = fn" "command_report f fn ps ! 3 AND 0x0F = kSoftwareId"
proof -
  have "command_report f fn ps ! 3 = push_bit 4 fn OR kSoftwareId" by (simp add: command_report_def zero_filled_def)
  then show "drop_bit 4 (command_report f fn ps ! 3) = fn" "command_report f fn ps ! 3 AND 0x0F = kSoftwareId"
    using function_software_byte [OF assms] by simp_all
qed

lemma take_input: "length xs \<le> kLongReportBytes \<Longrightarrow> take kInputBufferBytes xs = xs"
  by (simp add: kInputBufferBytes_def kLongReportBytes_def)

text \<open>What is answered to a command, read as a frame.\<close>

lemma long_response_frame:
  assumes "length ps \<le> kLongParameterBytes" "report ! 2 \<noteq> kErrorMarker"
  shows "length (long_response report ps) = kLongReportBytes"
    "ParseHidppFrame (Some (long_response report ps)) =
       Some \<lparr>reportId = kReportLong, deviceIndex = report ! 1, featureIndex = report ! 2,
             function_id = drop_bit 4 (report ! 3), softwareId = report ! 3 AND 0x0F,
             frame_error = False, errorCode = 0, frame_params = Some (ps @ replicate (16 - length ps) 0)\<rparr>"
proof -
  show l: "length (long_response report ps) = kLongReportBytes"
    using assms(1) by (simp add: long_response_def kLongReportBytes_def kLongParameterBytes_def)
  have "drop 4 (long_response report ps) = ps @ replicate (16 - length ps) 0"
    using assms(1) by (simp add: long_response_def zero_filled_def kLongReportBytes_def kLongParameterBytes_def)
  then show "ParseHidppFrame (Some (long_response report ps)) =
       Some \<lparr>reportId = kReportLong, deviceIndex = report ! 1, featureIndex = report ! 2,
             function_id = drop_bit 4 (report ! 3), softwareId = report ! 3 AND 0x0F,
             frame_error = False, errorCode = 0, frame_params = Some (ps @ replicate (16 - length ps) 0)\<rparr>"
    using l assms(2) by (simp add: ParseHidppFrame_def kLongReportBytes_def)
      (simp add: long_response_def zero_filled_def kReportLong_def)
qed

lemma error_response_frame:
  "length (error_response report code) = kLongReportBytes"
  "\<exists>frame. ParseHidppFrame (Some (error_response report code)) = Some frame \<and> featureIndex frame = report ! 2 \<and>
     softwareId frame = report ! 3 AND 0x0F \<and> frame_error frame"
proof -
  show l: "length (error_response report code) = kLongReportBytes" by (simp add: error_response_def kLongReportBytes_def)
  show "\<exists>frame. ParseHidppFrame (Some (error_response report code)) = Some frame \<and> featureIndex frame = report ! 2 \<and>
     softwareId frame = report ! 3 AND 0x0F \<and> frame_error frame"
    using l by (simp add: ParseHidppFrame_def kLongReportBytes_def)
      (simp add: error_response_def zero_filled_def kReportLong_def)
qed

lemma indexes_not_error:
  "reprog_index k \<noteq> kErrorMarker" "kSyntheticBrightnessIndex \<noteq> kErrorMarker" "kSyntheticDisplayIndex \<noteq> kErrorMarker"
  "(0 :: u8) \<noteq> kErrorMarker" "(1 :: u8) \<noteq> kErrorMarker"
  by (simp_all add: reprog_index_def kSyntheticDialpadReprogIndex_def kSyntheticReprogIndex_def kErrorMarker_def
      kSyntheticBrightnessIndex_def kSyntheticDisplayIndex_def)

lemma answer_frame:
  assumes "answer_command (command_report f fn ps) k = (response, k')" "fn \<le> 0x0F"
  shows "length response = kLongReportBytes \<and>
    (\<exists>frame. ParseHidppFrame (Some response) = Some frame \<and> featureIndex frame = f \<and> softwareId frame = kSoftwareId \<and>
       (frame_error frame \<or> function_id frame = fn))"
proof -
  note sw = command_function [OF assms(2)]
  have long: ?thesis if "response = long_response (command_report f fn ps) qs" "length qs \<le> kLongParameterBytes" "f \<noteq> kErrorMarker" for qs
    using long_response_frame [of qs "command_report f fn ps"] that sw by (simp add: command_nth)
  have err: ?thesis if "response = error_response (command_report f fn ps) code" for code
    using error_response_frame [of "command_report f fn ps" code] that sw by (auto simp: command_nth)
  show ?thesis
    using assms(1) long err indexes_not_error(1) [of k] indexes_not_error(2-)
    by (auto simp: answer_command_def Let_def command_nth PutBigEndian16_def kLongParameterBytes_def split: if_splits option.splits)
qed

text \<open>The flags of the controls, and what a command does to them.\<close>

definition syn_flags :: "syn_env \<Rightarrow> u16 \<Rightarrow> u8" where
  "syn_flags e c = (case control_slot (keypad e) c of None \<Rightarrow> 0 | Some slot \<Rightarrow> control_flags (keypad e) slot)"

definition slots_ok :: "SyntheticKeypad \<Rightarrow> bool" where
  "slots_ok k \<longleftrightarrow> length (pageFlags k) = 2 \<and> length (dialFlags k) = 4"

lemma control_slot_less: "control_slot k c = Some slot \<Longrightarrow> slots_ok k \<Longrightarrow> slot < (if dialpad k then length (dialFlags k) else length (pageFlags k))"
  by (auto simp: control_slot_def slots_ok_def find_Some_iff kDialpadControls_def split: if_splits)

lemma control_slot_inj: "control_slot k c = Some slot \<Longrightarrow> control_slot k d = Some slot \<Longrightarrow> c = d"
  by (auto simp: control_slot_def find_Some_iff split: if_splits)

lemma control_slot_same [simp]:
  "control_slot (k\<lparr>queue := q\<rparr>) = control_slot k" "control_slot (k\<lparr>commands := n\<rparr>) = control_slot k"
  "control_slot (k\<lparr>keypad_brightness := b\<rparr>) = control_slot k" "control_slot (set_control_flags slot f k) = control_slot k"
  "control_flags (k\<lparr>queue := q\<rparr>) = control_flags k" "control_flags (k\<lparr>commands := n\<rparr>) = control_flags k"
  "control_flags (k\<lparr>keypad_brightness := b\<rparr>) = control_flags k"
  by (auto simp: control_slot_def control_flags_def set_control_flags_def fun_eq_iff)

lemma answer_flags:
  assumes "answer_command (command_report f fn ps) k = (response, k')" "fn \<le> 0x0F" "slots_ok k"
  shows "slots_ok k' \<and> dialpad k' = dialpad k \<and> queue k' = queue k \<and> unresponsive k' = unresponsive k \<and>
    (f \<noteq> reprog_index k \<or> fn \<noteq> 3 \<longrightarrow> pageFlags k' = pageFlags k \<and> dialFlags k' = dialFlags k)"
proof -
  note fn = command_function [OF assms(2)]
  show ?thesis
    using assms(1,3)
    by (auto simp: answer_command_def Let_def command_nth fn set_control_flags_def slots_ok_def split: if_splits option.splits)
qed

lemma reprog_index_other: "reprog_index k \<noteq> 0" "reprog_index k \<noteq> 1"
  by (simp_all add: reprog_index_def kSyntheticDialpadReprogIndex_def kSyntheticReprogIndex_def)

lemma command_control:
  "command_report f fn (PutBigEndian16 c @ rest) ! 4 = ucast (drop_bit 8 c)"
  "command_report f fn (PutBigEndian16 c @ rest) ! 5 = ucast (c AND 0xFF)"
  "command_report f fn (PutBigEndian16 c @ x # rest) ! 6 = x"
  by (simp_all add: command_report_def zero_filled_def PutBigEndian16_def)

lemma answer_get:
  assumes "control_slot k c = Some slot"
  shows "answer_command (command_report (reprog_index k) 2 (PutBigEndian16 c)) k =
    (long_response (command_report (reprog_index k) 2 (PutBigEndian16 c)) (PutBigEndian16 c @ [control_flags k slot]), k)"
proof -
  note fn = command_function [of 2]
  show ?thesis
    using assms reprog_index_other [of k] command_control(1,2) [where rest = "[]" and c = c]
    by (simp add: answer_command_def Let_def command_nth fn GetPut16) (simp add: PutBigEndian16_def)
qed

lemma answer_set:
  assumes "control_slot k c = Some slot"
  shows "\<exists>response. answer_command (command_report (reprog_index k) 3 (divert_params c f m f2)) k =
    (response, set_control_flags slot f k)"
proof -
  note fn = command_function [of 3]
  have p: "divert_params c f m f2 = PutBigEndian16 c @ f # (PutBigEndian16 m @ [f2])" by (simp add: divert_params_def)
  show ?thesis
    using assms reprog_index_other [of k] command_control(1,2) [where rest = "f # (PutBigEndian16 m @ [f2])" and c = c]
      command_control(3) [where rest = "PutBigEndian16 m @ [f2]" and c = c and x = f] unfolding p
    by (simp add: answer_command_def Let_def command_nth fn GetPut16)
qed

section \<open>What a command does to the synthetic device\<close>

definition counted :: "syn_env \<Rightarrow> SyntheticKeypad" where
  "counted e = (keypad e)\<lparr>commands := commands (keypad e) + 1\<rparr>"

text \<open>The environment after a command was written: what it answers is the last of the queue.\<close>

definition written :: "u8 list \<Rightarrow> syn_env \<Rightarrow> syn_env" where
  "written report e =
     e\<lparr>keypad := (if unresponsive (keypad e) then counted e
                 else case answer_command report (counted e) of (response, k) \<Rightarrow> EnqueueReport response k)\<rparr>"

lemma synthetic_write:
  "length ps \<le> kLongParameterBytes \<Longrightarrow>
   write_report synthetic_ops port (command_report f fn ps) stop e = (S_OK, written (command_report f fn ps) e)"
  by (simp add: synthetic_ops_def on_keypad_def HandleWrite_def length_command command_nth written_def counted_def Let_def
      kReportLong_def kReportVlpImage_def split: prod.splits)

lemma SendCommand_cases:
  assumes "SendCommand synthetic_ops f fn ps stop s e = Some (hr, response, s', e')"
  shows "FAILED hr \<and> e' = e \<or>
    fn \<le> 0x0F \<and> length ps \<le> kLongParameterBytes \<and> ports s \<noteq> [] \<and>
    (\<exists>s1 deadline. ports s1 = ports s \<and>
       await_answer synthetic_ops f fn stop deadline s1 (written (command_report f fn ps) e) = Some (hr, response, s', e'))"
proof -
  have codes: "FAILED E_INVALIDARG" "FAILED (HRESULT_FROM_WIN32 50)"
    by (simp_all add: FAILED_def E_INVALIDARG_def HRESULT_FROM_WIN32_def)
  show ?thesis
  proof (cases "fn > 0x0F \<or> length ps > kLongParameterBytes \<or> PortForOutput s kReportLong = None")
    case True
    then show ?thesis
      using assms codes by (auto simp: SendCommand_def BuildLongReport_command WriteReport_def command_nth split: if_splits)
  next
    case False
    then obtain port where p: "PortForOutput s kReportLong = Some port" "fn \<le> 0x0F" "length ps \<le> kLongParameterBytes" by force
    have "ports s \<noteq> []" using p(1) by (auto simp: PortForOutput_def widest_port_def)
    obtain r s1 e1 where w: "WriteReport synthetic_ops (command_report f fn ps) stop s e = (r, s1, e1)" by (metis prod.exhaust)
    have "r = S_OK" "e1 = written (command_report f fn ps) e"
      using w p(1) by (auto simp: WriteReport_def command_nth synthetic_write [OF p(3)] Let_def)
    moreover have "ports s1 = ports s" using WriteReport_setup [OF w] by (simp add: same_setup_def)
    ultimately show ?thesis
      using assms w p \<open>ports s \<noteq> []\<close> by (auto simp: SendCommand_def BuildLongReport_command split: if_splits)
  qed
qed

lemma written_queue:
  assumes "fn \<le> 0x0F" "answer_command (command_report f fn ps) (counted e) = (response, k)" "\<not> unresponsive (keypad e)"
    "slots_ok (keypad e)"
  shows "keypad (written (command_report f fn ps) e) =
      (if length (queued e) < kSyntheticQueueSlots then k\<lparr>queue := queued e @ [response]\<rparr> else k)"
    "queue k = queued e" "arrivals (written (command_report f fn ps) e) = arrivals e"
proof -
  have ok: "slots_ok (counted e)" using assms(4) by (simp add: counted_def slots_ok_def)
  show q: "queue k = queued e" using answer_flags [OF assms(2,1) ok] by (simp add: counted_def)
  have "length response = 20" using answer_frame [OF assms(2,1)] by (simp add: kLongReportBytes_def)
  then show "keypad (written (command_report f fn ps) e) =
      (if length (queued e) < kSyntheticQueueSlots then k\<lparr>queue := queued e @ [response]\<rparr> else k)"
    using assms q by (simp add: written_def EnqueueReport_def kVlpControlReportBytes_def)
  show "arrivals (written (command_report f fn ps) e) = arrivals e" by (simp add: written_def)
qed

lemma answers_response:
  assumes "fn \<le> 0x0F" "answer_command (command_report f fn ps) k = (response, k')"
  shows "answers_on i response \<longleftrightarrow> f = i" "hits f fn response" "take kInputBufferBytes response = response"
proof -
  obtain frame where fr: "ParseHidppFrame (Some response) = Some frame" "featureIndex frame = f" "softwareId frame = kSoftwareId"
      "frame_error frame \<or> function_id frame = fn" "length response = kLongReportBytes"
    using answer_frame [OF assms(2,1)] by auto
  show t: "take kInputBufferBytes response = response" using fr(5) by (simp add: take_input)
  show "answers_on i response \<longleftrightarrow> f = i" using fr by (simp add: answers_on_def t)
  show "hits f fn response" using fr by (auto simp: hits_def t FrameAnswers_def)
qed

text \<open>
  A command while nothing that is queued or to come answers on feature \<open>i\<close>: it was not carried out, or its answer is taken.
\<close>

lemma command_effect:
  assumes "SendCommand synthetic_ops f fn ps stop s e = Some (hr, response, s', e')"
    "reports_all (\<lambda>x. \<not> answers_on i x) e" "slots_ok (keypad e)"
  shows "reports_all (\<lambda>x. \<not> answers_on i x) e' \<and>
    ((f = i \<longrightarrow> FAILED hr) \<and> (keypad e' = keypad e \<or> (\<exists>q. keypad e' = (counted e)\<lparr>queue := q\<rparr>)) \<or>
     fn \<le> 0x0F \<and> (\<exists>answer k q. answer_command (command_report f fn ps) (counted e) = (answer, k) \<and> keypad e' = k\<lparr>queue := q\<rparr> \<and>
        (f = i \<longrightarrow> \<not> FAILED hr \<longrightarrow> ParseHidppFrame (Some answer) = Some response \<and> \<not> frame_error response)))"
proof -
  let ?P = "\<lambda>x. \<not> answers_on i x"
  let ?w = "written (command_report f fn ps) e"
  from SendCommand_cases [OF assms(1)] show ?thesis
  proof (elim disjE conjE exE)
    assume "FAILED hr" "e' = e"
    then show ?thesis using assms(2) by simp
  next
    fix s1 deadline
    assume a: "fn \<le> 0x0F" "length ps \<le> kLongParameterBytes" "ports s \<noteq> []" "ports s1 = ports s"
      "await_answer synthetic_ops f fn stop deadline s1 ?w = Some (hr, response, s', e')"
    have ne: "ports s1 \<noteq> []" using a(3,4) by simp
    have none: "FAILED hr" if "f = i" "reports_all ?P ?w"
      using await_synthetic [OF a(5) that(2) ne] hits_answers that(1) by blast
    show ?thesis
    proof (cases "unresponsive (keypad e)")
      case True
      then have w: "keypad ?w = counted e" "arrivals ?w = arrivals e" by (simp_all add: written_def)
      then have all: "reports_all ?P ?w" using assms(2) by (simp add: reports_all_def counted_def)
      show ?thesis using await_synthetic [OF a(5) all ne] none [OF _ all] w by (auto simp: same_device_def)
    next
      case False
      obtain answer k where k: "answer_command (command_report f fn ps) (counted e) = (answer, k)" by (metis prod.exhaust)
      note w = written_queue [OF a(1) k False assms(3)]
      note ans = answers_response [OF a(1) k]
      show ?thesis
      proof (cases "f = i \<and> length (queued e) < kSyntheticQueueSlots")
        case False
        then have all: "reports_all ?P ?w" using assms(2) w ans(1) by (auto simp: reports_all_def)
        show ?thesis using await_synthetic [OF a(5) all ne] none [OF _ all] w(1) a(1) k False by (auto simp: same_device_def)
      next
        case True
        obtain frame where frame: "ParseHidppFrame (Some answer) = Some frame" "FrameAnswers frame f fn"
          using ans(2) unfolding hits_def ans(3) by blast
        have nohit: "\<not> list_ex (hits f fn) (queued e)"
          using assms(2) True hits_answers by (fastforce simp: reports_all_def list_ex_iff list_all_iff)
        have q: "queued ?w = queued e @ [answer]" using w(1) True by simp
        have "e' = with_queue [] ?w \<and> response = frame \<and> hr = (if frame_error frame then CommandFailure frame else S_OK)"
          by (rule await_answered [OF a(5) ne q _ nohit _ frame(2)]) (use q True frame(1) ans(3) in simp_all)
        moreover have "FAILED (CommandFailure frame)" by (simp add: CommandFailure_def FAILED_def HRESULT_FROM_WIN32_def)
        ultimately show ?thesis
          using assms(2) a(1) k w frame(1) True by (auto simp: reports_all_def)
      qed
    qed
  qed
qed

section \<open>The interface on the synthetic device\<close>

definition controls_index :: "bool \<Rightarrow> u8" where
  "controls_index d = (if d then kSyntheticDialpadReprogIndex else kSyntheticReprogIndex)"

definition device_control :: "bool \<Rightarrow> u16 \<Rightarrow> bool" where
  "device_control d c \<longleftrightarrow> (if d then c \<in> set kDialpadControls else c \<in> {kControlPagePrevious, kControlPageNext})"

text \<open>No report of the device is taken for the answer to a command on its controls, or to a lookup of a feature.\<close>

definition syn_quiet :: "bool \<Rightarrow> syn_env \<Rightarrow> bool" where
  "syn_quiet d e \<longleftrightarrow>
     dialpad (keypad e) = d \<and> slots_ok (keypad e) \<and> reports_all (\<lambda>x. \<not> answers_on (controls_index d) x) e \<and>
     reports_all (\<lambda>x. \<not> answers_on 0 x) e"

lemma device_control_slot:
  "device_control (dialpad k) c \<Longrightarrow> \<exists>slot. control_slot k c = Some slot"
  by (cases "control_slot k c") (auto simp: control_slot_def find_None_iff device_control_def in_set_conv_nth split: if_splits)

lemma reprog_device: "dialpad k = d \<Longrightarrow> reprog_index k = controls_index d"
  by (simp add: reprog_index_def controls_index_def)

lemma counted_same [simp]:
  "control_slot (counted e) = control_slot (keypad e)" "control_flags (counted e) = control_flags (keypad e)"
  "dialpad (counted e) = dialpad (keypad e)" "pageFlags (counted e) = pageFlags (keypad e)"
  "dialFlags (counted e) = dialFlags (keypad e)" "slots_ok (counted e) = slots_ok (keypad e)"
  by (simp_all add: counted_def slots_ok_def)

lemma slots_ok_queue [simp]: "slots_ok (k\<lparr>queue := q\<rparr>) = slots_ok k"
  by (simp add: slots_ok_def)

lemma syn_flags_same:
  "control_slot (keypad e') = control_slot (keypad e) \<Longrightarrow> control_flags (keypad e') = control_flags (keypad e) \<Longrightarrow>
     syn_flags e' = syn_flags e"
  by (rule ext) (simp add: syn_flags_def split: option.split)

lemma control_slot_dialpad: "dialpad k' = dialpad k \<Longrightarrow> control_slot k' = control_slot k"
  by (simp add: control_slot_def fun_eq_iff)

lemma control_flags_same:
  "dialpad k' = dialpad k \<Longrightarrow> pageFlags k' = pageFlags k \<Longrightarrow> dialFlags k' = dialFlags k \<Longrightarrow>
     control_slot k' = control_slot k \<and> control_flags k' = control_flags k"
  by (simp add: control_slot_def control_flags_def fun_eq_iff)

lemma synthetic_other_command:
  assumes "f \<noteq> controls_index d \<or> fn \<noteq> 3" "syn_quiet d e" "SendCommand synthetic_ops f fn ps stop s e = Some (hr, response, s', e')"
  shows "syn_quiet d e' \<and> syn_flags e' = syn_flags e"
proof -
  have q: "reports_all (\<lambda>x. \<not> answers_on (controls_index d) x) e" "slots_ok (keypad e)" "dialpad (keypad e) = d"
    "reports_all (\<lambda>x. \<not> answers_on 0 x) e"
    using assms(2) by (simp_all add: syn_quiet_def)
  note q = q command_effect [OF assms(3) q(4,2), THEN conjunct1]
  note effect = command_effect [OF assms(3) q(1,2)]
  then consider "keypad e' = keypad e" | qs where "keypad e' = (counted e)\<lparr>queue := qs\<rparr>"
    | answer k qs where "fn \<le> 0x0F" "answer_command (command_report f fn ps) (counted e) = (answer, k)" "keypad e' = k\<lparr>queue := qs\<rparr>"
    by blast
  then show ?thesis
  proof cases
    case 1
    then show ?thesis using effect q syn_flags_same [of e' e] by (simp add: syn_quiet_def)
  next
    case 2
    then show ?thesis using effect q syn_flags_same [of e' e] by (simp add: syn_quiet_def)
  next
    case 3
    have "slots_ok k \<and> dialpad k = d \<and> pageFlags k = pageFlags (counted e) \<and> dialFlags k = dialFlags (counted e)"
      using answer_flags [OF 3(2,1)] q reprog_device [of "counted e" d] assms(1) by auto
    then have "slots_ok k \<and> dialpad k = d \<and> control_slot k = control_slot (keypad e) \<and> control_flags k = control_flags (keypad e)"
      using control_flags_same [of k "counted e"] q(3) by auto
    then show ?thesis using 3(3) effect q syn_flags_same [of e' e] by (simp add: syn_quiet_def)
  qed
qed


lemma get_answer:
  assumes "control_slot k c = Some slot" "answer_command (command_report (reprog_index k) 2 (PutBigEndian16 c)) k = (answer, k')"
    "ParseHidppFrame (Some answer) = Some frame"
  shows "\<exists>r. ParseCidReporting frame = Some r \<and> cid_flags r = control_flags k slot"
proof -
  let ?r = "command_report (reprog_index k) 2 (PutBigEndian16 c)"
  have ps: "length (PutBigEndian16 c @ [control_flags k slot]) \<le> kLongParameterBytes" by (simp add: PutBigEndian16_def kLongParameterBytes_def)
  have ne: "?r ! 2 \<noteq> kErrorMarker" using indexes_not_error(1) [of k] by (simp add: command_nth)
  have "answer = long_response ?r (PutBigEndian16 c @ [control_flags k slot])" using answer_get [OF assms(1)] unfolding assms(2) by blast
  then have "frame_params frame = Some ((PutBigEndian16 c @ [control_flags k slot]) @ replicate (16 - 3) 0)" "\<not> frame_error frame"
    using assms(3) long_response_frame(2) [OF ps ne] by (auto simp: PutBigEndian16_def)
  then show ?thesis by (simp add: ParseCidReporting_def PutBigEndian16_def)
qed

lemma synthetic_get:
  assumes "syn_quiet d e" "device_control d c"
    "SendCommand synthetic_ops (controls_index d) 2 (PutBigEndian16 c) stop s e = Some (hr, response, s', e')" "\<not> FAILED hr"
  shows "\<exists>r. ParseCidReporting response = Some r \<and> cid_flags r = syn_flags e c"
proof -
  have q: "reports_all (\<lambda>x. \<not> answers_on (controls_index d) x) e" "slots_ok (keypad e)" "dialpad (keypad e) = d"
    "reports_all (\<lambda>x. \<not> answers_on 0 x) e"
    using assms(1) by (simp_all add: syn_quiet_def)
  obtain slot where slot: "control_slot (counted e) c = Some slot"
    using device_control_slot [of "keypad e" c] assms(2) q(3) by auto
  have ix: "controls_index d = reprog_index (counted e)" using reprog_device [of "counted e" d] q(3) by simp
  obtain answer k where k: "answer_command (command_report (controls_index d) 2 (PutBigEndian16 c)) (counted e) = (answer, k)"
      "ParseHidppFrame (Some answer) = Some response"
    using command_effect [OF assms(3) q(1,2)] assms(4) by blast
  from get_answer [OF slot k(1) [unfolded ix] k(2)] slot show ?thesis by (simp add: syn_flags_def)
qed

lemma synthetic_set:
  assumes "syn_quiet d e" "device_control d c"
    "SendCommand synthetic_ops (controls_index d) 3 (divert_params c f m f2) stop s e = Some (hr, response, s', e')"
  shows "syn_quiet d e' \<and> (\<forall>x. x \<noteq> c \<longrightarrow> syn_flags e' x = syn_flags e x) \<and> (\<not> FAILED hr \<longrightarrow> syn_flags e' c = f)"
proof -
  have q: "reports_all (\<lambda>x. \<not> answers_on (controls_index d) x) e" "slots_ok (keypad e)" "dialpad (keypad e) = d"
    "reports_all (\<lambda>x. \<not> answers_on 0 x) e"
    using assms(1) by (simp_all add: syn_quiet_def)
  obtain slot where slot: "control_slot (counted e) c = Some slot"
    using device_control_slot [of "keypad e" c] assms(2) q(3) by auto
  have ix: "controls_index d = reprog_index (counted e)" using reprog_device [of "counted e" d] q(3) by simp
  note q = q command_effect [OF assms(3) q(4,2), THEN conjunct1]
  note effect = command_effect [OF assms(3) q(1,2)]
  then consider "FAILED hr" "keypad e' = keypad e \<or> (\<exists>qs. keypad e' = (counted e)\<lparr>queue := qs\<rparr>)"
    | answer k qs where "answer_command (command_report (controls_index d) 3 (divert_params c f m f2)) (counted e) = (answer, k)"
        "keypad e' = k\<lparr>queue := qs\<rparr>"
    by blast
  then show ?thesis
  proof cases
    case 1
    have "syn_flags e' = syn_flags e" by (rule syn_flags_same) (use 1(2) in auto)
    moreover have "syn_quiet d e'" using 1(2) effect q by (auto simp: syn_quiet_def)
    ultimately show ?thesis using 1(1) by simp
  next
    case 2
    have k: "k = set_control_flags slot f (counted e)" using answer_set [OF slot, of f m f2] 2(1) ix by auto
    have less: "slot < (if d then length (dialFlags (keypad e)) else length (pageFlags (keypad e)))"
      using control_slot_less [OF slot] q by (cases d) simp_all
    have fl1: "control_slot (keypad e') = control_slot (keypad e)"
      by (rule control_slot_dialpad) (simp add: 2(2) k set_control_flags_def)
    have fl2: "control_flags (keypad e') j = (if j = slot then f else control_flags (keypad e) j)" for j
      using 2(2) k less q(3) by (auto simp: set_control_flags_def control_flags_def counted_def)
    note fl = fl1 fl2
    have "syn_flags e' c = f" using fl slot by (simp add: syn_flags_def)
    moreover have "syn_flags e' x = syn_flags e x" if "x \<noteq> c" for x
      using fl slot that control_slot_inj [of "keypad e" x slot c] by (auto simp: syn_flags_def split: option.splits)
    moreover have "syn_quiet d e'" using 2(2) k effect q by (simp add: syn_quiet_def slots_ok_def set_control_flags_def counted_def)
    ultimately show ?thesis by simp
  qed
qed

lemma synthetic_read:
  assumes "syn_quiet d e" "take_report synthetic_ops port capacity e = (r, e')"
  shows "syn_quiet d e' \<and> syn_flags e' = syn_flags e"
proof -
  have "e' = e \<or> (\<exists>x q. queued e = x # q \<and> e' = with_queue q e)"
    using assms(2) by (auto simp: synthetic_ops_def on_keypad_def TakeQueued_def with_queue_def split: if_splits list.splits)
  then show ?thesis
    using assms(1) syn_flags_same [of e' e] by (auto simp: syn_quiet_def reports_all_def)
qed

text \<open>Any other report the device gets: an image, or a command on another feature.\<close>

lemma answer_any:
  assumes "answer_command report k = (response, k')" "report ! 2 \<noteq> reprog_index k"
  shows "length response = kLongReportBytes"
    "\<exists>frame. ParseHidppFrame (Some response) = Some frame \<and> featureIndex frame = report ! 2"
    "queue k' = queue k \<and> pageFlags k' = pageFlags k \<and> dialFlags k' = dialFlags k \<and> dialpad k' = dialpad k"
proof -
  have long: "length response = kLongReportBytes \<and> (\<exists>frame. ParseHidppFrame (Some response) = Some frame \<and> featureIndex frame = report ! 2)"
    if "response = long_response report qs" "length qs \<le> kLongParameterBytes" "report ! 2 \<noteq> kErrorMarker" for qs
    using long_response_frame [of qs report] that by simp
  have err: "length response = kLongReportBytes \<and> (\<exists>frame. ParseHidppFrame (Some response) = Some frame \<and> featureIndex frame = report ! 2)"
    if "response = error_response report code" for code
    using error_response_frame [of report code] that by auto
  have "length response = kLongReportBytes \<and> (\<exists>frame. ParseHidppFrame (Some response) = Some frame \<and> featureIndex frame = report ! 2)"
    using assms long err indexes_not_error(1) [of k] indexes_not_error(2-)
    by (auto simp: answer_command_def Let_def PutBigEndian16_def kLongParameterBytes_def split: if_splits option.splits)
  then show "length response = kLongReportBytes"
    "\<exists>frame. ParseHidppFrame (Some response) = Some frame \<and> featureIndex frame = report ! 2" by blast+
  show "queue k' = queue k \<and> pageFlags k' = pageFlags k \<and> dialFlags k' = dialFlags k \<and> dialpad k' = dialpad k"
    using assms by (auto simp: answer_command_def Let_def split: if_splits)
qed

lemma syn_quiet_keypad:
  assumes "syn_quiet d e" "e' = e\<lparr>keypad := k\<rparr>" "dialpad k = dialpad (keypad e)" "pageFlags k = pageFlags (keypad e)"
    "dialFlags k = dialFlags (keypad e)"
    "queue k = queued e \<or> length (queued e) < kSyntheticQueueSlots \<and> queue k = queued e @ [x] \<and>
       \<not> answers_on (controls_index d) x \<and> \<not> answers_on 0 x"
  shows "syn_quiet d e' \<and> syn_flags e' = syn_flags e"
proof -
  have "syn_flags e' = syn_flags e"
    by (rule syn_flags_same) (use control_flags_same [of k "keypad e"] assms(2-5) in auto)
  then show ?thesis using assms by (auto simp: syn_quiet_def slots_ok_def reports_all_def)
qed

lemma synthetic_other_write:
  assumes "syn_quiet d e" "hd report = kReportVlpImage \<or> report ! 2 \<noteq> controls_index d \<and> report ! 2 \<noteq> 0"
    "write_report synthetic_ops port report stop e = (hr, e')"
  shows "syn_quiet d e' \<and> syn_flags e' = syn_flags e"
proof -
  obtain k where w: "HandleWrite report (keypad e) = (hr, k)" "e' = e\<lparr>keypad := k\<rparr>"
    using assms(3) by (auto simp: synthetic_ops_def on_keypad_def split: prod.splits)
  note kept = syn_quiet_keypad [OF assms(1) w(2)]
  consider "k = keypad e" | "k = RecordImage report (keypad e)" | "k = counted e"
    | response k' where "report ! 0 = kReportLong" "report \<noteq> []" "answer_command report (counted e) = (response, k')" "k = EnqueueReport response k'"
    using w(1) by (auto simp: HandleWrite_def Let_def counted_def split: if_splits prod.splits)
  then show ?thesis
  proof cases
    case 1
    then show ?thesis by (intro kept [where x = "[]"]) simp_all
  next
    case 2
    have "dialpad k = dialpad (keypad e) \<and> pageFlags k = pageFlags (keypad e) \<and> dialFlags k = dialFlags (keypad e) \<and> queue k = queued e"
      unfolding 2 by (simp add: RecordImage_def Let_def)
    then show ?thesis by (intro kept [where x = "[]"]) simp_all
  next
    case 3
    then show ?thesis by (intro kept [where x = "[]"]) (simp_all add: counted_def)
  next
    case 4
    have two: "report ! 2 \<noteq> controls_index d" "report ! 2 \<noteq> 0"
      using assms(2) 4(1,2) by (auto simp: hd_conv_nth kReportLong_def kReportVlpImage_def)
    from two(1) have "report ! 2 \<noteq> reprog_index (counted e)"
      using assms(1) reprog_device [of "counted e" d] by (simp add: syn_quiet_def)
    note any = answer_any [OF 4(3) this]
    have len: "length response = 20" using any(1) by (simp add: kLongReportBytes_def)
    then have t: "take kVlpControlReportBytes response = response" "take kInputBufferBytes response = response"
      by (simp_all add: kVlpControlReportBytes_def kInputBufferBytes_def)
    have "\<not> answers_on (controls_index d) response" "\<not> answers_on 0 response" using any(2) two by (auto simp: answers_on_def t(2))
    then show ?thesis
      using any(3) by (intro kept [where x = response]) (auto simp: 4(4) EnqueueReport_def t(1) counted_def)
  qed
qed

lemma synthetic_feature:
  "set_feature synthetic_ops port report stop e = (hr, e') \<Longrightarrow> syn_flags e' = syn_flags e"
  by (rule syn_flags_same)
    (auto simp: synthetic_ops_def on_keypad_def HandleFeature_def control_slot_def control_flags_def fun_eq_iff split: if_splits)

lemma synthetic_resolve:
  assumes "syn_quiet d e" "ResolveFeature synthetic_ops featureId stop s e = Some (hr, found, s', e')"
    "root_lookup (keypad e) featureId \<noteq> 0"
  shows "FAILED hr \<and> found = 0 \<or> found = root_lookup (keypad e) featureId"
proof -
  let ?ps = "PutBigEndian16 featureId @ [0]"
  let ?r = "command_report 0 0 ?ps" and ?n = "root_lookup (keypad e) featureId"
  obtain hr1 response s1 e1 where c: "SendCommand synthetic_ops 0 0 ?ps stop s e = Some (hr1, response, s1, e1)"
    using assms(2) by (auto simp: ResolveFeature_def split: option.splits)
  show ?thesis
  proof (cases "FAILED hr1")
    case True
    then show ?thesis using assms(2) c by (simp add: ResolveFeature_def Let_def)
  next
    case False
    have q: "reports_all (\<lambda>x. \<not> answers_on 0 x) e" "slots_ok (keypad e)" using assms(1) by (simp_all add: syn_quiet_def)
    obtain answer k where k: "answer_command ?r (counted e) = (answer, k)" "ParseHidppFrame (Some answer) = Some response"
      using command_effect [OF c q] False by blast
    have "root_lookup (counted e) featureId = ?n" by (simp add: root_lookup_def counted_def reprog_index_def)
    then have "answer = long_response ?r [?n, 0, 1]"
      using k(1) command_function [of 0] command_control(1,2) [where rest = "[0]" and c = featureId]
      by (simp add: answer_command_def Let_def command_nth GetPut16)
    then have "frame_params response = Some ([?n, 0, 1] @ replicate (16 - 3) 0)"
      using k(2) long_response_frame(2) [of "[?n, 0, 1]" ?r] indexes_not_error(4) by (auto simp: command_nth kLongParameterBytes_def)
    then have "first_param response = ?n" by (simp add: first_param_def frame_bytes_def)
    then show ?thesis using assms(2,3) c False by (simp add: ResolveFeature_def Let_def)
  qed
qed

lemma synthetic_finds_controls:
  assumes "syn_quiet d e" "ResolveFeature synthetic_ops kFeatureReprogControls stop s e = Some (hr, found, s', e')" "\<not> FAILED hr"
  shows "found = controls_index d"
proof -
  have "root_lookup (keypad e) kFeatureReprogControls = controls_index d"
    using assms(1) by (simp add: root_lookup_def kFeatureReprogControls_def kFeatureContextualDisplay_def reprog_device syn_quiet_def)
  moreover have "controls_index d \<noteq> 0" by (simp add: controls_index_def kSyntheticDialpadReprogIndex_def kSyntheticReprogIndex_def)
  ultimately show ?thesis using synthetic_resolve [OF assms(1,2)] assms(3) by auto
qed

lemma synthetic_finds_brightness:
  assumes "syn_quiet False e" "ResolveFeature synthetic_ops kFeatureBrightness stop s e = Some (hr, found, s', e')"
  shows "found \<noteq> controls_index False"
proof -
  have "root_lookup (keypad e) kFeatureBrightness = kSyntheticBrightnessIndex"
    using assms(1)
    by (simp add: root_lookup_def kFeatureReprogControls_def kFeatureContextualDisplay_def kFeatureBrightness_def syn_quiet_def)
  moreover have "kSyntheticBrightnessIndex \<noteq> 0" "kSyntheticBrightnessIndex \<noteq> controls_index False" "controls_index False \<noteq> 0"
    by (simp_all add: kSyntheticBrightnessIndex_def controls_index_def kSyntheticReprogIndex_def)
  ultimately show ?thesis using synthetic_resolve [OF assms] by auto
qed

interpretation synthetic: reporting_device synthetic_ops "controls_index d" "device_control d" syn_flags "syn_quiet d" for d
proof
  show "\<exists>r. ParseCidReporting response = Some r \<and> cid_flags r = syn_flags e c"
    if "syn_quiet d e" "device_control d c"
      "SendCommand synthetic_ops (controls_index d) 2 (PutBigEndian16 c) stop s e = Some (hr, response, s', e')" "\<not> FAILED hr"
    for e c stop s hr response s' e'
    by (rule synthetic_get [OF that])
  show "syn_quiet d e' \<and> (\<forall>x. x \<noteq> c \<longrightarrow> syn_flags e' x = syn_flags e x) \<and> (\<not> FAILED hr \<longrightarrow> syn_flags e' c = f)"
    if "syn_quiet d e" "device_control d c"
      "SendCommand synthetic_ops (controls_index d) 3 (divert_params c f m f2) stop s e = Some (hr, response, s', e')"
    for e c f m f2 stop s hr response s' e'
    by (rule synthetic_set [OF that])
  show "syn_quiet d e' \<and> syn_flags e' = syn_flags e"
    if "feature \<noteq> controls_index d \<or> func \<noteq> 3" "syn_quiet d e"
      "SendCommand synthetic_ops feature func ps stop s e = Some (hr, response, s', e')"
    for feature func e ps stop s hr response s' e'
    by (rule synthetic_other_command [OF that])
  show "syn_quiet d e' \<and> syn_flags e' = syn_flags e"
    if "syn_quiet d e" "take_report synthetic_ops port capacity e = (r, e')" for e port capacity r e'
    by (rule synthetic_read [OF that])
  show "syn_quiet d e' \<and> syn_flags e' = syn_flags e"
    if "syn_quiet d e" "hd report = kReportVlpImage \<or> report ! 2 \<noteq> controls_index d \<and> report ! 2 \<noteq> 0"
      "write_report synthetic_ops port report stop e = (hr, e')" for e report port stop hr e'
    by (rule synthetic_other_write [OF that])
  show "syn_flags e' = syn_flags e"
    if "syn_quiet d e" "set_feature synthetic_ops port report stop e = (hr, e')" for e port report stop hr e'
    by (rule synthetic_feature [OF that(2)])
  show "found = controls_index d"
    if "syn_quiet d e" "ResolveFeature synthetic_ops kFeatureReprogControls stop s e = Some (hr, found, s', e')" "\<not> FAILED hr"
    for e stop s hr found s' e'
    by (rule synthetic_finds_controls [OF that])
  show "controls_index d \<noteq> 0" by (simp add: controls_index_def kSyntheticDialpadReprogIndex_def kSyntheticReprogIndex_def)
qed

end
