(* ===== verification/Logicon_Session.thy ===== *)
theory Logicon_Session
  imports Logicon_Answers
begin

text \<open>
  The properties of a session on the synthetic device: it is left as it was found, a failed connection is not undone, taps
  are counted, a silent device costs one timeout, the trace keeps the newest reports and a drawn image arrives.
\<close>

section \<open>The device is left as it was found\<close>

text \<open>A connection of either role.\<close>

definition connects :: "'e hid_ops \<Rightarrow> bool \<Rightarrow> u32 \<Rightarrow> bool \<Rightarrow> DeviceSession \<Rightarrow> 'e \<Rightarrow> (hresult \<times> DeviceSession \<times> 'e) option" where
  "connects ops d buttonMask stop s e = (if d then ConnectDialpad ops stop buttonMask s e else Connect ops stop s e)"

lemma connects_saves:
  assumes "connects synthetic_ops d buttonMask stop s e = Some (hr, s', e')" "\<not> FAILED hr" "syn_quiet d e"
  shows "\<exists>cs. distinct cs \<and> list_all (device_control d) cs \<and> synthetic.saves d cs e s' e' \<and> ports s' = ports s \<and>
    brightness (features s') \<noteq> controls_index d \<and> (cs \<noteq> [] \<longrightarrow> reprogControls (features s') = controls_index d)"
proof (cases d)
  case True
  have k: "list_all (device_control d) kDialpadControls" using True by (simp add: list_all_iff device_control_def)
  have "ConnectDialpad synthetic_ops stop buttonMask s e = Some (hr, s', e')" using assms(1) True by (simp add: connects_def)
  from synthetic.ConnectDialpad_saves [OF this assms(2,3) k] synthetic.index_not_root [of d]
  show ?thesis using True by (force simp: list_all_iff device_control_def)
next
  case False
  have k: "device_control False kControlPagePrevious" "device_control False kControlPageNext" by (simp_all add: device_control_def)
  have "Connect synthetic_ops stop s e = Some (hr, s', e')" using assms(1) False by (simp add: connects_def)
  moreover have "syn_quiet False e" using assms(3) False by simp
  ultimately have c: "synthetic.saves False [kControlPagePrevious, kControlPageNext] e s' e' \<and> ports s' = ports s \<and>
      reprogControls (features s') = controls_index False"
    "\<exists>r s2 e2 s3 e3. syn_quiet False e2 \<and>
       ResolveFeature synthetic_ops kFeatureBrightness stop s2 e2 = Some (r, brightness (features s'), s3, e3)"
    using synthetic.Connect_saves [OF _ assms(2) _ k] by blast+
  have "brightness (features s') \<noteq> controls_index False" using c(2) synthetic_finds_brightness by blast
  then show ?thesis
    using c(1) k False by (intro exI [of _ "[kControlPagePrevious, kControlPageNext]"]) (simp add: kControlPagePrevious_def kControlPageNext_def)
qed

lemma left_as_found:
  assumes "connects synthetic_ops d buttonMask stop s e = Some (hr, s1, e1)" "\<not> FAILED hr" "syn_quiet d e"
    "lane_steps synthetic_ops (s1, e1) (s2, e2)" "Restore synthetic_ops stop' logo s2 e2 = Some (hr', s3, e3)" "\<not> FAILED hr'"
  shows "syn_flags e3 = syn_flags e"
proof -
  obtain cs where cs: "distinct cs" "list_all (device_control d) cs" "synthetic.saves d cs e s1 e1" "ports s1 = ports s"
      "brightness (features s1) \<noteq> controls_index d" "cs \<noteq> [] \<longrightarrow> reprogControls (features s1) = controls_index d"
    using connects_saves [OF assms(1-3)] by blast
  have "syn_quiet d e1" using cs(3) by (simp add: synthetic.saves_def)
  from synthetic.lane_steps_kept [OF assms(4) refl this cs(5)]
  have k: "syn_quiet d e2" "syn_flags e2 = syn_flags e1" "same_setup s1 s2" by simp_all
  have sv: "synthetic.saves d cs e s2 e2" using cs(3) k by (auto simp: synthetic.saves_def same_setup_def)
  have "ports s \<noteq> []"
    using assms(1,2) by (auto simp: connects_def Connect_def ConnectDialpad_def FAILED_def HRESULT_FROM_WIN32_def split: if_splits)
  then have p: "ports s2 \<noteq> []" using k(3) cs(4) by (simp add: same_setup_def)
  then have nd: "\<not> Disconnected synthetic_ops s2 e2" by (simp add: Disconnected_def synthetic_ops_def list_ex_iff)
  show ?thesis
    by (rule synthetic.Restore_restores [OF assms(5,6) sv _ cs(2,1) p nd]) (use cs(6) k(3) in \<open>simp add: same_setup_def\<close>)
qed


text \<open>C2: A Logicon device is left as it was found: when connecting to a keypad or a dialpad succeeded, the lane then
  pumped input, set the brightness and drew in any order, and Restore reports success, every control of the device has the
  reporting flags it had before, whatever input the device sent in between, as long as none of it passes for the answer to
  a lookup or to a command on the controls.\<close>

theorem device_left_as_found:
  assumes "connects synthetic_ops d buttonMask stop s e = Some (hr, s1, e1)" "\<not> FAILED hr" "syn_quiet d e"
    "lane_steps synthetic_ops (s1, e1) (s2, e2)" "Restore synthetic_ops stop' logo s2 e2 = Some (hr', s3, e3)" "\<not> FAILED hr'"
  shows "syn_flags e3 = syn_flags e"
  using assms by (rule left_as_found)

text \<open>A session over the dialpad's one port; without trace slots, to keep the evaluation short.\<close>

definition one_dialpad :: DeviceSession where
  "one_dialpad = DeviceSession_init\<lparr>ports := [SyntheticHidPort True], trace := []\<rparr>"

text \<open>A dialpad whose first button has a flag set by another program.\<close>

definition found_device :: syn_env where
  "found_device =
     \<lparr>keypad = SyntheticKeypad_init\<lparr>dialFlags := [4, 0, 0, 0], dialpad := True\<rparr>, now_ms = 0, arrivals = [], stopping = False\<rparr>"

lemma answers_on_eq:
  "answers_on f report =
     (case ParseHidppFrame (Some (take kInputBufferBytes report)) of
        None \<Rightarrow> False
      | Some frame \<Rightarrow> featureIndex frame = f \<and> softwareId frame = kSoftwareId)"
  by (simp add: answers_on_def split: option.split)

lemma found_device_quiet: "syn_quiet True found_device"
  unfolding syn_quiet_def reports_all_def answers_on_eq by code_simp

lemma found_device_run:
  "case connects synthetic_ops True 1 True one_dialpad found_device of
     None \<Rightarrow> False
   | Some (hr, s1, e1) \<Rightarrow> \<not> FAILED hr \<and> syn_flags e1 (hd kDialpadControls) = 7 \<and>
       (case Restore synthetic_ops True True s1 e1 of None \<Rightarrow> False | Some (hr', s3, e3) \<Rightarrow> \<not> FAILED hr')"
  by code_simp

theorem device_left_as_found_witness:
  "case connects synthetic_ops True 1 True one_dialpad found_device of
     None \<Rightarrow> False
   | Some (hr, s1, e1) \<Rightarrow> syn_flags e1 (hd kDialpadControls) = 7 \<and>
       (case Restore synthetic_ops True True s1 e1 of
          None \<Rightarrow> False
        | Some (hr', s3, e3) \<Rightarrow> syn_flags e3 = syn_flags found_device \<and> syn_flags e3 (hd kDialpadControls) = 4)"
proof -
  obtain hr s1 e1 hr' s3 e3 where r: "connects synthetic_ops True 1 True one_dialpad found_device = Some (hr, s1, e1)" "\<not> FAILED hr"
      "syn_flags e1 (hd kDialpadControls) = 7" "Restore synthetic_ops True True s1 e1 = Some (hr', s3, e3)" "\<not> FAILED hr'"
    using found_device_run by (auto split: option.splits prod.splits)
  have "syn_flags e3 = syn_flags found_device"
    by (rule device_left_as_found [OF r(1,2) found_device_quiet stay r(4,5)])
  moreover have "syn_flags found_device (hd kDialpadControls) = 4" by code_simp
  ultimately show ?thesis using r by simp
qed

section \<open>A connection that failed\<close>

lemma same_setup_restored: "same_setup s s' \<Longrightarrow> restored s' = restored s"
  by (simp add: same_setup_def)

lemma feature_walk_setup: "feature_walk ops fid ix cs stop s e = Some (hr, i, s', e') \<Longrightarrow> same_setup s s'"
proof (induction cs arbitrary: s e)
  case (Cons c cs)
  obtain hr1 response s1 e1 where g: "SendCommand ops ix 1 [of_nat c] stop s e = Some (hr1, response, s1, e1)"
    using Cons.prems by (auto split: option.splits)
  show ?case using Cons.IH [of s1 e1] Cons.prems g SendCommand_setup [OF g] same_setup_trans by (auto split: if_splits)
qed simp

lemma ResolveFeatureThroughSet_setup:
  "ResolveFeatureThroughSet ops fid stop s e = Some (hr, i, s', e') \<Longrightarrow> same_setup s s'"
  by (auto simp: ResolveFeatureThroughSet_def Let_def split: option.splits if_splits
      dest!: SendCommand_setup feature_walk_setup; metis same_setup_trans)

lemma ResolveFeature_setup:
  assumes "ResolveFeature ops fid stop s e = Some (hr, i, s', e')"
  shows "same_setup s s'"
proof -
  obtain hr1 response s1 e1 where 1: "SendCommand ops 0 0 (PutBigEndian16 fid @ [0]) stop s e = Some (hr1, response, s1, e1)"
    using assms by (auto simp: ResolveFeature_def split: option.splits)
  let ?l = "\<lparr>lookup_feature = fid, lookup_result = hr1, lookup_params = (if SUCCEEDED hr1 then take 8 (frame_bytes response) else [])\<rparr>"
  have k: "same_setup s (s1\<lparr>lastLookup := ?l\<rparr>)" by (rule same_setup_trans [OF SendCommand_setup [OF 1] same_setup_updates(4)])
  show ?thesis
  proof (cases "FAILED hr1 \<or> first_param response \<noteq> 0")
    case True
    then have "s' = s1\<lparr>lastLookup := ?l\<rparr>" using assms 1 by (auto simp: ResolveFeature_def Let_def split: if_splits)
    then show ?thesis using k by simp
  next
    case False
    then have t: "ResolveFeatureThroughSet ops fid stop (s1\<lparr>lastLookup := ?l\<rparr>) e1 = Some (hr, i, s', e')"
      using assms 1 by (simp add: ResolveFeature_def Let_def)
    from ResolveFeatureThroughSet_setup [OF t]
    show ?thesis by (rule same_setup_trans [OF k])
  qed
qed

lemma divert_each_restored: "divert_each ops cs stop s e = Some (hr, s', e') \<Longrightarrow> restored s' = restored s"
proof (induction cs arbitrary: s e)
  case (Cons c cs)
  obtain hr1 r1 s1 e1 where 1: "SendCommand ops (reprogControls (features s)) 2 (PutBigEndian16 c) stop s e = Some (hr1, r1, s1, e1)"
    using Cons.prems by (auto split: option.splits)
  note k1 = same_setup_restored [OF SendCommand_setup [OF 1]]
  show ?case
  proof (cases "FAILED hr1 \<or> ParseCidReporting r1 = None")
    case True
    then show ?thesis using Cons.prems 1 k1 by (auto split: if_splits)
  next
    case False
    then obtain r where r: "ParseCidReporting r1 = Some r" "\<not> FAILED hr1" by auto
    let ?s = "s1\<lparr>savedControls := savedControls s1 @ [r\<lparr>controlId := c\<rparr>]\<rparr>"
    obtain hr2 r2 s2 e2 where 2: "SendCommand ops (reprogControls (features ?s)) 3
        (divert_params c (cid_flags r OR kCidReportingDivert) (remap r) (flags2 r)) stop ?s e1 = Some (hr2, r2, s2, e2)"
      using Cons.prems 1 r by (auto simp: Let_def split: option.splits)
    have "restored s2 = restored s" using same_setup_restored [OF SendCommand_setup [OF 2]] k1 by simp
    then show ?thesis using Cons.prems 1 r 2 Cons.IH [of s2 e2] by (auto simp: Let_def split: if_splits)
  qed
qed simp


lemma DivertControls_restored: "DivertControls ops cs stop s e = Some (hr, s', e') \<Longrightarrow> restored s' = restored s"
  by (auto simp: DivertControls_def split: if_splits dest: divert_each_restored)

lemma Connect_restored:
  assumes "Connect ops stop s e = Some (hr, s', e')" "FAILED hr"
  shows "restored s' = restored s"
proof -
  have ok: "\<not> FAILED S_OK" by simp
  show ?thesis
    using assms ok
    by (auto simp: Connect_def Let_def split: option.splits if_splits
        dest!: ResolveFeature_setup [THEN same_setup_restored] DivertControls_restored)
qed

lemma ConnectDialpad_restored:
  assumes "ConnectDialpad ops stop buttonMask s e = Some (hr, s', e')" "FAILED hr"
  shows "restored s' = restored s"
proof -
  have ok: "\<not> FAILED S_OK" by simp
  show ?thesis
    using assms ok
    by (auto simp: ConnectDialpad_def Let_def split: option.splits if_splits
        dest!: ResolveFeature_setup [THEN same_setup_restored] DivertControls_restored)
qed

text \<open>C30: A connection that failed is not undone: when connecting a restored session failed, Restore reports success at once
  and does nothing to the device, whatever controls had been diverted before the failure - in the witness, the first
  button of a dialpad whose second one could no longer be asked.\<close>

theorem failed_connect_is_not_undone:
  assumes "connects ops d buttonMask stop s e = Some (hr, s1, e1)" "FAILED hr" "restored s"
  shows "Restore ops stop' logo s1 e1 = Some (S_OK, s1\<lparr>restored := True\<rparr>, e1)"
proof -
  have "restored s1"
    using assms Connect_restored [of ops stop s e hr s1 e1] ConnectDialpad_restored [of ops stop buttonMask s e hr s1 e1]
    by (auto simp: connects_def split: if_splits)
  then show ?thesis by (simp add: Restore_def)
qed

text \<open>A port that fails from the fourth command on.\<close>

definition failing_ops :: "syn_env hid_ops" where
  "failing_ops = synthetic_ops\<lparr>write_report := (\<lambda>port report stop e.
     if commands (keypad e) \<ge> 3 then (HRESULT_FROM_WIN32 1460, e) else on_keypad (HandleWrite report) e)\<rparr>"

lemma failing_run:
  "case connects failing_ops True 3 True one_dialpad found_device of
     None \<Rightarrow> False
   | Some (hr, s1, e1) \<Rightarrow> FAILED hr \<and> syn_flags e1 (hd kDialpadControls) = 7"
  by code_simp

theorem failed_connect_is_not_undone_witness:
  "case connects failing_ops True 3 True one_dialpad found_device of
     None \<Rightarrow> False
   | Some (hr, s1, e1) \<Rightarrow> syn_flags found_device (hd kDialpadControls) = 4 \<and>
       (case Restore failing_ops True True s1 e1 of
          None \<Rightarrow> False
        | Some (hr', s2, e2) \<Rightarrow> hr' = S_OK \<and> syn_flags e2 (hd kDialpadControls) = 7)"
proof -
  obtain hr s1 e1 where r: "connects failing_ops True 3 True one_dialpad found_device = Some (hr, s1, e1)" "FAILED hr"
      "syn_flags e1 (hd kDialpadControls) = 7"
    using failing_run by (auto split: option.splits prod.splits)
  have "restored one_dialpad" by (simp add: one_dialpad_def DeviceSession_init_def)
  from failed_connect_is_not_undone [OF r(1,2) this] r
  have "Restore failing_ops True True s1 e1 = Some (S_OK, s1\<lparr>restored := True\<rparr>, e1)" by blast
  moreover have "syn_flags found_device (hd kDialpadControls) = 4" by code_simp
  ultimately show ?thesis using r by simp
qed

section \<open>Input that is pumped\<close>

lemma pump_port_synthetic:
  "length (queued e) < n \<Longrightarrow>
   pump_port synthetic_ops port n changed s e =
     (S_OK,
      fst (fold (\<lambda>report (changed, s). let (input, s) = HandleInput (of_nat (now_ms e)) (take kInputBufferBytes report) s
                                   in (changed \<or> input, s)) (queued e) (changed, s)),
      snd (fold (\<lambda>report (changed, s). let (input, s) = HandleInput (of_nat (now_ms e)) (take kInputBufferBytes report) s
                                   in (changed \<or> input, s)) (queued e) (changed, s)),
      with_queue [] e)"
proof (induction n arbitrary: changed s e)
  case (Suc n)
  have codes: "S_OK \<noteq> S_FALSE" "\<not> FAILED S_OK" by (simp_all add: S_OK_def S_FALSE_def FAILED_def)
  have tick: "tick_count synthetic_ops e' = of_nat (now_ms e')" for e' by (simp add: synthetic_ops_def)
  show ?case
  proof (cases "queued e")
    case Nil
    then have "with_queue [] e = e" by (metis with_queue_sel(6))
    then show ?thesis using Nil by (simp add: synthetic_take)
  next
    case (Cons x rest)
    then show ?thesis
      using Suc.IH [of "with_queue rest e"] Suc.prems codes
      by (simp add: synthetic_take tick Let_def split: prod.split)
  qed
qed simp

text \<open>The mask of the keys that are down, after each report that says so.\<close>

fun key_masks :: "u8 \<Rightarrow> u8 \<Rightarrow> u8 list list \<Rightarrow> u32 list" where
  "key_masks d c [] = []"
| "key_masks d c (report # rest) =
     (case ParseInputEvent (Some (take kInputBufferBytes report)) d c of
        Some event \<Rightarrow> if event_kind event = DisplayKeys then event_mask event # key_masks d c rest else key_masks d c rest
      | None \<Rightarrow> key_masks d c rest)"

text \<open>The keys that went down in a sequence of masks, from the keys that were down before.\<close>

fun went_down :: "u32 \<Rightarrow> u32 list \<Rightarrow> u32" where
  "went_down before [] = 0"
| "went_down before (m # rest) = (m AND NOT before) OR went_down m rest"

lemma bit_went_down:
  "bit (went_down before ms) k \<longleftrightarrow> (\<exists>i < length ms. bit (ms ! i) k \<and> \<not> bit ((before # ms) ! i) k)"
proof (induction ms arbitrary: before)
  case (Cons m ms)
  have "bit (m AND NOT before) k \<longleftrightarrow> bit m k \<and> \<not> bit before k"
    using bit_imp_le_length [of m k] by (auto simp: bit_and_iff bit_not_iff)
  then show ?case by (simp add: Cons.IH bit_or_iff Ex_less_Suc2)
qed simp

lemma HandleInput_keys:
  assumes "HandleInput tick report s = (input, s')"
  shows "features s' = features s \<and>
    (case ParseInputEvent (Some report) (display (features s)) (reprogControls (features s)) of
       Some event \<Rightarrow>
         if event_kind event = DisplayKeys
         then keysDown (edges s') = keysDown (edges s) OR (event_mask event AND NOT (keys (controls s))) \<and>
              keys (controls s') = event_mask event
         else keysDown (edges s') = keysDown (edges s) \<and> keys (controls s') = keys (controls s)
     | None \<Rightarrow> keysDown (edges s') = keysDown (edges s) \<and> keys (controls s') = keys (controls s))"
  using assms
  by (auto simp: HandleInput_def Trace_def Let_def split: option.splits InputKind.splits if_splits)

lemma fold_keys:
  assumes "fold (\<lambda>report (changed, s). let (input, s) = HandleInput tick (take kInputBufferBytes report) s in (changed \<or> input, s))
      reports (changed, s) = (changed', s')"
  shows "features s' = features s \<and>
    keysDown (edges s') = keysDown (edges s) OR
      went_down (keys (controls s)) (key_masks (display (features s)) (reprogControls (features s)) reports) \<and>
    keys (controls s') = last (keys (controls s) # key_masks (display (features s)) (reprogControls (features s)) reports)"
  using assms
proof (induction reports arbitrary: changed s)
  case (Cons r rs)
  obtain input s1 where h: "HandleInput tick (take kInputBufferBytes r) s = (input, s1)" by (metis prod.exhaust)
  from HandleInput_keys [OF h] Cons.IH [of "changed \<or> input" s1] Cons.prems h
  show ?case by (auto simp: or.assoc split: option.splits if_splits)
qed simp

lemma pump_keys:
  assumes "Pump synthetic_ops s e = (hr, changed, down, s', e')" "ports s \<noteq> []" "length (queued e) \<le> kSyntheticQueueSlots"
  shows "hr = S_OK \<and> queued e' = [] \<and>
    keysDown down = keysDown (edges s) OR
      went_down (keys (controls s)) (key_masks (display (features s)) (reprogControls (features s)) (queued e)) \<and>
    keys (controls s') = last (keys (controls s) # key_masks (display (features s)) (reprogControls (features s)) (queued e))"
proof -
  let ?f = "\<lambda>report (changed, s). let (input, s) = HandleInput (of_nat (now_ms e)) (take kInputBufferBytes report) s in (changed \<or> input, s)"
  obtain changed1 s1 where f: "fold ?f (queued e) (False, s) = (changed1, s1)" by (metis prod.exhaust)
  have codes: "\<not> FAILED S_OK" by simp
  have rest: "pump_ports synthetic_ops ps c t (with_queue [] e) = (S_OK, c, t, with_queue [] e)" for ps c t
    by (induction ps) (simp_all add: pump_port_synthetic codes)
  obtain p ps where ps: "[0..<length (ports s)] = p # ps" using assms(2) by (cases "[0..<length (ports s)]") auto
  have "length (queued e) < 64" using assms(3) by (simp add: kSyntheticQueueSlots_def)
  from pump_port_synthetic [OF this, of p False s] f
  have "pump_port synthetic_ops p 64 False s e = (S_OK, changed1, s1, with_queue [] e)" by simp
  then have "pump_ports synthetic_ops [0..<length (ports s)] False s e = (S_OK, changed1, s1, with_queue [] e)"
    by (simp add: ps rest codes)
  then have "hr = S_OK" "down = edges s1" "s' = s1\<lparr>edges := ControlEdges_init\<rparr>" "e' = with_queue [] e"
    using assms(1) by (auto simp: Pump_def)
  then show ?thesis using fold_keys [OF f] by simp
qed

text \<open>C28: No tap is lost between two pumps: a pump takes every queued report of the keypad, says a key went down exactly
  when it did in one of them - also when a later report of the same pump says it is up again - or was left from the input
  of an earlier command, and the keys that are down after it are those of the last report.\<close>

theorem taps_are_counted:
  assumes "Pump synthetic_ops s e = (hr, changed, down, s', e')" "ports s \<noteq> []" "length (queued e) \<le> kSyntheticQueueSlots"
    "ms = key_masks (display (features s)) (reprogControls (features s)) (queued e)"
  shows "hr = S_OK \<and> queued e' = [] \<and> keys (controls s') = last (keys (controls s) # ms) \<and>
    (\<forall>k. bit (keysDown down) k \<longleftrightarrow>
       bit (keysDown (edges s)) k \<or> (\<exists>i < length ms. bit (ms ! i) k \<and> \<not> bit ((keys (controls s) # ms) ! i) k))"
proof -
  have "bit (keysDown down) k \<longleftrightarrow> bit (keysDown (edges s)) k \<or> bit (went_down (keys (controls s)) ms) k" for k
    using pump_keys [OF assms(1-3)] by (simp add: bit_or_iff assms(4))
  then show ?thesis using pump_keys [OF assms(1-3)] by (simp add: assms(4) bit_went_down)
qed


definition tapped_device :: syn_env where
  "tapped_device =
     \<lparr>keypad = snd (InjectKeys 0 (snd (InjectKeys 8 SyntheticKeypad_init))), now_ms = 0, arrivals = [], stopping = False\<rparr>"

definition pumped_keypad :: DeviceSession where
  "pumped_keypad = DeviceSession_init\<lparr>ports := [SyntheticHidPort False], trace := [], features :=
     \<lparr>display = kSyntheticDisplayIndex, reprogControls = kSyntheticReprogIndex, brightness = 0, displayAssumed = False\<rparr>\<rparr>"

lemma tapped_device_facts:
  "key_masks (display (features pumped_keypad)) (reprogControls (features pumped_keypad)) (queued tapped_device) = [8, 0]"
  "ports pumped_keypad \<noteq> []" "length (queued tapped_device) \<le> kSyntheticQueueSlots" "keys (controls pumped_keypad) = 0"
  by code_simp+

theorem taps_are_counted_witness:
  "case Pump synthetic_ops pumped_keypad tapped_device of
     (hr, changed, down, s', e') \<Rightarrow> hr = S_OK \<and> bit (keysDown down) 3 \<and> keys (controls s') = 0"
proof -
  obtain hr changed down s' e' where p: "Pump synthetic_ops pumped_keypad tapped_device = (hr, changed, down, s', e')"
    by (metis prod.exhaust)
  have "bit (8 :: u32) 3" by code_simp
  then have "\<exists>i < length [8 :: u32, 0]. bit ([8 :: u32, 0] ! i) 3 \<and> \<not> bit (([0, 8, 0] :: u32 list) ! i) 3" by (intro exI [of _ 0]) simp
  then show ?thesis
    using taps_are_counted [OF p tapped_device_facts(2,3) tapped_device_facts(1) [symmetric]] tapped_device_facts(4) p by simp
qed

section \<open>A device that does not answer\<close>

lemma widest_port_some: "infos \<noteq> [] \<Longrightarrow> \<exists>i. widest_port infos = Some i"
proof -
  let ?f = "\<lambda>i widest. case widest of
                         None \<Rightarrow> Some i
                       | Some w \<Rightarrow> if outputReportBytes (infos ! i) > outputReportBytes (infos ! w) then Some i else widest"
  have some: "\<exists>i. fold ?f xs (Some w) = Some i" for xs w by (induction xs arbitrary: w) auto
  assume "infos \<noteq> []"
  then obtain x xs where "[0..<length infos] = x # xs" by (cases "[0..<length infos]") auto
  then show ?thesis using some [of xs x] by (simp add: widest_port_def)
qed

lemma PortForOutput_some: "ports s \<noteq> [] \<Longrightarrow> \<exists>p. PortForOutput s rid = Some p"
  using widest_port_some by (auto simp: PortForOutput_def split: option.split)

definition silent :: "syn_env \<Rightarrow> bool" where
  "silent e \<longleftrightarrow> unresponsive (keypad e) \<and> queued e = [] \<and> arrivals e = [] \<and> now_ms e + 1000 < 2 ^ 64"

lemma await_silent:
  assumes "queued e = []" "arrivals e = []" "now_ms e + 1000 < 2 ^ 64"
  shows "\<exists>hr s' t. await_answer synthetic_ops f fn stop (of_nat (now_ms e) + kCommandTimeoutMilliseconds) s e =
      Some (hr, HidppFrame_init, s', e\<lparr>now_ms := t\<rparr>) \<and> same_setup s s' \<and> FAILED hr \<and> t \<le> now_ms e + 1000"
proof -
  let ?d = "of_nat (now_ms e) + kCommandTimeoutMilliseconds :: u64"
  let ?late = "e\<lparr>now_ms := now_ms e + 1000\<rparr>"
  have d: "?d = of_nat (now_ms e + 1000)" by (simp add: kCommandTimeoutMilliseconds_def)
  have less: "\<not> ?d \<le> of_nat (now_ms e)" 
  proof -
    have u: "unat (of_nat n :: u64) = n" if "n < 2 ^ 64" for n using that by (simp add: unat_of_nat)
    show ?thesis unfolding d word_le_nat_alt using u [of "now_ms e + 1000"] u [of "now_ms e"] assms(3) by linarith
  qed
  have wait: "synthetic_wait may kCommandTimeoutMilliseconds e = (if may \<and> stopping e then (StopSignaled, e) else (WaitOver, ?late))" for may
    using assms(1,2) by (simp add: synthetic_wait_def kCommandTimeoutMilliseconds_def)
  have ops: "tick_count64 synthetic_ops x = of_nat (now_ms x)" "wait_reports synthetic_ops = synthetic_wait" for x
    by (simp_all add: synthetic_ops_def)
  have empty: "drain_ports synthetic_ops f fn ps s e = (Drained, s, e)" "drain_ports synthetic_ops f fn ps s ?late = (Drained, s, ?late)" for ps
    using drain_ports_empty [of e] drain_ports_empty [of ?late] assms(1) by simp_all
  have late: "await_answer synthetic_ops f fn stop ?d s ?late = Some (HRESULT_FROM_WIN32 1460, HidppFrame_init, timed_out s, ?late)"
    by (subst await_answer_eq) (simp add: empty ops d timed_out_def)
  have "await_answer synthetic_ops f fn stop ?d s e =
      (if stop \<and> stopping e then Some (HRESULT_FROM_WIN32 1223, HidppFrame_init, s, e)
       else Some (HRESULT_FROM_WIN32 1460, HidppFrame_init, timed_out s, ?late))"
    using less late by (subst await_answer_eq) (simp add: empty ops wait Let_def)
  moreover have "same_setup s (timed_out s)" by (simp add: timed_out_def)
  ultimately show ?thesis
    by (cases "stop \<and> stopping e") (auto intro: exI [of _ "now_ms e"])
qed

lemma SendCommand_silent:
  assumes "silent e" "ports s \<noteq> []" "fn \<le> 0x0F" "length ps \<le> kLongParameterBytes"
  shows "\<exists>hr s' t. SendCommand synthetic_ops f fn ps stop s e =
      Some (hr, HidppFrame_init, s', e\<lparr>keypad := counted e, now_ms := t\<rparr>) \<and> same_setup s s' \<and> FAILED hr \<and> t \<le> now_ms e + 1000"
proof -
  obtain p where p: "PortForOutput s kReportLong = Some p" using PortForOutput_some [OF assms(2)] by blast
  let ?e = "e\<lparr>keypad := counted e\<rparr>"
  have "written (command_report f fn ps) e = ?e" using assms(1) by (simp add: written_def silent_def)
  then obtain s1 where w: "WriteReport synthetic_ops (command_report f fn ps) stop s e = (S_OK, s1, ?e)"
    using p synthetic_write [OF assms(4), of p f fn stop e] by (auto simp: WriteReport_def command_nth Let_def)
  have "queued ?e = []" "arrivals ?e = []" "now_ms ?e + 1000 < 2 ^ 64" using assms(1) by (simp_all add: silent_def counted_def)
  from await_silent [OF this, of f fn stop s1] w assms(3,4) same_setup_trans [OF WriteReport_setup [OF w]]
  show ?thesis by (auto simp: SendCommand_def BuildLongReport_command synthetic_ops_def)
qed

text \<open>C29: Restoring a device that no longer answers costs one command timeout at most: Restore returns, with a failure,
  after a single command and at most a second; it does not go on to the other controls or to the reset, and the session
  counts as restored and no longer connected.\<close>

theorem silent_device_costs_one_timeout:
  assumes "silent e" "ports s \<noteq> []" "\<not> restored s" "savedControls s \<noteq> []"
  shows "\<exists>hr s' t. Restore synthetic_ops stop logo s e = Some (hr, s', e\<lparr>keypad := counted e, now_ms := t\<rparr>) \<and>
    FAILED hr \<and> t \<le> now_ms e + 1000 \<and> restored s' \<and> \<not> connected s'"
proof -
  obtain r rs where sv: "savedControls s = r # rs" using assms(4) by (cases "savedControls s") auto
  have len: "length (divert_params (controlId r) (cid_flags r) (remap r) (flags2 r)) \<le> kLongParameterBytes"
    by (simp add: divert_params_def PutBigEndian16_def kLongParameterBytes_def)
  obtain hr s1 t where c: "SendCommand synthetic_ops (reprogControls (features s)) 3
      (divert_params (controlId r) (cid_flags r) (remap r) (flags2 r)) stop s e =
      Some (hr, HidppFrame_init, s1, e\<lparr>keypad := counted e, now_ms := t\<rparr>)" "FAILED hr" "t \<le> now_ms e + 1000"
    using SendCommand_silent [OF assms(1,2) _ len, where fn = 3 and f = "reprogControls (features s)" and stop = stop] by auto
  have "restore_each synthetic_ops (savedControls s) stop S_OK s e = Some (hr, False, s1, e\<lparr>keypad := counted e, now_ms := t\<rparr>)"
    using c(1,2) by (simp add: sv SUCCEEDED_def S_OK_def HidppFrame_init_def FAILED_def)
  moreover have "\<not> Disconnected synthetic_ops s e" using assms(2) by (simp add: Disconnected_def synthetic_ops_def list_ex_iff)
  ultimately show ?thesis
    using assms(2,3) c(2,3) by (auto simp: Restore_def)
qed

theorem silent_device_costs_one_timeout_witness:
  "\<exists>hr s' e'. Restore synthetic_ops True True
      (DeviceSession_init\<lparr>ports := [SyntheticHidPort False], restored := False,
         savedControls := [\<lparr>controlId = kControlPagePrevious, cid_flags = 1, remap = 0, flags2 = 0\<rparr>]\<rparr>)
      \<lparr>keypad = SyntheticKeypad_init\<lparr>unresponsive := True\<rparr>, now_ms = 5000, arrivals = [], stopping = False\<rparr> = Some (hr, s', e') \<and>
    FAILED hr \<and> now_ms e' \<le> 6000 \<and> commands (keypad e') = 1 \<and> \<not> resetSeen (keypad e')"
proof -
  let ?e = "\<lparr>keypad = SyntheticKeypad_init\<lparr>unresponsive := True\<rparr>, now_ms = 5000, arrivals = [], stopping = False\<rparr>"
  let ?s = "DeviceSession_init\<lparr>ports := [SyntheticHidPort False], restored := False,
         savedControls := [\<lparr>controlId = kControlPagePrevious, cid_flags = 1, remap = 0, flags2 = 0\<rparr>]\<rparr>"
  have "silent ?e" by (simp add: silent_def SyntheticKeypad_init_def)
  then obtain hr s' t where "Restore synthetic_ops True True ?s ?e = Some (hr, s', ?e\<lparr>keypad := counted ?e, now_ms := t\<rparr>)"
      "FAILED hr" "t \<le> 6000"
    using silent_device_costs_one_timeout [of ?e ?s True True] by auto
  then show ?thesis by (auto simp: counted_def SyntheticKeypad_init_def)
qed

section \<open>The trace\<close>

text \<open>The ring as the list of what is in it, the oldest entry first.\<close>

definition trace_ok :: "DeviceSession \<Rightarrow> bool" where
  "trace_ok s \<longleftrightarrow> length (trace s) = kTraceSlots \<and> traceHead s < kTraceSlots \<and> traceCount s \<le> kTraceSlots"

definition trace_log :: "DeviceSession \<Rightarrow> TraceEntry list" where
  "trace_log s = take (traceCount s) (rotate (traceHead s) (trace s))"

definition trace_entry :: "u32 \<times> u8 list \<times> bool \<Rightarrow> TraceEntry" where
  "trace_entry r = (case r of (tick, report, out) \<Rightarrow>
     \<lparr>trace_tick = tick, trace_length = length report, outbound = out, trace_bytes = zero_filled kTraceBytes (take kTraceBytes report)\<rparr>)"

lemma Trace_log:
  assumes "trace_ok s"
  shows "trace_ok (Trace tick report out s)"
    "trace_log (Trace tick report out s) =
       drop (Suc (length (trace_log s)) - kTraceSlots) (trace_log s @ [trace_entry (tick, report, out)])"
proof -
  let ?x = "trace_entry (tick, report, out)"
  let ?r = "rotate (traceHead s) (trace s)"
  have len: "length (trace s) = kTraceSlots" "traceCount s \<le> kTraceSlots" using assms by (simp_all add: trace_ok_def)
  have pos: "0 < kTraceSlots" by (simp add: kTraceSlots_def)
  have log: "length (trace_log s) = traceCount s" using len by (simp add: trace_log_def)
  have "traceHead s < kTraceSlots" using assms by (simp add: trace_ok_def)
  then show "trace_ok (Trace tick report out s)" using len pos by (auto simp: trace_ok_def Trace_def Let_def)
  have e: "trace (Trace tick report out s) = (trace s)[(traceHead s + traceCount s) mod kTraceSlots := ?x]"
    by (simp add: Trace_def Let_def trace_entry_def)
  show "trace_log (Trace tick report out s) = drop (Suc (length (trace_log s)) - kTraceSlots) (trace_log s @ [?x])"
  proof (cases "traceCount s = kTraceSlots")
    case False
    then have less: "traceCount s < length (trace s)" using len by simp
    have h: "traceHead (Trace tick report out s) = traceHead s" "traceCount (Trace tick report out s) = Suc (traceCount s)"
      using False by (simp_all add: Trace_def Let_def)
    have "rotate (traceHead s) (trace (Trace tick report out s)) = ?r[traceCount s := ?x]"
      using rotate_update [OF less, of "traceHead s" ?x] by (simp add: e len)
    then show ?thesis
      using less len log by (simp add: trace_log_def h take_Suc_conv_app_nth)
  next
    case True
    have h: "traceHead (Trace tick report out s) = (traceHead s + 1) mod kTraceSlots" "traceCount (Trace tick report out s) = kTraceSlots"
      using True by (simp_all add: Trace_def Let_def)
    have slot: "trace (Trace tick report out s) = (trace s)[(traceHead s + 0) mod length (trace s) := ?x]"
      unfolding e True by (simp add: len)
    have "rotate (traceHead s) (trace (Trace tick report out s)) = ?r[0 := ?x]"
      unfolding slot by (rule rotate_update) (simp add: len pos)
    then have "rotate ((traceHead s + 1) mod kTraceSlots) (trace (Trace tick report out s)) = rotate1 (?r[0 := ?x])"
      using rotate_next [of "trace (Trace tick report out s)" kTraceSlots "traceHead s"] len pos by (simp add: e)
    moreover obtain y ys where r: "?r = y # ys" using len pos by (cases ?r) auto
    moreover have "length ?r = kTraceSlots" using len by simp
    ultimately show ?thesis using log True by (simp add: trace_log_def h)
  qed
qed

lemma CopyTrace_log:
  assumes "trace_ok s"
  shows "CopyTrace capacity s = drop (length (trace_log s) - capacity) (trace_log s)"
proof (rule nth_equalityI)
  have len: "length (trace s) = kTraceSlots" "traceCount s \<le> kTraceSlots" using assms by (simp_all add: trace_ok_def)
  show "length (CopyTrace capacity s) = length (drop (length (trace_log s) - capacity) (trace_log s))"
    using len by (simp add: CopyTrace_def trace_log_def Let_def min_def)
  fix i assume "i < length (CopyTrace capacity s)"
  then have i: "i < min capacity (traceCount s)" by (simp add: CopyTrace_def Let_def)
  then show "CopyTrace capacity s ! i = drop (length (trace_log s) - capacity) (trace_log s) ! i"
    using len by (auto simp: CopyTrace_def trace_log_def Let_def nth_rotate min_def add.assoc)
qed

lemma drop_keep_last:
  "drop (length (drop (length xs - n) xs) + length ys - n) (drop (length xs - n) xs @ ys) = drop (length xs + length ys - n) (xs @ ys)"
proof (cases "length xs \<le> n")
  case False
  then have a: "length xs + length ys - n = length ys + (length xs - n)" by simp
  have b: "length (drop (length xs - n) xs) + length ys - n = length ys" using False by simp
  show ?thesis unfolding a b drop_drop [symmetric] using False by simp
qed simp

lemma Trace_fold:
  "trace_ok s \<Longrightarrow> length (trace_log s) \<le> kTraceSlots \<Longrightarrow>
   trace_ok (fold (\<lambda>(tick, report, out). Trace tick report out) rs s) \<and>
   trace_log (fold (\<lambda>(tick, report, out). Trace tick report out) rs s) =
     drop (length (trace_log s) + length rs - kTraceSlots) (trace_log s @ map trace_entry rs)"
proof (induction rs arbitrary: s)
  case (Cons r rs)
  obtain tick report out where r: "r = (tick, report, out)" by (metis prod.exhaust)
  note t = Trace_log [OF Cons.prems(1), of tick report out]
  have l: "length (trace_log (Trace tick report out s)) \<le> kTraceSlots" using t(2) by simp
  have k: "length (trace_log s @ [trace_entry r]) = Suc (length (trace_log s))" by simp
  from Cons.IH [OF t(1) l] show ?case
    using drop_keep_last [of "trace_log s @ [trace_entry r]" kTraceSlots "map trace_entry rs"]
    unfolding t(2) k r [symmetric] by (simp add: r)
qed simp

text \<open>The trace keeps the newest reports: after any sequence of traced reports CopyTrace gives the last of them, the
  oldest first, as many as were asked for and at most the 32 of the ring, each with its time, its direction, its true
  length and its first bytes.\<close>

theorem trace_keeps_newest:
  "CopyTrace capacity (fold (\<lambda>(tick, report, out). Trace tick report out) rs DeviceSession_init) =
     drop (length rs - min capacity kTraceSlots) (map trace_entry rs)"
proof -
  have i: "trace_ok DeviceSession_init" "trace_log DeviceSession_init = []"
    by (simp_all add: trace_ok_def trace_log_def DeviceSession_init_def kTraceSlots_def)
  have f: "trace_ok (fold (\<lambda>(tick, report, out). Trace tick report out) rs DeviceSession_init)"
    "trace_log (fold (\<lambda>(tick, report, out). Trace tick report out) rs DeviceSession_init) = drop (length rs - kTraceSlots) (map trace_entry rs)"
    using Trace_fold [of DeviceSession_init rs] i by simp_all
  have "length rs - kTraceSlots + (length rs - (length rs - kTraceSlots) - capacity) = length rs - min capacity kTraceSlots"
    by (cases "length rs \<le> kTraceSlots") (auto simp: min_def)
  then show ?thesis by (simp add: CopyTrace_log [OF f(1)] f(2) add.commute)
qed

section \<open>An image that is drawn\<close>

lemma VlpSequenceByte_first: "VlpSequenceByte n first last_one AND 0x80 \<noteq> 0 \<longleftrightarrow> first"
  "VlpSequenceByte n first last_one AND 0x40 \<noteq> 0 \<longleftrightarrow> last_one"
proof -
  have b: "w AND push_bit n 1 \<noteq> 0 \<longleftrightarrow> bit w n" for w :: u8 and n
    by (simp only: bit_iff_and_push_bit_not_eq_0)
  have "(0x80 :: u8) = push_bit 7 1" "(0x40 :: u8) = push_bit 6 1" by simp_all
  then show "VlpSequenceByte n first last_one AND 0x80 \<noteq> 0 \<longleftrightarrow> first" "VlpSequenceByte n first last_one AND 0x40 \<noteq> 0 \<longleftrightarrow> last_one"
    using b [of "VlpSequenceByte n first last_one" 7] b [of "VlpSequenceByte n first last_one" 6] VlpSequenceByte_flags(1,2) [of n first last_one]
    by (simp_all del: push_bit_of_1)
qed


definition pushed_record :: "SyntheticImageRecord \<Rightarrow> SyntheticImageRecord list \<Rightarrow> SyntheticImageRecord list" where
  "pushed_record r rs = (if length rs < kSyntheticRegionSlots then rs @ [r] else tl rs @ [r])"

lemma RecordImage_continuation:
  assumes "length p = 4095" "p ! 4 = VlpSequenceByte q False final"
  shows "\<exists>n. RecordImage p k = (if final then k\<lparr>images := pushed_record (streaming k) (images k), streamRemaining := 0\<rparr>
      else k\<lparr>streamRemaining := n\<rparr>)"
proof -
  have f: "p ! 4 AND 0x80 = 0" "p ! 4 AND 0x40 = 0 \<longleftrightarrow> \<not> final" using VlpSequenceByte_first [of q False final] assms(2) by auto
  show ?thesis
    using assms(1) f(2) by (cases final) (auto simp: RecordImage_def Let_def f(1) kVlpFirstHeaderBytes_def pushed_record_def)
qed

lemma RecordImage_rest:
  assumes "xs \<noteq> []"
  shows "\<exists>n. fold RecordImage (rest_packets f q xs) k = k\<lparr>images := pushed_record (streaming k) (images k), streamRemaining := n\<rparr>"
  using assms
proof (induction f q xs arbitrary: k rule: rest_packets.induct)
  case (2 f q x xs)
  let ?last = "length (x # xs) \<le> 4090"
  let ?p = "packet_bytes f (VlpSequenceByte (q + 1) False ?last) [] (take 4090 (x # xs))"
  have len: "length ?p = 4095" by (rule rest_packets_sizes [of _ f q "x # xs"]) simp
  have flag: "?p ! 4 = VlpSequenceByte (q + 1) False ?last" by (rule packet_bytes_flag)
  obtain n where p: "RecordImage ?p k = (if ?last then k\<lparr>images := pushed_record (streaming k) (images k), streamRemaining := 0\<rparr>
      else k\<lparr>streamRemaining := n\<rparr>)"
    using RecordImage_continuation [OF len flag] by blast
  show ?case
  proof (cases ?last)
    case True
    then show ?thesis using p by (auto intro: exI [of _ 0])
  next
    case False
    then have "drop 4090 (x # xs) \<noteq> []" by simp
    from 2(1) [OF this, of "k\<lparr>streamRemaining := n\<rparr>"] p False show ?thesis by auto
  qed
qed simp

lemma image_bytes_read:
  "length xs \<le> 0xFFFFFF \<Longrightarrow>
     push_bit 16 (ucast (ucast (drop_bit 16 w AND 0xFF) :: u8) :: u32) OR push_bit 8 (ucast (ucast (drop_bit 8 v) :: u8) :: u32) OR
       ucast (ucast (v AND 0xFF) :: u8) = w"
  if "w = (of_nat (length xs) :: u32)" "v = (ucast (w AND 0xFFFF) :: u16)"
proof (rule bit_word_eqI)
  fix n assume l: "length xs \<le> 0xFFFFFF" "n < LENGTH(32)"
  have "unat w < 2 ^ 24" using l(1) that(1) by (simp add: unat_of_nat)
  then have top: "\<not> bit w n" if "24 \<le> n"
  proof -
    have "take_bit 24 w = w"
      using \<open>unat w < 2 ^ 24\<close> by (intro word_unat_eq_iff [THEN iffD2]) (simp add: unsigned_take_bit_eq take_bit_nat_eq_self)
    then show ?thesis using that by (metis bit_take_bit_iff not_less)
  qed
  have m: "(0xFF :: u32) = mask 8" "(0xFF :: u16) = mask 8" "(0xFFFF :: u32) = mask 16" by (simp_all add: mask_eq_exp_minus_1)
  show "bit (push_bit 16 (ucast (ucast (drop_bit 16 w AND 0xFF) :: u8) :: u32) OR push_bit 8 (ucast (ucast (drop_bit 8 v) :: u8) :: u32) OR
       ucast (ucast (v AND 0xFF) :: u8)) n = bit w n"
  proof -
    consider "n < 8" | "8 \<le> n" "n < 16" | "16 \<le> n" "n < 24" | "24 \<le> n" by linarith
    then show ?thesis
    proof cases
      case 4
      show ?thesis unfolding that(2) m using 4 top [OF 4] by (simp add: bit_simps)
    qed (unfold that(2) m, auto simp: bit_simps)
  qed
qed


lemma take_replicate_zeros:
  "4 \<le> length (xs @ replicate z (0 :: u8)) \<Longrightarrow> take 4 (xs @ replicate z 0) = take 4 (xs @ [0, 0, 0, 0])"
proof -
  assume "4 \<le> length (xs @ replicate z (0 :: u8))"
  then have "min (4 - length xs) z = 4 - length xs" by simp
  moreover have "[0, 0, 0, 0] = replicate 4 (0 :: u8)" by (simp add: eval_nat_numeral)
  ultimately show ?thesis by (simp add: take_replicate min_def split: if_splits)
qed

definition drawn_image :: "ImageRegion \<Rightarrow> u8 list \<Rightarrow> bool \<Rightarrow> SyntheticImageRecord" where
  "drawn_image r xs later =
     \<lparr>image_region = r, image_bytes = of_nat (length xs), image_defer = later, image_head = take 4 (xs @ [0, 0, 0, 0])\<rparr>"

lemma RecordImage_first:
  assumes "BeginVlpImageStream feature r later (Some xs) = Some s"
    "p = packet_bytes feature (VlpSequenceByte 1 True final) (first_header s) (take 4075 xs)"
  shows "\<exists>n. RecordImage p k =
    (if final then k\<lparr>images := pushed_record (drawn_image r xs later) (images k), streaming := drawn_image r xs later, streamRemaining := 0\<rparr>
     else k\<lparr>streaming := drawn_image r xs later, streamRemaining := n\<rparr>)"
proof -
  have s: "s = \<lparr>stream_image = Some xs, stream_bytes = of_nat (length xs), stream_offset = 0, stream_sequence = 0,
      stream_feature = feature, deferUpdate = later, stream_region = r\<rparr>" "length xs \<le> 0xFFFFFF"
    using assms(1) by (auto simp: BeginVlpImageStream_def kMaximumImageBytes_def split: if_splits)
  have flag: "p ! 4 = VlpSequenceByte 1 True final" unfolding assms(2) by (rule packet_bytes_flag)
  have f: "p ! 4 AND 0x80 \<noteq> 0" "p ! 4 AND 0x40 = 0 \<longleftrightarrow> \<not> final" using VlpSequenceByte_first [of 1 True final] flag by auto
  have p: "p = zero_filled 4095 ([kReportVlpImage, kDeviceIndexWired, feature, push_bit 4 2 OR kSoftwareId, VlpSequenceByte 1 True final] @
      first_header s @ take 4075 xs)" by (simp add: assms(2) packet_bytes_def)
  have len: "length p = 4095" using assms(2) by (simp add: length_packet_bytes length_first_header)
  have region: "big_endian_at p 9 = rx r" "big_endian_at p 11 = ry r" "big_endian_at p 13 = rwidth r" "big_endian_at p 15 = rheight r"
    by (simp_all add: big_endian_at_def p zero_filled_def first_header_def PutBigEndian16_def s(1) GetPut16)
  have bytes: "push_bit 16 (ucast (p ! 17)) OR push_bit 8 (ucast (p ! 18)) OR ucast (p ! 19) = (of_nat (length xs) :: u32)"
    using image_bytes_read [OF refl refl s(2)] by (simp add: p zero_filled_def first_header_def PutBigEndian16_def s(1))
  have later: "p ! 6 \<noteq> 0 \<longleftrightarrow> later" by (simp add: p zero_filled_def first_header_def PutBigEndian16_def s(1))
  have "take 4 (take 4 (drop 20 p) @ [0, 0, 0, 0]) = take 4 (xs @ [0, 0, 0, 0])"
  proof -
    obtain z where z: "drop 20 p = take 4075 xs @ replicate z 0" and "4 \<le> length (drop 20 p)"
      using len by (simp add: p zero_filled_def first_header_def PutBigEndian16_def s(1))
    then have "take 4 (drop 20 p) = take 4 (take 4075 xs @ [0, 0, 0, 0])"
      using take_replicate_zeros [of "take 4075 xs" z] by simp
    moreover have "take 4 (take 4075 xs @ [0, 0, 0, 0]) = take 4 (xs @ [0, 0, 0, 0])"
      by (cases "length xs \<le> 4075") simp_all
    moreover have "take 4 (ys @ [0, 0, 0, 0]) = ys" if "length ys = 4" for ys :: "u8 list" using that by simp
    moreover have "length (take 4 (drop 20 p)) = 4" using \<open>4 \<le> length (drop 20 p)\<close> by simp
    ultimately show ?thesis by metis
  qed
  then have img: "\<lparr>image_region = \<lparr>rx = big_endian_at p 9, ry = big_endian_at p 11, rwidth = big_endian_at p 13, rheight = big_endian_at p 15\<rparr>,
      image_bytes = push_bit 16 (ucast (p ! 17)) OR push_bit 8 (ucast (p ! 18)) OR ucast (p ! 19), image_defer = (p ! 6 \<noteq> 0),
      image_head = take 4 (take 4 (drop 20 p) @ [0, 0, 0, 0])\<rparr> = drawn_image r xs later"
    unfolding region bytes later drawn_image_def by (cases r) simp
  have u: "unat kVlpFirstHeaderBytes = 20" by (simp add: kVlpFirstHeaderBytes_def)
  show ?thesis
    unfolding RecordImage_def Let_def u img using f len by (cases final) (auto simp: pushed_record_def)
qed

lemma WriteReport_image:
  assumes "WriteReport synthetic_ops p stop s e = (hr, s', e')" "\<not> FAILED hr" "p ! 0 = kReportVlpImage"
  shows "e' = e\<lparr>keypad := RecordImage p (keypad e)\<rparr>"
proof -
  have "FAILED E_POINTER" "FAILED (HRESULT_FROM_WIN32 50)" by (simp_all add: FAILED_def E_POINTER_def HRESULT_FROM_WIN32_def)
  then show ?thesis
    using assms
    by (auto simp: WriteReport_def synthetic_ops_def on_keypad_def HandleWrite_def Let_def split: if_splits option.splits)
qed

lemma write_packets_image:
  "write_packets synthetic_ops ps stop s e = (hr, s', e') \<Longrightarrow> \<not> FAILED hr \<Longrightarrow> \<forall>p \<in> set ps. p ! 0 = kReportVlpImage \<Longrightarrow>
     e' = e\<lparr>keypad := fold RecordImage ps (keypad e)\<rparr>"
proof (induction ps arbitrary: s e)
  case (Cons p ps)
  obtain r s1 e1 where w: "WriteReport synthetic_ops p stop s e = (r, s1, e1)" by (metis prod.exhaust)
  have "FAILED (HRESULT_FROM_WIN32 1223)" by simp
  then have ok: "\<not> FAILED r" "\<not> (stop \<and> stop_signaled synthetic_ops e)" using Cons.prems(1,2) w by (auto split: if_splits)
  have "e1 = e\<lparr>keypad := RecordImage p (keypad e)\<rparr>" by (rule WriteReport_image [OF w ok(1)]) (use Cons.prems(3) in simp)
  then show ?case
    using Cons.IH [of "s1\<lparr>counters := (counters s1)\<lparr>imagePackets := imagePackets (counters s1) + 1\<rparr>\<rparr>" e1] Cons.prems ok w by simp
qed auto

lemma image_recorded:
  assumes "WriteImage synthetic_ops r jpeg later stop s e = (hr, s', e')" "\<not> FAILED hr"
  shows "\<exists>xs q n. jpeg = Some xs \<and> xs \<noteq> [] \<and> length xs \<le> 0xFFFFFF \<and>
    e' = e\<lparr>keypad := (keypad e)\<lparr>images := pushed_record (drawn_image r xs later) (images (keypad e)),
                                streamRemaining := n, streaming := q\<rparr>\<rparr>"
proof -
  have f: "FAILED (HRESULT_FROM_WIN32 1167)" "FAILED E_INVALIDARG"
    by (simp_all add: FAILED_def E_INVALIDARG_def HRESULT_FROM_WIN32_def)
  obtain stream where b: "BeginVlpImageStream (display (features s)) r later jpeg = Some stream"
    using assms f by (auto simp: WriteImage_def split: if_splits option.splits)
  then have w: "write_packets synthetic_ops (vlp_packets stream) stop s e = (hr, s', e')"
    using assms f by (auto simp: WriteImage_def split: if_splits)
  obtain xs where xs: "jpeg = Some xs" using b by (auto simp: BeginVlpImageStream_def split: option.splits)
  define final where "final \<longleftrightarrow> length xs \<le> 4075"
  define p where "p = packet_bytes (display (features s)) (VlpSequenceByte 1 True final) (first_header stream) (take 4075 xs)"
  note bgn = vlp_packets_begin [OF b [unfolded xs], folded final_def, folded p_def]
  have "\<forall>p \<in> set (vlp_packets stream). p ! 0 = kReportVlpImage" using vlp_packets_report by (metis hd_conv_nth)
  from write_packets_image [OF w assms(2) this]
  have e': "e' = e\<lparr>keypad := fold RecordImage (rest_packets (display (features s)) 1 (drop 4075 xs)) (RecordImage p (keypad e))\<rparr>"
    using bgn by simp
  obtain n where first: "RecordImage p (keypad e) =
    (if final then (keypad e)\<lparr>images := pushed_record (drawn_image r xs later) (images (keypad e)),
                              streaming := drawn_image r xs later, streamRemaining := 0\<rparr>
     else (keypad e)\<lparr>streaming := drawn_image r xs later, streamRemaining := n\<rparr>)"
    using RecordImage_first [OF b [unfolded xs] p_def] by blast
  show ?thesis
  proof (cases final)
    case True
    then have "drop 4075 xs = []" by (simp add: final_def)
    then show ?thesis using e' first True bgn xs by (intro exI [of _ xs] exI [of _ "drawn_image r xs later"] exI [of _ 0]) simp
  next
    case False
    then have "drop 4075 xs \<noteq> []" by (simp add: final_def)
    from RecordImage_rest [OF this, of "display (features s)" 1 "RecordImage p (keypad e)"] obtain m where
      "fold RecordImage (rest_packets (display (features s)) 1 (drop 4075 xs)) (RecordImage p (keypad e)) =
         (RecordImage p (keypad e))\<lparr>images := pushed_record (streaming (RecordImage p (keypad e))) (images (RecordImage p (keypad e))),
                                     streamRemaining := m\<rparr>" by blast
    then show ?thesis
      using e' first False bgn xs by (intro exI [of _ xs] exI [of _ "drawn_image r xs later"] exI [of _ m]) simp
  qed
qed

text \<open>C21: An image arrives: when WriteImage reports success, the device has read back from the packets exactly one more
  image, with the region, the byte count, the update mode and the first bytes it was drawn with, and nothing else of the
  device has changed but the state of its image stream.\<close>

theorem drawn_image_arrives:
  assumes "WriteImage synthetic_ops r jpeg later stop s e = (hr, s', e')" "\<not> FAILED hr" "length (images (keypad e)) < kSyntheticRegionSlots"
  shows "\<exists>xs q n. jpeg = Some xs \<and> xs \<noteq> [] \<and> length xs \<le> 0xFFFFFF \<and>
    e' = e\<lparr>keypad := (keypad e)\<lparr>images := images (keypad e) @
        [\<lparr>image_region = r, image_bytes = of_nat (length xs), image_defer = later, image_head = take 4 (xs @ [0, 0, 0, 0])\<rparr>],
      streamRemaining := n, streaming := q\<rparr>\<rparr>"
  using image_recorded [OF assms(1,2)] assms(3) by (simp add: pushed_record_def drawn_image_def)

definition drawing_keypad :: DeviceSession where
  "drawing_keypad = DeviceSession_init\<lparr>ports := [SyntheticHidPort False], connected := True,
     features := \<lparr>display = kSyntheticDisplayIndex, reprogControls = kSyntheticReprogIndex, brightness = 0, displayAssumed = False\<rparr>\<rparr>"

definition waiting_device :: syn_env where
  "waiting_device = \<lparr>keypad = SyntheticKeypad_init, now_ms = 0, arrivals = [], stopping = False\<rparr>"

theorem drawn_image_arrives_witness:
  "case WriteImage synthetic_ops GridRegion (Some (replicate 9000 7)) True False drawing_keypad waiting_device of
     (hr, s', e') \<Rightarrow> map image_bytes (images (keypad e')) = [9000]"
proof -
  obtain hr s' e' where w: "WriteImage synthetic_ops GridRegion (Some (replicate 9000 7)) True False drawing_keypad waiting_device = (hr, s', e')"
    by (metis prod.exhaust)
  have port: "PortForOutput x kReportVlpImage = Some 0" if "ports x = [SyntheticHidPort False]" for x
    unfolding PortForOutput_def that by code_simp
  have wrote: "\<exists>x y. WriteReport synthetic_ops p False t e = (S_OK, x, y) \<and> ports x = [SyntheticHidPort False]"
    if "ports t = [SyntheticHidPort False]" "p \<noteq> []" "hd p = kReportVlpImage" for p t e
    using that(2,3) port [OF that(1)] that(1)
    by (cases p) (auto simp: WriteReport_def synthetic_ops_def on_keypad_def HandleWrite_def Let_def Trace_def)
  have packets: "fst (write_packets synthetic_ops ps False t e) = S_OK"
    if "ports t = [SyntheticHidPort False]" "\<forall>p \<in> set ps. p \<noteq> [] \<and> hd p = kReportVlpImage" for ps t e
    using that
  proof (induction ps arbitrary: t e)
    case (Cons p ps)
    obtain x y where "WriteReport synthetic_ops p False t e = (S_OK, x, y)" "ports x = [SyntheticHidPort False]"
      using wrote [OF Cons.prems(1), of p e] Cons.prems(2) by auto
    then show ?case using Cons by simp
  qed simp
  obtain stream where b: "BeginVlpImageStream (display (features drawing_keypad)) GridRegion True (Some (replicate 9000 7)) = Some stream"
    by (simp add: BeginVlpImageStream_def kMaximumImageBytes_def GridRegion_def kGridOriginX_def kGridOriginY_def kGridSize_def kPanelSize_def)
  have c: "connected drawing_keypad" "ports drawing_keypad = [SyntheticHidPort False]" by (simp_all add: drawing_keypad_def)
  have "write_packets synthetic_ops (vlp_packets stream) False drawing_keypad waiting_device = (hr, s', e')"
    using w b c(1) by (simp add: WriteImage_def)
  then have "hr = S_OK" using packets [OF c(2), of "vlp_packets stream" waiting_device] vlp_packets_report by force
  then show ?thesis using drawn_image_arrives [OF w] w by (auto simp: waiting_device_def SyntheticKeypad_init_def kSyntheticRegionSlots_def)
qed

end
