(* ===== verification/Camera_Channel.thy ===== *)
theory Camera_Channel
  imports Text_Prelude Work_Lane
begin

text \<open>
  \<open>AVControl/Camera/CameraFrameChannel\<close>: one NV12 image in memory that the Frame Server source and the helper that
  captures from the physical camera share, behind a named mutex and a gate. The answers of Windows (the outcome of a
  wait, an open that fails) are arguments; a call whose lock is not granted leaves the memory as it is.
\<close>

section \<open>Names\<close>

record FrameChannelNames =
  mapping_name :: wstring
  mutex_name :: wstring

definition kNameCharacters :: nat where "kNameCharacters = 128"

definition wcsnlen :: "wstring \<Rightarrow> nat" where
  "wcsnlen a = (case index_of 0 a of None \<Rightarrow> length a | Some i \<Rightarrow> i)"

definition wide_hex :: "u16 \<Rightarrow> bool" where
  "wide_hex c \<longleftrightarrow> (48 \<le> c \<and> c \<le> 57) \<or> (65 \<le> c \<and> c \<le> 70) \<or> (97 \<le> c \<and> c \<le> 102)"

definition object_name :: "string \<Rightarrow> bool \<Rightarrow> wstring" where
  "object_name scope mutex =
     W (scope @ [CHR 0x5C] @ (if mutex then ''RedXe.Camera.Lock.'' else ''RedXe.Camera.Frame.''))"

definition guid_text :: "wstring \<Rightarrow> bool" where
  "guid_text value \<longleftrightarrow>
     length value = 38 \<and> hd value = 123 \<and> last value = 125 \<and>
     list_all (\<lambda>i. if i = 9 \<or> i = 14 \<or> i = 19 \<or> i = 24 then value ! i = 45 else wide_hex (value ! i)) [1..<37]"

definition ValidName :: "wstring \<Rightarrow> bool \<Rightarrow> bool \<Rightarrow> bool" where
  "ValidName value mutex allowLocal =
     (if starts_with value (object_name ''Global'' mutex) then
        guid_text (drop (length (object_name ''Global'' mutex)) value)
      else if allowLocal \<and> starts_with value (object_name ''Local'' mutex) then
        guid_text (drop (length (object_name ''Local'' mutex)) value)
      else False)"

text \<open>The names \<open>Create\<close> makes of a fresh GUID, in their arrays: \<open>swprintf_s\<close> writes the terminator.\<close>

definition name_array :: "wstring \<Rightarrow> wstring" where
  "name_array s = s @ replicate (kNameCharacters - length s) 0"

definition NewNames :: "bool \<Rightarrow> wstring \<Rightarrow> FrameChannelNames" where
  "NewNames localTestNamespace guid =
     (let scope = (if localTestNamespace then ''Local'' else ''Global'')
      in \<lparr>mapping_name = name_array (object_name scope False @ guid),
         mutex_name = name_array (object_name scope True @ guid)\<rparr>)"

text \<open>The checks of \<open>Open\<close> before it opens anything.\<close>

definition NamesAccepted :: "FrameChannelNames \<Rightarrow> bool \<Rightarrow> bool" where
  "NamesAccepted names allowLocalTestNamespace \<longleftrightarrow>
     (let mappingLength = wcsnlen (mapping_name names); mutexLength = wcsnlen (mutex_name names)
      in mappingLength \<noteq> length (mapping_name names) \<and> mutexLength \<noteq> length (mutex_name names) \<and>
         ValidName (take mappingLength (mapping_name names)) False allowLocalTestNamespace \<and>
         ValidName (take mutexLength (mutex_name names)) True allowLocalTestNamespace \<and>
         drop (mappingLength - 38) (take mappingLength (mapping_name names)) =
           drop (mutexLength - 38) (take mutexLength (mutex_name names)) \<and>
         mapping_name names ! 0 = mutex_name names ! 0)"

section \<open>The shared image\<close>

definition Magic :: u32 where "Magic = 0x43465852"
definition Protocol :: u32 where "Protocol = 1"
definition FrameWidth :: nat where "FrameWidth = 1280"
definition FrameHeight :: nat where "FrameHeight = 720"
definition ImageRows :: nat where "ImageRows = FrameHeight * 3 div 2"
definition ImageBytes :: nat where "ImageBytes = FrameWidth * FrameHeight * 3 div 2"
definition SharedBytes :: nat where "SharedBytes = 48 + ImageBytes"
definition MaximumFrameAge :: int where "MaximumFrameAge = 2500000"

record Shared =
  magic :: u32
  version :: u32
  size_of :: u32
  width :: u32
  height :: u32
  imageBytes :: u32
  revision :: u64
  timestamp :: int
  enabled :: u32
  ready :: u32
  image :: "u8 list"

definition Shared_init :: Shared where
  "Shared_init = \<lparr>magic = Magic, version = Protocol, size_of = of_nat SharedBytes, width = of_nat FrameWidth,
     height = of_nat FrameHeight, imageBytes = of_nat ImageBytes, revision = 1, timestamp = 0, enabled = 0, ready = 0,
     image = replicate ImageBytes 0\<rparr>"

text \<open>What one process has of a channel: the handles it opened and the lease a read keeps.\<close>

record FrameChannel =
  channel_names :: "FrameChannelNames option"
  mapping_open :: bool
  mutex_open :: bool
  view_open :: bool
  readLease :: bool

definition FrameChannel_closed :: FrameChannel where
  "FrameChannel_closed = \<lparr>channel_names = None, mapping_open = False, mutex_open = False, view_open = False, readLease = False\<rparr>"

definition Close :: "FrameChannel \<Rightarrow> FrameChannel" where
  "Close ch = FrameChannel_closed"

definition Valid :: "FrameChannel \<Rightarrow> Shared \<Rightarrow> bool" where
  "Valid ch sh \<longleftrightarrow>
     view_open ch \<and> magic sh = Magic \<and> version sh = Protocol \<and> size_of sh = of_nat SharedBytes \<and>
     width sh = of_nat FrameWidth \<and> height sh = of_nat FrameHeight \<and> imageBytes sh = of_nat ImageBytes \<and>
     enabled sh \<le> 1 \<and> ready sh \<le> 1 \<and> revision sh \<noteq> 0"

datatype wait_answer = WaitObject | WaitAbandoned | WaitTimeout | WaitError u32

definition Lock :: "wait_answer \<Rightarrow> FrameChannel \<Rightarrow> Shared \<Rightarrow> hresult \<times> Shared" where
  "Lock wait ch sh =
     (if \<not> mutex_open ch \<or> \<not> view_open ch \<or> readLease ch then (E_UNEXPECTED, sh)
      else (case wait of
              WaitTimeout \<Rightarrow> (HRESULT_FROM_WIN32 1460, sh)
            | WaitError e \<Rightarrow> (HRESULT_FROM_WIN32 e, sh)
            | _ \<Rightarrow>
                if \<not> Valid ch sh then (HRESULT_FROM_WIN32 13, sh)
                else if wait = WaitAbandoned then
                  (HRESULT_FROM_WIN32 735, sh\<lparr>enabled := 0, ready := 0, timestamp := 0\<rparr>)
                else (S_OK, sh)))"

text \<open>The three handles \<open>Open\<close> opens in turn: \<open>None\<close> opens, \<open>Some e\<close> fails with the error \<open>e\<close>.\<close>

definition Open ::
    "FrameChannelNames \<Rightarrow> bool \<Rightarrow> u32 option \<Rightarrow> u32 option \<Rightarrow> u32 option \<Rightarrow> wait_answer \<Rightarrow> Shared
     \<Rightarrow> hresult \<times> FrameChannel \<times> Shared" where
  "Open request allowLocal mapping mutex view wait sh =
     (if \<not> NamesAccepted request allowLocal then (E_INVALIDARG, FrameChannel_closed, sh)
      else (case (mapping, mutex, view) of
              (Some e, _) \<Rightarrow> (HRESULT_FROM_WIN32 e, FrameChannel_closed, sh)
            | (None, Some e, _) \<Rightarrow> (HRESULT_FROM_WIN32 e, FrameChannel_closed, sh)
            | (None, None, Some e) \<Rightarrow> (HRESULT_FROM_WIN32 e, FrameChannel_closed, sh)
            | (None, None, None) \<Rightarrow>
                (let ch = FrameChannel_closed\<lparr>mapping_open := True, mutex_open := True, view_open := True\<rparr>;
                     (result, sh) = Lock wait ch sh
                 in if FAILED result then (result, Close ch, sh)
                    else (S_OK, ch\<lparr>channel_names := Some request\<rparr>, sh))))"

record ChannelState =
  gate_revision :: u64
  gate_enabled :: bool

definition GetState :: "wait_answer \<Rightarrow> FrameChannel \<Rightarrow> Shared \<Rightarrow> hresult \<times> ChannelState option \<times> Shared" where
  "GetState wait ch sh =
     (let (result, sh) = Lock wait ch sh
      in if FAILED result then (result, None, sh)
         else (S_OK, Some \<lparr>gate_revision = revision sh, gate_enabled = (enabled sh \<noteq> 0)\<rparr>, sh))"

definition revision_mismatch :: hresult where "revision_mismatch = HRESULT_FROM_WIN32 1306"

definition SetGate :: "ChannelState \<Rightarrow> wait_answer \<Rightarrow> FrameChannel \<Rightarrow> Shared \<Rightarrow> hresult \<times> Shared" where
  "SetGate state wait ch sh =
     (if gate_revision state = 0 then (E_INVALIDARG, sh)
      else
        (let (result, sh) = Lock wait ch sh
         in if FAILED result then (result, sh)
            else if gate_revision state < revision sh \<or>
                    gate_revision state = revision sh \<and> gate_enabled state \<noteq> (enabled sh \<noteq> 0) then
              (revision_mismatch, sh)
            else
              (let sh = (if gate_revision state \<noteq> revision sh \<or> \<not> gate_enabled state
                         then sh\<lparr>ready := 0, timestamp := 0, image := replicate (length (image sh)) 0\<rparr> else sh)
               in (S_OK, sh\<lparr>revision := gate_revision state, enabled := (if gate_enabled state then 1 else 0)\<rparr>))))"

definition WriteFrame :: "u64 \<Rightarrow> u8 list \<Rightarrow> int \<Rightarrow> wait_answer \<Rightarrow> FrameChannel \<Rightarrow> Shared \<Rightarrow> hresult \<times> Shared" where
  "WriteFrame r nv12 time wait ch sh =
     (if length nv12 \<noteq> ImageBytes \<or> time \<le> 0 then (E_INVALIDARG, sh)
      else
        (let (result, sh) = Lock wait ch sh
         in if FAILED result then (result, sh)
            else if enabled sh = 0 \<or> r \<noteq> revision sh then (revision_mismatch, sh)
            else if time \<le> timestamp sh then (S_FALSE, sh)
            else (S_OK, sh\<lparr>image := nv12, timestamp := time, ready := 1\<rparr>)))"

definition live :: "Shared \<Rightarrow> int \<Rightarrow> bool" where
  "live sh now \<longleftrightarrow>
     enabled sh \<noteq> 0 \<and> ready sh \<noteq> 0 \<and> timestamp sh \<le> now \<and> now - timestamp sh \<le> MaximumFrameAge"

definition frame_row :: "u8 list option \<Rightarrow> nat \<Rightarrow> nat \<Rightarrow> u8 list" where
  "frame_row pixels pitch row =
     (let fill = (if row < FrameHeight then 16 else 128)
      in (case pixels of
            None \<Rightarrow> replicate pitch fill
          | Some bytes \<Rightarrow> take FrameWidth (drop (row * FrameWidth) bytes) @ replicate (pitch - FrameWidth) fill))"

definition frame_text :: "u8 list option \<Rightarrow> nat \<Rightarrow> u8 list" where
  "frame_text pixels pitch = concat (map (frame_row pixels pitch) [0..<ImageRows])"

text \<open>\<open>capacity\<close> is \<open>None\<close> for a null buffer; the value is what the call wrote into it, from its first byte.\<close>

definition ReadFrame ::
    "nat option \<Rightarrow> int \<Rightarrow> int \<Rightarrow> wait_answer \<Rightarrow> FrameChannel \<Rightarrow> Shared \<Rightarrow> hresult \<times> u8 list \<times> FrameChannel \<times> Shared" where
  "ReadFrame capacity pitch now wait ch sh =
     (case capacity of
        None \<Rightarrow> (E_INVALIDARG, [], ch, sh)
      | Some bytes \<Rightarrow>
          if pitch < int FrameWidth \<or> nat pitch * FrameHeight * 3 div 2 > bytes \<or> now \<le> 0 then (E_INVALIDARG, [], ch, sh)
          else
            (let (result, sh) = Lock wait ch sh
             in if FAILED result then (result, [], ch, sh)
                else (S_OK, frame_text (if live sh now then Some (image sh) else None) (nat pitch),
                      ch\<lparr>readLease := True\<rparr>, sh)))"

definition EndRead :: "FrameChannel \<Rightarrow> FrameChannel" where
  "EndRead ch = ch\<lparr>readLease := False\<rparr>"

section \<open>The channel in use\<close>

text \<open>
  The two processes of a channel over the one memory they share. A call of one of them is a step: it holds the mutex
  from its wait to its end, and a read that succeeded goes on holding it until \<open>EndRead\<close>, so the other side's wait is
  not granted while that lease is out.
\<close>

datatype side = SourceSide | HelperSide

datatype channel_call =
    CallOpen FrameChannelNames bool "u32 option" "u32 option" "u32 option"
  | CallClose
  | CallState
  | CallGate ChannelState
  | CallWrite u64 "u8 list" int
  | CallRead "nat option" int int
  | CallEndRead

type_synonym camera_system = "Shared \<times> (side \<Rightarrow> FrameChannel)"

text \<open>A call: its result, the bytes a read wrote, and the system after it.\<close>

fun perform :: "side \<Rightarrow> channel_call \<Rightarrow> wait_answer \<Rightarrow> camera_system \<Rightarrow> hresult \<times> u8 list \<times> camera_system" where
  "perform who (CallOpen n allow mapping mutex view) wait (sh, chs) =
     (let (result, ch, sh) = Open n allow mapping mutex view wait sh in (result, [], sh, chs(who := ch)))"
| "perform who CallClose wait (sh, chs) = (S_OK, [], sh, chs(who := Close (chs who)))"
| "perform who CallState wait (sh, chs) = (let (result, _, sh) = GetState wait (chs who) sh in (result, [], sh, chs))"
| "perform who (CallGate st) wait (sh, chs) = (let (result, sh) = SetGate st wait (chs who) sh in (result, [], sh, chs))"
| "perform who (CallWrite r nv12 time) wait (sh, chs) =
     (let (result, sh) = WriteFrame r nv12 time wait (chs who) sh in (result, [], sh, chs))"
| "perform who (CallRead capacity pitch now) wait (sh, chs) =
     (let (result, bytes, ch, sh) = ReadFrame capacity pitch now wait (chs who) sh
      in (result, bytes, sh, chs(who := ch)))"
| "perform who CallEndRead wait (sh, chs) = (S_OK, [], sh, chs(who := EndRead (chs who)))"

text \<open>What the calls did to the memory, the newest first.\<close>

datatype channel_event = Gated ChannelState | Written u64 "u8 list" int | Revoked

definition call_events :: "channel_call \<Rightarrow> hresult \<Rightarrow> channel_event list" where
  "call_events call result =
     (if result = HRESULT_FROM_WIN32 735 then [Revoked]
      else (case call of
              CallGate st \<Rightarrow> if result = S_OK then [Gated st] else []
            | CallWrite r nv12 time \<Rightarrow> if result = S_OK then [Written r nv12 time] else []
            | _ \<Rightarrow> []))"

fun other_side :: "side \<Rightarrow> side" where
  "other_side SourceSide = HelperSide"
| "other_side HelperSide = SourceSide"

definition granted :: "wait_answer \<Rightarrow> bool" where
  "granted wait \<longleftrightarrow> wait = WaitObject \<or> wait = WaitAbandoned"

text \<open>No error of Windows is success, nor is it the abandoned mutex, which \<open>Lock\<close> reports itself.\<close>

definition error_answer :: "u32 \<Rightarrow> bool" where
  "error_answer e \<longleftrightarrow> FAILED (HRESULT_FROM_WIN32 e) \<and> HRESULT_FROM_WIN32 e \<noteq> HRESULT_FROM_WIN32 735"

fun open_errors :: "channel_call \<Rightarrow> u32 list" where
  "open_errors (CallOpen _ _ mapping mutex view) = concat (map (case_option [] (\<lambda>e. [e])) [mapping, mutex, view])"
| "open_errors _ = []"

definition answers_possible :: "wait_answer \<Rightarrow> side \<Rightarrow> channel_call \<Rightarrow> camera_system \<Rightarrow> bool" where
  "answers_possible wait who call sys \<longleftrightarrow>
     (granted wait \<longrightarrow> \<not> readLease (snd sys (other_side who))) \<and>
     (case wait of WaitError e \<Rightarrow> error_answer e | _ \<Rightarrow> True) \<and> list_all error_answer (open_errors call)"

inductive channel_reaches :: "camera_system \<Rightarrow> channel_event list \<Rightarrow> bool" where
  created: "channel_reaches
    (Shared_init, (\<lambda>_. FrameChannel_closed)
       (SourceSide := FrameChannel_closed\<lparr>mapping_open := True, mutex_open := True, view_open := True\<rparr>)) []"
| called: "channel_reaches sys log \<Longrightarrow> answers_possible wait who call sys \<Longrightarrow> perform who call wait sys = (result, bytes, sys')
    \<Longrightarrow> channel_reaches sys' (call_events call result @ log)"

text \<open>What keeps an image: only a gate that is set to what it is already, open for the same revision.\<close>

definition keeps_image :: "u64 \<Rightarrow> channel_event \<Rightarrow> bool" where
  "keeps_image r event \<longleftrightarrow> event = Gated \<lparr>gate_revision = r, gate_enabled = True\<rparr>"

fun gate_event :: "channel_event \<Rightarrow> bool" where
  "gate_event (Written _ _ _) = False"
| "gate_event _ = True"

text \<open>The last thing that happened to the gate opened it for this revision.\<close>

definition gate_open :: "u64 \<Rightarrow> channel_event list \<Rightarrow> bool" where
  "gate_open r log \<longleftrightarrow> find gate_event log = Some (Gated \<lparr>gate_revision = r, gate_enabled = True\<rparr>)"

definition image_since :: "u64 \<Rightarrow> u8 list \<Rightarrow> int \<Rightarrow> channel_event list \<Rightarrow> bool" where
  "image_since r img time log \<longleftrightarrow>
     (\<exists>newer older. log = newer @ Written r img time # older \<and> list_all (keeps_image r) newer \<and> gate_open r older)"

definition camera_inv :: "Shared \<Rightarrow> channel_event list \<Rightarrow> bool" where
  "camera_inv sh log \<longleftrightarrow>
     (enabled sh \<noteq> 0 \<longrightarrow> gate_open (revision sh) log) \<and>
     (ready sh \<noteq> 0 \<longrightarrow> enabled sh \<noteq> 0 \<and> image_since (revision sh) (image sh) (timestamp sh) log)"

lemma result_codes [simp]:
  "FAILED (HRESULT_FROM_WIN32 735)" "\<not> FAILED S_OK" "HRESULT_FROM_WIN32 735 \<noteq> S_OK" "S_OK \<noteq> HRESULT_FROM_WIN32 735"
  "E_UNEXPECTED \<noteq> HRESULT_FROM_WIN32 735" "E_INVALIDARG \<noteq> HRESULT_FROM_WIN32 735" "HRESULT_FROM_WIN32 1460 \<noteq> HRESULT_FROM_WIN32 735"
  "HRESULT_FROM_WIN32 13 \<noteq> HRESULT_FROM_WIN32 735" "FAILED (HRESULT_FROM_WIN32 13)" "FAILED (HRESULT_FROM_WIN32 1460)" "FAILED E_UNEXPECTED"
  "FAILED E_INVALIDARG" "FAILED revision_mismatch" "revision_mismatch \<noteq> HRESULT_FROM_WIN32 735" "revision_mismatch \<noteq> S_OK"
  "HRESULT_FROM_WIN32 13 \<noteq> S_OK" "HRESULT_FROM_WIN32 1460 \<noteq> S_OK"
  "E_INVALIDARG \<noteq> S_OK" "E_UNEXPECTED \<noteq> S_OK" "S_FALSE \<noteq> S_OK" "S_FALSE \<noteq> HRESULT_FROM_WIN32 735"
  by (simp_all add: FAILED_def HRESULT_FROM_WIN32_def S_OK_def S_FALSE_def E_UNEXPECTED_def E_INVALIDARG_def revision_mismatch_def)

section \<open>What a call does to the memory\<close>

definition revoked :: "Shared \<Rightarrow> Shared" where
  "revoked sh = sh\<lparr>enabled := 0, ready := 0, timestamp := 0\<rparr>"

definition gated :: "ChannelState \<Rightarrow> Shared \<Rightarrow> Shared" where
  "gated st sh =
     (if gate_revision st \<noteq> revision sh \<or> \<not> gate_enabled st
      then sh\<lparr>ready := 0, timestamp := 0, image := replicate (length (image sh)) 0\<rparr> else sh)
     \<lparr>revision := gate_revision st, enabled := (if gate_enabled st then 1 else 0)\<rparr>"

inductive memory_change :: "Shared \<Rightarrow> channel_event list \<Rightarrow> Shared \<Rightarrow> bool" where
  unchanged: "memory_change sh [] sh"
| abandoned: "memory_change sh [Revoked] (revoked sh)"
| gate: "revision sh \<le> gate_revision st \<Longrightarrow> gate_revision st = revision sh \<longrightarrow> gate_enabled st = (enabled sh \<noteq> 0)
    \<Longrightarrow> memory_change sh [Gated st] (gated st sh)"
| written: "enabled sh \<noteq> 0 \<Longrightarrow> timestamp sh < time \<Longrightarrow> length nv12 = ImageBytes
    \<Longrightarrow> memory_change sh [Written (revision sh) nv12 time] (sh\<lparr>image := nv12, timestamp := time, ready := 1\<rparr>)"

lemma error_answer_ok: "error_answer e \<Longrightarrow> HRESULT_FROM_WIN32 e \<noteq> S_OK"
  unfolding error_answer_def by (metis result_codes(2))

lemma Lock_cases:
  assumes "Lock wait ch sh = (result, sh')" "case wait of WaitError e \<Rightarrow> error_answer e | _ \<Rightarrow> True"
  obtains "result = S_OK" "sh' = sh"
  | "result = HRESULT_FROM_WIN32 735" "sh' = revoked sh"
  | "FAILED result" "result \<noteq> HRESULT_FROM_WIN32 735" "result \<noteq> S_OK" "sh' = sh"
proof (cases "\<not> mutex_open ch \<or> \<not> view_open ch \<or> readLease ch")
  case True
  then show ?thesis using that(3) assms(1) by (auto simp: Lock_def)
next
  case False
  show ?thesis
  proof (cases wait)
    case (WaitError e)
    then show ?thesis using that(3) assms False error_answer_ok [of e] by (auto simp: Lock_def error_answer_def)
  qed (use False that assms in \<open>auto simp: Lock_def revoked_def split: if_splits\<close>)
qed

lemma Open_change:
  assumes "Open n allow mapping mutex view wait sh = (result, ch, sh')"
    "answers_possible wait who (CallOpen n allow mapping mutex view) sys"
  shows "memory_change sh (call_events (CallOpen n allow mapping mutex view) result) sh'"
proof (cases "NamesAccepted n allow \<and> mapping = None \<and> mutex = None \<and> view = None")
  case True
  let ?ch = "FrameChannel_closed\<lparr>mapping_open := True, mutex_open := True, view_open := True\<rparr>"
  obtain r sh1 where l: "Lock wait ?ch sh = (r, sh1)" by (rule prod.exhaust)
  have r: "result = (if FAILED r then r else S_OK)" "sh' = sh1"
    using assms(1) True l by (auto simp: Open_def Let_def split: if_splits)
  have "case wait of WaitError e \<Rightarrow> error_answer e | _ \<Rightarrow> True" using assms(2) by (simp add: answers_possible_def)
  then show ?thesis
    using l by (elim Lock_cases [rotated]) (use r in \<open>auto simp: call_events_def intro: memory_change.intros\<close>)
next
  case False
  then have "sh' = sh \<and> result \<noteq> HRESULT_FROM_WIN32 735"
    using assms by (auto simp: Open_def answers_possible_def error_answer_def split: if_splits option.splits)
  then show ?thesis by (auto simp: call_events_def intro: unchanged)
qed

lemma SetGate_change:
  assumes "SetGate st wait ch sh = (result, sh')" "case wait of WaitError e \<Rightarrow> error_answer e | _ \<Rightarrow> True"
  shows "memory_change sh (call_events (CallGate st) result) sh'"
proof (cases "gate_revision st = 0")
  case True
  then show ?thesis using assms(1) by (auto simp: SetGate_def call_events_def intro: unchanged)
next
  case False
  obtain r sh1 where l: "Lock wait ch sh = (r, sh1)" by (rule prod.exhaust)
  show ?thesis
    using assms(2) l
  proof (elim Lock_cases [rotated])
    assume "r = S_OK" "sh1 = sh"
    then have s: "SetGate st wait ch sh =
      (if gate_revision st < revision sh \<or> gate_revision st = revision sh \<and> gate_enabled st \<noteq> (enabled sh \<noteq> 0)
       then (revision_mismatch, sh) else (S_OK, gated st sh))"
      using False l by (simp add: SetGate_def gated_def Let_def)
    show ?thesis
      using assms(1) unfolding s by (auto simp: call_events_def split: if_splits intro!: unchanged gate)
  qed (use False l assms(1) in \<open>auto simp: SetGate_def call_events_def intro: memory_change.intros\<close>)
qed

lemma WriteFrame_change:
  assumes "WriteFrame r nv12 time wait ch sh = (result, sh')" "case wait of WaitError e \<Rightarrow> error_answer e | _ \<Rightarrow> True"
  shows "memory_change sh (call_events (CallWrite r nv12 time) result) sh'"
proof (cases "length nv12 \<noteq> ImageBytes \<or> time \<le> 0")
  case True
  then show ?thesis using assms(1) by (auto simp: WriteFrame_def call_events_def intro: unchanged)
next
  case False
  obtain res sh1 where l: "Lock wait ch sh = (res, sh1)" by (rule prod.exhaust)
  show ?thesis
    using assms(2) l
  proof (elim Lock_cases [rotated])
    assume "res = S_OK" "sh1 = sh"
    then have s: "WriteFrame r nv12 time wait ch sh =
      (if enabled sh = 0 \<or> r \<noteq> revision sh then (revision_mismatch, sh) else if time \<le> timestamp sh then (S_FALSE, sh)
       else (S_OK, sh\<lparr>image := nv12, timestamp := time, ready := 1\<rparr>))"
      using False l by (simp add: WriteFrame_def Let_def)
    show ?thesis
      using assms(1) False unfolding s by (auto simp: call_events_def split: if_splits intro!: unchanged written)
  qed (use False l assms(1) in \<open>auto simp: WriteFrame_def call_events_def intro: memory_change.intros\<close>)
qed


lemma memory_change_inv:
  assumes "memory_change sh events sh'" "camera_inv sh log"
  shows "camera_inv sh' (events @ log)"
  using assms
proof cases
  case (gate st)
  have kept: "image_since (revision sh) (image sh) (timestamp sh) (Gated st # log)"
    if old: "image_since (revision sh) (image sh) (timestamp sh) log" and same: "gate_revision st = revision sh" "gate_enabled st"
  proof -
    obtain newer older where "log = newer @ Written (revision sh) (image sh) (timestamp sh) # older"
      "list_all (keeps_image (revision sh)) newer" "gate_open (revision sh) older"
      using old unfolding image_since_def by blast
    then show ?thesis
      using same unfolding image_since_def by (intro exI [of _ "Gated st # newer"] exI [of _ older]) (simp add: keeps_image_def)
  qed
  show ?thesis
    using assms(2) gate kept by (auto simp: camera_inv_def gated_def gate_open_def split: if_splits)
next
  case (written time nv12)
  have "gate_open (revision sh) log" using assms(2) written by (simp add: camera_inv_def)
  moreover from this have "gate_open (revision sh) (Written (revision sh) nv12 time # log)" by (simp add: gate_open_def)
  moreover have "image_since (revision sh) nv12 time (Written (revision sh) nv12 time # log)"
    unfolding image_since_def using calculation(1) by (intro exI [of _ "[]"] exI [of _ log]) simp
  ultimately show ?thesis using written by (simp add: camera_inv_def)
qed (simp_all add: camera_inv_def revoked_def)

lemma perform_change:
  assumes "perform who call wait sys = (result, bytes, sys')" "answers_possible wait who call sys"
  shows "memory_change (fst sys) (call_events call result) (fst sys')"
proof -
  obtain sh chs where sys: "sys = (sh, chs)" by (rule prod.exhaust)
  have w: "case wait of WaitError e \<Rightarrow> error_answer e | _ \<Rightarrow> True" using assms(2) by (simp add: answers_possible_def)
  show ?thesis
  proof (cases call)
    case (CallOpen n allow mapping mutex view)
    then show ?thesis
      using assms Open_change [of n allow mapping mutex view wait sh _ _ _ who sys]
      by (auto simp: sys split: prod.splits)
  next
    case CallState
    obtain r sh1 where l: "Lock wait (chs who) sh = (r, sh1)" by (rule prod.exhaust)
    show ?thesis
      using w l by (elim Lock_cases [rotated])
        (use assms(1) l CallState in \<open>auto simp: sys GetState_def call_events_def intro: memory_change.intros\<close>)
  next
    case (CallRead capacity pitch now)
    obtain r sh1 where l: "Lock wait (chs who) sh = (r, sh1)" by (rule prod.exhaust)
    show ?thesis
      using w l by (elim Lock_cases [rotated])
        (use assms(1) l CallRead in \<open>auto simp: sys ReadFrame_def call_events_def split: option.splits if_splits
           intro: memory_change.intros\<close>)
  next
    case (CallGate st)
    then show ?thesis using assms(1) SetGate_change [OF _ w] by (auto simp: sys split: prod.splits)
  next
    case (CallWrite r nv12 time)
    then show ?thesis using assms(1) WriteFrame_change [OF _ w] by (auto simp: sys split: prod.splits)
  qed (use assms(1) in \<open>auto simp: sys call_events_def intro: unchanged\<close>)
qed

lemma channel_reaches_inv: "channel_reaches sys log \<Longrightarrow> camera_inv (fst sys) log"
proof (induction rule: channel_reaches.induct)
  case created
  show ?case by (simp add: camera_inv_def Shared_init_def)
next
  case (called sys log wait who call result bytes sys')
  then show ?case using memory_change_inv perform_change by blast
qed

lemma ReadFrame_shows:
  assumes "perform who (CallRead capacity pitch now) wait (sh, chs) = (S_OK, bytes, sys')"
    "answers_possible wait who (CallRead capacity pitch now) (sh, chs)"
  shows "bytes = frame_text (if live sh now then Some (image sh) else None) (nat pitch)"
proof -
  have w: "case wait of WaitError e \<Rightarrow> error_answer e | _ \<Rightarrow> True" using assms(2) by (simp add: answers_possible_def)
  obtain r sh1 where l: "Lock wait (chs who) sh = (r, sh1)" by (rule prod.exhaust)
  show ?thesis
    using w l by (elim Lock_cases [rotated])
      (use assms(1) l in \<open>auto simp: ReadFrame_def split: option.splits if_splits prod.splits\<close>)
qed

section \<open>What an app sees\<close>

text \<open>C3: the camera gate holds: whatever the two processes call and in whatever order, a frame that is read is the black
frame, or the image of the last write, which was accepted under the revision the gate was last opened for, is at most a
quarter of a second old, and since which the gate was neither closed, nor moved to another revision, nor lost its helper.\<close>

theorem shown_frame_is_current:
  assumes "channel_reaches sys log" "answers_possible wait who (CallRead capacity pitch now) sys"
    "perform who (CallRead capacity pitch now) wait sys = (S_OK, bytes, sys')"
  shows "bytes = frame_text None (nat pitch) \<or>
    (\<exists>r img time newer older. log = newer @ Written r img time # older \<and>
       (\<forall>event \<in> set newer. event = Gated \<lparr>gate_revision = r, gate_enabled = True\<rparr>) \<and>
       find gate_event older = Some (Gated \<lparr>gate_revision = r, gate_enabled = True\<rparr>) \<and>
       time \<le> now \<and> now \<le> time + 2500000 \<and> bytes = frame_text (Some img) (nat pitch))"
proof -
  obtain sh chs where sys: "sys = (sh, chs)" by (rule prod.exhaust)
  have b: "bytes = frame_text (if live sh now then Some (image sh) else None) (nat pitch)"
    using ReadFrame_shows assms(2,3) unfolding sys by blast
  show ?thesis
  proof (cases "live sh now")
    case True
    then have "image_since (revision sh) (image sh) (timestamp sh) log"
      using channel_reaches_inv [OF assms(1)] by (simp add: sys camera_inv_def live_def)
    then obtain newer older where
      "log = newer @ Written (revision sh) (image sh) (timestamp sh) # older"
      "list_all (keeps_image (revision sh)) newer" "gate_open (revision sh) older"
      unfolding image_since_def by blast
    with b True show ?thesis
      by (intro disjI2 exI [of _ "revision sh"] exI [of _ "image sh"] exI [of _ "timestamp sh"] exI [of _ newer]
            exI [of _ older]) (simp add: list_all_iff keeps_image_def gate_open_def live_def MaximumFrameAge_def)
  qed (simp add: b)
qed


lemma object_name_length: "length (object_name scope mutex) = length scope + (if mutex then 19 else 20)"
  by (simp add: object_name_def)

lemma object_name_first: "scope \<noteq> [] \<Longrightarrow> (object_name scope mutex @ t) ! 0 = of_nat (code (hd scope))"
  by (cases scope) (simp_all add: object_name_def W_simps)

text \<open>A name is valid when it is a prefix and a GUID; the prefixes of the two namespaces exclude each other.\<close>

definition scope_allowed :: "bool \<Rightarrow> string \<Rightarrow> bool" where
  "scope_allowed allowLocal scope \<longleftrightarrow> scope = ''Global'' \<or> allowLocal \<and> scope = ''Local''"

lemma local_is_not_global: "\<not> starts_with (object_name ''Local'' mutex @ t) (object_name ''Global'' mutex')"
  by (simp add: starts_with_iff object_name_def W_simps code_def)

lemma ValidName_iff:
  "ValidName value mutex allow \<longleftrightarrow>
     (\<exists>scope guid. scope_allowed allow scope \<and> guid_text guid \<and> value = object_name scope mutex @ guid)" (is "_ \<longleftrightarrow> ?R")
proof
  assume "ValidName value mutex allow"
  then consider "starts_with value (object_name ''Global'' mutex)" "guid_text (drop (length (object_name ''Global'' mutex)) value)"
    | "allow" "starts_with value (object_name ''Local'' mutex)" "guid_text (drop (length (object_name ''Local'' mutex)) value)"
    by (auto simp: ValidName_def split: if_splits)
  then show ?R
    by cases (auto simp: scope_allowed_def starts_with_def, (metis append_take_drop_id)+)
next
  assume ?R
  then obtain scope guid where v: "scope_allowed allow scope" "guid_text guid" "value = object_name scope mutex @ guid" by blast
  then show "ValidName value mutex allow"
    using local_is_not_global [of mutex guid mutex]
    by (auto simp: ValidName_def scope_allowed_def starts_with_iff)
qed

lemma guid_length: "guid_text guid \<Longrightarrow> length guid = 38"
  by (simp add: guid_text_def)

lemma NamesAccepted_iff:
  "NamesAccepted names allow \<longleftrightarrow>
     wcsnlen (mapping_name names) < length (mapping_name names) \<and> wcsnlen (mutex_name names) < length (mutex_name names) \<and>
     (\<exists>scope guid. (scope = ''Global'' \<or> allow \<and> scope = ''Local'') \<and> guid_text guid \<and>
        take (wcsnlen (mapping_name names)) (mapping_name names) = object_name scope False @ guid \<and>
        take (wcsnlen (mutex_name names)) (mutex_name names) = object_name scope True @ guid)"
  (is "_ \<longleftrightarrow> ?m < length ?a \<and> ?n < length ?b \<and> ?R")
proof
  assume acc: "NamesAccepted names allow"
  have len: "wcsnlen a \<le> length a" for a
    by (auto simp: wcsnlen_def index_of_Some split: option.splits)
  note a = acc [unfolded NamesAccepted_def Let_def]
  obtain s1 g1 s2 g2 where v: "scope_allowed allow s1" "guid_text g1" "take ?m ?a = object_name s1 False @ g1"
    "scope_allowed allow s2" "guid_text g2" "take ?n ?b = object_name s2 True @ g2"
    using a ValidName_iff by metis
  have l: "?m < length ?a" "?n < length ?b" using a len [of ?a] len [of ?b] by auto
  have "length (take ?m ?a) = ?m" "length (take ?n ?b) = ?n" using l by auto
  then have "g1 = g2"
    using a guid_length [OF v(2)] guid_length [OF v(5)] unfolding v(3,6) by (simp add: object_name_length)
  moreover have "s1 = s2"
  proof -
    have "?m \<noteq> 0" "?n \<noteq> 0"
      using arg_cong [OF v(3), of length] arg_cong [OF v(6), of length] l guid_length [OF v(2)] guid_length [OF v(5)] by auto
    then have "?a ! 0 = (take ?m ?a) ! 0" "?b ! 0 = (take ?n ?b) ! 0" by simp_all
    then have "(object_name s1 False @ g1) ! 0 = (object_name s2 True @ g2) ! 0" using a v(3,6) by simp
    then show ?thesis using v(1,4) by (auto simp: scope_allowed_def object_name_first code_def)
  qed
  ultimately show "?m < length ?a \<and> ?n < length ?b \<and> ?R" using l v by (auto simp: scope_allowed_def)
next
  assume r: "?m < length ?a \<and> ?n < length ?b \<and> ?R"
  then obtain scope guid where v: "scope_allowed allow scope" "guid_text guid"
    "take ?m ?a = object_name scope False @ guid" "take ?n ?b = object_name scope True @ guid"
    unfolding scope_allowed_def by blast
  have m: "length (take ?m ?a) = ?m" "length (take ?n ?b) = ?n" using r by auto
  have d: "drop (?m - 38) (take ?m ?a) = guid" "drop (?n - 38) (take ?n ?b) = guid"
    using m guid_length [OF v(2)] unfolding v(3,4) by auto
  have "?m \<noteq> 0" "?n \<noteq> 0"
    using arg_cong [OF v(3), of length] arg_cong [OF v(4), of length] m guid_length [OF v(2)] by auto
  then have "?a ! 0 = (take ?m ?a) ! 0" "?b ! 0 = (take ?n ?b) ! 0" by simp_all
  moreover have "scope \<noteq> []" using v(1) by (auto simp: scope_allowed_def)
  ultimately have "?a ! 0 = ?b ! 0" using object_name_first unfolding v(3,4) by simp
  then show "NamesAccepted names allow"
    using r d v ValidName_iff unfolding NamesAccepted_def Let_def by auto
qed


text \<open>A helper opens a channel only by a pair of names that belong together: the frame and the lock of one namespace and
one GUID, in the global namespace unless the test namespace is allowed.\<close>

theorem opened_names_belong_together:
  "NamesAccepted names allow \<longleftrightarrow>
     wcsnlen (mapping_name names) < length (mapping_name names) \<and> wcsnlen (mutex_name names) < length (mutex_name names) \<and>
     (\<exists>scope guid. (scope = ''Global'' \<or> allow \<and> scope = ''Local'') \<and> guid_text guid \<and>
        take (wcsnlen (mapping_name names)) (mapping_name names) = object_name scope False @ guid \<and>
        take (wcsnlen (mutex_name names)) (mutex_name names) = object_name scope True @ guid)"
  by (rule NamesAccepted_iff)

text \<open>A channel in use: the helper opens it, the source opens the gate, the helper writes a frame, an app reads it.\<close>

definition test_guid :: wstring where
  "test_guid = W (''{00112233-4455-6677-8899-AABBCCDDEEFF}'')"

definition opened_channel :: FrameChannel where
  "opened_channel = FrameChannel_closed\<lparr>mapping_open := True, mutex_open := True, view_open := True\<rparr>"

definition grey :: "u8 list" where "grey = replicate ImageBytes 90"

definition gate_one :: ChannelState where "gate_one = \<lparr>gate_revision = 2, gate_enabled = True\<rparr>"

lemma NewNames_accepted:
  assumes "guid_text guid" "0 \<notin> set guid" "allow \<or> \<not> local"
  shows "NamesAccepted (NewNames local guid) allow"
proof -
  have at: "index_of 0 (s @ 0 # t) = Some (length s)" if "0 \<notin> set s" for s t :: wstring
    using that by (induction s) auto
  have nz: "0 \<notin> set (object_name scope mutex @ guid)" if "scope_allowed True scope" for scope mutex
    using that assms(2) by (auto simp: object_name_def W_simps scope_allowed_def code_def)
  have len: "wcsnlen (name_array s) = length s \<and> length s < length (name_array s) \<and> take (length s) (name_array s) = s"
    if "0 \<notin> set s" "length s < 128" for s
  proof -
    have "replicate (kNameCharacters - length s) (0::u16) = 0 # replicate (127 - length s) 0"
      using that(2) by (simp add: kNameCharacters_def flip: replicate_Suc)
    then show ?thesis using at [OF that(1)] that(2) by (simp add: wcsnlen_def name_array_def)
  qed
  define s where "s = (if local then ''Local'' else ''Global'')"
  have a: "mapping_name (NewNames local guid) = name_array (object_name s False @ guid)"
    "mutex_name (NewNames local guid) = name_array (object_name s True @ guid)"
    by (simp_all add: NewNames_def s_def Let_def)
  have "scope_allowed True s" by (simp add: scope_allowed_def s_def)
  moreover have "length (object_name s mutex @ guid) < 128" for mutex
    using guid_length [OF assms(1)] by (simp add: object_name_length s_def)
  ultimately have n: "wcsnlen (name_array (object_name s mutex @ guid)) = length (object_name s mutex @ guid) \<and>
    length (object_name s mutex @ guid) < length (name_array (object_name s mutex @ guid)) \<and>
    take (length (object_name s mutex @ guid)) (name_array (object_name s mutex @ guid)) = object_name s mutex @ guid" for mutex
    using len nz by blast
  have ok: "s = ''Global'' \<or> allow \<and> s = ''Local''" using assms(3) by (auto simp: s_def)
  show ?thesis
    unfolding NamesAccepted_iff a
    using n [of True] n [of False] ok assms(1)
    by (intro conjI exI [of _ s] exI [of _ guid]) (simp_all only:)
qed

definition write_of_grey :: "Shared \<Rightarrow> Shared" where
  "write_of_grey sh = sh\<lparr>image := grey, timestamp := 100, ready := 1\<rparr>"

definition grey_system :: camera_system where
  "grey_system = (write_of_grey (gated gate_one Shared_init),
     (\<lambda>_. FrameChannel_closed)(SourceSide := opened_channel,
       HelperSide := opened_channel\<lparr>channel_names := Some (NewNames False test_guid)\<rparr>))"

definition grey_log :: "channel_event list" where
  "grey_log = [Written 2 grey 100, Gated gate_one]"

lemma Valid_init: "Valid opened_channel Shared_init"
  by (simp add: Valid_def opened_channel_def FrameChannel_closed_def Shared_init_def)

lemma grey_reached: "channel_reaches grey_system grey_log"
proof -
  have g: "NamesAccepted (NewNames False test_guid) False"
    by (rule NewNames_accepted) (simp_all add: test_guid_def guid_text_def wide_hex_def W_simps code_def upt_rec)
  let ?chs = "(\<lambda>_. FrameChannel_closed)(SourceSide := opened_channel)"
  let ?opened = "opened_channel\<lparr>channel_names := Some (NewNames False test_guid)\<rparr>"
  let ?call = "CallOpen (NewNames False test_guid) False None None None"
  have 1: "channel_reaches (Shared_init, ?chs) []" using created by (simp add: opened_channel_def)
  have "perform HelperSide ?call WaitObject (Shared_init, ?chs) = (S_OK, [], Shared_init, ?chs(HelperSide := ?opened))"
    using g Valid_init by (simp add: Open_def Lock_def opened_channel_def FrameChannel_closed_def)
  moreover have "answers_possible WaitObject HelperSide ?call (Shared_init, ?chs)"
    by (simp add: answers_possible_def opened_channel_def FrameChannel_closed_def)
  ultimately have 2: "channel_reaches (Shared_init, ?chs(HelperSide := ?opened)) []"
    using called [OF 1] by (fastforce simp: call_events_def)
  have "perform SourceSide (CallGate gate_one) WaitObject (Shared_init, ?chs(HelperSide := ?opened)) =
      (S_OK, [], gated gate_one Shared_init, ?chs(HelperSide := ?opened))"
    using Valid_init by (simp add: SetGate_def Lock_def opened_channel_def FrameChannel_closed_def gate_one_def Shared_init_def gated_def)
  moreover have "answers_possible WaitObject SourceSide (CallGate gate_one) (Shared_init, ?chs(HelperSide := ?opened))"
    by (simp add: answers_possible_def opened_channel_def FrameChannel_closed_def)
  ultimately have 3: "channel_reaches (gated gate_one Shared_init, ?chs(HelperSide := ?opened)) [Gated gate_one]"
    using called [OF 2] by (fastforce simp: call_events_def)
  have "perform HelperSide (CallWrite 2 grey 100) WaitObject (gated gate_one Shared_init, ?chs(HelperSide := ?opened)) =
      (S_OK, [], grey_system)"
    by (simp add: WriteFrame_def Lock_def Valid_def opened_channel_def FrameChannel_closed_def gate_one_def Shared_init_def
          gated_def grey_def grey_system_def write_of_grey_def fun_upd_def)
  moreover have "answers_possible WaitObject HelperSide (CallWrite 2 grey 100)
      (gated gate_one Shared_init, ?chs(HelperSide := ?opened))"
    by (simp add: answers_possible_def opened_channel_def FrameChannel_closed_def)
  ultimately show ?thesis
    using called [OF 3] by (fastforce simp: call_events_def grey_log_def)
qed

lemma grey_read:
  "\<exists>sys'. perform SourceSide (CallRead (Some 2000000) 1280 200) WaitObject grey_system = (S_OK, frame_text (Some grey) 1280, sys')"
  by (simp add: ReadFrame_def Lock_def Valid_def opened_channel_def FrameChannel_closed_def gate_one_def Shared_init_def
        gated_def grey_system_def write_of_grey_def live_def MaximumFrameAge_def FrameWidth_def FrameHeight_def)

theorem shown_frame_is_current_witness:
  "\<exists>sys'. perform SourceSide (CallRead (Some 2000000) 1280 200) WaitObject grey_system = (S_OK, frame_text (Some grey) 1280, sys') \<and>
     (frame_text (Some grey) 1280 = frame_text None 1280 \<or>
      (\<exists>r img time. Written r img time \<in> set grey_log \<and> frame_text (Some grey) 1280 = frame_text (Some img) 1280))"
proof -
  obtain sys' where r: "perform SourceSide (CallRead (Some 2000000) 1280 200) WaitObject grey_system =
      (S_OK, frame_text (Some grey) 1280, sys')" using grey_read by blast
  have "answers_possible WaitObject SourceSide (CallRead (Some 2000000) 1280 200) grey_system"
    by (simp add: answers_possible_def grey_system_def opened_channel_def FrameChannel_closed_def)
  from shown_frame_is_current [OF grey_reached this r]
  have "frame_text (Some grey) 1280 = frame_text None 1280 \<or>
      (\<exists>r img time. Written r img time \<in> set grey_log \<and> frame_text (Some grey) 1280 = frame_text (Some img) 1280)"
    by (auto simp del: frame_text_def) (metis in_set_conv_decomp)
  with r show ?thesis by blast
qed

end
