(* ===== verification/Launch_Worker.thy ===== *)
theory Launch_Worker
  imports Text_Prelude Work_Lane
begin

text \<open>
  \<open>RedXe/LaunchWorker\<close>: the thread that starts programs for the UI thread. Requests go through a ring of eight slots in
  the order they are accepted. The calls of the UI thread and the turns of the worker are steps over one state, each as
  long as the code holds the slot lock or runs without a wait; what Windows answers (thread creation, waits, the launch
  itself) is an argument of the step.
\<close>

section \<open>Requests\<close>

datatype LaunchKind = Shell | Process

record Request =
  launch_kind :: LaunchKind
  fileFolder :: bool
  file_text :: wstring
  commandLine :: wstring
  directory :: wstring

text \<open>
  What \<open>Launch\<close> asks of Windows: the attributes of a file (\<open>None\<close> when it cannot be read), and a start with a working
  directory (\<open>None\<close> for the default one) that fails with an error or not at all.
\<close>

record launch_env =
  file_attributes :: "wstring \<Rightarrow> u32 option"
  create_process :: "wstring \<Rightarrow> wstring \<Rightarrow> wstring option \<Rightarrow> u32 option"
  shell_execute :: "wstring \<Rightarrow> wstring option \<Rightarrow> u32 option"

definition launch_result :: "u32 option \<Rightarrow> hresult" where
  "launch_result answer = (case answer of None \<Rightarrow> S_OK | Some e \<Rightarrow> HRESULT_FROM_WIN32 e)"

definition own_folder :: "wstring \<Rightarrow> wstring" where
  "own_folder path =
     (case last_index_of 92 path of
        Some i \<Rightarrow> take i path
      | None \<Rightarrow> (case last_index_of 47 path of Some i \<Rightarrow> take i path | None \<Rightarrow> []))"

definition optional_text :: "wstring \<Rightarrow> wstring option" where
  "optional_text s = (if s = [] then None else Some s)"

definition Launch :: "launch_env \<Rightarrow> Request \<Rightarrow> hresult" where
  "Launch env r =
     (case launch_kind r of
        Process \<Rightarrow> launch_result (create_process env (file_text r) (commandLine r) (optional_text (directory r)))
      | Shell \<Rightarrow>
          (let folder =
             (if fileFolder r \<and> directory r = [] then
                (case file_attributes env (file_text r) of
                   Some attributes \<Rightarrow> if attributes AND 0x10 = 0 then own_folder (file_text r) else directory r
                 | None \<Rightarrow> directory r)
              else directory r)
           in launch_result (shell_execute env (file_text r) (optional_text folder))))"

section \<open>State\<close>

definition kSlots :: nat where "kSlots = 8"

record LaunchSlot =
  request :: Request
  slot_state :: SlotState
  slot_result :: hresult

text \<open>Where the worker is; \<open>Exited\<close> has returned and is still to be joined.\<close>

datatype launch_pc = Unstarted | Waiting | Taking | Launching nat | Publishing nat hresult | Notifying | Exited

datatype ui_pc = UiIdle | UiWaking | UiStopping u32

datatype LaunchStopResult = Stopped | Exiting | LaunchInProgress

record LaunchWorker =
  slots :: "LaunchSlot list"
  head :: nat
  slot_count :: nat
  stop_event :: bool
  wake_event :: bool
  waitedOut :: bool
  worker_at :: launch_pc
  ui_at :: ui_pc

definition joinable :: "LaunchWorker \<Rightarrow> bool" where
  "joinable w \<longleftrightarrow> worker_at w \<noteq> Unstarted"

definition ring_index :: "LaunchWorker \<Rightarrow> nat \<Rightarrow> nat" where
  "ring_index w offset = (head w + offset) mod kSlots"

section \<open>Operations\<close>

text \<open>
  \<open>Enqueue\<close>: \<open>start\<close> is the outcome of creating the events and the thread when none runs. An accepted request leaves the
  wake event to be set after the lock.
\<close>

definition Enqueue :: "Request \<Rightarrow> hresult \<Rightarrow> LaunchWorker \<Rightarrow> hresult \<times> LaunchWorker" where
  "Enqueue r start w =
     (if joinable w \<and> stop_event w then (E_UNEXPECTED, w)
      else if \<not> joinable w \<and> FAILED start then (start, w)
      else
        (let w = (if joinable w then w else w\<lparr>worker_at := Waiting\<rparr>)
         in if slot_count w = kSlots then (HRESULT_FROM_WIN32 170, w)
            else (S_OK, w\<lparr>slots := (slots w)[ring_index w (slot_count w) :=
                                     \<lparr>request = r, slot_state = Queued, slot_result = S_OK\<rparr>],
                          slot_count := slot_count w + 1, ui_at := UiWaking\<rparr>)))"

definition EnqueueWake :: "LaunchWorker \<Rightarrow> LaunchWorker" where
  "EnqueueWake w = w\<lparr>wake_event := True, ui_at := UiIdle\<rparr>"

text \<open>One turn of \<open>DrainCompletions\<close>: the record it logs, \<open>None\<close> where the loop ends.\<close>

definition DrainOne :: "LaunchWorker \<Rightarrow> (Request \<times> hresult) option \<times> LaunchWorker" where
  "DrainOne w =
     (if slot_count w = 0 \<or> slot_state (slots w ! head w) \<noteq> Complete then (None, w)
      else (Some (request (slots w ! head w), slot_result (slots w ! head w)),
            w\<lparr>slots := (slots w)[head w := (slots w ! head w)\<lparr>slot_state := Empty\<rparr>],
              head := (head w + 1) mod kSlots, slot_count := slot_count w - 1\<rparr>))"

text \<open>
  \<open>Stop\<close>: the wait for the thread ends with the thread gone (\<open>StopJoin\<close>) or with its time run out (\<open>StopTimeout\<close>).
\<close>

definition StopBegin :: "u32 \<Rightarrow> LaunchWorker \<Rightarrow> LaunchStopResult option \<times> LaunchWorker" where
  "StopBegin timeout w =
     (if \<not> joinable w then (Some Stopped, w)
      else (None, w\<lparr>stop_event := True, ui_at := UiStopping (if waitedOut w then 0 else timeout)\<rparr>))"

definition StopJoin :: "LaunchWorker \<Rightarrow> LaunchStopResult \<times> LaunchWorker" where
  "StopJoin w =
     (Stopped, w\<lparr>slots := map (\<lambda>s. s\<lparr>slot_state := Empty\<rparr>) (slots w), head := 0, slot_count := 0, waitedOut := False,
                 stop_event := False, worker_at := Unstarted, ui_at := UiIdle\<rparr>)"

definition StopTimeout :: "u32 \<Rightarrow> LaunchWorker \<Rightarrow> LaunchStopResult \<times> LaunchWorker" where
  "StopTimeout wait w =
     (let launching = list_ex (\<lambda>s. slot_state s = Running) (slots w)
      in (if launching then LaunchInProgress else Exiting,
          w\<lparr>waitedOut := waitedOut w \<or> launching \<or> wait \<noteq> 0, ui_at := UiIdle\<rparr>))"

section \<open>The worker\<close>

definition WorkerWait :: "bool \<Rightarrow> LaunchWorker \<Rightarrow> LaunchWorker" where
  "WorkerWait failed w =
     (if stop_event w \<or> failed then w\<lparr>worker_at := Exited\<rparr>
      else if wake_event w then w\<lparr>wake_event := False, worker_at := Taking\<rparr>
      else w)"

definition WorkerTake :: "LaunchWorker \<Rightarrow> LaunchWorker" where
  "WorkerTake w =
     (if stop_event w then w\<lparr>worker_at := Exited\<rparr>
      else (case find (\<lambda>offset. slot_state (slots w ! ring_index w offset) = Queued) [0..<slot_count w] of
              None \<Rightarrow> w\<lparr>worker_at := Waiting\<rparr>
            | Some offset \<Rightarrow>
                (let i = ring_index w offset
                 in w\<lparr>slots := (slots w)[i := (slots w ! i)\<lparr>slot_state := Running\<rparr>], worker_at := Launching i\<rparr>)))"

definition WorkerLaunch :: "nat \<Rightarrow> hresult \<Rightarrow> LaunchWorker \<Rightarrow> LaunchWorker" where
  "WorkerLaunch i hr w = w\<lparr>worker_at := Publishing i hr\<rparr>"

definition WorkerPublish :: "nat \<Rightarrow> hresult \<Rightarrow> LaunchWorker \<Rightarrow> LaunchWorker" where
  "WorkerPublish i hr w =
     w\<lparr>slots := (slots w)[i := (slots w ! i)\<lparr>slot_result := hr, slot_state := Complete\<rparr>], worker_at := Notifying\<rparr>"

definition WorkerNotify :: "LaunchWorker \<Rightarrow> LaunchWorker" where
  "WorkerNotify w = w\<lparr>worker_at := Taking\<rparr>"

section \<open>Steps\<close>

text \<open>What happens to a request.\<close>

datatype launch_event = Accepted Request | Launched Request hresult | Logged Request hresult

definition LaunchWorker_init :: LaunchWorker where
  "LaunchWorker_init =
     \<lparr>slots = replicate kSlots \<lparr>request = \<lparr>launch_kind = Shell, fileFolder = False, file_text = [], commandLine = [],
                                          directory = []\<rparr>, slot_state = Empty, slot_result = S_OK\<rparr>,
      head = 0, slot_count = 0, stop_event = False, wake_event = False, waitedOut = False, worker_at = Unstarted,
      ui_at = UiIdle\<rparr>"

text \<open>The worker launches with \<open>_perform\<close>, which tests replace: its result is any.\<close>

inductive launch_step :: "LaunchWorker \<Rightarrow> launch_event list \<Rightarrow> LaunchWorker \<Rightarrow> bool" where
  enqueue: "ui_at w = UiIdle \<Longrightarrow> Enqueue r start w = (hr, w')
    \<Longrightarrow> launch_step w (if hr = S_OK then [Accepted r] else []) w'"
| wake: "ui_at w = UiWaking \<Longrightarrow> launch_step w [] (EnqueueWake w)"
| drain: "ui_at w = UiIdle \<Longrightarrow> DrainOne w = (logged, w')
    \<Longrightarrow> launch_step w (case logged of None \<Rightarrow> [] | Some (r, hr) \<Rightarrow> [Logged r hr]) w'"
| stop: "ui_at w = UiIdle \<Longrightarrow> StopBegin timeout w = (answer, w') \<Longrightarrow> launch_step w [] w'"
| joined: "ui_at w = UiStopping wait \<Longrightarrow> worker_at w = Exited \<Longrightarrow> StopJoin w = (answer, w') \<Longrightarrow> launch_step w [] w'"
| timed_out: "ui_at w = UiStopping wait \<Longrightarrow> StopTimeout wait w = (answer, w') \<Longrightarrow> launch_step w [] w'"
| wait: "worker_at w = Waiting \<Longrightarrow> launch_step w [] (WorkerWait failed w)"
| take_slot: "worker_at w = Taking \<Longrightarrow> launch_step w [] (WorkerTake w)"
| launch: "worker_at w = Launching i \<Longrightarrow> launch_step w [Launched (request (slots w ! i)) hr] (WorkerLaunch i hr w)"
| publish: "worker_at w = Publishing i hr \<Longrightarrow> launch_step w [] (WorkerPublish i hr w)"
| notify: "worker_at w = Notifying \<Longrightarrow> launch_step w [] (WorkerNotify w)"

inductive launch_reaches :: "LaunchWorker \<Rightarrow> launch_event list \<Rightarrow> bool" where
  start: "launch_reaches LaunchWorker_init []"
| step: "launch_reaches w log \<Longrightarrow> launch_step w events w' \<Longrightarrow> launch_reaches w' (log @ events)"

section \<open>The ring\<close>

text \<open>The slots from \<open>_head\<close>: first the ring, then the free slots.\<close>

definition from_head :: "LaunchWorker \<Rightarrow> LaunchSlot list" where
  "from_head w = rotate (head w) (slots w)"

definition complete_slot :: "Request \<times> hresult \<Rightarrow> LaunchSlot" where
  "complete_slot d = \<lparr>request = fst d, slot_state = Complete, slot_result = snd d\<rparr>"

definition fresh_slot :: "SlotState \<Rightarrow> Request \<Rightarrow> LaunchSlot" where
  "fresh_slot st r = \<lparr>request = r, slot_state = st, slot_result = S_OK\<rparr>"

definition ring_is :: "LaunchWorker \<Rightarrow> (Request \<times> hresult) list \<Rightarrow> Request list \<Rightarrow> Request list \<Rightarrow> LaunchSlot list \<Rightarrow> bool" where
  "ring_is w finished running queued free \<longleftrightarrow>
     length (slots w) = kSlots \<and> head w < kSlots \<and>
     from_head w = map complete_slot finished @ map (fresh_slot Running) running @ map (fresh_slot Queued) queued @ free \<and>
     slot_count w = length finished + length running + length queued \<and>
     list_all (\<lambda>s. slot_state s = Empty) free \<and>
     (case worker_at w of
        Launching i \<Rightarrow> i = ring_index w (length finished) \<and> length running = 1
      | Publishing i hr \<Rightarrow> i = ring_index w (length finished) \<and> length running = 1
      | _ \<Rightarrow> running = [])"

lemma from_head_nth: "length (slots w) = kSlots \<Longrightarrow> k < kSlots \<Longrightarrow> from_head w ! k = slots w ! ring_index w k"
  by (simp add: from_head_def ring_index_def nth_rotate)

lemma from_head_update:
  "length (slots w) = kSlots \<Longrightarrow> k < kSlots \<Longrightarrow> head w' = head w \<Longrightarrow> slots w' = (slots w)[ring_index w k := x] \<Longrightarrow>
     from_head w' = (from_head w)[k := x]"
  using rotate_update [of k "slots w" "head w" x] by (simp add: from_head_def ring_index_def)

lemma ring_lengths:
  assumes "ring_is w finished running queued free"
  shows "length (from_head w) = kSlots" "slot_count w + length free = kSlots" "slot_count w \<le> kSlots"
proof -
  have "length (slots w) = kSlots" using assms unfolding ring_is_def by blast
  then show l: "length (from_head w) = kSlots" by (simp add: from_head_def)
  have e: "from_head w = map complete_slot finished @ map (fresh_slot Running) running @ map (fresh_slot Queued) queued @ free"
    using assms unfolding ring_is_def by blast
  have "slot_count w = length finished + length running + length queued" using assms unfolding ring_is_def by blast
  then show "slot_count w + length free = kSlots" using arg_cong [OF e, of length] l by simp
  then show "slot_count w \<le> kSlots" by simp
qed

lemma Enqueue_ring:
  assumes "ring_is w finished running queued free" "Enqueue r start w = (hr, w')"
  shows "\<exists>free'. ring_is w' finished running (queued @ (if hr = S_OK then [r] else [])) free'"
proof (cases "joinable w \<and> stop_event w \<or> \<not> joinable w \<and> FAILED start \<or> slot_count w = kSlots")
  case True
  have "FAILED start \<Longrightarrow> start \<noteq> S_OK" by (auto simp: FAILED_def S_OK_def)
  then have "w' = w \<or> \<not> joinable w \<and> w' = w\<lparr>worker_at := Waiting\<rparr>" "hr \<noteq> S_OK"
    using True assms(2) by (auto simp: Enqueue_def Let_def E_UNEXPECTED_def HRESULT_FROM_WIN32_def S_OK_def split: if_splits)
  then show ?thesis using assms(1) by (auto simp: ring_is_def from_head_def ring_index_def joinable_def)
next
  case False
  note l = ring_lengths [OF assms(1)]
  let ?s = "\<lparr>request = r, slot_state = Queued, slot_result = S_OK\<rparr>"
  let ?w = "w\<lparr>worker_at := (if joinable w then worker_at w else Waiting),
    slots := (slots w)[ring_index w (slot_count w) := ?s], slot_count := slot_count w + 1, ui_at := UiWaking\<rparr>"
  have w': "hr = S_OK" "w' = ?w"
    using False assms(2) by (auto simp: Enqueue_def Let_def joinable_def ring_index_def split: if_splits)
  obtain f fs where free: "free = f # fs" using False l(2) by (cases free) auto
  have len: "slot_count w < kSlots" "length (slots w) = kSlots" using False l(3) assms(1) by (simp_all add: ring_is_def)
  have "from_head ?w = (from_head w)[slot_count w := ?s]"
    using from_head_update [of w "slot_count w" ?w ?s] len by simp
  also have "\<dots> = map complete_slot finished @ map (fresh_slot Running) running @ map (fresh_slot Queued) (queued @ [r]) @ fs"
    using assms(1) by (simp add: ring_is_def free list_update_append fresh_slot_def)
  finally show ?thesis
    using assms(1) unfolding w' by (intro exI [of _ fs])
      (auto simp: ring_is_def free ring_index_def joinable_def split: launch_pc.splits)
qed

lemma DrainOne_ring:
  assumes "ring_is w finished running queued free" "DrainOne w = (logged, w')"
  shows "case logged of
      None \<Rightarrow> w' = w
    | Some d \<Rightarrow> (\<exists>ds free'. finished = d # ds \<and> ring_is w' ds running queued free')"
proof (cases "slot_count w = 0 \<or> slot_state (slots w ! head w) \<noteq> Complete")
  case True
  then show ?thesis using assms(2) by (auto simp: DrainOne_def)
next
  case False
  have len: "length (slots w) = kSlots" "head w < kSlots" using assms(1) by (simp_all add: ring_is_def)
  have first: "slots w ! head w = from_head w ! 0" using from_head_nth [OF len(1), of 0] len(2) by (simp add: ring_index_def kSlots_def)
  have "finished \<noteq> []"
  proof
    assume "finished = []"
    then have "from_head w ! 0 = (map (fresh_slot Running) running @ map (fresh_slot Queued) queued) ! 0"
      "running \<noteq> [] \<or> queued \<noteq> []"
      using assms(1) False by (auto simp: ring_is_def nth_append)
    then show False using False first by (cases running; cases queued) (auto simp: fresh_slot_def)
  qed
  then obtain d ds where ds: "finished = d # ds" by (cases finished) auto
  let ?e = "(slots w ! head w)\<lparr>slot_state := Empty\<rparr>"
  have w': "logged = Some d" "w' = w\<lparr>slots := (slots w)[head w := ?e], head := (head w + 1) mod kSlots, slot_count := slot_count w - 1\<rparr>"
    using assms False ds first by (auto simp: DrainOne_def ring_is_def complete_slot_def)
  have "from_head w' = rotate1 ((from_head w)[0 := ?e])"
    using rotate_update [of 0 "slots w" "head w" ?e] rotate_next [of "(slots w)[head w := ?e]" kSlots "head w"] len
    by (simp add: w' from_head_def kSlots_def)
  also have "\<dots> = map complete_slot ds @ map (fresh_slot Running) running @ map (fresh_slot Queued) queued @ free @ [?e]"
    using assms(1) by (simp add: ring_is_def ds)
  finally have f: "from_head w' = \<dots>" .
  have i: "ring_index w (Suc n) = ring_index w' n" for n
    by (simp add: w' ring_index_def mod_simps)
  have "ring_is w' ds running queued (free @ [?e])"
    using assms(1) len f i unfolding ring_is_def ds by (auto simp: w' kSlots_def split: launch_pc.splits)
  then show ?thesis using w'(1) ds by auto
qed

lemma WorkerTake_ring:
  assumes "ring_is w finished running queued free" "worker_at w = Taking"
  shows "running = [] \<and>
    ((stop_event w \<or> queued = []) \<and> ring_is (WorkerTake w) finished [] queued free \<and> (\<forall>i. worker_at (WorkerTake w) \<noteq> Launching i) \<or>
     (\<exists>r rs. queued = r # rs \<and> \<not> stop_event w \<and> ring_is (WorkerTake w) finished [r] rs free \<and>
        worker_at (WorkerTake w) = Launching (ring_index w (length finished))))"
proof -
  have r: "running = []" using assms by (simp add: ring_is_def)
  have len: "length (slots w) = kSlots" "slot_count w = length finished + length queued" "slot_count w \<le> kSlots"
    using assms(1) ring_lengths [OF assms(1)] by (simp_all add: ring_is_def r)
  have at: "slot_state (slots w ! ring_index w k) = (if k < length finished then Complete else Queued)" if "k < slot_count w" for k
  proof -
    have "slots w ! ring_index w k = from_head w ! k" using from_head_nth [of w k] len that by simp
    then show ?thesis using assms(1) that r by (auto simp: ring_is_def nth_append complete_slot_def fresh_slot_def)
  qed
  let ?P = "\<lambda>offset. slot_state (slots w ! ring_index w offset) = Queued"
  show ?thesis
  proof (cases "stop_event w \<or> queued = []")
    case True
    have "find ?P [0..<slot_count w] = None" if "queued = []"
      using at that len(2) by (auto simp: find_None_iff)
    then have "WorkerTake w = w\<lparr>worker_at := (if stop_event w then Exited else Waiting)\<rparr>"
      using True by (auto simp: WorkerTake_def)
    then show ?thesis using assms r True by (auto simp: ring_is_def from_head_def)
  next
    case False
    then obtain q qs where q: "queued = q # qs" by (cases queued) auto
    have f: "find ?P [0..<slot_count w] = Some (length finished)"
      unfolding find_Some_iff using at len(2) q by (intro exI [of _ "length finished"]) (auto simp del: upt_Suc)
    let ?i = "ring_index w (length finished)"
    have t: "WorkerTake w = w\<lparr>slots := (slots w)[?i := (slots w ! ?i)\<lparr>slot_state := Running\<rparr>], worker_at := Launching ?i\<rparr>"
      using False f by (simp add: WorkerTake_def Let_def)
    have lt: "length finished < kSlots" using len q by simp
    have "slots w ! ?i = fresh_slot Queued q"
      using from_head_nth [OF len(1) lt] assms(1) q r by (simp add: ring_is_def nth_append)
    then have "from_head (WorkerTake w) = (from_head w)[length finished := fresh_slot Running q]"
      using from_head_update [OF len(1) lt, of "WorkerTake w"] by (simp add: t fresh_slot_def)
    also have "\<dots> = map complete_slot finished @ map (fresh_slot Running) [q] @ map (fresh_slot Queued) qs @ free"
      using assms(1) q r by (simp add: ring_is_def list_update_append)
    finally have "ring_is (WorkerTake w) finished [q] qs free"
      using assms(1) q r by (simp add: ring_is_def t ring_index_def)
    then show ?thesis using r q False by (auto simp: t)
  qed
qed

lemma WorkerPublish_ring:
  assumes "ring_is w finished running queued free" "worker_at w = Publishing i hr"
  shows "\<exists>r. running = [r] \<and> request (slots w ! i) = r \<and> ring_is (WorkerPublish i hr w) (finished @ [(r, hr)]) [] queued free"
proof -
  have i: "i = ring_index w (length finished)" "length running = 1" using assms by (simp_all add: ring_is_def)
  then obtain r where r: "running = [r]" by (cases running) auto
  have len: "length (slots w) = kSlots" "length finished < kSlots"
    using assms(1) ring_lengths [OF assms(1)] by (simp_all add: ring_is_def r)
  have s: "slots w ! i = fresh_slot Running r"
    using from_head_nth [OF len] assms(1) by (simp add: ring_is_def r nth_append i)
  have "from_head (WorkerPublish i hr w) = (from_head w)[length finished := complete_slot (r, hr)]"
    using from_head_update [OF len, of "WorkerPublish i hr w"] s by (simp add: WorkerPublish_def i fresh_slot_def complete_slot_def)
  also have "\<dots> = map complete_slot (finished @ [(r, hr)]) @ map (fresh_slot Queued) queued @ free"
    using assms(1) by (simp add: ring_is_def list_update_append r)
  finally have "ring_is (WorkerPublish i hr w) (finished @ [(r, hr)]) [] queued free"
    using assms(1) by (simp add: ring_is_def WorkerPublish_def r)
  then show ?thesis using r s by (simp add: fresh_slot_def)
qed


section \<open>What happens to a request\<close>

fun accepted_in :: "launch_event list \<Rightarrow> Request list" where
  "accepted_in [] = []"
| "accepted_in (Accepted r # log) = r # accepted_in log"
| "accepted_in (_ # log) = accepted_in log"

fun launched_in :: "launch_event list \<Rightarrow> (Request \<times> hresult) list" where
  "launched_in [] = []"
| "launched_in (Launched r hr # log) = (r, hr) # launched_in log"
| "launched_in (_ # log) = launched_in log"

fun logged_in :: "launch_event list \<Rightarrow> (Request \<times> hresult) list" where
  "logged_in [] = []"
| "logged_in (Logged r hr # log) = (r, hr) # logged_in log"
| "logged_in (_ # log) = logged_in log"

lemma in_append [simp]:
  "accepted_in (a @ b) = accepted_in a @ accepted_in b" "launched_in (a @ b) = launched_in a @ launched_in b"
  "logged_in (a @ b) = logged_in a @ logged_in b"
  by (induction a rule: accepted_in.induct) simp_all

text \<open>What is launched but not in the ring as complete yet.\<close>

fun in_hand :: "launch_pc \<Rightarrow> Request list \<Rightarrow> (Request \<times> hresult) list" where
  "in_hand (Publishing i hr) running = map (\<lambda>r. (r, hr)) running"
| "in_hand _ running = []"

definition launch_inv :: "LaunchWorker \<Rightarrow> launch_event list \<Rightarrow> bool" where
  "launch_inv w log \<longleftrightarrow>
     (\<exists>finished running queued free past done_past.
        ring_is w finished running queued free \<and>
        accepted_in log = past @ map fst finished @ running @ queued \<and>
        launched_in log = done_past @ finished @ in_hand (worker_at w) running \<and>
        subseq (map fst done_past) past \<and> subseq (logged_in log) done_past)"

lemma launch_invI:
  "ring_is w finished running queued free \<Longrightarrow> accepted_in log = past @ map fst finished @ running @ queued \<Longrightarrow>
   launched_in log = done_past @ finished @ in_hand (worker_at w) running \<Longrightarrow> subseq (map fst done_past) past \<Longrightarrow>
   subseq (logged_in log) done_past \<Longrightarrow> launch_inv w log"
  unfolding launch_inv_def by blast

lemma ring_same:
  "slots w' = slots w \<Longrightarrow> head w' = head w \<Longrightarrow> slot_count w' = slot_count w \<Longrightarrow> worker_at w' = worker_at w \<Longrightarrow>
     ring_is w' finished running queued free = ring_is w finished running queued free"
  by (simp add: ring_is_def from_head_def ring_index_def split: launch_pc.split)

lemma StopJoin_ring:
  "ring_is w finished running queued free \<Longrightarrow>
     ring_is (snd (StopJoin w)) [] [] [] (map (\<lambda>s. s\<lparr>slot_state := Empty\<rparr>) (slots w))"
  by (auto simp: ring_is_def StopJoin_def from_head_def kSlots_def list_all_iff)

lemma subseq_more: "subseq (a :: 'a list) b \<Longrightarrow> subseq a (b @ d)" "subseq a b \<Longrightarrow> subseq (a @ c) (b @ c @ d)"
proof -
  assume a: "subseq a b"
  have p: "subseq x (x @ y)" for x y :: "'a list" by (rule prefix_imp_subseq) (simp add: prefix_def)
  show "subseq a (b @ d)" by (rule subseq_order.order_trans [OF a p])
  have "subseq (a @ c) (b @ c)" by (rule list_emb_append_mono [OF a]) simp
  then have "subseq (a @ c) ((b @ c) @ d)" by (rule subseq_order.order_trans [OF _ p])
  then show "subseq (a @ c) (b @ c @ d)" by simp
qed

lemma launch_step_inv:
  assumes "launch_step w events w'" "launch_inv w log"
  shows "launch_inv w' (log @ events)"
proof -
  obtain finished running queued free past done_past where
    r: "ring_is w finished running queued free"
    and a: "accepted_in log = past @ map fst finished @ running @ queued"
    and l: "launched_in log = done_past @ finished @ in_hand (worker_at w) running"
    and s: "subseq (map fst done_past) past" "subseq (logged_in log) done_past"
    using assms(2) unfolding launch_inv_def by blast
  from assms(1) show ?thesis
  proof cases
    case (enqueue req start hr)
    obtain free' where f: "ring_is w' finished running (queued @ (if hr = S_OK then [req] else [])) free'"
      using Enqueue_ring [OF r enqueue(3)] by blast
    have "in_hand (worker_at w') running = in_hand (worker_at w) running"
      using enqueue(3) by (auto simp: Enqueue_def Let_def joinable_def split: if_splits)
    then show ?thesis
      using f a l s enqueue(1) by (intro launch_invI [OF f, where past = past and done_past = done_past]) auto
  next
    case wake
    have f: "ring_is w' finished running queued free" 
      by (rule ring_same [THEN iffD2, OF _ _ _ _ r]) (simp_all add: wake EnqueueWake_def)
    show ?thesis
      using a l s wake by (intro launch_invI [OF f, where past = past and done_past = done_past]) (auto simp: EnqueueWake_def)
  next
    case (drain logged)
    show ?thesis
    proof (cases logged)
      case None
      then show ?thesis using DrainOne_ring [OF r drain(3)] assms(2) drain by simp
    next
      case (Some d)
      then obtain ds free' where d: "finished = d # ds" "ring_is w' ds running queued free'"
        using DrainOne_ring [OF r drain(3)] by auto
      have "worker_at w' = worker_at w" using drain(3) by (auto simp: DrainOne_def split: if_splits)
      then show ?thesis
        using a l s d(1) drain(1) Some
        by (intro launch_invI [OF d(2), where past = "past @ [fst d]" and done_past = "done_past @ [d]"])
          (auto intro: list_emb_append_mono split: prod.splits)
    qed
  next
    case (stop timeout answer)
    have f: "ring_is w' finished running queued free"
      by (rule ring_same [THEN iffD2, OF _ _ _ _ r]) (use stop in \<open>auto simp: StopBegin_def split: if_splits\<close>)
    have "worker_at w' = worker_at w" using stop by (auto simp: StopBegin_def split: if_splits)
    then show ?thesis
      using a l s stop(1) by (intro launch_invI [OF f, where past = past and done_past = done_past]) auto
  next
    case (joined wait answer)
    have "running = []" using r joined(3) by (simp add: ring_is_def)
    moreover have "w' = snd (StopJoin w)" using joined(4) by (cases "StopJoin w") simp
    moreover have "subseq (map fst (done_past @ finished)) (past @ map fst finished @ queued)"
      using subseq_more(2) [OF s(1), of "map fst finished" queued] by simp
    moreover have "subseq (logged_in log) (done_past @ finished)" by (rule subseq_more(1) [OF s(2)])
    moreover have "worker_at w' = Unstarted" using joined(4) by (auto simp: StopJoin_def)
    ultimately show ?thesis
      using a l joined(1,3) StopJoin_ring [OF r]
      by (intro launch_invI [where past = "past @ map fst finished @ queued" and done_past = "done_past @ finished"
            and finished = "[]" and running = "[]" and queued = "[]"]) simp_all
  next
    case (timed_out wait answer)
    have f: "ring_is w' finished running queued free"
      by (rule ring_same [THEN iffD2, OF _ _ _ _ r]) (use timed_out in \<open>auto simp: StopTimeout_def Let_def\<close>)
    have "worker_at w' = worker_at w" using timed_out by (auto simp: StopTimeout_def Let_def)
    then show ?thesis
      using a l s timed_out(1) by (intro launch_invI [OF f, where past = past and done_past = done_past]) auto
  next
    case (wait failed)
    have f: "ring_is w' finished running queued free" "in_hand (worker_at w') running = []"
      using r wait by (auto simp: WorkerWait_def ring_is_def from_head_def ring_index_def)
    then show ?thesis
      using a l s wait by (intro launch_invI [OF f(1), where past = past and done_past = done_past]) auto
  next
    case take_slot
    note t = WorkerTake_ring [OF r take_slot(3)]
    then consider "ring_is w' finished [] queued free"
      | q qs where "queued = q # qs" "ring_is w' finished [q] qs free" "worker_at w' = Launching (ring_index w (length finished))"
      using take_slot(2) by auto
    then show ?thesis
    proof cases
      case 1
      then have "in_hand (worker_at w') [] = []" by (cases "worker_at w'") auto
      then show ?thesis
        using a l s t take_slot by (intro launch_invI [OF 1, where past = past and done_past = done_past]) auto
    next
      case 2
      then show ?thesis
        using a l s t take_slot by (intro launch_invI [OF 2(2), where past = past and done_past = done_past]) auto
    qed
  next
    case (launch i hr)
    have i: "i = ring_index w (length finished)" "length running = 1" using r launch(3) by (simp_all add: ring_is_def)
    then obtain q where q: "running = [q]" by (cases running) auto
    have f: "ring_is w' finished running queued free"
      using r launch by (auto simp: WorkerLaunch_def ring_is_def from_head_def ring_index_def)
    have len: "length (slots w) = kSlots" "length finished < kSlots"
      using r ring_lengths [OF r] by (simp_all add: ring_is_def q)
    have "slots w ! i = fresh_slot Running q"
      using from_head_nth [OF len] r by (simp add: ring_is_def q nth_append i)
    then have "request (slots w ! i) = q" by (simp add: fresh_slot_def)
    then show ?thesis
      using a l s launch q
      by (intro launch_invI [OF f, where past = past and done_past = done_past]) (auto simp: WorkerLaunch_def)
  next
    case (publish i hr)
    obtain q where q: "running = [q]" "ring_is w' (finished @ [(q, hr)]) [] queued free"
      using WorkerPublish_ring [OF r publish(3)] publish(2) by auto
    then show ?thesis
      using a l s publish
      by (intro launch_invI [OF q(2), where past = past and done_past = done_past]) (auto simp: WorkerPublish_def)
  next
    case notify
    have f: "ring_is w' finished running queued free"
      using r notify by (auto simp: WorkerNotify_def ring_is_def from_head_def ring_index_def)
    then show ?thesis
      using a l s notify by (intro launch_invI [OF f, where past = past and done_past = done_past]) (auto simp: WorkerNotify_def)
  qed
qed


lemma launch_reaches_inv: "launch_reaches w log \<Longrightarrow> launch_inv w log"
proof (induction rule: launch_reaches.induct)
  case start
  show ?case
    by (rule launch_invI [of _ "[]" "[]" "[]" "slots LaunchWorker_init" _ "[]" "[]"])
      (simp_all add: ring_is_def LaunchWorker_init_def from_head_def kSlots_def list_all_iff)
qed (rule launch_step_inv)

text \<open>C8: the launcher is a queue: in every run, with any interleaving of the UI thread and the worker and any stops, what is
launched is a subsequence of what was accepted, in that order and each request once, and what is logged is a subsequence of
what was launched, in that order and with the result of its launch.\<close>

theorem launches_in_order:
  assumes "launch_reaches w log"
  shows "subseq (map fst (launched_in log)) (accepted_in log) \<and> subseq (logged_in log) (launched_in log)"
proof -
  obtain finished running queued free past done_past where
    r: "ring_is w finished running queued free"
    and a: "accepted_in log = past @ map fst finished @ running @ queued"
    and l: "launched_in log = done_past @ finished @ in_hand (worker_at w) running"
    and s: "subseq (map fst done_past) past" "subseq (logged_in log) done_past"
    using launch_reaches_inv [OF assms] unfolding launch_inv_def by blast
  have "subseq (map fst (in_hand (worker_at w) running)) running" by (cases "worker_at w") (simp_all add: comp_def)
  then have "subseq (map fst (in_hand (worker_at w) running)) (running @ queued)" by (rule subseq_more(1))
  then have "subseq (map fst (finished @ in_hand (worker_at w) running)) (map fst finished @ running @ queued)"
    by (simp add: subseq_append')
  then show ?thesis using a l s by (simp add: list_emb_append_mono subseq_more(1))
qed

section \<open>Stopping\<close>

text \<open>The worker between launches: none of its slots is running.\<close>

definition between_launches :: "launch_pc \<Rightarrow> bool" where
  "between_launches pc \<longleftrightarrow> (case pc of Launching _ \<Rightarrow> False | Publishing _ _ \<Rightarrow> False | _ \<Rightarrow> True)"

lemma running_slot_iff:
  assumes "ring_is w finished running queued free"
  shows "list_ex (\<lambda>s. slot_state s = Running) (slots w) \<longleftrightarrow> \<not> between_launches (worker_at w)"
proof -
  have e: "from_head w = map complete_slot finished @ map (fresh_slot Running) running @ map (fresh_slot Queued) queued @ free"
    and free: "list_all (\<lambda>s. slot_state s = Empty) free"
    using assms unfolding ring_is_def by blast+
  have "list_ex (\<lambda>s. slot_state s = Running) (slots w) \<longleftrightarrow> list_ex (\<lambda>s. slot_state s = Running) (from_head w)"
    by (simp add: from_head_def list_ex_iff)
  also have "\<dots> \<longleftrightarrow> running \<noteq> []"
    unfolding e using free by (cases running; force simp: complete_slot_def fresh_slot_def list_ex_iff list_all_iff)
  also have "\<dots> \<longleftrightarrow> \<not> between_launches (worker_at w)"
    using assms by (auto simp: ring_is_def between_launches_def split: launch_pc.splits)
  finally show ?thesis .
qed

text \<open>Steps up to the one that joins the thread.\<close>

inductive stopping_steps :: "LaunchWorker \<Rightarrow> launch_event list \<Rightarrow> LaunchWorker \<Rightarrow> bool" where
  none: "stopping_steps w [] w"
| more: "stopping_steps w log w' \<Longrightarrow> launch_step w' events w'' \<Longrightarrow> worker_at w'' \<noteq> Unstarted \<Longrightarrow> stopping_steps w (log @ events) w''"

lemma stopped_step:
  assumes "launch_step w events w'" "stop_event w" "worker_at w \<noteq> Unstarted" "between_launches (worker_at w)"
    "worker_at w' \<noteq> Unstarted"
  shows "stop_event w' \<and> between_launches (worker_at w') \<and> launched_in events = [] \<and> accepted_in events = []"
  using assms
  by cases (auto simp: Enqueue_def EnqueueWake_def DrainOne_def StopBegin_def StopJoin_def StopTimeout_def WorkerWait_def
      WorkerTake_def WorkerNotify_def joinable_def between_launches_def Let_def E_UNEXPECTED_def S_OK_def
      split: if_splits option.splits)

definition stop_inv :: "LaunchWorker \<Rightarrow> bool" where
  "stop_inv w \<longleftrightarrow> (\<forall>wait. ui_at w = UiStopping wait \<longrightarrow> stop_event w \<and> worker_at w \<noteq> Unstarted)"

lemma launch_step_stop_inv: "launch_step w events w' \<Longrightarrow> stop_inv w \<Longrightarrow> stop_inv w'"
  by (erule launch_step.cases)
    (auto simp: stop_inv_def Enqueue_def EnqueueWake_def DrainOne_def StopBegin_def StopJoin_def StopTimeout_def WorkerWait_def
      WorkerTake_def WorkerLaunch_def WorkerPublish_def WorkerNotify_def joinable_def Let_def split: if_splits option.splits)

lemma launch_reaches_stop_inv: "launch_reaches w log \<Longrightarrow> stop_inv w"
proof (induction rule: launch_reaches.induct)
  case start
  show ?case by (simp add: stop_inv_def LaunchWorker_init_def)
qed (rule launch_step_stop_inv)

text \<open>C9: when \<open>Stop\<close> gives up waiting and finds no launch in progress, none starts any more until the thread is joined: the
queued requests are dropped and new ones are refused.\<close>
theorem stopped_launcher_starts_nothing:
  assumes "launch_reaches w log" "ui_at w = UiStopping wait" "StopTimeout wait w = (Exiting, w1)"
    "stopping_steps w1 later w2"
  shows "launched_in later = [] \<and> accepted_in later = []"
proof -
  obtain finished running queued free where r: "ring_is w finished running queued free"
    using launch_reaches_inv [OF assms(1)] unfolding launch_inv_def by blast
  have "between_launches (worker_at w)"
    using assms(3) running_slot_iff [OF r] by (auto simp: StopTimeout_def Let_def split: if_splits)
  then have w1: "stop_event w1 \<and> worker_at w1 \<noteq> Unstarted \<and> between_launches (worker_at w1)"
    using assms(2,3) launch_reaches_stop_inv [OF assms(1)] by (auto simp: stop_inv_def StopTimeout_def Let_def)
  have "launched_in later = [] \<and> accepted_in later = [] \<and> stop_event w2 \<and> worker_at w2 \<noteq> Unstarted \<and>
      between_launches (worker_at w2)"
    using assms(4) w1
  proof (induction rule: stopping_steps.induct)
    case (more w log w' events w'')
    then show ?case using stopped_step [OF more(2)] by auto
  qed simp
  then show ?thesis by blast
qed

section \<open>Waking\<close>

definition queued_slots :: "LaunchWorker \<Rightarrow> bool" where
  "queued_slots w \<longleftrightarrow> list_ex (\<lambda>s. slot_state s = Queued) (slots w)"

definition wake_inv :: "LaunchWorker \<Rightarrow> bool" where
  "wake_inv w \<longleftrightarrow>
     (\<not> stop_event w \<and> (worker_at w = Waiting \<or> worker_at w = Unstarted) \<and> queued_slots w \<longrightarrow> wake_event w \<or> ui_at w = UiWaking)"

lemma queued_slots_ring: "ring_is w finished running queued free \<Longrightarrow> queued_slots w \<longleftrightarrow> queued \<noteq> []"
proof -
  assume r: "ring_is w finished running queued free"
  have e: "from_head w = map complete_slot finished @ map (fresh_slot Running) running @ map (fresh_slot Queued) queued @ free"
    and free: "list_all (\<lambda>s. slot_state s = Empty) free"
    using r unfolding ring_is_def by blast+
  have "queued_slots w \<longleftrightarrow> list_ex (\<lambda>s. slot_state s = Queued) (from_head w)"
    by (simp add: queued_slots_def from_head_def list_ex_iff)
  also have "\<dots> \<longleftrightarrow> queued \<noteq> []"
    unfolding e using free by (cases queued; force simp: complete_slot_def fresh_slot_def list_ex_iff list_all_iff)
  finally show ?thesis .
qed

lemma take_wakes:
  assumes "launch_inv w log" "worker_at w = Taking"
  shows "wake_inv (WorkerTake w)"
proof -
  obtain finished running queued free where r: "ring_is w finished running queued free"
    using assms(1) unfolding launch_inv_def by blast
  show ?thesis
  proof (cases "queued = []")
    case True
    then have "\<not> queued_slots (WorkerTake w)"
      using WorkerTake_ring [OF r assms(2)] queued_slots_ring by blast
    then show ?thesis by (simp add: wake_inv_def)
  next
    case False
    have "stop_event (WorkerTake w) \<or> (\<exists>i. worker_at (WorkerTake w) = Launching i)"
      using WorkerTake_ring [OF r assms(2)] False by (auto simp: WorkerTake_def)
    then show ?thesis by (auto simp: wake_inv_def)
  qed
qed


lemma launch_step_wake_inv:
  assumes "launch_step w events w'" "launch_inv w log" "stop_inv w" "wake_inv w"
  shows "wake_inv w'"
  using assms(1)
proof cases
  case (enqueue r start hr)
  then show ?thesis
    using assms(4) by (auto simp: wake_inv_def queued_slots_def Enqueue_def Let_def joinable_def split: if_splits)
next
  case (drain logged)
  have "queued_slots w' \<Longrightarrow> queued_slots w"
    using drain(3) list_ex_update [of "head w" "slots w" "\<lambda>s. slot_state s = Queued" "(slots w ! head w)\<lparr>slot_state := Empty\<rparr>"]
    by (cases "head w < length (slots w)") (auto simp: DrainOne_def queued_slots_def list_update_beyond split: if_splits)
  then show ?thesis using assms(4) drain(3) by (auto simp: wake_inv_def DrainOne_def split: if_splits)
next
  case (joined wait answer)
  then show ?thesis by (auto simp: wake_inv_def queued_slots_def StopJoin_def list_ex_iff)
next
  case take_slot
  then show ?thesis using take_wakes [OF assms(2)] by simp
next
  case (stop timeout answer)
  then show ?thesis using assms(4) by (auto simp: wake_inv_def queued_slots_def StopBegin_def split: if_splits)
next
  case (timed_out wait answer)
  then show ?thesis using assms(3) by (auto simp: wake_inv_def stop_inv_def StopTimeout_def Let_def)
next
  case (wait failed)
  then show ?thesis using assms(4) by (auto simp: wake_inv_def queued_slots_def WorkerWait_def split: if_splits)
qed (auto simp: wake_inv_def EnqueueWake_def WorkerLaunch_def WorkerPublish_def WorkerNotify_def)

text \<open>No accepted launch is left behind: while the worker waits and is not to stop, a queued request has its wake event set, or
the UI thread is about to set it.\<close>

theorem queued_launch_wakes_worker:
  assumes "launch_reaches w log" "worker_at w = Waiting" "\<not> stop_event w" "slot \<in> set (slots w)" "slot_state slot = Queued"
  shows "wake_event w \<or> ui_at w = UiWaking"
proof -
  have "wake_inv w"
    using assms(1)
  proof (induction rule: launch_reaches.induct)
    case start
    show ?case by (simp add: wake_inv_def queued_slots_def LaunchWorker_init_def list_ex_iff)
  next
    case (step w log events w')
    then show ?case using launch_step_wake_inv launch_reaches_inv launch_reaches_stop_inv by blast
  qed
  then show ?thesis using assms(2-5) by (auto simp: wake_inv_def queued_slots_def list_ex_iff)
qed


section \<open>A run\<close>

text \<open>Two requests are accepted, the first is launched, then \<open>Stop\<close> gives up at once.\<close>

definition test_request :: "nat \<Rightarrow> Request" where
  "test_request n = \<lparr>launch_kind = Shell, fileFolder = False, file_text = [of_nat n], commandLine = [], directory = []\<rparr>"

definition after_two :: LaunchWorker where
  "after_two =
     EnqueueWake (snd (Enqueue (test_request 2) S_OK (EnqueueWake (snd (Enqueue (test_request 1) S_OK LaunchWorker_init)))))"

definition after_first :: LaunchWorker where
  "after_first = WorkerPublish 0 S_OK (WorkerLaunch 0 S_OK (WorkerTake (WorkerWait False after_two)))"

definition after_stop :: LaunchWorker where
  "after_stop = snd (StopBegin 0 after_first)"

lemma not_failed_ok [simp]: "\<not> FAILED S_OK"
  by (simp add: FAILED_def S_OK_def)

lemma two_accepted: "launch_reaches after_two [Accepted (test_request 1), Accepted (test_request 2)]"
proof -
  let ?one = "snd (Enqueue (test_request 1) S_OK LaunchWorker_init)"
  let ?two = "snd (Enqueue (test_request 2) S_OK (EnqueueWake ?one))"
  have 1: "Enqueue (test_request 1) S_OK LaunchWorker_init = (S_OK, ?one)" "Enqueue (test_request 2) S_OK (EnqueueWake ?one) = (S_OK, ?two)"
    by (simp_all add: Enqueue_def EnqueueWake_def LaunchWorker_init_def joinable_def kSlots_def)
  have 2: "ui_at LaunchWorker_init = UiIdle" "ui_at ?one = UiWaking" "ui_at (EnqueueWake ?one) = UiIdle" "ui_at ?two = UiWaking"
    by (simp_all add: Enqueue_def EnqueueWake_def LaunchWorker_init_def joinable_def kSlots_def)
  have "launch_reaches ?one [Accepted (test_request 1)]"
    using step [OF start enqueue [OF 2(1) 1(1)]] by simp
  then have "launch_reaches (EnqueueWake ?one) [Accepted (test_request 1)]" using step [OF _ wake [OF 2(2)]] by fastforce
  then have "launch_reaches ?two [Accepted (test_request 1), Accepted (test_request 2)]"
    using step [OF _ enqueue [OF 2(3) 1(2)]] by fastforce
  then show ?thesis using step [OF _ wake [OF 2(4)]] unfolding after_two_def by fastforce
qed

lemma first_launched:
  "launch_reaches after_first [Accepted (test_request 1), Accepted (test_request 2), Launched (test_request 1) S_OK]"
proof -
  let ?t = "WorkerWait False after_two"
  have 1: "worker_at after_two = Waiting" "worker_at ?t = Taking" "worker_at (WorkerTake ?t) = Launching 0"
    "request (slots (WorkerTake ?t) ! 0) = test_request 1" "worker_at (WorkerLaunch 0 S_OK (WorkerTake ?t)) = Publishing 0 S_OK"
    by (simp_all add: after_two_def Enqueue_def EnqueueWake_def LaunchWorker_init_def joinable_def kSlots_def WorkerWait_def
        WorkerTake_def WorkerLaunch_def ring_index_def upt_rec)
  have "launch_reaches ?t [Accepted (test_request 1), Accepted (test_request 2)]"
    using step [OF two_accepted wait [OF 1(1)]] by simp
  then have "launch_reaches (WorkerTake ?t) [Accepted (test_request 1), Accepted (test_request 2)]"
    using step [OF _ take_slot [OF 1(2)]] by fastforce
  then have "launch_reaches (WorkerLaunch 0 S_OK (WorkerTake ?t))
      [Accepted (test_request 1), Accepted (test_request 2), Launched (test_request 1) S_OK]"
    using step [OF _ launch [OF 1(3), of S_OK]] 1(4) by fastforce
  then show ?thesis using step [OF _ publish [OF 1(5)]] unfolding after_first_def by fastforce
qed

lemma stop_began:
  "launch_reaches after_stop [Accepted (test_request 1), Accepted (test_request 2), Launched (test_request 1) S_OK]"
  "ui_at after_stop = UiStopping 0" "fst (StopTimeout 0 after_stop) = Exiting"
proof -
  have f: "ui_at after_first = UiIdle" "worker_at after_first = Notifying" "waitedOut after_first = False"
    "list_ex (\<lambda>s. slot_state s = Running) (slots after_first) = False"
    by code_simp+
  have s: "StopBegin 0 after_first = (None, after_stop)" using f by (simp add: after_stop_def StopBegin_def joinable_def)
  show "launch_reaches after_stop [Accepted (test_request 1), Accepted (test_request 2), Launched (test_request 1) S_OK]"
    using step [OF first_launched stop [OF f(1) s]] by simp
  show "ui_at after_stop = UiStopping 0" "fst (StopTimeout 0 after_stop) = Exiting"
    using f by (simp_all add: after_stop_def StopBegin_def StopTimeout_def joinable_def)
qed

theorem launches_in_order_witness:
  "subseq [test_request 1] [test_request 1, test_request 2] \<and> subseq [] [(test_request 1, S_OK)]"
  using launches_in_order [OF first_launched] by simp

theorem stopped_launcher_starts_nothing_witness:
  "\<exists>w1 w2 later. StopTimeout 0 after_stop = (Exiting, w1) \<and> stopping_steps w1 later w2 \<and> worker_at w2 = Exited \<and>
     launched_in later = [] \<and> accepted_in later = []"
proof -
  obtain w1 where w1: "StopTimeout 0 after_stop = (Exiting, w1)" using stop_began(3) by (cases "StopTimeout 0 after_stop") auto
  have at: "worker_at w1 = Notifying" "stop_event w1"
    using w1 by (auto simp: after_stop_def StopBegin_def StopTimeout_def Let_def joinable_def after_first_def WorkerPublish_def)
  have 1: "stopping_steps w1 [] (WorkerNotify w1)"
    using more [OF none notify [OF at(1)]] by (simp add: WorkerNotify_def)
  have t: "worker_at (WorkerNotify w1) = Taking" "worker_at (WorkerTake (WorkerNotify w1)) = Exited"
    using at by (simp_all add: WorkerNotify_def WorkerTake_def)
  have 2: "stopping_steps w1 [] (WorkerTake (WorkerNotify w1))"
    using more [OF 1 take_slot [OF t(1)]] t(2) by simp
  show ?thesis using stopped_launcher_starts_nothing [OF stop_began(1,2) w1 2] w1 2 t(2) by blast
qed

theorem queued_launch_wakes_worker_witness:
  "worker_at after_two = Waiting \<and> (wake_event after_two \<or> ui_at after_two = UiWaking)"
proof -
  have "length (slots after_two) = kSlots" by code_simp
  then have "slots after_two ! 0 \<in> set (slots after_two)" by (simp add: kSlots_def)
  moreover have "worker_at after_two = Waiting" "\<not> stop_event after_two" "slot_state (slots after_two ! 0) = Queued"
    by (simp_all add: after_two_def Enqueue_def EnqueueWake_def LaunchWorker_init_def joinable_def kSlots_def ring_index_def)
  ultimately show ?thesis using queued_launch_wakes_worker [OF two_accepted] by blast
qed

end
