(* ===== verification/Construction_Queue.thy ===== *)
theory Construction_Queue
  imports Work_Lane
begin

text \<open>
  \<open>RedXe/ConstructionWorkQueue.h\<close> and \<open>.cpp\<close>: the lane that constructs widgets on a worker thread. The state
  holds the members of the class and where the two threads are; one step is one critical section, one event
  operation or one call of a work item, so every interleaving of the two threads is a sequence of steps. The
  clock, the results of \<open>Run\<close>, of the event creations, of the thread and of \<open>CoInitializeEx\<close> are inputs of the
  steps that read them.
\<close>

section \<open>Members\<close>

definition ConstructionCapacity :: nat where "ConstructionCapacity = 16"
definition WorkMilliseconds :: u32 where "WorkMilliseconds = 3000"
definition StopMilliseconds :: u32 where "StopMilliseconds = 1000"

datatype StopResult = Stopped | Exiting | WorkInProgress

record ConstructionSlot =
  cw_work :: "work option"
  cw_state :: SlotState
  cw_result :: hresult
  cw_queuedAt :: u64

definition ConstructionSlot_init :: ConstructionSlot where
  "ConstructionSlot_init = \<lparr>cw_work = None, cw_state = Empty, cw_result = S_OK, cw_queuedAt = 0\<rparr>"

text \<open>
  Where the UI thread is: outside the queue (or in a \<open>Complete\<close> call), between the exchange of
  \<open>DrainCompletions\<close> and its lock, in \<open>Stop\<close> before its lock and before its wait, or before the join of
  \<open>Join\<close>. \<open>Stop\<close> carries its timeout and whether \<open>Join\<close> called it.
\<close>

datatype construction_ui = UiIdle | UiDrainTake | UiStopLock u32 bool | UiStopWait u32 bool bool | UiJoinWait

text \<open>
  \<open>stop\<close> and \<open>ready\<close> are the events, \<open>None\<close> before their creation and after \<open>Reset\<close>. \<open>delivering\<close> are the
  arrays \<open>ready\<close> of the \<open>DrainCompletions\<close> calls in progress, the innermost first. \<open>posted\<close>, \<open>waited\<close> and
  \<open>log\<close> observe: a notification the UI thread has not answered with a drain yet, the milliseconds spent in the
  waits of \<open>Stop\<close> since the last \<open>Reset\<close>, and what happened to the work items.
\<close>

record ConstructionQueue =
  cq_slots :: "ConstructionSlot list"
  cq_stop :: "bool option"
  cq_ready :: "bool option"
  cq_notify :: bool
  cq_completed :: bool
  cq_lastSelected :: nat
  cq_waitedOut :: bool
  cq_joinable :: bool
  cq_apartment :: hresult
  cq_worker :: worker_pc
  cq_ui :: construction_ui
  cq_delivering :: "ConstructionSlot list list"
  cq_stopResult :: "StopResult option"
  cq_posted :: bool
  cq_waited :: nat
  cq_log :: "queue_event list"

definition ConstructionQueue_init :: ConstructionQueue where
  "ConstructionQueue_init =
     \<lparr>cq_slots = replicate ConstructionCapacity ConstructionSlot_init, cq_stop = None, cq_ready = None,
      cq_notify = False, cq_completed = False, cq_lastSelected = ConstructionCapacity - 1, cq_waitedOut = False,
      cq_joinable = False, cq_apartment = S_OK, cq_worker = NoThread, cq_ui = UiIdle, cq_delivering = [],
      cq_stopResult = None, cq_posted = False, cq_waited = 0, cq_log = []\<rparr>"

definition ConstructionRunning :: "ConstructionQueue \<Rightarrow> bool" where
  "ConstructionRunning q = cq_joinable q"

definition stop_signaled :: "ConstructionQueue \<Rightarrow> bool" where
  "stop_signaled q \<longleftrightarrow> cq_stop q = Some True"

definition dropped_works :: "ConstructionSlot list \<Rightarrow> queue_event list" where
  "dropped_works slots = map Dropped (List.map_filter cw_work slots)"

section \<open>The UI thread\<close>

definition ConstructionReset :: "ConstructionQueue \<Rightarrow> ConstructionQueue" where
  "ConstructionReset q =
     q\<lparr>cq_slots := replicate ConstructionCapacity ConstructionSlot_init, cq_completed := False, cq_notify := False,
       cq_ready := None, cq_stop := None, cq_lastSelected := ConstructionCapacity - 1, cq_waitedOut := False,
       cq_waited := 0, cq_log := cq_log q @ dropped_works (cq_slots q)\<rparr>"

definition ConstructionStart ::
    "hresult \<Rightarrow> hresult \<Rightarrow> thread_start \<Rightarrow> bool \<Rightarrow> hresult \<Rightarrow> ConstructionQueue \<Rightarrow> hresult \<times> ConstructionQueue" where
  "ConstructionStart stop_created ready_created thread notify apartment q =
     (if ConstructionRunning q then (if stop_signaled q then E_UNEXPECTED else S_FALSE, q)
      else if FAILED stop_created then (stop_created, q)
      else if FAILED ready_created then (ready_created, q\<lparr>cq_stop := Some False\<rparr>)
      else
        (let q = q\<lparr>cq_stop := Some False, cq_ready := Some False, cq_notify := notify\<rparr>
         in case thread of
              ThreadStarted \<Rightarrow> (S_OK, q\<lparr>cq_joinable := True, cq_worker := AtWait, cq_apartment := apartment\<rparr>)
            | ThreadSystemError \<Rightarrow> (E_FAIL, ConstructionReset q)
            | ThreadNoMemory \<Rightarrow> (E_OUTOFMEMORY, ConstructionReset q)))"

definition ConstructionEnqueue :: "work option \<Rightarrow> u64 \<Rightarrow> ConstructionQueue \<Rightarrow> hresult \<times> ConstructionQueue" where
  "ConstructionEnqueue w now q =
     (case w of
        None \<Rightarrow> (E_POINTER, q)
      | Some p \<Rightarrow>
          (if \<not> ConstructionRunning q then (E_UNEXPECTED, q)
           else if stop_signaled q then (E_UNEXPECTED, q)
           else if list_ex (\<lambda>slot. cw_work slot = Some p) (cq_slots q) then (S_FALSE, q)
           else
             (case find (\<lambda>i. cw_state (cq_slots q ! i) = Empty) [0..<length (cq_slots q)] of
                Some i \<Rightarrow>
                  (S_OK, q\<lparr>cq_slots := (cq_slots q)[i := (cq_slots q ! i)
                                         \<lparr>cw_work := Some p, cw_state := Queued, cw_queuedAt := now\<rparr>],
                           cq_ready := Some True, cq_log := cq_log q @ [Accepted p]\<rparr>)
              | None \<Rightarrow> (HRESULT_FROM_WIN32 170, q))))"

text \<open>\<open>DrainCompletions\<close>: the exchange, the lock, and one turn of its last loop.\<close>

definition ConstructionDrain :: "ConstructionQueue \<Rightarrow> ConstructionQueue" where
  "ConstructionDrain q =
     (let q = q\<lparr>cq_posted := False\<rparr>
      in if \<not> ConstructionRunning q \<or> stop_signaled q \<or> \<not> cq_completed q then q
         else q\<lparr>cq_completed := False, cq_ui := UiDrainTake\<rparr>)"

definition ConstructionTake :: "ConstructionQueue \<Rightarrow> ConstructionQueue" where
  "ConstructionTake q =
     q\<lparr>cq_slots := map (\<lambda>slot. if cw_state slot = Complete then ConstructionSlot_init else slot) (cq_slots q),
       cq_delivering := filter (\<lambda>slot. cw_state slot = Complete) (cq_slots q) # cq_delivering q,
       cq_ui := UiIdle\<rparr>"

definition ConstructionDeliver :: "ConstructionQueue \<Rightarrow> ConstructionQueue option" where
  "ConstructionDeliver q =
     (case cq_delivering q of
        [] \<Rightarrow> None
      | [] # rest \<Rightarrow> Some (q\<lparr>cq_delivering := rest\<rparr>)
      | (slot # slots) # rest \<Rightarrow>
          Some (if ConstructionRunning q \<and> \<not> stop_signaled q
                then q\<lparr>cq_delivering := slots # rest,
                       cq_log := cq_log q @ [Delivered (the (cw_work slot)) (cw_result slot)]\<rparr>
                else q\<lparr>cq_delivering := rest, cq_log := cq_log q @ dropped_works (slot # slots)\<rparr>))"

text \<open>\<open>Stop\<close>: the event, the lock, and the wait with what follows it.\<close>

definition ConstructionStop :: "u32 \<Rightarrow> bool \<Rightarrow> ConstructionQueue \<Rightarrow> ConstructionQueue" where
  "ConstructionStop timeout joins q =
     (if \<not> ConstructionRunning q then q\<lparr>cq_stopResult := Some Stopped\<rparr>
      else q\<lparr>cq_stop := Some True, cq_ui := UiStopLock timeout joins\<rparr>)"

definition ConstructionStopLock :: "u32 \<Rightarrow> bool \<Rightarrow> ConstructionQueue \<Rightarrow> ConstructionQueue" where
  "ConstructionStopLock timeout joins q =
     (let discards = (\<lambda>slot. cw_state slot \<noteq> Running \<and> cw_state slot \<noteq> Empty)
      in q\<lparr>cq_slots := map (\<lambda>slot. if discards slot then ConstructionSlot_init else slot) (cq_slots q),
           cq_log := cq_log q @ dropped_works (filter discards (cq_slots q)),
           cq_ui := UiStopWait timeout joins (list_ex (\<lambda>slot. cw_state slot = Running) (cq_slots q))\<rparr>)"

definition ConstructionStopWait :: "u32 \<Rightarrow> bool \<Rightarrow> bool \<Rightarrow> ConstructionQueue \<Rightarrow> ConstructionQueue" where
  "ConstructionStopWait timeout joins inProgress q =
     (let wait = (if cq_waitedOut q then 0 else min timeout StopMilliseconds);
          q = q\<lparr>cq_ui := UiIdle\<rparr>
      in if cq_worker q \<noteq> Returned
         then q\<lparr>cq_waitedOut := cq_waitedOut q \<or> inProgress \<or> wait \<noteq> 0, cq_waited := cq_waited q + unat wait,
                cq_stopResult := Some (if inProgress then WorkInProgress else Exiting),
                cq_ui := (if joins then UiJoinWait else UiIdle)\<rparr>
         else (ConstructionReset (q\<lparr>cq_joinable := False, cq_worker := NoThread\<rparr>))\<lparr>cq_stopResult := Some Stopped\<rparr>)"

text \<open>\<open>Join\<close>: its \<open>Stop(0)\<close>, and the join with its \<open>Reset\<close>. A \<open>Reset\<close> after one that \<open>Stop\<close> made changes nothing.\<close>

definition ConstructionJoin :: "ConstructionQueue \<Rightarrow> ConstructionQueue" where
  "ConstructionJoin q = (if ConstructionRunning q then ConstructionStop 0 True q else ConstructionReset (ConstructionStop 0 True q))"

definition ConstructionJoined :: "ConstructionQueue \<Rightarrow> ConstructionQueue" where
  "ConstructionJoined q = ConstructionReset (q\<lparr>cq_joinable := False, cq_worker := NoThread, cq_ui := UiIdle\<rparr>)"

section \<open>The worker\<close>

text \<open>
  \<open>MsgWaitForMultipleObjectsEx\<close> returns for the stop event first, then for the auto-reset ready event. A message
  of the apartment is dispatched and the wait repeated, which changes none of the members.
\<close>

definition ConstructionWait :: "ConstructionQueue \<Rightarrow> ConstructionQueue option" where
  "ConstructionWait q =
     (if stop_signaled q then Some (q\<lparr>cq_worker := Returned\<rparr>)
      else if cq_ready q = Some True then Some (q\<lparr>cq_ready := Some False, cq_worker := AtSelect\<rparr>)
      else None)"

definition select_construction :: "ConstructionSlot list \<Rightarrow> nat \<Rightarrow> nat option" where
  "select_construction slots lastSelected =
     find (\<lambda>i. cw_state (slots ! i) = Queued)
       (map (\<lambda>offset. (lastSelected + offset) mod ConstructionCapacity) [1..<ConstructionCapacity + 1])"

definition ConstructionSelect :: "ConstructionQueue \<Rightarrow> ConstructionQueue" where
  "ConstructionSelect q =
     (if stop_signaled q then q\<lparr>cq_worker := Returned\<rparr>
      else
        (case select_construction (cq_slots q) (cq_lastSelected q) of
           None \<Rightarrow> q\<lparr>cq_worker := AtWait\<rparr>
         | Some i \<Rightarrow> q\<lparr>cq_lastSelected := i, cq_slots := (cq_slots q)[i := (cq_slots q ! i)\<lparr>cw_state := Running\<rparr>],
                      cq_worker := AtRun i\<rparr>))"

text \<open>\<open>before\<close> and \<open>after\<close> are the readings of \<open>GetTickCount64\<close>, \<open>run\<close> the work's answer to the time it is given.\<close>

definition construction_result :: "hresult \<Rightarrow> u64 \<Rightarrow> (u32 \<Rightarrow> hresult) \<Rightarrow> u64 \<Rightarrow> u64 \<Rightarrow> hresult" where
  "construction_result apartment before run after queuedAt =
     (let age = before - queuedAt;
          result = (if FAILED apartment then apartment
                    else if age \<ge> ucast WorkMilliseconds then HRESULT_FROM_WIN32 1460
                    else run (ucast (ucast WorkMilliseconds - age)))
      in if SUCCEEDED result \<and> after - queuedAt \<ge> ucast WorkMilliseconds then HRESULT_FROM_WIN32 1460 else result)"

definition construction_runs :: "hresult \<Rightarrow> u64 \<Rightarrow> u64 \<Rightarrow> bool" where
  "construction_runs apartment before queuedAt \<longleftrightarrow>
     \<not> FAILED apartment \<and> \<not> before - queuedAt \<ge> ucast WorkMilliseconds"

definition ConstructionRun :: "nat \<Rightarrow> u64 \<Rightarrow> (u32 \<Rightarrow> hresult) \<Rightarrow> u64 \<Rightarrow> ConstructionQueue \<Rightarrow> ConstructionQueue" where
  "ConstructionRun i before run after q =
     (let slot = cq_slots q ! i
      in q\<lparr>cq_worker := AtPublish i (construction_result (cq_apartment q) before run after (cw_queuedAt slot)),
           cq_log := cq_log q @ (if construction_runs (cq_apartment q) before (cw_queuedAt slot)
                                 then [Started (the (cw_work slot))] else [])\<rparr>)"

definition ConstructionPublish :: "nat \<Rightarrow> hresult \<Rightarrow> ConstructionQueue \<Rightarrow> ConstructionQueue" where
  "ConstructionPublish i result q =
     (let notify = (\<not> stop_signaled q)
      in q\<lparr>cq_slots := (cq_slots q)[i := (cq_slots q ! i)\<lparr>cw_result := result, cw_state := Complete\<rparr>],
           cq_completed := (if notify then True else cq_completed q), cq_worker := AtNotify notify\<rparr>)"

definition ConstructionNotify :: "bool \<Rightarrow> ConstructionQueue \<Rightarrow> ConstructionQueue" where
  "ConstructionNotify notify q =
     q\<lparr>cq_posted := (cq_posted q \<or> (notify \<and> cq_notify q)), cq_worker := AtSelect\<rparr>"

section \<open>Steps\<close>

datatype construction_event =
    UStart hresult hresult thread_start bool hresult
  | UEnqueue "work option" u64
  | UDrain | UTake | UDeliver
  | UStop u32 | UStopLocks | UStopWaits | UJoin | UJoins
  | WWaits | WSelects | WRuns u64 "u32 \<Rightarrow> hresult" u64 | WPublishes | WNotifies

definition construction_step :: "construction_event \<Rightarrow> ConstructionQueue \<Rightarrow> ConstructionQueue option" where
  "construction_step e q =
     (case e of
        UStart a b th n c \<Rightarrow> (if cq_ui q = UiIdle then Some (snd (ConstructionStart a b th n c q)) else None)
      | UEnqueue w now \<Rightarrow> (if cq_ui q = UiIdle then Some (snd (ConstructionEnqueue w now q)) else None)
      | UDrain \<Rightarrow> (if cq_ui q = UiIdle then Some (ConstructionDrain q) else None)
      | UTake \<Rightarrow> (if cq_ui q = UiDrainTake then Some (ConstructionTake q) else None)
      | UDeliver \<Rightarrow> (if cq_ui q = UiIdle then ConstructionDeliver q else None)
      | UStop t \<Rightarrow> (if cq_ui q = UiIdle then Some (ConstructionStop t False q) else None)
      | UStopLocks \<Rightarrow> (case cq_ui q of UiStopLock t j \<Rightarrow> Some (ConstructionStopLock t j q) | _ \<Rightarrow> None)
      | UStopWaits \<Rightarrow> (case cq_ui q of UiStopWait t j p \<Rightarrow> Some (ConstructionStopWait t j p q) | _ \<Rightarrow> None)
      | UJoin \<Rightarrow> (if cq_ui q = UiIdle then Some (ConstructionJoin q) else None)
      | UJoins \<Rightarrow> (if cq_ui q = UiJoinWait \<and> cq_worker q = Returned then Some (ConstructionJoined q) else None)
      | WWaits \<Rightarrow> (if cq_worker q = AtWait then ConstructionWait q else None)
      | WSelects \<Rightarrow> (if cq_worker q = AtSelect then Some (ConstructionSelect q) else None)
      | WRuns a run b \<Rightarrow> (case cq_worker q of AtRun i \<Rightarrow> Some (ConstructionRun i a run b q) | _ \<Rightarrow> None)
      | WPublishes \<Rightarrow> (case cq_worker q of AtPublish i r \<Rightarrow> Some (ConstructionPublish i r q) | _ \<Rightarrow> None)
      | WNotifies \<Rightarrow> (case cq_worker q of AtNotify n \<Rightarrow> Some (ConstructionNotify n q) | _ \<Rightarrow> None))"

section \<open>A lane\<close>

abbreviation slot_view :: "ConstructionSlot \<Rightarrow> lane_slot" where
  "slot_view slot \<equiv> (cw_work slot, cw_state slot)"

definition construction_lane :: "ConstructionQueue \<Rightarrow> lane_slot list \<times> nat option" where
  "construction_lane q = (map slot_view (cq_slots q), busy_with (cq_worker q))"

definition construction_ok :: "ConstructionQueue \<Rightarrow> bool" where
  "construction_ok q \<longleftrightarrow>
     length (cq_slots q) = ConstructionCapacity \<and> cq_lastSelected q < ConstructionCapacity \<and>
     (cq_joinable q \<longleftrightarrow> cq_worker q \<noteq> NoThread)"

lemmas construction_views = construction_lane_def ConstructionSlot_init_def

lemma lane_clear_map:
  assumes "\<And>slot. P slot \<Longrightarrow> cw_state slot \<noteq> Running"
  shows "lane_move (map slot_view slots, b) (map slot_view (map (\<lambda>slot. if P slot then ConstructionSlot_init else slot) slots), b)"
  using assms by (intro lane_move.clear) (auto simp: ConstructionSlot_init_def)

lemma lane_reset:
  assumes "lane_ok (construction_lane q)" "busy_with (cq_worker q) = None" "length (cq_slots q) = n"
  shows "lane_move (construction_lane q) (replicate n empty_slot, None)"
  unfolding construction_lane_def assms(2)
proof (rule lane_move.clear)
  show "\<forall>i < length (map slot_view (cq_slots q)). replicate n empty_slot ! i = map slot_view (cq_slots q) ! i \<or>
      (replicate n empty_slot ! i = empty_slot \<and> snd (map slot_view (cq_slots q) ! i) \<noteq> Running)"
    using assms by (simp add: lane_ok_def construction_lane_def)
qed (use assms in simp)

lemma select_is_round_robin:
  "length slots = ConstructionCapacity \<Longrightarrow>
     select_construction slots c = round_robin (map slot_view slots) c"
proof -
  assume len: "length slots = ConstructionCapacity"
  have "find (\<lambda>i. cw_state (slots ! i) = Queued) xs = find (\<lambda>i. snd (map slot_view slots ! i) = Queued) xs"
    if "\<forall>i \<in> set xs. i < length slots" for xs
    using that by (induction xs) auto
  moreover have "\<forall>i \<in> set (map (\<lambda>k. (c + k) mod ConstructionCapacity) [1..<ConstructionCapacity + 1]). i < length slots"
    by (auto simp: len ConstructionCapacity_def)
  ultimately show ?thesis by (simp add: select_construction_def round_robin_def len del: upt_Suc)
qed

lemma select_construction_Some:
  "length slots = ConstructionCapacity \<Longrightarrow> select_construction slots c = Some i \<Longrightarrow>
     i < length slots \<and> cw_state (slots ! i) = Queued"
proof -
  assume a: "length slots = ConstructionCapacity" "select_construction slots c = Some i"
  then have "slots \<noteq> []" by (auto simp: ConstructionCapacity_def)
  with a round_robin_Some [of "map slot_view slots" c i] select_is_round_robin [of slots c]
  show ?thesis by auto
qed

text \<open>Each operation is a move of the lane.\<close>

lemma put_lane:
  assumes "snd (ConstructionEnqueue w now q) \<noteq> q" "lane_ok (construction_lane q)"
  obtains p i where "w = Some p" "i < length (cq_slots q)" "slot_view (cq_slots q ! i) = empty_slot"
    "Some p \<notin> cw_work ` set (cq_slots q)" "cq_joinable q" "\<not> stop_signaled q"
    "ConstructionEnqueue w now q = (S_OK, q\<lparr>cq_slots := (cq_slots q)[i := (cq_slots q ! i)
         \<lparr>cw_work := Some p, cw_state := Queued, cw_queuedAt := now\<rparr>],
         cq_ready := Some True, cq_log := cq_log q @ [Accepted p]\<rparr>)"
proof -
  from assms(1) obtain p i where pi: "w = Some p" "cq_joinable q" "\<not> stop_signaled q"
      "\<not> list_ex (\<lambda>slot. cw_work slot = Some p) (cq_slots q)"
      "find (\<lambda>i. cw_state (cq_slots q ! i) = Empty) [0..<length (cq_slots q)] = Some i"
    by (auto simp: ConstructionEnqueue_def ConstructionRunning_def split: option.splits if_splits)
  then have i: "i < length (cq_slots q)" "cw_state (cq_slots q ! i) = Empty"
    by (auto simp: find_Some_iff)
  then have "cw_work (cq_slots q ! i) = None" using assms(2) by (auto simp: lane_ok_def construction_lane_def)
  with pi i show thesis
    by (intro that [of p i]) (auto simp: ConstructionEnqueue_def ConstructionRunning_def list_ex_iff)
qed

text \<open>What the end of \<open>Stop\<close> does, without its arithmetic.\<close>

lemma stop_wait_cases:
  assumes "construction_step UStopWaits q = Some q'"
  obtains (still) out n r u where "cq_worker q \<noteq> Returned" "u \<noteq> UiDrainTake" "cq_ui q \<noteq> UiDrainTake"
      "q' = q\<lparr>cq_ui := u, cq_waitedOut := out, cq_waited := n, cq_stopResult := r\<rparr>"
  | (joined) "cq_worker q = Returned"
      "q' = (ConstructionReset (q\<lparr>cq_ui := UiIdle, cq_joinable := False, cq_worker := NoThread\<rparr>))
              \<lparr>cq_stopResult := Some Stopped\<rparr>"
proof -
  obtain t j p where q': "q' = ConstructionStopWait t j p q" "cq_ui q \<noteq> UiDrainTake"
    using assms by (auto simp: construction_step_def split: construction_ui.splits)
  show thesis
  proof (cases "cq_worker q = Returned")
    case True
    with q' joined show thesis by (simp add: ConstructionStopWait_def Let_def)
  next
    case False
    define w where "w = (if cq_waitedOut q then 0 else min t StopMilliseconds)"
    have "q' = q\<lparr>cq_ui := (if j then UiJoinWait else UiIdle), cq_waitedOut := cq_waitedOut q \<or> p \<or> w \<noteq> 0,
        cq_waited := cq_waited q + unat w, cq_stopResult := Some (if p then WorkInProgress else Exiting)\<rparr>"
      using False unfolding q'(1) ConstructionStopWait_def Let_def w_def [symmetric] by simp
    then show thesis by (rule still [OF False _ q'(2), rotated]) simp
  qed
qed

lemma construction_step_lane:
  assumes "construction_ok q" "lane_ok (construction_lane q)" "construction_step e q = Some q'"
  shows "lane_move (construction_lane q) (construction_lane q') \<and> construction_ok q'"
proof -
  have busy: "busy_with (cq_worker q) = Some i \<Longrightarrow> i < length (cq_slots q) \<and> cw_state (cq_slots q ! i) = Running \<and>
      (\<exists>w. cw_work (cq_slots q ! i) = Some w)" for i
  proof -
    assume b: "busy_with (cq_worker q) = Some i"
    then have i: "i < length (cq_slots q)" "cw_state (cq_slots q ! i) = Running"
      using assms(2) by (auto simp: lane_ok_def construction_lane_def)
    moreover have "cw_state (cq_slots q ! i) = Empty \<longleftrightarrow> cw_work (cq_slots q ! i) = None"
      using assms(2) i(1) by (simp add: lane_ok_def construction_lane_def)
    ultimately show ?thesis by auto
  qed
  have reset: "lane_move (construction_lane q) (replicate ConstructionCapacity empty_slot, None)"
    if "busy_with (cq_worker q) = None"
    using lane_reset [OF assms(2) that] assms(1) by (simp add: construction_ok_def)
  note defs = construction_step_def construction_lane_def construction_ok_def ConstructionSlot_init_def
  show ?thesis
  proof (cases e)
    case (UStart a b th n c)
    with assms reset show ?thesis
      by (auto simp: defs ConstructionStart_def ConstructionReset_def ConstructionRunning_def Let_def
        ConstructionCapacity_def intro: lane_move.rest split: if_splits thread_start.splits)
  next
    case (UEnqueue w now)
    with assms(3) have q': "q' = snd (ConstructionEnqueue w now q)" by (simp add: construction_step_def split: if_splits)
    show ?thesis
    proof (cases "q' = q")
      case False
      with q' put_lane [of w now q] assms(2) obtain p i where pi: "i < length (cq_slots q)"
        "slot_view (cq_slots q ! i) = empty_slot" "Some p \<notin> cw_work ` set (cq_slots q)"
        "q' = q\<lparr>cq_slots := (cq_slots q)[i := (cq_slots q ! i)\<lparr>cw_work := Some p, cw_state := Queued, cw_queuedAt := now\<rparr>],
              cq_ready := Some True, cq_log := cq_log q @ [Accepted p]\<rparr>"
        by (metis snd_conv)
      then have "lane_move (map slot_view (cq_slots q), busy_with (cq_worker q))
          ((map slot_view (cq_slots q))[i := (Some p, Queued)], busy_with (cq_worker q))"
        by (intro lane_move.put) (auto simp: image_image)
      with pi assms(1) show ?thesis by (simp add: construction_lane_def construction_ok_def map_update)
    qed (use assms in \<open>simp add: lane_move.rest\<close>)
  next
    case UTake
    with assms show ?thesis
      by (auto simp: construction_step_def construction_lane_def construction_ok_def ConstructionTake_def
        intro!: lane_clear_map split: if_splits simp del: map_map)
  next
    case UStopLocks
    with assms show ?thesis
      by (auto simp: construction_step_def construction_lane_def construction_ok_def ConstructionStopLock_def Let_def
        intro!: lane_clear_map split: construction_ui.splits simp del: map_map)
  next
    case UStopWaits
    with assms(3) have "construction_step UStopWaits q = Some q'" by simp
    then show ?thesis
      by (cases rule: stop_wait_cases)
         (use assms reset in \<open>auto simp: defs ConstructionReset_def ConstructionCapacity_def intro: lane_move.rest\<close>)
  next
    case UJoin
    with assms reset show ?thesis
      by (auto simp: defs ConstructionJoin_def ConstructionStop_def ConstructionReset_def ConstructionRunning_def
        ConstructionCapacity_def intro: lane_move.rest split: if_splits)
  next
    case UJoins
    with assms reset show ?thesis
      by (auto simp: defs ConstructionJoined_def ConstructionReset_def ConstructionCapacity_def split: if_splits)
  next
    case WSelects
    show ?thesis
    proof (cases "stop_signaled q \<or> select_construction (cq_slots q) (cq_lastSelected q) = None")
      case True
      with WSelects assms show ?thesis
        by (auto simp: defs ConstructionSelect_def intro: lane_move.rest split: if_splits)
    next
      case False
      then obtain i where i: "select_construction (cq_slots q) (cq_lastSelected q) = Some i" "\<not> stop_signaled q" by auto
      with assms(1) have len: "i < length (cq_slots q)" "cw_state (cq_slots q ! i) = Queued"
        using select_construction_Some by (auto simp: construction_ok_def)
      then obtain w where "cw_work (cq_slots q ! i) = Some w"
        using assms(2) by (fastforce simp: lane_ok_def construction_lane_def)
      with len have "lane_move (map slot_view (cq_slots q), None) ((map slot_view (cq_slots q))[i := (Some w, Running)], Some i)"
        by (intro lane_move.begin_work) auto
      with WSelects assms i len \<open>cw_work _ = _\<close> show ?thesis
        by (auto simp: defs ConstructionSelect_def map_update split: if_splits)
    qed
  next
    case WPublishes
    then obtain i r where w: "cq_worker q = AtPublish i r" "q' = ConstructionPublish i r q"
      using assms(3) by (auto simp: construction_step_def split: worker_pc.splits)
    with busy [of i] obtain x where "i < length (cq_slots q)" "cw_work (cq_slots q ! i) = Some x"
      "cw_state (cq_slots q ! i) = Running" by auto
    then have "lane_move (map slot_view (cq_slots q), Some i) ((map slot_view (cq_slots q))[i := (Some x, Complete)], None)"
      by (intro lane_move.end_work) auto
    with w \<open>cw_work _ = _\<close> assms(1) show ?thesis
      by (auto simp: construction_lane_def construction_ok_def ConstructionPublish_def Let_def map_update)
  qed (use assms in \<open>auto simp: construction_step_def construction_lane_def construction_ok_def Let_def
        ConstructionDrain_def ConstructionDeliver_def ConstructionStop_def ConstructionWait_def ConstructionRun_def ConstructionNotify_def
        intro: lane_move.rest split: if_splits list.splits worker_pc.splits\<close>)
qed

lemma construction_step_turn:
  assumes "construction_ok q" "construction_step e q = Some q'"
    and "snd (construction_lane q) = None" "snd (construction_lane q') = Some i"
  shows "round_robin (fst (construction_lane q)) (cq_lastSelected q) = Some i \<and> cq_lastSelected q' = i"
  using assms select_is_round_robin [of "cq_slots q" "cq_lastSelected q"]
proof (cases e)
  case UStopWaits
  with assms(2) have "construction_step UStopWaits q = Some q'" by simp
  then show ?thesis
    by (cases rule: stop_wait_cases)
       (use assms in \<open>auto simp: construction_lane_def ConstructionReset_def ConstructionSlot_init_def construction_ok_def\<close>)
qed (auto simp: construction_step_def construction_lane_def construction_ok_def Let_def
        ConstructionStart_def ConstructionReset_def ConstructionEnqueue_def ConstructionDrain_def ConstructionTake_def
        ConstructionDeliver_def ConstructionStop_def ConstructionStopLock_def ConstructionJoin_def
        ConstructionJoined_def ConstructionWait_def ConstructionSelect_def ConstructionRun_def ConstructionPublish_def
        ConstructionNotify_def
      split: if_splits list.splits option.splits worker_pc.splits construction_ui.splits thread_start.splits)

lemma construction_step_cursor:
  assumes "construction_ok q" "construction_step e q = Some q'"
    and "snd (construction_lane q) \<noteq> None \<or> snd (construction_lane q') = None" "i < ConstructionCapacity"
    and "snd (fst (construction_lane q') ! i) = Queued"
  shows "cq_lastSelected q' = cq_lastSelected q"
  using assms
proof (cases e)
  case UStopWaits
  with assms(2) have "construction_step UStopWaits q = Some q'" by simp
  then show ?thesis
    by (cases rule: stop_wait_cases)
       (use assms in \<open>auto simp: construction_lane_def ConstructionReset_def ConstructionSlot_init_def construction_ok_def\<close>)
qed (auto simp: construction_step_def construction_lane_def construction_ok_def Let_def ConstructionSlot_init_def
        ConstructionStart_def ConstructionReset_def ConstructionEnqueue_def ConstructionDrain_def ConstructionTake_def
        ConstructionDeliver_def ConstructionStop_def ConstructionStopLock_def ConstructionJoin_def
        ConstructionJoined_def ConstructionWait_def ConstructionSelect_def ConstructionRun_def ConstructionPublish_def
        ConstructionNotify_def
      split: if_splits list.splits option.splits worker_pc.splits construction_ui.splits thread_start.splits)

interpretation construction: work_lane ConstructionQueue_init construction_lane cq_lastSelected construction_step
  construction_ok ConstructionCapacity
proof (unfold_locales, goal_cases)
  case 1
  show ?case by (simp add: construction_ok_def ConstructionQueue_init_def ConstructionCapacity_def)
next
  case 2
  show ?case
    using lane_ok_start [of ConstructionCapacity]
    by (simp add: construction_lane_def ConstructionQueue_init_def ConstructionSlot_init_def)
next
  case (3 s)
  then show ?case by (simp add: construction_ok_def construction_lane_def)
next
  case (4 s e s')
  then show ?case using construction_step_lane by blast
next
  case (5 s e s')
  then show ?case using construction_step_lane by blast
next
  case (6 s e s' i)
  then show ?case using construction_step_turn by blast
next
  case (7 s e s' i)
  then show ?case using construction_step_cursor by blast
qed

section \<open>Nothing is lost\<close>

text \<open>
  Beside the shape of the lane: nothing is left in the table of a queue without a thread; a waiting worker with
  work to do has the ready event set; what is complete is marked for a drain, and a marked queue has a
  notification on its way; the waits of \<open>Stop\<close> are bounded by one second.
\<close>

definition idle_empty :: "ConstructionQueue \<Rightarrow> bool" where
  "idle_empty q \<longleftrightarrow> (\<not> cq_joinable q \<longrightarrow> list_all (\<lambda>slot. cw_state slot = Empty) (cq_slots q))"

definition wakes_worker :: "ConstructionQueue \<Rightarrow> bool" where
  "wakes_worker q \<longleftrightarrow>
     (cq_worker q = AtWait \<and> \<not> stop_signaled q \<and> list_ex (\<lambda>slot. cw_state slot = Queued) (cq_slots q)
        \<longrightarrow> cq_ready q = Some True)"

definition marks_complete :: "ConstructionQueue \<Rightarrow> bool" where
  "marks_complete q \<longleftrightarrow>
     (cq_ui q \<noteq> UiDrainTake \<and> \<not> stop_signaled q \<and> list_ex (\<lambda>slot. cw_state slot = Complete) (cq_slots q)
        \<longrightarrow> cq_completed q)"

definition notifies_ui :: "ConstructionQueue \<Rightarrow> bool" where
  "notifies_ui q \<longleftrightarrow>
     (cq_joinable q \<and> \<not> stop_signaled q \<and> cq_completed q \<and> cq_notify q
        \<longrightarrow> cq_posted q \<or> cq_worker q = AtNotify True) \<and>
     (\<not> cq_joinable q \<longrightarrow> \<not> cq_completed q)"

definition waits_bounded :: "ConstructionQueue \<Rightarrow> bool" where
  "waits_bounded q \<longleftrightarrow> cq_waited q \<le> unat StopMilliseconds \<and> (\<not> cq_waitedOut q \<longrightarrow> cq_waited q = 0)"

lemmas construction_splits =
  if_splits list.splits option.splits worker_pc.splits construction_ui.splits thread_start.splits

lemmas construction_ops =
  ConstructionStart_def ConstructionReset_def ConstructionDrain_def ConstructionTake_def ConstructionRunning_def
  ConstructionDeliver_def ConstructionStop_def ConstructionStopLock_def
  ConstructionJoin_def ConstructionJoined_def ConstructionWait_def ConstructionRun_def ConstructionNotify_def
  ConstructionPublish_def ConstructionSelect_def ConstructionEnqueue_def ConstructionSlot_init_def stop_signaled_def

lemma construction_step_waits:
  "waits_bounded q \<Longrightarrow> construction_step e q = Some q' \<Longrightarrow> waits_bounded q'"
proof (cases e)
  case UStopWaits
  moreover have "unat (min t StopMilliseconds) \<le> unat StopMilliseconds" for t
    by (simp add: word_le_nat_alt [symmetric])
  moreover assume "waits_bounded q" "construction_step e q = Some q'"
  ultimately show ?thesis
    by (auto simp: waits_bounded_def construction_step_def ConstructionStopWait_def ConstructionReset_def Let_def
      unsigned_eq_0_iff split: construction_splits)
qed (auto simp: waits_bounded_def construction_step_def construction_ops Let_def split: construction_splits)

lemma construction_step_idle:
  assumes "construction_ok q" "idle_empty q" "construction_step e q = Some q'"
  shows "idle_empty q'"
  using assms
proof (cases e)
  case UStopWaits
  with assms(3) have "construction_step UStopWaits q = Some q'" by simp
  then show ?thesis
    by (cases rule: stop_wait_cases)
       (use assms in \<open>auto simp: idle_empty_def ConstructionReset_def ConstructionSlot_init_def list_all_iff\<close>)
qed (auto simp: idle_empty_def construction_ok_def construction_step_def construction_ops Let_def list_all_iff
        split: construction_splits)

lemma construction_step_marks:
  assumes "construction_ok q" "idle_empty q" "marks_complete q" "construction_step e q = Some q'"
  shows "marks_complete q'"
proof (cases e)
  case UStopWaits
  with assms(4) have "construction_step UStopWaits q = Some q'" by simp
  then show ?thesis
    by (cases rule: stop_wait_cases)
       (use assms in \<open>auto simp: marks_complete_def ConstructionReset_def stop_signaled_def ConstructionSlot_init_def list_ex_iff\<close>)
next
  case (UEnqueue w now)
  with assms show ?thesis
    by (auto simp: marks_complete_def construction_step_def ConstructionEnqueue_def stop_signaled_def find_Some_iff
      dest!: list_ex_update [where P = "\<lambda>slot. cw_state slot = Complete", rotated 2] split: if_splits option.splits)
next
  case WSelects
  with assms select_construction_Some [of "cq_slots q" "cq_lastSelected q"] show ?thesis
    by (auto simp: marks_complete_def construction_ok_def construction_step_def ConstructionSelect_def stop_signaled_def
      dest!: list_ex_update [where P = "\<lambda>slot. cw_state slot = Complete", rotated 2] split: if_splits option.splits)
qed (use assms in \<open>auto simp: marks_complete_def idle_empty_def list_all_iff construction_step_def construction_ops Let_def list_ex_iff
        split: construction_splits\<close>)

text \<open>The case of each step of a proof about the flags alone, with the definition of its operation.\<close>

lemma construction_step_notifies:
  assumes "construction_ok q" "notifies_ui q" "construction_step e q = Some q'"
  shows "notifies_ui q'"
proof -
  note defs = notifies_ui_def construction_ok_def construction_step_def stop_signaled_def ConstructionRunning_def
  note splits = if_splits construction_ui.splits worker_pc.splits
  show ?thesis
  proof (cases e)
    case UStart then show ?thesis using assms by (auto simp: defs ConstructionStart_def ConstructionReset_def Let_def split: splits thread_start.splits)
  next
    case UEnqueue then show ?thesis using assms by (auto simp: defs ConstructionEnqueue_def split: if_splits option.splits)
  next
    case UDrain then show ?thesis using assms by (auto simp: defs ConstructionDrain_def Let_def split: if_splits)
  next
    case UTake then show ?thesis using assms by (auto simp: defs ConstructionTake_def split: if_splits)
  next
    case UDeliver then show ?thesis using assms by (auto simp: defs ConstructionDeliver_def split: if_splits list.splits)
  next
    case UStop then show ?thesis using assms by (auto simp: defs ConstructionStop_def split: if_splits)
  next
    case UStopLocks then show ?thesis using assms by (auto simp: defs ConstructionStopLock_def Let_def split: construction_ui.splits)
  next
    case UStopWaits
    with assms(3) have "construction_step UStopWaits q = Some q'" by simp
    then show ?thesis
      by (cases rule: stop_wait_cases) (use assms in \<open>auto simp: defs ConstructionReset_def\<close>)
  next
    case UJoin then show ?thesis using assms by (auto simp: defs ConstructionJoin_def ConstructionStop_def ConstructionReset_def split: if_splits)
  next
    case UJoins then show ?thesis using assms by (auto simp: defs ConstructionJoined_def ConstructionReset_def split: if_splits)
  next
    case WWaits then show ?thesis using assms by (auto simp: defs ConstructionWait_def split: if_splits)
  next
    case WSelects then show ?thesis using assms by (auto simp: defs ConstructionSelect_def split: if_splits option.splits)
  next
    case WRuns then show ?thesis using assms by (auto simp: defs ConstructionRun_def Let_def split: worker_pc.splits)
  next
    case WPublishes then show ?thesis using assms by (auto simp: defs ConstructionPublish_def Let_def split: worker_pc.splits)
  next
    case WNotifies then show ?thesis using assms by (auto simp: defs ConstructionNotify_def split: worker_pc.splits)
  qed
qed

lemma construction_step_wakes:
  assumes "construction_ok q" "lane_ok (construction_lane q)" "idle_empty q" "wakes_worker q"
    "construction_step e q = Some q'"
  shows "wakes_worker q'"
proof (cases e)
  case UStopWaits
  with assms(5) have "construction_step UStopWaits q = Some q'" by simp
  then show ?thesis
    by (cases rule: stop_wait_cases)
       (use assms in \<open>auto simp: wakes_worker_def ConstructionReset_def stop_signaled_def ConstructionSlot_init_def list_ex_iff\<close>)
next
  case WSelects
  have "\<not> list_ex (\<lambda>slot. cw_state slot = Queued) (cq_slots q)"
    if "select_construction (cq_slots q) (cq_lastSelected q) = None"
    using that assms(1) round_robin_None [of "map slot_view (cq_slots q)" "cq_lastSelected q"]
      select_is_round_robin [of "cq_slots q" "cq_lastSelected q"]
    by (auto simp: construction_ok_def list_ex_iff in_set_conv_nth)
  with WSelects show ?thesis
    using assms by (auto simp: wakes_worker_def construction_step_def ConstructionSelect_def stop_signaled_def
      split: if_splits option.splits)
next
  case UStart
  then show ?thesis using assms by (auto simp: wakes_worker_def idle_empty_def construction_step_def construction_ops Let_def list_ex_iff list_all_iff
        split: construction_splits)
next
  case UEnqueue
  then show ?thesis using assms by (auto simp: wakes_worker_def idle_empty_def construction_step_def construction_ops Let_def list_ex_iff list_all_iff
        split: construction_splits)
next
  case UDrain
  then show ?thesis using assms by (auto simp: wakes_worker_def idle_empty_def construction_step_def construction_ops Let_def list_ex_iff list_all_iff
        split: construction_splits)
next
  case UTake
  then show ?thesis using assms by (auto simp: wakes_worker_def idle_empty_def construction_step_def construction_ops Let_def list_ex_iff list_all_iff
        split: construction_splits)
next
  case UDeliver
  then show ?thesis using assms by (auto simp: wakes_worker_def idle_empty_def construction_step_def construction_ops Let_def list_ex_iff list_all_iff
        split: construction_splits)
next
  case UStop
  then show ?thesis using assms by (auto simp: wakes_worker_def idle_empty_def construction_step_def construction_ops Let_def list_ex_iff list_all_iff
        split: construction_splits)
next
  case UStopLocks
  then show ?thesis using assms by (auto simp: wakes_worker_def idle_empty_def construction_step_def construction_ops Let_def list_ex_iff list_all_iff
        split: construction_splits)
next
  case UJoin
  then show ?thesis using assms by (auto simp: wakes_worker_def idle_empty_def construction_step_def construction_ops Let_def list_ex_iff list_all_iff
        split: construction_splits)
next
  case UJoins
  then show ?thesis using assms by (auto simp: wakes_worker_def idle_empty_def construction_step_def construction_ops Let_def list_ex_iff list_all_iff
        split: construction_splits)
next
  case WWaits
  then show ?thesis using assms by (auto simp: wakes_worker_def idle_empty_def construction_step_def construction_ops Let_def list_ex_iff list_all_iff
        split: construction_splits)
next
  case WRuns
  then show ?thesis using assms by (auto simp: wakes_worker_def idle_empty_def construction_step_def construction_ops Let_def list_ex_iff list_all_iff
        split: construction_splits)
next
  case WPublishes
  then show ?thesis using assms by (auto simp: wakes_worker_def idle_empty_def construction_step_def construction_ops Let_def list_ex_iff list_all_iff
        split: construction_splits)
next
  case WNotifies
  then show ?thesis using assms by (auto simp: wakes_worker_def idle_empty_def construction_step_def construction_ops Let_def list_ex_iff list_all_iff
        split: construction_splits)
qed

section \<open>Every accepted item is settled once\<close>

definition settled :: "work \<Rightarrow> queue_event list \<Rightarrow> nat" where
  "settled w events = length (filter (\<lambda>e. case e of Delivered v _ \<Rightarrow> v = w | Dropped v \<Rightarrow> v = w | _ \<Rightarrow> False) events)"

definition accepted :: "work \<Rightarrow> queue_event list \<Rightarrow> nat" where
  "accepted w events = length (filter (\<lambda>e. e = Accepted w) events)"

definition holding :: "work \<Rightarrow> ConstructionSlot list \<Rightarrow> nat" where
  "holding w slots = length (filter (\<lambda>slot. cw_work slot = Some w) slots)"

lemma log_append [simp]:
  "settled w (xs @ ys) = settled w xs + settled w ys" "accepted w (xs @ ys) = accepted w xs + accepted w ys"
  "settled w [Accepted v] = 0" "settled w [Started v] = 0" "settled w [] = 0" "accepted w [] = 0"
  "settled w [Delivered v r] = (if v = w then 1 else 0)" "accepted w [Delivered v r] = 0"
  "accepted w [Accepted v] = (if v = w then 1 else 0)" "accepted w [Started v] = 0"
  by (simp_all add: settled_def accepted_def)

lemma dropped_works_counts [simp]:
  "settled w (dropped_works slots) = holding w slots" "accepted w (dropped_works slots) = 0"
  by (induction slots)
     (auto simp: dropped_works_def settled_def accepted_def holding_def List.map_filter_def split: option.splits)

lemma holding_simps [simp]:
  "holding w [] = 0" "holding w (s # slots) = (if cw_work s = Some w then 1 else 0) + holding w slots"
  by (simp_all add: holding_def)

lemma holding_init: "holding w (replicate n ConstructionSlot_init) = 0"
  by (simp add: holding_def ConstructionSlot_init_def)

lemma holding_update:
  "i < length slots \<Longrightarrow> holding w (slots[i := s]) + holding w [slots ! i] = holding w slots + holding w [s]"
proof (induction slots arbitrary: i)
  case (Cons x slots)
  then show ?case
  proof (cases i)
    case (Suc j)
    then show ?thesis using Cons.IH [of j] Cons.prems by simp
  qed simp
qed simp

lemma holding_same_work:
  assumes "cw_work s = cw_work (slots ! i)"
  shows "holding w (slots[i := s]) = holding w slots"
proof (cases "i < length slots")
  case True
  then show ?thesis using holding_update [of i slots w s] assms by simp
qed (simp add: list_update_beyond)

lemma holding_split:
  "holding w (map (\<lambda>s. if P s then ConstructionSlot_init else s) slots) + holding w (filter P slots) = holding w slots"
  by (induction slots) (auto simp: ConstructionSlot_init_def)

definition construction_accounts :: "ConstructionQueue \<Rightarrow> bool" where
  "construction_accounts q \<longleftrightarrow>
     (\<forall>w. accepted w (cq_log q) =
        settled w (cq_log q) + holding w (cq_slots q) + holding w (concat (cq_delivering q))) \<and>
     list_all (\<lambda>slot. cw_work slot \<noteq> None) (concat (cq_delivering q))"

lemma construction_reset_accounts:
  "construction_accounts q \<Longrightarrow> construction_accounts (ConstructionReset q)"
  by (simp add: construction_accounts_def ConstructionReset_def holding_init)

lemma construction_accounts_cong:
  "construction_accounts q \<Longrightarrow> cq_log q' = cq_log q \<Longrightarrow> cq_delivering q' = cq_delivering q \<Longrightarrow>
     (\<And>w. holding w (cq_slots q') = holding w (cq_slots q)) \<Longrightarrow> construction_accounts q'"
  by (simp add: construction_accounts_def)

lemma holding_append [simp]: "holding w (xs @ ys) = holding w xs + holding w ys"
  by (simp add: holding_def)

lemma construction_step_accounts:
  assumes "construction_ok q" "lane_ok (construction_lane q)" "construction_accounts q" "construction_step e q = Some q'"
  shows "construction_accounts q'"
proof (cases e)
  case (UStart a b th n c)
  have "construction_accounts (q\<lparr>cq_stop := x, cq_ready := y, cq_notify := z\<rparr>)" for x y z
    using assms(3) by (rule construction_accounts_cong) simp_all
  note r = this [THEN construction_reset_accounts]
  with UStart assms(3,4) show ?thesis
    by (auto simp: construction_step_def ConstructionStart_def Let_def
      intro: r construction_accounts_cong [OF assms(3)] split: if_splits thread_start.splits)
next
  case (UEnqueue w now)
  with assms(4) have q': "q' = snd (ConstructionEnqueue w now q)" by (simp add: construction_step_def split: if_splits)
  show ?thesis
  proof (cases "q' = q")
    case False
    with q' put_lane [of w now q] assms(2) obtain p i where pi: "i < length (cq_slots q)"
      "slot_view (cq_slots q ! i) = empty_slot"
      "q' = q\<lparr>cq_slots := (cq_slots q)[i := (cq_slots q ! i)\<lparr>cw_work := Some p, cw_state := Queued, cw_queuedAt := now\<rparr>],
            cq_ready := Some True, cq_log := cq_log q @ [Accepted p]\<rparr>"
      by (metis snd_conv)
    then have "holding w (cq_slots q') = holding w (cq_slots q) + (if w = p then 1 else 0)" for w
      using holding_update [of i "cq_slots q" w "cq_slots q' ! i"] by auto
    with assms(3) pi(3) show ?thesis by (auto simp: construction_accounts_def)
  qed (use assms(3) in simp)
next
  case UTake
  have "list_all (\<lambda>slot. cw_work slot \<noteq> None) (filter (\<lambda>slot. cw_state slot = Complete) (cq_slots q))"
    using assms(2) by (auto simp: list_all_iff lane_ok_def construction_lane_def in_set_conv_nth)
  with UTake assms show ?thesis
    using holding_split [of _ "\<lambda>slot. cw_state slot = Complete" "cq_slots q"]
    by (auto simp: construction_accounts_def construction_step_def ConstructionTake_def split: if_splits)
next
  case UDeliver
  have acc: "accepted w (cq_log q) = settled w (cq_log q) + holding w (cq_slots q) + holding w (concat (cq_delivering q))"
    and some: "list_all (\<lambda>slot. cw_work slot \<noteq> None) (concat (cq_delivering q))" for w
    using assms(3) by (simp_all add: construction_accounts_def)
  note defs = construction_step_def ConstructionDeliver_def
  show ?thesis
    unfolding construction_accounts_def
  proof (intro conjI allI)
    fix w
    show "accepted w (cq_log q') = settled w (cq_log q') + holding w (cq_slots q') + holding w (concat (cq_delivering q'))"
      using UDeliver assms(4) acc [of w] some by (auto simp: defs split: if_splits list.splits)
    show "list_all (\<lambda>slot. cw_work slot \<noteq> None) (concat (cq_delivering q'))"
      using UDeliver assms(4) some by (auto simp: defs split: if_splits list.splits)
  qed
next
  case UStop
  with assms(3,4) show ?thesis
    by (auto simp: construction_step_def ConstructionStop_def intro: construction_accounts_cong [OF assms(3)] split: if_splits)
next
  case UStopLocks
  then show ?thesis
    using assms(3,4) holding_split [of _ "\<lambda>slot. cw_state slot \<noteq> Running \<and> cw_state slot \<noteq> Empty" "cq_slots q"]
    by (auto simp: construction_accounts_def construction_step_def ConstructionStopLock_def Let_def add.commute
      split: construction_ui.splits)
next
  case UStopWaits
  have "construction_accounts (q\<lparr>cq_ui := UiIdle, cq_joinable := False, cq_worker := NoThread\<rparr>)"
    using assms(3) by (rule construction_accounts_cong) simp_all
  note r = this [THEN construction_reset_accounts]
  from UStopWaits assms(4) have "construction_step UStopWaits q = Some q'" by simp
  then show ?thesis
    by (cases rule: stop_wait_cases)
       (auto intro: construction_accounts_cong [OF r] construction_accounts_cong [OF assms(3)])
next
  case UJoin
  have "construction_accounts (q\<lparr>cq_stopResult := x\<rparr>)" for x
    using assms(3) by (rule construction_accounts_cong) simp_all
  note r = this [THEN construction_reset_accounts]
  with UJoin assms(3,4) show ?thesis
    by (auto simp: construction_step_def ConstructionJoin_def ConstructionStop_def
      intro: r construction_accounts_cong [OF assms(3)] split: if_splits)
next
  case UJoins
  have "construction_accounts (q\<lparr>cq_joinable := False, cq_worker := NoThread, cq_ui := UiIdle\<rparr>)"
    using assms(3) by (rule construction_accounts_cong) simp_all
  with UJoins assms(4) show ?thesis
    by (auto simp: construction_step_def ConstructionJoined_def intro: construction_reset_accounts split: if_splits)
next
  case WRuns
  with assms(3,4) show ?thesis
    by (auto simp: construction_accounts_def construction_step_def ConstructionRun_def Let_def split: worker_pc.splits)
qed (use assms(4) in \<open>auto simp: construction_step_def ConstructionDrain_def ConstructionWait_def ConstructionSelect_def
      ConstructionPublish_def ConstructionNotify_def Let_def holding_same_work
    intro!: construction_accounts_cong [OF assms(3)] split: if_splits option.splits worker_pc.splits\<close>)

section \<open>What the queue promises\<close>

lemma construction_reach_inv:
  "reaches construction_step ConstructionQueue_init q \<Longrightarrow>
     construction_ok q \<and> lane_ok (construction_lane q) \<and> idle_empty q \<and> wakes_worker q \<and> marks_complete q \<and>
     notifies_ui q \<and> waits_bounded q \<and> construction_accounts q"
proof (induction rule: reaches.induct)
  case reaches_start
  have "idle_empty ConstructionQueue_init" "wakes_worker ConstructionQueue_init" "marks_complete ConstructionQueue_init"
    "notifies_ui ConstructionQueue_init" "waits_bounded ConstructionQueue_init" "construction_accounts ConstructionQueue_init"
    by (simp_all add: idle_empty_def wakes_worker_def marks_complete_def notifies_ui_def waits_bounded_def
      construction_accounts_def ConstructionQueue_init_def ConstructionSlot_init_def holding_def list_all_iff list_ex_iff)
  then show ?case using construction.start_ok by simp
next
  case (reaches_step q e q')
  then show ?case
    using construction_step_lane construction.step_lane [THEN lane_move_ok] construction_step_idle construction_step_wakes
      construction_step_marks construction_step_notifies construction_step_waits construction_step_accounts
    by meson
qed

text \<open>C31: whatever the interleaving, the worker never sleeps on work: while it waits and something is queued the
  ready event is set. What is complete is never forgotten: it is marked for the next drain, and a marked queue
  has a notification posted or about to be.\<close>

theorem construction_never_forgets:
  assumes "reaches construction_step ConstructionQueue_init q" "\<not> stop_signaled q"
  shows "(cq_worker q = AtWait \<and> list_ex (\<lambda>slot. cw_state slot = Queued) (cq_slots q) \<longrightarrow> cq_ready q = Some True) \<and>
    (cq_ui q \<noteq> UiDrainTake \<and> list_ex (\<lambda>slot. cw_state slot = Complete) (cq_slots q) \<longrightarrow> cq_completed q) \<and>
    (cq_joinable q \<and> cq_completed q \<and> cq_notify q \<longrightarrow> cq_posted q \<or> cq_worker q = AtNotify True)"
  using construction_reach_inv [OF assms(1)] assms(2)
  by (simp add: wakes_worker_def marks_complete_def notifies_ui_def)

text \<open>C16: an accepted work item is settled exactly once: it is in one slot of the table, or waits in one drain for
  its \<open>Complete\<close>, or it was completed or released, and never two of these.\<close>

theorem construction_settles_once:
  assumes "reaches construction_step ConstructionQueue_init q"
  shows "accepted w (cq_log q) = settled w (cq_log q) + holding w (cq_slots q) + holding w (concat (cq_delivering q)) \<and>
    holding w (cq_slots q) \<le> 1"
proof -
  have inv: "construction_accounts q" "lane_ok (construction_lane q)" using construction_reach_inv [OF assms] by simp_all
  have "holding w slots \<le> 1" if "\<forall>i < length slots. \<forall>j < length slots. i \<noteq> j \<longrightarrow> cw_work (slots ! i) \<noteq> None
      \<longrightarrow> cw_work (slots ! i) \<noteq> cw_work (slots ! j)" for slots
  proof (rule ccontr)
    assume "\<not> holding w slots \<le> 1"
    then have "\<not> card {i. i < length slots \<and> cw_work (slots ! i) = Some w} \<le> 1"
      by (simp add: holding_def length_filter_conv_card)
    then obtain i j where "i < length slots" "j < length slots" "i \<noteq> j" "cw_work (slots ! i) = Some w" "cw_work (slots ! j) = Some w"
      by (auto simp: card_le_Suc0_iff_eq)
    with that show False by force
  qed
  with inv show ?thesis by (simp add: construction_accounts_def lane_ok_def construction_lane_def)
qed

text \<open>No item waits for ever behind others: while it is queued at most fifteen others are taken.\<close>

theorem construction_fair:
  assumes "reaches construction_step ConstructionQueue_init q" "i < ConstructionCapacity"
    and "turns (\<lambda>q. busy_with (cq_worker q)) (\<lambda>q. snd (fst (construction_lane q) ! i) = Queued) construction_step q n q'"
  shows "n \<le> 15"
proof -
  have "n < ConstructionCapacity"
    by (rule construction.fair [OF assms(1,2)]) (use assms(3) in \<open>simp add: construction_lane_def\<close>)
  then show ?thesis by (simp add: ConstructionCapacity_def)
qed

text \<open>Every step of a reachable queue is a move of the abstract lane, so the worker runs one item at a time, in
  a slot that nothing else touches until its result is published.\<close>

theorem construction_refines_lane:
  assumes "reaches construction_step ConstructionQueue_init q" "construction_step e q = Some q'"
  shows "lane_move (construction_lane q) (construction_lane q') \<and> lane_ok (construction_lane q)"
  using construction_reach_inv [OF assms(1)] construction_step_lane assms(2) by blast

lemma construction_stop_bounded:
  assumes "reaches construction_step ConstructionQueue_init q"
  shows "cq_waited q \<le> 1000"
  using construction_reach_inv [OF assms] by (simp add: waits_bounded_def StopMilliseconds_def)

text \<open>The witnesses queue two items; the worker takes the first while the second waits.\<close>

definition two_queued :: "construction_event list" where
  "two_queued = [UStart 0 0 ThreadStarted True 0, UEnqueue (Some 5) 100, UEnqueue (Some 7) 100]"

lemma two_queued_run:
  "case run_events construction_step ConstructionQueue_init two_queued of
     None \<Rightarrow> False
   | Some q \<Rightarrow> \<not> stop_signaled q \<and> cq_worker q = AtWait \<and> list_ex (\<lambda>slot. cw_state slot = Queued) (cq_slots q) \<and>
       accepted 7 (cq_log q) = 1 \<and> snd (fst (construction_lane q) ! 1) = Queued \<and>
       construction_step WWaits q \<noteq> None \<and>
       map_option fst (turns_run (\<lambda>q. busy_with (cq_worker q)) (\<lambda>q. snd (fst (construction_lane q) ! 1) = Queued)
         construction_step 0 q [WWaits, WSelects, WRuns 110 (\<lambda>_. 0) 120, WPublishes, WNotifies]) = Some 1"
  by code_simp

lemma two_queued_state:
  obtains q q' where "reaches construction_step ConstructionQueue_init q" "\<not> stop_signaled q" "cq_worker q = AtWait"
    "list_ex (\<lambda>slot. cw_state slot = Queued) (cq_slots q)" "accepted 7 (cq_log q) = 1" "construction_step WWaits q \<noteq> None"
    "turns (\<lambda>q. busy_with (cq_worker q)) (\<lambda>q. snd (fst (construction_lane q) ! 1) = Queued) construction_step q 1 q'"
proof -
  let ?w = "\<lambda>q. snd (fst (construction_lane q) ! 1) = Queued"
  let ?b = "\<lambda>q. busy_with (cq_worker q)"
  let ?es = "[WWaits, WSelects, WRuns 110 (\<lambda>_. 0) 120, WPublishes, WNotifies]"
  obtain q where q: "run_events construction_step ConstructionQueue_init two_queued = Some q"
    using two_queued_run by (auto split: option.splits)
  note run = two_queued_run [unfolded q option.case]
  obtain q' where "turns_run ?b ?w construction_step 0 q ?es = Some (1, q')" using run by auto
  moreover have "turns ?b ?w construction_step q 0 q" using run by (intro turns_start) blast
  ultimately have "turns ?b ?w construction_step q 1 q'" by (rule turns_run_turns [rotated])
  with run that [of q q'] run_events_reaches [OF q] show thesis by blast
qed

lemma construction_never_forgets_witness:
  "\<exists>q. reaches construction_step ConstructionQueue_init q \<and> list_ex (\<lambda>slot. cw_state slot = Queued) (cq_slots q) \<and>
     cq_ready q = Some True"
  by (rule two_queued_state) (use construction_never_forgets in \<open>blast\<close>)

lemma construction_settles_once_witness:
  "\<exists>q. reaches construction_step ConstructionQueue_init q \<and>
     settled 7 (cq_log q) + holding 7 (cq_slots q) + holding 7 (concat (cq_delivering q)) = 1"
  by (rule two_queued_state) (use construction_settles_once [of _ 7] in \<open>fastforce\<close>)

lemma construction_fair_witness:
  "\<exists>q q'. turns (\<lambda>q. busy_with (cq_worker q)) (\<lambda>q. snd (fst (construction_lane q) ! 1) = Queued) construction_step q 1 q' \<and>
     1 \<le> (15 :: nat)"
  by (rule two_queued_state) (use construction_fair [of _ 1 1] in \<open>auto simp: ConstructionCapacity_def\<close>)

lemma construction_refines_lane_witness:
  "\<exists>q q'. construction_step WWaits q = Some q' \<and> lane_move (construction_lane q) (construction_lane q')"
  by (rule two_queued_state) (use construction_refines_lane in \<open>blast\<close>)

end
