(* ===== verification/Control_Queue.thy ===== *)
theory Control_Queue
  imports Work_Lane
begin

text \<open>
  \<open>RedXe/ControlWorkQueue.h\<close> and \<open>.cpp\<close>: the lane of control work (audio and camera commands). It differs from
  the construction lane in that a request for an item that is running or complete is kept and honoured by a second
  run, and in that \<open>Stop\<close> waits for the worker. The conventions are those of the construction lane.
\<close>

section \<open>Members\<close>

definition ControlCapacity :: nat where "ControlCapacity = 16"

record ControlSlot =
  kw_work :: "work option"
  kw_state :: SlotState
  kw_result :: hresult
  kw_rerun :: bool
  kw_queuedAt :: u64

definition ControlSlot_init :: ControlSlot where
  "ControlSlot_init = \<lparr>kw_work = None, kw_state = Empty, kw_result = S_OK, kw_rerun = False, kw_queuedAt = 0\<rparr>"

datatype control_ui = KUiIdle | KUiDrainTake | KUiJoin

text \<open>
  A \<open>DrainCompletions\<close> call in progress is the item whose \<open>Complete\<close> has been called, if any, and the rest of its
  array; calls made from a \<open>Complete\<close> nest, the innermost first.
\<close>

type_synonym control_drain = "ControlSlot option \<times> ControlSlot list"

record ControlQueue =
  kq_slots :: "ControlSlot list"
  kq_stop :: "bool option"
  kq_ready :: "bool option"
  kq_notify :: bool
  kq_completed :: bool
  kq_lastSelected :: nat
  kq_joinable :: bool
  kq_apartment :: hresult
  kq_worker :: worker_pc
  kq_ui :: control_ui
  kq_delivering :: "control_drain list"

definition ControlQueue_init :: ControlQueue where
  "ControlQueue_init =
     \<lparr>kq_slots = replicate ControlCapacity ControlSlot_init, kq_stop = None, kq_ready = None, kq_notify = False,
      kq_completed = False, kq_lastSelected = ControlCapacity - 1, kq_joinable = False, kq_apartment = S_OK,
      kq_worker = NoThread, kq_ui = KUiIdle, kq_delivering = []\<rparr>"

definition ControlRunning :: "ControlQueue \<Rightarrow> bool" where
  "ControlRunning q = kq_joinable q"

definition control_stop_signaled :: "ControlQueue \<Rightarrow> bool" where
  "control_stop_signaled q \<longleftrightarrow> kq_stop q = Some True"

section \<open>The UI thread\<close>

definition ControlStart ::
    "hresult \<Rightarrow> hresult \<Rightarrow> thread_start \<Rightarrow> bool \<Rightarrow> hresult \<Rightarrow> ControlQueue \<Rightarrow> hresult \<times> ControlQueue" where
  "ControlStart stop_created ready_created thread notify apartment q =
     (if ControlRunning q then (S_FALSE, q)
      else if FAILED stop_created then (stop_created, q)
      else if FAILED ready_created then (ready_created, q\<lparr>kq_stop := Some False\<rparr>)
      else
        (let q = q\<lparr>kq_stop := Some False, kq_ready := Some False, kq_notify := notify\<rparr>
         in case thread of
              ThreadStarted \<Rightarrow> (S_OK, q\<lparr>kq_joinable := True, kq_worker := AtWait, kq_apartment := apartment\<rparr>)
            | ThreadSystemError \<Rightarrow> (E_FAIL, q\<lparr>kq_stop := None, kq_ready := None\<rparr>)
            | ThreadNoMemory \<Rightarrow> (E_OUTOFMEMORY, q\<lparr>kq_stop := None, kq_ready := None\<rparr>)))"

definition ControlEnqueue :: "work option \<Rightarrow> u64 \<Rightarrow> ControlQueue \<Rightarrow> hresult \<times> ControlQueue" where
  "ControlEnqueue w now q =
     (case w of
        None \<Rightarrow> (E_POINTER, q)
      | Some p \<Rightarrow>
          (if \<not> ControlRunning q then (E_UNEXPECTED, q)
           else
             (case find (\<lambda>i. kw_work (kq_slots q ! i) = Some p) [0..<length (kq_slots q)] of
                Some i \<Rightarrow>
                  (S_FALSE,
                   if kw_state (kq_slots q ! i) \<noteq> Queued
                   then q\<lparr>kq_slots := (kq_slots q)[i := (kq_slots q ! i)\<lparr>kw_rerun := True\<rparr>]\<rparr>
                   else q)
              | None \<Rightarrow>
                  (case find (\<lambda>i. kw_state (kq_slots q ! i) = Empty) [0..<length (kq_slots q)] of
                     Some i \<Rightarrow>
                       (S_OK, q\<lparr>kq_slots := (kq_slots q)[i := (kq_slots q ! i)
                                              \<lparr>kw_work := Some p, kw_state := Queued, kw_queuedAt := now\<rparr>],
                                kq_ready := Some True\<rparr>)
                   | None \<Rightarrow> (HRESULT_FROM_WIN32 170, q)))))"

text \<open>\<open>DrainCompletions\<close>: the exchange, the lock, one \<open>Complete\<close>, and what follows it.\<close>

definition ControlDrain :: "ControlQueue \<Rightarrow> ControlQueue" where
  "ControlDrain q = (if \<not> kq_completed q then q else q\<lparr>kq_completed := False, kq_ui := KUiDrainTake\<rparr>)"

definition ControlTake :: "ControlQueue \<Rightarrow> ControlQueue" where
  "ControlTake q =
     q\<lparr>kq_slots := map (\<lambda>slot. if kw_state slot = Complete then ControlSlot_init else slot) (kq_slots q),
       kq_delivering := (None, filter (\<lambda>slot. kw_state slot = Complete) (kq_slots q)) # kq_delivering q,
       kq_ui := KUiIdle\<rparr>"

definition ControlDeliver :: "ControlQueue \<Rightarrow> ControlQueue option" where
  "ControlDeliver q =
     (case kq_delivering q of
        (None, []) # rest \<Rightarrow> Some (q\<lparr>kq_delivering := rest\<rparr>)
      | (None, slot # slots) # rest \<Rightarrow>
          Some (if \<not> ControlRunning q then q\<lparr>kq_delivering := rest\<rparr>
                else q\<lparr>kq_delivering := (Some slot, slots) # rest\<rparr>)
      | _ \<Rightarrow> None)"

definition ControlAfterComplete :: "u64 \<Rightarrow> ControlQueue \<Rightarrow> ControlQueue option" where
  "ControlAfterComplete now q =
     (case kq_delivering q of
        (Some slot, slots) # rest \<Rightarrow>
          (let q = q\<lparr>kq_delivering := (None, slots) # rest\<rparr>
           in Some (if kw_rerun slot \<and> ControlRunning q then snd (ControlEnqueue (kw_work slot) now q) else q))
      | _ \<Rightarrow> None)"

text \<open>\<open>Stop\<close>: the event, and after the join the release of everything.\<close>

definition ControlReset :: "ControlQueue \<Rightarrow> ControlQueue" where
  "ControlReset q =
     q\<lparr>kq_slots := replicate ControlCapacity ControlSlot_init, kq_completed := False, kq_notify := False,
       kq_ready := None, kq_stop := None\<rparr>"

definition ControlStop :: "ControlQueue \<Rightarrow> ControlQueue" where
  "ControlStop q = (if kq_joinable q then q\<lparr>kq_stop := Some True, kq_ui := KUiJoin\<rparr> else ControlReset q)"

definition ControlJoined :: "ControlQueue \<Rightarrow> ControlQueue" where
  "ControlJoined q = ControlReset (q\<lparr>kq_joinable := False, kq_worker := NoThread, kq_ui := KUiIdle\<rparr>)"

section \<open>The worker\<close>

definition ControlWait :: "ControlQueue \<Rightarrow> ControlQueue option" where
  "ControlWait q =
     (if control_stop_signaled q then Some (q\<lparr>kq_worker := Returned\<rparr>)
      else if kq_ready q = Some True then Some (q\<lparr>kq_ready := Some False, kq_worker := AtCheck\<rparr>)
      else None)"

definition ControlCheck :: "ControlQueue \<Rightarrow> ControlQueue" where
  "ControlCheck q = q\<lparr>kq_worker := (if control_stop_signaled q then Returned else AtSelect)\<rparr>"

definition select_control :: "ControlSlot list \<Rightarrow> nat \<Rightarrow> nat option" where
  "select_control slots lastSelected =
     find (\<lambda>i. kw_state (slots ! i) = Queued)
       (map (\<lambda>offset. (lastSelected + offset) mod ControlCapacity) [1..<length slots + 1])"

definition ControlSelect :: "ControlQueue \<Rightarrow> ControlQueue" where
  "ControlSelect q =
     (case select_control (kq_slots q) (kq_lastSelected q) of
        None \<Rightarrow> q\<lparr>kq_worker := AtWait\<rparr>
      | Some i \<Rightarrow> q\<lparr>kq_lastSelected := i, kq_slots := (kq_slots q)[i := (kq_slots q ! i)\<lparr>kw_state := Running\<rparr>],
                   kq_worker := AtRun i\<rparr>)"

definition control_result :: "hresult \<Rightarrow> u64 \<Rightarrow> (u32 \<Rightarrow> hresult) \<Rightarrow> u64 \<Rightarrow> hresult" where
  "control_result apartment now run queuedAt =
     (let age = now - queuedAt
      in if FAILED apartment then apartment
         else if age \<ge> 3000 then HRESULT_FROM_WIN32 1460
         else run (ucast (3000 - age)))"

definition ControlRun :: "nat \<Rightarrow> u64 \<Rightarrow> (u32 \<Rightarrow> hresult) \<Rightarrow> ControlQueue \<Rightarrow> ControlQueue" where
  "ControlRun i now run q =
     q\<lparr>kq_worker := AtPublish i (control_result (kq_apartment q) now run (kw_queuedAt (kq_slots q ! i)))\<rparr>"

definition ControlPublish :: "nat \<Rightarrow> hresult \<Rightarrow> ControlQueue \<Rightarrow> ControlQueue" where
  "ControlPublish i result q =
     q\<lparr>kq_slots := (kq_slots q)[i := (kq_slots q ! i)\<lparr>kw_result := result, kw_state := Complete\<rparr>],
       kq_completed := True, kq_worker := AtNotify True\<rparr>"

definition ControlNotify :: "ControlQueue \<Rightarrow> ControlQueue" where
  "ControlNotify q = q\<lparr>kq_worker := AtCheck\<rparr>"

section \<open>Steps\<close>

datatype control_event =
    KStart hresult hresult thread_start bool hresult
  | KEnqueue "work option" u64
  | KDrain | KTake | KDeliver | KAfterComplete u64
  | KStop | KJoins
  | KWaits | KChecks | KSelects | KRuns u64 "u32 \<Rightarrow> hresult" | KPublishes | KNotifies

definition control_step :: "control_event \<Rightarrow> ControlQueue \<Rightarrow> ControlQueue option" where
  "control_step e q =
     (case e of
        KStart a b th n c \<Rightarrow> (if kq_ui q = KUiIdle then Some (snd (ControlStart a b th n c q)) else None)
      | KEnqueue w now \<Rightarrow> (if kq_ui q = KUiIdle then Some (snd (ControlEnqueue w now q)) else None)
      | KDrain \<Rightarrow> (if kq_ui q = KUiIdle then Some (ControlDrain q) else None)
      | KTake \<Rightarrow> (if kq_ui q = KUiDrainTake then Some (ControlTake q) else None)
      | KDeliver \<Rightarrow> (if kq_ui q = KUiIdle then ControlDeliver q else None)
      | KAfterComplete now \<Rightarrow> (if kq_ui q = KUiIdle then ControlAfterComplete now q else None)
      | KStop \<Rightarrow> (if kq_ui q = KUiIdle then Some (ControlStop q) else None)
      | KJoins \<Rightarrow> (if kq_ui q = KUiJoin \<and> kq_worker q = Returned then Some (ControlJoined q) else None)
      | KWaits \<Rightarrow> (if kq_worker q = AtWait then ControlWait q else None)
      | KChecks \<Rightarrow> (if kq_worker q = AtCheck then Some (ControlCheck q) else None)
      | KSelects \<Rightarrow> (if kq_worker q = AtSelect then Some (ControlSelect q) else None)
      | KRuns now run \<Rightarrow> (case kq_worker q of AtRun i \<Rightarrow> Some (ControlRun i now run q) | _ \<Rightarrow> None)
      | KPublishes \<Rightarrow> (case kq_worker q of AtPublish i r \<Rightarrow> Some (ControlPublish i r q) | _ \<Rightarrow> None)
      | KNotifies \<Rightarrow> (case kq_worker q of AtNotify n \<Rightarrow> Some (ControlNotify q) | _ \<Rightarrow> None))"

section \<open>A lane\<close>

abbreviation control_slot_view :: "ControlSlot \<Rightarrow> lane_slot" where
  "control_slot_view slot \<equiv> (kw_work slot, kw_state slot)"

definition control_lane :: "ControlQueue \<Rightarrow> lane_slot list \<times> nat option" where
  "control_lane q = (map control_slot_view (kq_slots q), busy_with (kq_worker q))"

definition rerun_ok :: "ControlSlot \<Rightarrow> bool" where
  "rerun_ok slot \<longleftrightarrow> (kw_rerun slot \<longrightarrow> kw_state slot = Running \<or> kw_state slot = Complete)"

definition control_ok :: "ControlQueue \<Rightarrow> bool" where
  "control_ok q \<longleftrightarrow>
     length (kq_slots q) = ControlCapacity \<and> kq_lastSelected q < ControlCapacity \<and>
     (kq_joinable q \<longleftrightarrow> kq_worker q \<noteq> NoThread) \<and> list_all rerun_ok (kq_slots q) \<and>
     (kq_joinable q \<or> list_all (\<lambda>slot. kw_state slot = Empty) (kq_slots q))"

lemma rerun_ok_init [simp]: "rerun_ok ControlSlot_init" by (simp add: rerun_ok_def ControlSlot_init_def)

lemma control_clear_map:
  assumes "\<And>slot. P slot \<Longrightarrow> kw_state slot \<noteq> Running"
  shows "lane_move (map control_slot_view slots, b) (map control_slot_view (map (\<lambda>slot. if P slot then ControlSlot_init else slot) slots), b)"
  using assms by (intro lane_move.clear) (auto simp: ControlSlot_init_def)

lemma select_control_round_robin:
  "length slots = ControlCapacity \<Longrightarrow> select_control slots c = round_robin (map control_slot_view slots) c"
proof -
  assume len: "length slots = ControlCapacity"
  have "find (\<lambda>i. kw_state (slots ! i) = Queued) xs = find (\<lambda>i. snd (map control_slot_view slots ! i) = Queued) xs"
    if "\<forall>i \<in> set xs. i < length slots" for xs
    using that by (induction xs) auto
  moreover have "\<forall>i \<in> set (map (\<lambda>k. (c + k) mod ControlCapacity) [1..<length slots + 1]). i < length slots"
    by (auto simp: len ControlCapacity_def)
  ultimately show ?thesis by (simp add: select_control_def round_robin_def len del: upt_Suc)
qed

lemma select_control_Some:
  "length slots = ControlCapacity \<Longrightarrow> select_control slots c = Some i \<Longrightarrow>
     i < length slots \<and> kw_state (slots ! i) = Queued"
proof -
  assume a: "length slots = ControlCapacity" "select_control slots c = Some i"
  then have "slots \<noteq> []" by (auto simp: ControlCapacity_def)
  with a round_robin_Some [of "map control_slot_view slots" c i] select_control_round_robin [of slots c]
  show ?thesis by auto
qed

text \<open>What an \<open>Enqueue\<close> can do.\<close>

lemma control_enqueue_cases:
  assumes "lane_ok (control_lane q)"
  obtains (nothing) "snd (ControlEnqueue w now q) = q"
    | (again) p i where "w = Some p" "i < length (kq_slots q)" "kw_work (kq_slots q ! i) = Some p"
        "kw_state (kq_slots q ! i) = Running \<or> kw_state (kq_slots q ! i) = Complete" "kq_joinable q"
        "ControlEnqueue w now q = (S_FALSE, q\<lparr>kq_slots := (kq_slots q)[i := (kq_slots q ! i)\<lparr>kw_rerun := True\<rparr>]\<rparr>)"
    | (fresh) p i where "w = Some p" "i < length (kq_slots q)" "kw_work (kq_slots q ! i) = None"
        "kw_state (kq_slots q ! i) = Empty" "Some p \<notin> kw_work ` set (kq_slots q)" "kq_joinable q"
        "ControlEnqueue w now q = (S_OK, q\<lparr>kq_slots := (kq_slots q)[i := (kq_slots q ! i)
           \<lparr>kw_work := Some p, kw_state := Queued, kw_queuedAt := now\<rparr>], kq_ready := Some True\<rparr>)"
proof -
  have shape: "kw_state (kq_slots q ! i) = Empty \<longleftrightarrow> kw_work (kq_slots q ! i) = None" if "i < length (kq_slots q)" for i
    using assms that by (simp add: lane_ok_def control_lane_def)
  show thesis
  proof (cases "w = None \<or> \<not> kq_joinable q")
    case True
    then show thesis by - (rule nothing, auto simp: ControlEnqueue_def ControlRunning_def split: option.splits)
  next
    case False
    then obtain p where p: "w = Some p" "kq_joinable q" by auto
    show thesis
    proof (cases "find (\<lambda>i. kw_work (kq_slots q ! i) = Some p) [0..<length (kq_slots q)]")
      case (Some i)
      then have i: "i < length (kq_slots q)" "kw_work (kq_slots q ! i) = Some p" by (auto simp: find_Some_iff)
      show thesis
      proof (cases "kw_state (kq_slots q ! i) = Queued")
        case True
        with p Some show thesis by - (rule nothing, simp add: ControlEnqueue_def ControlRunning_def)
      next
        case False
        then have "kw_state (kq_slots q ! i) = Running \<or> kw_state (kq_slots q ! i) = Complete"
          using shape [OF i(1)] i(2) by (cases "kw_state (kq_slots q ! i)") auto
        with p Some i False show thesis
          by - (rule again [of p i], simp_all add: ControlEnqueue_def ControlRunning_def)
      qed
    next
      case None
      then have new: "Some p \<notin> kw_work ` set (kq_slots q)" by (auto simp: find_None_iff in_set_conv_nth)
      show thesis
      proof (cases "find (\<lambda>i. kw_state (kq_slots q ! i) = Empty) [0..<length (kq_slots q)]")
        case None
        with p \<open>find (\<lambda>i. kw_work (kq_slots q ! i) = Some p) _ = None\<close> show thesis
          by - (rule nothing, simp add: ControlEnqueue_def ControlRunning_def)
      next
        case (Some i)
        then have "i < length (kq_slots q)" "kw_state (kq_slots q ! i) = Empty" by (auto simp: find_Some_iff)
        with p None new Some shape show thesis
          by - (rule fresh [of p i], auto simp: ControlEnqueue_def ControlRunning_def)
      qed
    qed
  qed
qed

lemma control_enqueue_lane:
  assumes "control_ok q" "lane_ok (control_lane q)"
  shows "lane_move (control_lane q) (control_lane (snd (ControlEnqueue w now q))) \<and> control_ok (snd (ControlEnqueue w now q))"
  using assms(2)
proof (cases rule: control_enqueue_cases [where w = w and now = now])
  case nothing
  with assms show ?thesis by (simp add: lane_move.rest)
next
  case (again p i)
  then have "map control_slot_view ((kq_slots q)[i := (kq_slots q ! i)\<lparr>kw_rerun := True\<rparr>]) = map control_slot_view (kq_slots q)"
    by (simp add: map_update list_update_same_conv)
  with again assms(1) show ?thesis
    by (auto simp: control_lane_def control_ok_def rerun_ok_def lane_move.rest intro!: list_all_update)
next
  case (fresh p i)
  then have "lane_move (map control_slot_view (kq_slots q), busy_with (kq_worker q))
      ((map control_slot_view (kq_slots q))[i := (Some p, Queued)], busy_with (kq_worker q))"
    by (intro lane_move.put) (auto simp: image_image)
  moreover have "\<not> kw_rerun (kq_slots q ! i)"
    using assms(1) fresh(2,4) by (auto simp: control_ok_def list_all_length rerun_ok_def)
  ultimately show ?thesis
    using fresh assms(1) by (auto simp: control_lane_def control_ok_def rerun_ok_def map_update intro!: list_all_update)
qed

lemma control_step_lane:
  assumes "control_ok q" "lane_ok (control_lane q)" "control_step e q = Some q'"
  shows "lane_move (control_lane q) (control_lane q') \<and> control_ok q'"
proof -
  have busy: "i < length (kq_slots q)" "kw_state (kq_slots q ! i) = Running" "kw_work (kq_slots q ! i) \<noteq> None"
    if "busy_with (kq_worker q) = Some i" for i
  proof -
    show i: "i < length (kq_slots q)" "kw_state (kq_slots q ! i) = Running"
      using assms(2) that by (auto simp: lane_ok_def control_lane_def)
    have "kw_state (kq_slots q ! i) = Empty \<longleftrightarrow> kw_work (kq_slots q ! i) = None"
      using assms(2) i(1) by (simp add: lane_ok_def control_lane_def)
    with i show "kw_work (kq_slots q ! i) \<noteq> None" by simp
  qed
  have reset: "lane_move (control_lane q) (replicate ControlCapacity empty_slot, None)" if "busy_with (kq_worker q) = None"
    using assms that unfolding control_lane_def that
    by (intro lane_move.clear) (auto simp: control_ok_def lane_ok_def control_lane_def)
  note defs = control_step_def control_lane_def control_ok_def ControlSlot_init_def
  show ?thesis
  proof (cases e)
    case (KStart a b th n c)
    with assms(1,3) show ?thesis
      by (auto simp: defs ControlStart_def ControlRunning_def Let_def intro: lane_move.rest split: if_splits thread_start.splits)
  next
    case (KEnqueue w now)
    with assms control_enqueue_lane show ?thesis by (auto simp: control_step_def split: if_splits)
  next
    case KTake
    with assms(1,3) show ?thesis
      by (auto simp: control_step_def control_lane_def control_ok_def ControlTake_def list_all_iff
        intro!: control_clear_map split: if_splits simp del: map_map)
  next
    case (KAfterComplete now)
    define r where "r = q\<lparr>kq_delivering := (case kq_delivering q of (Some slot, slots) # rest \<Rightarrow> (None, slots) # rest | d \<Rightarrow> d)\<rparr>"
    have "control_ok r" "lane_ok (control_lane r)" "control_lane r = control_lane q"
      using assms(1,2) by (auto simp: r_def control_ok_def control_lane_def)
    moreover have "q' = r \<or> (\<exists>w. q' = snd (ControlEnqueue w now r))"
      using KAfterComplete assms(3)
      by (auto simp: control_step_def ControlAfterComplete_def r_def Let_def split: if_splits list.splits option.splits)
    ultimately show ?thesis using control_enqueue_lane by (metis lane_move.rest)
  next
    case KStop
    with assms reset show ?thesis
      by (auto simp: defs ControlStop_def ControlReset_def list_all_length ControlCapacity_def rerun_ok_def intro: lane_move.rest split: if_splits)
  next
    case KJoins
    with assms reset show ?thesis
      by (auto simp: defs ControlJoined_def ControlReset_def list_all_length ControlCapacity_def rerun_ok_def split: if_splits)
  next
    case KSelects
    show ?thesis
    proof (cases "select_control (kq_slots q) (kq_lastSelected q)")
      case None
      with KSelects assms show ?thesis
        by (auto simp: defs ControlSelect_def intro: lane_move.rest split: if_splits)
    next
      case (Some i)
      with assms(1) have len: "i < length (kq_slots q)" "kw_state (kq_slots q ! i) = Queued"
        using select_control_Some by (auto simp: control_ok_def)
      then obtain w where w: "kw_work (kq_slots q ! i) = Some w"
        using assms(2) by (fastforce simp: lane_ok_def control_lane_def)
      with len have "lane_move (map control_slot_view (kq_slots q), None) ((map control_slot_view (kq_slots q))[i := (Some w, Running)], Some i)"
        by (intro lane_move.begin_work) auto
      with KSelects assms Some len w show ?thesis
        by (auto simp: defs ControlSelect_def rerun_ok_def map_update intro!: list_all_update split: if_splits)
    qed
  next
    case KPublishes
    then obtain i r where w: "kq_worker q = AtPublish i r" "q' = ControlPublish i r q"
      using assms(3) by (auto simp: control_step_def split: worker_pc.splits)
    with busy [of i] obtain x where x: "i < length (kq_slots q)" "kw_work (kq_slots q ! i) = Some x"
      "kw_state (kq_slots q ! i) = Running" by auto
    then have "lane_move (map control_slot_view (kq_slots q), Some i) ((map control_slot_view (kq_slots q))[i := (Some x, Complete)], None)"
      by (intro lane_move.end_work) auto
    with w x assms(1) show ?thesis
      by (auto simp: control_lane_def control_ok_def ControlPublish_def rerun_ok_def map_update intro!: list_all_update)
  qed (use assms(1,3) in \<open>auto simp: control_step_def control_lane_def control_ok_def ControlDrain_def ControlDeliver_def
        ControlWait_def ControlCheck_def ControlRun_def ControlNotify_def
        intro!: lane_move.rest split: if_splits list.splits option.splits worker_pc.splits\<close>)
qed

lemma control_enqueue_fields:
  "kq_worker (snd (ControlEnqueue w now q)) = kq_worker q" "kq_lastSelected (snd (ControlEnqueue w now q)) = kq_lastSelected q"
  by (auto simp: ControlEnqueue_def split: option.splits)

lemma control_step_turn:
  assumes "control_ok q" "control_step e q = Some q'"
    and "snd (control_lane q) = None" "snd (control_lane q') = Some i"
  shows "round_robin (fst (control_lane q)) (kq_lastSelected q) = Some i \<and> kq_lastSelected q' = i"
  using assms select_control_round_robin [of "kq_slots q" "kq_lastSelected q"]
  by (cases e)
     (auto simp: control_step_def control_lane_def control_ok_def Let_def control_enqueue_fields
        ControlStart_def ControlReset_def ControlDrain_def ControlTake_def ControlDeliver_def ControlAfterComplete_def
        ControlStop_def ControlJoined_def ControlWait_def ControlCheck_def ControlSelect_def ControlRun_def
        ControlPublish_def ControlNotify_def
      split: if_splits list.splits option.splits worker_pc.splits thread_start.splits)

lemma control_step_cursor:
  assumes "control_ok q" "control_step e q = Some q'"
    and "snd (control_lane q) \<noteq> None \<or> snd (control_lane q') = None"
  shows "kq_lastSelected q' = kq_lastSelected q"
  using assms
  by (cases e)
     (auto simp: control_step_def control_lane_def Let_def control_enqueue_fields
        ControlStart_def ControlReset_def ControlDrain_def ControlTake_def ControlDeliver_def ControlAfterComplete_def
        ControlStop_def ControlJoined_def ControlWait_def ControlCheck_def ControlSelect_def ControlRun_def
        ControlPublish_def ControlNotify_def
      split: if_splits list.splits option.splits worker_pc.splits thread_start.splits)

interpretation control: work_lane ControlQueue_init control_lane kq_lastSelected control_step control_ok ControlCapacity
proof (unfold_locales, goal_cases)
  case 1
  show ?case by (simp add: control_ok_def ControlQueue_init_def ControlCapacity_def ControlSlot_init_def rerun_ok_def list_all_length)
next
  case 2
  show ?case
    using lane_ok_start [of ControlCapacity] by (simp add: control_lane_def ControlQueue_init_def ControlSlot_init_def)
next
  case (3 s)
  then show ?case by (simp add: control_ok_def control_lane_def)
next
  case (4 s e s')
  then show ?case using control_step_lane by blast
next
  case (5 s e s')
  then show ?case using control_step_lane by blast
next
  case (6 s e s' i)
  then show ?case using control_step_turn by blast
next
  case (7 s e s' i)
  then show ?case using control_step_cursor by blast
qed

section \<open>Requests\<close>

text \<open>
  What the queue owes its clients: an item is requested while it is queued, while its run is to be repeated, and
  while a drain in progress is to enqueue it again.
\<close>

definition slot_requests :: "work \<Rightarrow> ControlSlot \<Rightarrow> bool" where
  "slot_requests w slot \<longleftrightarrow> kw_work slot = Some w \<and> (kw_state slot = Queued \<or> kw_rerun slot)"

definition drain_slots :: "control_drain list \<Rightarrow> ControlSlot list" where
  "drain_slots drains = concat (map (\<lambda>(current, rest). (case current of None \<Rightarrow> rest | Some slot \<Rightarrow> slot # rest)) drains)"

lemma drain_slots_simps [simp]:
  "drain_slots [] = []" "drain_slots ((None, slots) # drains) = slots @ drain_slots drains"
  "drain_slots ((Some slot, slots) # drains) = slot # slots @ drain_slots drains"
  by (simp_all add: drain_slots_def)

definition control_requested :: "work \<Rightarrow> ControlQueue \<Rightarrow> bool" where
  "control_requested w q \<longleftrightarrow>
     list_ex (slot_requests w) (kq_slots q) \<or>
     list_ex (\<lambda>slot. kw_work slot = Some w \<and> kw_rerun slot) (drain_slots (kq_delivering q))"

definition running_work :: "ControlQueue \<Rightarrow> work option" where
  "running_work q = (case busy_with (kq_worker q) of None \<Rightarrow> None | Some i \<Rightarrow> kw_work (kq_slots q ! i))"

definition control_view :: "ControlQueue \<Rightarrow> work set \<times> work option" where
  "control_view q = ({w. control_requested w q}, running_work q)"

text \<open>An item that a drain in progress is to enqueue again, beside whatever the slots hold.\<close>

definition drain_repeats :: "work \<Rightarrow> ControlQueue \<Rightarrow> bool" where
  "drain_repeats w q \<longleftrightarrow> list_ex (\<lambda>slot. kw_work slot = Some w \<and> kw_rerun slot) (drain_slots (kq_delivering q))"

text \<open>
  The abstract queue is the set of requested items and the item in work. What an event does to it: an accepted
  \<open>Enqueue\<close>, whether answered \<open>S_OK\<close> or \<open>S_FALSE\<close>, adds its item and a refused one changes nothing; the selection takes a
  requested item into work, and does so whenever one is queued; the end of a run removes nothing; no other event
  touches the queue.
\<close>

fun request_effect :: "control_event \<Rightarrow> ControlQueue \<Rightarrow> work set \<times> work option \<Rightarrow> work set \<times> work option \<Rightarrow> bool" where
  "request_effect (KEnqueue w now) q (p, r) v \<longleftrightarrow>
     v = (if SUCCEEDED (fst (ControlEnqueue w now q)) then insert (the w) p else p, r)"
| "request_effect KSelects q (p, r) v \<longleftrightarrow>
     (if list_ex (\<lambda>slot. kw_state slot = Queued) (kq_slots q)
      then r = None \<and> (\<exists>w \<in> p. v = (if drain_repeats w q then p else p - {w}, Some w))
      else v = (p, r))"
| "request_effect KPublishes q (p, r) v \<longleftrightarrow> r \<noteq> None \<and> v = (p, None)"
| "request_effect e q u v \<longleftrightarrow> v = u"

lemma requested_iff:
  "i < length (kq_slots q) \<Longrightarrow>
   control_requested v (q\<lparr>kq_slots := (kq_slots q)[i := x], kq_ready := y\<rparr>) \<longleftrightarrow>
     slot_requests v x \<or> (\<exists>j < length (kq_slots q). j \<noteq> i \<and> slot_requests v (kq_slots q ! j)) \<or>
     list_ex (\<lambda>slot. kw_work slot = Some v \<and> kw_rerun slot) (drain_slots (kq_delivering q))"
  "i < length (kq_slots q) \<Longrightarrow>
   control_requested v q \<longleftrightarrow>
     slot_requests v (kq_slots q ! i) \<or> (\<exists>j < length (kq_slots q). j \<noteq> i \<and> slot_requests v (kq_slots q ! j)) \<or>
     list_ex (\<lambda>slot. kw_work slot = Some v \<and> kw_rerun slot) (drain_slots (kq_delivering q))"
  by (auto simp: control_requested_def list_ex_updated) (auto simp: list_ex_length)

lemma enqueue_accepted:
  assumes "SUCCEEDED (fst (ControlEnqueue (Some p) now q))"
  shows "control_requested p (snd (ControlEnqueue (Some p) now q))"
proof (cases "find (\<lambda>i. kw_work (kq_slots q ! i) = Some p) [0..<length (kq_slots q)]")
  case (Some i)
  then have i: "i < length (kq_slots q)" "kw_work (kq_slots q ! i) = Some p" by (auto simp: find_Some_iff)
  have "ControlRunning q" using assms by (auto simp: ControlEnqueue_def SUCCEEDED_def E_UNEXPECTED_def split: if_splits)
  with Some i show ?thesis
    by (auto simp: ControlEnqueue_def control_requested_def slot_requests_def list_ex_length nth_list_update
      intro!: exI [of _ i])
next
  case None
  then obtain i where "find (\<lambda>i. kw_state (kq_slots q ! i) = Empty) [0..<length (kq_slots q)] = Some i" "ControlRunning q"
    using assms by (auto simp: ControlEnqueue_def SUCCEEDED_def E_UNEXPECTED_def HRESULT_FROM_WIN32_def split: if_splits option.splits)
  moreover from this have "i < length (kq_slots q)" by (auto simp: find_Some_iff)
  ultimately show ?thesis using None
    by (auto simp: ControlEnqueue_def control_requested_def slot_requests_def list_ex_length nth_list_update
      intro!: exI [of _ i])
qed

lemma enqueue_view:
  assumes "lane_ok (control_lane q)" "list_all rerun_ok (kq_slots q)"
  shows "control_view (snd (ControlEnqueue w now q)) =
    (if SUCCEEDED (fst (ControlEnqueue w now q)) then insert (the w) (fst (control_view q)) else fst (control_view q), running_work q)"
  using assms(1)
proof (cases rule: control_enqueue_cases [where w = w and now = now])
  case (again p i)
  let ?q = "snd (ControlEnqueue w now q)"
  have q: "?q = q\<lparr>kq_slots := (kq_slots q)[i := (kq_slots q ! i)\<lparr>kw_rerun := True\<rparr>], kq_ready := kq_ready q\<rparr>"
    using again by simp
  have "control_requested v ?q \<longleftrightarrow> v = p \<or> control_requested v q" for v
    unfolding q requested_iff [OF again(2)] by (auto simp: slot_requests_def again(3))
  moreover have "running_work ?q = running_work q"
    using again by (auto simp: running_work_def nth_list_update split: option.splits)
  ultimately show ?thesis using again(1,6) by (auto simp: control_view_def SUCCEEDED_def S_FALSE_def)
next
  case (fresh p i)
  let ?q = "snd (ControlEnqueue w now q)"
  have "\<not> kw_rerun (kq_slots q ! i)" using assms(2) fresh(2,4) by (auto simp: list_all_length rerun_ok_def)
  then have "control_requested v ?q \<longleftrightarrow> v = p \<or> control_requested v q" for v
    unfolding fresh(7) snd_conv requested_iff [OF fresh(2)] by (auto simp: slot_requests_def fresh(3))
  moreover have "busy_with (kq_worker q) \<noteq> Some i"
  proof
    assume "busy_with (kq_worker q) = Some i"
    then have "kw_state (kq_slots q ! i) = Running" using assms(1) fresh(2) by (simp add: lane_ok_def control_lane_def)
    with fresh(4) show False by simp
  qed
  then have "running_work ?q = running_work q"
    using fresh by (auto simp: running_work_def nth_list_update split: option.splits)
  ultimately show ?thesis using fresh(1,7) by (auto simp: control_view_def SUCCEEDED_def S_OK_def)
next
  case nothing
  then have same: "snd (ControlEnqueue w now q) = q" by blast
  have "control_requested (the w) q" if "SUCCEEDED (fst (ControlEnqueue w now q))"
  proof (cases w)
    case None
    then show ?thesis using that by (simp add: ControlEnqueue_def SUCCEEDED_def E_POINTER_def)
  next
    case (Some p)
    then have "snd (ControlEnqueue (Some p) now q) = q" using same by simp
    then show ?thesis using enqueue_accepted [of p now q] that Some by simp
  qed
  then show ?thesis using same by (auto simp: control_view_def)
qed

lemma select_control_None:
  assumes "length slots = ControlCapacity" "select_control slots c = None" "c < ControlCapacity"
  shows "\<not> list_ex (\<lambda>slot. kw_state slot = Queued) slots"
proof -
  have "round_robin (map control_slot_view slots) c = None"
    using assms select_control_round_robin by simp
  from round_robin_None [OF this] show ?thesis using assms(1,3) by (auto simp: list_ex_length)
qed

lemma enqueue_not_full:
  assumes "ControlRunning q" "\<not> list_all (\<lambda>slot. kw_state slot \<noteq> Empty) (kq_slots q)"
  shows "SUCCEEDED (fst (ControlEnqueue (Some p) now q))"
proof -
  have "find (\<lambda>i. kw_state (kq_slots q ! i) = Empty) [0..<length (kq_slots q)] \<noteq> None"
    using assms(2) by (auto simp: find_None_iff list_all_length)
  then show ?thesis using assms(1)
    by (auto simp: ControlEnqueue_def SUCCEEDED_def S_OK_def S_FALSE_def split: option.splits)
qed

lemma requested_cong:
  "kq_slots q' = kq_slots q \<Longrightarrow> kq_delivering q' = kq_delivering q \<Longrightarrow> busy_with (kq_worker q') = busy_with (kq_worker q)
     \<Longrightarrow> control_view q' = control_view q"
  by (auto simp: control_view_def control_requested_def running_work_def split: option.splits)

lemma take_view:
  assumes "control_ok q" "lane_ok (control_lane q)"
  shows "control_view (ControlTake q) = control_view q"
proof -
  have "control_requested v (ControlTake q) \<longleftrightarrow> control_requested v q" for v
    using assms(1)
    by (auto simp: control_requested_def ControlTake_def list_ex_iff slot_requests_def ControlSlot_init_def
      control_ok_def list_all_iff rerun_ok_def)
  moreover have "running_work (ControlTake q) = running_work q"
    using assms(2)
    by (auto simp: running_work_def ControlTake_def lane_ok_def control_lane_def ControlSlot_init_def split: option.splits)
  ultimately show ?thesis by (simp add: control_view_def)
qed

lemma select_view:
  assumes "control_ok q" "lane_ok (control_lane q)" "busy_with (kq_worker q) = None"
  shows "request_effect KSelects q (control_view q) (control_view (ControlSelect q))"
proof (cases "select_control (kq_slots q) (kq_lastSelected q)")
  case None
  then have "\<not> list_ex (\<lambda>slot. kw_state slot = Queued) (kq_slots q)"
    using assms(1) select_control_None [OF _ None] by (simp add: control_ok_def)
  moreover have "control_view (ControlSelect q) = control_view q"
    using assms(3) None by (intro requested_cong) (simp_all add: ControlSelect_def)
  ultimately show ?thesis by (simp add: control_view_def)
next
  case (Some i)
  with assms(1) have i: "i < length (kq_slots q)" "kw_state (kq_slots q ! i) = Queued"
    using select_control_Some by (auto simp: control_ok_def)
  then obtain w where w: "kw_work (kq_slots q ! i) = Some w"
    using assms(2) by (fastforce simp: lane_ok_def control_lane_def)
  let ?q = "q\<lparr>kq_slots := (kq_slots q)[i := (kq_slots q ! i)\<lparr>kw_state := Running\<rparr>], kq_ready := kq_ready q\<rparr>"
  have nr: "\<not> kw_rerun (kq_slots q ! i)" using assms(1) i by (auto simp: control_ok_def list_all_length rerun_ok_def)
  have eq: "control_requested v (ControlSelect q) = control_requested v ?q" for v
    using Some by (simp add: ControlSelect_def control_requested_def)
  have other: "kw_work (kq_slots q ! j) \<noteq> Some w" if "j < length (kq_slots q)" "j \<noteq> i" for j
    using assms(2) i(1) w that by (simp add: lane_ok_def control_lane_def) metis
  have "control_requested v (ControlSelect q) = control_requested v q" if "v \<noteq> w" for v
    unfolding eq requested_iff [OF i(1)] using that w by (auto simp: slot_requests_def)
  moreover have "control_requested w (ControlSelect q) \<longleftrightarrow> drain_repeats w q"
    unfolding eq requested_iff [OF i(1)] using nr other by (auto simp: slot_requests_def drain_repeats_def)
  moreover have "control_requested w q" using i w unfolding requested_iff(2) [OF i(1)] by (simp add: slot_requests_def)
  ultimately have iff: "control_requested v (ControlSelect q) \<longleftrightarrow> (if v = w then drain_repeats w q else control_requested v q)"
      and requested: "control_requested w q" for v
    by simp_all
  have "{v. control_requested v (ControlSelect q)} =
      (if drain_repeats w q then {v. control_requested v q} else {v. control_requested v q} - {w})" "control_requested w q"
    unfolding iff using requested by auto
  moreover have "running_work (ControlSelect q) = Some w" "running_work q = None"
    using Some i w assms(3) by (auto simp: running_work_def ControlSelect_def)
  moreover have "list_ex (\<lambda>slot. kw_state slot = Queued) (kq_slots q)" using i by (auto simp: list_ex_length)
  ultimately show ?thesis unfolding control_view_def by auto
qed

lemma publish_view:
  assumes "control_ok q" "lane_ok (control_lane q)" "kq_worker q = AtPublish i r"
  shows "request_effect KPublishes q (control_view q) (control_view (ControlPublish i r q))"
proof -
  have i: "i < length (kq_slots q)" "kw_state (kq_slots q ! i) = Running"
    using assms(2,3) by (auto simp: lane_ok_def control_lane_def)
  have "kw_state (kq_slots q ! i) = Empty \<longleftrightarrow> kw_work (kq_slots q ! i) = None"
    using assms(2) i(1) by (simp add: lane_ok_def control_lane_def)
  then obtain w where w: "kw_work (kq_slots q ! i) = Some w" using i(2) by auto
  let ?q = "q\<lparr>kq_slots := (kq_slots q)[i := (kq_slots q ! i)\<lparr>kw_result := r, kw_state := Complete\<rparr>], kq_ready := kq_ready q\<rparr>"
  have eq: "control_requested v (ControlPublish i r q) = control_requested v ?q" for v
    by (simp add: ControlPublish_def control_requested_def)
  have "control_requested v (ControlPublish i r q) = control_requested v q" for v
    unfolding eq requested_iff [OF i(1)] using i(2) by (auto simp: slot_requests_def)
  moreover have "running_work q = Some w" "running_work (ControlPublish i r q) = None"
    using assms(3) w by (simp_all add: running_work_def ControlPublish_def)
  ultimately show ?thesis by (simp add: control_view_def)
qed

text \<open>A repeat that finds a free slot takes the request over from the delivered item.\<close>

lemma rerun_view:
  assumes "control_ok q" "lane_ok (control_lane q)" "ControlAfterComplete now q = Some q'" "ControlRunning q'"
    and "\<not> list_all (\<lambda>slot. kw_state slot \<noteq> Empty) (kq_slots q)"
  shows "control_view q' = control_view q"
proof -
  obtain slot slots rest where d: "kq_delivering q = (Some slot, slots) # rest"
    using assms(3) by (auto simp: ControlAfterComplete_def split: list.splits option.splits)
  define r where "r = q\<lparr>kq_delivering := (None, slots) # rest\<rparr>"
  have rq: "control_requested v q \<longleftrightarrow> control_requested v r \<or> (kw_work slot = Some v \<and> kw_rerun slot)" for v
    by (auto simp: control_requested_def r_def d)
  have rr: "running_work r = running_work q" by (simp add: r_def running_work_def split: option.splits)
  have q': "q' = (if kw_rerun slot \<and> ControlRunning r then snd (ControlEnqueue (kw_work slot) now r) else r)"
    using assms(3) d by (auto simp: ControlAfterComplete_def r_def Let_def)
  have run: "ControlRunning r"
    using assms(4) q' by (auto simp: ControlRunning_def ControlEnqueue_def split: if_splits option.splits)
  show ?thesis
  proof (cases "kw_rerun slot \<and> kw_work slot \<noteq> None")
    case False
    then have "q' = r" using q' by (auto simp: ControlEnqueue_def)
    then show ?thesis using False rq rr by (auto simp: control_view_def)
  next
    case True
    then obtain p where p: "kw_work slot = Some p" "kw_rerun slot" by auto
    have "\<not> list_all (\<lambda>slot. kw_state slot \<noteq> Empty) (kq_slots r)" using assms(5) by (simp add: r_def)
    then have "control_requested p q'" using enqueue_accepted [OF enqueue_not_full [OF run]] q' p run by simp
    moreover have "lane_ok (control_lane r)" "list_all rerun_ok (kq_slots r)"
      using assms(1,2) by (simp_all add: r_def control_lane_def control_ok_def)
    note enqueue_view [OF this, of "Some p" now]
    ultimately have "control_view q' = (insert p {v. control_requested v r}, running_work r)"
      using q' p run \<open>control_requested p q'\<close> enqueue_not_full [OF run \<open>\<not> list_all (\<lambda>slot. kw_state slot \<noteq> Empty) (kq_slots r)\<close>]
      by (simp add: control_view_def)
    also have "\<dots> = control_view q" using rq rr p by (auto simp: control_view_def)
    finally show ?thesis .
  qed
qed

text \<open>C15: the queue keeps its requests, from \<open>Start\<close> to the join in \<open>Stop\<close>: an \<open>Enqueue\<close> that succeeds, with \<open>S_OK\<close> or with
  \<open>S_FALSE\<close>, makes its item requested and one that fails changes nothing; the worker takes one requested item into work
  whenever one is queued; and no other step, neither the end of a run nor a drain nor what a \<open>Complete\<close> leads to,
  adds, drops or changes a request. So an accepted request is given up only by a run of its item that begins after it, or by
  \<open>Stop\<close>. The one exception is an \<open>Enqueue\<close> that \<open>DrainCompletions\<close> repeats while every slot is taken.\<close>

theorem control_keeps_requests:
  assumes "reaches control_step ControlQueue_init q" "control_step e q = Some q'" "ControlRunning q'"
    and "\<nexists>now. e = KAfterComplete now \<and> list_all (\<lambda>slot. kw_state slot \<noteq> Empty) (kq_slots q)"
  shows "request_effect e q (control_view q) (control_view q')"
proof -
  have inv: "control_ok q" "lane_ok (control_lane q)" using control.reaches_inv [OF assms(1)] by blast+
  show ?thesis
  proof (cases e)
    case (KEnqueue w now)
    then show ?thesis
      using assms(2) enqueue_view [OF inv(2), of w now] inv(1)
      by (auto simp: control_step_def control_ok_def control_view_def split: if_splits)
  next
    case KTake
    then show ?thesis using assms(2) take_view [OF inv] by (auto simp: control_step_def split: if_splits)
  next
    case (KAfterComplete now)
    then show ?thesis
      using rerun_view [OF inv, of now q'] assms(2-4) by (simp add: control_step_def split: if_splits)
  next
    case KDeliver
    then show ?thesis
      using assms(2,3)
      by (auto simp: control_step_def ControlDeliver_def control_view_def control_requested_def running_work_def
        ControlRunning_def split: if_splits list.splits option.splits)
  next
    case KSelects
    then show ?thesis using assms(2) select_view [OF inv] by (auto simp: control_step_def split: if_splits)
  next
    case KPublishes
    then obtain i r where "kq_worker q = AtPublish i r" "q' = ControlPublish i r q"
      using assms(2) by (auto simp: control_step_def split: worker_pc.splits)
    then show ?thesis using KPublishes publish_view [OF inv] by simp
  next
    case KJoins
    then show ?thesis using assms(2,3) by (auto simp: control_step_def ControlJoined_def ControlReset_def ControlRunning_def split: if_splits)
  next
    case KStop
    then show ?thesis using assms(2,3)
      by (auto simp: control_step_def ControlStop_def ControlReset_def ControlRunning_def intro!: requested_cong split: if_splits)
  next
    case (KStart a b th n c)
    then show ?thesis using assms(2) inv(1)
      by (auto simp: control_step_def ControlStart_def ControlRunning_def control_ok_def Let_def intro!: requested_cong
          split: if_splits thread_start.splits)
  qed (use assms(2) in \<open>auto simp: control_step_def ControlDrain_def ControlWait_def ControlCheck_def ControlRun_def ControlNotify_def
        intro!: requested_cong split: if_splits worker_pc.splits\<close>)
qed

text \<open>What \<open>Enqueue\<close> accepts, whether with \<open>S_OK\<close> or with \<open>S_FALSE\<close>, is requested from then on.\<close>

theorem control_accepts_requests:
  assumes "SUCCEEDED (fst (ControlEnqueue (Some w) now q))"
  shows "control_requested w (snd (ControlEnqueue (Some w) now q))"
  using assms by (rule enqueue_accepted)

lemma control_accepts_requests_witness:
  "control_requested 3 (snd (ControlEnqueue (Some 3) 7 (ControlQueue_init\<lparr>kq_joinable := True\<rparr>)))"
  by (rule control_accepts_requests) code_simp

lemma control_fair:
  assumes "reaches control_step ControlQueue_init q" "i < ControlCapacity"
    and "turns (\<lambda>q. busy_with (kq_worker q)) (\<lambda>q. snd (fst (control_lane q) ! i) = Queued) control_step q n q'"
  shows "n \<le> 15"
proof -
  have "n < ControlCapacity"
    by (rule control.fair [OF assms(1,2)]) (use assms(3) in \<open>simp add: control_lane_def\<close>)
  then show ?thesis by (simp add: ControlCapacity_def)
qed

section \<open>The repeated request that is lost\<close>




text \<open>
  A run to such a state: all sixteen slots are taken; item 0 runs and is requested again, which \<open>Enqueue\<close> accepts; its
  \<open>Complete\<close> is being called, and is about to enqueue item 100 in the slot that the drain freed.
\<close>

definition full_table :: "control_event list" where
  "full_table =
     [KStart 0 0 ThreadStarted True 0] @ map (\<lambda>w. KEnqueue (Some w) 10) [0, 1, 2, 3, 4, 5, 6, 7, 8, 9, 10, 11, 12, 13, 14, 15]
     @ [KWaits, KChecks, KSelects, KEnqueue (Some 0) 20, KRuns 30 (\<lambda>_. 0), KPublishes, KDrain, KTake, KDeliver]"

definition full_table_state :: ControlQueue where
  "full_table_state = the (run_events control_step ControlQueue_init full_table)"

lemma full_table_facts:
  "run_events control_step ControlQueue_init full_table \<noteq> None"
  "ControlRunning full_table_state" "kq_ui full_table_state = KUiIdle"
  "map (\<lambda>(current, rest). (map_option (\<lambda>slot. (kw_work slot, kw_rerun slot)) current, rest)) (kq_delivering full_table_state) =
     [(Some (Some 0, True), [])]"
  "map kw_work (kq_slots full_table_state) = None # map Some [1, 2, 3, 4, 5, 6, 7, 8, 9, 10, 11, 12, 13, 14, 15]"
  "map kw_state (kq_slots full_table_state) = Empty # replicate 15 Queued"
  by code_simp+

lemma full_table_reached: "reaches control_step ControlQueue_init full_table_state"
  using full_table_facts(1) run_events_reaches [of control_step ControlQueue_init full_table] by (auto simp: full_table_state_def)


lemma control_keeps_requests_witness:
  "\<exists>q'. control_step (KEnqueue (Some 5) 40) full_table_state = Some q' \<and> ControlRunning q' \<and>
     control_view q' = (insert 5 (fst (control_view full_table_state)), snd (control_view full_table_state))"
proof -
  obtain q' where q': "control_step (KEnqueue (Some 5) 40) full_table_state = Some q'" "ControlRunning q'"
    "SUCCEEDED (fst (ControlEnqueue (Some 5) 40 full_table_state))"
  proof -
    have "case control_step (KEnqueue (Some 5) 40) full_table_state of None \<Rightarrow> False
        | Some q' \<Rightarrow> ControlRunning q' \<and> SUCCEEDED (fst (ControlEnqueue (Some 5) 40 full_table_state))" by code_simp
    then show ?thesis using that by (auto split: option.splits)
  qed
  have "request_effect (KEnqueue (Some 5) 40) full_table_state (control_view full_table_state) (control_view q')"
    by (rule control_keeps_requests [OF full_table_reached q'(1,2)]) simp
  then show ?thesis using q' by (cases "control_view full_table_state") auto
qed

end
