(* ===== verification/Profile_Transaction.thy ===== *)
theory Profile_Transaction
  imports Work_Lane
begin

unbundle bit_operations_syntax

text \<open>
  \<open>Plugins/AVControl/ProfileTransaction.h\<close> and \<open>.cpp\<close>: the application of an audio and camera profile as a
  transaction, with the data of \<open>AVControlModel.h\<close> and \<open>AVControlProtocol.h\<close> it reads, \<open>MatchProfile\<close>
  (\<open>AVControlModel.cpp\<close>). The backend, the clock and the safety state are the environment of a transaction: their
  answers come from a world that each use may change. The contract of a backend is the locale \<open>av_backend\<close>, and
  under it the transaction refines an assignment to the store of settings.
\<close>

section \<open>Data\<close>

text \<open>A \<open>Text\<close> is its view. An array with its count is a list.\<close>

type_synonym device_id = string

datatype AudioRoles = RolesAll | Communications
datatype DeviceKind = Output | Microphone | Camera
datatype Availability = Unknown | Ready | Missing | AccessDenied | Busy | Unsupported | Failed

record Profile =
  profile_key :: string
  profile_name :: string
  outputId :: device_id
  microphoneId :: device_id
  cameraId :: device_id
  audioRoles :: AudioRoles
  restoreLevels :: bool
  outputLevel :: u32
  microphoneLevel :: u32

record Endpoint =
  ep_id :: device_id
  ep_name :: "u16 list"
  ep_availability :: Availability
  ep_level :: u32
  ep_muted :: bool
  ep_generation :: u64
  levelRevision :: u64
  muteRevision :: u64

record CameraState =
  sourceId :: device_id
  cs_availability :: Availability
  cs_enabled :: bool
  cs_revision :: u64

record ConfirmedState =
  st_output :: Endpoint
  st_microphone :: Endpoint
  st_camera :: CameraState
  outputDefaults :: "device_id list"
  inputDefaults :: "device_id list"
  st_revision :: u64

record CameraDescriptor =
  cam_id :: device_id
  cam_name :: "u16 list"
  cam_availability :: Availability

record Inventory =
  inv_state :: ConfirmedState
  inv_outputs :: "Endpoint list"
  inv_inputs :: "Endpoint list"
  inv_cameras :: "CameraDescriptor list"
  outputRoleRevisions :: "u64 list"
  inputRoleRevisions :: "u64 list"
  capabilities :: u32
  inv_truncated :: bool
  cameraRequiresHelper :: bool

text \<open>The operations that only a synthetic helper accepts are not modelled.\<close>

datatype BrokerOperation = Observe | SetMute | SetLevel | SetDefault | SetCameraSource | SetCameraEnabled | SuspendObservation

record BrokerCommand =
  operation :: BrokerOperation
  cmd_device :: DeviceKind
  cmd_id :: device_id
  cmd_value :: u32
  cmd_role :: nat
  expectedGeneration :: u64
  expectedRevision :: u64

definition BrokerCommand_init :: BrokerCommand where
  "BrokerCommand_init = \<lparr>operation = Observe, cmd_device = Output, cmd_id = [], cmd_value = 0, cmd_role = 0,
     expectedGeneration = 0, expectedRevision = 0\<rparr>"

datatype ProfileMatch = Custom | Active | Adjusted

definition firstRole :: "Profile \<Rightarrow> nat" where
  "firstRole p = (if audioRoles p = Communications then 2 else 0)"

definition MatchProfile :: "Profile \<Rightarrow> ConfirmedState \<Rightarrow> ProfileMatch" where
  "MatchProfile p s =
     (if ep_availability (st_output s) \<noteq> Ready \<or> ep_availability (st_microphone s) \<noteq> Ready \<or>
         cs_availability (st_camera s) \<noteq> Ready \<or> sourceId (st_camera s) \<noteq> cameraId p then Custom
      else if list_ex (\<lambda>role. outputDefaults s ! role \<noteq> outputId p \<or> inputDefaults s ! role \<noteq> microphoneId p)
                [firstRole p..<3] then Custom
      else if ep_id (st_output s) \<noteq> outputId p \<or> ep_id (st_microphone s) \<noteq> microphoneId p then Custom
      else if restoreLevels p \<and> (outputLevel p \<noteq> ep_level (st_output s) \<or> microphoneLevel p \<noteq> ep_level (st_microphone s))
      then Adjusted
      else Active)"

section \<open>Safety state\<close>

text \<open>The three counters; a count keeps whether the last command was mute or off in its lowest bit.\<close>

definition device_index :: "DeviceKind \<Rightarrow> nat" where
  "device_index d = (case d of Output \<Rightarrow> 0 | Microphone \<Rightarrow> 1 | Camera \<Rightarrow> 2)"

definition Publish :: "DeviceKind \<Rightarrow> bool \<Rightarrow> u64 list \<Rightarrow> u64 list" where
  "Publish device turned_off counts =
     (let index = device_index device
      in if index \<ge> length counts then counts
         else counts[index := (drop_bit 1 (counts ! index) + 1) * 2 + (if turned_off then 1 else 0)])"

section \<open>The environment\<close>

text \<open>
  \<open>env_tick\<close> is \<open>GetTickCount64\<close>, \<open>env_snapshot\<close> is \<open>SafetyState::Snapshot\<close> (which the UI thread may have
  changed), \<open>env_execute\<close> is \<open>BackendTransport::Execute\<close> with the time it is given and the reply it may overwrite.
\<close>

record 'w av_env =
  env_tick :: "'w \<Rightarrow> u64 \<times> 'w"
  env_snapshot :: "'w \<Rightarrow> u64 list \<times> 'w"
  env_execute :: "BrokerCommand \<Rightarrow> u32 \<Rightarrow> Inventory \<Rightarrow> 'w \<Rightarrow> (hresult \<times> Inventory) \<times> 'w"

definition CapabilityAudioLevels :: u32 where "CapabilityAudioLevels = 1"
definition CapabilityAudioDefaults :: u32 where "CapabilityAudioDefaults = 2"
definition CapabilityCameraRoute :: u32 where "CapabilityCameraRoute = 4"

record ApplyOutcome =
  out_result :: hresult
  applied :: bool
  rollbackComplete :: bool
  stateKnown :: bool
  superseded :: bool
  mutations :: u32

definition ApplyOutcome_init :: ApplyOutcome where
  "ApplyOutcome_init = \<lparr>out_result = 0x8000000A, applied = False, rollbackComplete = True, stateKnown = True,
     superseded = False, mutations = 0\<rparr>"

record Undo =
  undo_command :: BrokerCommand
  ownedRevision :: u64
  restorable :: bool

text \<open>
  The members of a \<open>Transaction\<close>: those that stay, and those that change. \<open>t_undo\<close> is the used part of the array,
  the newest entry first; \<open>t_sent\<close> observes the commands handed to the backend, marked as rollback or not.
\<close>

record 'w txn_fixed =
  tx_env :: "'w av_env"
  tx_profile :: Profile
  tx_total :: u32
  tx_start :: u64
  tx_safetyBefore :: "u64 list"

record 'w txn =
  t_world :: 'w
  t_reply :: Inventory
  t_outcome :: ApplyOutcome
  t_undo :: "Undo list"
  t_sent :: "(bool \<times> BrokerCommand) list"

section \<open>Calls\<close>

definition FindEndpoint :: "Inventory \<Rightarrow> DeviceKind \<Rightarrow> device_id \<Rightarrow> Endpoint option" where
  "FindEndpoint inventory device i =
     find (\<lambda>e. ep_id e = i) (if device = Output then inv_outputs inventory else inv_inputs inventory)"

definition ConnectionFailure :: "hresult \<Rightarrow> bool" where
  "ConnectionFailure hr \<longleftrightarrow>
     hr = HRESULT_FROM_WIN32 1460 \<or> hr = HRESULT_FROM_WIN32 1067 \<or> hr = HRESULT_FROM_WIN32 1223 \<or> hr = HRESULT_FROM_WIN32 13"

definition Remaining :: "'w txn_fixed \<Rightarrow> bool \<Rightarrow> u64 \<Rightarrow> u32" where
  "Remaining tx rollback now =
     (let limit = (ucast (if rollback then tx_total tx else tx_total tx - tx_total tx div 3) :: u64);
          elapsed = now - tx_start tx
      in if elapsed < limit then ucast (limit - elapsed) else 0)"

definition Call :: "'w txn_fixed \<Rightarrow> BrokerCommand \<Rightarrow> bool \<Rightarrow> 'w txn \<Rightarrow> hresult \<times> 'w txn" where
  "Call tx command rollback s =
     (let (now, w) = env_tick (tx_env tx) (t_world s);
          s = s\<lparr>t_world := w\<rparr>;
          remaining = Remaining tx rollback now
      in if remaining = 0 then (HRESULT_FROM_WIN32 1460, s)
         else
           (let ((hr, inventory), w) = env_execute (tx_env tx) command remaining (t_reply s) (t_world s);
                s = s\<lparr>t_world := w, t_reply := inventory, t_sent := t_sent s @ [(rollback, command)]\<rparr>
            in (hr, if ConnectionFailure hr then s\<lparr>t_outcome := (t_outcome s)\<lparr>stateKnown := False\<rparr>\<rparr> else s)))"

definition CheckSafety :: "'w txn_fixed \<Rightarrow> 'w txn \<Rightarrow> hresult \<times> 'w txn" where
  "CheckSafety tx s =
     (let (snapshot, w) = env_snapshot (tx_env tx) (t_world s);
          s = s\<lparr>t_world := w\<rparr>
      in if snapshot = tx_safetyBefore tx then (S_OK, s)
         else (HRESULT_FROM_WIN32 1223, s\<lparr>t_outcome := (t_outcome s)\<lparr>superseded := True\<rparr>\<rparr>))"

text \<open>What the three mutations do after their call: record the undo entry, or note that the change may have happened.\<close>

definition mutated :: "Undo \<Rightarrow> u64 \<Rightarrow> 'w txn \<Rightarrow> 'w txn" where
  "mutated entry revision s =
     s\<lparr>t_outcome := (t_outcome s)\<lparr>mutations := mutations (t_outcome s) + 1\<rparr>,
       t_undo := entry\<lparr>ownedRevision := revision\<rparr> # t_undo s\<rparr>"

definition not_mutated :: "u64 option \<Rightarrow> BrokerCommand \<Rightarrow> 'w txn \<Rightarrow> 'w txn" where
  "not_mutated revision command s =
     (if \<not> stateKnown (t_outcome s) \<or> revision \<noteq> Some (expectedRevision command)
      then s\<lparr>t_outcome := (t_outcome s)\<lparr>rollbackComplete := False\<rparr>\<rparr> else s)"

section \<open>Mutations\<close>

definition endpoint_value :: "bool \<Rightarrow> Endpoint \<Rightarrow> u32" where
  "endpoint_value mute e = (if mute then (if ep_muted e then 1 else 0) else ep_level e)"

definition endpoint_revision :: "bool \<Rightarrow> Endpoint \<Rightarrow> u64" where
  "endpoint_revision mute e = (if mute then muteRevision e else levelRevision e)"

definition AudioMutation ::
    "'w txn_fixed \<Rightarrow> BrokerOperation \<Rightarrow> DeviceKind \<Rightarrow> device_id \<Rightarrow> u32 \<Rightarrow> 'w txn \<Rightarrow> hresult \<times> 'w txn" where
  "AudioMutation tx op device i v s =
     (let (safe, s) = CheckSafety tx s
      in if FAILED safe then (safe, s)
         else
           (case FindEndpoint (t_reply s) device i of
              None \<Rightarrow> (HRESULT_FROM_WIN32 1168, s)
            | Some endpoint \<Rightarrow>
                (let mute = (op = SetMute);
                     oldValue = endpoint_value mute endpoint
                 in if v = oldValue then (S_OK, s)
                    else
                      (let command = \<lparr>operation = op, cmd_device = device, cmd_id = i, cmd_value = v, cmd_role = 0,
                             expectedGeneration = ep_generation endpoint, expectedRevision = endpoint_revision mute endpoint\<rparr>;
                           entry = \<lparr>undo_command = command\<lparr>cmd_value := oldValue\<rparr>, ownedRevision = 0, restorable = True\<rparr>;
                           (hr, s) = Call tx command False s;
                           changed = FindEndpoint (t_reply s) device i
                       in (hr,
                           if SUCCEEDED hr
                           then mutated entry (case changed of Some c \<Rightarrow> endpoint_revision mute c | None \<Rightarrow> 0) s
                           else not_mutated (map_option (endpoint_revision mute) changed) command s)))))"

definition routes_of :: "DeviceKind \<Rightarrow> Inventory \<Rightarrow> device_id list" where
  "routes_of device inventory =
     (if device = Output then outputDefaults (inv_state inventory) else inputDefaults (inv_state inventory))"

definition revisions_of :: "DeviceKind \<Rightarrow> Inventory \<Rightarrow> u64 list" where
  "revisions_of device inventory =
     (if device = Output then outputRoleRevisions inventory else inputRoleRevisions inventory)"

definition RouteMutation ::
    "'w txn_fixed \<Rightarrow> DeviceKind \<Rightarrow> device_id \<Rightarrow> nat \<Rightarrow> 'w txn \<Rightarrow> hresult \<times> 'w txn" where
  "RouteMutation tx device i role s =
     (let (safe, s) = CheckSafety tx s
      in if FAILED safe then (safe, s)
         else if routes_of device (t_reply s) ! role = i then (S_OK, s)
         else
           (case FindEndpoint (t_reply s) device i of
              None \<Rightarrow> (HRESULT_FROM_WIN32 1168, s)
            | Some target \<Rightarrow>
                (let command = \<lparr>operation = SetDefault, cmd_device = device, cmd_id = i, cmd_value = 0, cmd_role = role,
                       expectedGeneration = ep_generation target,
                       expectedRevision = revisions_of device (t_reply s) ! role\<rparr>;
                     prior = FindEndpoint (t_reply s) device (routes_of device (t_reply s) ! role);
                     entry = \<lparr>undo_command = command\<lparr>cmd_id := routes_of device (t_reply s) ! role,
                                expectedGeneration := (case prior of Some e \<Rightarrow> ep_generation e | None \<Rightarrow> 0)\<rparr>,
                              ownedRevision = 0, restorable = (prior \<noteq> None)\<rparr>;
                     (hr, s) = Call tx command False s;
                     revision = revisions_of device (t_reply s) ! role
                 in (hr, if SUCCEEDED hr then mutated entry revision s else not_mutated (Some revision) command s))))"

definition CameraMutation :: "'w txn_fixed \<Rightarrow> 'w txn \<Rightarrow> hresult \<times> 'w txn" where
  "CameraMutation tx s =
     (let (safe, s) = CheckSafety tx s
      in if FAILED safe then (safe, s)
         else if sourceId (st_camera (inv_state (t_reply s))) = cameraId (tx_profile tx) then (S_OK, s)
         else
           (let camera = st_camera (inv_state (t_reply s));
                command = \<lparr>operation = SetCameraSource, cmd_device = Camera, cmd_id = cameraId (tx_profile tx), cmd_value = 0,
                  cmd_role = 0, expectedGeneration = 0, expectedRevision = cs_revision camera\<rparr>;
                entry = \<lparr>undo_command = command\<lparr>cmd_id := sourceId camera\<rparr>, ownedRevision = 0, restorable = True\<rparr>;
                (hr, s) = Call tx command False s;
                revision = cs_revision (st_camera (inv_state (t_reply s)))
            in (hr, if SUCCEEDED hr then mutated entry revision s else not_mutated (Some revision) command s)))"

section \<open>Rollback\<close>

definition current_revision :: "BrokerCommand \<Rightarrow> Inventory \<Rightarrow> u64" where
  "current_revision command inventory =
     (if operation command = SetDefault
      then (if device_index (cmd_device command) \<noteq> 0 then inputRoleRevisions inventory else outputRoleRevisions inventory)
             ! cmd_role command
      else if operation command = SetCameraSource then cs_revision (st_camera (inv_state inventory))
      else
        (case FindEndpoint inventory (cmd_device command) (cmd_id command) of
           Some endpoint \<Rightarrow> endpoint_revision (operation command = SetMute) endpoint
         | None \<Rightarrow> 0))"

definition incomplete :: "'w txn \<Rightarrow> 'w txn" where
  "incomplete s = s\<lparr>t_outcome := (t_outcome s)\<lparr>rollbackComplete := False\<rparr>\<rparr>"

text \<open>One turn of the loop; \<open>entry\<close> has been taken from the array.\<close>

definition RollbackEntry :: "'w txn_fixed \<Rightarrow> Undo \<Rightarrow> 'w txn \<Rightarrow> 'w txn" where
  "RollbackEntry tx entry s =
     (let index = device_index (cmd_device (undo_command entry));
          (snapshot, w) = (if restorable entry then env_snapshot (tx_env tx) (t_world s) else (tx_safetyBefore tx, t_world s));
          s = s\<lparr>t_world := w\<rparr>
      in if \<not> restorable entry \<or> snapshot ! index \<noteq> tx_safetyBefore tx ! index then incomplete s
         else
           (let currentRevision = current_revision (undo_command entry) (t_reply s)
            in if currentRevision \<noteq> ownedRevision entry \<or> currentRevision = 0 then incomplete s
               else
                 (let (hr, s) = Call tx ((undo_command entry)\<lparr>expectedRevision := currentRevision\<rparr>) True s
                  in if FAILED hr then incomplete s else s)))"

fun RollbackEntries :: "'w txn_fixed \<Rightarrow> Undo list \<Rightarrow> 'w txn \<Rightarrow> 'w txn" where
  "RollbackEntries tx [] s = s"
| "RollbackEntries tx (entry # entries) s = RollbackEntries tx entries (RollbackEntry tx entry (s\<lparr>t_undo := entries\<rparr>))"

definition Rollback :: "'w txn_fixed \<Rightarrow> 'w txn \<Rightarrow> 'w txn" where
  "Rollback tx s = RollbackEntries tx (t_undo s) s"

section \<open>The transaction\<close>

text \<open>One turn of the loop over the two audio devices; \<open>original\<close> is the first observation.\<close>

definition profile_id :: "Profile \<Rightarrow> DeviceKind \<Rightarrow> device_id" where
  "profile_id p device = (if device = Output then outputId p else microphoneId p)"

definition profile_level :: "Profile \<Rightarrow> DeviceKind \<Rightarrow> u32" where
  "profile_level p device = (if device = Output then outputLevel p else microphoneLevel p)"

definition ApplyDevice :: "'w txn_fixed \<Rightarrow> Inventory \<Rightarrow> DeviceKind \<Rightarrow> 'w txn \<Rightarrow> hresult \<times> 'w txn" where
  "ApplyDevice tx original device s =
     (let p = tx_profile tx;
          i = profile_id p device;
          previous = FindEndpoint original device (routes_of device original ! firstRole p)
      in case FindEndpoint (t_reply s) device i of
           None \<Rightarrow> (HRESULT_FROM_WIN32 1168, s)
         | Some destination \<Rightarrow>
             (let (hr, s) = (if (case previous of None \<Rightarrow> True | Some e \<Rightarrow> ep_muted e) \<and> \<not> ep_muted destination
                             then AudioMutation tx SetMute device i 1 s else (S_OK, s))
              in if SUCCEEDED hr \<and> restoreLevels p
                 then AudioMutation tx SetLevel device i (profile_level p device) s
                 else (hr, s)))"

text \<open>A chain of steps that stops at the first failure, as the loop conditions \<open>SUCCEEDED(outcome.result)\<close> do.\<close>

fun until_failure :: "('w txn \<Rightarrow> hresult \<times> 'w txn) list \<Rightarrow> hresult \<Rightarrow> 'w txn \<Rightarrow> hresult \<times> 'w txn" where
  "until_failure [] hr s = (hr, s)"
| "until_failure (f # fs) hr s = (if FAILED hr then (hr, s) else (let (hr, s) = f s in until_failure fs hr s))"

definition CheckMatch :: "'w txn_fixed \<Rightarrow> 'w txn \<Rightarrow> hresult \<times> 'w txn" where
  "CheckMatch tx s =
     (let (hr, s) = Call tx BrokerCommand_init False s
      in if FAILED hr then (hr, s)
         else
           (let p = tx_profile tx;
                observed = inv_state (t_reply s);
                actualOutput = FindEndpoint (t_reply s) Output (outputDefaults observed ! firstRole p);
                actualInput = FindEndpoint (t_reply s) Microphone (inputDefaults observed ! firstRole p);
                observed = (case actualOutput of Some e \<Rightarrow> observed\<lparr>st_output := e\<rparr> | None \<Rightarrow> observed);
                observed = (case actualInput of Some e \<Rightarrow> observed\<lparr>st_microphone := e\<rparr> | None \<Rightarrow> observed)
            in (if MatchProfile p observed = Custom then HRESULT_FROM_WIN32 29 else hr, s)))"

definition ApplyAll :: "'w txn_fixed \<Rightarrow> Inventory \<Rightarrow> hresult \<Rightarrow> 'w txn \<Rightarrow> hresult \<times> 'w txn" where
  "ApplyAll tx original =
     until_failure
       ([ApplyDevice tx original Output, ApplyDevice tx original Microphone]
        @ concat (map (\<lambda>role. map (\<lambda>device. RouteMutation tx device (profile_id (tx_profile tx) device) role)
                                [Output, Microphone])
                    [firstRole (tx_profile tx)..<3])
        @ [CameraMutation tx, CheckSafety tx, CheckMatch tx])"

text \<open>The tests on the first observation.\<close>

definition original_error :: "Profile \<Rightarrow> Inventory \<Rightarrow> hresult option" where
  "original_error p original =
     (let required = (CapabilityAudioDefaults OR CapabilityAudioLevels) OR CapabilityCameraRoute
      in if capabilities original AND required \<noteq> required then Some (HRESULT_FROM_WIN32 50)
         else
           (case (FindEndpoint original Output (outputId p), FindEndpoint original Microphone (microphoneId p)) of
              (Some output, Some input) \<Rightarrow>
                (if ep_availability output \<noteq> Ready \<or> ep_availability input \<noteq> Ready \<or>
                    \<not> list_ex (\<lambda>c. cam_id c = cameraId p \<and> cam_availability c = Ready) (inv_cameras original) \<or>
                    cs_availability (st_camera (inv_state original)) \<noteq> Ready
                 then Some (HRESULT_FROM_WIN32 1168) else None)
            | _ \<Rightarrow> Some (HRESULT_FROM_WIN32 1168)))"

definition set_result :: "hresult \<Rightarrow> 'w txn \<Rightarrow> 'w txn" where
  "set_result hr s = s\<lparr>t_outcome := (t_outcome s)\<lparr>out_result := hr\<rparr>\<rparr>"

text \<open>\<open>cancel\<close> is whether the cancel event is given, \<open>allocated\<close> whether the copy of the inventory could be made.\<close>

definition Run :: "'w txn_fixed \<Rightarrow> bool \<Rightarrow> bool \<Rightarrow> 'w txn \<Rightarrow> 'w txn" where
  "Run tx cancel allocated s =
     (if \<not> cancel \<or> tx_total tx < 3 \<or> tx_total tx > 3000 then set_result 0x80070057 s
      else
        (let (hr, s) = Call tx BrokerCommand_init False s
         in if FAILED hr then set_result hr s
            else if \<not> allocated
            then s\<lparr>t_outcome := ApplyOutcome_init\<lparr>out_result := E_OUTOFMEMORY, rollbackComplete := False, stateKnown := False\<rparr>\<rparr>
            else
              (case original_error (tx_profile tx) (t_reply s) of
                 Some e \<Rightarrow> set_result e s
               | None \<Rightarrow>
                   (let (hr, s) = ApplyAll tx (t_reply s) hr s;
                        s = set_result hr s
                    in if SUCCEEDED hr then s\<lparr>t_outcome := (t_outcome s)\<lparr>applied := True\<rparr>\<rparr> else Rollback tx s))))"

text \<open>\<open>ApplyProfile\<close>: the constructor reads the clock and the safety state.\<close>

definition ApplyProfile ::
    "'w av_env \<Rightarrow> Profile \<Rightarrow> Inventory \<Rightarrow> bool \<Rightarrow> bool \<Rightarrow> u32 \<Rightarrow> 'w \<Rightarrow> 'w txn" where
  "ApplyProfile env p reply cancel allocated timeoutMilliseconds w =
     (let (start, w) = env_tick env w;
          (before, w) = env_snapshot env w
      in Run \<lparr>tx_env = env, tx_profile = p, tx_total = timeoutMilliseconds, tx_start = start, tx_safetyBefore = before\<rparr>
           cancel allocated
           \<lparr>t_world = w, t_reply = reply, t_outcome = ApplyOutcome_init, t_undo = [], t_sent = []\<rparr>)"

section \<open>What a step can do\<close>

lemma until_failure_inv:
  assumes "\<And>f s. f \<in> set fs \<Longrightarrow> I s \<Longrightarrow> I (snd (f s))" "I s"
  shows "I (snd (until_failure fs hr s))"
  using assms by (induction fs hr s rule: until_failure.induct) (simp_all add: case_prod_beta)

lemma until_failure_length:
  assumes "\<And>f n s. (f, n) \<in> set fs \<Longrightarrow> length (t_undo (snd (f s))) \<le> length (t_undo s) + n"
  shows "length (t_undo (snd (until_failure (map fst fs) hr s))) \<le> length (t_undo s) + sum_list (map snd fs)"
  using assms
proof (induction fs arbitrary: hr s)
  case (Cons a fs)
  obtain f n where a: "a = (f, n)" by (cases a)
  have "length (t_undo (snd (until_failure (map fst fs) (fst (f s)) (snd (f s)))))
      \<le> length (t_undo (snd (f s))) + sum_list (map snd fs)"
    using Cons by simp
  also have "\<dots> \<le> length (t_undo s) + n + sum_list (map snd fs)" using Cons.prems [of f n s] a by simp
  finally show ?case by (simp add: a case_prod_beta)
qed simp

lemma Call_undo: "t_undo (snd (Call tx c b s)) = t_undo s"
  by (simp add: Call_def case_prod_beta Let_def)

lemma CheckSafety_undo: "t_undo (snd (CheckSafety tx s)) = t_undo s"
  by (simp add: CheckSafety_def case_prod_beta Let_def)

lemma mutated_undo: "t_undo (mutated e r s) = e\<lparr>ownedRevision := r\<rparr> # t_undo s" "t_undo (not_mutated r' c s) = t_undo s"
  by (simp_all add: mutated_def not_mutated_def)

lemma mutation_length:
  "length (t_undo (snd (AudioMutation tx op device i v s))) \<le> length (t_undo s) + 1"
  "length (t_undo (snd (RouteMutation tx device i role s))) \<le> length (t_undo s) + 1"
  "length (t_undo (snd (CameraMutation tx s))) \<le> length (t_undo s) + 1"
  by (auto simp: AudioMutation_def RouteMutation_def CameraMutation_def case_prod_beta Let_def Call_undo CheckSafety_undo mutated_undo
    split: option.splits)

lemma ApplyDevice_length: "length (t_undo (snd (ApplyDevice tx original device s))) \<le> length (t_undo s) + 2"
proof -
  have "length (t_undo (snd (AudioMutation tx SetLevel device i v (snd (AudioMutation tx SetMute device i u s)))))
      \<le> length (t_undo s) + 2" for i v u
    using mutation_length(1) [of tx SetLevel device i v "snd (AudioMutation tx SetMute device i u s)"]
      mutation_length(1) [of tx SetMute device i u s] by simp
  moreover have "length (t_undo (snd (AudioMutation tx op device i v s))) \<le> length (t_undo s) + 2" for op i v
    using mutation_length(1) [of tx op device i v s] by simp
  ultimately show ?thesis
    by (auto simp: ApplyDevice_def case_prod_beta Let_def split: option.splits)
qed

text \<open>The undo array of eleven entries is never overrun, whatever the backend answers.\<close>

theorem undo_fits:
  "length (t_undo (snd (ApplyAll tx original hr s))) \<le> length (t_undo s) + 11"
proof -
  let ?p = "tx_profile tx"
  let ?routes = "concat (map (\<lambda>role. map (\<lambda>device. RouteMutation tx device (profile_id ?p device) role) [Output, Microphone])
      [firstRole ?p..<3])"
  let ?fs = "[(ApplyDevice tx original Output, 2::nat), (ApplyDevice tx original Microphone, 2)]
      @ map (\<lambda>f. (f, 1)) ?routes @ [(CameraMutation tx, 1), (CheckSafety tx, 0), (CheckMatch tx, 0)]"
  have "length (t_undo (snd (CheckMatch tx s))) = length (t_undo s)" for s
    by (simp add: CheckMatch_def case_prod_beta Let_def Call_undo)
  then have "length (t_undo (snd (f s))) \<le> length (t_undo s) + n" if "(f, n) \<in> set ?fs" for f n s
    using that ApplyDevice_length mutation_length(2,3) by (auto simp: CheckSafety_undo)
  then have "length (t_undo (snd (until_failure (map fst ?fs) hr s))) \<le> length (t_undo s) + sum_list (map snd ?fs)"
    by (rule until_failure_length [where fs = ?fs])
  moreover have "map fst ?fs = [ApplyDevice tx original Output, ApplyDevice tx original Microphone] @ ?routes
      @ [CameraMutation tx, CheckSafety tx, CheckMatch tx]"
    by (simp add: o_def)
  moreover have "sum_list (map snd ?fs) \<le> 11"
    by (cases "audioRoles ?p = Communications") (simp_all add: firstRole_def upt_rec numeral_3_eq_3)
  ultimately show ?thesis by (simp only: ApplyAll_def)
qed

section \<open>Never unmutes\<close>

definition forward_ok :: "bool \<times> BrokerCommand \<Rightarrow> bool" where
  "forward_ok sent \<longleftrightarrow> fst sent \<or>
     (operation (snd sent) \<noteq> SetCameraEnabled \<and> (operation (snd sent) = SetMute \<longrightarrow> cmd_value (snd sent) = 1))"

definition sent_ok :: "'w txn \<Rightarrow> bool" where
  "sent_ok s \<longleftrightarrow> list_all forward_ok (t_sent s)"

lemma Call_sent_ok: "sent_ok s \<Longrightarrow> forward_ok (b, c) \<Longrightarrow> sent_ok (snd (Call tx c b s))"
  by (simp add: Call_def sent_ok_def case_prod_beta Let_def)

lemma CheckSafety_sent_ok: "sent_ok s \<Longrightarrow> sent_ok (snd (CheckSafety tx s))"
  by (simp add: CheckSafety_def sent_ok_def case_prod_beta Let_def)

lemma mutated_sent_ok: "sent_ok (mutated e r s) = sent_ok s" "sent_ok (not_mutated r' c s) = sent_ok s"
  by (simp_all add: mutated_def not_mutated_def sent_ok_def)

lemma mutations_sent_ok:
  "sent_ok s \<Longrightarrow> op = SetLevel \<or> op = SetMute \<and> v = 1 \<Longrightarrow> sent_ok (snd (AudioMutation tx op device i v s))"
  "sent_ok s \<Longrightarrow> sent_ok (snd (RouteMutation tx device i role s))"
  "sent_ok s \<Longrightarrow> sent_ok (snd (CameraMutation tx s))"
  by (auto simp: AudioMutation_def RouteMutation_def CameraMutation_def case_prod_beta Let_def mutated_sent_ok forward_ok_def
    intro!: Call_sent_ok CheckSafety_sent_ok split: option.splits)

lemma ApplyDevice_sent_ok: "sent_ok s \<Longrightarrow> sent_ok (snd (ApplyDevice tx original device s))"
  by (auto simp: ApplyDevice_def case_prod_beta Let_def intro!: mutations_sent_ok split: option.splits)

lemma CheckMatch_sent_ok: "sent_ok s \<Longrightarrow> sent_ok (snd (CheckMatch tx s))"
  by (simp add: CheckMatch_def case_prod_beta Let_def Call_sent_ok forward_ok_def BrokerCommand_init_def)

lemma ApplyAll_sent_ok: "sent_ok s \<Longrightarrow> sent_ok (snd (ApplyAll tx original hr s))"
  unfolding ApplyAll_def
  by (rule until_failure_inv)
     (auto intro: ApplyDevice_sent_ok mutations_sent_ok CheckSafety_sent_ok CheckMatch_sent_ok)

lemma RollbackEntry_sent_ok: "sent_ok s \<Longrightarrow> sent_ok (RollbackEntry tx entry s)"
  by (auto simp: RollbackEntry_def incomplete_def case_prod_beta Let_def sent_ok_def Call_def forward_ok_def)

lemma RollbackEntries_sent_ok: "sent_ok s \<Longrightarrow> sent_ok (RollbackEntries tx entries s)"
proof (induction tx entries s rule: RollbackEntries.induct)
  case (2 tx entry entries s)
  then have "sent_ok (RollbackEntry tx entry (s\<lparr>t_undo := entries\<rparr>))"
    by (intro RollbackEntry_sent_ok) (simp add: sent_ok_def)
  with 2 show ?case by simp
qed simp

text \<open>Applying a profile never unmutes a device and never switches the camera on or off: outside of the rollback
  every mute command it sends mutes, and none is for the camera's enabled state.\<close>

theorem profile_never_unmutes:
  "\<not> list_ex (\<lambda>(rollback, c). \<not> rollback \<and> (operation c = SetCameraEnabled \<or> operation c = SetMute \<and> cmd_value c \<noteq> 1))
     (t_sent (ApplyProfile env p reply cancel allocated timeout w))"
proof -
  have base: "sent_ok (s\<lparr>t_outcome := x\<rparr>) = sent_ok s" for s :: "'a txn" and x by (simp add: sent_ok_def)
  have set: "sent_ok (set_result hr s) = sent_ok s" for hr and s :: "'a txn" by (simp add: set_result_def sent_ok_def)
  have run: "sent_ok (Run tx cancel allocated s)" if "sent_ok s" for tx and s :: "'a txn"
  proof -
    have c: "sent_ok (snd (Call tx BrokerCommand_init False s))"
      using that by (rule Call_sent_ok) (simp add: forward_ok_def BrokerCommand_init_def)
    show ?thesis
      using that c
      by (auto simp: Run_def Rollback_def base set case_prod_beta Let_def split: option.splits
        intro!: RollbackEntries_sent_ok ApplyAll_sent_ok)
  qed
  have "sent_ok (ApplyProfile env p reply cancel allocated timeout w)"
    unfolding ApplyProfile_def case_prod_beta Let_def by (rule run) (simp add: sent_ok_def)
  then show ?thesis by (auto simp: sent_ok_def forward_ok_def case_prod_beta list_all_iff list_ex_iff)
qed

text \<open>Publishing a command of the user always changes the counter of its device, records in its lowest bit whether the
  command turned the device off, and leaves the other devices' counters alone; a transaction that compares snapshots
  cannot miss a command.\<close>

theorem published_command_shows:
  assumes "length counts = 3"
  shows "Publish device turned_off counts ! device_index device \<noteq> counts ! device_index device \<and>
    odd (Publish device turned_off counts ! device_index device) = turned_off \<and>
    Publish device turned_off counts = counts[device_index device := Publish device turned_off counts ! device_index device]"
proof -
  have i: "device_index device < length counts" using assms by (cases device) (simp_all add: device_index_def)
  let ?v = "counts ! device_index device"
  have b: "odd ((drop_bit 1 ?v + 1) * 2 + (if turned_off then 1 else 0)) = turned_off" by simp
  have n: "(drop_bit 1 ?v + 1) * 2 + (if turned_off then 1 else 0) \<noteq> ?v"
  proof
    assume a: "(drop_bit 1 ?v + 1) * 2 + (if turned_off then 1 else 0) = ?v"
    have d: "drop_bit 1 ?v * 2 + ?v mod 2 = ?v" by (simp add: drop_bit_eq_div div_mult_mod_eq)
    have "drop_bit 1 ?v * 2 + (2 + (if turned_off then 1 else 0)) = (drop_bit 1 ?v + 1) * 2 + (if turned_off then 1 else 0)"
      by (simp add: algebra_simps)
    then have "drop_bit 1 ?v * 2 + (2 + (if turned_off then 1 else 0)) = drop_bit 1 ?v * 2 + ?v mod 2"
      by (simp only: a d)
    then have "2 + (if turned_off then 1 else 0) = ?v mod 2" by (simp only: add_left_cancel)
    then have "2 + (if turned_off then 1 else 0) = (if even ?v then 0 else 1 :: u64)"
      by (cases "even ?v") (simp_all add: even_iff_mod_2_eq_zero odd_iff_mod_2_eq_one)
    then show False by (auto split: if_splits)
  qed
  show ?thesis using i b n by (simp add: Publish_def Let_def)
qed

theorem published_command_shows_witness:
  "Publish Microphone True [0, 7, 4] = [0, 9, 4] \<and> Publish Microphone True [0, 7, 4] ! 1 \<noteq> 7"
  using published_command_shows [of "[0, 7, 4]" Microphone True]
  by (simp add: device_index_def Publish_def)

section \<open>What a profile promises\<close>

text \<open>The settings of the devices as a store, one key per setting; a command assigns one key.\<close>

datatype setting = Mute_of bool device_id | Level_of bool device_id | Route_of bool nat | Camera_source | Camera_enabled

datatype setting_value = Number u32 | Identity device_id

type_synonym settings = "setting \<Rightarrow> setting_value option"

definition find_endpoint :: "bool \<Rightarrow> device_id \<Rightarrow> Inventory \<Rightarrow> Endpoint option" where
  "find_endpoint is_output i inventory =
     find (\<lambda>e. ep_id e = i) (if is_output then inv_outputs inventory else inv_inputs inventory)"

fun settings :: "Inventory \<Rightarrow> settings" where
  "settings inventory (Mute_of is_output i) = map_option (\<lambda>e. Number (endpoint_value True e)) (find_endpoint is_output i inventory)"
| "settings inventory (Level_of is_output i) = map_option (\<lambda>e. Number (endpoint_value False e)) (find_endpoint is_output i inventory)"
| "settings inventory (Route_of is_output role) =
     (if role < 3
      then Some (Identity ((if is_output then outputDefaults (inv_state inventory) else inputDefaults (inv_state inventory)) ! role))
      else None)"
| "settings inventory Camera_source = Some (Identity (sourceId (st_camera (inv_state inventory))))"
| "settings inventory Camera_enabled = Some (Number (if cs_enabled (st_camera (inv_state inventory)) then 1 else 0))"

definition assign :: "BrokerCommand \<Rightarrow> settings \<Rightarrow> settings" where
  "assign c v =
     (let is_output = (cmd_device c = Output)
      in case operation c of
           SetMute \<Rightarrow> v(Mute_of is_output (cmd_id c) \<mapsto> Number (cmd_value c))
         | SetLevel \<Rightarrow> v(Level_of is_output (cmd_id c) \<mapsto> Number (cmd_value c))
         | SetDefault \<Rightarrow> v(Route_of is_output (cmd_role c) \<mapsto> Identity (cmd_id c))
         | SetCameraSource \<Rightarrow> v(Camera_source \<mapsto> Identity (cmd_id c))
         | SetCameraEnabled \<Rightarrow> v(Camera_enabled \<mapsto> Number (cmd_value c))
         | _ \<Rightarrow> v)"

text \<open>The revision a reply reports for the setting of a command, if it can tell.\<close>

definition reported_revision :: "BrokerCommand \<Rightarrow> Inventory \<Rightarrow> u64 option" where
  "reported_revision c inventory =
     (case operation c of
        SetMute \<Rightarrow> map_option (endpoint_revision True) (FindEndpoint inventory (cmd_device c) (cmd_id c))
      | SetLevel \<Rightarrow> map_option (endpoint_revision False) (FindEndpoint inventory (cmd_device c) (cmd_id c))
      | SetDefault \<Rightarrow> Some (revisions_of (cmd_device c) inventory ! cmd_role c)
      | SetCameraSource \<Rightarrow> Some (cs_revision (st_camera (inv_state inventory)))
      | Observe \<Rightarrow> Some (expectedRevision c)
      | _ \<Rightarrow> None)"

text \<open>The settings a profile asks for, from the settings \<open>v0\<close> before it: mute follows the loudness of the former default.\<close>

definition spec_device :: "Profile \<Rightarrow> settings \<Rightarrow> DeviceKind \<Rightarrow> settings \<Rightarrow> settings" where
  "spec_device p v0 device v =
     (let is_output = (device = Output);
          loud = (case v0 (Route_of is_output (firstRole p)) of
                    Some (Identity former) \<Rightarrow> v0 (Mute_of is_output former) = Some (Number 0)
                  | _ \<Rightarrow> False);
          v' = (if loud then v else v(Mute_of is_output (profile_id p device) \<mapsto> Number 1))
      in if restoreLevels p then v'(Level_of is_output (profile_id p device) \<mapsto> Number (profile_level p device)) else v')"

definition spec_route :: "Profile \<Rightarrow> DeviceKind \<Rightarrow> nat \<Rightarrow> settings \<Rightarrow> settings" where
  "spec_route p device role v = v(Route_of (device = Output) role \<mapsto> Identity (profile_id p device))"

definition profile_settings :: "Profile \<Rightarrow> settings \<Rightarrow> settings" where
  "profile_settings p v0 =
     (foldl (\<lambda>v f. f v) v0
       ([spec_device p v0 Output, spec_device p v0 Microphone]
        @ concat (map (\<lambda>role. map (\<lambda>device. spec_route p device role) [Output, Microphone]) [firstRole p..<3])
        @ [\<lambda>v. v(Camera_source \<mapsto> Identity (cameraId p))]))"

definition undone :: "Undo list \<Rightarrow> settings \<Rightarrow> settings" where
  "undone us v = foldl (\<lambda>v e. assign (undo_command e) v) v us"

lemma undone_simps [simp]: "undone [] v = v" "undone (e # us) v = undone us (assign (undo_command e) v)"
  by (simp_all add: undone_def)

lemma FindEndpoint_find: "FindEndpoint inventory device i = find_endpoint (device = Output) i inventory"
  by (simp add: FindEndpoint_def find_endpoint_def)

lemma not_failed: "\<not> FAILED hr \<longleftrightarrow> SUCCEEDED hr"
  by (simp add: SUCCEEDED_def FAILED_def not_less)

lemma failure_is_failure: "ConnectionFailure hr \<Longrightarrow> FAILED hr"
  by (auto simp: ConnectionFailure_def FAILED_def HRESULT_FROM_WIN32_def)

section \<open>Only the end of a transaction says that it was applied\<close>

lemma applied_steps:
  "applied (t_outcome (snd (Call tx c b s))) = applied (t_outcome s)"
  "applied (t_outcome (snd (CheckSafety tx s))) = applied (t_outcome s)"
  "applied (t_outcome (mutated entry r s)) = applied (t_outcome s)"
  "applied (t_outcome (not_mutated r' c s)) = applied (t_outcome s)"
  "applied (t_outcome (incomplete s)) = applied (t_outcome s)"
  "applied (t_outcome (set_result hr s)) = applied (t_outcome s)"
  by (simp_all add: Call_def CheckSafety_def mutated_def not_mutated_def incomplete_def set_result_def case_prod_beta Let_def)

lemma applied_mutations:
  "applied (t_outcome (snd (AudioMutation tx op device i v s))) = applied (t_outcome s)"
  "applied (t_outcome (snd (RouteMutation tx device i role s))) = applied (t_outcome s)"
  "applied (t_outcome (snd (CameraMutation tx s))) = applied (t_outcome s)"
  by (simp_all add: AudioMutation_def RouteMutation_def CameraMutation_def case_prod_beta Let_def applied_steps split: option.splits)

lemma applied_ApplyDevice: "applied (t_outcome (snd (ApplyDevice tx original device s))) = applied (t_outcome s)"
  by (simp add: ApplyDevice_def case_prod_beta Let_def applied_mutations split: option.splits)

lemma applied_CheckMatch: "applied (t_outcome (snd (CheckMatch tx s))) = applied (t_outcome s)"
  by (simp add: CheckMatch_def case_prod_beta Let_def applied_steps)

lemma applied_ApplyAll: "\<not> applied (t_outcome s) \<Longrightarrow> \<not> applied (t_outcome (snd (ApplyAll tx original hr s)))"
  unfolding ApplyAll_def
  by (rule until_failure_inv)
     (auto simp: applied_steps applied_mutations applied_ApplyDevice applied_CheckMatch)

lemma applied_Rollback: "applied (t_outcome (RollbackEntries tx entries s)) = applied (t_outcome s)"
proof (induction tx entries s rule: RollbackEntries.induct)
  case (2 tx entry entries s)
  have "applied (t_outcome (RollbackEntry tx entry s)) = applied (t_outcome s)" for s
    by (simp add: RollbackEntry_def case_prod_beta Let_def applied_steps)
  with 2 show ?case by simp
qed simp

section \<open>The backend's contract\<close>

locale av_backend =
  fixes env :: "'w av_env" and devices :: "'w \<Rightarrow> Inventory" and ok :: "'w \<Rightarrow> bool"
  assumes tick_keeps: "ok w \<Longrightarrow> ok (snd (env_tick env w)) \<and> devices (snd (env_tick env w)) = devices w"
    and snapshot_keeps: "ok w \<Longrightarrow> ok (snd (env_snapshot env w)) \<and> devices (snd (env_snapshot env w)) = devices w"
    and execute_ok: "ok w \<Longrightarrow> ok (snd (env_execute env c t r w))"
    and accepted: "ok w \<Longrightarrow> env_execute env c t r w = ((hr, r'), w') \<Longrightarrow> SUCCEEDED hr \<Longrightarrow>
      settings (devices w') = assign c (settings (devices w)) \<and> settings r' = settings (devices w')"
    and refused: "ok w \<Longrightarrow> env_execute env c t r w = ((hr, r'), w') \<Longrightarrow> FAILED hr \<Longrightarrow> \<not> ConnectionFailure hr \<Longrightarrow>
      reported_revision c r' = Some (expectedRevision c) \<Longrightarrow> settings (devices w') = settings (devices w)"
begin

definition cur :: "'w txn \<Rightarrow> settings" where
  "cur s = settings (devices (t_world s))"

definition known :: "'w txn \<Rightarrow> bool" where
  "known s \<longleftrightarrow> stateKnown (t_outcome s) \<and> rollbackComplete (t_outcome s)"

definition unwinds :: "settings \<Rightarrow> 'w txn \<Rightarrow> bool" where
  "unwinds v0 s \<longleftrightarrow> ok (t_world s) \<and> (known s \<longrightarrow> undone (t_undo s) (cur s) = v0)"

definition sync :: "settings \<Rightarrow> 'w txn \<Rightarrow> bool" where
  "sync v0 s \<longleftrightarrow> ok (t_world s) \<and> known s \<and> undone (t_undo s) (cur s) = v0 \<and> settings (t_reply s) = cur s"

definition refines :: "settings \<Rightarrow> (settings \<Rightarrow> settings) \<Rightarrow> ('w txn \<Rightarrow> hresult \<times> 'w txn) \<Rightarrow> 'w txn \<Rightarrow> bool" where
  "refines v0 g f s \<longleftrightarrow>
     (let (hr, s') = f s in if SUCCEEDED hr then sync v0 s' \<and> cur s' = g (cur s) else unwinds v0 s')"

lemma Call_cases:
  assumes "tx_env tx = env" "ok (t_world s)" "Call tx c b s = (hr, s')"
  obtains (expired) w where "ok w" "devices w = devices (t_world s)" "hr = HRESULT_FROM_WIN32 1460" "s' = s\<lparr>t_world := w\<rparr>"
  | (called) w0 t r' w where "ok w0" "devices w0 = devices (t_world s)" "env_execute env c t (t_reply s) w0 = ((hr, r'), w)"
      "s' = s\<lparr>t_world := w, t_reply := r', t_sent := t_sent s @ [(b, c)],
              t_outcome := (if ConnectionFailure hr then (t_outcome s)\<lparr>stateKnown := False\<rparr> else t_outcome s)\<rparr>"
proof -
  obtain now w0 where tick: "env_tick env (t_world s) = (now, w0)" by fastforce
  have w0: "ok w0" "devices w0 = devices (t_world s)" using tick_keeps [OF assms(2)] tick by simp_all
  show ?thesis
  proof (cases "Remaining tx b now = 0")
    case True
    show ?thesis by (rule expired [OF w0]) (use assms True tick in \<open>simp_all add: Call_def\<close>)
  next
    case False
    obtain hr' r' w where e: "env_execute env c (Remaining tx b now) (t_reply s) w0 = ((hr', r'), w)"
      by (metis surj_pair)
    have hr: "hr' = hr" using assms False tick e by (simp add: Call_def Let_def)
    show ?thesis
      by (rule called [OF w0 e [unfolded hr]]) (use assms False tick e in \<open>auto simp: Call_def Let_def\<close>)
  qed
qed

lemma Call_facts:
  assumes "tx_env tx = env" "ok (t_world s)" "Call tx c b s = (hr, s')"
  shows "ok (t_world s')" "t_undo s' = t_undo s" "known s' \<Longrightarrow> known s"
    "SUCCEEDED hr \<Longrightarrow> known s' = known s \<and> cur s' = assign c (cur s) \<and> settings (t_reply s') = cur s'"
    "FAILED hr \<Longrightarrow> known s' \<Longrightarrow> reported_revision c (t_reply s') = Some (expectedRevision c) \<Longrightarrow> cur s' = cur s"
proof -
  have e: "FAILED (HRESULT_FROM_WIN32 1460)" by (simp add: FAILED_def HRESULT_FROM_WIN32_def)
  from assms have "ok (t_world s') \<and> t_undo s' = t_undo s \<and> (known s' \<longrightarrow> known s) \<and>
    (SUCCEEDED hr \<longrightarrow> known s' = known s \<and> cur s' = assign c (cur s) \<and> settings (t_reply s') = cur s') \<and>
    (FAILED hr \<longrightarrow> known s' \<longrightarrow> reported_revision c (t_reply s') = Some (expectedRevision c) \<longrightarrow> cur s' = cur s)"
  proof (cases rule: Call_cases)
    case expired
    then show ?thesis using e by (simp add: cur_def known_def SUCCEEDED_def FAILED_def)
  next
    case (called w0 t r' w)
    then have "ok w" using execute_ok [of w0 c t "t_reply s"] by simp
    moreover have "\<not> ConnectionFailure hr" if "SUCCEEDED hr" using that failure_is_failure not_failed by blast
    ultimately show ?thesis
      using called accepted [OF called(1,3)] refused [OF called(1,3)] by (simp add: cur_def known_def)
  qed
  then show "ok (t_world s')" "t_undo s' = t_undo s" "known s' \<Longrightarrow> known s"
    "SUCCEEDED hr \<Longrightarrow> known s' = known s \<and> cur s' = assign c (cur s) \<and> settings (t_reply s') = cur s'"
    "FAILED hr \<Longrightarrow> known s' \<Longrightarrow> reported_revision c (t_reply s') = Some (expectedRevision c) \<Longrightarrow> cur s' = cur s"
    by blast+
qed

lemma CheckSafety_facts:
  assumes "tx_env tx = env" "ok (t_world s)" "CheckSafety tx s = (hr, s')"
  shows "ok (t_world s')" "t_undo s' = t_undo s" "known s' = known s" "cur s' = cur s" "t_reply s' = t_reply s"
  using assms snapshot_keeps [OF assms(2)]
  by (auto simp: CheckSafety_def case_prod_beta Let_def known_def cur_def split: if_splits)


lemma refinesI:
  assumes "f s = (hr, s')" "SUCCEEDED hr \<Longrightarrow> sync v0 s' \<and> cur s' = g (cur s)" "FAILED hr \<Longrightarrow> unwinds v0 s'"
  shows "refines v0 g f s"
  using assms not_failed by (auto simp: refines_def)

lemma sync_unwinds: "sync v0 s \<Longrightarrow> unwinds v0 s"
  by (simp add: sync_def unwinds_def)

lemma CheckSafety_refines:
  assumes "tx_env tx = env" "sync v0 s"
  shows "refines v0 (\<lambda>v. v) (CheckSafety tx) s"
proof (rule refinesI [of _ _ "fst (CheckSafety tx s)" "snd (CheckSafety tx s)"])
  note f = CheckSafety_facts [of tx s "fst (CheckSafety tx s)" "snd (CheckSafety tx s)"]
  have s: "sync v0 (snd (CheckSafety tx s))" "cur (snd (CheckSafety tx s)) = cur s"
    using assms f by (simp_all add: sync_def)
  then show "sync v0 (snd (CheckSafety tx s)) \<and> cur (snd (CheckSafety tx s)) = cur s" "unwinds v0 (snd (CheckSafety tx s))"
    using sync_unwinds by blast+
qed simp

text \<open>What every mutation does once it has built its command and the entry that undoes it.\<close>

lemma mutation_refines:
  assumes tx: "tx_env tx = env" and s: "sync v0 s"
    and call: "Call tx c False s = (hr, s')"
    and old: "assign (undo_command entry) (assign c (cur s)) = cur s"
    and revision: "reported_revision c (t_reply s') = r'"
  shows "(if SUCCEEDED hr then sync v0 (mutated entry r s') \<and> cur (mutated entry r s') = assign c (cur s)
          else unwinds v0 (not_mutated r' c s'))"
proof -
  have ok: "ok (t_world s)" and undo: "undone (t_undo s) (cur s) = v0" and k: "known s" using s by (simp_all add: sync_def)
  note f = Call_facts [OF tx ok call]
  have sent: "undone (t_undo (mutated entry r s')) v = undone (t_undo s) (assign (undo_command entry) v)" for v
    by (simp add: mutated_def f(2))
  show ?thesis
  proof (cases "SUCCEEDED hr")
    case True
    then show ?thesis using f(1,4) k undo old sent
      by (simp add: sync_def cur_def known_def) (simp add: mutated_def)
  next
    case False
    then have "FAILED hr" using not_failed by blast
    then show ?thesis using False f undo revision
      by (auto simp: unwinds_def not_mutated_def cur_def known_def)
  qed
qed

lemma safety_cases:
  assumes tx: "tx_env tx = env" and s: "sync v0 s"
  obtains (unsafe) safe s1 where "CheckSafety tx s = (safe, s1)" "FAILED safe" "unwinds v0 s1"
  | (safe) safe s1 where "CheckSafety tx s = (safe, s1)" "\<not> FAILED safe" "sync v0 s1" "cur s1 = cur s" "t_reply s1 = t_reply s"
proof -
  obtain safe s1 where c: "CheckSafety tx s = (safe, s1)" by fastforce
  have r: "refines v0 (\<lambda>v. v) (CheckSafety tx) s" using CheckSafety_refines [OF tx s] .
  have reply: "t_reply s1 = t_reply s" using CheckSafety_facts [OF tx _ c] s by (simp add: sync_def)
  show ?thesis
  proof (cases "FAILED safe")
    case True
    then have "unwinds v0 s1" using r by (simp add: refines_def c not_failed [symmetric])
    then show ?thesis by (rule unsafe [OF c True])
  next
    case False
    then have "sync v0 s1" "cur s1 = cur s" using r by (simp_all add: refines_def c not_failed [symmetric])
    then show ?thesis by (rule safe [OF c False _ _ reply])
  qed
qed

lemma AudioMutation_refines:
  assumes tx: "tx_env tx = env" and s: "sync v0 s" and op: "op = SetMute \<or> op = SetLevel"
    and present: "FindEndpoint (t_reply s) device i \<noteq> None"
  defines "k \<equiv> (if op = SetMute then Mute_of else Level_of) (device = Output) i"
  shows "refines v0 (\<lambda>v. v(k \<mapsto> Number x)) (AudioMutation tx op device i x) s"
  using tx s
proof (cases rule: safety_cases)
  case unsafe
  then show ?thesis by (simp add: refines_def AudioMutation_def not_failed [symmetric])
next
  case (safe safe s1)
  note c = safe(1) and False = safe(2) and s1 = safe(3,4) and reply = safe(5)
    obtain e where e: "FindEndpoint (t_reply s) device i = Some e" using present by blast
    have "cur s1 k = settings (t_reply s1) k" using s1 by (simp add: sync_def)
    then have k: "cur s1 k = Some (Number (endpoint_value (op = SetMute) e))"
      using e op reply by (auto simp: k_def FindEndpoint_find)
    show ?thesis
    proof (cases "x = endpoint_value (op = SetMute) e")
      case True
      then have "(cur s1)(k \<mapsto> Number x) = cur s1" using k by (simp add: fun_upd_idem)
      moreover have "AudioMutation tx op device i x s = (S_OK, s1)"
        using True False c e reply by (simp add: AudioMutation_def Let_def)
      ultimately show ?thesis using s1 by (auto intro!: refinesI simp: SUCCEEDED_def S_OK_def FAILED_def)
    next
      case value_differs: False
      define command where "command = \<lparr>operation = op, cmd_device = device, cmd_id = i, cmd_value = x, cmd_role = 0,
        expectedGeneration = ep_generation e, expectedRevision = endpoint_revision (op = SetMute) e\<rparr>"
      define entry where "entry = \<lparr>undo_command = command\<lparr>cmd_value := endpoint_value (op = SetMute) e\<rparr>,
        ownedRevision = 0, restorable = True\<rparr>"
      obtain hr s2 where call: "Call tx command False s1 = (hr, s2)" by fastforce
      let ?r = "case FindEndpoint (t_reply s2) device i of Some c \<Rightarrow> endpoint_revision (op = SetMute) c | None \<Rightarrow> 0"
      let ?r' = "map_option (endpoint_revision (op = SetMute)) (FindEndpoint (t_reply s2) device i)"
      have m: "AudioMutation tx op device i x s =
          (hr, if SUCCEEDED hr then mutated entry ?r s2 else not_mutated ?r' command s2)"
        using value_differs False c e reply call
        by (simp add: AudioMutation_def Let_def command_def entry_def)
      have a: "assign command v = v(k \<mapsto> Number x)"
        "assign (undo_command entry) v = v(k \<mapsto> Number (endpoint_value (op = SetMute) e))" for v
        using op by (auto simp: assign_def command_def entry_def k_def)
      have "assign (undo_command entry) (assign command (cur s1)) = cur s1" using k by (simp add: a fun_upd_idem)
      moreover have "reported_revision command (t_reply s2) = ?r'"
        using op by (auto simp: reported_revision_def command_def)
      ultimately show ?thesis
        using mutation_refines [OF tx s1(1) call, of entry ?r' ?r] m s1(2)
        by (simp add: refines_def a)
    qed
qed

lemma RouteMutation_refines:
  fixes device :: DeviceKind and i :: device_id and role :: nat
  assumes tx: "tx_env tx = env" and s: "sync v0 s" and role: "role < 3"
  defines "k \<equiv> Route_of (device = Output) role"
  shows "refines v0 (\<lambda>v. v(k \<mapsto> Identity i)) (RouteMutation tx device i role) s"
  using tx s
proof (cases rule: safety_cases)
  case unsafe
  then show ?thesis by (simp add: refines_def RouteMutation_def not_failed [symmetric])
next
  case (safe safe s1)
  let ?old = "routes_of device (t_reply s1) ! role"
  have "cur s1 k = settings (t_reply s1) k" using safe by (simp add: sync_def)
  then have k: "cur s1 k = Some (Identity ?old)" using role by (simp add: k_def routes_of_def)
  show ?thesis
  proof (cases "?old = i")
    case True
    then have "(cur s1)(k \<mapsto> Identity i) = cur s1" using k by (simp add: fun_upd_idem)
    moreover have "RouteMutation tx device i role s = (S_OK, s1)"
      using True safe by (simp add: RouteMutation_def Let_def)
    ultimately show ?thesis using safe by (auto intro!: refinesI simp: SUCCEEDED_def S_OK_def FAILED_def)
  next
    case differs: False
    show ?thesis
    proof (cases "FindEndpoint (t_reply s1) device i")
      case None
      then have "RouteMutation tx device i role s = (HRESULT_FROM_WIN32 1168, s1)"
        using differs safe by (simp add: RouteMutation_def Let_def)
      then show ?thesis using safe sync_unwinds
        by (auto intro!: refinesI simp: SUCCEEDED_def HRESULT_FROM_WIN32_def)
    next
      case (Some target)
      define command where "command = \<lparr>operation = SetDefault, cmd_device = device, cmd_id = i, cmd_value = 0, cmd_role = role,
        expectedGeneration = ep_generation target, expectedRevision = revisions_of device (t_reply s1) ! role\<rparr>"
      define entry where "entry = \<lparr>undo_command = command\<lparr>cmd_id := ?old,
          expectedGeneration := (case FindEndpoint (t_reply s1) device ?old of Some e \<Rightarrow> ep_generation e | None \<Rightarrow> 0)\<rparr>,
        ownedRevision = 0, restorable = (FindEndpoint (t_reply s1) device ?old \<noteq> None)\<rparr>"
      obtain hr s2 where call: "Call tx command False s1 = (hr, s2)" by fastforce
      let ?r = "revisions_of device (t_reply s2) ! role"
      have m: "RouteMutation tx device i role s =
          (hr, if SUCCEEDED hr then mutated entry ?r s2 else not_mutated (Some ?r) command s2)"
        using differs Some safe call by (simp add: RouteMutation_def Let_def command_def entry_def)
      have a: "assign command v = v(k \<mapsto> Identity i)" "assign (undo_command entry) v = v(k \<mapsto> Identity ?old)" for v
        by (auto simp: assign_def command_def entry_def k_def)
      have "assign (undo_command entry) (assign command (cur s1)) = cur s1" using k by (simp add: a fun_upd_idem)
      moreover have "reported_revision command (t_reply s2) = Some ?r" by (simp add: reported_revision_def command_def)
      ultimately show ?thesis
        using mutation_refines [OF tx safe(3) call, of entry "Some ?r" ?r] m safe(4) by (simp add: refines_def a)
    qed
  qed
qed

lemma CameraMutation_refines:
  assumes tx: "tx_env tx = env" and s: "sync v0 s"
  shows "refines v0 (\<lambda>v. v(Camera_source \<mapsto> Identity (cameraId (tx_profile tx)))) (CameraMutation tx) s"
  using tx s
proof (cases rule: safety_cases)
  case unsafe
  then show ?thesis by (simp add: refines_def CameraMutation_def not_failed [symmetric])
next
  case (safe safe s1)
  let ?i = "cameraId (tx_profile tx)" and ?camera = "st_camera (inv_state (t_reply s1))"
  have "cur s1 Camera_source = settings (t_reply s1) Camera_source" using safe by (simp add: sync_def)
  then have k: "cur s1 Camera_source = Some (Identity (sourceId ?camera))" by simp
  show ?thesis
  proof (cases "sourceId ?camera = ?i")
    case True
    then have "(cur s1)(Camera_source \<mapsto> Identity ?i) = cur s1" using k by (simp add: fun_upd_idem)
    moreover have "CameraMutation tx s = (S_OK, s1)" using True safe by (simp add: CameraMutation_def Let_def)
    ultimately show ?thesis using safe by (auto intro!: refinesI simp: SUCCEEDED_def S_OK_def FAILED_def)
  next
    case False
    define command where "command = \<lparr>operation = SetCameraSource, cmd_device = Camera, cmd_id = ?i, cmd_value = 0,
      cmd_role = 0, expectedGeneration = 0, expectedRevision = cs_revision ?camera\<rparr>"
    define entry where "entry = \<lparr>undo_command = command\<lparr>cmd_id := sourceId ?camera\<rparr>, ownedRevision = 0, restorable = True\<rparr>"
    obtain hr s2 where call: "Call tx command False s1 = (hr, s2)" by fastforce
    let ?r = "cs_revision (st_camera (inv_state (t_reply s2)))"
    have m: "CameraMutation tx s =
        (hr, if SUCCEEDED hr then mutated entry ?r s2 else not_mutated (Some ?r) command s2)"
      using False safe call by (simp add: CameraMutation_def Let_def command_def entry_def)
    have a: "assign command v = v(Camera_source \<mapsto> Identity ?i)"
      "assign (undo_command entry) v = v(Camera_source \<mapsto> Identity (sourceId ?camera))" for v
      by (auto simp: assign_def command_def entry_def)
    have "assign (undo_command entry) (assign command (cur s1)) = cur s1" using k by (simp add: a fun_upd_idem)
    moreover have "reported_revision command (t_reply s2) = Some ?r" by (simp add: reported_revision_def command_def)
    ultimately show ?thesis
      using mutation_refines [OF tx safe(3) call, of entry "Some ?r" ?r] m safe(4) by (simp add: refines_def a)
  qed
qed

lemma present_iff:
  assumes "sync v0 s"
  shows "(FindEndpoint (t_reply s) device i = None) = (cur s (Mute_of (device = Output) i) = None)"
proof -
  have "cur s (Mute_of (device = Output) i) = settings (t_reply s) (Mute_of (device = Output) i)"
    using assms by (simp add: sync_def)
  then show ?thesis by (simp add: FindEndpoint_find)
qed

lemma muting_refines:
  assumes tx: "tx_env tx = env" and s: "sync v0 s" and d: "FindEndpoint (t_reply s) device i = Some destination"
  shows "refines v0 (\<lambda>v. if quiet then v(Mute_of (device = Output) i \<mapsto> Number 1) else v)
    (\<lambda>s. if quiet \<and> \<not> ep_muted destination then AudioMutation tx SetMute device i 1 s else (S_OK, s)) s"
proof (cases "quiet \<and> \<not> ep_muted destination")
  case True
  then show ?thesis using AudioMutation_refines [OF tx s, of SetMute device i 1] d by (simp add: refines_def)
next
  case False
  have "cur s (Mute_of (device = Output) i) = settings (t_reply s) (Mute_of (device = Output) i)"
    using s by (simp add: sync_def)
  then have "cur s (Mute_of (device = Output) i) = Some (Number (endpoint_value True destination))"
    using d by (simp add: FindEndpoint_find)
  then have "quiet \<Longrightarrow> (cur s)(Mute_of (device = Output) i \<mapsto> Number 1) = cur s"
    using False by (intro fun_upd_idem) (simp add: endpoint_value_def)
  then show ?thesis using False s by (auto simp: refines_def SUCCEEDED_def S_OK_def)
qed

lemma ApplyDevice_refines:
  assumes tx: "tx_env tx = env" and s: "sync v0 s" and original: "settings original = v0"
  shows "refines v0 (spec_device (tx_profile tx) v0 device) (ApplyDevice tx original device) s"
proof (cases "FindEndpoint (t_reply s) device (profile_id (tx_profile tx) device)")
  case None
  then show ?thesis using sync_unwinds [OF s]
    by (simp add: refines_def ApplyDevice_def Let_def SUCCEEDED_def HRESULT_FROM_WIN32_def)
next
  case (Some destination)
  let ?p = "tx_profile tx" and ?o = "device = Output"
  let ?i = "profile_id ?p device" and ?former = "routes_of device original ! firstRole ?p"
  define previous where "previous = FindEndpoint original device ?former"
  define quiet where "quiet \<longleftrightarrow> (case previous of None \<Rightarrow> True | Some e \<Rightarrow> ep_muted e)"
  let ?loud = "case v0 (Route_of ?o (firstRole ?p)) of
      Some (Identity former) \<Rightarrow> v0 (Mute_of ?o former) = Some (Number 0) | _ \<Rightarrow> False"
  have loud: "?loud \<longleftrightarrow> \<not> quiet"
    by (auto simp: original [symmetric] routes_of_def firstRole_def quiet_def previous_def FindEndpoint_find endpoint_value_def
      split: option.splits)
  let ?mute = "\<lambda>s. if quiet \<and> \<not> ep_muted destination then AudioMutation tx SetMute device ?i 1 s else (S_OK, s)"
  obtain hr s1 where m: "?mute s = (hr, s1)" by fastforce
  have r: "refines v0 (\<lambda>v. if quiet then v(Mute_of ?o ?i \<mapsto> Number 1) else v) ?mute s"
    by (rule muting_refines [OF tx s Some])
  have a: "ApplyDevice tx original device s =
      (if SUCCEEDED hr \<and> restoreLevels ?p then AudioMutation tx SetLevel device ?i (profile_level ?p device) s1 else (hr, s1))"
    using m Some by (simp add: ApplyDevice_def Let_def quiet_def previous_def)
  show ?thesis
  proof (cases "SUCCEEDED hr")
    case True
    then have s1: "sync v0 s1" "cur s1 = (if quiet then (cur s)(Mute_of ?o ?i \<mapsto> Number 1) else cur s)"
      using r m by (simp_all add: refines_def)
    have "cur s (Mute_of ?o ?i) \<noteq> None" using present_iff [OF s] Some by (simp flip: present_iff [OF s])
    then have "FindEndpoint (t_reply s1) device ?i \<noteq> None" using present_iff [OF s1(1)] s1(2) by auto
    from AudioMutation_refines [OF tx s1(1) _ this, of SetLevel "profile_level ?p device"]
    show ?thesis using s1 True a loud by (auto simp: refines_def spec_device_def Let_def)
  next
    case False
    then show ?thesis using r m a by (simp add: refines_def)
  qed
qed

lemma CheckMatch_refines:
  assumes tx: "tx_env tx = env" and s: "sync v0 s"
  shows "refines v0 (\<lambda>v. v) (CheckMatch tx) s"
proof -
  obtain hr s1 where c: "Call tx BrokerCommand_init False s = (hr, s1)" by fastforce
  have ok: "ok (t_world s)" using s by (simp add: sync_def)
  note f = Call_facts [OF tx ok c]
  have o: "reported_revision BrokerCommand_init r = Some (expectedRevision BrokerCommand_init)"
    "assign BrokerCommand_init v = v" for r v
    by (simp_all add: reported_revision_def assign_def BrokerCommand_init_def)
  have good: "sync v0 s1" "cur s1 = cur s" if "SUCCEEDED hr"
    using that f s o by (simp_all add: sync_def)
  have "unwinds v0 s1" using f s o not_failed [of hr] by (cases "FAILED hr") (auto simp: sync_def unwinds_def)
  then show ?thesis using c good not_failed [of hr] by (auto simp: refines_def CheckMatch_def Let_def)
qed

lemma until_failure_refines:
  assumes "list_all2 (\<lambda>f g. \<forall>s. sync v0 s \<longrightarrow> refines v0 g f s) fs gs" "sync v0 s" "SUCCEEDED hr"
  shows "refines v0 (\<lambda>v. foldl (\<lambda>v g. g v) v gs) (until_failure fs hr) s"
  using assms
proof (induction fs gs arbitrary: hr s rule: list_all2_induct)
  case Nil
  then show ?case by (simp add: refines_def)
next
  case (Cons f fs g gs)
  obtain hr1 s1 where f: "f s = (hr1, s1)" by fastforce
  have r: "refines v0 g f s" using Cons by blast
  have hr: "\<not> FAILED hr" using Cons.prems not_failed by blast
  show ?case
  proof (cases "SUCCEEDED hr1")
    case True
    then have s1: "sync v0 s1" "cur s1 = g (cur s)" using r f by (simp_all add: refines_def)
    from Cons.IH [OF s1(1) True] show ?thesis
      by (simp add: refines_def f hr s1(2) case_prod_beta split: if_splits)
  next
    case False
    then have "FAILED hr1" using not_failed by blast
    then have "until_failure fs hr1 s1 = (hr1, s1)" by (cases fs) simp_all
    then show ?thesis using r f False by (simp add: refines_def hr)
  qed
qed

lemma ApplyAll_refines:
  assumes tx: "tx_env tx = env" and s: "sync v0 s" and original: "settings original = v0" and hr: "SUCCEEDED hr"
    and start: "cur s = v0"
  shows "refines v0 (\<lambda>v. profile_settings (tx_profile tx) v0) (ApplyAll tx original hr) s"
proof -
  let ?p = "tx_profile tx"
  let ?gs = "[spec_device ?p v0 Output, spec_device ?p v0 Microphone]
    @ concat (map (\<lambda>role. map (\<lambda>device. spec_route ?p device role) [Output, Microphone]) [firstRole ?p..<3])
    @ [\<lambda>v. v(Camera_source \<mapsto> Identity (cameraId ?p))]"
  have route: "refines v0 (spec_route ?p device role) (RouteMutation tx device (profile_id ?p device) role) s"
    if "sync v0 s" "role < 3" for device role s
    using RouteMutation_refines [OF tx that, of device "profile_id ?p device"] by (simp add: spec_route_def [abs_def])
  have "list_all2 (\<lambda>f g. \<forall>s. sync v0 s \<longrightarrow> refines v0 g f s)
      ([ApplyDevice tx original Output, ApplyDevice tx original Microphone]
        @ concat (map (\<lambda>role. map (\<lambda>device. RouteMutation tx device (profile_id ?p device) role) [Output, Microphone])
            [firstRole ?p..<3])
        @ [CameraMutation tx, CheckSafety tx, CheckMatch tx])
      (?gs @ [\<lambda>v. v, \<lambda>v. v])"
    using ApplyDevice_refines [OF tx _ original] route CameraMutation_refines [OF tx] CheckSafety_refines [OF tx]
      CheckMatch_refines [OF tx]
    by (cases "audioRoles ?p = Communications") (simp_all add: firstRole_def upt_rec numeral_3_eq_3)
  from until_failure_refines [OF this s hr]
  have "refines v0 (\<lambda>v. foldl (\<lambda>v g. g v) v ?gs) (ApplyAll tx original hr) s"
    by (simp only: ApplyAll_def foldl_append foldl.simps)
  then show ?thesis
    using start by (simp add: refines_def profile_settings_def case_prod_beta split: if_splits)
qed

lemma RollbackEntry_facts:
  assumes tx: "tx_env tx = env" and ok: "ok (t_world s)"
  shows "ok (t_world (RollbackEntry tx entry s))" "t_undo (RollbackEntry tx entry s) = t_undo s"
    "known (RollbackEntry tx entry s) \<Longrightarrow>
       known s \<and> cur (RollbackEntry tx entry s) = assign (undo_command entry) (cur s)"
proof -
  define w where "w = (if restorable entry then snd (env_snapshot env (t_world s)) else t_world s)"
  define c where "c = (undo_command entry)\<lparr>expectedRevision := current_revision (undo_command entry) (t_reply s)\<rparr>"
  have w: "ok w" "devices w = devices (t_world s)" using snapshot_keeps [OF ok] ok by (simp_all add: w_def)
  obtain hr s2 where call: "Call tx c True (s\<lparr>t_world := w\<rparr>) = (hr, s2)" by fastforce
  have ok': "ok (t_world (s\<lparr>t_world := w\<rparr>))" using w by simp
  have s': "known (s\<lparr>t_world := w\<rparr>) = known s" "cur (s\<lparr>t_world := w\<rparr>) = cur s"
    using w by (simp_all add: known_def cur_def)
  have c': "assign c v = assign (undo_command entry) v" for v by (simp add: c_def assign_def cong: BrokerOperation.case_cong)
  note f = Call_facts [OF tx ok' call, unfolded s' c']
  have inc: "\<not> known (incomplete s)" "ok (t_world (incomplete s)) = ok (t_world s)" "t_undo (incomplete s) = t_undo s" for s
    by (simp_all add: known_def incomplete_def)
  have "RollbackEntry tx entry s = incomplete (s\<lparr>t_world := w\<rparr>) \<or> RollbackEntry tx entry s = (if FAILED hr then incomplete s2 else s2)"
    using call tx by (auto simp: RollbackEntry_def w_def c_def Let_def case_prod_beta)
  then have "ok (t_world (RollbackEntry tx entry s)) \<and> t_undo (RollbackEntry tx entry s) = t_undo s \<and>
    (known (RollbackEntry tx entry s) \<longrightarrow> known s \<and> cur (RollbackEntry tx entry s) = assign (undo_command entry) (cur s))"
    using f w inc not_failed [of hr] by (auto split: if_splits)
  then show "ok (t_world (RollbackEntry tx entry s))" "t_undo (RollbackEntry tx entry s) = t_undo s"
    "known (RollbackEntry tx entry s) \<Longrightarrow>
       known s \<and> cur (RollbackEntry tx entry s) = assign (undo_command entry) (cur s)"
    by blast+
qed

lemma RollbackEntries_unwinds:
  assumes "tx_env tx = env" "unwinds v0 s" "t_undo s = entries"
  shows "ok (t_world (RollbackEntries tx entries s)) \<and>
    (known (RollbackEntries tx entries s) \<longrightarrow> cur (RollbackEntries tx entries s) = v0)"
  using assms(2,3)
proof (induction entries arbitrary: s)
  case Nil
  then show ?case by (simp add: unwinds_def)
next
  case (Cons entry entries)
  let ?s = "s\<lparr>t_undo := entries\<rparr>"
  have u: "ok (t_world s)" "known s \<Longrightarrow> undone entries (assign (undo_command entry) (cur s)) = v0"
    using Cons.prems by (simp_all add: unwinds_def)
  have s: "ok (t_world ?s)" "cur ?s = cur s" "known ?s = known s" using u(1) by (simp_all add: cur_def known_def)
  note f = RollbackEntry_facts [OF assms(1) s(1), of entry, unfolded s]
  have "unwinds v0 (RollbackEntry tx entry ?s)" using f u(2) by (auto simp: unwinds_def)
  with Cons.IH [OF this] show ?case using f(2) by simp
qed

lemma Run_atomic:
  fixes tx :: "'w txn_fixed" and s :: "'w txn" and cancel allocated :: bool
  assumes tx: "tx_env tx = env" and ok: "ok (t_world s)" and s: "t_undo s = []" "known s" "\<not> applied (t_outcome s)"
  defines "s' \<equiv> Run tx cancel allocated s"
  shows "ok (t_world s') \<and> (applied (t_outcome s') \<longrightarrow> cur s' = profile_settings (tx_profile tx) (cur s)) \<and>
    (\<not> applied (t_outcome s') \<longrightarrow> known s' \<longrightarrow> cur s' = cur s)"
proof -
  obtain hr s1 where call: "Call tx BrokerCommand_init False s = (hr, s1)" by fastforce
  obtain hr2 s2 where all: "ApplyAll tx (t_reply s1) hr s1 = (hr2, s2)" by fastforce
  note f = Call_facts [OF tx ok call]
  have o: "reported_revision BrokerCommand_init r = Some (expectedRevision BrokerCommand_init)"
    "assign BrokerCommand_init v = v" for r v
    by (simp_all add: reported_revision_def assign_def BrokerCommand_init_def)
  have same: "known (set_result h s) = known s" "cur (set_result h s) = cur s" "t_world (set_result h s) = t_world s"
    "t_undo (set_result h s) = t_undo s" for h s
    by (simp_all add: set_result_def known_def cur_def)
  have a1: "\<not> applied (t_outcome s1)" using s(3) applied_steps(1) [of tx BrokerCommand_init False s] call by simp
  have a2: "\<not> applied (t_outcome s2)" using applied_ApplyAll [OF a1, of tx "t_reply s1" hr] all by simp
  have first: "ok (t_world s1)" "known s1 \<Longrightarrow> cur s1 = cur s" using f o not_failed [of hr] by auto
  consider (early) h s0 where "s' = set_result h s0" "s0 = s \<or> s0 = s1"
    | (memory) "\<not> applied (t_outcome s')" "\<not> known s'" "t_world s' = t_world s1"
    | (applied) "SUCCEEDED hr" "SUCCEEDED hr2" "s' = (set_result hr2 s2)\<lparr>t_outcome := (t_outcome (set_result hr2 s2))\<lparr>applied := True\<rparr>\<rparr>"
    | (failed) "SUCCEEDED hr" "\<not> SUCCEEDED hr2" "s' = Rollback tx (set_result hr2 s2)"
  proof -
    have r: "s' = (if \<not> cancel \<or> tx_total tx < 3 \<or> tx_total tx > 3000 then set_result 0x80070057 s
        else if FAILED hr then set_result hr s1
        else if \<not> allocated
        then s1\<lparr>t_outcome := ApplyOutcome_init\<lparr>out_result := E_OUTOFMEMORY, rollbackComplete := False, stateKnown := False\<rparr>\<rparr>
        else case original_error (tx_profile tx) (t_reply s1) of
               Some e \<Rightarrow> set_result e s1
             | None \<Rightarrow> if SUCCEEDED hr2
                 then (set_result hr2 s2)\<lparr>t_outcome := (t_outcome (set_result hr2 s2))\<lparr>applied := True\<rparr>\<rparr>
                 else Rollback tx (set_result hr2 s2))"
      using call all by (simp add: s'_def Run_def Let_def cong: option.case_cong)
    have m: "\<not> applied (t_outcome x) \<and> \<not> known x \<and> t_world x = t_world s1"
      if "x = s1\<lparr>t_outcome := ApplyOutcome_init\<lparr>out_result := E_OUTOFMEMORY, rollbackComplete := False, stateKnown := False\<rparr>\<rparr>"
      for x using that by (simp add: known_def ApplyOutcome_init_def)
    consider (bad) "\<not> cancel \<or> tx_total tx < 3 \<or> tx_total tx > 3000"
      | (fails) "\<not> (\<not> cancel \<or> tx_total tx < 3 \<or> tx_total tx > 3000)" "FAILED hr"
      | (unallocated) "\<not> (\<not> cancel \<or> tx_total tx < 3 \<or> tx_total tx > 3000)" "\<not> FAILED hr" "\<not> allocated"
      | (goes) "\<not> (\<not> cancel \<or> tx_total tx < 3 \<or> tx_total tx > 3000)" "\<not> FAILED hr" "allocated"
      by blast
    then show thesis
    proof cases
      case bad
      then have "s' = set_result 0x80070057 s" using r by (simp only: if_True)
      then show ?thesis by (rule early) simp
    next
      case fails
      then have "s' = set_result hr s1" using r by (simp only: if_True if_False)
      then show ?thesis by (rule early) simp
    next
      case unallocated
      then have "s' = s1\<lparr>t_outcome := ApplyOutcome_init\<lparr>out_result := E_OUTOFMEMORY, rollbackComplete := False, stateKnown := False\<rparr>\<rparr>"
        using r by (simp only: if_True if_False simp_thms)
      from m [OF this] show ?thesis using memory by blast
    next
      case goes
      then have r': "s' = (case original_error (tx_profile tx) (t_reply s1) of
          Some e \<Rightarrow> set_result e s1
        | None \<Rightarrow> if SUCCEEDED hr2
            then (set_result hr2 s2)\<lparr>t_outcome := (t_outcome (set_result hr2 s2))\<lparr>applied := True\<rparr>\<rparr>
            else Rollback tx (set_result hr2 s2))"
        using r by (simp only: if_True if_False simp_thms)
      have hr: "SUCCEEDED hr" using goes not_failed by blast
      show ?thesis
      proof (cases "original_error (tx_profile tx) (t_reply s1)")
        case None
        then show ?thesis
          using r' applied [OF hr] failed [OF hr] by (cases "SUCCEEDED hr2") simp_all
      next
        case (Some e)
        then have "s' = set_result e s1" using r' by simp
        then show ?thesis by (rule early) simp
      qed
    qed
  qed
  then show ?thesis
  proof cases
    case early
    then show ?thesis using first ok s a1 by (auto simp: same applied_steps)
  next
    case memory
    then show ?thesis using first by simp
  next
    case applied
    then have "sync (cur s) s1" "settings (t_reply s1) = cur s" "cur s1 = cur s"
      using f o s by (simp_all add: sync_def)
    from ApplyAll_refines [OF tx this(1,2) applied(1) this(3)]
    have "sync (cur s) s2" "cur s2 = profile_settings (tx_profile tx) (cur s)"
      using applied all by (simp_all add: refines_def)
    then show ?thesis using applied by (simp add: sync_def same cur_def set_result_def)
  next
    case failed
    then have "sync (cur s) s1" "settings (t_reply s1) = cur s" "cur s1 = cur s"
      using f o s by (simp_all add: sync_def)
    from ApplyAll_refines [OF tx this(1,2) failed(1) this(3)]
    have u: "unwinds (cur s) s2" using failed all by (simp add: refines_def)
    then have "unwinds (cur s) (set_result hr2 s2)" by (simp add: unwinds_def same)
    from RollbackEntries_unwinds [OF tx this refl] show ?thesis
      using failed a2 by (simp add: Rollback_def applied_Rollback applied_steps)
  qed
qed

lemma profile_atomic:
  fixes w :: 'w and p :: Profile and reply :: Inventory and cancel allocated :: bool and timeout :: u32
  assumes "ok w"
  defines "s \<equiv> ApplyProfile env p reply cancel allocated timeout w"
  shows "(applied (t_outcome s) \<longrightarrow> settings (devices (t_world s)) = profile_settings p (settings (devices w))) \<and>
    (\<not> applied (t_outcome s) \<longrightarrow> stateKnown (t_outcome s) \<longrightarrow> rollbackComplete (t_outcome s) \<longrightarrow>
     settings (devices (t_world s)) = settings (devices w))"
proof -
  obtain start w1 where t: "env_tick env w = (start, w1)" by fastforce
  obtain before w2 where b: "env_snapshot env w1 = (before, w2)" by fastforce
  let ?tx = "\<lparr>tx_env = env, tx_profile = p, tx_total = timeout, tx_start = start, tx_safetyBefore = before\<rparr>"
  let ?s = "\<lparr>t_world = w2, t_reply = reply, t_outcome = ApplyOutcome_init, t_undo = [], t_sent = []\<rparr>"
  have w1: "ok w1" "devices w1 = devices w" using tick_keeps [OF assms(1)] t by simp_all
  have w2: "ok w2" "devices w2 = devices w" using snapshot_keeps [OF w1(1)] b w1 by simp_all
  have "s = Run ?tx cancel allocated ?s" by (simp add: s_def ApplyProfile_def t b)
  then show ?thesis
    using Run_atomic [of ?tx ?s cancel allocated] w2 by (simp add: known_def cur_def ApplyOutcome_init_def)
qed

end

end
