(* ===== verification/Profile_Fixture.thy ===== *)
theory Profile_Fixture
  imports Profile_Transaction
begin

unbundle bit_operations_syntax

text \<open>
  The synthetic helper of \<open>Plugins/AVControl/BrokerMain.cpp\<close> behind \<open>Broker::Execute\<close> (\<open>AVControlBroker.cpp\<close>): the
  device model that the helper runs without hardware, the ways a call to it can end, and the proof that together they
  meet the contract \<open>av_backend\<close>.
\<close>

section \<open>The synthetic device model\<close>

definition last_index :: "('a \<Rightarrow> bool) \<Rightarrow> 'a list \<Rightarrow> nat option" where
  "last_index P xs = find (\<lambda>i. P (xs ! i)) (rev [0..<length xs])"

definition endpoints_of :: "DeviceKind \<Rightarrow> Inventory \<Rightarrow> Endpoint list" where
  "endpoints_of device inventory = (if device = Output then inv_outputs inventory else inv_inputs inventory)"

definition set_endpoint :: "DeviceKind \<Rightarrow> nat \<Rightarrow> Endpoint \<Rightarrow> Inventory \<Rightarrow> Inventory" where
  "set_endpoint device i e inventory =
     (if device = Output then inventory\<lparr>inv_outputs := (inv_outputs inventory)[i := e]\<rparr>
      else inventory\<lparr>inv_inputs := (inv_inputs inventory)[i := e]\<rparr>)"

definition set_route :: "DeviceKind \<Rightarrow> nat \<Rightarrow> device_id \<Rightarrow> Inventory \<Rightarrow> Inventory" where
  "set_route device role i inventory =
     (if device = Output
      then inventory\<lparr>inv_state := (inv_state inventory)\<lparr>outputDefaults := (outputDefaults (inv_state inventory))[role := i]\<rparr>,
             outputRoleRevisions := (outputRoleRevisions inventory)[role := outputRoleRevisions inventory ! role + 1]\<rparr>
      else inventory\<lparr>inv_state := (inv_state inventory)\<lparr>inputDefaults := (inputDefaults (inv_state inventory))[role := i]\<rparr>,
             inputRoleRevisions := (inputRoleRevisions inventory)[role := inputRoleRevisions inventory ! role + 1]\<rparr>)"

text \<open>The commands on the camera and on an endpoint; \<open>Inl\<close> is an early return.\<close>

definition FixtureCamera :: "BrokerCommand \<Rightarrow> Inventory \<Rightarrow> hresult + Inventory" where
  "FixtureCamera c inventory =
     (let st = inv_state inventory; camera = st_camera st
      in if expectedRevision c \<noteq> cs_revision camera then Inl (HRESULT_FROM_WIN32 1306)
         else if operation c = SetCameraSource then
           (if \<not> list_ex (\<lambda>d. cam_id d = cmd_id c) (inv_cameras inventory) then Inl (HRESULT_FROM_WIN32 1168)
            else Inr (if sourceId camera \<noteq> cmd_id c
                      then inventory\<lparr>inv_state := st\<lparr>st_camera := camera\<lparr>sourceId := cmd_id c, cs_revision := cs_revision camera + 1\<rparr>\<rparr>\<rparr>
                      else inventory))
         else if operation c = SetCameraEnabled \<and> cmd_value c \<le> 1 then
           Inr (if cs_enabled camera \<noteq> (cmd_value c \<noteq> 0)
                then inventory\<lparr>inv_state := st\<lparr>st_camera := camera\<lparr>cs_enabled := (cmd_value c \<noteq> 0), cs_revision := cs_revision camera + 1\<rparr>\<rparr>\<rparr>
                else inventory)
         else Inl 0x80070057)"

definition FixtureEndpoint :: "BrokerCommand \<Rightarrow> Inventory \<Rightarrow> hresult + Inventory" where
  "FixtureEndpoint c inventory =
     (let device = cmd_device c; endpoints = endpoints_of device inventory
      in case last_index (\<lambda>e. ep_id e = cmd_id c) endpoints of
           None \<Rightarrow> Inl (HRESULT_FROM_WIN32 1168)
         | Some i \<Rightarrow>
             (let e = endpoints ! i
              in if ep_generation e \<noteq> expectedGeneration c then Inl (HRESULT_FROM_WIN32 1306)
                 else if operation c = SetMute then
                   (if cmd_value c > 1 then Inl 0x80070057
                    else if expectedRevision c \<noteq> muteRevision e then Inl (HRESULT_FROM_WIN32 1306)
                    else Inr (if ep_muted e \<noteq> (cmd_value c \<noteq> 0)
                              then set_endpoint device i (e\<lparr>ep_muted := (cmd_value c \<noteq> 0), muteRevision := muteRevision e + 1\<rparr>) inventory
                              else inventory))
                 else if operation c = SetLevel then
                   (if cmd_value c > 100 then Inl 0x80070057
                    else if expectedRevision c \<noteq> levelRevision e then Inl (HRESULT_FROM_WIN32 1306)
                    else Inr (if ep_level e \<noteq> cmd_value c
                              then set_endpoint device i (e\<lparr>ep_level := cmd_value c, levelRevision := levelRevision e + 1\<rparr>) inventory
                              else inventory))
                 else if operation c = SetDefault then
                   (if cmd_role c \<ge> 3 then Inl 0x80070057
                    else if expectedRevision c \<noteq> revisions_of device inventory ! cmd_role c then Inl (HRESULT_FROM_WIN32 1306)
                    else Inr (if routes_of device inventory ! cmd_role c \<noteq> cmd_id c
                              then set_route device (cmd_role c) (cmd_id c) inventory else inventory))
                 else Inl 0x80070057))"

text \<open>The copies of the selected endpoints in the state: the last endpoint with the id of the first role.\<close>

definition refresh_selected :: "Inventory \<Rightarrow> Inventory" where
  "refresh_selected inventory =
     (let st = inv_state inventory;
          st' = (case last_index (\<lambda>e. ep_id e = outputDefaults st ! 0) (inv_outputs inventory) of
                   Some i \<Rightarrow> st\<lparr>st_output := inv_outputs inventory ! i\<rparr> | None \<Rightarrow> st);
          st'' = (case last_index (\<lambda>e. ep_id e = inputDefaults st ! 0) (inv_inputs inventory) of
                   Some i \<Rightarrow> st'\<lparr>st_microphone := inv_inputs inventory ! i\<rparr> | None \<Rightarrow> st')
      in inventory\<lparr>inv_state := st''\<rparr>)"

definition FixtureCommand :: "BrokerCommand \<Rightarrow> Inventory \<Rightarrow> hresult \<times> Inventory" where
  "FixtureCommand c inventory =
     (if operation c = Observe \<or> operation c = SuspendObservation then (S_OK, inventory)
      else
        (case (if cmd_device c = Camera then FixtureCamera c inventory
               else map_sum id refresh_selected (FixtureEndpoint c inventory)) of
           Inl hr \<Rightarrow> (hr, inventory)
         | Inr changed \<Rightarrow>
             (S_OK, changed\<lparr>inv_state := (inv_state changed)\<lparr>st_revision := st_revision (inv_state changed) + 1\<rparr>,
                            cameraRequiresHelper := cs_enabled (st_camera (inv_state changed))\<rparr>)))"

section \<open>The synthetic helper behind the broker\<close>

text \<open>
  How a call to the helper ends, in \<open>Broker::Execute\<close>: it is not running or the cancel event is already set, the wait
  ends without a reply, the reply is not valid, or it is answered. Where the helper may have executed the command
  without its answer being seen, the flag says whether it did. A wait that itself fails is not modelled.
\<close>

datatype delivery = NotRunning | Precancelled | WaitCancelled bool | WaitAborted bool | WaitTimeout bool | BadReply bool | Answered

record fixture =
  fx_inventory :: Inventory
  fx_truncated :: bool
  fx_clock :: "u64 list"
  fx_safety :: "u64 list list"
  fx_deliveries :: "delivery list"

definition Synthetic :: "BrokerCommand \<Rightarrow> fixture \<Rightarrow> hresult \<times> fixture" where
  "Synthetic c w =
     (let (hr, inventory) = FixtureCommand c (fx_inventory w)
      in (hr, w\<lparr>fx_inventory := inventory\<lparr>inv_truncated := fx_truncated w\<rparr>\<rparr>))"

definition Unanswered :: "nat \<Rightarrow> bool \<Rightarrow> BrokerCommand \<Rightarrow> Inventory \<Rightarrow> fixture \<Rightarrow> (hresult \<times> Inventory) \<times> fixture" where
  "Unanswered code executed c reply w =
     ((HRESULT_FROM_WIN32 (of_nat code), reply), if executed then snd (Synthetic c w) else w)"

definition Execute :: "BrokerCommand \<Rightarrow> u32 \<Rightarrow> Inventory \<Rightarrow> fixture \<Rightarrow> (hresult \<times> Inventory) \<times> fixture" where
  "Execute c timeout reply w =
     (if timeout = 0 \<or> timeout > 3000 then ((0x80070057, reply), w)
      else
        (let (delivery, rest) = (case fx_deliveries w of [] \<Rightarrow> (Answered, []) | d # ds \<Rightarrow> (d, ds));
             w = w\<lparr>fx_deliveries := rest\<rparr>
         in case delivery of
              NotRunning \<Rightarrow> Unanswered 1067 False c reply w
            | Precancelled \<Rightarrow> Unanswered 1223 False c reply w
            | WaitCancelled executed \<Rightarrow> Unanswered 1223 executed c reply w
            | WaitAborted executed \<Rightarrow> Unanswered 1067 executed c reply w
            | WaitTimeout executed \<Rightarrow> Unanswered 1460 executed c reply w
            | BadReply executed \<Rightarrow> Unanswered 13 executed c reply w
            | Answered \<Rightarrow> (let (hr, w) = Synthetic c w in ((hr, fx_inventory w), w))))"

text \<open>The clock and the safety state read from a script; at its end they keep the last value (the clock stands at 0, and no
  command is published, when the script is empty).\<close>

definition fixture_env :: "fixture av_env" where
  "fixture_env = \<lparr>
     env_tick = (\<lambda>w. case fx_clock w of [] \<Rightarrow> (0, w) | [t] \<Rightarrow> (t, w) | t # ts \<Rightarrow> (t, w\<lparr>fx_clock := ts\<rparr>)),
     env_snapshot = (\<lambda>w. case fx_safety w of [] \<Rightarrow> ([0, 0, 0], w) | [v] \<Rightarrow> (v, w) | v # vs \<Rightarrow> (v, w\<lparr>fx_safety := vs\<rparr>)),
     env_execute = Execute\<rparr>"

text \<open>The identities of the endpoints differ, and there are three roles; \<open>ValidInventoryPayload\<close> tests the first.\<close>

definition well_formed :: "Inventory \<Rightarrow> bool" where
  "well_formed inventory \<longleftrightarrow>
     distinct (map ep_id (inv_outputs inventory)) \<and> distinct (map ep_id (inv_inputs inventory)) \<and>
     length (outputDefaults (inv_state inventory)) = 3 \<and> length (inputDefaults (inv_state inventory)) = 3"

lemma last_index_distinct:
  assumes "distinct (map ep_id xs)" "last_index (\<lambda>e. ep_id e = i) xs = Some n"
  shows "n < length xs" "ep_id (xs ! n) = i" "find (\<lambda>e. ep_id e = i) xs = Some (xs ! n)"
proof -
  have "\<exists>m < length (rev [0..<length xs]). ep_id (xs ! (rev [0..<length xs] ! m)) = i \<and> n = rev [0..<length xs] ! m"
    using assms(2) by (auto simp: last_index_def find_Some_iff)
  then show n: "n < length xs" "ep_id (xs ! n) = i" by (auto simp: rev_nth)
  have "\<And>j. j < n \<Longrightarrow> ep_id (xs ! j) \<noteq> i"
    using assms(1) n by (auto simp: distinct_conv_nth)
  then show "find (\<lambda>e. ep_id e = i) xs = Some (xs ! n)" using n by (auto simp: find_Some_iff)
qed

lemma find_update:
  assumes "distinct (map ep_id xs)" "n < length xs" "ep_id e = ep_id (xs ! n)"
  shows "find (\<lambda>e. ep_id e = j) (xs[n := e]) = (if j = ep_id e then Some e else find (\<lambda>e. ep_id e = j) xs)"
  using assms
proof (induction xs arbitrary: n)
  case (Cons x xs)
  show ?case
  proof (cases n)
    case 0
    then show ?thesis using Cons.prems by auto
  next
    case (Suc m)
    have "ep_id x \<noteq> ep_id e" using Cons.prems Suc by (auto simp: in_set_conv_nth) (metis in_set_conv_nth image_eqI)
    then show ?thesis using Cons.IH [of m] Cons.prems Suc by auto
  qed
qed simp

lemma map_update_id: "n < length xs \<Longrightarrow> ep_id e = ep_id (xs ! n) \<Longrightarrow> map ep_id (xs[n := e]) = map ep_id xs"
  by (metis map_update list_update_id nth_map)

lemma settings_same:
  assumes "inv_outputs I' = inv_outputs I" "inv_inputs I' = inv_inputs I"
    "outputDefaults (inv_state I') = outputDefaults (inv_state I)" "inputDefaults (inv_state I') = inputDefaults (inv_state I)"
    "sourceId (st_camera (inv_state I')) = sourceId (st_camera (inv_state I))"
    "cs_enabled (st_camera (inv_state I')) = cs_enabled (st_camera (inv_state I))"
  shows "settings I' = settings I" "well_formed I' = well_formed I"
proof
  show "settings I' x = settings I x" for x using assms by (cases x) (simp_all add: find_endpoint_def)
qed (simp add: well_formed_def assms)

lemma refresh_selected_same: "settings (refresh_selected I) = settings I" "well_formed (refresh_selected I) = well_formed I"
  by (rule settings_same; simp add: refresh_selected_def Let_def split: option.splits)+

lemma set_endpoint_facts:
  assumes wf: "well_formed I" and n: "n < length (endpoints_of device I)" and e: "ep_id e = ep_id (endpoints_of device I ! n)"
  shows "well_formed (set_endpoint device n e I)"
    "find_endpoint is_output j (set_endpoint device n e I) =
       (if is_output = (device = Output) \<and> j = ep_id e then Some e else find_endpoint is_output j I)"
    "settings (set_endpoint device n e I) (Route_of is_output r) = settings I (Route_of is_output r)"
    "settings (set_endpoint device n e I) Camera_source = settings I Camera_source"
    "settings (set_endpoint device n e I) Camera_enabled = settings I Camera_enabled"
proof -
  have d: "distinct (map ep_id (inv_outputs I))" "distinct (map ep_id (inv_inputs I))" using wf by (simp_all add: well_formed_def)
  show "well_formed (set_endpoint device n e I)"
    using wf n e by (simp add: well_formed_def set_endpoint_def endpoints_of_def map_update_id split: if_splits)
  show "find_endpoint is_output j (set_endpoint device n e I) =
       (if is_output = (device = Output) \<and> j = ep_id e then Some e else find_endpoint is_output j I)"
    using find_update [OF d(1), of n e j] find_update [OF d(2), of n e j] n e
    by (auto simp: find_endpoint_def set_endpoint_def endpoints_of_def split: if_splits)
qed (simp_all add: set_endpoint_def)

lemma set_endpoint_settings:
  assumes wf: "well_formed I" and n: "n < length (endpoints_of device I)" and e: "ep_id e = ep_id (endpoints_of device I ! n)"
    and old: "find_endpoint (device = Output) (ep_id e) I = Some (endpoints_of device I ! n)"
  shows "ep_level e = ep_level (endpoints_of device I ! n) \<Longrightarrow>
      settings (set_endpoint device n e I) =
        (settings I)(Mute_of (device = Output) (ep_id e) \<mapsto> Number (endpoint_value True e))"
    "ep_muted e = ep_muted (endpoints_of device I ! n) \<Longrightarrow>
      settings (set_endpoint device n e I) =
        (settings I)(Level_of (device = Output) (ep_id e) \<mapsto> Number (endpoint_value False e))"
proof -
  note f = set_endpoint_facts [OF wf n e]
  have v: "endpoint_value False e = endpoint_value False (endpoints_of device I ! n)"
    if "ep_level e = ep_level (endpoints_of device I ! n)" using that by (simp add: endpoint_value_def)
  have m: "endpoint_value True e = endpoint_value True (endpoints_of device I ! n)"
    if "ep_muted e = ep_muted (endpoints_of device I ! n)" using that by (simp add: endpoint_value_def)
  show "settings (set_endpoint device n e I) =
        (settings I)(Mute_of (device = Output) (ep_id e) \<mapsto> Number (endpoint_value True e))"
    if "ep_level e = ep_level (endpoints_of device I ! n)"
  proof
    show "settings (set_endpoint device n e I) x =
        ((settings I)(Mute_of (device = Output) (ep_id e) \<mapsto> Number (endpoint_value True e))) x" for x
      by (cases x) (auto simp del: settings.simps(3-5) simp: f old v [OF that])
  qed
  show "settings (set_endpoint device n e I) =
        (settings I)(Level_of (device = Output) (ep_id e) \<mapsto> Number (endpoint_value False e))"
    if "ep_muted e = ep_muted (endpoints_of device I ! n)"
  proof
    show "settings (set_endpoint device n e I) x =
        ((settings I)(Level_of (device = Output) (ep_id e) \<mapsto> Number (endpoint_value False e))) x" for x
      by (cases x) (auto simp del: settings.simps(3-5) simp: f old m [OF that])
  qed
qed

lemma set_route_facts:
  assumes wf: "well_formed I" and role: "role < 3"
  shows "well_formed (set_route device role i I)"
    "settings (set_route device role i I) = (settings I)(Route_of (device = Output) role \<mapsto> Identity i)"
proof -
  have len: "length (outputDefaults (inv_state I)) = 3" "length (inputDefaults (inv_state I)) = 3"
    using wf by (simp_all add: well_formed_def)
  show "well_formed (set_route device role i I)" using wf by (simp add: well_formed_def set_route_def)
  show "settings (set_route device role i I) = (settings I)(Route_of (device = Output) role \<mapsto> Identity i)"
  proof
    show "settings (set_route device role i I) x = ((settings I)(Route_of (device = Output) role \<mapsto> Identity i)) x" for x
      using role len by (cases x) (auto simp: set_route_def find_endpoint_def nth_list_update)
  qed
qed

lemma flag_value: "(x :: u32) \<le> 1 \<Longrightarrow> x = (if x \<noteq> 0 then 1 else 0)"
  by (auto simp: word_le_nat_alt word_unat_eq_iff)

lemma FixtureEndpoint_facts:
  assumes wf: "well_formed I" and ok: "FixtureEndpoint c I = Inr I'"
  shows "well_formed I' \<and> settings I' = assign c (settings I)"
proof -
  let ?d = "cmd_device c" and ?o = "cmd_device c = Output"
  obtain n where n: "last_index (\<lambda>e. ep_id e = cmd_id c) (endpoints_of ?d I) = Some n"
    using ok by (auto simp: FixtureEndpoint_def Let_def split: option.splits)
  let ?e = "endpoints_of ?d I ! n"
  have "distinct (map ep_id (endpoints_of ?d I))" using wf by (simp add: well_formed_def endpoints_of_def)
  note l = last_index_distinct [OF this n]
  have old: "find_endpoint ?o (cmd_id c) I = Some ?e" using l(3) by (simp add: find_endpoint_def endpoints_of_def split: if_splits)
  have update: "well_formed (set_endpoint ?d n e I)" if "ep_id e = cmd_id c" for e
    using set_endpoint_facts(1) [OF wf l(1)] that l(2) by simp
  consider (mute) "operation c = SetMute" | (level) "operation c = SetLevel" | (route) "operation c = SetDefault"
    using ok n by (auto simp: FixtureEndpoint_def Let_def split: if_splits)
  then show ?thesis
  proof cases
    case mute
    let ?e' = "?e\<lparr>ep_muted := (cmd_value c \<noteq> 0), muteRevision := muteRevision ?e + 1\<rparr>"
    have v: "cmd_value c \<le> 1" and I': "I' = (if ep_muted ?e \<noteq> (cmd_value c \<noteq> 0) then set_endpoint ?d n ?e' I else I)"
      using ok n mute by (auto simp: FixtureEndpoint_def Let_def not_less split: if_splits)
    have one: "cmd_value c = (if cmd_value c \<noteq> 0 then 1 else 0)"
      using v by (rule flag_value)
    have "(settings I)(Mute_of ?o (cmd_id c) \<mapsto> Number (endpoint_value True ?e)) = settings I"
      using old by (intro fun_upd_idem) simp
    moreover have "ep_muted ?e = (cmd_value c \<noteq> 0) \<Longrightarrow> endpoint_value True ?e = cmd_value c"
      using one by (simp add: endpoint_value_def)
    moreover have "endpoint_value True ?e' = cmd_value c" using one by (simp add: endpoint_value_def)
    ultimately show ?thesis
      using I' wf update [of ?e'] set_endpoint_settings(1) [OF wf l(1), of ?e'] old l(2) mute
      by (auto simp: assign_def split: if_splits)
  next
    case level
    let ?e' = "?e\<lparr>ep_level := cmd_value c, levelRevision := levelRevision ?e + 1\<rparr>"
    have I': "I' = (if ep_level ?e \<noteq> cmd_value c then set_endpoint ?d n ?e' I else I)"
      using ok n level by (auto simp: FixtureEndpoint_def Let_def split: if_splits)
    have "(settings I)(Level_of ?o (cmd_id c) \<mapsto> Number (endpoint_value False ?e)) = settings I"
      using old by (intro fun_upd_idem) simp
    then show ?thesis
      using I' wf update [of ?e'] set_endpoint_settings(2) [OF wf l(1), of ?e'] old l(2) level
      by (auto simp: assign_def endpoint_value_def split: if_splits)
  next
    case route
    have r: "cmd_role c < 3" and I': "I' = (if routes_of ?d I ! cmd_role c \<noteq> cmd_id c then set_route ?d (cmd_role c) (cmd_id c) I else I)"
      using ok n route by (auto simp: FixtureEndpoint_def Let_def not_le split: if_splits)
    have "(settings I)(Route_of ?o (cmd_role c) \<mapsto> Identity (routes_of ?d I ! cmd_role c)) = settings I"
      using r by (intro fun_upd_idem) (simp add: routes_of_def)
    then show ?thesis
      using I' wf set_route_facts [OF wf r, of ?d "cmd_id c"] route by (auto simp: assign_def split: if_splits)
  qed
qed

lemma FixtureCamera_facts:
  assumes wf: "well_formed I" and ok: "FixtureCamera c I = Inr I'"
  shows "well_formed I' \<and> settings I' = assign c (settings I)"
proof -
  let ?camera = "st_camera (inv_state I)"
  have upd: "well_formed (I\<lparr>inv_state := (inv_state I)\<lparr>st_camera := camera\<rparr>\<rparr>)" for camera
    using wf by (simp add: well_formed_def)
  have source: "settings (I\<lparr>inv_state := (inv_state I)\<lparr>st_camera := camera\<rparr>\<rparr>) =
      (settings I)(Camera_source \<mapsto> Identity (sourceId camera), Camera_enabled \<mapsto> Number (if cs_enabled camera then 1 else 0))"
    for camera
  proof
    show "settings (I\<lparr>inv_state := (inv_state I)\<lparr>st_camera := camera\<rparr>\<rparr>) x =
      ((settings I)(Camera_source \<mapsto> Identity (sourceId camera), Camera_enabled \<mapsto> Number (if cs_enabled camera then 1 else 0))) x"
      for x by (cases x) (simp_all add: find_endpoint_def)
  qed
  have idem: "(settings I)(Camera_source \<mapsto> Identity (sourceId ?camera)) = settings I"
    "(settings I)(Camera_enabled \<mapsto> Number (if cs_enabled ?camera then 1 else 0)) = settings I"
    by (rule fun_upd_idem; simp)+
  consider (route) "operation c = SetCameraSource" | (enable) "operation c = SetCameraEnabled" "cmd_value c \<le> 1"
    using ok by (auto simp: FixtureCamera_def Let_def split: if_splits)
  then show ?thesis
  proof cases
    case route
    have I': "I' = (if sourceId ?camera \<noteq> cmd_id c
        then I\<lparr>inv_state := (inv_state I)\<lparr>st_camera := ?camera\<lparr>sourceId := cmd_id c, cs_revision := cs_revision ?camera + 1\<rparr>\<rparr>\<rparr>
        else I)"
      using ok route by (auto simp: FixtureCamera_def Let_def split: if_splits)
    have "(settings I)(Camera_source \<mapsto> x, Camera_enabled \<mapsto> Number (if cs_enabled ?camera then 1 else 0)) =
        (settings I)(Camera_source \<mapsto> x)" for x
      by (rule fun_upd_idem) simp
    then show ?thesis using I' wf upd idem(1) route by (auto simp: assign_def source simp del: settings.simps)
  next
    case enable
    have I': "I' = (if cs_enabled ?camera \<noteq> (cmd_value c \<noteq> 0)
        then I\<lparr>inv_state := (inv_state I)\<lparr>st_camera := ?camera\<lparr>cs_enabled := (cmd_value c \<noteq> 0), cs_revision := cs_revision ?camera + 1\<rparr>\<rparr>\<rparr>
        else I)"
      using ok enable by (auto simp: FixtureCamera_def Let_def split: if_splits)
    have one: "cmd_value c = (if cmd_value c \<noteq> 0 then 1 else 0)" using enable(2) by (rule flag_value)
    show ?thesis
      using I' wf upd idem enable(1) one by (auto simp: assign_def source simp del: settings.simps)
  qed
qed

lemma FixtureCommand_facts:
  assumes wf: "well_formed I" and c: "FixtureCommand c I = (hr, I')"
  shows "well_formed I'" "SUCCEEDED hr \<Longrightarrow> settings I' = assign c (settings I)" "FAILED hr \<Longrightarrow> I' = I"
proof -
  have "well_formed I' \<and> (SUCCEEDED hr \<longrightarrow> settings I' = assign c (settings I)) \<and> (FAILED hr \<longrightarrow> I' = I)"
  proof (cases "operation c = Observe \<or> operation c = SuspendObservation")
    case True
    then show ?thesis using c wf by (auto simp: FixtureCommand_def assign_def)
  next
    case False
    let ?r = "if cmd_device c = Camera then FixtureCamera c I else map_sum id refresh_selected (FixtureEndpoint c I)"
    show ?thesis
    proof (cases ?r)
      case (Inl e)
      have "FAILED e" 
        using Inl by (auto simp: FixtureCamera_def FixtureEndpoint_def Let_def FAILED_def HRESULT_FROM_WIN32_def
          split: if_splits option.splits)
      then show ?thesis using Inl c wf False not_failed by (auto simp: FixtureCommand_def)
    next
      case (Inr J)
      have J: "well_formed J \<and> settings J = assign c (settings I)"
        using Inr FixtureCamera_facts [OF wf] FixtureEndpoint_facts [OF wf] refresh_selected_same
        by (cases "FixtureEndpoint c I") (auto split: if_splits)
      have "settings I' = settings J" "well_formed I' = well_formed J"
        using Inr c False settings_same [of I' J] by (auto simp: FixtureCommand_def)
      moreover have "hr = S_OK" using Inr c False by (auto simp: FixtureCommand_def)
      ultimately show ?thesis using J by (simp add: FAILED_def S_OK_def)
    qed
  qed
  then show "well_formed I'" "SUCCEEDED hr \<Longrightarrow> settings I' = assign c (settings I)" "FAILED hr \<Longrightarrow> I' = I" by blast+
qed

definition fixture_ok :: "fixture \<Rightarrow> bool" where
  "fixture_ok w \<longleftrightarrow> well_formed (fx_inventory w)"

lemma truncated_same: "settings (I\<lparr>inv_truncated := b\<rparr>) = settings I" "well_formed (I\<lparr>inv_truncated := b\<rparr>) = well_formed I"
  by (rule settings_same; simp)+

lemma Synthetic_facts:
  assumes "fixture_ok w" "Synthetic c w = (hr, w')"
  shows "fixture_ok w'" "SUCCEEDED hr \<Longrightarrow> settings (fx_inventory w') = assign c (settings (fx_inventory w))"
    "FAILED hr \<Longrightarrow> settings (fx_inventory w') = settings (fx_inventory w)"
  using assms FixtureCommand_facts [of "fx_inventory w" c "fst (FixtureCommand c (fx_inventory w))" "snd (FixtureCommand c (fx_inventory w))"]
  by (auto simp: Synthetic_def fixture_ok_def case_prod_beta truncated_same)

lemma Execute_cases:
  assumes "Execute c t r w = ((hr, r'), w')"
  obtains (unanswered) code where "code \<in> {1067, 1223, 1460, 13}" "hr = HRESULT_FROM_WIN32 (of_nat code)"
      "w' = snd (Synthetic c (w\<lparr>fx_deliveries := tl (fx_deliveries w)\<rparr>)) \<or> w' = w\<lparr>fx_deliveries := tl (fx_deliveries w)\<rparr>"
  | (answered) "Synthetic c (w\<lparr>fx_deliveries := tl (fx_deliveries w)\<rparr>) = (hr, w')" "r' = fx_inventory w'"
  | (refused) "hr = 0x80070057" "w' = w"
proof (cases "t = 0 \<or> t > 3000")
  case True
  then show ?thesis using assms refused by (auto simp: Execute_def)
next
  case False
  let ?w = "w\<lparr>fx_deliveries := tl (fx_deliveries w)\<rparr>"
  have "(case fx_deliveries w of [] \<Rightarrow> (Answered, []) | d # ds \<Rightarrow> (d, ds)) =
      (case fx_deliveries w of [] \<Rightarrow> Answered | d # ds \<Rightarrow> d, tl (fx_deliveries w))"
    by (simp split: list.split)
  then have e: "Execute c t r w = (case (case fx_deliveries w of [] \<Rightarrow> Answered | d # ds \<Rightarrow> d) of
              NotRunning \<Rightarrow> Unanswered 1067 False c r ?w
            | Precancelled \<Rightarrow> Unanswered 1223 False c r ?w
            | WaitCancelled executed \<Rightarrow> Unanswered 1223 executed c r ?w
            | WaitAborted executed \<Rightarrow> Unanswered 1067 executed c r ?w
            | WaitTimeout executed \<Rightarrow> Unanswered 1460 executed c r ?w
            | BadReply executed \<Rightarrow> Unanswered 13 executed c r ?w
            | Answered \<Rightarrow> (let (hr, w) = Synthetic c ?w in ((hr, fx_inventory w), w)))"
    using False by (simp add: Execute_def Let_def)
  have u: thesis if "Unanswered code b c r ?w = ((hr, r'), w')" "code \<in> {1067, 1223, 1460, 13}" for code b
    using that by (intro unanswered [of code]) (auto simp: Unanswered_def split: if_splits)
  show ?thesis
    using assms e u answered
    by (cases "case fx_deliveries w of [] \<Rightarrow> Answered | d # ds \<Rightarrow> d") (auto simp: case_prod_beta)
qed

interpretation fx: av_backend fixture_env fx_inventory fixture_ok
proof
  fix w :: fixture
  assume w: "fixture_ok w"
  then show "fixture_ok (snd (env_tick fixture_env w)) \<and> fx_inventory (snd (env_tick fixture_env w)) = fx_inventory w"
    "fixture_ok (snd (env_snapshot fixture_env w)) \<and> fx_inventory (snd (env_snapshot fixture_env w)) = fx_inventory w"
    by (simp_all add: fixture_env_def fixture_ok_def split: list.split)
  have w0: "fixture_ok (w\<lparr>fx_deliveries := ds\<rparr>)" for ds using w by (simp add: fixture_ok_def)
  note s = Synthetic_facts [OF w0]
  fix c t r hr r' w'
  have all: "fixture_ok w' \<and>
      (SUCCEEDED hr \<longrightarrow> settings (fx_inventory w') = assign c (settings (fx_inventory w)) \<and> settings r' = settings (fx_inventory w')) \<and>
      (FAILED hr \<longrightarrow> \<not> ConnectionFailure hr \<longrightarrow> settings (fx_inventory w') = settings (fx_inventory w))"
    if "Execute c t r w = ((hr, r'), w')" for c t r hr r' w'
    using that
  proof (cases rule: Execute_cases)
    case (unanswered code)
    then have "ConnectionFailure hr" by (auto simp: ConnectionFailure_def)
    then show ?thesis
      using unanswered w0 s(1) [OF prod.collapse [symmetric]] failure_is_failure [of hr] not_failed [of hr] by auto
  next
    case answered
    then show ?thesis using s by auto
  next
    case refused
    then show ?thesis using w by (simp add: SUCCEEDED_def FAILED_def)
  qed
  show "fixture_ok (snd (env_execute fixture_env c t r w))"
    using all [of c t r "fst (fst (Execute c t r w))" "snd (fst (Execute c t r w))" "snd (Execute c t r w)"]
    by (simp add: fixture_env_def)
  assume "env_execute fixture_env c t r w = ((hr, r'), w')"
  then have "Execute c t r w = ((hr, r'), w')" by (simp add: fixture_env_def)
  from all [OF this]
  show "SUCCEEDED hr \<Longrightarrow> settings (fx_inventory w') = assign c (settings (fx_inventory w)) \<and> settings r' = settings (fx_inventory w')"
    "FAILED hr \<Longrightarrow> \<not> ConnectionFailure hr \<Longrightarrow> reported_revision c r' = Some (expectedRevision c) \<Longrightarrow>
      settings (fx_inventory w') = settings (fx_inventory w)"
    by blast+
qed

text \<open>\<open>InitializeFixture\<close>.\<close>

definition fixture_name :: "string \<Rightarrow> u16 list" where
  "fixture_name s = map (\<lambda>c. of_nat (of_char c)) s"

definition fixture_endpoint :: "device_id \<Rightarrow> u16 list \<Rightarrow> u32 \<Rightarrow> bool \<Rightarrow> Endpoint" where
  "fixture_endpoint i name level muted =
     \<lparr>ep_id = i, ep_name = name, ep_availability = Ready, ep_level = level, ep_muted = muted,
      ep_generation = 1, levelRevision = 1, muteRevision = 1\<rparr>"

definition InitializeFixture :: Inventory where
  "InitializeFixture =
     (let outputs = [fixture_endpoint ''fixture-output-1'' (fixture_name ''Fixture speakers'') 65 False,
                     fixture_endpoint ''fixture-output-2'' (fixture_name ''Fixture headset'') 65 False];
          inputs = [fixture_endpoint ''fixture-input-1'' (fixture_name ''Fixture desk mic'') 72 True,
                    fixture_endpoint ''fixture-input-2'' (fixture_name ''Fixture headset mic'') 72 False];
          cameras = [\<lparr>cam_id = ''fixture-camera-1'', cam_name = fixture_name ''Fixture camera 1'', cam_availability = Ready\<rparr>,
                     \<lparr>cam_id = ''fixture-camera-2'', cam_name = fixture_name ''Fixture camera 2'', cam_availability = Ready\<rparr>]
      in \<lparr>inv_state = \<lparr>st_output = outputs ! 0, st_microphone = inputs ! 0,
            st_camera = \<lparr>sourceId = ''fixture-camera-1'', cs_availability = Ready, cs_enabled = False, cs_revision = 1\<rparr>,
            outputDefaults = replicate 3 ''fixture-output-1'', inputDefaults = replicate 3 ''fixture-input-1'', st_revision = 1\<rparr>,
          inv_outputs = outputs, inv_inputs = inputs, inv_cameras = cameras,
          outputRoleRevisions = [1, 1, 1], inputRoleRevisions = [1, 1, 1],
          capabilities = CapabilityAudioLevels OR CapabilityAudioDefaults OR CapabilityCameraRoute,
          inv_truncated = False, cameraRequiresHelper = False\<rparr>)"

definition fixture_start :: "delivery list \<Rightarrow> fixture" where
  "fixture_start ds = \<lparr>fx_inventory = InitializeFixture, fx_truncated = False, fx_clock = [], fx_safety = [], fx_deliveries = ds\<rparr>"

definition meeting :: Profile where
  "meeting = \<lparr>profile_key = ''meeting'', profile_name = ''Meeting'', outputId = ''fixture-output-2'', microphoneId = ''fixture-input-2'', cameraId = ''fixture-camera-2'',
     audioRoles = RolesAll, restoreLevels = True, outputLevel = 40, microphoneLevel = 90\<rparr>"

lemma fixture_start_ok: "fixture_ok (fixture_start ds)"
  by (simp add: fixture_ok_def fixture_start_def well_formed_def InitializeFixture_def Let_def fixture_endpoint_def)

lemma meeting_applies:
  "(let s = ApplyProfile fixture_env meeting InitializeFixture True True 3000 (fixture_start []) in
     (applied (t_outcome s), mutations (t_outcome s), length (t_sent s))) = (True, 10, 12)"
  by code_simp

text \<open>The same, when a camera command is published after three mutations.\<close>

definition camera_intent :: fixture where
  "camera_intent = (fixture_start [])\<lparr>fx_safety := replicate 4 [0, 0, 0] @ replicate 8 [0, 0, 3]\<rparr>"

end
