(* ===== verification/Profile_Rollback.thy ===== *)
theory Profile_Rollback
  imports Profile_Fixture
begin

text \<open>
  When the rollback of a profile succeeds: against the synthetic helper, an undisturbed transaction that fails takes
  back everything it did. The proof follows the revisions through the transaction: each setting is changed at most
  once, so the revision that an undo entry owns is still the current one when its turn comes.
\<close>

section \<open>What a command leaves alone\<close>

text \<open>The generations of the endpoints and the cameras, which no command changes.\<close>

definition frame :: "Inventory \<Rightarrow> (bool \<Rightarrow> device_id \<Rightarrow> u64 option) \<times> CameraDescriptor list" where
  "frame I = ((\<lambda>is_output i. map_option ep_generation (find_endpoint is_output i I)), inv_cameras I)"

text \<open>The revision of a setting.\<close>

fun revision_of :: "Inventory \<Rightarrow> setting \<Rightarrow> u64 option" where
  "revision_of I (Mute_of is_output i) = map_option muteRevision (find_endpoint is_output i I)"
| "revision_of I (Level_of is_output i) = map_option levelRevision (find_endpoint is_output i I)"
| "revision_of I (Route_of is_output role) =
     (let rs = (if is_output then outputRoleRevisions I else inputRoleRevisions I)
      in if role < length rs then Some (rs ! role) else None)"
| "revision_of I Camera_source = Some (cs_revision (st_camera (inv_state I)))"
| "revision_of I Camera_enabled = None"

definition sized :: "Inventory \<Rightarrow> bool" where
  "sized I \<longleftrightarrow> well_formed I \<and> length (outputRoleRevisions I) = 3 \<and> length (inputRoleRevisions I) = 3"

text \<open>The commands that a profile sends, the setting each is for, and what it asks of the parts no command changes.\<close>

fun target :: "BrokerCommand \<Rightarrow> setting" where
  "target c =
     (case operation c of
        SetMute \<Rightarrow> Mute_of (cmd_device c = Output) (cmd_id c)
      | SetLevel \<Rightarrow> Level_of (cmd_device c = Output) (cmd_id c)
      | SetDefault \<Rightarrow> Route_of (cmd_device c = Output) (cmd_role c)
      | _ \<Rightarrow> Camera_source)"

definition permitted :: "BrokerCommand \<Rightarrow> Inventory \<Rightarrow> bool" where
  "permitted c I \<longleftrightarrow>
     (if operation c = SetCameraSource then cmd_device c = Camera \<and> list_ex (\<lambda>d. cam_id d = cmd_id c) (snd (frame I))
      else cmd_device c \<noteq> Camera \<and> fst (frame I) (cmd_device c = Output) (cmd_id c) = Some (expectedGeneration c) \<and>
        (operation c = SetMute \<and> cmd_value c \<le> 1 \<or> operation c = SetLevel \<and> cmd_value c \<le> 100 \<or>
         operation c = SetDefault \<and> cmd_role c < 3))"

lemma permitted_frame: "frame J = frame I \<Longrightarrow> permitted c J = permitted c I"
  by (simp add: permitted_def)

definition kinded :: "BrokerCommand \<Rightarrow> bool" where
  "kinded c \<longleftrightarrow> (if operation c = SetCameraSource then cmd_device c = Camera
     else operation c \<in> {SetMute, SetLevel, SetDefault} \<and> cmd_device c \<noteq> Camera)"

lemma last_index_find:
  assumes "distinct (map ep_id xs)" "find (\<lambda>e. ep_id e = i) xs = Some e"
  obtains n where "last_index (\<lambda>e. ep_id e = i) xs = Some n" "n < length xs" "xs ! n = e" "ep_id e = i"
proof -
  obtain n where n: "n < length xs" "ep_id (xs ! n) = i" "e = xs ! n" using assms(2) by (auto simp: find_Some_iff)
  have "last_index (\<lambda>e. ep_id e = i) xs \<noteq> None"
    using n by (auto simp: last_index_def find_None_iff)
  then obtain m where m: "last_index (\<lambda>e. ep_id e = i) xs = Some m" by blast
  from last_index_distinct [OF assms(1) m] show ?thesis using that m assms(2) by auto
qed

lemma revision_unchanged:
  assumes "inv_outputs J = inv_outputs I" "inv_inputs J = inv_inputs I" "inv_cameras J = inv_cameras I"
    "outputRoleRevisions J = outputRoleRevisions I" "inputRoleRevisions J = inputRoleRevisions I"
    "cs_revision (st_camera (inv_state J)) = cs_revision (st_camera (inv_state I))"
  shows "frame J = frame I" "revision_of J k = revision_of I k"
proof -
  show "frame J = frame I" using assms by (simp add: frame_def find_endpoint_def cong: if_cong)
  show "revision_of J k = revision_of I k" using assms by (cases k) (simp_all add: find_endpoint_def)
qed

text \<open>The effect of a command on one endpoint.\<close>

lemma set_endpoint_frame:
  assumes wf: "well_formed I" and n: "n < length (endpoints_of device I)" and e: "ep_id e = ep_id (endpoints_of device I ! n)"
    and old: "find_endpoint (device = Output) (ep_id e) I = Some (endpoints_of device I ! n)"
    and g: "ep_generation e = ep_generation (endpoints_of device I ! n)"
  shows "frame (set_endpoint device n e I) = frame I"
    "outputRoleRevisions (set_endpoint device n e I) = outputRoleRevisions I"
    "inputRoleRevisions (set_endpoint device n e I) = inputRoleRevisions I"
    "st_camera (inv_state (set_endpoint device n e I)) = st_camera (inv_state I)"
  using set_endpoint_facts(2) [OF wf n e] old g
  by (auto simp: frame_def fun_eq_iff set_endpoint_def)

definition raises :: "BrokerCommand \<Rightarrow> Inventory \<Rightarrow> Inventory \<Rightarrow> bool" where
  "raises c I J \<longleftrightarrow> sized J \<and> frame J = frame I \<and> (\<forall>k. k \<noteq> target c \<longrightarrow> revision_of J k = revision_of I k) \<and>
     revision_of I (target c) = Some (expectedRevision c) \<and>
     (assign c (settings I) (target c) \<noteq> settings I (target c) \<longrightarrow> revision_of J (target c) = Some (expectedRevision c + 1))"

lemma set_endpoint_raises:
  assumes sized: "sized I" and n: "n < length (endpoints_of device I)" and e: "ep_id e = ep_id (endpoints_of device I ! n)"
    and old: "find_endpoint (device = Output) (ep_id e) I = Some (endpoints_of device I ! n)"
    and g: "ep_generation e = ep_generation (endpoints_of device I ! n)"
  shows "sized (set_endpoint device n e I)" "frame (set_endpoint device n e I) = frame I"
    "levelRevision e = levelRevision (endpoints_of device I ! n) \<Longrightarrow> k \<noteq> Mute_of (device = Output) (ep_id e) \<Longrightarrow>
       revision_of (set_endpoint device n e I) k = revision_of I k"
    "muteRevision e = muteRevision (endpoints_of device I ! n) \<Longrightarrow> k \<noteq> Level_of (device = Output) (ep_id e) \<Longrightarrow>
       revision_of (set_endpoint device n e I) k = revision_of I k"
    "revision_of (set_endpoint device n e I) (Mute_of (device = Output) (ep_id e)) = Some (muteRevision e)"
    "revision_of (set_endpoint device n e I) (Level_of (device = Output) (ep_id e)) = Some (levelRevision e)"
proof -
  have wf: "well_formed I" using sized by (simp add: sized_def)
  note f = set_endpoint_facts [OF wf n e] and r = set_endpoint_frame [OF wf n e old g]
  show "sized (set_endpoint device n e I)" using sized f(1) r by (simp add: sized_def)
  show "frame (set_endpoint device n e I) = frame I" by (rule r)
  show "levelRevision e = levelRevision (endpoints_of device I ! n) \<Longrightarrow> k \<noteq> Mute_of (device = Output) (ep_id e) \<Longrightarrow>
       revision_of (set_endpoint device n e I) k = revision_of I k"
    "muteRevision e = muteRevision (endpoints_of device I ! n) \<Longrightarrow> k \<noteq> Level_of (device = Output) (ep_id e) \<Longrightarrow>
       revision_of (set_endpoint device n e I) k = revision_of I k"
    "revision_of (set_endpoint device n e I) (Mute_of (device = Output) (ep_id e)) = Some (muteRevision e)"
    "revision_of (set_endpoint device n e I) (Level_of (device = Output) (ep_id e)) = Some (levelRevision e)"
    using f(2) r old by (cases k; auto)+
qed

lemma set_route_raises:
  assumes sized: "sized I" and role: "role < 3"
  shows "sized (set_route device role i I)" "frame (set_route device role i I) = frame I"
    "k \<noteq> Route_of (device = Output) role \<Longrightarrow> revision_of (set_route device role i I) k = revision_of I k"
    "revision_of (set_route device role i I) (Route_of (device = Output) role) = Some (revisions_of device I ! role + 1)"
proof -
  have len: "length (outputRoleRevisions I) = 3" "length (inputRoleRevisions I) = 3" using sized by (simp_all add: sized_def)
  show "sized (set_route device role i I)" using sized by (simp add: sized_def well_formed_def set_route_def)
  show "frame (set_route device role i I) = frame I" by (simp add: frame_def set_route_def find_endpoint_def cong: if_cong)
  show "k \<noteq> Route_of (device = Output) role \<Longrightarrow> revision_of (set_route device role i I) k = revision_of I k"
    using role len by (cases k) (auto simp: set_route_def find_endpoint_def nth_list_update Let_def)
  show "revision_of (set_route device role i I) (Route_of (device = Output) role) = Some (revisions_of device I ! role + 1)"
    using role len by (simp add: set_route_def revisions_of_def Let_def)
qed

lemma refresh_raises: "revision_of (refresh_selected I) k = revision_of I k" "frame (refresh_selected I) = frame I"
  "sized (refresh_selected I) = sized I"
proof -
  note r = revision_unchanged [of "refresh_selected I" I]
  show "revision_of (refresh_selected I) k = revision_of I k" "frame (refresh_selected I) = frame I"
    by (rule r; simp add: refresh_selected_def Let_def split: option.splits)+
  show "sized (refresh_selected I) = sized I"
    using refresh_selected_same(2) [of I] by (simp add: sized_def) (simp add: refresh_selected_def Let_def split: option.splits)
qed

text \<open>A command that the device accepts was permitted and named the revision of its setting; it raises that revision
  if it changes the setting, and no other one.\<close>

lemma FixtureEndpoint_raises:
  assumes sized: "sized I" and k: "kinded c" "operation c \<noteq> SetCameraSource" and ok: "FixtureEndpoint c I = Inr J"
  shows "permitted c I" "raises c I J"
proof -
  let ?d = "cmd_device c" and ?o = "cmd_device c = Output"
  have wf: "well_formed I" using sized by (simp add: sized_def)
  obtain n where n: "last_index (\<lambda>e. ep_id e = cmd_id c) (endpoints_of ?d I) = Some n"
    using ok by (auto simp: FixtureEndpoint_def Let_def split: option.splits)
  let ?e = "endpoints_of ?d I ! n"
  have "distinct (map ep_id (endpoints_of ?d I))" using wf by (simp add: well_formed_def endpoints_of_def)
  note l = last_index_distinct [OF this n]
  have old: "find_endpoint ?o (cmd_id c) I = Some ?e" using l(3) by (simp add: find_endpoint_def endpoints_of_def split: if_splits)
  have g: "fst (frame I) ?o (cmd_id c) = Some (expectedGeneration c)"
    using ok n old by (auto simp: FixtureEndpoint_def Let_def frame_def split: if_splits)
  note s = set_endpoint_raises [OF sized l(1)]
  have "permitted c I \<and> raises c I J"
  proof (cases "operation c")
    case SetMute
    let ?e' = "?e\<lparr>ep_muted := (cmd_value c \<noteq> 0), muteRevision := muteRevision ?e + 1\<rparr>"
    have v: "cmd_value c \<le> 1" "muteRevision ?e = expectedRevision c"
        "J = (if ep_muted ?e \<noteq> (cmd_value c \<noteq> 0) then set_endpoint ?d n ?e' I else I)"
      using ok n SetMute by (auto simp: FixtureEndpoint_def Let_def not_less split: if_splits)
    have one: "cmd_value c = (if cmd_value c \<noteq> 0 then 1 else 0)" using v(1) by (rule flag_value)
    have i: "ep_id ?e' = cmd_id c" using l(2) by simp
    have same: "assign c (settings I) (target c) = settings I (target c)" if "ep_muted ?e = (cmd_value c \<noteq> 0)"
      using that one old SetMute by (simp add: assign_def endpoint_value_def)
    show ?thesis
      using k SetMute g v same sized old s(1,2,3,5) [of ?e'] i l(2)
      by (cases "ep_muted ?e = (cmd_value c \<noteq> 0)") (simp_all add: permitted_def raises_def kinded_def)
  next
    case SetLevel
    let ?e' = "?e\<lparr>ep_level := cmd_value c, levelRevision := levelRevision ?e + 1\<rparr>"
    have v: "cmd_value c \<le> 100" "levelRevision ?e = expectedRevision c"
        "J = (if ep_level ?e \<noteq> cmd_value c then set_endpoint ?d n ?e' I else I)"
      using ok n SetLevel by (auto simp: FixtureEndpoint_def Let_def not_less split: if_splits)
    have i: "ep_id ?e' = cmd_id c" using l(2) by simp
    have same: "assign c (settings I) (target c) = settings I (target c)" if "ep_level ?e = cmd_value c"
      using that old SetLevel by (simp add: assign_def endpoint_value_def)
    show ?thesis
      using k SetLevel g v same sized old s(1,2,4,6) [of ?e'] i l(2)
      by (cases "ep_level ?e = cmd_value c") (simp_all add: permitted_def raises_def kinded_def)
  next
    case SetDefault
    have v: "cmd_role c < 3" "revisions_of ?d I ! cmd_role c = expectedRevision c"
        "J = (if routes_of ?d I ! cmd_role c \<noteq> cmd_id c then set_route ?d (cmd_role c) (cmd_id c) I else I)"
      using ok n SetDefault by (auto simp: FixtureEndpoint_def Let_def not_le split: if_splits)
    have r: "revision_of I (Route_of ?o (cmd_role c)) = Some (revisions_of ?d I ! cmd_role c)"
      using sized v(1) by (simp add: sized_def revisions_of_def Let_def)
    have same: "assign c (settings I) (target c) = settings I (target c)" if "routes_of ?d I ! cmd_role c = cmd_id c"
      using that v(1) SetDefault by (simp add: assign_def routes_of_def split: if_splits)
    show ?thesis
      using k SetDefault g v same sized r set_route_raises [OF sized v(1), where device = ?d and i = "cmd_id c"]
      by (cases "routes_of ?d I ! cmd_role c = cmd_id c")
        (simp_all add: permitted_def raises_def kinded_def del: revision_of.simps)
  qed (use k in \<open>simp_all add: kinded_def\<close>)
  then show "permitted c I" "raises c I J" by blast+
qed

lemma FixtureCamera_raises:
  assumes sized: "sized I" and k: "kinded c" "operation c = SetCameraSource" and ok: "FixtureCamera c I = Inr J"
  shows "permitted c I" "raises c I J"
proof -
  let ?camera = "st_camera (inv_state I)"
  let ?J = "I\<lparr>inv_state := (inv_state I)\<lparr>st_camera := ?camera\<lparr>sourceId := cmd_id c, cs_revision := cs_revision ?camera + 1\<rparr>\<rparr>\<rparr>"
  have v: "expectedRevision c = cs_revision ?camera" "list_ex (\<lambda>d. cam_id d = cmd_id c) (inv_cameras I)"
      "J = (if sourceId ?camera \<noteq> cmd_id c then ?J else I)"
    using ok k by (auto simp: FixtureCamera_def Let_def split: if_splits)
  show "permitted c I" using v k by (simp add: permitted_def frame_def kinded_def)
  have "revision_of ?J k = revision_of I k" if "k \<noteq> Camera_source" for k
    using that by (cases k) (simp_all add: find_endpoint_def)
  moreover have "sized ?J" "frame ?J = frame I" using sized 
    by (simp_all add: sized_def well_formed_def frame_def find_endpoint_def cong: if_cong)
  ultimately show "raises c I J" using v k sized by (simp add: raises_def assign_def)
qed

lemma raises_same:
  assumes "raises c I J" "inv_outputs K = inv_outputs J" "inv_inputs K = inv_inputs J" "inv_cameras K = inv_cameras J"
    "outputRoleRevisions K = outputRoleRevisions J" "inputRoleRevisions K = inputRoleRevisions J"
    "st_camera (inv_state K) = st_camera (inv_state J)"
    "outputDefaults (inv_state K) = outputDefaults (inv_state J)" "inputDefaults (inv_state K) = inputDefaults (inv_state J)"
  shows "raises c I K"
  using assms revision_unchanged [of K J] settings_same(2) [of K J] by (simp add: raises_def sized_def)

lemma refresh_camera:
  "inv_outputs (refresh_selected I) = inv_outputs I" "inv_inputs (refresh_selected I) = inv_inputs I"
  "inv_cameras (refresh_selected I) = inv_cameras I" "outputRoleRevisions (refresh_selected I) = outputRoleRevisions I"
  "inputRoleRevisions (refresh_selected I) = inputRoleRevisions I"
  "st_camera (inv_state (refresh_selected I)) = st_camera (inv_state I)"
  "outputDefaults (inv_state (refresh_selected I)) = outputDefaults (inv_state I)"
  "inputDefaults (inv_state (refresh_selected I)) = inputDefaults (inv_state I)"
  by (simp_all add: refresh_selected_def Let_def split: option.splits)

lemma FixtureCommand_raises:
  assumes sized: "sized I" and k: "kinded c" and ok: "FixtureCommand c I = (hr, J)" "SUCCEEDED hr"
  shows "permitted c I" "raises c I (J\<lparr>inv_truncated := b\<rparr>)"
proof -
  let ?r = "if cmd_device c = Camera then FixtureCamera c I else map_sum id refresh_selected (FixtureEndpoint c I)"
  have o: "\<not> (operation c = Observe \<or> operation c = SuspendObservation)" using k by (auto simp: kinded_def split: if_splits)
  have failing: "FAILED e" if "?r = Inl e" for e
    using that by (auto simp: FixtureCamera_def FixtureEndpoint_def Let_def FAILED_def HRESULT_FROM_WIN32_def
        split: if_splits option.splits)
  obtain K where K: "?r = Inr K" "J = K\<lparr>inv_state := (inv_state K)\<lparr>st_revision := st_revision (inv_state K) + 1\<rparr>,
      cameraRequiresHelper := cs_enabled (st_camera (inv_state K))\<rparr>"
    using ok o failing not_failed by (cases ?r) (auto simp: FixtureCommand_def)
  have "permitted c I \<and> raises c I K"
  proof (cases "operation c = SetCameraSource")
    case True
    then show ?thesis using K(1) k FixtureCamera_raises [OF sized k True] by (simp add: kinded_def)
  next
    case False
    then obtain L where L: "FixtureEndpoint c I = Inr L" "K = refresh_selected L"
      using K(1) k by (cases "FixtureEndpoint c I") (auto simp: kinded_def)
    show ?thesis
      using FixtureEndpoint_raises [OF sized k False L(1)] raises_same [of c I L K] L(2) refresh_camera by simp
  qed
  then show "permitted c I" "raises c I (J\<lparr>inv_truncated := b\<rparr>)"
    using raises_same [of c I K "J\<lparr>inv_truncated := b\<rparr>"] K(2) by simp_all
qed

text \<open>Conversely, a permitted command that names the current revision is accepted.\<close>

lemma FixtureCommand_accepts:
  assumes sized: "sized I" and p: "permitted c I" and r: "revision_of I (target c) = Some (expectedRevision c)"
  shows "fst (FixtureCommand c I) = S_OK"
proof (cases "operation c = SetCameraSource")
  case True
  then show ?thesis using p r by (simp add: permitted_def frame_def FixtureCommand_def FixtureCamera_def Let_def)
next
  case False
  let ?d = "cmd_device c" and ?o = "cmd_device c = Output"
  obtain e where e: "find_endpoint ?o (cmd_id c) I = Some e" "ep_generation e = expectedGeneration c"
    using p False by (auto simp: permitted_def frame_def)
  have "find (\<lambda>e. ep_id e = cmd_id c) (endpoints_of ?d I) = Some e"
    using e(1) by (simp add: find_endpoint_def endpoints_of_def split: if_splits)
  moreover have "distinct (map ep_id (endpoints_of ?d I))" using sized by (simp add: sized_def well_formed_def endpoints_of_def)
  ultimately obtain n where n: "last_index (\<lambda>e. ep_id e = cmd_id c) (endpoints_of ?d I) = Some n" "endpoints_of ?d I ! n = e"
    using last_index_find by blast
  have role: "cmd_role c < 3 \<Longrightarrow> revision_of I (Route_of ?o (cmd_role c)) = Some (revisions_of ?d I ! cmd_role c)"
    using sized by (simp add: sized_def revisions_of_def Let_def)
  have kind: "operation c = SetMute \<and> cmd_value c \<le> 1 \<or> operation c = SetLevel \<and> cmd_value c \<le> 100 \<or>
      operation c = SetDefault \<and> cmd_role c < 3" "?d \<noteq> Camera"
    using p False by (auto simp: permitted_def)
  have "\<exists>J. FixtureEndpoint c I = Inr J"
    using kind r e n role
    by (elim disjE conjE) (simp_all add: FixtureEndpoint_def Let_def not_less not_le del: revision_of.simps(3))
  then show ?thesis using kind by (auto simp: FixtureCommand_def)
qed

section \<open>An undisturbed helper\<close>

definition clock_readings :: "fixture \<Rightarrow> u64 set" where
  "clock_readings w = (if fx_clock w = [] then {0} else set (fx_clock w))"

definition safety_readings :: "fixture \<Rightarrow> u64 list set" where
  "safety_readings w = (if fx_safety w = [] then {[0, 0, 0]} else set (fx_safety w))"

definition calm :: "u64 set \<Rightarrow> u64 list set \<Rightarrow> fixture \<Rightarrow> bool" where
  "calm T V w \<longleftrightarrow> list_all (\<lambda>d. d = Answered) (fx_deliveries w) \<and> clock_readings w \<subseteq> T \<and> safety_readings w \<subseteq> V"

lemma calm_reads:
  assumes "calm T V w"
  shows "fst (env_tick fixture_env w) \<in> T" "calm T V (snd (env_tick fixture_env w))"
    "fx_inventory (snd (env_tick fixture_env w)) = fx_inventory w"
    "fst (env_snapshot fixture_env w) \<in> V" "calm T V (snd (env_snapshot fixture_env w))"
    "fx_inventory (snd (env_snapshot fixture_env w)) = fx_inventory w"
  using assms
  by (auto simp: fixture_env_def calm_def clock_readings_def safety_readings_def split: list.splits)

lemma not_connection: "FixtureCommand c I = (hr, J) \<Longrightarrow> \<not> ConnectionFailure hr"
  by (auto simp: FixtureCommand_def FixtureCamera_def FixtureEndpoint_def Let_def ConnectionFailure_def HRESULT_FROM_WIN32_def S_OK_def
      split: if_splits option.splits sum.splits)

lemma calm_execute:
  assumes "calm T V w"
  obtains (bad_time) "t = 0 \<or> t > 3000" "env_execute fixture_env c t r w = ((0x80070057, r), w)"
  | (answered) hr J b w' where "t \<noteq> 0" "\<not> t > 3000" "FixtureCommand c (fx_inventory w) = (hr, J)" "calm T V w'"
      "fx_inventory w' = J\<lparr>inv_truncated := b\<rparr>" "env_execute fixture_env c t r w = ((hr, fx_inventory w'), w')"
proof (cases "t = 0 \<or> t > 3000")
  case True
  then show ?thesis by (rule bad_time) (use True in \<open>simp add: fixture_env_def Execute_def\<close>)
next
  case False
  obtain hr J where f: "FixtureCommand c (fx_inventory w) = (hr, J)" by fastforce
  define w' where "w' = w\<lparr>fx_deliveries := tl (fx_deliveries w), fx_inventory := J\<lparr>inv_truncated := fx_truncated w\<rparr>\<rparr>"
  have "env_execute fixture_env c t r w = ((hr, fx_inventory w'), w')"
    using assms False f
    by (cases "fx_deliveries w") (auto simp: fixture_env_def Execute_def Synthetic_def calm_def w'_def Let_def)
  moreover have "calm T V w'"
    using assms by (cases "fx_deliveries w") (auto simp: calm_def w'_def clock_readings_def safety_readings_def)
  ultimately show ?thesis using answered [of hr J w' "fx_truncated w"] False f by (auto simp: w'_def)
qed

lemma Call_calm:
  assumes tx: "tx_env tx = fixture_env" and calm: "calm T V (t_world s)" and call: "Call tx c rollback s = (hr, s')"
  shows "calm T V (t_world s') \<and> t_undo s' = t_undo s \<and> t_outcome s' = t_outcome s \<and> set (t_sent s) \<subseteq> set (t_sent s') \<and>
    (if SUCCEEDED hr
     then (\<exists>J b. FixtureCommand c (fx_inventory (t_world s)) = (hr, J) \<and> fx_inventory (t_world s') = J\<lparr>inv_truncated := b\<rparr> \<and>
       t_reply s' = fx_inventory (t_world s') \<and> (rollback, c) \<in> set (t_sent s'))
     else (t_reply s = fx_inventory (t_world s) \<longrightarrow> t_reply s' = fx_inventory (t_world s') \<and>
       (\<exists>b. fx_inventory (t_world s') = (fx_inventory (t_world s))\<lparr>inv_truncated := b\<rparr>)))"
proof -
  obtain now w where tick: "env_tick fixture_env (t_world s) = (now, w)" by fastforce
  have w: "calm T V w" "fx_inventory w = fx_inventory (t_world s)" using calm_reads [OF calm] tick by simp_all
  have same: "\<exists>b. I = I\<lparr>inv_truncated := b\<rparr>" for I :: Inventory by (rule exI [of _ "inv_truncated I"]) simp
  show ?thesis
  proof (cases "Remaining tx rollback now = 0")
    case True
    then have "hr = HRESULT_FROM_WIN32 1460" "s' = s\<lparr>t_world := w\<rparr>" using call tx tick by (simp_all add: Call_def)
    moreover have "\<not> SUCCEEDED (HRESULT_FROM_WIN32 1460)" by (simp add: SUCCEEDED_def HRESULT_FROM_WIN32_def)
    ultimately show ?thesis using w same by simp
  next
    case False
    let ?t = "Remaining tx rollback now"
    show ?thesis
      using w(1)
    proof (cases rule: calm_execute [where t = ?t and c = c and r = "t_reply s"])
      case bad_time
      then have "hr = 0x80070057" "s' = s\<lparr>t_world := w, t_sent := t_sent s @ [(rollback, c)]\<rparr>"
        using call tx tick False by (simp_all add: Call_def ConnectionFailure_def HRESULT_FROM_WIN32_def)
      moreover have "\<not> SUCCEEDED (0x80070057 :: hresult)" by (simp add: SUCCEEDED_def)
      ultimately show ?thesis using w same by auto
    next
      case (answered hr' J b w')
      have s': "hr = hr'" "s' = s\<lparr>t_world := w', t_reply := fx_inventory w', t_sent := t_sent s @ [(rollback, c)]\<rparr>"
        using call tx tick False answered not_connection [OF answered(3)] by (auto simp: Call_def)
      have "J = fx_inventory w" if "\<not> SUCCEEDED hr"
        using that not_failed s'(1) answered(3) by (auto simp: FixtureCommand_def SUCCEEDED_def S_OK_def split: sum.splits if_splits)
      then show ?thesis using answered s' w by auto
    qed
  qed
qed

section \<open>What the undo entries own\<close>

definition healthy :: "Inventory \<Rightarrow> bool" where
  "healthy I \<longleftrightarrow> sized I \<and>
     (\<forall>is_output i x. settings I (Level_of is_output i) = Some (Number x) \<longrightarrow> x \<le> 100) \<and>
     (\<forall>is_output role i. settings I (Route_of is_output role) = Some (Identity i) \<longrightarrow> fst (frame I) is_output i \<noteq> None) \<and>
     (\<forall>i. settings I Camera_source = Some (Identity i) \<longrightarrow> list_ex (\<lambda>d. cam_id d = i) (snd (frame I)))"

lemma healthy_kept:
  assumes "healthy I" "permitted c I" "settings J = assign c (settings I)" "frame J = frame I" "sized J"
  shows "healthy J"
  using assms by (auto simp: healthy_def permitted_def assign_def simp del: settings.simps split: if_splits)

lemma truncated_frame:
  "frame (I\<lparr>inv_truncated := b\<rparr>) = frame I" "revision_of (I\<lparr>inv_truncated := b\<rparr>) k = revision_of I k"
  "sized (I\<lparr>inv_truncated := b\<rparr>) = sized I"
  by (rule revision_unchanged; simp)+ (simp add: sized_def truncated_same)

definition undoable :: "Undo \<Rightarrow> Inventory \<Rightarrow> bool" where
  "undoable e I \<longleftrightarrow> restorable e \<and> permitted (undo_command e) I \<and>
     revision_of I (target (undo_command e)) = Some (ownedRevision e) \<and> ownedRevision e \<noteq> 0"

definition touched :: "'w txn \<Rightarrow> DeviceKind set" where
  "touched s = cmd_device ` set (filter (\<lambda>c. operation c \<noteq> Observe) (map snd (t_sent s)))"

lemma touched_mono: "set (t_sent s) \<subseteq> set (t_sent s') \<Longrightarrow> touched s \<subseteq> touched s'"
  by (auto simp: touched_def)

definition ready :: "u64 set \<Rightarrow> u64 list set \<Rightarrow> setting set \<Rightarrow> fixture txn \<Rightarrow> bool" where
  "ready T V K s \<longleftrightarrow>
     (let I = fx_inventory (t_world s)
      in calm T V (t_world s) \<and> t_reply s = I \<and> healthy I \<and> stateKnown (t_outcome s) \<and> rollbackComplete (t_outcome s) \<and>
         distinct (map (\<lambda>e. target (undo_command e)) (t_undo s)) \<and>
         (\<forall>e\<in>set (t_undo s). undoable e I \<and> target (undo_command e) \<in> K \<and> cmd_device (undo_command e) \<in> touched s) \<and>
         (\<forall>k. k \<notin> K \<longrightarrow> revision_of I k \<noteq> Some (-1)))"

lemma ready_mono: "ready T V K s \<Longrightarrow> K \<subseteq> K' \<Longrightarrow> ready T V K' s"
  unfolding ready_def Let_def by blast

lemma ready_same:
  assumes "ready T V K s" "calm T V (t_world s')" "t_undo s' = t_undo s" "t_reply s' = fx_inventory (t_world s')"
    "fx_inventory (t_world s') = (fx_inventory (t_world s))\<lparr>inv_truncated := b\<rparr>"
    "stateKnown (t_outcome s')" "rollbackComplete (t_outcome s')" "set (t_sent s) \<subseteq> set (t_sent s')"
  shows "ready T V K s'"
proof -
  have "healthy (I\<lparr>inv_truncated := b\<rparr>) = healthy I" for I
    by (simp add: healthy_def truncated_frame truncated_same del: settings.simps)
  moreover have "undoable e (I\<lparr>inv_truncated := b\<rparr>) = undoable e I" for e I
    by (simp add: undoable_def truncated_frame permitted_frame [OF truncated_frame(1)] del: target.simps)
  ultimately show ?thesis
    using assms touched_mono [OF assms(8)] by (auto simp: ready_def Let_def truncated_frame simp del: target.simps)
qed

lemma ready_flags: "ready T V K s \<Longrightarrow> stateKnown (t_outcome s) \<and> rollbackComplete (t_outcome s)"
  "ready T V K s \<Longrightarrow> calm T V (t_world s)" "ready T V K s \<Longrightarrow> t_reply s = fx_inventory (t_world s)"
  "ready T V K s \<Longrightarrow> healthy (t_reply s)"
  by (simp_all add: ready_def Let_def)

lemma CheckSafety_ready:
  assumes "tx_env tx = fixture_env" "ready T V K s"
  shows "ready T V K (snd (CheckSafety tx s))" "t_reply (snd (CheckSafety tx s)) = t_reply s"
proof -
  note r = calm_reads [OF ready_flags(2) [OF assms(2)]] and f = ready_flags [OF assms(2)]
  have same: "(I :: Inventory)\<lparr>inv_truncated := inv_truncated I\<rparr> = I" for I by simp
  show "ready T V K (snd (CheckSafety tx s))"
    by (rule ready_same [OF assms(2), where b = "inv_truncated (t_reply s)"])
      (use assms(1) r f same in \<open>simp_all add: CheckSafety_def case_prod_beta Let_def\<close>)
  show "t_reply (snd (CheckSafety tx s)) = t_reply s" by (simp add: CheckSafety_def case_prod_beta Let_def)
qed

lemma ready_call:
  assumes tx: "tx_env tx = fixture_env" and s: "ready T V K s" and call: "Call tx c rollback s = (hr, s')"
    and fails: "\<not> SUCCEEDED hr"
  shows "ready T V K s'" "revision_of (t_reply s') k = revision_of (t_reply s) k"
proof -
  note f = ready_flags [OF s]
  obtain b where b: "fx_inventory (t_world s') = (fx_inventory (t_world s))\<lparr>inv_truncated := b\<rparr>" "t_reply s' = fx_inventory (t_world s')"
    and o: "calm T V (t_world s')" "t_undo s' = t_undo s" "t_outcome s' = t_outcome s" "set (t_sent s) \<subseteq> set (t_sent s')"
    using Call_calm [OF tx f(2) call] f fails by auto
  show "ready T V K s'" by (rule ready_same [OF s, where b = b]) (use b o f in simp_all)
  show "revision_of (t_reply s') k = revision_of (t_reply s) k" using b f by (simp add: truncated_frame)
qed

text \<open>An accepted command: what is ready stays so, except for the setting of the command.\<close>

lemma ready_accepted:
  assumes tx: "tx_env tx = fixture_env" and s: "ready T V K s" and call: "Call tx c rollback s = (hr, s')"
    and ok: "SUCCEEDED hr" and k: "kinded c"
  shows "raises c (t_reply s) (t_reply s')" "permitted c (t_reply s)" "cmd_device c \<in> touched s'" "touched s \<subseteq> touched s'"
    "t_undo s' = t_undo s" "t_outcome s' = t_outcome s" "calm T V (t_world s')" "t_reply s' = fx_inventory (t_world s')"
    "healthy (t_reply s')"
proof -
  note f = ready_flags [OF s]
  obtain J b where J: "FixtureCommand c (t_reply s) = (hr, J)" "fx_inventory (t_world s') = J\<lparr>inv_truncated := b\<rparr>"
      "t_reply s' = fx_inventory (t_world s')" "(rollback, c) \<in> set (t_sent s')"
    and o: "calm T V (t_world s')" "t_undo s' = t_undo s" "t_outcome s' = t_outcome s" "set (t_sent s) \<subseteq> set (t_sent s')"
    using Call_calm [OF tx f(2) call] f ok by auto
  have sized: "sized (t_reply s)" using f(4) by (simp add: healthy_def)
  then have wf: "well_formed (t_reply s)" by (simp add: sized_def)
  note r = FixtureCommand_raises [OF sized k J(1) ok]
  show "permitted c (t_reply s)" by (rule r)
  show ra: "raises c (t_reply s) (t_reply s')" using r(2) [of b] J by simp
  show "cmd_device c \<in> touched s'"
    using J(4) k by (force simp: touched_def kinded_def split: if_splits)
  have "settings (t_reply s') = assign c (settings (t_reply s))"
    using FixtureCommand_facts(2) [OF wf J(1) ok] J truncated_same by simp
  then show "healthy (t_reply s')"
    using healthy_kept [OF f(4) r(1)] ra by (simp add: raises_def)
  show "touched s \<subseteq> touched s'" "t_undo s' = t_undo s" "t_outcome s' = t_outcome s" "calm T V (t_world s')"
    "t_reply s' = fx_inventory (t_world s')"
    using J o touched_mono by auto
qed

section \<open>The forward steps\<close>

text \<open>What every mutation does after its call.\<close>

lemma ready_mutation:
  assumes tx: "tx_env tx = fixture_env" and s: "ready T V K s" and call: "Call tx command False s = (hr, s')"
    and k: "kinded command" "target command \<notin> K" "revision_of (t_reply s) (target command) = Some (expectedRevision command)"
    and changes: "assign command (settings (t_reply s)) (target command) \<noteq> settings (t_reply s) (target command)"
    and entry: "restorable entry" "target (undo_command entry) = target command" "permitted (undo_command entry) (t_reply s)"
      "cmd_device (undo_command entry) = cmd_device command"
    and r: "\<And>x. revision_of (t_reply s') (target command) = Some x \<Longrightarrow> r = x"
    and r': "r' = revision_of (t_reply s') (target command)"
  shows "ready T V (insert (target command) K)
      (if SUCCEEDED hr then mutated entry r s' else not_mutated r' command s')"
proof (cases "SUCCEEDED hr")
  case False
  note f = ready_call [OF tx s call False]
  have "not_mutated r' command s' = s'" using ready_flags(1) [OF f(1)] r' f(2) k(3) by (simp add: not_mutated_def)
  then show ?thesis using False ready_mono [OF f(1) subset_insertI] by simp
next
  case True
  note a = ready_accepted [OF tx s call True k(1)] and f = ready_flags [OF s]
  let ?k = "target command"
  have rev: "revision_of (t_reply s') ?k = Some (expectedRevision command + 1)" and frame: "frame (t_reply s') = frame (t_reply s)"
    and others: "\<And>k. k \<noteq> ?k \<Longrightarrow> revision_of (t_reply s') k = revision_of (t_reply s) k"
    using a(1) changes by (simp_all add: raises_def del: target.simps)
  have "expectedRevision command \<noteq> -1" using s k(2,3) f(3) unfolding ready_def Let_def by metis
  then have owned: "r = expectedRevision command + 1" "r \<noteq> 0"
    using r [OF rev] by (simp_all add: eq_neg_iff_add_eq_0)
  have new: "undoable (entry\<lparr>ownedRevision := r\<rparr>) (t_reply s')"
    using entry rev owned(1) owned(2) permitted_frame [OF frame, of "undo_command entry"]
    unfolding undoable_def by (simp del: target.simps One_nat_def)
  have old: "undoable e (t_reply s')" if "undoable e (t_reply s)" "target (undo_command e) \<noteq> ?k" for e
    using that others permitted_frame [OF frame] by (simp add: undoable_def del: target.simps)
  let ?e = "entry\<lparr>ownedRevision := r\<rparr>" and ?m = "mutated entry r s'"
  have m: "t_undo ?m = ?e # t_undo s" "t_reply ?m = t_reply s'" "t_world ?m = t_world s'" "touched ?m = touched s'"
    "stateKnown (t_outcome ?m) = stateKnown (t_outcome s)" "rollbackComplete (t_outcome ?m) = rollbackComplete (t_outcome s)"
    "undo_command ?e = undo_command entry"
    using a(5,6) by (simp_all add: mutated_def touched_def)
  have s0: "distinct (map (\<lambda>e. target (undo_command e)) (t_undo s))"
    "\<And>e. e \<in> set (t_undo s) \<Longrightarrow>
       undoable e (t_reply s) \<and> target (undo_command e) \<in> K \<and> cmd_device (undo_command e) \<in> touched s"
    "\<And>k. k \<notin> K \<Longrightarrow> revision_of (t_reply s) k \<noteq> Some (-1)"
    using s f(3) by (simp_all add: ready_def Let_def del: target.simps)
  have fresh: "target (undo_command e) \<noteq> ?k" if "e \<in> set (t_undo s)" for e
    using s0(2) [OF that] k(2) by (metis)
  have "distinct (map (\<lambda>e. target (undo_command e)) (t_undo ?m))"
  proof -
    have "?k \<notin> (\<lambda>e. target (undo_command e)) ` set (t_undo s)" using fresh by (metis imageE)
    then show ?thesis using s0(1) entry(2) unfolding m by (simp del: target.simps)
  qed
  moreover have "undoable e (t_reply s') \<and> target (undo_command e) \<in> insert ?k K \<and> cmd_device (undo_command e) \<in> touched s'"
    if "e \<in> set (t_undo ?m)" for e
  proof (cases "e = ?e")
    case True
    then show ?thesis using new entry(2,4) a(3) m(7) by simp
  next
    case False
    then have e: "e \<in> set (t_undo s)" using that m(1) by simp
    show ?thesis using s0(2) [OF e] old fresh [OF e] a(4) by blast
  qed
  moreover have "revision_of (t_reply s') k \<noteq> Some (-1)" if "k \<notin> insert ?k K" for k
    using that others [of k] s0(3) [of k] by auto
  ultimately have "ready T V (insert ?k K) ?m"
    using f(1) a(7-9) unfolding ready_def Let_def m(2-6) by auto
  then show ?thesis using True by simp
qed

lemma kinded_audio:
  "op = SetMute \<or> op = SetLevel \<Longrightarrow> device \<noteq> Camera \<Longrightarrow> kinded \<lparr>operation = op, cmd_device = device, cmd_id = i, cmd_value = x,
     cmd_role = 0, expectedGeneration = g, expectedRevision = rv\<rparr>"
  by (auto simp: kinded_def)

lemma AudioMutation_ready:
  fixes i :: device_id
  assumes tx: "tx_env tx = fixture_env" and s: "ready T V K s" and op: "op = SetMute \<or> op = SetLevel" and device: "device \<noteq> Camera"
  defines "k \<equiv> (if op = SetMute then Mute_of else Level_of) (device = Output) i"
  assumes k: "k \<notin> K"
  shows "ready T V (insert k K) (snd (AudioMutation tx op device i x s))"
proof -
  obtain safe s1 where c: "CheckSafety tx s = (safe, s1)" by fastforce
  have s1: "ready T V K s1" using CheckSafety_ready [OF tx s] c by simp
  then have s1': "ready T V (insert k K) s1" by (rule ready_mono) auto
  show ?thesis
  proof (cases "FAILED safe \<or> FindEndpoint (t_reply s1) device i = None")
    case True
    then show ?thesis using s1' c by (auto simp: AudioMutation_def)
  next
    case False
    then obtain e where e: "FindEndpoint (t_reply s1) device i = Some e" by blast
    define mute where "mute \<longleftrightarrow> op = SetMute"
    define command where "command = \<lparr>operation = op, cmd_device = device, cmd_id = i, cmd_value = x, cmd_role = 0,
      expectedGeneration = ep_generation e, expectedRevision = endpoint_revision mute e\<rparr>"
    define entry where "entry = \<lparr>undo_command = command\<lparr>cmd_value := endpoint_value mute e\<rparr>, ownedRevision = 0, restorable = True\<rparr>"
    obtain hr s2 where call: "Call tx command False s1 = (hr, s2)" by fastforce
    let ?changed = "FindEndpoint (t_reply s2) device i"
    let ?r = "case ?changed of Some c \<Rightarrow> endpoint_revision mute c | None \<Rightarrow> 0"
    have m: "snd (AudioMutation tx op device i x s) =
        (if x = endpoint_value mute e then s1
         else if SUCCEEDED hr then mutated entry ?r s2 else not_mutated (map_option (endpoint_revision mute) ?changed) command s2)"
      unfolding mute_def command_def entry_def
      using False c e call [unfolded command_def mute_def] by (simp add: AudioMutation_def Let_def)
    have t: "target command = k" "target (undo_command entry) = k"
      using op by (auto simp: command_def entry_def k_def)
    have fe: "find_endpoint (device = Output) i I = FindEndpoint I device i" for I by (simp add: FindEndpoint_find)
    have rv: "revision_of I k = map_option (endpoint_revision mute) (FindEndpoint I device i)" for I
      using op by (cases "FindEndpoint I device i") (auto simp: k_def fe mute_def endpoint_revision_def)
    have v: "settings I k = map_option (\<lambda>e. Number (endpoint_value mute e)) (FindEndpoint I device i)" for I
      using op by (auto simp: k_def fe mute_def)
    have "endpoint_value mute e \<le> (if mute then 1 else 100)"
    proof (cases mute)
      case True
      then show ?thesis by (simp add: endpoint_value_def)
    next
      case notmute: False
      then have "settings (t_reply s1) (Level_of (device = Output) i) = Some (Number (endpoint_value False e))"
        using e fe by simp
      then show ?thesis using ready_flags(4) [OF s1] notmute unfolding healthy_def by (metis (full_types))
    qed
    then have p: "permitted (undo_command entry) (t_reply s1)"
      using device op e fe by (auto simp: permitted_def entry_def command_def frame_def mute_def split: if_splits)
    have kinded: "kinded command" unfolding command_def by (rule kinded_audio [OF op device])
    have a: "assign command (settings (t_reply s1)) k = Some (Number x)"
      using op by (auto simp: assign_def command_def k_def)
    have exp: "expectedRevision command = endpoint_revision mute e" by (simp add: command_def)
    have r: "\<And>y. revision_of (t_reply s2) (target command) = Some y \<Longrightarrow> ?r = y"
      unfolding t rv by (cases ?changed) simp_all
    have "ready T V (insert k K)
        (if SUCCEEDED hr then mutated entry ?r s2 else not_mutated (map_option (endpoint_revision mute) ?changed) command s2)"
      if "x \<noteq> endpoint_value mute e"
    proof (rule ready_mutation [OF tx s1 call kinded, unfolded t, OF k _ _ _ _ p])
      show "revision_of (t_reply s1) k = Some (expectedRevision command)" by (simp add: rv e exp)
      show "assign command (settings (t_reply s1)) k \<noteq> settings (t_reply s1) k" using that by (simp add: a v e)
      show "restorable entry" by (simp add: entry_def)
      show "target (undo_command entry) = k" by (rule t)
      show "cmd_device (undo_command entry) = cmd_device command" by (simp add: entry_def)
      show "?r = y" if "revision_of (t_reply s2) k = Some y" for y using that r t by simp
      show "map_option (endpoint_revision mute) ?changed = revision_of (t_reply s2) k" by (simp add: rv)
    qed
    then show ?thesis unfolding m using s1' by simp
  qed
qed

lemma RouteMutation_ready:
  fixes i :: device_id and role :: nat
  assumes tx: "tx_env tx = fixture_env" and s: "ready T V K s" and device: "device \<noteq> Camera" and role: "role < 3"
  defines "k \<equiv> Route_of (device = Output) role"
  assumes k: "k \<notin> K"
  shows "ready T V (insert k K) (snd (RouteMutation tx device i role s))"
proof -
  obtain safe s1 where c: "CheckSafety tx s = (safe, s1)" by fastforce
  have s1: "ready T V K s1" using CheckSafety_ready [OF tx s] c by simp
  then have s1': "ready T V (insert k K) s1" by (rule ready_mono) auto
  let ?old = "routes_of device (t_reply s1) ! role"
  show ?thesis
  proof (cases "FAILED safe \<or> ?old = i \<or> FindEndpoint (t_reply s1) device i = None")
    case True
    then show ?thesis using s1' c by (auto simp: RouteMutation_def)
  next
    case False
    then obtain e where e: "FindEndpoint (t_reply s1) device i = Some e" by blast
    have healthy: "healthy (t_reply s1)" by (rule ready_flags(4) [OF s1])
    have v: "settings I k = Some (Identity (routes_of device I ! role))" for I using role by (simp add: k_def routes_of_def)
    have fe: "find_endpoint (device = Output) j I = FindEndpoint I device j" for I j by (simp add: FindEndpoint_find)
    have "fst (frame (t_reply s1)) (device = Output) ?old \<noteq> None"
      using healthy v [of "t_reply s1"] unfolding healthy_def k_def by blast
    then obtain prior where prior: "FindEndpoint (t_reply s1) device ?old = Some prior"
      by (auto simp: frame_def fe)
    define command where "command = \<lparr>operation = SetDefault, cmd_device = device, cmd_id = i, cmd_value = 0, cmd_role = role,
      expectedGeneration = ep_generation e, expectedRevision = revisions_of device (t_reply s1) ! role\<rparr>"
    define entry where "entry = \<lparr>undo_command = command\<lparr>cmd_id := ?old, expectedGeneration := ep_generation prior\<rparr>,
      ownedRevision = 0, restorable = True\<rparr>"
    obtain hr s2 where call: "Call tx command False s1 = (hr, s2)" by fastforce
    let ?r = "revisions_of device (t_reply s2) ! role"
    have m: "snd (RouteMutation tx device i role s) =
        (if SUCCEEDED hr then mutated entry ?r s2 else not_mutated (Some ?r) command s2)"
      unfolding command_def entry_def
      using False c e prior call [unfolded command_def] by (simp add: RouteMutation_def Let_def)
    have t: "target command = k" "target (undo_command entry) = k" by (simp_all add: command_def entry_def k_def)
    have rv: "revision_of I k = Some (revisions_of device I ! role)" if "healthy I" for I
      using that role by (simp add: healthy_def sized_def k_def revisions_of_def Let_def)
    have p: "permitted (undo_command entry) (t_reply s1)"
      using device role prior by (simp add: permitted_def entry_def command_def frame_def fe)
    have kinded: "kinded command" using device by (simp add: command_def kinded_def)
    have healthy': "healthy (t_reply s2)"
    proof (cases "SUCCEEDED hr")
      case True
      show ?thesis by (rule ready_accepted(9) [OF tx s1 call True kinded])
    next
      case notok: False
      show ?thesis by (rule ready_flags(4) [OF ready_call(1) [OF tx s1 call notok]])
    qed
    show ?thesis
      unfolding m
    proof (rule ready_mutation [OF tx s1 call kinded, unfolded t, OF k _ _ _ _ p])
      show "revision_of (t_reply s1) k = Some (expectedRevision command)" by (simp add: rv [OF healthy] command_def)
      show "assign command (settings (t_reply s1)) k \<noteq> settings (t_reply s1) k"
        unfolding v using False by (auto simp: assign_def command_def k_def)
      show "restorable entry" "target (undo_command entry) = k" "cmd_device (undo_command entry) = cmd_device command"
        by (simp add: entry_def, rule t, simp add: entry_def)
      show "?r = y" if "revision_of (t_reply s2) k = Some y" for y using that rv [OF healthy'] by simp
      show "Some ?r = revision_of (t_reply s2) k" by (simp add: rv [OF healthy'])
    qed
  qed
qed

lemma CameraMutation_ready:
  assumes tx: "tx_env tx = fixture_env" and s: "ready T V K s" and k: "Camera_source \<notin> K"
  shows "ready T V (insert Camera_source K) (snd (CameraMutation tx s))"
proof -
  obtain safe s1 where c: "CheckSafety tx s = (safe, s1)" by fastforce
  have s1: "ready T V K s1" using CheckSafety_ready [OF tx s] c by simp
  then have s1': "ready T V (insert Camera_source K) s1" by (rule ready_mono) auto
  let ?i = "cameraId (tx_profile tx)" and ?camera = "st_camera (inv_state (t_reply s1))"
  show ?thesis
  proof (cases "FAILED safe \<or> sourceId ?camera = ?i")
    case True
    then show ?thesis using s1' c by (auto simp: CameraMutation_def)
  next
    case False
    have healthy: "healthy (t_reply s1)" by (rule ready_flags(4) [OF s1])
    define command where "command = \<lparr>operation = SetCameraSource, cmd_device = Camera, cmd_id = ?i, cmd_value = 0,
      cmd_role = 0, expectedGeneration = 0, expectedRevision = cs_revision ?camera\<rparr>"
    define entry where "entry = \<lparr>undo_command = command\<lparr>cmd_id := sourceId ?camera\<rparr>, ownedRevision = 0, restorable = True\<rparr>"
    obtain hr s2 where call: "Call tx command False s1 = (hr, s2)" by fastforce
    let ?r = "cs_revision (st_camera (inv_state (t_reply s2)))"
    have m: "snd (CameraMutation tx s) = (if SUCCEEDED hr then mutated entry ?r s2 else not_mutated (Some ?r) command s2)"
      unfolding command_def entry_def
      using False c call [unfolded command_def] by (simp add: CameraMutation_def Let_def)
    have t: "target command = Camera_source" "target (undo_command entry) = Camera_source" by (simp_all add: command_def entry_def)
    have p: "permitted (undo_command entry) (t_reply s1)"
      using healthy by (simp add: healthy_def permitted_def entry_def command_def)
    have kinded: "kinded command" by (simp add: command_def kinded_def)
    show ?thesis
      unfolding m
    proof (rule ready_mutation [OF tx s1 call kinded, unfolded t, OF k _ _ _ _ p])
      show "revision_of (t_reply s1) Camera_source = Some (expectedRevision command)" by (simp add: command_def)
      show "assign command (settings (t_reply s1)) Camera_source \<noteq> settings (t_reply s1) Camera_source"
        using False by (auto simp: assign_def command_def)
      show "restorable entry" "target (undo_command entry) = Camera_source"
        "cmd_device (undo_command entry) = cmd_device command"
        by (simp add: entry_def, rule t, simp add: entry_def)
      show "?r = y" if "revision_of (t_reply s2) Camera_source = Some y" for y using that by simp
      show "Some ?r = revision_of (t_reply s2) Camera_source" by simp
    qed
  qed
qed

lemma ApplyDevice_ready:
  assumes tx: "tx_env tx = fixture_env" and s: "ready T V K s" and device: "device \<noteq> Camera"
  defines "i \<equiv> profile_id (tx_profile tx) device"
  assumes k: "Mute_of (device = Output) i \<notin> K" "Level_of (device = Output) i \<notin> K"
  shows "ready T V (K \<union> {Mute_of (device = Output) i, Level_of (device = Output) i}) (snd (ApplyDevice tx original device s))"
proof -
  let ?m = "Mute_of (device = Output) i" and ?l = "Level_of (device = Output) i"
  note mute = AudioMutation_ready [OF tx s _ device, of SetMute i 1, simplified]
  have muted: "ready T V (insert ?m K) s'" if "s' = s \<or> s' = snd (AudioMutation tx SetMute device i 1 s)" for s'
    using that mute k ready_mono [OF s, of "insert ?m K"] by auto
  have levelled: "ready T V (K \<union> {?m, ?l}) (snd (AudioMutation tx SetLevel device i x s'))"
    if "ready T V (insert ?m K) s'" for s' x
    using AudioMutation_ready [OF tx that _ device, of SetLevel i x, simplified] k by (simp add: insert_commute)
  have w: "ready T V (K \<union> {?m, ?l}) s'" if "ready T V (insert ?m K) s'" for s'
    using that by (rule ready_mono) auto
  show ?thesis
    using ready_mono [OF s, of "K \<union> {?m, ?l}"] w [OF muted] levelled [OF muted]
    by (auto simp: ApplyDevice_def case_prod_beta Let_def i_def [symmetric] split: option.splits)
qed

lemma observed_ready:
  assumes tx: "tx_env tx = fixture_env" and s: "ready T V K s"
  shows "ready T V K (snd (Call tx BrokerCommand_init rollback s))"
proof -
  obtain hr s' where call: "Call tx BrokerCommand_init rollback s = (hr, s')" by fastforce
  note f = ready_flags [OF s]
  show ?thesis
  proof (cases "SUCCEEDED hr")
    case False
    then show ?thesis using ready_call(1) [OF tx s call] call by simp
  next
    case True
    then obtain b where b: "fx_inventory (t_world s') = (fx_inventory (t_world s))\<lparr>inv_truncated := b\<rparr>"
        "t_reply s' = fx_inventory (t_world s')"
      and o: "calm T V (t_world s')" "t_undo s' = t_undo s" "t_outcome s' = t_outcome s" "set (t_sent s) \<subseteq> set (t_sent s')"
      using Call_calm [OF tx f(2) call] by (auto simp: FixtureCommand_def BrokerCommand_init_def)
    show ?thesis unfolding call snd_conv by (rule ready_same [OF s, where b = b]) (use b o f in simp_all)
  qed
qed

lemma CheckMatch_ready:
  assumes "tx_env tx = fixture_env" "ready T V K s"
  shows "ready T V K (snd (CheckMatch tx s))"
  using observed_ready [OF assms, of False] by (simp add: CheckMatch_def case_prod_beta Let_def)

text \<open>The steps of a transaction, each with the settings it may change, which no earlier step has changed.\<close>

definition step_ready :: "u64 set \<Rightarrow> u64 list set \<Rightarrow> (fixture txn \<Rightarrow> hresult \<times> fixture txn) \<Rightarrow> setting set \<Rightarrow> bool" where
  "step_ready T V f N \<longleftrightarrow> (\<forall>K s. K \<inter> N = {} \<longrightarrow> ready T V K s \<longrightarrow> ready T V (K \<union> N) (snd (f s)))"

fun fresh_from :: "setting set \<Rightarrow> setting set list \<Rightarrow> bool" where
  "fresh_from K [] \<longleftrightarrow> True"
| "fresh_from K (N # Ns) \<longleftrightarrow> K \<inter> N = {} \<and> fresh_from (K \<union> N) Ns"

lemma until_failure_ready:
  assumes "list_all2 (step_ready T V) fs Ns" "fresh_from K Ns" "ready T V K s"
  shows "ready T V UNIV (snd (until_failure fs hr s))"
  using assms
proof (induction fs Ns arbitrary: K hr s rule: list_all2_induct)
  case Nil
  then show ?case using ready_mono by auto
next
  case (Cons f fs N Ns)
  have "ready T V (K \<union> N) (snd (f s))" using Cons.hyps(1) Cons.prems by (auto simp: step_ready_def)
  then show ?case
    using Cons.IH [of "K \<union> N" "snd (f s)"] Cons.prems ready_mono [OF Cons.prems(2), of UNIV] by (simp add: case_prod_beta)
qed

lemma ApplyAll_ready:
  assumes tx: "tx_env tx = fixture_env" and s: "ready T V {} s"
  shows "ready T V UNIV (snd (ApplyAll tx original hr s))"
proof -
  let ?p = "tx_profile tx"
  have device: "step_ready T V (ApplyDevice tx original device)
      {Mute_of (device = Output) (profile_id ?p device), Level_of (device = Output) (profile_id ?p device)}"
    if "device \<noteq> Camera" for device
    using ApplyDevice_ready [OF tx _ that] by (auto simp: step_ready_def)
  have route: "step_ready T V (RouteMutation tx device i role) {Route_of (device = Output) role}"
    if "device \<noteq> Camera" "role < 3" for device i role
    using RouteMutation_ready [OF tx _ that] by (auto simp: step_ready_def)
  have rest: "step_ready T V (CameraMutation tx) {Camera_source}" "step_ready T V (CheckSafety tx) {}"
    "step_ready T V (CheckMatch tx) {}"
    using CameraMutation_ready [OF tx] CheckSafety_ready(1) [OF tx] CheckMatch_ready [OF tx] by (auto simp: step_ready_def)
  let ?devices = "[{Mute_of True (outputId ?p), Level_of True (outputId ?p)}, {Mute_of False (microphoneId ?p), Level_of False (microphoneId ?p)}]"
  let ?routes = "concat (map (\<lambda>role. [{Route_of True role}, {Route_of False role}]) [firstRole ?p..<3])"
  show ?thesis
    unfolding ApplyAll_def
  proof (rule until_failure_ready [where K = "{}" and Ns = "?devices @ ?routes @ [{Camera_source}, {}, {}]"])
    show "list_all2 (step_ready T V)
       ([ApplyDevice tx original Output, ApplyDevice tx original Microphone]
        @ concat (map (\<lambda>role. map (\<lambda>device. RouteMutation tx device (profile_id ?p device) role) [Output, Microphone])
            [firstRole ?p..<3])
        @ [CameraMutation tx, CheckSafety tx, CheckMatch tx]) (?devices @ ?routes @ [{Camera_source}, {}, {}])"
      using device [of Output] device [of Microphone] route [of Output] route [of Microphone] rest
      by (cases "audioRoles ?p = Communications") (simp_all add: profile_id_def firstRole_def upt_rec numeral_3_eq_3)
    show "fresh_from {} (?devices @ ?routes @ [{Camera_source}, {}, {}])"
      by (cases "audioRoles ?p = Communications") (simp_all add: firstRole_def upt_rec numeral_3_eq_3)
  qed (rule s)
qed

section \<open>The rollback\<close>

lemma Remaining_rollback:
  assumes "now - tx_start tx < ucast (tx_total tx)" "tx_total tx \<le> 3000"
  shows "Remaining tx True now \<noteq> 0" "\<not> Remaining tx True now > 3000"
proof -
  let ?limit = "ucast (tx_total tx) :: u64" and ?e = "now - tx_start tx"
  have small: "unat (tx_total tx) \<le> 3000" using assms(2) by (simp add: word_le_nat_alt)
  then have limit: "unat ?limit = unat (tx_total tx)" by (simp add: unat_ucast_u64)
  have lt: "unat ?e < unat ?limit" using assms(1) by (simp add: word_less_nat_alt)
  have d: "unat (?limit - ?e) = unat ?limit - unat ?e" using assms(1) by (simp add: unat_sub order_less_imp_le)
  have "unat (ucast (?limit - ?e) :: u32) = unat (?limit - ?e)"
    using small limit d by (simp add: unat_ucast_u32)
  then have r: "unat (Remaining tx True now) = unat ?limit - unat ?e"
    using assms(1) d by (simp add: Remaining_def Let_def)
  show "Remaining tx True now \<noteq> 0" using r lt by (metis diff_is_0_eq leD unat_0)
  show "\<not> Remaining tx True now > 3000" using r small limit by (simp add: word_less_nat_alt)
qed

lemma current_revision_of:
  "permitted c I \<Longrightarrow> revision_of I (target c) = Some x \<Longrightarrow> current_revision c I = x"
  by (auto simp: permitted_def current_revision_def FindEndpoint_find endpoint_revision_def device_index_def Let_def
      split: if_splits DeviceKind.splits)

lemma target_revision: "target (c\<lparr>expectedRevision := r\<rparr>) = target c" "permitted (c\<lparr>expectedRevision := r\<rparr>) I = permitted c I"
  "cmd_device (c\<lparr>expectedRevision := r\<rparr>) = cmd_device c"
  by (simp_all add: permitted_def cong: BrokerOperation.case_cong)

lemma permitted_kinded: "permitted c I \<Longrightarrow> kinded c"
  by (auto simp: permitted_def kinded_def split: if_splits)

text \<open>In time and with no command of the user for the devices of the transaction, each entry is undone.\<close>

lemma RollbackEntry_ready:
  assumes tx: "tx_env tx = fixture_env" and s: "ready T V UNIV s" and undo: "t_undo s = entry # entries"
    and time: "\<forall>t\<in>T. t - tx_start tx < ucast (tx_total tx)" "tx_total tx \<le> 3000"
    and quiet: "\<forall>d\<in>touched s. \<forall>v\<in>V. v ! device_index d = tx_safetyBefore tx ! device_index d"
  defines "s' \<equiv> RollbackEntry tx entry (s\<lparr>t_undo := entries\<rparr>)"
  shows "ready T V UNIV s'" "t_undo s' = entries" "touched s' = touched s"
proof -
  note f = ready_flags [OF s]
  have e: "undoable entry (t_reply s)" "cmd_device (undo_command entry) \<in> touched s"
    using s undo f(3) by (simp_all add: ready_def Let_def)
  define c where "c = (undo_command entry)\<lparr>expectedRevision := ownedRevision entry\<rparr>"
  have p: "permitted (undo_command entry) (t_reply s)" and rv: "revision_of (t_reply s) (target (undo_command entry)) = Some (ownedRevision entry)"
    and o: "restorable entry" "ownedRevision entry \<noteq> 0"
    using e(1) by (simp_all add: undoable_def)
  have pc: "permitted c (t_reply s)" "revision_of (t_reply s) (target c) = Some (expectedRevision c)" "kinded c"
    using p rv permitted_kinded [of c] by (simp_all add: c_def target_revision del: target.simps)
  define s1 where "s1 = s\<lparr>t_undo := entries, t_world := snd (env_snapshot fixture_env (t_world s))\<rparr>"
  note snap = calm_reads(4-6) [OF f(2)]
  have s1: "ready T V UNIV s1" 
    using s undo snap(2,3) by (simp add: ready_def Let_def s1_def touched_def)
  have s1': "t_reply s1 = t_reply s" "t_undo s1 = entries" "touched s1 = touched s" by (simp_all add: s1_def touched_def)
  obtain hr s2 where call: "Call tx c True s1 = (hr, s2)" by fastforce
  have s'': "s' = (if FAILED hr then incomplete s2 else s2)"
  proof -
    have "fst (env_snapshot fixture_env (t_world s)) ! device_index (cmd_device (undo_command entry)) =
        tx_safetyBefore tx ! device_index (cmd_device (undo_command entry))"
      using quiet e(2) snap(1) by blast
    moreover have "current_revision (undo_command entry) (t_reply s) = ownedRevision entry"
      by (rule current_revision_of [OF p rv])
    ultimately show ?thesis
      using call o tx by (simp add: s'_def RollbackEntry_def case_prod_beta Let_def c_def s1_def)
  qed
  have ok: "SUCCEEDED hr"
  proof -
    obtain now w where tick: "env_tick fixture_env (t_world s1) = (now, w)" by fastforce
    note g = ready_flags [OF s1]
    have now: "now \<in> T" "calm T V w" "fx_inventory w = t_reply s1" using calm_reads(1-3) [OF g(2)] tick g(3) by simp_all
    have t: "now - tx_start tx < ucast (tx_total tx)" using time(1) now(1) by blast
    note r = Remaining_rollback [OF t time(2)]
    have "fst (FixtureCommand c (t_reply s)) = S_OK"
      using FixtureCommand_accepts [OF _ pc(1,2)] f(4) by (simp add: healthy_def)
    note accepted = this
    from now(2) show ?thesis
    proof (cases rule: calm_execute [where t = "Remaining tx True now" and c = c and r = "t_reply s1"])
      case bad_time
      then show ?thesis using r by simp
    next
      case (answered h J b w')
      then have "hr = h" using call tx tick r by (simp add: Call_def Let_def)
      then show ?thesis
        using answered(3) now(3) s1'(1) accepted by (simp add: SUCCEEDED_def S_OK_def)
    qed
  qed
  then have s2: "s' = s2" using s'' not_failed by metis
  note a = ready_accepted [OF tx s1 call ok pc(3)]
  have frame: "frame (t_reply s2) = frame (t_reply s)"
    and others: "\<And>k. k \<noteq> target (undo_command entry) \<Longrightarrow> revision_of (t_reply s2) k = revision_of (t_reply s) k"
    using a(1) by (simp_all add: raises_def s1'(1) c_def target_revision del: target.simps)
  have s0: "distinct (map (\<lambda>e. target (undo_command e)) (entry # entries))"
    "\<And>e. e \<in> set entries \<Longrightarrow> undoable e (t_reply s) \<and> cmd_device (undo_command e) \<in> touched s"
    using s f(3) undo by (simp_all add: ready_def Let_def del: target.simps)
  have "undoable e (t_reply s2) \<and> cmd_device (undo_command e) \<in> touched s2" if "e \<in> set entries" for e
  proof -
    have "target (undo_command e) \<noteq> target (undo_command entry)"
      using s0(1) that by (metis (no_types, lifting) distinct.simps(2) image_eqI list.simps(9) set_map)
    then show ?thesis
      using s0(2) [OF that] a(4) others permitted_frame [OF frame] unfolding s1'(3) undoable_def by auto
  qed
  then show "ready T V UNIV s'"
    using a f(1) s0(1) s1'(2) unfolding s2 ready_def Let_def by (simp add: s1_def del: target.simps)
  show "t_undo s' = entries" using a(5) s1'(2) s2 by simp
  have "touched s2 \<subseteq> insert (cmd_device c) (touched s1)"
  proof -
    have "t_sent s2 = t_sent s1 \<or> t_sent s2 = t_sent s1 @ [(True, c)]"
      using call by (auto simp: Call_def case_prod_beta Let_def split: if_splits)
    then have "set (filter (\<lambda>c. operation c \<noteq> Observe) (map snd (t_sent s2))) \<subseteq>
        insert c (set (filter (\<lambda>c. operation c \<noteq> Observe) (map snd (t_sent s1))))"
      by auto
    then show ?thesis unfolding touched_def by blast
  qed
  then show "touched s' = touched s" using s2 a(4) e(2) s1'(3) by (auto simp: c_def)
qed

lemma RollbackEntries_ready:
  assumes tx: "tx_env tx = fixture_env" and s: "ready T V UNIV s" "t_undo s = entries"
    and time: "\<forall>t\<in>T. t - tx_start tx < ucast (tx_total tx)" "tx_total tx \<le> 3000"
    and quiet: "\<forall>d\<in>touched s. \<forall>v\<in>V. v ! device_index d = tx_safetyBefore tx ! device_index d"
  shows "stateKnown (t_outcome (RollbackEntries tx entries s)) \<and> rollbackComplete (t_outcome (RollbackEntries tx entries s))"
  using s quiet
proof (induction entries arbitrary: s)
  case Nil
  then show ?case using ready_flags(1) by simp
next
  case (Cons entry entries)
  note r = RollbackEntry_ready [OF tx Cons.prems(1,2) time Cons.prems(3)]
  show ?case using Cons.IH [OF r(1,2)] Cons.prems(3) r(3) by simp
qed

lemma RollbackEntries_sent: "set (t_sent s) \<subseteq> set (t_sent (RollbackEntries tx entries s))"
proof (induction tx entries s rule: RollbackEntries.induct)
  case (2 tx entry entries s)
  have "set (t_sent s) \<subseteq> set (t_sent (RollbackEntry tx entry s))" for s
    by (auto simp: RollbackEntry_def incomplete_def Call_def case_prod_beta Let_def)
  from this [of "s\<lparr>t_undo := entries\<rparr>"] show ?case using 2 by auto
qed simp

section \<open>A profile as a whole or not at all\<close>

text \<open>
  The devices as the helper finds them when they can be put back: levels are percentages, every default is one of the listed
  endpoints and the source of the camera one of the listed cameras, and no revision is about to wrap to zero.
\<close>

definition restorable_devices :: "Inventory \<Rightarrow> bool" where
  "restorable_devices I \<longleftrightarrow>
     list_all (\<lambda>e. ep_level e \<le> 100 \<and> levelRevision e \<noteq> -1 \<and> muteRevision e \<noteq> -1) (inv_outputs I @ inv_inputs I) \<and>
     list_all (\<lambda>i. list_ex (\<lambda>e. ep_id e = i) (inv_outputs I)) (outputDefaults (inv_state I)) \<and>
     list_all (\<lambda>i. list_ex (\<lambda>e. ep_id e = i) (inv_inputs I)) (inputDefaults (inv_state I)) \<and>
     list_ex (\<lambda>d. cam_id d = sourceId (st_camera (inv_state I))) (inv_cameras I) \<and> cs_revision (st_camera (inv_state I)) \<noteq> -1 \<and>
     length (outputRoleRevisions I) = 3 \<and> length (inputRoleRevisions I) = 3 \<and>
     list_all (\<lambda>r. r \<noteq> -1) (outputRoleRevisions I @ inputRoleRevisions I)"

lemma restorable_healthy:
  assumes "well_formed I" "restorable_devices I"
  shows "healthy I" "revision_of I k \<noteq> Some (-1)"
proof -
  have e: "ep_level e \<le> 100 \<and> levelRevision e \<noteq> -1 \<and> muteRevision e \<noteq> -1" if "find_endpoint o1 i I = Some e" for o1 i e
    using assms(2) that by (auto simp: restorable_devices_def list_all_iff find_endpoint_def find_Some_iff split: if_splits)
  have present: "fst (frame I) o1 i \<noteq> None"
    if "i \<in> set (if o1 then outputDefaults (inv_state I) else inputDefaults (inv_state I))" for o1 i
    using assms(2) that
    by (auto simp: restorable_devices_def list_all_iff list_ex_iff frame_def find_endpoint_def find_None_iff split: if_splits)
  have route: "fst (frame I) o1 i \<noteq> None" if "settings I (Route_of o1 role) = Some (Identity i)" for o1 role i
    using that assms(1) by (intro present) (auto simp: well_formed_def split: if_splits)
  have level: "x \<le> 100" if "settings I (Level_of o1 i) = Some (Number x)" for o1 i x
    using that e by (auto simp: endpoint_value_def)
  have camera: "list_ex (\<lambda>d. cam_id d = i) (snd (frame I))" if "settings I Camera_source = Some (Identity i)" for i
    using that assms(2) by (simp add: restorable_devices_def frame_def)
  have "sized I" using assms by (simp add: sized_def restorable_devices_def)
  then show "healthy I" unfolding healthy_def using route level camera by blast
  show "revision_of I k \<noteq> Some (-1)"
    using e assms(2) by (cases k) (auto simp: restorable_devices_def list_all_iff Let_def split: if_splits)
qed

text \<open>
  Nothing disturbs the transaction: the helper answers every request, the clock stays within the time it was given, and
  the user publishes no command for a device to which it has sent one.
\<close>

definition undisturbed :: "u32 \<Rightarrow> fixture txn \<Rightarrow> fixture \<Rightarrow> bool" where
  "undisturbed timeout s w \<longleftrightarrow>
     list_all (\<lambda>d. d = Answered) (fx_deliveries w) \<and>
     (\<forall>t\<in>clock_readings w. t - fst (env_tick fixture_env w) < ucast timeout) \<and>
     (\<forall>d\<in>touched s. \<forall>v\<in>safety_readings w. v ! device_index d = fst (env_snapshot fixture_env w) ! device_index d)"

lemma Run_undisturbed:
  assumes tx: "tx_env tx = fixture_env" and calm: "calm T V (t_world s)"
    and fresh: "t_undo s = []" "stateKnown (t_outcome s)" "rollbackComplete (t_outcome s)"
    and devices: "well_formed (fx_inventory (t_world s))" "restorable_devices (fx_inventory (t_world s))"
    and time: "\<forall>t\<in>T. t - tx_start tx < ucast (tx_total tx)"
    and quiet: "\<forall>d\<in>touched (Run tx cancel True s). \<forall>v\<in>V. v ! device_index d = tx_safetyBefore tx ! device_index d"
  shows "stateKnown (t_outcome (Run tx cancel True s)) \<and> rollbackComplete (t_outcome (Run tx cancel True s))"
proof (cases "\<not> cancel \<or> tx_total tx < 3 \<or> tx_total tx > 3000")
  case True
  then show ?thesis using fresh by (simp add: Run_def set_result_def)
next
  case go: False
  then have total: "tx_total tx \<le> 3000" by (simp add: not_less)
  obtain hr s1 where call: "Call tx BrokerCommand_init False s = (hr, s1)" by fastforce
  note c = Call_calm [OF tx calm call]
  show ?thesis
  proof (cases "FAILED hr")
    case True
    then show ?thesis using go call c fresh by (auto simp: Run_def set_result_def)
  next
    case False
    then have ok: "SUCCEEDED hr" using not_failed by blast
    then obtain b where b: "fx_inventory (t_world s1) = (fx_inventory (t_world s))\<lparr>inv_truncated := b\<rparr>"
        "t_reply s1 = fx_inventory (t_world s1)"
      using c by (auto simp: FixtureCommand_def BrokerCommand_init_def)
    have "healthy (fx_inventory (t_world s1))" "\<And>k. revision_of (fx_inventory (t_world s1)) k \<noteq> Some (-1)"
      using restorable_healthy [OF devices]
      by (simp_all add: b(1) healthy_def truncated_frame truncated_same del: settings.simps)
    then have s1: "ready T V {} s1" using b c fresh by (simp add: ready_def Let_def)
    obtain hr2 s2 where all: "ApplyAll tx (t_reply s1) hr s1 = (hr2, s2)" by fastforce
    have s2: "ready T V UNIV (set_result hr2 s2)"
      using ApplyAll_ready [OF tx s1, of "t_reply s1" hr] all by (simp add: ready_def Let_def set_result_def touched_def)
    have run: "Run tx cancel True s = (case original_error (tx_profile tx) (t_reply s1) of
          Some e \<Rightarrow> set_result e s1
        | None \<Rightarrow> if SUCCEEDED hr2
            then (set_result hr2 s2)\<lparr>t_outcome := (t_outcome (set_result hr2 s2))\<lparr>applied := True\<rparr>\<rparr>
            else Rollback tx (set_result hr2 s2))"
      using go False call all by (simp add: Run_def Let_def cong: option.case_cong)
    show ?thesis
    proof (cases "original_error (tx_profile tx) (t_reply s1) = None \<and> \<not> SUCCEEDED hr2")
      case False
      then show ?thesis using run ready_flags(1) [OF s1] ready_flags(1) [OF s2]
        by (auto simp: set_result_def split: option.splits)
    next
      case True
      then have r: "Run tx cancel True s = RollbackEntries tx (t_undo (set_result hr2 s2)) (set_result hr2 s2)"
        using run by (simp add: Rollback_def)
      have "touched (set_result hr2 s2) \<subseteq> touched (Run tx cancel True s)"
        unfolding r by (rule touched_mono [OF RollbackEntries_sent])
      then have "\<forall>d\<in>touched (set_result hr2 s2). \<forall>v\<in>V. v ! device_index d = tx_safetyBefore tx ! device_index d"
        using quiet by blast
      from RollbackEntries_ready [OF tx s2 refl time total this] show ?thesis unfolding r .
    qed
  qed
qed

lemma profile_undisturbed:
  fixes p :: Profile and reply :: Inventory and cancel :: bool and timeout :: u32
  assumes w: "fixture_ok w" "restorable_devices (fx_inventory w)"
  defines "s \<equiv> ApplyProfile fixture_env p reply cancel True timeout w"
  assumes u: "undisturbed timeout s w"
  shows "stateKnown (t_outcome s) \<and> rollbackComplete (t_outcome s)"
proof -
  let ?T = "clock_readings w" and ?V = "safety_readings w"
  obtain start w1 where tick: "env_tick fixture_env w = (start, w1)" by fastforce
  obtain before w2 where snap: "env_snapshot fixture_env w1 = (before, w2)" by fastforce
  define tx where "tx = \<lparr>tx_env = fixture_env, tx_profile = p, tx_total = timeout, tx_start = start, tx_safetyBefore = before\<rparr>"
  define s0 where "s0 = \<lparr>t_world = w2, t_reply = reply, t_outcome = ApplyOutcome_init, t_undo = [], t_sent = []\<rparr>"
  have s: "s = Run tx cancel True s0" using tick snap by (simp add: s_def ApplyProfile_def tx_def s0_def)
  have "calm ?T ?V w" using u by (simp add: undisturbed_def calm_def)
  note c = calm_reads [OF this]
  have w1: "calm ?T ?V w1" "fx_inventory w1 = fx_inventory w" using c tick by simp_all
  have w2: "calm ?T ?V w2" "fx_inventory w2 = fx_inventory w" using calm_reads(5,6) [OF w1(1)] snap w1(2) by simp_all
  have before: "before = fst (env_snapshot fixture_env w)"
  proof -
    have "fx_safety w1 = fx_safety w" using tick by (auto simp: fixture_env_def split: list.splits)
    then show ?thesis using snap by (auto simp: fixture_env_def split: list.splits)
  qed
  have safety: "tx_safetyBefore tx = fst (env_snapshot fixture_env w)" by (simp add: tx_def before)
  show ?thesis
    unfolding s
  proof (rule Run_undisturbed [where T = ?T and V = ?V])
    show "\<forall>d\<in>touched (Run tx cancel True s0). \<forall>v\<in>?V. v ! device_index d = tx_safetyBefore tx ! device_index d"
      using u unfolding undisturbed_def s safety by blast
    show "\<forall>t\<in>?T. t - tx_start tx < ucast (tx_total tx)" using u tick by (simp add: undisturbed_def tx_def)
    show "well_formed (fx_inventory (t_world s0))" "restorable_devices (fx_inventory (t_world s0))"
      using w w2 by (simp_all add: s0_def fixture_ok_def)
  qed (use w2 in \<open>simp_all add: tx_def s0_def ApplyOutcome_init_def\<close>)
qed

text \<open>C20: a profile is applied as a whole, or its rollback puts every setting back as far as the helper and the user let it. When the
  transaction reports that it was applied, the settings of the devices are the ones the profile asks for, computed from
  the ones before it. When it does not, and reports neither an unknown state nor an incomplete rollback, every setting is
  what it was, whatever step failed and however. And it gives such a report only for a reason: a transaction in which the helper answers
  every request, the clock stays within the time given and the user publishes no command for a device to which the transaction has sent one,
  on devices that can be put back and with the memory for its copy of the inventory, reports a known state and a complete rollback.\<close>

theorem profile_all_or_nothing:
  fixes p :: Profile and reply :: Inventory and cancel allocated :: bool and timeout :: u32
  assumes "fixture_ok w"
  defines "s \<equiv> ApplyProfile fixture_env p reply cancel allocated timeout w"
  shows "(if applied (t_outcome s)
          then settings (fx_inventory (t_world s)) = profile_settings p (settings (fx_inventory w))
          else \<not> stateKnown (t_outcome s) \<or> \<not> rollbackComplete (t_outcome s) \<or>
               settings (fx_inventory (t_world s)) = settings (fx_inventory w)) \<and>
         (allocated \<and> restorable_devices (fx_inventory w) \<and> undisturbed timeout s w \<longrightarrow>
            stateKnown (t_outcome s) \<and> rollbackComplete (t_outcome s))"
  using fx.profile_atomic [OF assms(1), of p reply cancel allocated timeout] profile_undisturbed [OF assms(1), of timeout p reply cancel]
  by (auto simp: s_def)

text \<open>The witness: a profile that is applied, and one that a command for the camera supersedes after three mutations.\<close>

lemma meeting_undisturbed:
  "(let s = ApplyProfile fixture_env meeting InitializeFixture True True 3000 camera_intent in
     \<not> applied (t_outcome s) \<and> superseded (t_outcome s) \<and> mutations (t_outcome s) = 3 \<and> length (t_sent s) = 7 \<and>
     undisturbed 3000 s camera_intent)"
  "restorable_devices InitializeFixture"
  by code_simp+

theorem profile_all_or_nothing_witness:
  "settings (fx_inventory (t_world (ApplyProfile fixture_env meeting InitializeFixture True True 3000 (fixture_start [])))) =
     profile_settings meeting (settings InitializeFixture) \<and>
   settings (fx_inventory (t_world (ApplyProfile fixture_env meeting InitializeFixture True True 3000 camera_intent))) =
     settings InitializeFixture"
proof
  have ok: "fixture_ok camera_intent" "fx_inventory camera_intent = InitializeFixture"
    using fixture_start_ok [of "[]"] by (simp_all add: fixture_ok_def camera_intent_def fixture_start_def)
  show "settings (fx_inventory (t_world (ApplyProfile fixture_env meeting InitializeFixture True True 3000 (fixture_start [])))) =
     profile_settings meeting (settings InitializeFixture)"
    using profile_all_or_nothing [OF fixture_start_ok, of meeting InitializeFixture True True 3000 "[]"] meeting_applies
    by (simp add: Let_def fixture_start_def)
  show "settings (fx_inventory (t_world (ApplyProfile fixture_env meeting InitializeFixture True True 3000 camera_intent))) =
     settings InitializeFixture"
    using profile_all_or_nothing [OF ok(1), of meeting InitializeFixture True True 3000] meeting_undisturbed
    by (simp add: ok(2) Let_def)
qed

end
