(* ===== verification/Inventory_Selection.thy ===== *)
theory Inventory_Selection
  imports Profile_Transaction
begin

text \<open>
  \<open>Plugins/AVControl/InventorySelection.h\<close>: which devices of an enumeration a bounded inventory admits. The saved bindings
  of all loaded widgets (\<open>InventoryPreferences\<close>) and the defaults give a device its rank, and one pass over the enumeration
  keeps the best. An array with its count is a list; a template's capacity is an argument.
\<close>

section \<open>Preferences\<close>

definition UnreferencedDevice :: u32 where "UnreferencedDevice = 0xFFFFFFFF"

definition MaximumOutputs :: nat where "MaximumOutputs = 32"
definition MaximumInputs :: nat where "MaximumInputs = 32"
definition MaximumCameras :: nat where "MaximumCameras = 16"

definition place_of :: "device_id \<Rightarrow> device_id list \<Rightarrow> nat option" where
  "place_of i ids = find (\<lambda>n. ids ! n = i) [0..<length ids]"

definition Rank :: "device_id list \<Rightarrow> device_id \<Rightarrow> u32" where
  "Rank ids i = (case place_of i ids of Some n \<Rightarrow> of_nat n | None \<Rightarrow> UnreferencedDevice)"

definition AddPreference :: "nat \<Rightarrow> device_id \<Rightarrow> device_id list \<Rightarrow> bool \<times> device_id list" where
  "AddPreference capacity i ids =
     (if i = [] \<or> Rank ids i \<noteq> UnreferencedDevice then (True, ids)
      else if length ids = capacity then (False, ids)
      else (True, ids @ [i]))"

record InventoryPreferences =
  pref_outputs :: "device_id list"
  pref_inputs :: "device_id list"
  pref_cameras :: "device_id list"
  pref_truncated :: u32

definition InventoryPreferences_init :: InventoryPreferences where
  "InventoryPreferences_init = \<lparr>pref_outputs = [], pref_inputs = [], pref_cameras = [], pref_truncated = 0\<rparr>"

definition AddProfile :: "Profile \<Rightarrow> InventoryPreferences \<Rightarrow> InventoryPreferences" where
  "AddProfile p prefs =
     (let (output, outputs) = AddPreference MaximumOutputs (outputId p) (pref_outputs prefs);
          (input, inputs) = AddPreference MaximumInputs (microphoneId p) (pref_inputs prefs);
          (camera, cameras) = AddPreference MaximumCameras (cameraId p) (pref_cameras prefs);
          prefs = prefs\<lparr>pref_outputs := outputs, pref_inputs := inputs, pref_cameras := cameras\<rparr>
      in if \<not> output \<or> \<not> input \<or> \<not> camera then prefs\<lparr>pref_truncated := 1\<rparr> else prefs)"

definition InventoryRank :: "device_id \<Rightarrow> device_id list \<Rightarrow> device_id list \<Rightarrow> u32" where
  "InventoryRank i defaults references =
     (case place_of i defaults of
        Some n \<Rightarrow> of_nat n
      | None \<Rightarrow>
          (let reference = Rank references i
           in if reference = UnreferencedDevice then reference else of_nat (length defaults) + reference))"

section \<open>Bounded admission\<close>

text \<open>\<open>identity\<close> reads the id of a row.\<close>

record 'd RankedInventory =
  ranked_rows :: "'d list"
  ranked_ranks :: "u32 list"
  ranked_truncated :: bool

definition RankedInventory_init :: "'d RankedInventory" where
  "RankedInventory_init = \<lparr>ranked_rows = [], ranked_ranks = [], ranked_truncated = False\<rparr>"

definition worst_row :: "u32 list \<Rightarrow> nat" where
  "worst_row ranks = fold (\<lambda>i worst. if ranks ! i \<ge> ranks ! worst then i else worst) [1..<length ranks] 0"

definition Offer :: "('d \<Rightarrow> device_id) \<Rightarrow> nat \<Rightarrow> 'd \<Rightarrow> u32 \<Rightarrow> 'd RankedInventory \<Rightarrow> 'd RankedInventory" where
  "Offer identity capacity row rank kept =
     (if list_ex (\<lambda>r. identity r = identity row) (ranked_rows kept) then kept
      else if length (ranked_rows kept) < capacity then
        kept\<lparr>ranked_rows := ranked_rows kept @ [row], ranked_ranks := ranked_ranks kept @ [rank]\<rparr>
      else
        (let kept = kept\<lparr>ranked_truncated := True\<rparr>; worst = worst_row (ranked_ranks kept)
         in if rank < ranked_ranks kept ! worst then
              kept\<lparr>ranked_rows := (ranked_rows kept)[worst := row], ranked_ranks := (ranked_ranks kept)[worst := rank]\<rparr>
            else kept))"

section \<open>What is admitted\<close>

lemma worst_row_fold:
  "w < length ranks \<Longrightarrow> set xs \<subseteq> {..<length ranks} \<Longrightarrow>
   (let r = fold (\<lambda>i worst. if ranks ! i \<ge> ranks ! worst then i else worst) xs w
    in r < length ranks \<and> ranks ! w \<le> ranks ! r \<and> (\<forall>i \<in> set xs. ranks ! i \<le> ranks ! r))"
  for ranks :: "u32 list"
proof (induction xs arbitrary: w)
  case (Cons x xs)
  show ?case
    using Cons.IH [of "if ranks ! x \<ge> ranks ! w then x else w"] Cons.prems
    by (auto simp: Let_def split: if_splits)
qed simp

lemma worst_row:
  assumes "ranks \<noteq> []"
  shows "worst_row ranks < length ranks" "i < length ranks \<Longrightarrow> ranks ! i \<le> ranks ! worst_row ranks"
proof -
  have f: "worst_row ranks < length ranks \<and> ranks ! 0 \<le> ranks ! worst_row ranks \<and>
      (\<forall>i \<in> set [1..<length ranks]. ranks ! i \<le> ranks ! worst_row ranks)"
  proof -
    have "set [1..<length ranks] \<subseteq> {..<length ranks}" by auto
    moreover have "0 < length ranks" using assms by simp
    ultimately show ?thesis using worst_row_fold [of 0 ranks "[1..<length ranks]"] unfolding worst_row_def Let_def by blast
  qed
  then show "worst_row ranks < length ranks" by simp
  show "ranks ! i \<le> ranks ! worst_row ranks" if "i < length ranks" using f that by (cases i) auto
qed

text \<open>
  The invariant of a pass in which a device's rank is \<open>rank\<close> of its id, after the ids in \<open>seen\<close> were offered: full before
  anything is left out, and what is left out is no better than what is kept.
\<close>

definition admitted :: "('d \<Rightarrow> device_id) \<Rightarrow> nat \<Rightarrow> (device_id \<Rightarrow> u32) \<Rightarrow> device_id set \<Rightarrow> 'd RankedInventory \<Rightarrow> bool" where
  "admitted identity capacity rank seen kept \<longleftrightarrow>
     distinct (map identity (ranked_rows kept)) \<and> length (ranked_rows kept) \<le> capacity \<and>
     ranked_ranks kept = map (\<lambda>r. rank (identity r)) (ranked_rows kept) \<and>
     identity ` set (ranked_rows kept) \<subseteq> seen \<and>
     (\<forall>i \<in> seen - identity ` set (ranked_rows kept).
        length (ranked_rows kept) = capacity \<and> (\<forall>r \<in> set (ranked_rows kept). rank (identity r) \<le> rank i)) \<and>
     (ranked_truncated kept \<longleftrightarrow> seen \<noteq> identity ` set (ranked_rows kept))"

lemma not_listed: "i \<notin> identity ` set rows \<Longrightarrow> \<not> list_ex (\<lambda>r. identity r = i) rows"
  by (auto simp: list_ex_iff image_iff)

lemma admitted_init: "admitted identity capacity rank {} RankedInventory_init"
  by (simp add: admitted_def RankedInventory_init_def)

lemma Offer_admitted:
  assumes "admitted identity capacity rank seen kept" "0 < capacity"
  shows "admitted identity capacity rank (insert (identity row) seen) (Offer identity capacity row (rank (identity row)) kept)"
proof -
  let ?rows = "ranked_rows kept" and ?i = "identity row"
  note a = assms(1) [unfolded admitted_def]
  consider "?i \<in> identity ` set ?rows" | "?i \<notin> identity ` set ?rows" "length ?rows < capacity"
    | "?i \<notin> identity ` set ?rows" "length ?rows = capacity"
    using a by fastforce
  then show ?thesis
  proof cases
    case 1
    then have "Offer identity capacity row (rank ?i) kept = kept" by (auto simp: Offer_def list_ex_iff)
    moreover have "insert ?i seen = seen" using 1 a by auto
    ultimately show ?thesis using assms(1) by simp
  next
    case 2
    then have "\<not> list_ex (\<lambda>r. identity r = ?i) ?rows" by (simp add: not_listed)
    then show ?thesis using a 2 by (auto simp: admitted_def Offer_def)
  next
    case 3
    let ?w = "worst_row (ranked_ranks kept)"
    have ne: "ranked_ranks kept \<noteq> []" using a 3(2) assms(2) by auto
    have w: "?w < length ?rows" using worst_row(1) [OF ne] a by simp
    have rr: "ranked_ranks kept = map (\<lambda>r. rank (identity r)) ?rows" using a by simp
    have nth: "ranked_ranks kept ! j = rank (identity (?rows ! j))" if "j < length ?rows" for j
      using that unfolding rr by simp
    have len: "length (ranked_ranks kept) = length ?rows" unfolding rr by simp
    have top: "rank (identity r) \<le> rank (identity (?rows ! ?w))" if "r \<in> set ?rows" for r
    proof -
      obtain j where j: "j < length ?rows" "r = ?rows ! j" using \<open>r \<in> set ?rows\<close> by (auto simp: in_set_conv_nth)
      show ?thesis using worst_row(2) [OF ne, of j] j len unfolding nth [OF j(1)] nth [OF w] by simp
    qed
    have new: "\<not> list_ex (\<lambda>r. identity r = ?i) ?rows" using 3(1) by (rule not_listed)
    note wrank = nth [OF w]
    show ?thesis
    proof (cases "rank ?i < rank (identity (?rows ! ?w))")
      case False
      then have "Offer identity capacity row (rank ?i) kept = kept\<lparr>ranked_truncated := True\<rparr>"
        using new 3(2) wrank by (simp add: Offer_def Let_def)
      moreover have "rank (identity r) \<le> rank ?i" if "r \<in> set ?rows" for r using top [OF that] False by simp
      ultimately show ?thesis using a 3 by (auto simp: admitted_def)
    next
      case True
      let ?new = "?rows[?w := row]"
      have o: "Offer identity capacity row (rank ?i) kept =
          kept\<lparr>ranked_rows := ?new, ranked_ranks := (ranked_ranks kept)[?w := rank ?i], ranked_truncated := True\<rparr>"
        using new 3(2) wrank True by (simp add: Offer_def Let_def)
      let ?old = "identity (?rows ! ?w)"
      have d: "distinct (map identity ?new)"
        using a 3(1) w by (simp add: map_update distinct_list_update)
      have ids: "identity ` set ?new = insert ?i (identity ` set ?rows - {?old})"
      proof -
        have "set (map identity ?new) = insert ?i (set (map identity ?rows) - {map identity ?rows ! ?w})"
          using a w by (simp add: map_update set_update_distinct del: set_map)
        then show ?thesis using w by simp
      qed
      have new_rows: "rank (identity r) \<le> rank ?old" if "r \<in> set ?new" for r
        using that top True set_update_subset_insert [of ?rows ?w row] by fastforce
      have left: "\<forall>r \<in> set ?new. rank (identity r) \<le> rank i" if "i \<in> insert ?i seen - identity ` set ?new" for i
      proof (cases "i = ?old")
        case True
        then show ?thesis using new_rows by simp
      next
        case False
        then have "i \<in> seen - identity ` set ?rows" using that ids by auto
        then have "rank ?old \<le> rank i" using a w by (meson DiffD1 nth_mem)
        then show ?thesis using new_rows order_trans by blast
      qed
      have "?old \<in> seen" using a w by (meson imageI nth_mem subsetD)
      moreover have "?old \<noteq> ?i" using True by auto
      ultimately have "insert ?i seen \<noteq> identity ` set ?new" using ids by blast
      moreover have "identity ` set ?new \<subseteq> insert ?i seen" using ids a by auto
      moreover have "(ranked_ranks kept)[?w := rank ?i] = map (\<lambda>r. rank (identity r)) ?new" using a by (simp add: map_update)
      ultimately show ?thesis using a d left 3(2) by (simp add: admitted_def o)
    qed
  qed
qed

lemma offers_admitted:
  "admitted identity capacity rank seen kept \<Longrightarrow> 0 < capacity \<Longrightarrow>
   admitted identity capacity rank (seen \<union> identity ` set rows)
     (fold (\<lambda>row. Offer identity capacity row (rank (identity row))) rows kept)"
proof (induction rows arbitrary: seen kept)
  case (Cons row rows)
  have "insert (identity row) seen \<union> identity ` set rows = seen \<union> identity ` set (row # rows)" by auto
  then show ?case using Cons.IH [OF Offer_admitted [OF Cons.prems] Cons.prems(2), of row] by simp
qed simp

definition admit_all :: "('d \<Rightarrow> device_id) \<Rightarrow> nat \<Rightarrow> (device_id \<Rightarrow> u32) \<Rightarrow> 'd list \<Rightarrow> 'd RankedInventory" where
  "admit_all identity capacity rank rows = fold (\<lambda>row. Offer identity capacity row (rank (identity row))) rows RankedInventory_init"

lemma admit_all_admitted:
  "0 < capacity \<Longrightarrow> admitted identity capacity rank (identity ` set rows) (admit_all identity capacity rank rows)"
  unfolding admit_all_def using offers_admitted [OF admitted_init, where rows = rows] by fastforce

text \<open>C22: An inventory keeps the best devices: after one pass over an enumeration, in whatever order, it holds every device
  once if they fit and exactly its capacity otherwise, every device left out ranks no better than every device kept, and the
  inventory says it is truncated exactly when there were more devices than it can hold.\<close>

theorem inventory_keeps_best:
  assumes "0 < capacity" "kept = admit_all identity capacity rank rows"
  shows "distinct (map identity (ranked_rows kept)) \<and>
    length (ranked_rows kept) = min capacity (card (identity ` set rows)) \<and>
    (\<forall>row \<in> set rows. identity row \<in> identity ` set (ranked_rows kept) \<or>
       (\<forall>r \<in> set (ranked_rows kept). rank (identity r) \<le> rank (identity row))) \<and>
    (ranked_truncated kept \<longleftrightarrow> capacity < card (identity ` set rows))"
proof -
  have a: "admitted identity capacity rank (identity ` set rows) kept"
    using admit_all_admitted assms by simp
  let ?ids = "identity ` set (ranked_rows kept)" and ?seen = "identity ` set rows"
  have card: "card ?ids = length (ranked_rows kept)"
    using a distinct_card [of "map identity (ranked_rows kept)"] by (simp add: admitted_def)
  have sub: "?ids \<subseteq> ?seen" and full: "?seen \<noteq> ?ids \<Longrightarrow> length (ranked_rows kept) = capacity"
    using a by (auto simp: admitted_def)
  have le: "card ?ids \<le> card ?seen" using sub by (simp add: card_mono)
  have less: "card ?ids < card ?seen" if "?seen \<noteq> ?ids" using sub that by (intro psubset_card_mono) auto
  have len: "length (ranked_rows kept) \<le> capacity" and trunc: "ranked_truncated kept \<longleftrightarrow> ?seen \<noteq> ?ids"
    using a by (auto simp: admitted_def)
  have "length (ranked_rows kept) = min capacity (card ?seen) \<and> (ranked_truncated kept \<longleftrightarrow> capacity < card ?seen)"
    using card le len less full trunc by (cases "?seen = ?ids") auto
  then show ?thesis using a by (auto simp: admitted_def)
qed

theorem inventory_keeps_best_witness:
  "let kept = admit_all id 2 (\<lambda>i. if i = ''mic'' then 0 else 7) [''a'', ''b'', ''mic'']
   in ''mic'' \<in> set (ranked_rows kept) \<and> length (ranked_rows kept) = 2 \<and> ranked_truncated kept"
proof -
  let ?rank = "\<lambda>i. if i = ''mic'' then 0 else 7 :: u32"
  let ?rows = "[''a'', ''b'', ''mic'']"
  have "card (id ` set ?rows) = 3" by simp
  then have best: "length (ranked_rows (admit_all id 2 ?rank ?rows)) = 2" "ranked_truncated (admit_all id 2 ?rank ?rows)"
    using inventory_keeps_best [OF _ refl, of 2 id ?rank ?rows] by simp_all
  have "''mic'' \<in> set (ranked_rows (admit_all id 2 ?rank ?rows))" by code_simp
  then show ?thesis using best by simp
qed

text \<open>Devices of equal rank do not keep the order of the enumeration: the later one stays.\<close>

lemma equal_ranks_lose_order:
  "ranked_rows (admit_all id 2 (\<lambda>i. if i = ''a'' then 9 else if i = ''d'' then 6 else 7) [''a'', ''b'', ''c'', ''d'']) = [''c'', ''d'']"
  by code_simp

section \<open>What a rank guarantees\<close>

lemma place_of_Some: "place_of i ids = Some n \<Longrightarrow> n < length ids \<and> ids ! n = i"
  by (auto simp: place_of_def find_Some_iff)

lemma place_of_None: "place_of i ids = None \<longleftrightarrow> i \<notin> set ids"
  by (auto simp: place_of_def find_None_iff in_set_conv_nth)

lemma unat_place: "n < 0xFFFFFFFF \<Longrightarrow> unat (of_nat n :: u32) = n \<and> (of_nat n :: u32) \<noteq> UnreferencedDevice"
  by (auto simp: UnreferencedDevice_def unat_of_nat word_unat_eq_iff)

text \<open>The rank of a saved or default device is its place among the defaults and then the saved ones.\<close>

lemma InventoryRank_place:
  assumes "InventoryRank i defaults references \<noteq> UnreferencedDevice" "length defaults + length references < 0xFFFFFFFF"
  shows "unat (InventoryRank i defaults references) < length defaults + length references \<and>
    (defaults @ references) ! unat (InventoryRank i defaults references) = i"
proof (cases "place_of i defaults")
  case (Some n)
  then show ?thesis
    using place_of_Some [OF Some] unat_place [of n] assms(2) by (auto simp: InventoryRank_def nth_append)
next
  case None
  then obtain n where n: "place_of i references = Some n"
    using assms(1) by (auto simp: InventoryRank_def Rank_def Let_def split: option.splits)
  then have p: "n < length references" "references ! n = i" using place_of_Some by auto
  have "InventoryRank i defaults references = of_nat (length defaults + n)"
    using None n unat_place [of n] p(1) assms(2) by (simp add: InventoryRank_def Rank_def Let_def)
  then show ?thesis using unat_place [of "length defaults + n"] p assms(2) by (simp add: nth_append)
qed

text \<open>A device of a high enough rank is never left out: a default or saved device whose place among the defaults and
  then the saved devices is below the capacity is in the inventory whenever the enumeration offers it, however many other
  devices there are and wherever it comes.\<close>

theorem saved_device_is_listed:
  assumes "row \<in> set rows" "length defaults + length references < 0xFFFFFFFF"
    "unat (InventoryRank (identity row) defaults references) < capacity" "capacity < 0xFFFFFFFF"
  shows "identity row \<in>
    identity ` set (ranked_rows (admit_all identity capacity (\<lambda>i. InventoryRank i defaults references) rows))"
proof (rule ccontr)
  let ?rank = "\<lambda>i. InventoryRank i defaults references" and ?i = "identity row"
  let ?kept = "ranked_rows (admit_all identity capacity (\<lambda>i. InventoryRank i defaults references) rows)"
  assume out: "?i \<notin> identity ` set ?kept"
  have "admitted identity capacity ?rank (identity ` set rows) (admit_all identity capacity ?rank rows)"
    using assms(3) by (intro admit_all_admitted) simp
  then have d: "distinct (map identity ?kept)" and left: "?i \<in> identity ` set rows - identity ` set ?kept \<Longrightarrow>
      length ?kept = capacity \<and> (\<forall>r \<in> set ?kept. ?rank (identity r) \<le> ?rank ?i)"
    unfolding admitted_def by simp_all
  have "?i \<in> identity ` set rows - identity ` set ?kept" using out assms(1) by simp
  note a = d left [OF this, THEN conjunct1] left [OF this, THEN conjunct2]
  let ?ids = "insert ?i (identity ` set ?kept)" and ?place = "\<lambda>i. unat (?rank i)"
  have bound: "?place j \<le> ?place ?i" if "j \<in> ?ids" for j using that a(3) by (auto simp: word_le_nat_alt)
  have "(defaults @ references) ! ?place j = j" if "j \<in> ?ids" for j
  proof -
    have "?rank j \<noteq> UnreferencedDevice"
      using bound [OF that] assms(3,4) by (auto simp: UnreferencedDevice_def)
    then show ?thesis using InventoryRank_place assms(2) by blast
  qed
  then have "inj_on ?place ?ids" by (rule inj_on_inverseI)
  then have "card ?ids \<le> card {..?place ?i}" using bound by (intro card_inj_on_le [of ?place]) auto
  moreover have "card (identity ` set ?kept) = capacity" using distinct_card [OF a(1)] a(2) by simp
  then have "card ?ids = Suc capacity" using out by simp
  ultimately show False using assms(3) by simp
qed

theorem saved_device_is_listed_witness:
  "''usb'' \<in> id ` set (ranked_rows (admit_all id 2 (\<lambda>i. InventoryRank i [''default''] [''usb'']) [''a'', ''b'', ''usb'', ''c'']))"
  using saved_device_is_listed [of "''usb''" "[''a'', ''b'', ''usb'', ''c'']" "[''default'']" "[''usb'']" id 2]
  by (simp add: InventoryRank_def Rank_def place_of_def UnreferencedDevice_def)

end
