(* ===== verification/AV_Utf8.thy ===== *)
theory AV_Utf8
  imports Inventory_Selection
begin

unbundle bit_operations_syntax

text \<open>
  The configuration of an AV widget (\<open>Plugins/AVControl/AVControlModel.cpp\<close>): the checks of texts and profiles, reading and
  writing the profiles through yyjson, and the level gesture of the widget.
\<close>

section \<open>Texts\<close>

definition byte :: "char \<Rightarrow> u32" where
  "byte c = of_nat (of_char c)"

text \<open>What the first byte of a scalar says: the number of trailing bytes, its own bits, and the least scalar of that length.\<close>

definition utf8_lead :: "u32 \<Rightarrow> (nat \<times> u32 \<times> u32) option" where
  "utf8_lead first =
     (if first \<ge> 0xC2 \<and> first \<le> 0xDF then Some (1, first AND 0x1F, 0x80)
      else if first \<ge> 0xE0 \<and> first \<le> 0xEF then Some (2, first AND 0x0F, 0x800)
      else if first \<ge> 0xF0 \<and> first \<le> 0xF4 then Some (3, first AND 0x07, 0x10000)
      else if first \<ge> 0x80 then None
      else Some (0, first, 0))"

fun utf8_trail :: "nat \<Rightarrow> u32 \<Rightarrow> string \<Rightarrow> (u32 \<times> string) option" where
  "utf8_trail 0 scalar rest = Some (scalar, rest)"
| "utf8_trail (Suc n) scalar [] = None"
| "utf8_trail (Suc n) scalar (c # rest) =
     (if byte c AND 0xC0 \<noteq> 0x80 then None else utf8_trail n (push_bit 6 scalar OR (byte c AND 0x3F)) rest)"

definition utf8_scalar :: "string \<Rightarrow> (u32 \<times> string) option" where
  "utf8_scalar s =
     (case s of
        [] \<Rightarrow> None
      | c # rest \<Rightarrow>
          (case utf8_lead (byte c) of
             None \<Rightarrow> None
           | Some (trailing, scalar, minimum) \<Rightarrow>
               if trailing > length rest then None
               else (case utf8_trail trailing scalar rest of
                       None \<Rightarrow> None
                     | Some (scalar, rest) \<Rightarrow>
                         if scalar < minimum \<or> scalar > 0x10FFFF \<or> (scalar \<ge> 0xD800 \<and> scalar \<le> 0xDFFF) \<or> scalar = 0
                         then None else Some (scalar, rest))))"

lemma utf8_trail_length: "utf8_trail n scalar s = Some (r, rest) \<Longrightarrow> length s = length rest + n"
  by (induction n scalar s rule: utf8_trail.induct) (auto split: if_splits)

lemma utf8_scalar_length: "utf8_scalar s = Some (scalar, rest) \<Longrightarrow> length rest < length s"
  by (auto simp: utf8_scalar_def split: list.splits option.splits if_splits dest!: utf8_trail_length)

function utf8_loop :: "nat \<Rightarrow> bool \<Rightarrow> nat \<Rightarrow> string \<Rightarrow> bool" where
  "utf8_loop maximumScalars rejectControls scalars s =
     (if s = [] then scalars \<noteq> 0
      else (case utf8_scalar s of
              None \<Rightarrow> False
            | Some (scalar, rest) \<Rightarrow>
                if rejectControls \<and> (scalar < 0x20 \<or> (scalar \<ge> 0x7F \<and> scalar \<le> 0x9F)) then False
                else if scalars + 1 > maximumScalars then False
                else utf8_loop maximumScalars rejectControls (scalars + 1) rest))"
  by pat_completeness auto
termination
  by (relation "measure (\<lambda>(_, _, _, s). length s)") (auto dest: utf8_scalar_length)

declare utf8_loop.simps [simp del]

definition ValidUtf8 :: "string \<Rightarrow> nat \<Rightarrow> bool \<Rightarrow> bool" where
  "ValidUtf8 s maximumScalars rejectControls = utf8_loop maximumScalars rejectControls 0 s"

section \<open>What is UTF-8\<close>

definition scalar_value :: "nat \<Rightarrow> bool" where
  "scalar_value n \<longleftrightarrow> 0 < n \<and> n \<le> 0x10FFFF \<and> \<not> (0xD800 \<le> n \<and> n \<le> 0xDFFF)"

definition control_scalar :: "nat \<Rightarrow> bool" where
  "control_scalar n \<longleftrightarrow> n < 0x20 \<or> (0x7F \<le> n \<and> n \<le> 0x9F)"

definition utf8_encode :: "nat \<Rightarrow> string" where
  "utf8_encode n =
     (if n < 0x80 then [char_of n]
      else if n < 0x800 then [char_of (0xC0 + n div 64), char_of (0x80 + n mod 64)]
      else if n < 0x10000 then [char_of (0xE0 + n div 4096), char_of (0x80 + n div 64 mod 64), char_of (0x80 + n mod 64)]
      else [char_of (0xF0 + n div 262144), char_of (0x80 + n div 4096 mod 64), char_of (0x80 + n div 64 mod 64),
            char_of (0x80 + n mod 64)])"

lemma unat_low_bits:
  "unat (w AND 0x3F) = unat w mod 64" "unat (w AND 0x1F) = unat w mod 32" "unat (w AND 0x0F) = unat w mod 16"
  "unat (w AND 0x07) = unat w mod 8" for w :: u32
proof -
  have m: "(0x3F :: u32) = mask 6" "(0x1F :: u32) = mask 5" "(0x0F :: u32) = mask 4" "(0x07 :: u32) = mask 3"
    by (simp_all add: mask_eq_exp_minus_1)
  show "unat (w AND 0x3F) = unat w mod 64" "unat (w AND 0x1F) = unat w mod 32" "unat (w AND 0x0F) = unat w mod 16"
    "unat (w AND 0x07) = unat w mod 8"
    unfolding m take_bit_eq_mask [symmetric] unsigned_take_bit_eq by (simp_all add: take_bit_eq_mod)
qed

lemma unat_byte: "unat (byte c) = of_char c" "of_char c < (256 :: nat)"
proof -
  show l: "of_char c < (256 :: nat)" by simp
  have "unat (of_nat (of_char c) :: u32) = of_char c mod 2 ^ 32" by (simp add: unat_of_nat)
  then show "unat (byte c) = of_char c" using l by (simp add: byte_def)
qed

lemma trailing_byte: "byte c AND 0xC0 = 0x80 \<longleftrightarrow> of_char c div 64 = (2 :: nat)"
proof -
  have c0: "(0xC0 :: u32) = push_bit 6 (mask 2)" "(0x80 :: u32) = push_bit 6 2" by (simp_all add: mask_eq_exp_minus_1)
  have top: "byte c AND push_bit 6 (mask 2) = push_bit 6 (take_bit 2 (drop_bit 6 (byte c)))"
    by (rule bit_word_eqI) (auto simp: bit_simps)
  have d: "unat (drop_bit 6 (byte c)) = of_char c div 64"
  proof -
    have "take_bit 32 (of_char c) = (of_char c :: nat)" by (rule take_bit_nat_eq_self) (rule order_less_trans [OF unat_byte(2)], simp)
    then show ?thesis unfolding unsigned_drop_bit_eq by (simp add: drop_bit_eq_div unat_byte)
  qed
  have less: "of_char c div 64 < (4 :: nat)" using unat_byte(2) [of c] by linarith
  have t: "take_bit 2 (drop_bit 6 (byte c)) = drop_bit 6 (byte c)"
    using less by (intro word_unat_eq_iff [THEN iffD2]) (simp add: unsigned_take_bit_eq d take_bit_nat_eq_self)
  have p: "push_bit 6 x = push_bit 6 2 \<longleftrightarrow> x = 2" if "unat x < 4" for x :: u32
  proof -
    have "unat (push_bit 6 y) = 64 * unat y" if "unat y < 4" for y :: u32
      using that unfolding unsigned_push_bit_eq by (simp add: push_bit_eq_mult take_bit_nat_eq_self)
    from this [OF that] this [of 2] show ?thesis by (auto simp: word_unat_eq_iff)
  qed
  show ?thesis
    unfolding c0 top t using p [of "drop_bit 6 (byte c)"] less d by (simp add: word_unat_eq_iff)
qed


lemma unat_append_bits: "unat s < 2 ^ 26 \<Longrightarrow> unat (push_bit 6 s OR (b AND 0x3F)) = unat s * 64 + unat b mod 64" for s b :: u32
proof -
  assume s: "unat s < 2 ^ 26"
  have m: "(0x3F :: u32) = mask 6" by (simp add: mask_eq_exp_minus_1)
  have "push_bit 6 s AND (b AND 0x3F) = 0" unfolding m by (rule bit_word_eqI) (auto simp: bit_simps)
  then have e: "push_bit 6 s OR (b AND 0x3F) = push_bit 6 s + (b AND 0x3F)" by (rule disjunctive_add_eq_or [symmetric])
  have p: "unat (push_bit 6 s) = unat s * 64"
    unfolding unsigned_push_bit_eq using s by (simp add: push_bit_eq_mult take_bit_nat_eq_self)
  show ?thesis unfolding e using s unat_low_bits(1) [of b] p by (subst unat_plus_simple [THEN iffD1]) (auto simp: word_le_nat_alt unat_word_ariths)
qed

lemma code_of_char: "n < 256 \<Longrightarrow> of_char (char_of n :: char) = (n :: nat)"
  by simp

lemma char_of_code: "of_char c = (n :: nat) \<Longrightarrow> c = char_of n"
  by (metis char_of_char)

lemma unat_nat: "n < 2 ^ 32 \<Longrightarrow> unat (of_nat n :: u32) = n"
  by (simp add: unat_of_nat)

lemma as_of_nat: "unat w = n \<Longrightarrow> w = of_nat n" for w :: u32
  by auto

lemma trail_step:
  assumes "v < 2 ^ 26"
  shows "utf8_trail (Suc k) (of_nat v) s = Some r \<longleftrightarrow>
    (\<exists>m cs. m < 64 \<and> s = char_of (0x80 + m :: nat) # cs \<and> utf8_trail k (of_nat (v * 64 + m)) cs = Some r)"
proof (cases s)
  case (Cons c cs)
  have v: "unat (of_nat v :: u32) = v" using assms by (intro unat_nat) simp
  have next_scalar: "push_bit 6 (of_nat v) OR (byte c AND 0x3F) = of_nat (v * 64 + of_char c mod 64)"
  proof -
    have "unat (push_bit 6 (of_nat v :: u32) OR (byte c AND 0x3F)) = v * 64 + of_char c mod 64"
      using unat_append_bits [of "of_nat v" "byte c"] v assms by (simp add: unat_byte)
    then show ?thesis by (rule as_of_nat)
  qed
  have "of_char c div 64 = (2 :: nat) \<longleftrightarrow> (\<exists>m < 64. c = char_of (0x80 + m :: nat))"
  proof
    assume d: "of_char c div 64 = (2 :: nat)"
    then have "of_char c = 0x80 + of_char c mod (64 :: nat)" using div_mult_mod_eq [of "of_char c" "64 :: nat"] by simp
    then show "\<exists>m < 64. c = char_of (0x80 + m :: nat)" using char_of_code [of c] by (intro exI [of _ "of_char c mod 64"]) simp
  next
    assume "\<exists>m < 64. c = char_of (0x80 + m :: nat)"
    then show "of_char c div 64 = (2 :: nat)" by auto
  qed
  note form = this
  show ?thesis
  proof (cases "\<exists>m < 64. c = char_of (0x80 + m :: nat)")
    case True
    then obtain m where m: "m < 64" "c = char_of (0x80 + m :: nat)" by blast
    have "(0x80 + m) mod 64 = m" using mod_mult_self2 [of m 64 2] m(1) by (simp add: add.commute)
    then have code: "of_char c mod 64 = m" using m by simp
    have only: "x = m" if "x < 64" "c = char_of (0x80 + x :: nat)" for x
      using that m code_of_char [of "0x80 + x"] code_of_char [of "0x80 + m"] by simp
    show ?thesis
    proof
      assume "utf8_trail (Suc k) (of_nat v) s = Some r"
      then have "utf8_trail k (of_nat (v * 64 + m)) cs = Some r"
        using Cons next_scalar form True by (simp add: trailing_byte code)
      then show "\<exists>m cs. m < 64 \<and> s = char_of (0x80 + m :: nat) # cs \<and> utf8_trail k (of_nat (v * 64 + m)) cs = Some r"
        using m Cons by blast
    next
      assume "\<exists>m cs. m < 64 \<and> s = char_of (0x80 + m :: nat) # cs \<and> utf8_trail k (of_nat (v * 64 + m)) cs = Some r"
      then have "utf8_trail k (of_nat (v * 64 + m)) cs = Some r" using only Cons by auto
      then show "utf8_trail (Suc k) (of_nat v) s = Some r"
        using Cons next_scalar form True by (simp add: trailing_byte code)
    qed
  next
    case False
    then show ?thesis using Cons form by (auto simp: trailing_byte)
  qed
qed simp

lemma lead_iff:
  "utf8_lead (byte c) = Some (t, sc, mn) \<longleftrightarrow>
     (\<exists>m :: nat. c = char_of m \<and> m < 0x80 \<and> t = 0 \<and> sc = of_nat m \<and> mn = 0) \<or>
     (\<exists>m :: nat. c = char_of (0xC0 + m) \<and> 2 \<le> m \<and> m < 32 \<and> t = 1 \<and> sc = of_nat m \<and> mn = 0x80) \<or>
     (\<exists>m :: nat. c = char_of (0xE0 + m) \<and> m < 16 \<and> t = 2 \<and> sc = of_nat m \<and> mn = 0x800) \<or>
     (\<exists>m :: nat. c = char_of (0xF0 + m) \<and> m < 5 \<and> t = 3 \<and> sc = of_nat m \<and> mn = 0x10000)"
proof -
  obtain n :: nat where n: "c = char_of n" "n < 256" using unat_byte(2) [of c] by (metis char_of_char)
  have b: "byte c = of_nat n" "unat (byte c) = n" using n unat_nat [of n] by (simp_all add: byte_def)
  have le: "(k :: u32) \<le> byte c \<longleftrightarrow> unat k \<le> n" "byte c \<le> k \<longleftrightarrow> n \<le> unat k" for k
    by (simp_all add: word_le_nat_alt b(2))
  have inj: "char_of n = (char_of m :: char) \<longleftrightarrow> n = m" if "m < 256" for m :: nat
    using n(2) that by (metis code_of_char)
  have low: "byte c AND 0x1F = of_nat (n mod 32)" "byte c AND 0x0F = of_nat (n mod 16)" "byte c AND 0x07 = of_nat (n mod 8)"
    using unat_low_bits(2-4) [of "byte c"] b(2) by (simp_all add: as_of_nat)
  consider "n < 0x80" | "0x80 \<le> n" "n < 0xC2" | "0xC2 \<le> n" "n < 0xE0" | "0xE0 \<le> n" "n < 0xF0" | "0xF0 \<le> n" "n < 0xF5" | "0xF5 \<le> n"
    by linarith
  then show ?thesis
  proof cases
    case 1
    then have "utf8_lead (byte c) = Some (0, of_nat n, 0)" by (simp add: utf8_lead_def le) (simp add: b)
    then show ?thesis using 1 n inj by auto
  next
    case 2
    then have "utf8_lead (byte c) = None" by (simp add: utf8_lead_def le)
    then show ?thesis using 2 n inj by auto
  next
    case 3
    then have "n div 32 = 6" by (intro div_nat_eqI) simp_all
    then have "n mod 32 = n - 0xC0" using minus_mult_div_eq_mod [of n 32] by simp
    moreover have "utf8_lead (byte c) = Some (1, of_nat (n mod 32), 0x80)" using 3 by (simp add: utf8_lead_def le low)
    ultimately show ?thesis using 3 n inj by (auto intro: exI [of _ "n - 0xC0"])
  next
    case 4
    then have "n div 16 = 14" by (intro div_nat_eqI) simp_all
    then have "n mod 16 = n - 0xE0" using minus_mult_div_eq_mod [of n 16] by simp
    moreover have "utf8_lead (byte c) = Some (2, of_nat (n mod 16), 0x800)" using 4 by (simp add: utf8_lead_def le low)
    ultimately show ?thesis using 4 n inj by (auto intro: exI [of _ "n - 0xE0"])
  next
    case 5
    then have "n div 8 = 30" by (intro div_nat_eqI) simp_all
    then have "n mod 8 = n - 0xF0" using minus_mult_div_eq_mod [of n 8] by simp
    moreover have "utf8_lead (byte c) = Some (3, of_nat (n mod 8), 0x10000)" using 5 by (simp add: utf8_lead_def le low)
    ultimately show ?thesis using 5 n inj by (auto intro: exI [of _ "n - 0xF0"])
  next
    case 6
    then have "utf8_lead (byte c) = None" by (simp add: utf8_lead_def le)
    then show ?thesis using 6 n inj by auto
  qed
qed

text \<open>One turn of the loop takes exactly the encoding of one scalar value.\<close>

lemma scalar_checks:
  "n < 2 ^ 32 \<Longrightarrow> mn < 2 ^ 32 \<Longrightarrow>
     (of_nat n :: u32) < of_nat mn \<or> (of_nat n :: u32) > 0x10FFFF \<or> ((of_nat n :: u32) \<ge> 0xD800 \<and> (of_nat n :: u32) \<le> 0xDFFF) \<or>
       (of_nat n :: u32) = 0 \<longleftrightarrow> n < mn \<or> \<not> scalar_value n"
  using unat_nat [of n] unat_nat [of mn]
  by (auto simp: scalar_value_def word_less_nat_alt word_le_nat_alt word_unat_eq_iff)

lemma utf8_scalar_Cons:
  "utf8_scalar (c # r) = Some (sc, rest) \<longleftrightarrow>
     (\<exists>t x mn. utf8_lead (byte c) = Some (t, x, mn) \<and> utf8_trail t x r = Some (sc, rest) \<and>
        \<not> (sc < mn \<or> sc > 0x10FFFF \<or> (sc \<ge> 0xD800 \<and> sc \<le> 0xDFFF) \<or> sc = 0))"
proof
  assume "utf8_scalar (c # r) = Some (sc, rest)"
  then show "\<exists>t x mn. utf8_lead (byte c) = Some (t, x, mn) \<and> utf8_trail t x r = Some (sc, rest) \<and>
        \<not> (sc < mn \<or> sc > 0x10FFFF \<or> (sc \<ge> 0xD800 \<and> sc \<le> 0xDFFF) \<or> sc = 0)"
    unfolding utf8_scalar_def by (simp split: option.splits prod.splits if_splits)
next
  assume "\<exists>t x mn. utf8_lead (byte c) = Some (t, x, mn) \<and> utf8_trail t x r = Some (sc, rest) \<and>
        \<not> (sc < mn \<or> sc > 0x10FFFF \<or> (sc \<ge> 0xD800 \<and> sc \<le> 0xDFFF) \<or> sc = 0)"
  then obtain t x mn where l: "utf8_lead (byte c) = Some (t, x, mn)" "utf8_trail t x r = Some (sc, rest)"
    "\<not> (sc < mn \<or> sc > 0x10FFFF \<or> (sc \<ge> 0xD800 \<and> sc \<le> 0xDFFF) \<or> sc = 0)" by blast
  moreover have "\<not> t > length r" using utf8_trail_length [OF l(2)] by simp
  ultimately show "utf8_scalar (c # r) = Some (sc, rest)" by (simp add: utf8_scalar_def)
qed

text \<open>The encodings by their digits.\<close>

lemma encode_digits:
  "n < 0x80 \<Longrightarrow> utf8_encode n = [char_of n]"
  "2 \<le> a \<Longrightarrow> a < 32 \<Longrightarrow> b < 64 \<Longrightarrow> utf8_encode (a * 64 + b) = [char_of (0xC0 + a), char_of (0x80 + b)]"
  "0x800 \<le> (a * 64 + b) * 64 + c \<Longrightarrow> a < 16 \<Longrightarrow> b < 64 \<Longrightarrow> c < 64 \<Longrightarrow>
     utf8_encode ((a * 64 + b) * 64 + c) = [char_of (0xE0 + a), char_of (0x80 + b), char_of (0x80 + c)]"
  "0x10000 \<le> ((a * 64 + b) * 64 + c) * 64 + d \<Longrightarrow> b < 64 \<Longrightarrow> c < 64 \<Longrightarrow> d < 64 \<Longrightarrow>
     utf8_encode (((a * 64 + b) * 64 + c) * 64 + d) =
       [char_of (0xF0 + a), char_of (0x80 + b), char_of (0x80 + c), char_of (0x80 + d)]"
proof -
  have q: "(x * 64 + y) div 64 = x" "(x * 64 + y) mod 64 = y" if "y < 64" for x y :: nat using that by simp_all
  have big: "n div 4096 = n div 64 div 64" "n div 262144 = n div 64 div 64 div 64" for n :: nat by (simp_all add: div_mult2_eq)
  show "n < 0x80 \<Longrightarrow> utf8_encode n = [char_of n]" by (simp add: utf8_encode_def)
  show "2 \<le> a \<Longrightarrow> a < 32 \<Longrightarrow> b < 64 \<Longrightarrow> utf8_encode (a * 64 + b) = [char_of (0xC0 + a), char_of (0x80 + b)]"
    by (simp add: utf8_encode_def q)
  show "0x800 \<le> (a * 64 + b) * 64 + c \<Longrightarrow> a < 16 \<Longrightarrow> b < 64 \<Longrightarrow> c < 64 \<Longrightarrow>
     utf8_encode ((a * 64 + b) * 64 + c) = [char_of (0xE0 + a), char_of (0x80 + b), char_of (0x80 + c)]"
    unfolding utf8_encode_def big by (simp only: q) simp
  show "0x10000 \<le> ((a * 64 + b) * 64 + c) * 64 + d \<Longrightarrow> b < 64 \<Longrightarrow> c < 64 \<Longrightarrow> d < 64 \<Longrightarrow>
     utf8_encode (((a * 64 + b) * 64 + c) * 64 + d) =
       [char_of (0xF0 + a), char_of (0x80 + b), char_of (0x80 + c), char_of (0x80 + d)]"
    unfolding utf8_encode_def big by (simp only: q) simp
qed

lemma utf8_scalar_encodes:
  assumes "utf8_scalar s = Some (sc, rest)"
  shows "\<exists>n. sc = of_nat n \<and> scalar_value n \<and> s = utf8_encode n @ rest"
proof -
  obtain c r where s: "s = c # r" using assms by (cases s) (auto simp: utf8_scalar_def)
  obtain t x mn where l: "utf8_lead (byte c) = Some (t, x, mn)" and tr: "utf8_trail t x r = Some (sc, rest)" and
    ok: "\<not> (sc < mn \<or> sc > 0x10FFFF \<or> (sc \<ge> 0xD800 \<and> sc \<le> 0xDFFF) \<or> sc = 0)"
    using assms unfolding s utf8_scalar_Cons by blast
  from l [unfolded lead_iff] show ?thesis
  proof (elim disjE exE conjE)
    fix m :: nat
    assume m: "c = char_of m" "m < 0x80" "t = 0" "x = of_nat m" "mn = 0"
    then have "sc = of_nat m" "r = rest" using tr by simp_all
    then show ?thesis using ok m scalar_checks [of m 0] s encode_digits(1) [of m] by auto
  next
    fix m :: nat
    assume m: "c = char_of (0xC0 + m)" "2 \<le> m" "m < 32" "t = 1" "x = of_nat m" "mn = 0x80"
    then obtain b where b: "b < 64" "r = char_of (0x80 + b) # rest" "sc = of_nat (m * 64 + b)"
      using tr trail_step [of m 0 r "(sc, rest)"] by auto
    then show ?thesis using ok m scalar_checks [of "m * 64 + b" "0x80"] s encode_digits(2) [of m b]
      by (intro exI [of _ "m * 64 + b"]) auto
  next
    fix m :: nat
    assume m: "c = char_of (0xE0 + m)" "m < 16" "t = 2" "x = of_nat m" "mn = 0x800"
    have small: "m < 2 ^ 26" using m(2) by simp
    have "utf8_trail 2 (of_nat m) r = Some (sc, rest)" using tr m by simp
    then obtain b r1 where b: "b < 64" "r = char_of (0x80 + b) # r1" "utf8_trail 1 (of_nat (m * 64 + b)) r1 = Some (sc, rest)"
      using trail_step [OF small, of 1 r "(sc, rest)", unfolded Suc_1] by blast
    have small2: "m * 64 + b < 2 ^ 26" using m(2) b(1) by simp
    obtain d where d: "d < 64" "r1 = char_of (0x80 + d) # rest" "sc = of_nat ((m * 64 + b) * 64 + d)"
      using b(3) trail_step [OF small2, of 0 r1 "(sc, rest)", folded One_nat_def] by auto
    then show ?thesis
      using ok m b scalar_checks [of "(m * 64 + b) * 64 + d" "0x800"] s encode_digits(3) [of m b d]
      by (intro exI [of _ "(m * 64 + b) * 64 + d"]) auto
  next
    fix m :: nat
    assume m: "c = char_of (0xF0 + m)" "m < 5" "t = 3" "x = of_nat m" "mn = 0x10000"
    have small: "m < 2 ^ 26" using m(2) by simp
    have three: "Suc 2 = (3 :: nat)" by simp
    have "utf8_trail 3 (of_nat m) r = Some (sc, rest)" using tr m by simp
    then obtain b r1 where b: "b < 64" "r = char_of (0x80 + b) # r1" "utf8_trail 2 (of_nat (m * 64 + b)) r1 = Some (sc, rest)"
      using trail_step [OF small, of 2 r "(sc, rest)", unfolded three] by blast
    have small2: "m * 64 + b < 2 ^ 26" using m(2) b(1) by simp
    obtain d r2 where d: "d < 64" "r1 = char_of (0x80 + d) # r2" "utf8_trail 1 (of_nat ((m * 64 + b) * 64 + d)) r2 = Some (sc, rest)"
      using b(3) trail_step [OF small2, of 1 r1 "(sc, rest)", unfolded Suc_1] by blast
    have small3: "(m * 64 + b) * 64 + d < 2 ^ 26" using m(2) b(1) d(1) by simp
    obtain e where e: "e < 64" "r2 = char_of (0x80 + e) # rest" "sc = of_nat (((m * 64 + b) * 64 + d) * 64 + e)"
      using d(3) trail_step [OF small3, of 0 r2 "(sc, rest)", folded One_nat_def] by auto
    then show ?thesis
      using ok m b d scalar_checks [of "((m * 64 + b) * 64 + d) * 64 + e" "0x10000"] s encode_digits(4) [of m b d e]
      by (intro exI [of _ "((m * 64 + b) * 64 + d) * 64 + e"]) auto
  qed
qed

lemma utf8_scalar_of_encoding:
  assumes "scalar_value n"
  shows "utf8_scalar (utf8_encode n @ rest) = Some (of_nat n, rest)"
proof -
  have n: "n \<le> 0x10FFFF" "n < 2 ^ 32" using assms by (simp_all add: scalar_value_def)
  have checks: "\<not> ((of_nat n :: u32) < of_nat mn \<or> (of_nat n :: u32) > 0x10FFFF \<or>
      ((of_nat n :: u32) \<ge> 0xD800 \<and> (of_nat n :: u32) \<le> 0xDFFF) \<or> (of_nat n :: u32) = 0)" if "mn \<le> n" for mn
    using scalar_checks [of n mn] n assms that by simp
  have finish: "utf8_scalar (c # r) = Some (of_nat n, rest)"
    if "utf8_lead (byte c) = Some (t, x, of_nat mn)" "utf8_trail t x r = Some (of_nat n, rest)" "mn \<le> n" for c r t x mn
    unfolding utf8_scalar_Cons using that checks [OF that(3)] by blast
  have one: "utf8_trail (Suc k) (of_nat v) (char_of (0x80 + m) # cs) = utf8_trail k (of_nat (v * 64 + m)) cs"
    if "v < 2 ^ 26" "m < 64" for k v m cs
  proof (rule option.expand)
    have step: "utf8_trail (Suc k) (of_nat v) (char_of (0x80 + m) # cs) = Some r \<longleftrightarrow> utf8_trail k (of_nat (v * 64 + m)) cs = Some r" for r
    proof -
      have "x = m" if "x < 64" "char_of (0x80 + m) = (char_of (0x80 + x) :: char)" for x
        using that \<open>m < 64\<close> code_of_char [of "0x80 + x"] code_of_char [of "0x80 + m"] by simp
      then show ?thesis unfolding trail_step [OF that(1)] using that(2) by blast
    qed
    show "(utf8_trail (Suc k) (of_nat v) (char_of (0x80 + m) # cs) = None) = (utf8_trail k (of_nat (v * 64 + m)) cs = None)"
      using step by (metis option.exhaust option.distinct(1))
    show "the (utf8_trail (Suc k) (of_nat v) (char_of (0x80 + m) # cs)) = the (utf8_trail k (of_nat (v * 64 + m)) cs)"
      if "utf8_trail (Suc k) (of_nat v) (char_of (0x80 + m) # cs) \<noteq> None" "utf8_trail k (of_nat (v * 64 + m)) cs \<noteq> None"
      using step that by (metis option.collapse)
  qed
  have dm: "x div 64 * 64 + x mod 64 = x" "x mod 64 < 64" for x :: nat by simp_all
  consider "n < 0x80" | "0x80 \<le> n" "n < 0x800" | "0x800 \<le> n" "n < 0x10000" | "0x10000 \<le> n" by linarith
  then show ?thesis
  proof cases
    case 1
    have "utf8_lead (byte (char_of n)) = Some (0, of_nat n, of_nat 0)" unfolding lead_iff using 1 by (intro disjI1 exI [of _ n]) simp
    from finish [OF this] show ?thesis using 1 by (simp add: encode_digits(1))
  next
    case 2
    define a b where "a = n div 64" "b = n mod 64"
    have nd: "n = a * 64 + b" "2 \<le> a" "a < 32" "b < 64" using 2 by (auto simp: a_b_def less_mult_imp_div_less)
    have lead: "utf8_lead (byte (char_of (0xC0 + a))) = Some (1, of_nat a, of_nat 0x80)"
      unfolding lead_iff using nd by (intro disjI2 disjI1 exI [of _ a]) simp
    have "utf8_trail 1 (of_nat a) (char_of (0x80 + b) # rest) = Some (of_nat n, rest)"
      using one [of a b 0 rest] nd by simp
    from finish [OF lead this] show ?thesis using 2 nd encode_digits(2) [OF nd(2-4)] by simp
  next
    case 3
    define a b c where "a = n div 64 div 64" "b = n div 64 mod 64" "c = n mod 64"
    have nd: "n = (a * 64 + b) * 64 + c" "b < 64" "c < 64" by (simp_all add: a_b_c_def)
    have a: "a < 16" using 3 by (simp add: a_b_c_def less_mult_imp_div_less flip: div_mult2_eq)
    have lead: "utf8_lead (byte (char_of (0xE0 + a))) = Some (2, of_nat a, of_nat 0x800)"
      unfolding lead_iff using a by (intro disjI2 disjI1 exI [of _ a]) simp
    have "utf8_trail (Suc 1) (of_nat a) (char_of (0x80 + b) # char_of (0x80 + c) # rest) = Some (of_nat n, rest)"
      using one [of a b 1 "char_of (0x80 + c) # rest"] one [of "a * 64 + b" c 0 rest] nd a by simp
    then have "utf8_trail 2 (of_nat a) (char_of (0x80 + b) # char_of (0x80 + c) # rest) = Some (of_nat n, rest)"
      unfolding Suc_1 .
    from finish [OF lead this] show ?thesis using 3 nd a encode_digits(3) [of a b c] by simp
  next
    case 4
    define a b c d where "a = n div 64 div 64 div 64" "b = n div 64 div 64 mod 64" "c = n div 64 mod 64" "d = n mod 64"
    have nd: "n = ((a * 64 + b) * 64 + c) * 64 + d" "b < 64" "c < 64" "d < 64" by (simp_all add: a_b_c_d_def)
    have a: "a < 5" using n(1) by (simp add: a_b_c_d_def less_mult_imp_div_less scalar_value_def flip: div_mult2_eq)
    have lead: "utf8_lead (byte (char_of (0xF0 + a))) = Some (3, of_nat a, of_nat 0x10000)"
      unfolding lead_iff using a by (intro disjI2 exI [of _ a]) simp
    have three: "Suc 2 = (3 :: nat)" by simp
    have "utf8_trail (Suc 1) (of_nat (a * 64 + b)) (char_of (0x80 + c) # char_of (0x80 + d) # rest) = Some (of_nat n, rest)"
      using one [of "a * 64 + b" c 1 "char_of (0x80 + d) # rest"] one [of "(a * 64 + b) * 64 + c" d 0 rest] nd a by simp
    then have "utf8_trail (Suc 2) (of_nat a) (char_of (0x80 + b) # char_of (0x80 + c) # char_of (0x80 + d) # rest) = Some (of_nat n, rest)"
      using one [of a b 2 "char_of (0x80 + c) # char_of (0x80 + d) # rest"] nd a unfolding Suc_1 by simp
    then have "utf8_trail 3 (of_nat a) (char_of (0x80 + b) # char_of (0x80 + c) # char_of (0x80 + d) # rest) = Some (of_nat n, rest)"
      unfolding three .
    from finish [OF lead this] show ?thesis using 4 nd encode_digits(4) [of a b c d] by simp
  qed
qed

definition utf8_text :: "bool \<Rightarrow> nat list \<Rightarrow> string \<Rightarrow> bool" where
  "utf8_text rejectControls ns s \<longleftrightarrow>
     s = concat (map utf8_encode ns) \<and> list_all (\<lambda>n. scalar_value n \<and> \<not> (rejectControls \<and> control_scalar n)) ns"

lemma utf8_encode_ne: "utf8_encode n \<noteq> []"
  by (simp add: utf8_encode_def)

lemma utf8_loop_iff:
  "k \<le> m \<Longrightarrow> utf8_loop m rc k s \<longleftrightarrow> (\<exists>ns. utf8_text rc ns s \<and> k + length ns \<le> m \<and> k + length ns \<noteq> 0)"
proof (induction m rc k s rule: utf8_loop.induct)
  case (1 m rc k s)
  show ?case
  proof (cases "s = []")
    case True
    have "utf8_text rc ns [] \<longleftrightarrow> ns = []" for ns by (auto simp: utf8_text_def utf8_encode_ne)
    then show ?thesis using True 1(2) by (subst utf8_loop.simps) simp
  next
    case False
    show ?thesis
    proof (cases "utf8_scalar s")
      case None
      have "\<not> utf8_text rc ns s" for ns
        using None False utf8_scalar_of_encoding by (cases ns) (auto simp: utf8_text_def)
      then show ?thesis using None False by (subst utf8_loop.simps) simp
    next
      case (Some r)
      obtain sc rest where r: "r = (sc, rest)" by (metis prod.exhaust)
      obtain n where n: "sc = of_nat n" "scalar_value n" "s = utf8_encode n @ rest" using utf8_scalar_encodes Some r by blast
      have small: "n < 2 ^ 32" using n(2) by (simp add: scalar_value_def)
      have control: "sc < 0x20 \<or> (sc \<ge> 0x7F \<and> sc \<le> 0x9F) \<longleftrightarrow> control_scalar n"
        using unat_nat [OF small] by (simp add: n(1) control_scalar_def word_less_nat_alt word_le_nat_alt)
      have head: "utf8_text rc ns s \<longleftrightarrow> (\<exists>ms. ns = n # ms \<and> \<not> (rc \<and> control_scalar n) \<and> utf8_text rc ms rest)" for ns
      proof (cases ns)
        case Nil
        then show ?thesis using False by (simp add: utf8_text_def)
      next
        case (Cons x ms)
        have "x = n \<and> concat (map utf8_encode ms) = rest" if "scalar_value x" "s = utf8_encode x @ concat (map utf8_encode ms)"
        proof -
          have "(of_nat x :: u32) = sc" and c: "concat (map utf8_encode ms) = rest"
            using utf8_scalar_of_encoding [OF that(1), of "concat (map utf8_encode ms)"] that(2) Some r by simp_all
          moreover have "x < 2 ^ 32" using that(1) by (simp add: scalar_value_def)
          ultimately have "x = n" using n(1) unat_nat [of x] unat_nat [OF small] by metis
          then show ?thesis using c by simp
        qed
        then show ?thesis using Cons n by (auto simp: utf8_text_def)
      qed
      show ?thesis
      proof (cases "rc \<and> control_scalar n \<or> k + 1 > m")
        case True
        then have "\<not> utf8_loop m rc k s" using False Some r control by (subst utf8_loop.simps) auto
        then show ?thesis using head True by auto
      next
        case ok: False
        then have step: "utf8_loop m rc k s = utf8_loop m rc (k + 1) rest"
          using False Some r control by (subst utf8_loop.simps) auto
        have "utf8_loop m rc (k + 1) rest \<longleftrightarrow> (\<exists>ns. utf8_text rc ns rest \<and> k + 1 + length ns \<le> m \<and> k + 1 + length ns \<noteq> 0)"
          using 1(1) [OF False Some r [symmetric]] ok control by auto
        then show ?thesis unfolding step head using ok by fastforce
      qed
    qed
  qed
qed

text \<open>C23: A text of a configuration is accepted exactly when it is UTF-8: ValidUtf8 accepts a byte string if and only if it is
  the encoding, in the shortest form, of one or more and at most the allowed number of Unicode scalar values, none of them
  zero or a surrogate and, where control characters are rejected, none of them a control character.\<close>

theorem valid_utf8_is_utf8:
  "ValidUtf8 s maximumScalars rejectControls \<longleftrightarrow>
     (\<exists>ns. ns \<noteq> [] \<and> length ns \<le> maximumScalars \<and> s = concat (map utf8_encode ns) \<and>
        list_all (\<lambda>n. 0 < n \<and> n \<le> 0x10FFFF \<and> n \<notin> {0xD800..0xDFFF} \<and>
          \<not> (rejectControls \<and> (n < 0x20 \<or> n \<in> {0x7F..0x9F}))) ns)"
proof -
  have e: "scalar_value n \<and> \<not> (rejectControls \<and> control_scalar n) \<longleftrightarrow>
      0 < n \<and> n \<le> 0x10FFFF \<and> n \<notin> {0xD800..0xDFFF} \<and> \<not> (rejectControls \<and> (n < 0x20 \<or> n \<in> {0x7F..0x9F}))" for n
    by (auto simp: scalar_value_def control_scalar_def)
  have f: "utf8_text rejectControls ns s \<longleftrightarrow> s = concat (map utf8_encode ns) \<and>
      list_all (\<lambda>n. 0 < n \<and> n \<le> 0x10FFFF \<and> n \<notin> {0xD800..0xDFFF} \<and>
        \<not> (rejectControls \<and> (n < 0x20 \<or> n \<in> {0x7F..0x9F}))) ns" for ns
    unfolding utf8_text_def e ..
  show ?thesis
    unfolding ValidUtf8_def using utf8_loop_iff [of 0 maximumScalars rejectControls s] unfolding f by auto
qed

end
