(* ===== verification/AV_Config.thy ===== *)
theory AV_Config
  imports AV_Utf8
begin

text \<open>
  The saved profiles of an AV widget (\<open>Plugins/AVControl/AVControlModel.cpp\<close>): which profiles are valid, how they are read
  and written, that what they name may be sent to the broker (\<open>AVControlProtocolValidation.h\<close>), and the level gesture.
  yyjson is a parameter: a document it has read or is asked to write is a value of \<open>json_value\<close>, with what the code asks of one.
\<close>

section \<open>Profiles\<close>

datatype ConfigurationError =
  NoError | JsonError | ShapeError | CapacityError | IdentifierError | NameError | DeviceIdentifierError |
  DuplicateProfileError | LevelError | RolesError

definition MaximumProfiles :: nat where "MaximumProfiles = 4"
definition MaximumSettingsBytes :: nat where "MaximumSettingsBytes = 4096"
definition MaximumDeviceIdBytes :: nat where "MaximumDeviceIdBytes = 1024"
definition MaximumNameScalars :: nat where "MaximumNameScalars = 48"
definition MaximumIdentifierBytes :: nat where "MaximumIdentifierBytes = 32"

definition in_range :: "char \<Rightarrow> char \<Rightarrow> char \<Rightarrow> bool" where
  "in_range lo hi ch \<longleftrightarrow> of_char lo \<le> (of_char ch :: nat) \<and> (of_char ch :: nat) \<le> of_char hi"

definition ValidIdentifier :: "string \<Rightarrow> bool" where
  "ValidIdentifier text \<longleftrightarrow>
     text \<noteq> [] \<and> length text \<le> MaximumIdentifierBytes \<and>
     list_all (\<lambda>ch. in_range CHR ''a'' CHR ''z'' ch \<or> in_range CHR ''A'' CHR ''Z'' ch \<or> in_range CHR ''0'' CHR ''9'' ch \<or>
       ch = CHR ''-'' \<or> ch = CHR ''_'') text"

definition ValidateProfile :: "Profile \<Rightarrow> ConfigurationError" where
  "ValidateProfile p =
     (if \<not> ValidIdentifier (profile_key p) then IdentifierError
      else if \<not> ValidUtf8 (profile_name p) MaximumNameScalars True then NameError
      else if \<not> list_all (\<lambda>i. ValidUtf8 i MaximumDeviceIdBytes False) [outputId p, microphoneId p, cameraId p]
        then DeviceIdentifierError
      else if outputLevel p > 100 \<or> microphoneLevel p > 100 then LevelError
      else if audioRoles p \<noteq> RolesAll \<and> audioRoles p \<noteq> Communications then RolesError
      else NoError)"

definition fold_case :: "char \<Rightarrow> char" where
  "fold_case ch = (if in_range CHR ''A'' CHR ''Z'' ch then char_of ((of_char ch :: nat) + 32) else ch)"

definition SameProfileId :: "string \<Rightarrow> string \<Rightarrow> bool" where
  "SameProfileId left right \<longleftrightarrow> length left = length right \<and> list_all2 (\<lambda>a b. fold_case a = fold_case b) left right"

lemma SameProfileId_iff: "SameProfileId left right \<longleftrightarrow> map fold_case left = map fold_case right"
  unfolding SameProfileId_def by (auto simp: list_all2_conv_all_nth list_eq_iff_nth_eq)

section \<open>Reading and writing\<close>

text \<open>A document as the code sees it; \<open>JOther\<close> is a null, a number that is not unsigned, or a raw value.\<close>

datatype json_value =
  JObj "(string \<times> json_value) list" | JArr "json_value list" | JStr string | JBool bool | JUint u64 | JOther

definition obj_get :: "string \<Rightarrow> json_value \<Rightarrow> json_value option" where
  "obj_get key v = (case v of JObj members \<Rightarrow> map_of members key | _ \<Rightarrow> None)"

definition String :: "json_value option \<Rightarrow> string" where
  "String v = (case v of Some (JStr s) \<Rightarrow> s | _ \<Rightarrow> [])"

definition profile_members :: "string list" where
  "profile_members = [''id'', ''name'', ''outputId'', ''microphoneId'', ''cameraId'', ''audioRoles'', ''restoreLevels'',
     ''outputLevel'', ''microphoneLevel'']"

fun members_known :: "u32 \<Rightarrow> string list \<Rightarrow> bool" where
  "members_known seen [] = True"
| "members_known seen (key # keys) =
     (case place_of key profile_members of
        None \<Rightarrow> False
      | Some found \<Rightarrow>
          (let bits = push_bit found 1
           in if (seen AND bits) \<noteq> 0 then False else members_known (seen OR bits) keys))"

text \<open>The next unsigned number, as \<open>yyjson_is_uint\<close> and \<open>yyjson_get_uint\<close> report it.\<close>

definition uint_of :: "json_value option \<Rightarrow> u64 option" where
  "uint_of v = (case v of Some (JUint n) \<Rightarrow> Some n | _ \<Rightarrow> None)"

definition bool_of :: "json_value option \<Rightarrow> bool option" where
  "bool_of v = (case v of Some (JBool b) \<Rightarrow> Some b | _ \<Rightarrow> None)"

definition ParseProfile :: "json_value \<Rightarrow> ConfigurationError + Profile" where
  "ParseProfile value =
     (case value of
        JObj members \<Rightarrow>
          (let text = (\<lambda>key. String (obj_get key value));
               roles = text ''audioRoles'';
               output = uint_of (obj_get ''outputLevel'' value);
               input = uint_of (obj_get ''microphoneLevel'' value)
           in if length members \<noteq> 9 \<or> \<not> members_known 0 (map fst members) then Inl ShapeError
              else if length (text ''id'') > MaximumIdentifierBytes then Inl IdentifierError
              else if length (text ''name'') > MaximumNameScalars * 4 then Inl NameError
              else if length (text ''outputId'') > MaximumDeviceIdBytes \<or> length (text ''microphoneId'') > MaximumDeviceIdBytes \<or>
                   length (text ''cameraId'') > MaximumDeviceIdBytes then Inl DeviceIdentifierError
              else if roles \<noteq> ''all'' \<and> roles \<noteq> ''communications'' then Inl RolesError
              else (case bool_of (obj_get ''restoreLevels'' value) of
                      None \<Rightarrow> Inl ShapeError
                    | Some restore \<Rightarrow>
                        if output = None \<or> input = None \<or> the output > 100 \<or> the input > 100 then Inl LevelError
                        else
                          (let p = \<lparr>profile_key = text ''id'', profile_name = text ''name'', outputId = text ''outputId'',
                                   microphoneId = text ''microphoneId'', cameraId = text ''cameraId'',
                                   audioRoles = (if roles = ''all'' then RolesAll else Communications),
                                   restoreLevels = restore, outputLevel = ucast (the output),
                                   microphoneLevel = ucast (the input)\<rparr>
                           in if ValidateProfile p \<noteq> NoError then Inl (ValidateProfile p) else Inr p)))
      | _ \<Rightarrow> Inl ShapeError)"

text \<open>The loop over the array: \<open>staged\<close> holds the profiles read so far.\<close>

fun ParseProfiles :: "Profile list \<Rightarrow> json_value list \<Rightarrow> ConfigurationError + Profile list" where
  "ParseProfiles staged [] = Inr staged"
| "ParseProfiles staged (value # values) =
     (case ParseProfile value of
        Inl e \<Rightarrow> Inl e
      | Inr p \<Rightarrow>
          if list_ex (\<lambda>q. SameProfileId (profile_key p) (profile_key q)) staged then Inl DuplicateProfileError
          else ParseProfiles (staged @ [p]) values)"

definition parse_document :: "(string \<Rightarrow> json_value option) \<Rightarrow> string \<Rightarrow> ConfigurationError + Profile list" where
  "parse_document yyjson_read json =
     (if json = [] \<or> length json > MaximumSettingsBytes then Inl CapacityError
      else (case yyjson_read json of
              None \<Rightarrow> Inl JsonError
            | Some (JObj members) \<Rightarrow>
                if length members \<noteq> 1 then Inl ShapeError
                else (case obj_get ''profiles'' (JObj members) of
                        Some (JArr values) \<Rightarrow>
                          if length values > MaximumProfiles then Inl CapacityError else ParseProfiles [] values
                      | _ \<Rightarrow> Inl ShapeError)
            | Some _ \<Rightarrow> Inl ShapeError))"

text \<open>The destination is written once, when everything has been read.\<close>

definition ParseConfiguration ::
    "(string \<Rightarrow> json_value option) \<Rightarrow> string \<Rightarrow> Profile list \<Rightarrow> hresult \<times> Profile list \<times> ConfigurationError" where
  "ParseConfiguration yyjson_read json destination =
     (case parse_document yyjson_read json of
        Inl e \<Rightarrow> (E_INVALIDARG, destination, e)
      | Inr staged \<Rightarrow> (S_OK, staged, NoError))"

definition profile_value :: "Profile \<Rightarrow> json_value" where
  "profile_value p = JObj
     [(''id'', JStr (profile_key p)), (''name'', JStr (profile_name p)), (''outputId'', JStr (outputId p)),
      (''microphoneId'', JStr (microphoneId p)), (''cameraId'', JStr (cameraId p)),
      (''audioRoles'', JStr (if audioRoles p = RolesAll then ''all'' else ''communications'')),
      (''restoreLevels'', JBool (restoreLevels p)), (''outputLevel'', JUint (ucast (outputLevel p))),
      (''microphoneLevel'', JUint (ucast (microphoneLevel p)))]"

definition configuration_value :: "Profile list \<Rightarrow> json_value" where
  "configuration_value ps = JObj [(''profiles'', JArr (map profile_value ps))]"

definition profiles_accepted :: "Profile list \<Rightarrow> bool" where
  "profiles_accepted ps \<longleftrightarrow>
     list_all (\<lambda>i. ValidateProfile (ps ! i) = NoError \<and>
       list_all (\<lambda>j. \<not> SameProfileId (profile_key (ps ! i)) (profile_key (ps ! j))) [0..<i]) [0..<length ps]"

text \<open>\<open>destination\<close> says whether a buffer was given. The text is what is written to it; its length is \<open>writtenBytes\<close>.\<close>

definition SerializeConfiguration ::
    "(json_value \<Rightarrow> string option) \<Rightarrow> Profile list \<Rightarrow> bool \<Rightarrow> nat \<Rightarrow> hresult \<times> string" where
  "SerializeConfiguration yyjson_write ps destination capacity =
     (if \<not> destination then (E_POINTER, [])
      else if length ps > MaximumProfiles \<or> \<not> profiles_accepted ps then (E_INVALIDARG, [])
      else (case yyjson_write (configuration_value ps) of
              None \<Rightarrow> (E_OUTOFMEMORY, [])
            | Some json \<Rightarrow>
                if length json > MaximumSettingsBytes \<or> length json > capacity then (HRESULT_FROM_WIN32 122, [])
                else (S_OK, json)))"

section \<open>What is read is valid, and is written back\<close>

text \<open>The capacities of the arrays that hold the texts of a profile.\<close>

definition text_fits :: "Profile \<Rightarrow> bool" where
  "text_fits p \<longleftrightarrow> length (profile_key p) \<le> MaximumIdentifierBytes \<and> length (profile_name p) \<le> MaximumNameScalars * 4 \<and>
     length (outputId p) \<le> MaximumDeviceIdBytes \<and> length (microphoneId p) \<le> MaximumDeviceIdBytes \<and>
     length (cameraId p) \<le> MaximumDeviceIdBytes"

definition configuration_ok :: "Profile list \<Rightarrow> bool" where
  "configuration_ok ps \<longleftrightarrow> length ps \<le> MaximumProfiles \<and> list_all (\<lambda>p. ValidateProfile p = NoError \<and> text_fits p) ps \<and>
     distinct (map (\<lambda>p. map fold_case (profile_key p)) ps)"

lemma ParseProfile_valid: "ParseProfile v = Inr p \<Longrightarrow> ValidateProfile p = NoError \<and> text_fits p"
  by (cases v) (auto simp: ParseProfile_def Let_def text_fits_def split: if_splits option.splits)

lemma ParseProfile_not_NoError: "ParseProfile v \<noteq> Inl NoError"
  by (cases v) (auto simp: ParseProfile_def Let_def split: if_splits option.splits)

lemma ParseProfiles_ok:
  "ParseProfiles staged vs = Inr ps \<Longrightarrow> list_all (\<lambda>p. ValidateProfile p = NoError \<and> text_fits p) staged \<Longrightarrow>
   distinct (map (\<lambda>p. map fold_case (profile_key p)) staged) \<Longrightarrow>
   length ps = length staged + length vs \<and> list_all (\<lambda>p. ValidateProfile p = NoError \<and> text_fits p) ps \<and>
   distinct (map (\<lambda>p. map fold_case (profile_key p)) ps)"
proof (induction staged vs rule: ParseProfiles.induct)
  case (2 staged v vals)
  from 2(2) obtain p where p: "ParseProfile v = Inr p"
      "\<not> list_ex (\<lambda>q. SameProfileId (profile_key p) (profile_key q)) staged"
      "ParseProfiles (staged @ [p]) vals = Inr ps"
    by (auto split: sum.splits if_splits)
  have "distinct (map (\<lambda>p. map fold_case (profile_key p)) (staged @ [p]))"
    using 2(4) p(2) by (auto simp: list_ex_iff SameProfileId_iff)
  moreover have "list_all (\<lambda>p. ValidateProfile p = NoError \<and> text_fits p) (staged @ [p])"
    using 2(3) ParseProfile_valid [OF p(1)] by simp
  ultimately show ?case using 2(1) [OF p(1) p(2) p(3)] by simp
qed simp

lemma ParseProfiles_not_NoError: "ParseProfiles staged vs \<noteq> Inl NoError"
  by (induction staged vs rule: ParseProfiles.induct) (auto simp: ParseProfile_not_NoError split: sum.splits)

lemma parse_document_ok: "parse_document r json = Inr ps \<Longrightarrow> configuration_ok ps"
  by (auto simp: parse_document_def configuration_ok_def split: if_splits option.splits json_value.splits dest!: ParseProfiles_ok)

lemma parse_document_not_NoError: "parse_document r json \<noteq> Inl NoError"
  by (auto simp: parse_document_def ParseProfiles_not_NoError split: option.splits json_value.splits)

lemma profiles_accepted_iff:
  "profiles_accepted ps \<longleftrightarrow> list_all (\<lambda>p. ValidateProfile p = NoError) ps \<and>
     distinct (map (\<lambda>p. map fold_case (profile_key p)) ps)"
proof -
  have "distinct (map (\<lambda>p. map fold_case (profile_key p)) ps) \<longleftrightarrow>
      (\<forall>i < length ps. \<forall>j < i. \<not> SameProfileId (profile_key (ps ! i)) (profile_key (ps ! j)))"
    unfolding distinct_conv_nth SameProfileId_iff by (auto simp: nat_neq_iff) metis
  then show ?thesis unfolding profiles_accepted_def by (auto simp: list_all_length)
qed

lemma profile_value_members: "members_known 0 (map fst (case profile_value p of JObj members \<Rightarrow> members | _ \<Rightarrow> []))"
  unfolding profile_value_def by simp code_simp

lemma level_through_json: "(ucast (ucast v :: u64) :: u32) = v" "(ucast v :: u64) > 100 \<longleftrightarrow> v > 100" for v :: u32
  proof -
  have u: "unat (ucast v :: u64) = unat v" using unsigned_less [of v, where ?'a = nat] by (simp add: unsigned_ucast_eq take_bit_nat_eq_self)
  show "(ucast (ucast v :: u64) :: u32) = v" 
    using unsigned_less [of v, where ?'a = nat] by (simp add: word_unat_eq_iff unsigned_ucast_eq [of "ucast v :: u64"] u take_bit_nat_eq_self)
  show "(ucast v :: u64) > 100 \<longleftrightarrow> v > 100" by (simp add: word_less_nat_alt u)
qed

lemma ParseProfile_value:
  assumes "ValidateProfile p = NoError" "text_fits p"
  shows "ParseProfile (profile_value p) = Inr p"
proof -
  have lv: "\<not> outputLevel p > 100" "\<not> microphoneLevel p > 100"
    using assms(1) by (auto simp: ValidateProfile_def split: if_splits)
  have roles: "(if (if audioRoles p = RolesAll then ''all'' else ''communications'') = ''all'' then RolesAll else Communications)
      = audioRoles p" by (cases "audioRoles p") simp_all
  show ?thesis
    using profile_value_members [of p] assms lv roles
    by (cases p) (simp add: ParseProfile_def profile_value_def Let_def obj_get_def String_def uint_of_def bool_of_def
        text_fits_def level_through_json)
qed

lemma ParseProfiles_values:
  "list_all (\<lambda>p. ValidateProfile p = NoError \<and> text_fits p) ps \<Longrightarrow>
   distinct (map (\<lambda>p. map fold_case (profile_key p)) (staged @ ps)) \<Longrightarrow>
   ParseProfiles staged (map profile_value ps) = Inr (staged @ ps)"
proof (induction ps arbitrary: staged)
  case (Cons p ps)
  have "\<not> list_ex (\<lambda>q. SameProfileId (profile_key p) (profile_key q)) staged"
    using Cons.prems(2) by (auto simp: list_ex_iff SameProfileId_iff)
  then show ?case using Cons ParseProfile_value [of p] by simp
qed simp

text \<open>C24: Reading a configuration is transactional and strict. ParseConfiguration either succeeds with at most four profiles
  that are all valid, fit their arrays and have different ids up to case, or it fails with E_INVALIDARG, names an error and
  leaves the destination as it was.\<close>

theorem parsed_configuration_is_valid:
  "case ParseConfiguration yyjson_read json destination of (hr, ps, e) \<Rightarrow>
     if hr = S_OK then configuration_ok ps \<and> e = NoError
     else hr = E_INVALIDARG \<and> ps = destination \<and> e \<noteq> NoError"
proof (cases "parse_document yyjson_read json")
  case (Inl e)
  then show ?thesis using parse_document_not_NoError [of yyjson_read json]
    by (simp add: ParseConfiguration_def S_OK_def E_INVALIDARG_def)
next
  case (Inr ps)
  then show ?thesis using parse_document_ok [OF Inr] by (simp add: ParseConfiguration_def)
qed

text \<open>C25: What SerializeConfiguration writes, ParseConfiguration reads back: for profiles whose texts fit their arrays, if yyjson
  reads the text it wrote as the document it was given, and reads nothing from an empty text, the profiles come back unchanged.\<close>

theorem configuration_roundtrip:
  assumes "SerializeConfiguration yyjson_write ps True capacity = (S_OK, json)"
      and "list_all text_fits ps"
      and "\<And>text. yyjson_write (configuration_value ps) = Some text \<Longrightarrow> yyjson_read text = Some (configuration_value ps)"
      and "yyjson_read [] = None"
  shows "ParseConfiguration yyjson_read json destination = (S_OK, ps, NoError)"
proof -
  have w: "yyjson_write (configuration_value ps) = Some json" "length json \<le> MaximumSettingsBytes"
      "length ps \<le> MaximumProfiles" "profiles_accepted ps"
    using assms(1) by (auto simp: SerializeConfiguration_def S_OK_def E_INVALIDARG_def E_OUTOFMEMORY_def
        HRESULT_FROM_WIN32_def split: if_splits option.splits)
  have r: "yyjson_read json = Some (configuration_value ps)" using assms(3) [OF w(1)] .
  then have "json \<noteq> []" using assms(4) by auto
  moreover have "ParseProfiles [] (map profile_value ps) = Inr ps"
    using ParseProfiles_values [of ps "[]"] w(4) assms(2) by (simp add: profiles_accepted_iff list_all_iff)
  ultimately show ?thesis
    using r w(2,3) by (simp add: ParseConfiguration_def parse_document_def configuration_value_def obj_get_def)
qed

definition sample_profile :: Profile where
  "sample_profile = \<lparr>profile_key = ''d'', profile_name = ''D'', outputId = ''o'', microphoneId = ''m'',
     cameraId = ''c'', audioRoles = RolesAll, restoreLevels = True, outputLevel = 40, microphoneLevel = 100\<rparr>"

definition sample_json :: string where
  "sample_json = ''{profiles:[{id:d,name:D,outputId:o}]}''"

lemma sample_serialized:
  "SerializeConfiguration (\<lambda>v. Some sample_json) [sample_profile] True 4096 = (S_OK, sample_json)"
proof -
  have "profiles_accepted [sample_profile]" by code_simp
  then show ?thesis by (simp add: SerializeConfiguration_def MaximumProfiles_def MaximumSettingsBytes_def sample_json_def)
qed

theorem configuration_roundtrip_witness:
  "ParseConfiguration (\<lambda>t. if t = sample_json then Some (configuration_value [sample_profile]) else None) sample_json [] =
     (S_OK, [sample_profile], NoError)"
  by (rule configuration_roundtrip [OF sample_serialized])
    (simp_all add: text_fits_def sample_profile_def sample_json_def MaximumIdentifierBytes_def MaximumNameScalars_def
      MaximumDeviceIdBytes_def)

section \<open>What is sent to the broker\<close>

text \<open>\<open>to_wide\<close> is the count \<open>MultiByteToWideChar\<close> returns with \<open>MB_ERR_INVALID_CHARS\<close>. The terminator of a text is not part
  of the model: a text is its view.\<close>

definition ValidProtocolId :: "(string \<Rightarrow> nat) \<Rightarrow> device_id \<Rightarrow> bool \<Rightarrow> bool" where
  "ValidProtocolId to_wide i required =
     (if length i > MaximumDeviceIdBytes \<or> (required \<and> i = []) then False
      else if i = [] then True
      else if CHR 0x00 \<in> set i then False
      else to_wide i > 0)"

definition valid_ids :: "(string \<Rightarrow> nat) \<Rightarrow> nat \<Rightarrow> device_id list \<Rightarrow> bool" where
  "valid_ids to_wide capacity ids \<longleftrightarrow>
     length ids \<le> capacity \<and>
     list_all (\<lambda>i. ValidProtocolId to_wide (ids ! i) True \<and> list_all (\<lambda>j. ids ! i \<noteq> ids ! j) [0..<i]) [0..<length ids]"

definition ValidInventoryPreferences :: "(string \<Rightarrow> nat) \<Rightarrow> InventoryPreferences \<Rightarrow> bool" where
  "ValidInventoryPreferences to_wide preferences \<longleftrightarrow>
     pref_truncated preferences \<le> 1 \<and> valid_ids to_wide MaximumOutputs (pref_outputs preferences) \<and>
     valid_ids to_wide MaximumInputs (pref_inputs preferences) \<and> valid_ids to_wide MaximumCameras (pref_cameras preferences)"

lemma valid_ids_iff:
  "valid_ids to_wide capacity ids \<longleftrightarrow>
     length ids \<le> capacity \<and> distinct ids \<and> (\<forall>i \<in> set ids. ValidProtocolId to_wide i True)"
proof -
  have d: "distinct ids \<longleftrightarrow> (\<forall>i < length ids. \<forall>j < i. ids ! i \<noteq> ids ! j)"
    unfolding distinct_conv_nth by (auto simp: nat_neq_iff) metis
  show ?thesis
    unfolding valid_ids_def d all_set_conv_all_nth [of ids "\<lambda>i. ValidProtocolId to_wide i True"] list_all_iff by auto
qed

lemma char_of_nonzero:
  fixes m :: nat
  assumes "0 < m" "m < 256"
  shows "CHR 0x00 \<noteq> char_of m"
proof
  assume "CHR 0x00 = char_of m"
  then have "of_char (char_of m :: char) = (of_char (CHR 0x00) :: nat)" by (rule arg_cong [OF sym])
  then have "of_char (char_of m :: char) = (0 :: nat)" by simp
  then show False using code_of_char [OF assms(2)] assms(1) by simp
qed

lemma encoded_nonzero:
  assumes "scalar_value n"
  shows "CHR 0x00 \<notin> set (utf8_encode n)"
proof -
  have n: "0 < n" "n \<le> 0x10FFFF" using assms by (simp_all add: scalar_value_def)
  have t: "CHR 0x00 \<noteq> char_of (0x80 + m mod 64)" for m :: nat
    by (rule char_of_nonzero) (simp_all add: less_le_trans [OF mod_less_divisor])
  consider "n < 0x80" | "0x80 \<le> n" "n < 0x800" | "0x800 \<le> n" "n < 0x10000" | "0x10000 \<le> n" by linarith
  then show ?thesis
  proof cases
    case 1
    then show ?thesis using n char_of_nonzero [of n] by (simp add: utf8_encode_def)
  next
    case 2
    then have "CHR 0x00 \<noteq> char_of (0xC0 + n div 64)" by (intro char_of_nonzero) (simp_all add: less_mult_imp_div_less)
    then show ?thesis using 2 t [of n] by (simp add: utf8_encode_def)
  next
    case 3
    then have "n div 4096 < 16" by (simp add: less_mult_imp_div_less)
    then have "CHR 0x00 \<noteq> char_of (0xE0 + n div 4096)" by (intro char_of_nonzero) simp_all
    then show ?thesis using 3 t [of n] t [of "n div 64"] by (simp add: utf8_encode_def)
  next
    case 4
    have "n div 262144 < 5" using n(2) by (simp add: less_mult_imp_div_less)
    then have "CHR 0x00 \<noteq> char_of (0xF0 + n div 262144)" by (intro char_of_nonzero) simp_all
    then show ?thesis using 4 t [of n] t [of "n div 64"] t [of "n div 4096"] by (simp add: utf8_encode_def)
  qed
qed

lemma ValidUtf8_nonzero:
  assumes "ValidUtf8 s m rc"
  shows "s \<noteq> []" "CHR 0x00 \<notin> set s"
proof -
  obtain ns where ns: "s = concat (map utf8_encode ns)" "ns \<noteq> []" "\<forall>n \<in> set ns. scalar_value n"
    using assms unfolding ValidUtf8_def utf8_loop_iff [of 0 m rc s, simplified] utf8_text_def list_all_iff by auto
  show "CHR 0x00 \<notin> set s" using ns(3) encoded_nonzero unfolding ns(1) by auto
  show "s \<noteq> []" using ns(2) utf8_encode_ne unfolding ns(1) by (cases ns) auto
qed

lemma Rank_None:
  assumes "Rank ids i = UnreferencedDevice" "length ids < 0xFFFFFFFF"
  shows "i \<notin> set ids"
proof -
  have "place_of i ids = None"
  proof (rule ccontr)
    assume "place_of i ids \<noteq> None"
    then obtain n where n: "place_of i ids = Some n" by auto
    then have "n < 0xFFFFFFFF" using place_of_Some [OF n] assms(2) by simp
    from unat_place [OF this] show False using assms(1) n by (simp add: Rank_def)
  qed
  then show ?thesis by (simp add: place_of_None)
qed

lemma AddPreference_valid:
  assumes "valid_ids to_wide capacity ids" "ValidProtocolId to_wide i True" "capacity < 0xFFFFFFFF"
  shows "valid_ids to_wide capacity (snd (AddPreference capacity i ids))"
  using assms Rank_None [of ids i] by (auto simp: AddPreference_def valid_ids_iff)

lemma AddProfile_valid:
  assumes "ValidInventoryPreferences to_wide prefs"
      and "\<forall>i \<in> {outputId p, microphoneId p, cameraId p}. ValidProtocolId to_wide i True"
  shows "ValidInventoryPreferences to_wide (AddProfile p prefs)"
proof -
  have c: "MaximumOutputs < 0xFFFFFFFF" "MaximumInputs < 0xFFFFFFFF" "MaximumCameras < 0xFFFFFFFF"
    by (simp_all add: MaximumOutputs_def MaximumInputs_def MaximumCameras_def)
  show ?thesis
    using assms AddPreference_valid [OF _ _ c(1), of to_wide "pref_outputs prefs" "outputId p"]
      AddPreference_valid [OF _ _ c(2), of to_wide "pref_inputs prefs" "microphoneId p"]
      AddPreference_valid [OF _ _ c(3), of to_wide "pref_cameras prefs" "cameraId p"]
    by (simp add: AddProfile_def ValidInventoryPreferences_def split_beta Let_def)
qed

lemma valid_profile_ids:
  assumes "ValidateProfile p = NoError" "text_fits p"
      and "\<And>i. ValidUtf8 i MaximumDeviceIdBytes False \<Longrightarrow> to_wide i > 0"
  shows "\<forall>i \<in> {outputId p, microphoneId p, cameraId p}. ValidProtocolId to_wide i True"
proof -
  have "ValidProtocolId to_wide i True" if "ValidUtf8 i MaximumDeviceIdBytes False" "length i \<le> MaximumDeviceIdBytes" for i
    using ValidUtf8_nonzero [OF that(1)] assms(3) [OF that(1)] that(2) by (simp add: ValidProtocolId_def)
  then show ?thesis using assms(1,2) by (auto simp: ValidateProfile_def text_fits_def split: if_splits)
qed

definition preferences_of :: "Profile list list \<Rightarrow> InventoryPreferences" where
  "preferences_of configurations = fold (fold AddProfile) configurations InventoryPreferences_init"

text \<open>C26: The saved devices of any widgets may always be sent to the broker. The preferences gathered from configurations that
  were read or pass validation satisfy the check the helper makes of them, ValidInventoryPreferences: within the capacities,
  without duplicates, and every id is a non-empty text without a zero byte that Windows decodes, given that Windows decodes
  every text ValidUtf8 accepts.\<close>

theorem saved_preferences_pass_the_helper:
  assumes "\<And>i. ValidUtf8 i MaximumDeviceIdBytes False \<Longrightarrow> to_wide i > 0"
      and "list_all configuration_ok configurations"
  shows "ValidInventoryPreferences to_wide (preferences_of configurations)"
proof -
  have one: "ValidInventoryPreferences to_wide (fold AddProfile ps prefs)"
    if "list_all (\<lambda>p. ValidateProfile p = NoError \<and> text_fits p) ps" "ValidInventoryPreferences to_wide prefs" for ps prefs
    using that
  proof (induction ps arbitrary: prefs)
    case (Cons p ps)
    have "ValidInventoryPreferences to_wide (AddProfile p prefs)"
      using AddProfile_valid [OF Cons.prems(2) valid_profile_ids] Cons.prems(1) assms(1) by simp
    then show ?case using Cons by simp
  qed simp
  have "ValidInventoryPreferences to_wide (fold (fold AddProfile) configurations prefs)"
    if "ValidInventoryPreferences to_wide prefs" for prefs
    using assms(2) that by (induction configurations arbitrary: prefs) (simp_all add: configuration_ok_def one)
  moreover have "ValidInventoryPreferences to_wide InventoryPreferences_init"
    by (simp add: ValidInventoryPreferences_def InventoryPreferences_init_def valid_ids_def)
  ultimately show ?thesis unfolding preferences_of_def by blast
qed

lemma sample_ok: "configuration_ok [sample_profile]"
proof -
  have "ValidateProfile sample_profile = NoError" by code_simp
  then show ?thesis
    by (simp add: configuration_ok_def text_fits_def sample_profile_def MaximumIdentifierBytes_def MaximumNameScalars_def
      MaximumDeviceIdBytes_def MaximumProfiles_def)
qed

theorem saved_preferences_pass_the_helper_witness:
  "ValidInventoryPreferences length (preferences_of [[sample_profile], [], [sample_profile]])"
proof (rule saved_preferences_pass_the_helper)
  show "0 < length i" if "ValidUtf8 i MaximumDeviceIdBytes False" for i using ValidUtf8_nonzero(1) [OF that] by simp
  show "list_all configuration_ok [[sample_profile], [], [sample_profile]]"
    using sample_ok by (simp add: configuration_ok_def)
qed

section \<open>The level gesture\<close>

record LevelGesture =
  g_id :: device_id
  g_generation :: u64
  g_levelRevision :: u64
  g_layoutRevision :: u64
  g_initial :: u32
  g_draft :: u32
  g_active :: bool

definition LevelGesture_init :: LevelGesture where
  "LevelGesture_init = \<lparr>g_id = [], g_generation = 0, g_levelRevision = 0, g_layoutRevision = 0, g_initial = 0, g_draft = 0,
     g_active = False\<rparr>"

definition GestureCancel :: "LevelGesture \<Rightarrow> LevelGesture" where
  "GestureCancel g = g\<lparr>g_active := False, g_draft := g_initial g\<rparr>"

definition GestureBegin :: "Endpoint \<Rightarrow> u64 \<Rightarrow> LevelGesture \<Rightarrow> bool \<times> LevelGesture" where
  "GestureBegin endpoint layoutRevision g =
     (let g = GestureCancel g
      in if ep_availability endpoint \<noteq> Ready \<or> ep_id endpoint = [] \<or> ep_level endpoint > 100 then (False, g)
         else (True, g\<lparr>g_id := ep_id endpoint, g_generation := ep_generation endpoint,
                g_levelRevision := levelRevision endpoint, g_layoutRevision := layoutRevision,
                g_initial := ep_level endpoint, g_draft := ep_level endpoint, g_active := True\<rparr>))"

definition GesturePreview :: "u32 \<Rightarrow> LevelGesture \<Rightarrow> bool \<times> LevelGesture" where
  "GesturePreview level g = (if \<not> g_active g \<or> level > 100 then (False, g) else (True, g\<lparr>g_draft := level\<rparr>))"

definition GestureCommit :: "Endpoint \<Rightarrow> u64 \<Rightarrow> LevelGesture \<Rightarrow> u32 option \<times> LevelGesture" where
  "GestureCommit endpoint layoutRevision g =
     (let coherent = g_active g \<and> ep_availability endpoint = Ready \<and> ep_id endpoint = g_id g \<and>
            ep_generation endpoint = g_generation g \<and> levelRevision endpoint = g_levelRevision g \<and>
            layoutRevision = g_layoutRevision g;
          draft = g_draft g
      in (if coherent then Some draft else None, GestureCancel g))"

definition StepLevel :: "u32 \<Rightarrow> 32 word \<Rightarrow> u32" where
  "StepLevel level delta = word_of_int (max 0 (min 100 (uint (min level 100) + sint delta)))"

lemma StepLevel_at_most_100: "StepLevel level delta \<le> 100"
proof -
  define n where "n = max 0 (min 100 (uint (min level 100) + sint delta))"
  have "0 \<le> n" "n \<le> 100" by (simp_all add: n_def)
  then have "uint (word_of_int n :: u32) = n" by (simp add: unsigned_of_int take_bit_int_eq_self)
  then show ?thesis using \<open>n \<le> 100\<close> unfolding StepLevel_def n_def [symmetric] by (simp add: word_le_def)
qed

text \<open>What the widget calls on the gesture, in any order.\<close>

datatype gesture_call = CallBegin Endpoint u64 | CallPreview u32 | CallCommit Endpoint u64 | CallCancel

fun gesture_step :: "gesture_call \<Rightarrow> LevelGesture \<Rightarrow> LevelGesture" where
  "gesture_step (CallBegin e r) g = snd (GestureBegin e r g)"
| "gesture_step (CallPreview l) g = snd (GesturePreview l g)"
| "gesture_step (CallCommit e r) g = snd (GestureCommit e r g)"
| "gesture_step CallCancel g = GestureCancel g"

definition gesture_after :: "gesture_call list \<Rightarrow> LevelGesture" where
  "gesture_after calls = fold gesture_step calls LevelGesture_init"

definition began_as :: "Endpoint \<Rightarrow> u64 \<Rightarrow> u32 list \<Rightarrow> LevelGesture \<Rightarrow> bool" where
  "began_as e r previews g \<longleftrightarrow>
     ep_availability e = Ready \<and> ep_level e \<le> 100 \<and> ep_id e = g_id g \<and> ep_generation e = g_generation g \<and>
     levelRevision e = g_levelRevision g \<and> r = g_layoutRevision g \<and>
     g_draft g = last (ep_level e # filter (\<lambda>l. l \<le> 100) previews)"

lemma began_as_preview:
  "g_active g \<Longrightarrow> began_as e r previews g \<Longrightarrow> began_as e r (previews @ [l]) (snd (GesturePreview l g))"
  by (auto simp: GesturePreview_def began_as_def not_less split: if_splits)

lemma began_as_begin: "fst (GestureBegin e r g) \<Longrightarrow> began_as e r [] (snd (GestureBegin e r g))"
  by (auto simp: GestureBegin_def began_as_def Let_def not_less split: if_splits)

lemma active_step:
  "g_active (snd (GestureBegin e r g)) \<Longrightarrow> fst (GestureBegin e r g)"
  "g_active (snd (GesturePreview l g)) \<Longrightarrow> g_active g"
  "\<not> g_active (snd (GestureCommit e r g))" "\<not> g_active (GestureCancel g)"
  by (simp_all add: GestureBegin_def GesturePreview_def GestureCommit_def GestureCancel_def Let_def split: if_splits)

lemma gesture_after_snoc: "gesture_after (calls @ [c]) = gesture_step c (gesture_after calls)"
  by (simp add: gesture_after_def)

lemma active_gesture_began:
  "g_active (gesture_after calls) \<Longrightarrow>
   \<exists>before e r previews. calls = before @ CallBegin e r # map CallPreview previews \<and> began_as e r previews (gesture_after calls)"
proof (induction calls rule: rev_induct)
  case Nil
  then show ?case by (simp add: gesture_after_def LevelGesture_init_def)
next
  case (snoc c calls)
  note active = snoc.prems [unfolded gesture_after_snoc]
  show ?case
  proof (cases c)
    case (CallBegin e r)
    have "began_as e r [] (gesture_after (calls @ [c]))"
      unfolding gesture_after_snoc CallBegin gesture_step.simps
      by (rule began_as_begin) (rule active_step(1) [OF active [unfolded CallBegin gesture_step.simps]])
    then show ?thesis using CallBegin by (intro exI [of _ calls] exI [of _ e] exI [of _ r] exI [of _ "[]"]) simp
  next
    case (CallPreview l)
    have a: "g_active (gesture_after calls)" by (rule active_step(2) [OF active [unfolded CallPreview gesture_step.simps]])
    from snoc.IH [OF a] obtain before e r previews where b: "calls = before @ CallBegin e r # map CallPreview previews"
        "began_as e r previews (gesture_after calls)" by blast
    have "began_as e r (previews @ [l]) (gesture_after (calls @ [c]))"
      unfolding gesture_after_snoc CallPreview gesture_step.simps by (rule began_as_preview [OF a b(2)])
    then show ?thesis using b(1) CallPreview by (intro exI [of _ before] exI [of _ e] exI [of _ r] exI [of _ "previews @ [l]"]) simp
  next
    case CallCommit
    then show ?thesis using active active_step(3) by simp
  next
    case CallCancel
    then show ?thesis using active active_step(4) by simp
  qed
qed

lemma last_filtered:
  fixes a :: u32
  assumes "a \<le> 100"
  shows "last (a # filter (\<lambda>l. l \<le> 100) ls) \<le> 100"
proof -
  have "last (a # filter (\<lambda>l. l \<le> 100) ls) \<in> insert a {l. l \<le> 100}"
    using last_in_set [of "a # filter (\<lambda>l. l \<le> 100) ls"] by auto
  then show ?thesis using assms by auto
qed

text \<open>C27: A level gesture writes only what the user last previewed, to the device it began on. When Commit yields a level after
  any calls, the gesture has been begun with the same layout revision on the same device, generation and level revision, which
  was ready, and since then only previews came; the level is the last preview that was at most 100, or the level the gesture
  began with, and the gesture is over.\<close>

theorem gesture_commits_last_preview:
  assumes "GestureCommit endpoint layoutRevision (gesture_after calls) = (Some level, g)"
  shows "\<exists>before e previews. calls = before @ CallBegin e layoutRevision # map CallPreview previews \<and>
           ep_availability e = Ready \<and> ep_id e = ep_id endpoint \<and> ep_generation e = ep_generation endpoint \<and>
           levelRevision e = levelRevision endpoint \<and> ep_availability endpoint = Ready \<and>
           level = last (ep_level e # filter (\<lambda>l. l \<le> 100) previews) \<and> level \<le> 100 \<and> \<not> g_active g"
proof -
  from assms have c: "g_active (gesture_after calls)" "ep_availability endpoint = Ready"
      "ep_id endpoint = g_id (gesture_after calls)" "ep_generation endpoint = g_generation (gesture_after calls)"
      "levelRevision endpoint = g_levelRevision (gesture_after calls)"
      "layoutRevision = g_layoutRevision (gesture_after calls)" "level = g_draft (gesture_after calls)" "\<not> g_active g"
    by (auto simp: GestureCommit_def GestureCancel_def Let_def split: if_splits)
  from active_gesture_began [OF c(1)] obtain before e r previews where
      b: "calls = before @ CallBegin e r # map CallPreview previews" "began_as e r previews (gesture_after calls)" by blast
  then show ?thesis
    using c last_filtered by (intro exI [of _ before] exI [of _ e] exI [of _ previews]) (auto simp: began_as_def)
qed

definition sample_endpoint :: Endpoint where
  "sample_endpoint = \<lparr>ep_id = ''o1'', ep_name = [], ep_availability = Ready, ep_level = 30, ep_muted = False,
     ep_generation = 2, levelRevision = 5, muteRevision = 1\<rparr>"

theorem gesture_commits_last_preview_witness:
  "\<exists>before e previews. [CallCancel, CallBegin sample_endpoint 7, CallPreview 55, CallPreview 101] =
       before @ CallBegin e 7 # map CallPreview previews \<and>
     ep_availability e = Ready \<and> ep_id e = ep_id sample_endpoint \<and> ep_generation e = ep_generation sample_endpoint \<and>
     levelRevision e = levelRevision sample_endpoint \<and> ep_availability sample_endpoint = Ready \<and>
     (55 :: u32) = last (ep_level e # filter (\<lambda>l. l \<le> 100) previews) \<and> (55 :: u32) \<le> 100 \<and>
     \<not> g_active (snd (GestureCommit sample_endpoint 7
       (gesture_after [CallCancel, CallBegin sample_endpoint 7, CallPreview 55, CallPreview 101])))"
  by (rule gesture_commits_last_preview)
    (simp add: gesture_after_def GestureBegin_def GesturePreview_def GestureCancel_def GestureCommit_def LevelGesture_init_def
      sample_endpoint_def)

end
