(* ===== verification/AV_Coordinator.thy ===== *)
theory AV_Coordinator
  imports AV_Config
begin

unbundle bit_operations_syntax

text \<open>
  \<open>Plugins/AVControl/Coordinator.h\<close> and \<open>.cpp\<close>: the object that all AV widgets of a module share. The UI thread leaves
  commands in five lanes and at most one profile; the host's control worker calls \<open>Run\<close>, which takes one piece of work
  under the lock and talks to the helper; \<open>Complete\<close> comes back to the UI thread. \<open>Run\<close> is in two parts here, the part
  under the lock (\<open>RunTake\<close>) and the rest (\<open>RunWork\<close>), so that calls of the UI thread come between them; the rest only
  touches members of the worker.
\<close>

section \<open>State\<close>

datatype ViewCommandKind = SetMuted | EnableCamera | ChangeLevel | OpenProfiles | ApplyProfileRow | CloseProfiles

record ViewCommand =
  vc_kind :: ViewCommandKind
  vc_device :: DeviceKind
  vc_endpointId :: device_id
  vc_generation :: u64
  vc_revision :: u64
  vc_value :: u32

record LaneCommand =
  lc_value :: ViewCommand
  lc_acceptedAt :: u64
  lc_followRoute :: bool

text \<open>
  \<open>co_slots\<close> is the array of borrowed pointers, a pointer being a number. \<open>co_armed\<close> is whether the thread-pool wait is
  set, \<open>co_frames\<close> counts the calls of \<open>RequestFrame\<close>. The host and the wait exist, as after \<open>Initialize\<close>.
\<close>

record Coordinator =
  co_slots :: "nat option list"
  co_preferences :: InventoryPreferences
  co_workPreferences :: InventoryPreferences
  co_preferenceRevision :: u64
  co_workPreferenceRevision :: u64
  co_brokerPreferenceRevision :: u64
  co_commands :: "LaneCommand option list"
  co_profile :: "Profile option"
  co_profileAcceptedAt :: u64
  co_safety :: "u64 list"
  co_dirty :: bool
  co_observing :: bool
  co_armed :: bool
  co_visible :: u32
  co_runningMask :: u32
  co_inFlight :: bool
  co_profilePending :: bool
  co_observeRequested :: bool
  co_stopRequested :: bool
  co_revision :: u64
  co_deviceRevision :: u64
  co_lastResult :: hresult
  co_lastApply :: ApplyOutcome
  co_ranProfile :: bool
  co_stateKnown :: bool
  co_controlledRole :: nat
  co_workApply :: ApplyOutcome
  co_current :: Inventory
  co_reply :: Inventory
  co_frames :: nat

definition Endpoint_init :: Endpoint where
  "Endpoint_init = \<lparr>ep_id = [], ep_name = replicate 257 0, ep_availability = Unknown, ep_level = 0, ep_muted = False,
     ep_generation = 0, levelRevision = 0, muteRevision = 0\<rparr>"

definition Inventory_init :: Inventory where
  "Inventory_init =
     \<lparr>inv_state = \<lparr>st_output = Endpoint_init, st_microphone = Endpoint_init,
          st_camera = \<lparr>sourceId = [], cs_availability = Unknown, cs_enabled = False, cs_revision = 0\<rparr>,
          outputDefaults = [[], [], []], inputDefaults = [[], [], []], st_revision = 0\<rparr>,
        inv_outputs = [], inv_inputs = [], inv_cameras = [], outputRoleRevisions = [0, 0, 0], inputRoleRevisions = [0, 0, 0],
        capabilities = 0, inv_truncated = False, cameraRequiresHelper = False\<rparr>"

definition Coordinator_init :: Coordinator where
  "Coordinator_init =
     \<lparr>co_slots = replicate 64 None, co_preferences = InventoryPreferences_init, co_workPreferences = InventoryPreferences_init,
      co_preferenceRevision = 1, co_workPreferenceRevision = 0, co_brokerPreferenceRevision = 0,
      co_commands = replicate 5 None, co_profile = None, co_profileAcceptedAt = 0, co_safety = [0, 0, 0], co_dirty = True,
      co_observing = False, co_armed = False, co_visible = 0, co_runningMask = 0, co_inFlight = False,
      co_profilePending = False, co_observeRequested = False, co_stopRequested = False, co_revision = 1,
      co_deviceRevision = 1, co_lastResult = S_OK, co_lastApply = ApplyOutcome_init, co_ranProfile = False,
      co_stateKnown = False, co_controlledRole = 0, co_workApply = ApplyOutcome_init, co_current = Inventory_init,
      co_reply = Inventory_init, co_frames = 0\<rparr>"

section \<open>Inventories\<close>

definition SameDevices :: "Inventory \<Rightarrow> Inventory \<Rightarrow> bool" where
  "SameDevices a b \<longleftrightarrow>
     length (inv_outputs a) = length (inv_outputs b) \<and> length (inv_inputs a) = length (inv_inputs b) \<and>
     length (inv_cameras a) = length (inv_cameras b) \<and> capabilities a = capabilities b \<and>
     inv_truncated a = inv_truncated b \<and>
     list_all (\<lambda>(left, right). list_all2 (\<lambda>x y. ep_id x = ep_id y \<and> ep_name x = ep_name y \<and>
         ep_availability x = ep_availability y) left right)
       [(inv_outputs a, inv_outputs b), (inv_inputs a, inv_inputs b)] \<and>
     list_all2 (\<lambda>x y. cam_id x = cam_id y \<and> cam_name x = cam_name y \<and> cam_availability x = cam_availability y)
       (inv_cameras a) (inv_cameras b)"

definition endpoint_or_none :: "Endpoint option \<Rightarrow> Endpoint" where
  "endpoint_or_none e = (case e of Some e \<Rightarrow> e | None \<Rightarrow> Endpoint_init)"

definition SelectRole :: "nat \<Rightarrow> Inventory \<Rightarrow> Inventory" where
  "SelectRole role inventory =
     (let state = inv_state inventory
      in inventory\<lparr>inv_state := state\<lparr>
           st_output := endpoint_or_none (FindEndpoint inventory Output (outputDefaults state ! role)),
           st_microphone := endpoint_or_none (FindEndpoint inventory Microphone (inputDefaults state ! role))\<rparr>\<rparr>)"

section \<open>The UI thread\<close>

definition Invalidate :: "Coordinator \<Rightarrow> Coordinator" where
  "Invalidate c = c\<lparr>co_revision := co_revision c + 1, co_frames := co_frames c + 1\<rparr>"

definition HasPending :: "Coordinator \<Rightarrow> bool" where
  "HasPending c \<longleftrightarrow>
     co_observeRequested c \<or> co_stopRequested c \<or> co_profile c \<noteq> None \<or> list_ex (\<lambda>command. command \<noteq> None) (co_commands c)"

text \<open>\<open>queued\<close> is what \<open>IRedXeHost::QueueControlWork\<close> answers when it is called.\<close>

definition Schedule :: "hresult \<Rightarrow> Coordinator \<Rightarrow> hresult \<times> Coordinator" where
  "Schedule queued c =
     (if co_inFlight c \<or> \<not> HasPending c then (S_FALSE, c)
      else
        (let c = c\<lparr>co_inFlight := True, co_ranProfile := False, co_stateKnown := False\<rparr>
         in if FAILED queued then
              (queued, c\<lparr>co_inFlight := False, co_lastResult := queued, co_commands := replicate 5 None, co_profile := None,
                 co_profilePending := False, co_observeRequested := False, co_stopRequested := False\<rparr>)
            else (queued, c)))"

definition Disarm :: "Coordinator \<Rightarrow> Coordinator" where
  "Disarm c = c\<lparr>co_observing := False, co_armed := False\<rparr>"

text \<open>\<open>change_event\<close>: whether the broker has its event.\<close>

definition Arm :: "bool \<Rightarrow> Coordinator \<Rightarrow> Coordinator" where
  "Arm change_event c =
     (if co_visible c = 0 \<or> \<not> change_event then c else c\<lparr>co_observing := True, co_armed := True\<rparr>)"

definition Changed :: "Coordinator \<Rightarrow> Coordinator" where
  "Changed c =
     (let c = c\<lparr>co_armed := False, co_dirty := True\<rparr>
      in if co_observing c then c\<lparr>co_frames := co_frames c + 1\<rparr> else c)"

definition SetSubscriberVisible :: "bool \<Rightarrow> hresult \<Rightarrow> Coordinator \<Rightarrow> Coordinator" where
  "SetSubscriberVisible visible queued c =
     (if visible then
        (let c = c\<lparr>co_visible := co_visible c + 1\<rparr>
         in if co_visible c = 1 then Invalidate (c\<lparr>co_dirty := True\<rparr>) else c)
      else if co_visible c \<noteq> 0 then
        (let c = c\<lparr>co_visible := co_visible c - 1\<rparr>
         in if co_visible c = 0
            then snd (Schedule queued ((Disarm c)\<lparr>co_stopRequested := True, co_observeRequested := False\<rparr>)) else c)
      else c)"

definition RefreshDevices :: "Coordinator \<Rightarrow> Coordinator" where
  "RefreshDevices c = Invalidate (c\<lparr>co_dirty := True\<rparr>)"

text \<open>\<open>contents\<close> reads the configuration behind a pointer.\<close>

definition ConfigurationChanged :: "(nat \<Rightarrow> Profile list) \<Rightarrow> Coordinator \<Rightarrow> Coordinator" where
  "ConfigurationChanged contents c =
     (let c = c\<lparr>co_preferences := preferences_of (map (contents \<circ> the) (filter (\<lambda>slot. slot \<noteq> None) (co_slots c))),
              co_preferenceRevision := co_preferenceRevision c + 1, co_dirty := True\<rparr>
      in if co_visible c \<noteq> 0 then Invalidate c else c)"

definition RegisterConfiguration ::
    "(nat \<Rightarrow> Profile list) \<Rightarrow> nat option \<Rightarrow> Coordinator \<Rightarrow> hresult \<times> Coordinator" where
  "RegisterConfiguration contents configuration c =
     (case configuration of
        None \<Rightarrow> (E_INVALIDARG, c)
      | Some pointer \<Rightarrow>
          if length (contents pointer) > MaximumProfiles then (E_INVALIDARG, c)
          else if list_ex (\<lambda>slot. slot = Some pointer) (co_slots c) then (S_FALSE, c)
          else (case find (\<lambda>i. co_slots c ! i = None) [0..<length (co_slots c)] of
                  None \<Rightarrow> (HRESULT_FROM_WIN32 1816, c)
                | Some i \<Rightarrow> (S_OK, ConfigurationChanged contents (c\<lparr>co_slots := (co_slots c)[i := Some pointer]\<rparr>))))"

definition UnregisterConfiguration ::
    "(nat \<Rightarrow> Profile list) \<Rightarrow> nat option \<Rightarrow> Coordinator \<Rightarrow> Coordinator" where
  "UnregisterConfiguration contents configuration c =
     (case find (\<lambda>i. configuration \<noteq> None \<and> co_slots c ! i = configuration) [0..<length (co_slots c)] of
        None \<Rightarrow> c
      | Some i \<Rightarrow> ConfigurationChanged contents (c\<lparr>co_slots := (co_slots c)[i := None]\<rparr>))"

definition Prepare :: "hresult \<Rightarrow> Coordinator \<Rightarrow> Coordinator" where
  "Prepare queued c =
     (if co_visible c = 0 then c
      else
        snd (Schedule queued
          (if co_dirty c then c\<lparr>co_dirty := False, co_observeRequested := True, co_stopRequested := False\<rparr> else c)))"

definition PendingMask :: "Coordinator \<Rightarrow> u32" where
  "PendingMask c =
     (let bits = fold (\<lambda>i bits. if co_commands c ! i \<noteq> None then bits OR push_bit i 1 else bits)
                   [0..<length (co_commands c)] (co_runningMask c)
      in if co_profilePending c then bits OR 0x1F else bits)"

definition command_refused :: "ViewCommand \<Rightarrow> bool" where
  "command_refused command \<longleftrightarrow>
     (let device = device_index (vc_device command); kind = vc_kind command
      in device > 2 \<or> (kind \<noteq> SetMuted \<and> kind \<noteq> EnableCamera \<and> kind \<noteq> ChangeLevel) \<or>
         (kind = SetMuted \<and> device > 1) \<or> (kind = EnableCamera \<and> device \<noteq> 2) \<or> (kind = ChangeLevel \<and> device > 1) \<or>
         vc_value command > (if kind = ChangeLevel then 100 else 1))"

definition lane_of :: "ViewCommand \<Rightarrow> nat" where
  "lane_of command =
     (if vc_kind command = ChangeLevel then device_index (vc_device command) + 3 else device_index (vc_device command))"

text \<open>\<open>now\<close> is \<open>GetTickCount64\<close>.\<close>

definition Submit :: "ViewCommand \<Rightarrow> u64 \<Rightarrow> hresult \<Rightarrow> Coordinator \<Rightarrow> hresult \<times> Coordinator" where
  "Submit command now queued c =
     (let lane = lane_of command
      in if command_refused command then (E_INVALIDARG, c)
         else if co_profilePending c \<and> lane \<ge> 3 then (HRESULT_FROM_WIN32 170, c)
         else
           (let c = (if lane < 3 then c\<lparr>co_safety := Publish (vc_device command)
                       (if lane = 2 then vc_value command = 0 else vc_value command \<noteq> 0) (co_safety c)\<rparr> else c);
                entry = \<lparr>lc_value = command, lc_acceptedAt = now, lc_followRoute = (co_profilePending c \<and> lane < 3)\<rparr>
            in Schedule queued (Invalidate (c\<lparr>co_commands := (co_commands c)[lane := Some entry]\<rparr>))))"

text \<open>\<open>yyjson_write\<close> is what \<open>SerializeConfiguration\<close> writes with.\<close>

definition SubmitProfile ::
    "(json_value \<Rightarrow> string option) \<Rightarrow> Profile \<Rightarrow> u64 \<Rightarrow> hresult \<Rightarrow> Coordinator \<Rightarrow> hresult \<times> Coordinator" where
  "SubmitProfile yyjson_write p now queued c =
     (if co_profilePending c then (HRESULT_FROM_WIN32 170, c)
      else
        (let (hr, _) = SerializeConfiguration yyjson_write [p] True MaximumSettingsBytes
         in if FAILED hr then (hr, c)
            else Schedule queued (Invalidate (c\<lparr>co_profile := Some p, co_profileAcceptedAt := now, co_profilePending := True,
                   co_commands := (co_commands c)[3 := None, 4 := None]\<rparr>))))"

text \<open>\<open>Complete\<close>: the receipt of the run, and the state it confirmed or made unknown.\<close>

definition TakeReceipt :: "hresult \<Rightarrow> Coordinator \<Rightarrow> Coordinator" where
  "TakeReceipt result c =
     (let c = c\<lparr>co_inFlight := False, co_lastResult := result, co_runningMask := 0\<rparr>
      in if co_ranProfile c then c\<lparr>co_profilePending := False, co_lastApply := co_workApply c\<rparr> else c)"

definition ConfirmState :: "hresult \<Rightarrow> Coordinator \<Rightarrow> Coordinator" where
  "ConfirmState result c =
     (if co_stateKnown c then
        (if \<not> SameDevices (co_current c) (co_reply c) then c\<lparr>co_deviceRevision := co_deviceRevision c + 1\<rparr> else c)
          \<lparr>co_current := co_reply c\<rparr>
      else if FAILED result then
        (let state = inv_state (co_current c)
         in c\<lparr>co_current := (co_current c)\<lparr>inv_state := state\<lparr>
                st_output := (st_output state)\<lparr>ep_availability := Unknown\<rparr>,
                st_microphone := (st_microphone state)\<lparr>ep_availability := Unknown\<rparr>,
                st_camera := (st_camera state)\<lparr>cs_availability := Unknown\<rparr>\<rparr>\<rparr>,
              co_deviceRevision := co_deviceRevision c + 1\<rparr>)
      else c)"

definition CompleteRun :: "hresult \<Rightarrow> bool \<Rightarrow> hresult \<Rightarrow> Coordinator \<Rightarrow> Coordinator" where
  "CompleteRun result change_event queued c =
     snd (Schedule queued (Arm change_event (Invalidate (ConfirmState result (TakeReceipt result c)))))"

section \<open>The worker\<close>

datatype work_taken = TakenCommand nat LaneCommand | TakenProfile Profile u64 | TakenObservation bool

text \<open>The receipt is reset, and under the lock the preferences are copied when they are new.\<close>

definition RunReset :: "Coordinator \<Rightarrow> Coordinator" where
  "RunReset c =
     (let c = c\<lparr>co_ranProfile := False, co_stateKnown := False, co_workApply := ApplyOutcome_init, co_runningMask := 0\<rparr>
      in if co_workPreferenceRevision c \<noteq> co_preferenceRevision c
         then c\<lparr>co_workPreferences := co_preferences c, co_workPreferenceRevision := co_preferenceRevision c\<rparr> else c)"

definition RunTake :: "Coordinator \<Rightarrow> work_taken \<times> Coordinator" where
  "RunTake c =
     (let c = RunReset c
      in case find (\<lambda>i. co_commands c ! i \<noteq> None) [0..<length (co_commands c)] of
           Some i \<Rightarrow> (TakenCommand i (the (co_commands c ! i)),
             c\<lparr>co_commands := (co_commands c)[i := None], co_runningMask := push_bit i 1\<rparr>)
         | None \<Rightarrow>
             (case co_profile c of
                Some p \<Rightarrow> (TakenProfile p (co_profileAcceptedAt c), c\<lparr>co_profile := None, co_ranProfile := True\<rparr>)
              | None \<Rightarrow> (TakenObservation (co_stopRequested c),
                  c\<lparr>co_stopRequested := False, co_observeRequested := False\<rparr>)))"

text \<open>
  What the worker asks: beside the clock, the safety state and \<open>Broker::Execute\<close>, whether the cancel event is set, whether the
  helper runs, starting it with \<open>Broker::Start\<close>, \<open>Broker::SetPreferences\<close> and \<open>Broker::Stop\<close>, and whether a profile
  transaction can copy the inventory.
\<close>

record 'w run_env = "'w av_env" +
  env_cancelled :: "'w \<Rightarrow> bool \<times> 'w"
  env_running :: "'w \<Rightarrow> bool"
  env_start :: "'w \<Rightarrow> hresult \<times> 'w"
  env_preferences :: "InventoryPreferences \<Rightarrow> 'w \<Rightarrow> hresult \<times> 'w"
  env_stop :: "u32 \<Rightarrow> 'w \<Rightarrow> 'w"
  env_allocated :: "'w \<Rightarrow> bool"

definition ConnectionKnown :: "'w run_env \<Rightarrow> hresult \<Rightarrow> 'w \<Rightarrow> bool" where
  "ConnectionKnown env result w \<longleftrightarrow>
     env_running env w \<and> result \<noteq> HRESULT_FROM_WIN32 13 \<and> result \<noteq> HRESULT_FROM_WIN32 1223 \<and>
     result \<noteq> HRESULT_FROM_WIN32 1460"

definition RunRemaining :: "'w run_env \<Rightarrow> u64 \<Rightarrow> u32 \<Rightarrow> 'w \<Rightarrow> u32 \<times> 'w" where
  "RunRemaining env start budget w =
     (let (now, w) = env_tick env w; elapsed = now - start
      in (if elapsed < ucast budget then ucast (ucast budget - elapsed) else 0, w))"

definition RunExecute ::
    "'w run_env \<Rightarrow> BrokerCommand \<Rightarrow> u64 \<Rightarrow> u32 \<Rightarrow> Coordinator \<Rightarrow> 'w \<Rightarrow> hresult \<times> Coordinator \<times> 'w" where
  "RunExecute env command start budget c w =
     (let (left, w) = RunRemaining env start budget w;
          ((result, reply), w) = env_execute env command left (co_reply c) w
      in (result, c\<lparr>co_reply := reply\<rparr>, w))"

definition RunStop :: "'w run_env \<Rightarrow> u64 \<Rightarrow> u32 \<Rightarrow> Coordinator \<Rightarrow> 'w \<Rightarrow> hresult \<times> Coordinator \<times> 'w" where
  "RunStop env start budget c w =
     (if \<not> env_running env w then (S_FALSE, c, w)
      else
        (let (result, c, w) = RunExecute env (BrokerCommand_init\<lparr>operation := SuspendObservation\<rparr>) start budget c w;
             c = c\<lparr>co_stateKnown := ConnectionKnown env result w\<rparr>
         in if FAILED result \<or> \<not> cameraRequiresHelper (co_reply c) then
              (let (left, w) = RunRemaining env start budget w in (result, c, env_stop env (min 250 left) w))
            else (result, c, w)))"

definition RunConnect :: "'w run_env \<Rightarrow> Coordinator \<Rightarrow> 'w \<Rightarrow> hresult \<times> Coordinator \<times> 'w" where
  "RunConnect env c w =
     (let (result, c, w) =
            (if env_running env w then (S_OK, c, w)
             else (let (result, w) = env_start env w
                   in (result, if FAILED result then c else c\<lparr>co_brokerPreferenceRevision := 0\<rparr>, w)))
      in if FAILED result then (result, c, w)
         else if co_brokerPreferenceRevision c = co_workPreferenceRevision c then (S_OK, c, w)
         else
           (let (result, w) = env_preferences env (co_workPreferences c) w
            in if FAILED result then (result, c, w)
               else (S_OK, c\<lparr>co_brokerPreferenceRevision := co_workPreferenceRevision c\<rparr>, w)))"

definition RunProfile ::
    "'w run_env \<Rightarrow> Profile \<Rightarrow> u64 \<Rightarrow> u32 \<Rightarrow> Coordinator \<Rightarrow> 'w \<Rightarrow> hresult \<times> Coordinator \<times> 'w" where
  "RunProfile env p start budget c w =
     (let (left, w) = RunRemaining env start budget w;
          t = ApplyProfile (av_env.truncate env) p (co_reply c) True (env_allocated env w) left w;
          outcome = t_outcome t;
          c = c\<lparr>co_workApply := outcome, co_reply := t_reply t\<rparr>;
          c = (if applied outcome then c\<lparr>co_controlledRole := (if audioRoles p = Communications then 2 else 0)\<rparr> else c)
      in (out_result outcome,
          c\<lparr>co_stateKnown := (stateKnown outcome \<and> ConnectionKnown env (out_result outcome) (t_world t))\<rparr>, t_world t))"

definition lane_request :: "ViewCommand \<Rightarrow> BrokerCommand" where
  "lane_request intent =
     \<lparr>operation = (case vc_kind intent of ChangeLevel \<Rightarrow> SetLevel | SetMuted \<Rightarrow> SetMute | _ \<Rightarrow> SetCameraEnabled),
      cmd_device = vc_device intent, cmd_id = vc_endpointId intent, cmd_value = vc_value intent, cmd_role = 0,
      expectedGeneration = vc_generation intent, expectedRevision = vc_revision intent\<rparr>"

text \<open>A command accepted while a profile was pending: it goes to the device of the controlled role.\<close>

definition follow_route :: "DeviceKind \<Rightarrow> Inventory \<Rightarrow> BrokerCommand \<Rightarrow> BrokerCommand" where
  "follow_route device inventory request =
     (let state = inv_state inventory
      in if device = Camera then request\<lparr>expectedRevision := cs_revision (st_camera state)\<rparr>
         else (let e = (if device = Output then st_output state else st_microphone state)
               in request\<lparr>cmd_id := ep_id e, expectedGeneration := ep_generation e, expectedRevision := muteRevision e\<rparr>))"

definition RunCommand ::
    "'w run_env \<Rightarrow> LaneCommand option \<Rightarrow> u64 \<Rightarrow> u32 \<Rightarrow> Coordinator \<Rightarrow> 'w \<Rightarrow> hresult \<times> Coordinator \<times> 'w" where
  "RunCommand env command start budget c w =
     (let (result, request, c, w) =
            (case command of
               None \<Rightarrow> (S_OK, BrokerCommand_init, c, w)
             | Some k \<Rightarrow>
                 (let request = lane_request (lc_value k)
                  in if \<not> lc_followRoute k then (S_OK, request, c, w)
                     else
                       (let (result, c, w) = RunExecute env BrokerCommand_init start budget c w
                        in if FAILED result then (result, request, c, w)
                           else
                             (let c = c\<lparr>co_reply := SelectRole (co_controlledRole c) (co_reply c)\<rparr>
                              in (result, follow_route (vc_device (lc_value k)) (co_reply c) request, c, w)))));
          (result, c, w) =
            (if FAILED result then (result, c, w)
             else
               (let (left, w) = RunRemaining env start budget w
                in if left = 0 then (HRESULT_FROM_WIN32 1460, c, w) else RunExecute env request start budget c w))
      in (result, c\<lparr>co_stateKnown := ConnectionKnown env result w\<rparr>, w))"

text \<open>\<open>entry\<close> is the time at which \<open>Run\<close> was called.\<close>

definition taken_at :: "u64 \<Rightarrow> work_taken \<Rightarrow> u64" where
  "taken_at entry taken =
     (case taken of TakenCommand i k \<Rightarrow> lc_acceptedAt k | TakenProfile p at \<Rightarrow> at | TakenObservation stop \<Rightarrow> entry)"

definition RunWork ::
    "'w run_env \<Rightarrow> u32 \<Rightarrow> u64 \<Rightarrow> work_taken \<Rightarrow> Coordinator \<Rightarrow> 'w \<Rightarrow> hresult \<times> Coordinator \<times> 'w" where
  "RunWork env timeoutMilliseconds entry taken c w =
     (let (start, w) = env_tick env w;
          age = start - taken_at entry taken
      in if age \<ge> 3000 then (HRESULT_FROM_WIN32 1460, c, w)
         else
           (let budget = min timeoutMilliseconds (ucast (3000 - age));
                (cancelled, w) = env_cancelled env w
            in if cancelled then (HRESULT_FROM_WIN32 1223, c, w)
               else if taken = TakenObservation True then RunStop env start budget c w
               else
                 (let (result, c, w) = RunConnect env c w
                  in if FAILED result then (result, c, w)
                     else
                       (let (left, w) = RunRemaining env start budget w
                        in if left = 0 then (HRESULT_FROM_WIN32 1460, c, env_stop env 0 w)
                           else
                             (let (result, c, w) =
                                    (case taken of
                                       TakenProfile p at \<Rightarrow> RunProfile env p start budget c w
                                     | TakenCommand i k \<Rightarrow> RunCommand env (Some k) start budget c w
                                     | TakenObservation stop \<Rightarrow> RunCommand env None start budget c w)
                              in (result,
                                  if co_stateKnown c then c\<lparr>co_reply := SelectRole (co_controlledRole c) (co_reply c)\<rparr> else c,
                                  w))))))"

section \<open>The calls in order\<close>

text \<open>
  Where the one piece of control work of the coordinator is: not queued, queued, taken, or run and about to be completed.
  The host completes queued work without running it when it waited too long or the lane is stopping (\<open>WorkSkipped\<close>), with a
  failure (\<open>RedXe/ControlWorkQueue.cpp\<close>); it runs and completes work once for each accepted request.
\<close>

datatype work_phase = Unqueued | InQueue | Working work_taken | Ran work_taken hresult

datatype 'w coord_event =
    Visibility bool hresult | Reconfigures "nat \<Rightarrow> Profile list" | FrameComes hresult | Refreshed | Registers "nat \<Rightarrow> Profile list" "nat option"
  | Unregisters "nat \<Rightarrow> Profile list" "nat option" | Submits ViewCommand u64 hresult
  | SubmitsProfile "json_value \<Rightarrow> string option" Profile u64 hresult | DevicesChange
  | WorkTaken | WorkDone u32 u64 'w | WorkSkipped hresult bool hresult | WorkCompleted bool hresult

definition next_phase :: "Coordinator \<Rightarrow> work_phase \<Rightarrow> Coordinator \<Rightarrow> Coordinator \<times> work_phase" where
  "next_phase c phase c' = (c', if co_inFlight c' \<and> \<not> co_inFlight c then InQueue else phase)"

fun ui_call :: "'w coord_event \<Rightarrow> Coordinator \<Rightarrow> Coordinator" where
  "ui_call (Visibility visible queued) c = SetSubscriberVisible visible queued c"
| "ui_call (FrameComes queued) c = Prepare queued c"
| "ui_call (Reconfigures contents) c = ConfigurationChanged contents c"
| "ui_call Refreshed c = RefreshDevices c"
| "ui_call (Registers contents configuration) c = snd (RegisterConfiguration contents configuration c)"
| "ui_call (Unregisters contents configuration) c = UnregisterConfiguration contents configuration c"
| "ui_call (Submits command now queued) c = snd (Submit command now queued c)"
| "ui_call (SubmitsProfile yyjson_write p now queued) c = snd (SubmitProfile yyjson_write p now queued c)"
| "ui_call DevicesChange c = (if co_armed c then Changed c else c)"
| "ui_call _ c = c"

definition completed :: "Coordinator \<Rightarrow> Coordinator \<times> work_phase" where
  "completed c = (c, if co_inFlight c then InQueue else Unqueued)"

fun coord_step :: "'w run_env \<Rightarrow> 'w coord_event \<Rightarrow> Coordinator \<times> work_phase \<Rightarrow> (Coordinator \<times> work_phase) option" where
  "coord_step env WorkTaken (c, phase) =
     (if phase = InQueue then (let (taken, c) = RunTake c in Some (c, Working taken)) else None)"
| "coord_step env (WorkDone timeout entry w) (c, phase) =
     (case phase of
        Working taken \<Rightarrow> (let (result, c, w) = RunWork env timeout entry taken c w in Some (c, Ran taken result))
      | _ \<Rightarrow> None)"
| "coord_step env (WorkSkipped result change_event queued) (c, phase) =
     (if phase = InQueue \<and> FAILED result
      then Some (completed (CompleteRun result change_event queued c)) else None)"
| "coord_step env (WorkCompleted change_event queued) (c, phase) =
     (case phase of
        Ran taken result \<Rightarrow> Some (completed (CompleteRun result change_event queued c))
      | _ \<Rightarrow> None)"
| "coord_step env event (c, phase) = Some (next_phase c phase (ui_call event c))"

section \<open>The invariant\<close>

fun in_work :: "work_phase \<Rightarrow> work_taken option" where
  "in_work (Working taken) = Some taken"
| "in_work (Ran taken result) = Some taken"
| "in_work _ = None"

definition lane_in_work :: "work_phase \<Rightarrow> nat option" where
  "lane_in_work phase = (case in_work phase of Some (TakenCommand i k) \<Rightarrow> Some i | _ \<Rightarrow> None)"

definition profile_in_work :: "work_phase \<Rightarrow> bool" where
  "profile_in_work phase \<longleftrightarrow> (case in_work phase of Some (TakenProfile p at) \<Rightarrow> True | _ \<Rightarrow> False)"

definition lane_bit :: "nat option \<Rightarrow> u32" where
  "lane_bit lane = (case lane of Some i \<Rightarrow> push_bit i 1 | None \<Rightarrow> 0)"

definition work_ok :: "Coordinator \<Rightarrow> work_phase \<Rightarrow> bool" where
  "work_ok c phase \<longleftrightarrow>
     length (co_commands c) = 5 \<and> (co_inFlight c \<longleftrightarrow> phase \<noteq> Unqueued) \<and>
     (co_profilePending c \<longleftrightarrow> co_profile c \<noteq> None \<or> profile_in_work phase) \<and>
     \<not> (profile_in_work phase \<and> co_profile c \<noteq> None) \<and>
     (co_profilePending c \<longrightarrow> co_commands c ! 3 = None \<and> co_commands c ! 4 = None) \<and>
     \<not> (co_observeRequested c \<and> co_stopRequested c) \<and>
     (phase \<noteq> Unqueued \<longrightarrow> co_ranProfile c = profile_in_work phase) \<and>
     co_runningMask c = lane_bit (lane_in_work phase) \<and> (\<forall>i. lane_in_work phase = Some i \<longrightarrow> i < 5)"

definition coord_ok :: "Coordinator \<times> work_phase \<Rightarrow> bool" where
  "coord_ok s \<longleftrightarrow> work_ok (fst s) (snd s) \<and> (HasPending (fst s) \<longrightarrow> co_inFlight (fst s))"

text \<open>The members the invariant is about.\<close>

definition shared where
  "shared c = (co_commands c, co_profile c, co_inFlight c, co_profilePending c, co_observeRequested c, co_stopRequested c,
     co_ranProfile c, co_runningMask c)"

lemma shared_cong:
  assumes "shared c = shared c'"
  shows "work_ok c phase = work_ok c' phase" "HasPending c = HasPending c'" "co_inFlight c = co_inFlight c'"
    "PendingMask c = PendingMask c'"
  using assms by (simp_all add: shared_def work_ok_def HasPending_def PendingMask_def)

lemma shared_quiet [simp]:
  "shared (Invalidate c) = shared c" "shared (Disarm c) = shared c" "shared (Arm b c) = shared c"
  "shared (Changed c) = shared c" "shared (ConfigurationChanged contents c) = shared c" "shared (RefreshDevices c) = shared c"
  "shared (c\<lparr>co_slots := slots\<rparr>) = shared c" "shared (c\<lparr>co_visible := n\<rparr>) = shared c" "shared (c\<lparr>co_dirty := b\<rparr>) = shared c"
  by (simp_all add: shared_def Invalidate_def Disarm_def Arm_def Changed_def ConfigurationChanged_def RefreshDevices_def Let_def)

lemma shared_ConfirmState [simp]: "shared (ConfirmState result c) = shared c"
  by (simp add: shared_def ConfirmState_def Let_def)

lemma shared_TakeReceipt:
  "shared (TakeReceipt result c) = shared (c\<lparr>co_inFlight := False, co_runningMask := 0,
     co_profilePending := (co_profilePending c \<and> \<not> co_ranProfile c)\<rparr>)"
  by (simp add: shared_def TakeReceipt_def Let_def)

text \<open>What \<open>Complete\<close> hands to \<open>Schedule\<close>.\<close>

lemma CompleteRun_schedules:
  obtains e where "CompleteRun result change_event queued c = snd (Schedule queued e)"
    "shared e = shared (c\<lparr>co_inFlight := False, co_runningMask := 0,
       co_profilePending := (co_profilePending c \<and> \<not> co_ranProfile c)\<rparr>)"
  by (rule that [OF CompleteRun_def]) (simp add: shared_TakeReceipt)

lemma shared_registers [simp]:
  "shared (snd (RegisterConfiguration contents configuration c)) = shared c"
  "shared (UnregisterConfiguration contents configuration c) = shared c"
  by (simp_all add: RegisterConfiguration_def UnregisterConfiguration_def split: option.split)

lemma shared_worker [simp]:
  "shared (c\<lparr>co_reply := r\<rparr>) = shared c" "shared (c\<lparr>co_stateKnown := b\<rparr>) = shared c"
  "shared (c\<lparr>co_brokerPreferenceRevision := n\<rparr>) = shared c" "shared (c\<lparr>co_workApply := a\<rparr>) = shared c"
  "shared (c\<lparr>co_controlledRole := role\<rparr>) = shared c"
  by (simp_all add: shared_def)

lemma shared_RunExecute: "shared (fst (snd (RunExecute env command start budget c w))) = shared c"
  by (simp add: RunExecute_def split_beta Let_def)

lemma shared_RunStop: "shared (fst (snd (RunStop env start budget c w))) = shared c"
  by (simp add: RunStop_def split_beta Let_def shared_RunExecute)

lemma shared_RunConnect: "shared (fst (snd (RunConnect env c w))) = shared c"
  by (simp add: RunConnect_def split_beta Let_def)

lemma shared_RunProfile: "shared (fst (snd (RunProfile env p start budget c w))) = shared c"
  by (simp add: RunProfile_def split_beta Let_def)

lemma shared_RunCommand: "shared (fst (snd (RunCommand env command start budget c w))) = shared c"
  by (simp add: RunCommand_def split_beta Let_def shared_RunExecute split: option.split)

lemma shared_RunWork: "shared (fst (snd (RunWork env timeout entry taken c w))) = shared c"
  by (simp add: RunWork_def split_beta Let_def shared_RunStop shared_RunConnect shared_RunProfile shared_RunCommand
      split: work_taken.split)

text \<open>What a call of \<open>Schedule\<close> does to a state whose new work is not yet queued.\<close>

lemma Schedule_ok:
  assumes "work_ok c phase" "c' = snd (Schedule queued c)"
  shows "coord_ok (c', if co_inFlight c' \<and> \<not> co_inFlight c then InQueue else phase)"
proof (cases "co_inFlight c \<or> \<not> HasPending c")
  case True
  then have "c' = c" using assms(2) by (simp add: Schedule_def)
  then show ?thesis using True assms(1) by (auto simp: coord_ok_def)
next
  case False
  then have "phase = Unqueued" using assms(1) by (simp add: work_ok_def)
  then show ?thesis
    using False assms
    by (auto simp: coord_ok_def work_ok_def Schedule_def HasPending_def profile_in_work_def lane_in_work_def lane_bit_def
        Let_def list_ex_iff)
qed

lemma next_phase_ok:
  assumes "coord_ok (c, phase)" "c' = snd (Schedule queued d)" "work_ok d phase" "co_inFlight d = co_inFlight c"
  shows "coord_ok (next_phase c phase c')"
  using Schedule_ok [OF assms(3,2)] assms(4) by (simp add: next_phase_def)

lemma quiet_ok:
  assumes "coord_ok (c, phase)" "shared c' = shared c"
  shows "coord_ok (next_phase c phase c')"
  using assms shared_cong [OF assms(2)] by (simp add: next_phase_def coord_ok_def)

lemma lane_of_less: "\<not> command_refused command \<Longrightarrow> lane_of command < 5"
  by (auto simp: command_refused_def lane_of_def device_index_def Let_def split: DeviceKind.splits if_splits)

lemma Submit_ok:
  assumes "coord_ok (c, phase)"
  shows "coord_ok (next_phase c phase (snd (Submit command now queued c)))"
proof (cases "command_refused command \<or> co_profilePending c \<and> lane_of command \<ge> 3")
  case True
  then have "snd (Submit command now queued c) = c" by (auto simp: Submit_def Let_def)
  then show ?thesis using quiet_ok [OF assms, of c] by simp
next
  case False
  have s: "shared (c\<lparr>co_safety := v\<rparr>) = shared c" for v by (simp add: shared_def)
  define d where "d = c\<lparr>co_commands := (co_commands c)[lane_of command :=
    Some \<lparr>lc_value = command, lc_acceptedAt = now, lc_followRoute = (co_profilePending c \<and> lane_of command < 3)\<rparr>]\<rparr>"
  define e where "e = Invalidate ((if lane_of command < 3 then c\<lparr>co_safety := Publish (vc_device command)
      (if lane_of command = 2 then vc_value command = 0 else vc_value command \<noteq> 0) (co_safety c)\<rparr> else c)
      \<lparr>co_commands := co_commands d\<rparr>)"
  have e: "shared e = shared d" unfolding e_def by (simp add: shared_def d_def Invalidate_def)
  have "snd (Submit command now queued c) = snd (Schedule queued e)"
    using False by (auto simp: Submit_def Let_def e_def d_def)
  moreover have "work_ok d phase"
    using assms False by (auto simp: coord_ok_def work_ok_def d_def)
  ultimately show ?thesis
    using next_phase_ok [OF assms, of _ queued e] shared_cong [OF e] by (simp add: d_def)
qed

lemma SubmitProfile_ok:
  assumes "coord_ok (c, phase)"
  shows "coord_ok (next_phase c phase (snd (SubmitProfile yyjson_write p now queued c)))"
proof (cases "co_profilePending c \<or> FAILED (fst (SerializeConfiguration yyjson_write [p] True MaximumSettingsBytes))")
  case True
  then have "snd (SubmitProfile yyjson_write p now queued c) = c" by (auto simp: SubmitProfile_def split_beta)
  then show ?thesis using quiet_ok [OF assms, of c] by simp
next
  case False
  define e where "e = c\<lparr>co_profile := Some p, co_profileAcceptedAt := now, co_profilePending := True,
    co_commands := (co_commands c)[3 := None, 4 := None]\<rparr>"
  have i: "shared (Invalidate e) = shared e" by simp
  have "snd (SubmitProfile yyjson_write p now queued c) = snd (Schedule queued (Invalidate e))"
    using False by (simp add: SubmitProfile_def split_beta e_def)
  moreover have "work_ok e phase" using assms False by (auto simp: coord_ok_def work_ok_def e_def)
  ultimately show ?thesis
    using next_phase_ok [OF assms, of _ queued "Invalidate e"] shared_cong [OF i] by (simp add: e_def)
qed

lemma SetSubscriberVisible_ok:
  assumes "coord_ok (c, phase)"
  shows "coord_ok (next_phase c phase (SetSubscriberVisible visible queued c))"
proof (cases "visible \<or> co_visible c = 0 \<or> co_visible c - 1 \<noteq> 0")
  case True
  then have "shared (SetSubscriberVisible visible queued c) = shared c" by (auto simp: SetSubscriberVisible_def Let_def)
  then show ?thesis by (rule quiet_ok [OF assms])
next
  case False
  define e where "e = (Disarm (c\<lparr>co_visible := 0\<rparr>))\<lparr>co_stopRequested := True, co_observeRequested := False\<rparr>"
  have "SetSubscriberVisible visible queued c = snd (Schedule queued e)"
    using False by (simp add: SetSubscriberVisible_def Let_def e_def)
  moreover have "work_ok e phase" using assms by (auto simp: coord_ok_def work_ok_def e_def Disarm_def)
  ultimately show ?thesis using next_phase_ok [OF assms, of _ queued e] by (simp add: e_def Disarm_def)
qed

lemma Prepare_ok:
  assumes "coord_ok (c, phase)"
  shows "coord_ok (next_phase c phase (Prepare queued c))"
proof (cases "co_visible c = 0")
  case True
  then show ?thesis using quiet_ok [OF assms, of c] by (simp add: Prepare_def)
next
  case False
  define e where "e = (if co_dirty c then c\<lparr>co_dirty := False, co_observeRequested := True, co_stopRequested := False\<rparr> else c)"
  have "Prepare queued c = snd (Schedule queued e)" using False by (simp add: Prepare_def e_def)
  moreover have "work_ok e phase" using assms by (auto simp: coord_ok_def work_ok_def e_def)
  ultimately show ?thesis using next_phase_ok [OF assms, of _ queued e] by (simp add: e_def)
qed

lemma ui_call_ok: "coord_ok (c, phase) \<Longrightarrow> coord_ok (next_phase c phase (ui_call event c))"
  by (cases event) (simp_all add: Submit_ok SubmitProfile_ok SetSubscriberVisible_ok Prepare_ok quiet_ok)

lemma first_command:
  "find (\<lambda>i. commands ! i \<noteq> None) [0..<length commands] = Some i \<longleftrightarrow>
     i < length commands \<and> commands ! i \<noteq> None \<and> (\<forall>j < i. commands ! j = None)"
  by (auto simp: find_Some_iff)

lemma no_command:
  "find (\<lambda>i. commands ! i \<noteq> None) [0..<length commands] = None \<longleftrightarrow> \<not> list_ex (\<lambda>command. command \<noteq> None) commands"
  by (auto simp: find_None_iff list_ex_length)

lemma no_command_nth: "\<not> list_ex (\<lambda>command. command \<noteq> None) commands \<Longrightarrow> i < length commands \<Longrightarrow> commands ! i = None"
  by (simp add: list_ex_length)

lemma RunReset_simps [simp]:
  "co_commands (RunReset c) = co_commands c" "co_profile (RunReset c) = co_profile c"
  "co_profilePending (RunReset c) = co_profilePending c" "co_inFlight (RunReset c) = co_inFlight c"
  "co_observeRequested (RunReset c) = co_observeRequested c" "co_stopRequested (RunReset c) = co_stopRequested c"
  "co_profileAcceptedAt (RunReset c) = co_profileAcceptedAt c" "\<not> co_ranProfile (RunReset c)" "co_runningMask (RunReset c) = 0"
  by (simp_all add: RunReset_def Let_def)

lemma RunTake_ok:
  assumes "coord_ok (c, InQueue)" "RunTake c = (taken, c')"
  shows "coord_ok (c', Working taken)"
proof -
  have ok: "length (co_commands c) = 5" "co_inFlight c" "co_profilePending c \<longleftrightarrow> co_profile c \<noteq> None"
      "co_profilePending c \<longrightarrow> co_commands c ! 3 = None \<and> co_commands c ! 4 = None"
      "\<not> (co_observeRequested c \<and> co_stopRequested c)" "\<not> co_ranProfile c"
    using assms(1) by (simp_all add: coord_ok_def work_ok_def profile_in_work_def)
  note defs = coord_ok_def work_ok_def profile_in_work_def lane_in_work_def lane_bit_def
  show ?thesis
  proof (cases "find (\<lambda>i. co_commands c ! i \<noteq> None) [0..<length (co_commands c)]")
    case (Some i)
    then have "i < 5" using ok(1) unfolding first_command by simp
    moreover have "taken = TakenCommand i (the (co_commands c ! i))" "co_commands c' = (co_commands c)[i := None]"
        "co_runningMask c' = push_bit i 1" "co_inFlight c'" "co_profilePending c' = co_profilePending c"
        "co_profile c' = co_profile c" "co_observeRequested c' = co_observeRequested c"
        "co_stopRequested c' = co_stopRequested c" "\<not> co_ranProfile c'"
      using assms(2) Some ok(2) by (auto simp: RunTake_def Let_def)
    ultimately show ?thesis using ok by (simp add: defs nth_list_update)
  next
    case None
    then have n: "co_commands c' = co_commands c" "co_runningMask c' = 0" "co_inFlight c'" "co_profilePending c' = co_profilePending c"
        "co_profile c' = None"
      using assms(2) ok(2) by (auto simp: RunTake_def Let_def split: option.splits)
    show ?thesis
    proof (cases "co_profile c")
      case p: None
      then have "taken = TakenObservation (co_stopRequested c)" "\<not> co_stopRequested c'" "\<not> co_ranProfile c'"
        using assms(2) None by (auto simp: RunTake_def Let_def)
      then show ?thesis using ok n p by (simp add: defs)
    next
      case p: (Some p)
      then have "taken = TakenProfile p (co_profileAcceptedAt c)" "co_ranProfile c'"
          "co_observeRequested c' = co_observeRequested c" "co_stopRequested c' = co_stopRequested c"
        using assms(2) None by (auto simp: RunTake_def Let_def)
      then show ?thesis using ok n p by (simp add: defs)
    qed
  qed
qed

lemma CompleteRun_ok:
  assumes "coord_ok (c, phase)" "phase \<noteq> Unqueued" "\<forall>taken. phase \<noteq> Working taken"
  shows "coord_ok (completed (CompleteRun result change_event queued c))"
proof -
  define c' where "c' = CompleteRun result change_event queued c"
  define d where "d = c\<lparr>co_inFlight := False, co_runningMask := 0,
    co_profilePending := (co_profilePending c \<and> \<not> co_ranProfile c)\<rparr>"
  obtain e where e: "c' = snd (Schedule queued e)" "shared e = shared d"
    unfolding c'_def d_def by (rule CompleteRun_schedules)
  have "work_ok d Unqueued"
    using assms(1,2) by (auto simp: coord_ok_def work_ok_def d_def profile_in_work_def lane_in_work_def lane_bit_def)
  then have "coord_ok (c', if co_inFlight c' \<and> \<not> co_inFlight e then InQueue else Unqueued)"
    using Schedule_ok [OF _ e(1)] shared_cong [OF e(2)] by simp
  moreover have "\<not> co_inFlight e" using shared_cong(3) [OF e(2)] by (simp add: d_def)
  ultimately show ?thesis by (simp add: completed_def c'_def [symmetric])
qed

lemma RunWork_ok:
  assumes "coord_ok (c, Working taken)" "RunWork env timeout entry taken c w = (result, c', w')"
  shows "coord_ok (c', Ran taken result)"
proof -
  have "shared c' = shared c" using shared_RunWork [of env timeout entry taken c w] assms(2) by simp
  from shared_cong [OF this] have "coord_ok (c', Working taken)" using assms(1) by (simp add: coord_ok_def)
  then show ?thesis by (simp add: coord_ok_def work_ok_def profile_in_work_def lane_in_work_def)
qed

lemma coord_step_ok: "coord_ok (c, phase) \<Longrightarrow> coord_step env event (c, phase) = Some s' \<Longrightarrow> coord_ok s'"
  using ui_call_ok [of c phase event] RunTake_ok [of c] CompleteRun_ok [of c phase]
  by (cases event)
    (auto simp: Let_def simp del: ui_call.simps split: work_phase.splits if_splits prod.splits intro: RunWork_ok)

lemma coord_init_ok: "coord_ok (Coordinator_init, Unqueued)"
  by (simp add: coord_ok_def work_ok_def Coordinator_init_def profile_in_work_def lane_in_work_def lane_bit_def HasPending_def
      list_ex_iff)

lemma coord_reaches_ok: "reaches (coord_step env) (Coordinator_init, Unqueued) s \<Longrightarrow> coord_ok s"
proof (induction rule: reaches.induct)
  case (reaches_step s e s')
  then show ?case using coord_step_ok by (cases s) blast
qed (rule coord_init_ok)

section \<open>What the widgets rely on\<close>

text \<open>C4: The coordinator never forgets work and never mixes it. In every state it can reach, with its calls in any order and the
  helper and the host answering anything: pending work implies that its control work is with the host; a profile counts as
  pending exactly while it waits or is being applied, at most one of the two; while it does, no level command waits; and
  observing and stopping are never both requested.\<close>

theorem coordinator_keeps_work:
  assumes "reaches (coord_step env) (Coordinator_init, Unqueued) (c, phase)"
  shows "(phase = Unqueued \<longrightarrow> \<not> HasPending c) \<and> (co_inFlight c \<longleftrightarrow> phase \<noteq> Unqueued) \<and>
    (co_profilePending c \<longleftrightarrow> (co_profile c \<noteq> None) \<noteq> profile_in_work phase) \<and>
    (co_profilePending c \<longleftrightarrow> co_profile c \<noteq> None \<or> profile_in_work phase) \<and>
    (co_profilePending c \<longrightarrow> co_commands c ! 3 = None \<and> co_commands c ! 4 = None) \<and>
    \<not> (co_observeRequested c \<and> co_stopRequested c)"
  using coord_reaches_ok [OF assms] by (auto simp: coord_ok_def work_ok_def)

lemma bit_single: "i < 32 \<Longrightarrow> bit (push_bit j 1 :: u32) i \<longleftrightarrow> j = i"
  by (auto simp only: bit_push_bit_iff possible_bit_word bit_1_iff len_num1 len_bit0)

lemma bit_lane_bit: "i < 32 \<Longrightarrow> bit (lane_bit lane) i \<longleftrightarrow> lane = Some i"
  unfolding lane_bit_def by (cases lane) (simp_all only: option.case bit_single option.inject bit_0_eq bot_fun_def bot_bool_def option.distinct simp_thms)

lemma bit_fold_lanes:
  fixes bits :: u32
  assumes "i < 32"
  shows "bit (fold (\<lambda>i bits. if P i then bits OR push_bit i 1 else bits) lanes bits) i \<longleftrightarrow> bit bits i \<or> (i \<in> set lanes \<and> P i)"
proof (induction lanes arbitrary: bits)
  case (Cons l lanes)
  show ?case unfolding fold_simps Cons.IH by (simp add: bit_or_iff bit_single [OF assms] del: push_bit_of_1) auto
qed simp

lemma bit_all_lanes:
  assumes "i < 32"
  shows "bit (0x1F :: u32) i \<longleftrightarrow> i < 5"
proof -
  have "(0x1F :: u32) = mask 5" by (simp add: mask_eq_exp_minus_1)
  then show ?thesis using assms by (simp only: bit_mask_iff possible_bit_word) simp
qed

text \<open>The view shows a lane as busy exactly while it is: bit \<open>i\<close> of PendingMask is set for one of the five lanes if and only if a
  command waits in the lane, or the command being run came from it, or a profile waits or is being applied, whatever has been
  called before.\<close>

theorem pending_mask_tells_work:
  assumes "reaches (coord_step env) (Coordinator_init, Unqueued) (c, phase)"
      and "i < 32"
  shows "bit (PendingMask c) i \<longleftrightarrow>
    i < 5 \<and> (co_commands c ! i \<noteq> None \<or> lane_in_work phase = Some i \<or> co_profile c \<noteq> None \<or> profile_in_work phase)"
proof -
  have ok: "length (co_commands c) = 5" "co_profilePending c \<longleftrightarrow> co_profile c \<noteq> None \<or> profile_in_work phase"
      "co_runningMask c = lane_bit (lane_in_work phase)" "lane_in_work phase = Some i \<Longrightarrow> i < 5"
    using coord_reaches_ok [OF assms(1)] by (auto simp: coord_ok_def work_ok_def)
  have "bit (PendingMask c) i \<longleftrightarrow> lane_in_work phase = Some i \<or> (i < 5 \<and> co_commands c ! i \<noteq> None) \<or> (co_profilePending c \<and> i < 5)"
    unfolding PendingMask_def Let_def ok(1,3)
    using bit_fold_lanes [OF assms(2), of "\<lambda>i. co_commands c ! i \<noteq> None" "[0..<5]" "lane_bit (lane_in_work phase)"]
    by (auto simp only: bit_or_iff bit_all_lanes [OF assms(2)] bit_lane_bit [OF assms(2)] set_upt atLeastLessThan_iff split: if_splits)
  then show ?thesis using ok by blast
qed

lemma RunTake_first:
  assumes "RunTake c = (taken, c')" "l < length (co_commands c)" "co_commands c ! l = Some k"
  shows "\<exists>i \<le> l. taken = TakenCommand i (the (co_commands c ! i)) \<and> co_commands c ! i \<noteq> None \<and> co_commands c' = (co_commands c)[i := None]"
proof -
  obtain i where i: "find (\<lambda>i. co_commands c ! i \<noteq> None) [0..<length (co_commands c)] = Some i"
    using no_command_nth [OF _ assms(2)] assms(3) no_command [of "co_commands c"] by fastforce
  then have "co_commands c ! i \<noteq> None" "\<forall>j < i. co_commands c ! j = None" unfolding first_command by auto
  moreover have "i \<le> l"
    using assms(3) calculation(2) by (metis not_le option.distinct(1))
  ultimately show ?thesis using assms(1) i by (auto simp: RunTake_def Let_def)
qed

text \<open>The host refuses the control work with \<open>queued\<close>: the coordinator gives everything up and keeps the refusal.\<close>

definition refused :: "hresult \<Rightarrow> Coordinator \<Rightarrow> bool" where
  "refused queued c \<longleftrightarrow> FAILED queued \<and> co_lastResult c = queued \<and> \<not> co_inFlight c \<and> \<not> HasPending c"

text \<open>What the host answers when the call queues control work.\<close>

fun host_answer :: "'w coord_event \<Rightarrow> hresult option" where
  "host_answer (Visibility visible queued) = Some queued"
| "host_answer (FrameComes queued) = Some queued"
| "host_answer (Submits command now queued) = Some queued"
| "host_answer (SubmitsProfile yyjson_write p now queued) = Some queued"
| "host_answer (WorkSkipped result change_event queued) = Some queued"
| "host_answer (WorkCompleted change_event queued) = Some queued"
| "host_answer event = None"

definition host_refused :: "'w coord_event \<Rightarrow> Coordinator \<Rightarrow> bool" where
  "host_refused event c \<longleftrightarrow> (\<exists>queued. host_answer event = Some queued \<and> refused queued c)"

lemma Schedule_commands: "co_commands (snd (Schedule queued c)) = co_commands c \<or> refused queued (snd (Schedule queued c))"
  by (auto simp: Schedule_def refused_def HasPending_def Let_def list_ex_iff)

lemma shared_commands: "shared c' = shared c \<Longrightarrow> co_commands c' = co_commands c"
  by (simp add: shared_def)

lemmas quiet_commands [simp] = shared_quiet(1-6) [THEN shared_commands] shared_registers [THEN shared_commands]

lemma Submit_schedules:
  assumes "\<not> command_refused command" "\<not> (co_profilePending c \<and> lane_of command \<ge> 3)"
  obtains e k where "snd (Submit command now queued c) = snd (Schedule queued e)"
    "co_commands e = (co_commands c)[lane_of command := Some k]" "lc_value k = command"
proof
  show "snd (Submit command now queued c) = snd (Schedule queued (Invalidate
      ((if lane_of command < 3 then c\<lparr>co_safety := Publish (vc_device command)
          (if lane_of command = 2 then vc_value command = 0 else vc_value command \<noteq> 0) (co_safety c)\<rparr> else c)
       \<lparr>co_commands := (co_commands c)[lane_of command :=
          Some \<lparr>lc_value = command, lc_acceptedAt = now, lc_followRoute = (co_profilePending c \<and> lane_of command < 3)\<rparr>]\<rparr>)))"
    using assms by (auto simp: Submit_def Let_def)
  show "lc_value \<lparr>lc_value = command, lc_acceptedAt = now, lc_followRoute = (co_profilePending c \<and> lane_of command < 3)\<rparr> = command"
    by simp
qed simp

lemma ui_call_commands:
  assumes "length (co_commands c) = 5" "l < 3" "c' = ui_call event c"
  shows "co_commands c' ! l = co_commands c ! l \<or> host_refused event c' \<or>
    (\<exists>command now queued k. event = Submits command now queued \<and> lane_of command = l \<and> co_commands c' ! l = Some k \<and>
       lc_value k = command)"
proof (cases event)
  case (Submits command now queued)
  show ?thesis
  proof (cases "command_refused command \<or> co_profilePending c \<and> lane_of command \<ge> 3")
    case True
    then have "snd (Submit command now queued c) = c" by (auto simp: Submit_def Let_def)
    then show ?thesis using assms(3) Submits by simp
  next
    case False
    then obtain e k where e: "c' = snd (Schedule queued e)" "co_commands e = (co_commands c)[lane_of command := Some k]"
        "lc_value k = command" using Submit_schedules [of command c now queued] assms(3) Submits by auto
    then have "co_commands c' = (co_commands c)[lane_of command := Some k] \<or> refused queued c'" using Schedule_commands [of queued e] by simp
    then show ?thesis using assms(1,2) e(3) Submits by (cases "lane_of command = l") (auto simp: host_refused_def)
  qed
next
  case (SubmitsProfile w p now queued)
  then show ?thesis
    using Schedule_commands [of queued "Invalidate (c\<lparr>co_profile := Some p, co_profileAcceptedAt := now, co_profilePending := True,
      co_commands := (co_commands c)[3 := None, 4 := None]\<rparr>)"] assms
    by (auto simp: SubmitProfile_def split_beta host_refused_def)
next
  case (Visibility visible queued)
  then show ?thesis
    using Schedule_commands [of queued "(Disarm (c\<lparr>co_visible := 0\<rparr>))\<lparr>co_stopRequested := True, co_observeRequested := False\<rparr>"] assms
    by (auto simp: SetSubscriberVisible_def Let_def host_refused_def)
next
  case (FrameComes queued)
  then show ?thesis
    using Schedule_commands [of queued "c\<lparr>co_dirty := False, co_observeRequested := True, co_stopRequested := False\<rparr>"]
      Schedule_commands [of queued c] assms
    by (auto simp: Prepare_def host_refused_def)
qed (use assms in simp_all)

lemma CompleteRun_commands:
  "co_commands (CompleteRun result change_event queued c) = co_commands c \<or> refused queued (CompleteRun result change_event queued c)"
proof -
  obtain e where "CompleteRun result change_event queued c = snd (Schedule queued e)"
      "shared e = shared (c\<lparr>co_inFlight := False, co_runningMask := 0,
         co_profilePending := (co_profilePending c \<and> \<not> co_ranProfile c)\<rparr>)" by (rule CompleteRun_schedules)
  moreover from this(2) have "co_commands e = co_commands c" by (simp add: shared_def)
  ultimately show ?thesis using Schedule_commands [of queued e] by simp
qed

lemma step_commands:
  assumes "coord_step env event (c, phase) = Some (c', phase')" "event \<noteq> WorkTaken"
  shows "co_commands c' = co_commands c \<or> host_refused event c' \<or> c' = ui_call event c"
proof (cases event)
  case (WorkDone timeout entry w)
  then obtain taken result w' where "RunWork env timeout entry taken c w = (result, c', w')"
    using assms(1) by (auto split: work_phase.splits prod.splits)
  then show ?thesis using shared_commands [OF shared_RunWork, of env timeout entry taken c w] by simp
next
  case (WorkSkipped result change_event queued)
  then show ?thesis using assms(1) CompleteRun_commands [of result change_event queued c] by (auto simp: completed_def host_refused_def split: if_splits)
next
  case (WorkCompleted change_event queued)
  then obtain result where "c' = CompleteRun result change_event queued c"
    using assms(1) by (auto simp: completed_def split: work_phase.splits)
  then show ?thesis using WorkCompleted CompleteRun_commands [of result change_event queued c] by (auto simp: host_refused_def)
qed (use assms in \<open>simp_all add: next_phase_def del: ui_call.simps\<close>)

text \<open>C11: An accepted mute or camera command is not lost and goes first. While it waits in its lane, a step of the coordinator
  leaves it there, or replaces it by a newer command of the same lane, or hands it to the worker, or in this very step the host
  has refused the control work with an error: then everything has been given up, and that error is what \<open>LastResult\<close> shows. A
  failure of the work itself loses nothing that waits. And if the worker takes something else, it is the
  command of a lower lane: never a profile, a level or an observation.\<close>

theorem accepted_mute_is_kept:
  assumes "reaches (coord_step env) (Coordinator_init, Unqueued) (c, phase)" "coord_step env event (c, phase) = Some (c', phase')"
      and "l < 3" "co_commands c ! l = Some k"
  shows "(co_commands c' ! l = Some k \<and> (event = WorkTaken \<longrightarrow> (\<exists>i < l. \<exists>first. phase' = Working (TakenCommand i first)))) \<or>
    (\<exists>command now queued newer. event = Submits command now queued \<and> lane_of command = l \<and>
       co_commands c' ! l = Some newer \<and> lc_value newer = command) \<or>
    phase' = Working (TakenCommand l k) \<or>
    (\<exists>refusal. host_answer event = Some refusal \<and> FAILED refusal \<and> co_lastResult c' = refusal \<and>
       phase' = Unqueued \<and> \<not> HasPending c')"
proof -
  have ok: "coord_ok (c, phase)" "coord_ok (c', phase')"
    using coord_reaches_ok [OF assms(1)] coord_step_ok [OF _ assms(2)] by blast+
  then have len: "length (co_commands c) = 5" and ref: "host_refused event c' \<Longrightarrow>
      \<exists>refusal. host_answer event = Some refusal \<and> FAILED refusal \<and> co_lastResult c' = refusal \<and> phase' = Unqueued \<and> \<not> HasPending c'"
    by (auto simp: coord_ok_def work_ok_def host_refused_def refused_def)
  show ?thesis
  proof (cases "event = WorkTaken")
    case True
    then obtain taken where t: "RunTake c = (taken, c')" "phase' = Working taken"
      using assms(2) by (auto split: if_splits prod.splits)
    obtain i where i: "i \<le> l" "taken = TakenCommand i (the (co_commands c ! i))" "co_commands c' = (co_commands c)[i := None]"
      using RunTake_first [OF t(1), of l k] assms(3,4) len by auto
    then show ?thesis using assms(4) t(2) True by (cases "i = l") auto
  next
    case False
    have "co_commands c' ! l = co_commands c ! l \<or> host_refused event c' \<or>
        (\<exists>command now queued k. event = Submits command now queued \<and> lane_of command = l \<and> co_commands c' ! l = Some k \<and>
           lc_value k = command)"
      using step_commands [OF assms(2) False] ui_call_commands [OF len assms(3), of c' event] by auto
    then show ?thesis using ref assms(4) False by auto
  qed
qed

section \<open>Work gets done\<close>

text \<open>One turn of the host's lane, when control work is with it; it accepts what is queued from the completion.\<close>

definition coord_turn :: "'w run_env \<Rightarrow> u32 \<times> u64 \<times> 'w \<times> bool \<Rightarrow> Coordinator \<Rightarrow> Coordinator" where
  "coord_turn env how c =
     (if \<not> co_inFlight c then c
      else
        (let (timeout, entry, w, change_event) = how;
             (taken, c) = RunTake c;
             (result, c, w) = RunWork env timeout entry taken c w
         in CompleteRun result change_event S_OK c))"

definition outstanding :: "Coordinator \<Rightarrow> nat" where
  "outstanding c =
     length (filter (\<lambda>command. command \<noteq> None) (co_commands c)) + (if co_profile c \<noteq> None then 1 else 0)
     + (if co_observeRequested c \<or> co_stopRequested c then 1 else 0)"

lemma outstanding_HasPending: "HasPending c \<longleftrightarrow> 0 < outstanding c"
  by (auto simp: HasPending_def outstanding_def list_ex_iff filter_empty_conv)

lemma outstanding_cong: "shared c = shared c' \<Longrightarrow> outstanding c = outstanding c'"
  by (simp add: shared_def outstanding_def)

lemma filter_cleared:
  "i < length xs \<Longrightarrow> xs ! i \<noteq> None \<Longrightarrow>
   length (filter (\<lambda>x. x \<noteq> None) (xs[i := None])) + 1 = length (filter (\<lambda>x. x \<noteq> None) xs)"
  by (induction xs arbitrary: i) (auto split: nat.splits simp: nth_Cons)

lemma RunTake_outstanding:
  assumes "RunTake c = (taken, c')"
  shows "outstanding c' = outstanding c - 1"
proof (cases "find (\<lambda>i. co_commands c ! i \<noteq> None) [0..<length (co_commands c)]")
  case (Some i)
  then have "i < length (co_commands c)" "co_commands c ! i \<noteq> None" unfolding first_command by simp_all
  from filter_cleared [OF this] show ?thesis using assms Some by (auto simp: RunTake_def Let_def outstanding_def)
next
  case None
  then have "filter (\<lambda>command. command \<noteq> None) (co_commands c) = []" unfolding no_command by (auto simp: list_ex_iff filter_empty_conv)
  then show ?thesis using assms None by (auto simp: RunTake_def Let_def outstanding_def split: option.splits)
qed

lemma CompleteRun_accepted:
  assumes "c' = CompleteRun result change_event S_OK c"
  shows "outstanding c' = outstanding c" "co_inFlight c' \<longleftrightarrow> HasPending c"
proof -
  obtain e where e: "c' = snd (Schedule S_OK e)" "shared e = shared (c\<lparr>co_inFlight := False, co_runningMask := 0,
      co_profilePending := (co_profilePending c \<and> \<not> co_ranProfile c)\<rparr>)"
    unfolding assms by (rule CompleteRun_schedules)
  then have f: "\<not> co_inFlight e" by (simp add: shared_def)
  have "outstanding e = outstanding c" "HasPending e = HasPending c" using e(2) by (simp_all add: shared_def outstanding_def HasPending_def)
  moreover have "outstanding c' = outstanding e" "co_inFlight c' \<longleftrightarrow> HasPending e"
    using e(1) f by (simp_all add: Schedule_def Let_def FAILED_def S_OK_def outstanding_def)
  ultimately show "outstanding c' = outstanding c" "co_inFlight c' \<longleftrightarrow> HasPending c" by simp_all
qed

lemma coord_turn_ok:
  assumes "coord_ok (c, InQueue)" "c' = coord_turn env how c"
  shows "coord_ok (completed c')" "outstanding c' = outstanding c - 1" "co_inFlight c' \<longleftrightarrow> HasPending c'"
proof -
  obtain timeout entry w change_event where how: "how = (timeout, entry, w, change_event)" by (cases how)
  obtain taken d where d: "RunTake c = (taken, d)" by (cases "RunTake c")
  obtain result e w' where e: "RunWork env timeout entry taken d w = (result, e, w')" by (cases "RunWork env timeout entry taken d w")
  have "co_inFlight c" using assms(1) by (simp add: coord_ok_def work_ok_def)
  then have c': "c' = CompleteRun result change_event S_OK e" by (simp add: assms(2) coord_turn_def how d e)
  have de: "shared e = shared d" using shared_RunWork [of env timeout entry taken d w] e by simp
  have ok: "coord_ok (e, Ran taken result)" by (rule RunWork_ok [OF RunTake_ok [OF assms(1) d] e])
  show "coord_ok (completed c')" unfolding c' by (rule CompleteRun_ok [OF ok]) simp_all
  note accepted = CompleteRun_accepted [OF c']
  show "outstanding c' = outstanding c - 1"
    using accepted(1) outstanding_cong [OF de] RunTake_outstanding [OF d] by simp
  show "co_inFlight c' \<longleftrightarrow> HasPending c'" using accepted by (simp add: outstanding_HasPending)
qed

lemma turns_drain:
  "coord_ok (c, InQueue) \<Longrightarrow> length hows = outstanding c \<Longrightarrow> 0 < outstanding c \<Longrightarrow>
   coord_ok (fold (coord_turn env) hows c, Unqueued) \<and> outstanding (fold (coord_turn env) hows c) = 0"
proof (induction hows arbitrary: c)
  case (Cons how hows)
  define c' where "c' = coord_turn env how c"
  note t = coord_turn_ok [OF Cons.prems(1) c'_def]
  show ?case
  proof (cases "hows = []")
    case True
    then show ?thesis using t Cons.prems(2) by (simp add: c'_def [symmetric] completed_def outstanding_HasPending)
  next
    case False
    then have "0 < outstanding c'" "length hows = outstanding c'" using Cons.prems(2) t(2) by (cases hows; simp)+
    moreover have "coord_ok (c', InQueue)" using t(1,3) calculation(1) by (simp add: completed_def outstanding_HasPending)
    ultimately show ?thesis using Cons.IH [of c'] by (simp add: c'_def)
  qed
qed simp

lemma outstanding_bound:
  assumes "coord_ok (c, InQueue)"
  shows "outstanding c \<le> 6"
proof -
  obtain c0 c1 c2 c3 c4 where cs: "co_commands c = [c0, c1, c2, c3, c4]"
    using assms by (auto simp: coord_ok_def work_ok_def length_Suc_conv eval_nat_numeral)
  then show ?thesis using assms by (auto simp: coord_ok_def work_ok_def outstanding_def profile_in_work_def)
qed

text \<open>C10: Everything that was accepted gets its turn. From any reachable state with queued work, when the host accepts the work
  queued by completions and the widgets are quiet, at most six turns of the lane leave nothing: no command, profile or
  request, no control work and no lane shown as busy, whatever the helper answers in each of them.\<close>

theorem coordinator_drains:
  assumes "reaches (coord_step env) (Coordinator_init, Unqueued) (c, InQueue)"
      and "HasPending c" "length hows = outstanding c"
  shows "length hows \<le> 6 \<and> \<not> HasPending (fold (coord_turn env) hows c) \<and> \<not> co_inFlight (fold (coord_turn env) hows c) \<and>
    \<not> co_profilePending (fold (coord_turn env) hows c) \<and> PendingMask (fold (coord_turn env) hows c) = 0"
proof -
  define d where "d = fold (coord_turn env) hows c"
  have ok: "coord_ok (c, InQueue)" by (rule coord_reaches_ok [OF assms(1)])
  have d: "coord_ok (d, Unqueued)" "\<not> HasPending d"
    using turns_drain [OF ok assms(3)] assms(2) by (simp_all add: d_def outstanding_HasPending)
  have n: "length (co_commands d) = 5" "\<forall>command \<in> set (co_commands d). command = None" "co_runningMask d = 0"
      "\<not> co_profilePending d" "\<not> co_inFlight d"
    using d by (auto simp: coord_ok_def work_ok_def HasPending_def list_ex_iff lane_in_work_def lane_bit_def profile_in_work_def)
  have "co_commands d = replicate 5 None" using n(1,2) by (intro replicate_eqI) auto
  then have "PendingMask d = 0" using n(3,4) by (simp add: PendingMask_def upt_rec)
  then show ?thesis using outstanding_bound [OF ok] assms(3) d n unfolding d_def by simp
qed

section \<open>A run\<close>

definition quiet_env :: "unit run_env" where
  "quiet_env =
     \<lparr>env_tick = (\<lambda>w. (0, w)), env_snapshot = (\<lambda>w. ([0, 0, 0], w)), env_execute = (\<lambda>command left reply w. ((S_OK, reply), w)),
      env_cancelled = (\<lambda>w. (False, w)), env_running = (\<lambda>w. True), env_start = (\<lambda>w. (S_OK, w)),
      env_preferences = (\<lambda>prefs w. (S_OK, w)), env_stop = (\<lambda>left w. w), env_allocated = (\<lambda>w. True)\<rparr>"

definition sample_mute :: ViewCommand where
  "sample_mute = \<lparr>vc_kind = SetMuted, vc_device = Microphone, vc_endpointId = ''m'', vc_generation = 1, vc_revision = 1, vc_value = 1\<rparr>"

definition sample_level :: ViewCommand where
  "sample_level = \<lparr>vc_kind = ChangeLevel, vc_device = Output, vc_endpointId = ''o'', vc_generation = 1, vc_revision = 1, vc_value = 40\<rparr>"

definition sample_calls :: "unit coord_event list" where
  "sample_calls = [Submits sample_level 0 S_OK, Submits sample_mute 0 S_OK]"

definition sample_state :: Coordinator where
  "sample_state = fst (the (run_events (coord_step quiet_env) (Coordinator_init, Unqueued) sample_calls))"

lemma sample_state_facts:
  "snd (the (run_events (coord_step quiet_env) (Coordinator_init, Unqueued) sample_calls)) = InQueue"
  "run_events (coord_step quiet_env) (Coordinator_init, Unqueued) sample_calls \<noteq> None"
  "outstanding sample_state = 2" "map (map_option lc_value) (co_commands sample_state) = [None, Some sample_mute, None, Some sample_level, None]"
  by code_simp+

lemma sample_reached: "reaches (coord_step quiet_env) (Coordinator_init, Unqueued) (sample_state, InQueue)"
  using run_events_reaches [of "coord_step quiet_env" "(Coordinator_init, Unqueued)" sample_calls "(sample_state, InQueue)"]
    sample_state_facts(1,2)
  by (cases "run_events (coord_step quiet_env) (Coordinator_init, Unqueued) sample_calls") (auto simp: sample_state_def)

lemma sample_commands:
  "\<exists>k. co_commands sample_state ! 1 = Some k" "co_commands sample_state ! 3 \<noteq> None" "co_commands sample_state ! 0 = None"
  "HasPending sample_state"
proof -
  have n: "map_option lc_value (co_commands sample_state ! i) = [None, Some sample_mute, None, Some sample_level, None] ! i" if "i < 5" for i
    using arg_cong [OF sample_state_facts(4), of "\<lambda>xs. xs ! i"] that arg_cong [OF sample_state_facts(4), of length] by simp
  show "\<exists>k. co_commands sample_state ! 1 = Some k" "co_commands sample_state ! 3 \<noteq> None" "co_commands sample_state ! 0 = None"
    using n [of 1] n [of 3] n [of 0] by auto
  show "HasPending sample_state" using sample_state_facts(3) by (simp add: outstanding_HasPending)
qed

theorem coordinator_keeps_work_witness: "HasPending sample_state \<and> co_inFlight sample_state \<and> \<not> co_profilePending sample_state"
  using coordinator_keeps_work [OF sample_reached] sample_commands by (auto simp: profile_in_work_def)

theorem pending_mask_tells_work_witness:
  "bit (PendingMask sample_state) 3 \<and> bit (PendingMask sample_state) 0 = (co_profile sample_state \<noteq> None)"
  using pending_mask_tells_work [OF sample_reached, of 3] pending_mask_tells_work [OF sample_reached, of 0] sample_commands
  by (simp add: lane_in_work_def profile_in_work_def)

theorem accepted_mute_is_kept_witness:
  "\<exists>k c'. co_commands sample_state ! 1 = Some k \<and>
     coord_step quiet_env (Submits sample_level 7 S_OK) (sample_state, InQueue) = Some (c', InQueue) \<and>
     co_commands c' ! 1 = Some k"
proof -
  obtain k where k: "co_commands sample_state ! 1 = Some k" using sample_commands(1) by blast
  have "co_inFlight sample_state" using coord_reaches_ok [OF sample_reached] by (simp add: coord_ok_def work_ok_def)
  then obtain c' where c': "coord_step quiet_env (Submits sample_level 7 S_OK) (sample_state, InQueue) = Some (c', InQueue)"
    by (simp add: next_phase_def)
  have "lane_of sample_level = 3" by (simp add: lane_of_def sample_level_def device_index_def)
  then show ?thesis using accepted_mute_is_kept [OF sample_reached c' _ k] k c' by auto
qed

theorem coordinator_drains_witness:
  "PendingMask (fold (coord_turn quiet_env) [(3000, 0, (), True), (3000, 0, (), False)] sample_state) = 0"
  using coordinator_drains [OF sample_reached sample_commands(4), of "[(3000, 0, (), True), (3000, 0, (), False)]"]
    sample_state_facts(3) by simp

end
