(* ===== verification/Json_Text.thy ===== *)
theory Json_Text
  imports Text_Prelude "HOL-Library.Monad_Syntax"
begin

text \<open>
  \<open>RedXe/SettingsJsonText.h\<close>: the forward scanner over settings text, JSON with comments and trailing commas. A cursor
  is the text from \<open>index\<close> on and its position, line and column; the index is the length of the source less the length
  of that text.
\<close>

section \<open>Cursor\<close>

type_synonym text_position = "u32 \<times> u32"
type_synonym cursor = "string \<times> text_position"

abbreviation LF :: char where "LF \<equiv> CHR 0x0A"
abbreviation CR :: char where "CR \<equiv> CHR 0x0D"
abbreviation TAB :: char where "TAB \<equiv> CHR 0x09"
abbreviation quote :: char where "quote \<equiv> CHR 0x22"
abbreviation escape :: char where "escape \<equiv> CHR 0x5C"

definition after :: "char \<Rightarrow> text_position \<Rightarrow> text_position" where
  "after ch p = (if ch = LF then (fst p + 1, 1) else (fst p, snd p + 1))"

fun Advance :: "string \<Rightarrow> text_position \<Rightarrow> cursor" where
  "Advance [] p = ([], p)"
| "Advance (ch # s) p = (s, after ch p)"

text \<open>The loops of \<open>SkipSpaceAndComments\<close>: blanks, the rest of a line comment, the rest of a block comment.\<close>

definition blank :: "char \<Rightarrow> bool" where
  "blank ch \<longleftrightarrow> ch = CHR '' '' \<or> ch = TAB \<or> ch = CR \<or> ch = LF"

fun skip_blanks :: "string \<Rightarrow> text_position \<Rightarrow> cursor" where
  "skip_blanks [] p = ([], p)"
| "skip_blanks (ch # s) p = (if blank ch then skip_blanks s (after ch p) else (ch # s, p))"

fun skip_line_comment :: "string \<Rightarrow> text_position \<Rightarrow> cursor" where
  "skip_line_comment [] p = ([], p)"
| "skip_line_comment (ch # s) p =
     (if ch \<noteq> LF \<and> ch \<noteq> CR then skip_line_comment s (fst p, snd p + 1) else (ch # s, p))"

fun skip_block_comment :: "string \<Rightarrow> text_position \<Rightarrow> cursor" where
  "skip_block_comment (a # b # s) p =
     (if a = CHR ''*'' \<and> b = CHR ''/'' then (s, (fst p, snd p + 2)) else skip_block_comment (b # s) (after a p))"
| "skip_block_comment s p = (s, p)"

lemma skip_length:
  "length (fst (skip_blanks s p)) \<le> length s"
  "length (fst (skip_line_comment s p)) \<le> length s"
  "length (fst (skip_block_comment s p)) \<le> length s"
proof -
  show "length (fst (skip_blanks s p)) \<le> length s" by (induction s p rule: skip_blanks.induct) auto
  show "length (fst (skip_line_comment s p)) \<le> length s" by (induction s p rule: skip_line_comment.induct) auto
  show "length (fst (skip_block_comment s p)) \<le> length s" by (induction s p rule: skip_block_comment.induct) auto
qed

function SkipSpaceAndComments :: "string \<Rightarrow> text_position \<Rightarrow> cursor" where
  "SkipSpaceAndComments s p =
     (let (s', p') = skip_blanks s p
      in if take 2 s' = ''//''
         then (let (s'', p'') = skip_line_comment (drop 2 s') (fst p', snd p' + 2) in SkipSpaceAndComments s'' p'')
         else if take 2 s' = ''/*''
         then (let (s'', p'') = skip_block_comment (drop 2 s') (fst p', snd p' + 2) in SkipSpaceAndComments s'' p'')
         else (s', p'))"
  by pat_completeness auto
termination
proof (relation "measure (length \<circ> fst)")
  fix s p t s' p' s'' p'' x
  have l: "take 2 s' = [a, b] \<Longrightarrow> length (drop 2 s') < length s'" for s' :: string and a b
    by (cases s') auto
  assume x: "x = skip_blanks s p" "(s', p') = x"
  then have s': "length s' \<le> length s" using skip_length(1) [of s p] by (metis fst_conv)
  { assume "take 2 s' = ''//''" "t = skip_line_comment (drop 2 s') (fst p', snd p' + 2)" "(s'', p'') = t"
    then have "length s'' \<le> length (drop 2 s')" "length (drop 2 s') < length s'"
      using skip_length(2) [of "drop 2 s'" "(fst p', snd p' + 2)"] l by (auto simp: fst_def split: prod.splits)
    then show "((s'', p''), s, p) \<in> measure (length \<circ> fst)" using s' by simp }
  { assume "take 2 s' = ''/*''" "t = skip_block_comment (drop 2 s') (fst p', snd p' + 2)" "(s'', p'') = t"
    then have "length s'' \<le> length (drop 2 s')" "length (drop 2 s') < length s'"
      using skip_length(3) [of "drop 2 s'" "(fst p', snd p' + 2)"] l by (auto simp: fst_def split: prod.splits)
    then show "((s'', p''), s, p) \<in> measure (length \<circ> fst)" using s' by simp }
qed simp

declare SkipSpaceAndComments.simps [simp del]

section \<open>Tokens and values\<close>

text \<open>A \<open>false\<close> return is \<open>None\<close>: no caller reads the cursor after it.\<close>

definition Consume :: "char \<Rightarrow> string \<Rightarrow> text_position \<Rightarrow> cursor option" where
  "Consume expected s p =
     (let (s, p) = SkipSpaceAndComments s p
      in if s = [] \<or> hd s \<noteq> expected then None else Some (Advance s p))"

fun string_tail :: "string \<Rightarrow> text_position \<Rightarrow> cursor option" where
  "string_tail [] p = None"
| "string_tail (ch # s) p =
     (if ch = quote then Some (Advance (ch # s) p)
      else if ch = escape then (case s of [] \<Rightarrow> None | c # t \<Rightarrow> string_tail t (after c (after ch p)))
      else string_tail s (after ch p))"

definition SkipString :: "string \<Rightarrow> text_position \<Rightarrow> cursor option" where
  "SkipString s p =
     (let (s, p) = SkipSpaceAndComments s p
      in if s = [] \<or> hd s \<noteq> quote then None else case Advance s p of (s, p) \<Rightarrow> string_tail s p)"

fun read_tail :: "string \<Rightarrow> text_position \<Rightarrow> string \<Rightarrow> (string \<times> cursor) option" where
  "read_tail [] p v = None"
| "read_tail (ch # s) p v =
     (if ch = quote then Some (v, Advance (ch # s) p)
      else if ch = escape then (case s of [] \<Rightarrow> None | c # t \<Rightarrow> read_tail t (after c (after ch p)) (v @ [c]))
      else read_tail s (after ch p) (v @ [ch]))"

definition ReadString :: "string \<Rightarrow> text_position \<Rightarrow> (string \<times> cursor) option" where
  "ReadString s p =
     (let (s, p) = SkipSpaceAndComments s p
      in if s = [] \<or> hd s \<noteq> quote then None else case Advance s p of (s, p) \<Rightarrow> read_tail s p [])"

definition number_char :: "char \<Rightarrow> bool" where
  "number_char ch \<longleftrightarrow> is_digit ch \<or> ch \<in> {CHR ''-'', CHR ''+'', CHR ''.'', CHR ''e'', CHR ''E''}"

fun skip_number :: "string \<Rightarrow> text_position \<Rightarrow> cursor" where
  "skip_number [] p = ([], p)"
| "skip_number (ch # s) p = (if number_char ch then skip_number s (after ch p) else (ch # s, p))"

fun advance_by :: "nat \<Rightarrow> string \<Rightarrow> text_position \<Rightarrow> cursor" where
  "advance_by 0 s p = (s, p)"
| "advance_by (Suc n) s p = (case Advance s p of (s, p) \<Rightarrow> advance_by n s p)"

definition skip_word :: "string \<Rightarrow> text_position \<Rightarrow> cursor option" where
  "skip_word s p =
     (if starts_with s ''true'' then Some (advance_by 4 s p)
      else if starts_with s ''false'' then Some (advance_by 5 s p)
      else if starts_with s ''null'' then Some (advance_by 4 s p)
      else None)"

text \<open>
  \<open>SkipValue\<close> calls itself from its loops over the members of an object and the elements of an array, which are
  the functions below with the recursive call as an argument. The depth of the calls and the turns of a loop have
  a bound; \<open>skip_value_depth_enough\<close> shows that the length of the text is enough for both.
\<close>

primrec SkipMembers :: "(string \<Rightarrow> text_position \<Rightarrow> cursor option) \<Rightarrow> nat \<Rightarrow> string \<Rightarrow> text_position \<Rightarrow> cursor option" where
  "SkipMembers value_of 0 s p = None"
| "SkipMembers value_of (Suc k) s p =
     do {
       (s, p) \<leftarrow> SkipString s p;
       (s, p) \<leftarrow> Consume (CHR '':'') s p;
       (s, p) \<leftarrow> value_of s p;
       let (s, p) = SkipSpaceAndComments s p;
       if s \<noteq> [] \<and> hd s = CHR '','' then
         (let (s, p) = (case Advance s p of (s, p) \<Rightarrow> SkipSpaceAndComments s p)
          in if s \<noteq> [] \<and> hd s = CHR ''}'' then Some (Advance s p) else SkipMembers value_of k s p)
       else Consume (CHR ''}'') s p
     }"

primrec SkipElements :: "(string \<Rightarrow> text_position \<Rightarrow> cursor option) \<Rightarrow> nat \<Rightarrow> string \<Rightarrow> text_position \<Rightarrow> cursor option" where
  "SkipElements value_of 0 s p = None"
| "SkipElements value_of (Suc k) s p =
     do {
       (s, p) \<leftarrow> value_of s p;
       let (s, p) = SkipSpaceAndComments s p;
       if s \<noteq> [] \<and> hd s = CHR '','' then
         (let (s, p) = (case Advance s p of (s, p) \<Rightarrow> SkipSpaceAndComments s p)
          in if s \<noteq> [] \<and> hd s = CHR '']'' then Some (Advance s p) else SkipElements value_of k s p)
       else Consume (CHR '']'') s p
     }"

primrec skip_value_depth :: "nat \<Rightarrow> string \<Rightarrow> text_position \<Rightarrow> cursor option" where
  "skip_value_depth 0 s p = None"
| "skip_value_depth (Suc n) s p =
     (let (s, p) = SkipSpaceAndComments s p
      in case s of
           [] \<Rightarrow> None
         | ch # rest \<Rightarrow>
             if ch = quote then SkipString s p
             else if ch = CHR ''{'' then
               (let (s, p) = SkipSpaceAndComments rest (after ch p)
                in if s \<noteq> [] \<and> hd s = CHR ''}'' then Some (Advance s p) else SkipMembers (skip_value_depth n) (length s) s p)
             else if ch = CHR ''['' then
               (let (s, p) = SkipSpaceAndComments rest (after ch p)
                in if s \<noteq> [] \<and> hd s = CHR '']'' then Some (Advance s p) else SkipElements (skip_value_depth n) (length s) s p)
             else if ch = CHR ''-'' \<or> is_digit ch then Some (skip_number s p)
             else skip_word s p)"

declare skip_value_depth.simps [simp del] SkipMembers.simps [simp del] SkipElements.simps [simp del]

definition SkipValue :: "string \<Rightarrow> text_position \<Rightarrow> cursor option" where
  "SkipValue s p = skip_value_depth (Suc (length s)) s p"

section \<open>Where a cursor stands\<close>

definition after_text :: "string \<Rightarrow> text_position \<Rightarrow> text_position" where
  "after_text u p = foldl (\<lambda>p ch. after ch p) p u"

lemma after_text_simps [simp]:
  "after_text [] p = p" "after_text (ch # u) p = after_text u (after ch p)" "after_text (u @ v) p = after_text v (after_text u p)"
  by (simp_all add: after_text_def)

lemma after_plain: "ch \<noteq> LF \<Longrightarrow> after ch p = (fst p, snd p + 1)"
  by (simp add: after_def)

definition moved :: "string \<Rightarrow> text_position \<Rightarrow> cursor \<Rightarrow> bool" where
  "moved s p c \<longleftrightarrow> (\<exists>u. s = u @ fst c \<and> snd c = after_text u p)"

lemma moved_refl [simp]: "moved s p (s, p)"
  by (auto simp: moved_def)

lemma moved_trans: "moved s p (s', p') \<Longrightarrow> moved s' p' c \<Longrightarrow> moved s p c"
  by (auto simp: moved_def)

lemma moved_Cons: "moved s (after ch p) c \<Longrightarrow> moved (ch # s) p c"
  unfolding moved_def by (metis append_Cons after_text_simps(2))

lemma moved_length: "moved s p (s', p') \<Longrightarrow> length s' \<le> length s"
  by (auto simp: moved_def)

lemma moved_Advance: "moved s p (Advance s p)"
  by (cases s) (auto intro: moved_Cons)

lemma moved_two: "a \<noteq> LF \<Longrightarrow> b \<noteq> LF \<Longrightarrow> moved (a # b # s) p (s, (fst p, snd p + 2))"
  unfolding moved_def by (rule exI [of _ "[a, b]"]) (simp add: after_plain)

lemma moved_loops:
  "moved s p (skip_blanks s p)" "moved s p (skip_line_comment s p)" "moved s p (skip_block_comment s p)"
  "moved s p (skip_number s p)" "moved s p (advance_by n s p)"
proof -
  show "moved s p (skip_blanks s p)"
    by (induction s p rule: skip_blanks.induct) (auto intro: moved_Cons)
  show "moved s p (skip_line_comment s p)"
    by (induction s p rule: skip_line_comment.induct) (auto intro!: moved_Cons simp: after_plain)
  show "moved s p (skip_block_comment s p)"
    by (induction s p rule: skip_block_comment.induct) (auto simp: moved_two intro: moved_Cons)
  show "moved s p (skip_number s p)"
    by (induction s p rule: skip_number.induct) (auto intro: moved_Cons)
  show "moved s p (advance_by n s p)"
  proof (induction n arbitrary: s p)
    case (Suc n)
    obtain s' p' where a: "Advance s p = (s', p')" by (rule prod.exhaust)
    then have "moved s p (s', p')" using moved_Advance [of s p] by simp
    from moved_trans [OF this Suc.IH] show ?case by (simp add: a)
  qed simp
qed

lemma take_2: "take 2 s = [a, b] \<longleftrightarrow> (\<exists>t. s = a # b # t)"
  by (cases s; cases "tl s") auto

lemma moved_Skip: "moved s p (SkipSpaceAndComments s p)"
proof (induction s p rule: SkipSpaceAndComments.induct)
  case (1 s p)
  obtain s1 p1 where b: "skip_blanks s p = (s1, p1)" by (rule prod.exhaust)
  have m1: "moved s p (s1, p1)" using moved_loops(1) [of s p] b by simp
  have two: "moved s1 p1 (drop 2 s1, (fst p1, snd p1 + 2))" if "take 2 s1 = [a, c]" "a \<noteq> LF" "c \<noteq> LF" for a c
    using that moved_two [of a c _ p1] by (auto simp: take_2)
  consider (line) "take 2 s1 = ''//''" | (block) "take 2 s1 = ''/*''" | (neither) "take 2 s1 \<noteq> ''//''" "take 2 s1 \<noteq> ''/*''" by blast
  then show ?case
  proof cases
    case line
    obtain s2 p2 where l: "skip_line_comment (drop 2 s1) (fst p1, snd p1 + 2) = (s2, p2)" by (rule prod.exhaust)
    have "moved (drop 2 s1) (fst p1, snd p1 + 2) (s2, p2)" using moved_loops(2) l by metis
    then have "moved s p (s2, p2)" using moved_trans [OF m1 moved_trans [OF two [OF line]]] by simp
    moreover have "moved s2 p2 (SkipSpaceAndComments s2 p2)" using 1(1) [OF b [symmetric] refl line l [symmetric] refl] .
    ultimately show ?thesis using moved_trans b line l by (subst SkipSpaceAndComments.simps) auto
  next
    case block
    obtain s2 p2 where l: "skip_block_comment (drop 2 s1) (fst p1, snd p1 + 2) = (s2, p2)" by (rule prod.exhaust)
    have "moved (drop 2 s1) (fst p1, snd p1 + 2) (s2, p2)" using moved_loops(3) l by metis
    then have "moved s p (s2, p2)" using moved_trans [OF m1 moved_trans [OF two [OF block]]] by simp
    moreover have "moved s2 p2 (SkipSpaceAndComments s2 p2)" using 1(2) [OF b [symmetric] refl _ block l [symmetric] refl] block by simp
    ultimately show ?thesis using moved_trans b block l by (subst SkipSpaceAndComments.simps) auto
  next
    case neither
    then show ?thesis using b m1 by (subst SkipSpaceAndComments.simps) auto
  qed
qed

text \<open>What succeeds consumes at least one character.\<close>

definition took :: "string \<Rightarrow> text_position \<Rightarrow> cursor \<Rightarrow> bool" where
  "took s p c \<longleftrightarrow> moved s p c \<and> length (fst c) < length s"

lemma took_trans:
  "moved s p (s', p') \<Longrightarrow> took s' p' c \<Longrightarrow> took s p c"
  "took s p (s', p') \<Longrightarrow> moved s' p' c \<Longrightarrow> took s p c"
  by (auto simp: took_def dest: moved_length intro: moved_trans)
     (metis moved_length moved_trans order_le_less_trans prod.collapse)+

lemma took_Advance: "s \<noteq> [] \<Longrightarrow> took s p (Advance s p)"
  by (cases s) (auto simp: took_def moved_def intro: exI [of _ "[_]"])

lemma took_Cons: "moved s (after ch p) c \<Longrightarrow> took (ch # s) p c"
  using moved_Cons moved_length [of s "after ch p" "fst c" "snd c"] by (fastforce simp: took_def)

lemma Skip_then: "SkipSpaceAndComments s p = (s', p') \<Longrightarrow> moved s p (s', p')"
  using moved_Skip [of s p] by simp

lemma took_Consume: "Consume ch s p = Some c \<Longrightarrow> took s p c"
proof -
  assume a: "Consume ch s p = Some c"
  obtain s1 p1 where s1: "SkipSpaceAndComments s p = (s1, p1)" by (rule prod.exhaust)
  have "s1 \<noteq> []" "c = Advance s1 p1" using a s1 by (auto simp: Consume_def split: if_splits)
  then show ?thesis using took_trans(1) [OF Skip_then [OF s1] took_Advance [of s1 p1]] by simp
qed

lemma moved_string_tail: "string_tail s p = Some c \<Longrightarrow> moved s p c"
  by (induction s p rule: string_tail.induct)
     (auto split: if_splits list.splits intro: moved_Cons)

lemma took_SkipString: "SkipString s p = Some c \<Longrightarrow> took s p c"
proof -
  assume a: "SkipString s p = Some c"
  obtain s1 p1 where s1: "SkipSpaceAndComments s p = (s1, p1)" by (rule prod.exhaust)
  obtain s2 p2 where s2: "Advance s1 p1 = (s2, p2)" by (rule prod.exhaust)
  have "s1 \<noteq> []" "string_tail s2 p2 = Some c" using a s1 s2 by (auto simp: SkipString_def split: if_splits)
  then show ?thesis
    using took_trans(1) [OF Skip_then [OF s1] took_trans(2) [OF took_Advance [of s1 p1, unfolded s2] moved_string_tail]] by simp
qed

lemma took_advance_by: "s \<noteq> [] \<Longrightarrow> took s p (advance_by (Suc n) s p)"
proof -
  assume s: "s \<noteq> []"
  obtain s1 p1 where a: "Advance s p = (s1, p1)" by (rule prod.exhaust)
  show ?thesis using took_trans(2) [OF took_Advance [OF s, of p, unfolded a] moved_loops(5)] a by simp
qed

lemma took_word: "s \<noteq> [] \<Longrightarrow> skip_word s p = Some c \<Longrightarrow> took s p c"
  using took_advance_by [of s p 3] took_advance_by [of s p 4]
  by (auto simp: skip_word_def numeral_eq_Suc split: if_splits)

text \<open>The end of a turn of either loop.\<close>

definition loop_end :: "char \<Rightarrow> (string \<Rightarrow> text_position \<Rightarrow> cursor option) \<Rightarrow> string \<Rightarrow> text_position \<Rightarrow> cursor option" where
  "loop_end close next s p =
     (let (s, p) = SkipSpaceAndComments s p
      in if s \<noteq> [] \<and> hd s = CHR '','' then
           (let (s, p) = (case Advance s p of (s, p) \<Rightarrow> SkipSpaceAndComments s p)
            in if s \<noteq> [] \<and> hd s = close then Some (Advance s p) else next s p)
         else Consume close s p)"

lemma SkipMembers_Suc:
  "SkipMembers value_of (Suc k) s p =
     do {
       (s, p) \<leftarrow> SkipString s p;
       (s, p) \<leftarrow> Consume (CHR '':'') s p;
       (s, p) \<leftarrow> value_of s p;
       loop_end (CHR ''}'') (SkipMembers value_of k) s p
     }"
  by (simp add: SkipMembers.simps loop_end_def)

lemma SkipElements_Suc:
  "SkipElements value_of (Suc k) s p =
     do {
       (s, p) \<leftarrow> value_of s p;
       loop_end (CHR '']'') (SkipElements value_of k) s p
     }"
  by (simp add: SkipElements.simps loop_end_def)

lemma loop_end_cases:
  assumes "loop_end close next s p = Some c"
  obtains (closed) "took s p c"
  | (again) s' p' where "took s p (s', p')" "next s' p' = Some c"
proof -
  obtain s1 p1 where s1: "SkipSpaceAndComments s p = (s1, p1)" by (rule prod.exhaust)
  note m1 = Skip_then [OF s1]
  show ?thesis
  proof (cases "s1 \<noteq> [] \<and> hd s1 = CHR '',''")
    case True
    obtain s2 p2 where s2: "Advance s1 p1 = (s2, p2)" by (rule prod.exhaust)
    obtain s3 p3 where s3: "SkipSpaceAndComments s2 p2 = (s3, p3)" by (rule prod.exhaust)
    have t: "took s p (s3, p3)"
      using True took_trans(1) [OF m1 took_trans(2) [OF took_Advance [of s1 p1, unfolded s2] Skip_then [OF s3]]] by simp
    show ?thesis
    proof (cases "s3 \<noteq> [] \<and> hd s3 = close")
      case closes: True
      then have "c = Advance s3 p3" using assms True s1 s2 s3 by (simp add: loop_end_def)
      then show ?thesis using closed took_trans(2) [OF t moved_Advance] by simp
    next
      case False
      then have "next s3 p3 = Some c" using assms True s1 s2 s3 by (auto simp: loop_end_def)
      then show ?thesis using again t by simp
    qed
  next
    case False
    then have "Consume close s1 p1 = Some c" using assms s1 by (auto simp: loop_end_def)
    then show ?thesis using closed took_trans(1) [OF m1 took_Consume] by simp
  qed
qed

lemma took_loops:
  assumes "\<And>s p c. value_of s p = Some c \<Longrightarrow> took s p c"
  shows "SkipMembers value_of k s p = Some c \<Longrightarrow> took s p c" "SkipElements value_of k s p = Some c \<Longrightarrow> took s p c"
proof -
  have tt: "took s p (s1, p1) \<Longrightarrow> took s1 p1 c \<Longrightarrow> took s p c" for s p s1 p1 c
    using took_trans(1) by (simp add: took_def) (metis moved_trans order_less_trans)
  show "SkipMembers value_of k s p = Some c \<Longrightarrow> took s p c"
  proof (induction k arbitrary: s p)
    case (Suc k)
    then obtain s1 p1 s2 p2 s3 p3 where
      "SkipString s p = Some (s1, p1)" "Consume (CHR '':'') s1 p1 = Some (s2, p2)" "value_of s2 p2 = Some (s3, p3)"
      and l: "loop_end (CHR ''}'') (SkipMembers value_of k) s3 p3 = Some c"
      by (auto simp: SkipMembers_Suc bind_eq_Some_conv)
    then have t: "took s p (s3, p3)" using tt [OF took_SkipString tt [OF took_Consume assms]] by blast
    show ?case
      using l by (cases rule: loop_end_cases) (use t tt Suc.IH in blast)+
  qed (simp add: SkipMembers.simps)
  show "SkipElements value_of k s p = Some c \<Longrightarrow> took s p c"
  proof (induction k arbitrary: s p)
    case (Suc k)
    then obtain s3 p3 where
      "value_of s p = Some (s3, p3)" and l: "loop_end (CHR '']'') (SkipElements value_of k) s3 p3 = Some c"
      by (auto simp: SkipElements_Suc bind_eq_Some_conv)
    then have t: "took s p (s3, p3)" using assms by blast
    show ?case
      using l by (cases rule: loop_end_cases) (use t tt Suc.IH in blast)+
  qed (simp add: SkipElements.simps)
qed

lemma skip_value_eq:
  assumes "SkipSpaceAndComments s p = (ch # t, p1)" "SkipSpaceAndComments t (after ch p1) = (s2, p2)"
  shows "skip_value_depth (Suc n) s p =
    (if ch = quote then SkipString (ch # t) p1
     else if ch = CHR ''{''
     then (if s2 \<noteq> [] \<and> hd s2 = CHR ''}'' then Some (Advance s2 p2) else SkipMembers (skip_value_depth n) (length s2) s2 p2)
     else if ch = CHR ''[''
     then (if s2 \<noteq> [] \<and> hd s2 = CHR '']'' then Some (Advance s2 p2) else SkipElements (skip_value_depth n) (length s2) s2 p2)
     else if ch = CHR ''-'' \<or> is_digit ch then Some (skip_number (ch # t) p1)
     else skip_word (ch # t) p1)"
proof (cases "ch = CHR ''{''")
  case True
  then show ?thesis using assms by (simp add: skip_value_depth.simps)
next
  case False
  then show ?thesis using assms by (cases "ch = CHR ''[''") (simp_all add: skip_value_depth.simps)
qed

lemma took_value: "skip_value_depth n s p = Some c \<Longrightarrow> took s p c"
proof (induction n arbitrary: s p c)
  case (Suc n)
  obtain s1 p1 where s1: "SkipSpaceAndComments s p = (s1, p1)" by (rule prod.exhaust)
  note m1 = Skip_then [OF s1]
  obtain ch t where ch: "s1 = ch # t" using Suc.prems s1 by (auto simp: skip_value_depth.simps split: list.splits)
  obtain s2 p2 where s2: "SkipSpaceAndComments t (after ch p1) = (s2, p2)" by (rule prod.exhaust)
  have t2: "took s1 p1 (s2, p2)" using ch took_Cons [OF Skip_then [OF s2]] by simp
  have l: "took s1 p1 c" if "SkipMembers (skip_value_depth n) k s2 p2 = Some c \<or> SkipElements (skip_value_depth n) k s2 p2 = Some c" for k
  proof -
    have "took s2 p2 c" using that took_loops [of "skip_value_depth n", OF Suc.IH] by blast
    then show ?thesis using took_trans(2) [OF t2] by (simp add: took_def)
  qed
  have a: "took s1 p1 c" if "c = Advance s2 p2" using that took_trans(2) [OF t2 moved_Advance] by simp
  have num: "took s1 p1 c" if "c = skip_number s1 p1" "ch = CHR ''-'' \<or> is_digit ch"
    using that ch took_Cons [OF moved_loops(4) [of t "after ch p1"]] by (auto simp: number_char_def)
  have "took s1 p1 c"
  proof -
    have "SkipString s1 p1 = Some c \<or> c = Advance s2 p2 \<or> SkipMembers (skip_value_depth n) (length s2) s2 p2 = Some c \<or>
        SkipElements (skip_value_depth n) (length s2) s2 p2 = Some c \<or>
        (c = skip_number s1 p1 \<and> (ch = CHR ''-'' \<or> is_digit ch)) \<or> skip_word s1 p1 = Some c"
      using Suc.prems ch unfolding skip_value_eq [OF s1 [unfolded ch] s2] by (simp split: if_splits)
    then show ?thesis
      by (elim disjE conjE) (use a l num took_SkipString took_word ch in blast)+
  qed
  then show ?case using took_trans(1) [OF m1] by simp
qed (simp add: skip_value_depth.simps)

lemma loop_end_cong:
  assumes "\<And>s' p'. length s' < length s \<Longrightarrow> next s' p' = next' s' p'"
  shows "loop_end close next s p = loop_end close next' s p"
proof -
  obtain s1 p1 where s1: "SkipSpaceAndComments s p = (s1, p1)" by (rule prod.exhaust)
  show ?thesis
  proof (cases "s1 \<noteq> [] \<and> hd s1 = CHR '',''")
    case True
    obtain s2 p2 where s2: "Advance s1 p1 = (s2, p2)" by (rule prod.exhaust)
    obtain s3 p3 where s3: "SkipSpaceAndComments s2 p2 = (s3, p3)" by (rule prod.exhaust)
    have "took s p (s3, p3)"
      using True took_trans(1) [OF Skip_then [OF s1] took_trans(2) [OF took_Advance [of s1 p1, unfolded s2] Skip_then [OF s3]]] by simp
    then have "next s3 p3 = next' s3 p3" using assms by (simp add: took_def)
    then show ?thesis using s1 s2 s3 True by (auto simp: loop_end_def)
  next
    case False
    then show ?thesis using s1 by (auto simp: loop_end_def)
  qed
qed

lemma loops_cong:
  assumes "\<And>s' p'. length s' \<le> length s \<Longrightarrow> value_of s' p' = value_of' s' p'"
    and taken: "\<And>s p c. value_of s p = Some c \<Longrightarrow> took s p c"
    and "length s \<le> k" "length s \<le> k'"
  shows "SkipMembers value_of k s p = SkipMembers value_of' k' s p" "SkipElements value_of k s p = SkipElements value_of' k' s p"
proof -
  have empty: "SkipSpaceAndComments [] p = ([], p)" for p by (simp add: SkipSpaceAndComments.simps)
  then have none: "SkipString [] p = None" for p by (simp add: SkipString_def)
  have "value_of [] p \<noteq> Some c" for p c using taken [of "[]" p c] by (auto simp: took_def)
  then have none_value: "value_of [] p = None" for p by (cases "value_of [] p") simp_all
  show "SkipMembers value_of k s p = SkipMembers value_of' k' s p"
    using assms(1,3,4)
  proof (induction k arbitrary: s p k')
    case 0
    then show ?case using none by (cases k') (simp_all add: SkipMembers.simps)
  next
    case (Suc k)
    show ?case
    proof (cases k')
      case 0
      then show ?thesis using Suc.prems none by (simp add: SkipMembers.simps)
    next
      case (Suc j)
      have "(SkipString s p \<bind> (\<lambda>(s, p). Consume (CHR '':'') s p \<bind> (\<lambda>(s, p). value_of s p \<bind>
            (\<lambda>(s, p). loop_end (CHR ''}'') (SkipMembers value_of k) s p)))) =
          (SkipString s p \<bind> (\<lambda>(s, p). Consume (CHR '':'') s p \<bind> (\<lambda>(s, p). value_of' s p \<bind>
            (\<lambda>(s, p). loop_end (CHR ''}'') (SkipMembers value_of' j) s p))))"
      proof (rule Option.bind_cong [OF refl], clarify)
        fix s1 a1 b1
        assume "SkipString s p = Some (s1, a1, b1)"
        then have l1: "length s1 < length s" using took_SkipString by (fastforce simp: took_def)
        show "(Consume (CHR '':'') s1 (a1, b1) \<bind> (\<lambda>(s, p). value_of s p \<bind>
            (\<lambda>(s, p). loop_end (CHR ''}'') (SkipMembers value_of k) s p))) =
          (Consume (CHR '':'') s1 (a1, b1) \<bind> (\<lambda>(s, p). value_of' s p \<bind>
            (\<lambda>(s, p). loop_end (CHR ''}'') (SkipMembers value_of' j) s p)))"
        proof (rule Option.bind_cong [OF refl], clarify)
          fix s2 a2 b2
          assume "Consume (CHR '':'') s1 (a1, b1) = Some (s2, a2, b2)"
          then have l2: "length s2 < length s" using took_Consume l1 by (fastforce simp: took_def)
          then have v: "value_of s2 (a2, b2) = value_of' s2 (a2, b2)" using Suc.prems(1) by simp
          show "(value_of s2 (a2, b2) \<bind> (\<lambda>(s, p). loop_end (CHR ''}'') (SkipMembers value_of k) s p)) =
              (value_of' s2 (a2, b2) \<bind> (\<lambda>(s, p). loop_end (CHR ''}'') (SkipMembers value_of' j) s p))"
            unfolding v
          proof (rule Option.bind_cong [OF refl], clarify)
            fix s3 a3 b3
            assume "value_of' s2 (a2, b2) = Some (s3, a3, b3)"
            then have "length s3 < length s" using taken [of s2 "(a2, b2)"] v l2 by (fastforce simp: took_def)
            then show "loop_end (CHR ''}'') (SkipMembers value_of k) s3 (a3, b3) =
                loop_end (CHR ''}'') (SkipMembers value_of' j) s3 (a3, b3)"
              using Suc.prems \<open>k' = Suc j\<close> by (intro loop_end_cong Suc.IH) auto
          qed
        qed
      qed
      then show ?thesis using \<open>k' = Suc j\<close> by (simp add: SkipMembers_Suc)
    qed
  qed
  show "SkipElements value_of k s p = SkipElements value_of' k' s p"
    using assms(1,3,4)
  proof (induction k arbitrary: s p k')
    case 0
    then show ?case using none_value by (cases k') (simp_all add: SkipElements.simps flip: 0(1))
  next
    case (Suc k)
    show ?case
    proof (cases k')
      case 0
      then show ?thesis using Suc.prems none_value by (simp add: SkipElements.simps)
    next
      case (Suc j)
      have v: "value_of s p = value_of' s p" using Suc.prems(1) by simp
      have "(value_of s p \<bind> (\<lambda>(s, p). loop_end (CHR '']'') (SkipElements value_of k) s p)) =
          (value_of' s p \<bind> (\<lambda>(s, p). loop_end (CHR '']'') (SkipElements value_of' j) s p))"
        unfolding v
      proof (rule Option.bind_cong [OF refl], clarify)
        fix s3 a3 b3
        assume "value_of' s p = Some (s3, a3, b3)"
        then have "length s3 < length s" using taken [of s p] v by (fastforce simp: took_def)
        then show "loop_end (CHR '']'') (SkipElements value_of k) s3 (a3, b3) =
            loop_end (CHR '']'') (SkipElements value_of' j) s3 (a3, b3)"
          using Suc.prems \<open>k' = Suc j\<close> by (intro loop_end_cong Suc.IH) auto
      qed
      then show ?thesis using \<open>k' = Suc j\<close> by (simp add: SkipElements_Suc)
    qed
  qed
qed

lemma skip_value_depth_enough:
  "length s < n \<Longrightarrow> length s < m \<Longrightarrow> skip_value_depth n s p = skip_value_depth m s p"
proof (induction n arbitrary: s p m)
  case (Suc n)
  obtain k where m: "m = Suc k" using Suc.prems by (cases m) simp_all
  obtain s1 p1 where s1: "SkipSpaceAndComments s p = (s1, p1)" by (rule prod.exhaust)
  show ?case
  proof (cases s1)
    case Nil
    then show ?thesis using m s1 by (simp add: skip_value_depth.simps)
  next
    case (Cons ch t)
    obtain s2 p2 where s2: "SkipSpaceAndComments t (after ch p1) = (s2, p2)" by (rule prod.exhaust)
    have "took s p (s2, p2)"
      using Cons took_trans(1) [OF Skip_then [OF s1]] took_Cons [OF Skip_then [OF s2]] by simp
    then have l: "length s2 < length s" by (simp add: took_def)
    have eq: "SkipMembers (skip_value_depth n) (length s2) s2 p2 = SkipMembers (skip_value_depth k) (length s2) s2 p2"
      "SkipElements (skip_value_depth n) (length s2) s2 p2 = SkipElements (skip_value_depth k) (length s2) s2 p2"
      by (rule loops_cong; use Suc.IH l Suc.prems m took_value in auto)+
    show ?thesis by (simp only: skip_value_eq [OF s1 [unfolded Cons] s2] eq m)
  qed
qed simp

end
