(* ===== verification/Json_Grammar.thy ===== *)
theory Json_Grammar
  imports Json_Text
begin

text \<open>
  The texts the settings parser accepts, JSON with comments and trailing commas, as a grammar over texts, and the proof
  that the scanner of \<open>Json_Text\<close> reads each of them to its end: a value that is followed by something that cannot
  continue a number leaves exactly the rest, with the cursor on the position after it.
\<close>

section \<open>Grammar\<close>

fun comment_body :: "string \<Rightarrow> bool" where
  "comment_body (a # b # s) \<longleftrightarrow> \<not> (a = CHR ''*'' \<and> b = CHR ''/'') \<and> comment_body (b # s)"
| "comment_body s \<longleftrightarrow> True"

inductive trivia :: "string \<Rightarrow> bool" where
  trivia_nil: "trivia []"
| trivia_blank: "blank ch \<Longrightarrow> trivia s \<Longrightarrow> trivia (ch # s)"
| trivia_line: "list_all (\<lambda>ch. ch \<noteq> LF \<and> ch \<noteq> CR) b \<Longrightarrow> nl = LF \<or> nl = CR \<Longrightarrow> trivia s \<Longrightarrow> trivia (''//'' @ b @ nl # s)"
| trivia_block: "comment_body b \<Longrightarrow> trivia s \<Longrightarrow> trivia (''/*'' @ b @ ''*/'' @ s)"

fun string_body :: "string \<Rightarrow> bool" where
  "string_body [] \<longleftrightarrow> True"
| "string_body (ch # s) \<longleftrightarrow>
     (if ch = escape then (case s of [] \<Rightarrow> False | _ # t \<Rightarrow> string_body t) else ch \<noteq> quote \<and> string_body s)"

definition string_text :: "string \<Rightarrow> bool" where
  "string_text s \<longleftrightarrow> (\<exists>b. string_body b \<and> s = quote # b @ [quote])"

text \<open>A member of an object with the trivia around its parts, and an element of an array with the trivia around it.\<close>

record text_member =
  m_lead :: string
  m_key :: string
  m_colon :: string
  m_gap :: string
  m_value :: string
  m_trail :: string

definition member_text :: "text_member \<Rightarrow> string" where
  "member_text m = m_lead m @ m_key m @ m_colon m @ '':'' @ m_gap m @ m_value m @ m_trail m"

definition member_shape :: "text_member \<Rightarrow> bool" where
  "member_shape m \<longleftrightarrow> trivia (m_lead m) \<and> string_text (m_key m) \<and> trivia (m_colon m) \<and> trivia (m_gap m) \<and> trivia (m_trail m)"

fun joined :: "string list \<Rightarrow> string" where
  "joined [] = []"
| "joined [t] = t"
| "joined (t # ts) = t @ '','' @ joined ts"

text \<open>\<open>ending\<close> is the trivia before the closing bracket: after a trailing comma, or all there is in an empty object.\<close>

definition ending_text :: "'a list \<Rightarrow> string option \<Rightarrow> string" where
  "ending_text ms ending = (case ending of None \<Rightarrow> [] | Some t \<Rightarrow> (if ms = [] then t else CHR '','' # t))"

definition ending_ok :: "string option \<Rightarrow> bool" where
  "ending_ok ending \<longleftrightarrow> (case ending of None \<Rightarrow> True | Some t \<Rightarrow> trivia t)"

definition object_text :: "text_member list \<Rightarrow> string option \<Rightarrow> string" where
  "object_text ms ending = ''{'' @ joined (map member_text ms) @ ending_text ms ending @ ''}''"

definition element_text :: "string \<times> string \<times> string \<Rightarrow> string" where
  "element_text e = (case e of (lead, v, trail) \<Rightarrow> lead @ v @ trail)"

definition array_text :: "(string \<times> string \<times> string) list \<Rightarrow> string option \<Rightarrow> string" where
  "array_text es ending = ''['' @ joined (map element_text es) @ ending_text es ending @ '']''"

inductive value_text :: "string \<Rightarrow> bool" where
  value_string: "string_text s \<Longrightarrow> value_text s"
| value_number: "s \<noteq> [] \<Longrightarrow> hd s = CHR ''-'' \<or> is_digit (hd s) \<Longrightarrow> list_all number_char s \<Longrightarrow> value_text s"
| value_word: "s = ''true'' \<or> s = ''false'' \<or> s = ''null'' \<Longrightarrow> value_text s"
| value_object: "\<forall>m \<in> set ms. member_shape m \<and> value_text (m_value m) \<Longrightarrow> ending_ok ending \<Longrightarrow> value_text (object_text ms ending)"
| value_array: "\<forall>e \<in> set es. trivia (fst e) \<and> value_text (fst (snd e)) \<and> trivia (snd (snd e)) \<Longrightarrow> ending_ok ending \<Longrightarrow>
    value_text (array_text es ending)"

definition object_ok :: "text_member list \<Rightarrow> string option \<Rightarrow> bool" where
  "object_ok ms ending \<longleftrightarrow> (\<forall>m \<in> set ms. member_shape m \<and> value_text (m_value m)) \<and> ending_ok ending"

section \<open>Trivia\<close>

lemma trivia_append: "trivia s \<Longrightarrow> trivia t \<Longrightarrow> trivia (s @ t)"
  by (induction rule: trivia.induct) (auto intro: trivia.intros trivia_line [simplified] trivia_block [simplified])

text \<open>Where trivia ends.\<close>

definition solid :: "string \<Rightarrow> bool" where
  "solid s \<longleftrightarrow> s = [] \<or> (\<not> blank (hd s) \<and> hd s \<noteq> CHR ''/'')"

lemma Skip_blank: "blank ch \<Longrightarrow> SkipSpaceAndComments (ch # s) p = SkipSpaceAndComments s (after ch p)"
  by (subst (1 2) SkipSpaceAndComments.simps) simp

lemma slash_not_blank: "\<not> blank (CHR ''/'')"
  by (simp add: blank_def)

lemma skip_line_comment_body:
  "list_all (\<lambda>ch. ch \<noteq> LF \<and> ch \<noteq> CR) b \<Longrightarrow> nl = LF \<or> nl = CR \<Longrightarrow>
   skip_line_comment (b @ nl # s) p = (nl # s, after_text b p)"
  by (induction b arbitrary: p) (auto simp: after_plain)

lemma skip_block_comment_body:
  "comment_body b \<Longrightarrow> skip_block_comment (b @ ''*/'' @ s) p = (s, after_text (b @ ''*/'') p)"
proof (induction b arbitrary: p rule: comment_body.induct)
  case (1 a b s)
  then show ?case by auto
qed (auto simp: after_def)

lemma Skip_line:
  assumes "list_all (\<lambda>ch. ch \<noteq> LF \<and> ch \<noteq> CR) b" "nl = LF \<or> nl = CR"
  shows "SkipSpaceAndComments (''//'' @ b @ nl # s) p = SkipSpaceAndComments (nl # s) (after_text (''//'' @ b) p)"
  using skip_line_comment_body [OF assms]
  by (subst SkipSpaceAndComments.simps) (simp add: slash_not_blank after_def add.commute)

lemma Skip_block:
  assumes "comment_body b"
  shows "SkipSpaceAndComments (''/*'' @ b @ ''*/'' @ s) p = SkipSpaceAndComments s (after_text (''/*'' @ b @ ''*/'') p)"
  using skip_block_comment_body [OF assms]
  by (subst SkipSpaceAndComments.simps) (simp add: slash_not_blank after_def add.commute)

lemma Skip_trivia: "trivia t \<Longrightarrow> SkipSpaceAndComments (t @ r) p = SkipSpaceAndComments r (after_text t p)"
proof (induction arbitrary: p rule: trivia.induct)
  case (trivia_blank ch s)
  then show ?case by (simp add: Skip_blank)
next
  case (trivia_line b nl s)
  have "blank nl" using trivia_line.hyps(2) by (auto simp: blank_def)
  then show ?case
    using Skip_line [OF trivia_line.hyps(1,2), of "s @ r" p] trivia_line.IH by (simp add: Skip_blank)
next
  case (trivia_block b s)
  then show ?case using Skip_block [OF trivia_block.hyps(1), of "s @ r" p] by simp
qed simp

lemma Skip_solid: "solid s \<Longrightarrow> SkipSpaceAndComments s p = (s, p)"
  by (subst SkipSpaceAndComments.simps) (cases s; auto simp: solid_def take_2)

lemma Skip_to: "trivia t \<Longrightarrow> solid r \<Longrightarrow> SkipSpaceAndComments (t @ r) p = (r, after_text t p)"
  by (simp add: Skip_trivia Skip_solid)

section \<open>Tokens\<close>

lemma string_tail_body:
  "string_body b \<Longrightarrow> string_tail (b @ quote # r) p = Some (r, after_text (b @ [quote]) p)"
  by (induction b arbitrary: p rule: string_body.induct) (auto split: if_splits list.splits)

lemma string_text_solid: "string_text k \<Longrightarrow> solid (k @ r)"
  by (auto simp: string_text_def solid_def blank_def)

lemma SkipString_text:
  assumes "trivia t" "string_text k"
  shows "SkipString (t @ k @ r) p = Some (r, after_text (t @ k) p)"
proof -
  obtain b where b: "string_body b" "k = quote # b @ [quote]" using assms(2) by (auto simp: string_text_def)
  have "SkipSpaceAndComments (t @ k @ r) p = (k @ r, after_text t p)"
    using assms string_text_solid by (intro Skip_to) auto
  then show ?thesis using string_tail_body [OF b(1), of r] b by (simp add: SkipString_def)
qed

lemma Consume_text:
  assumes "trivia t" "solid (ch # r)"
  shows "Consume ch (t @ ch # r) p = Some (r, after_text (t @ [ch]) p)"
  using Skip_to [OF assms] by (simp add: Consume_def)

definition stops :: "string \<Rightarrow> bool" where
  "stops r \<longleftrightarrow> r = [] \<or> \<not> number_char (hd r)"

lemma skip_number_text: "list_all number_char s \<Longrightarrow> stops r \<Longrightarrow> skip_number (s @ r) p = (r, after_text s p)"
proof (induction s arbitrary: p)
  case Nil
  then show ?case by (cases r) (auto simp: stops_def)
qed simp

lemma skip_word_text:
  "s = ''true'' \<or> s = ''false'' \<or> s = ''null'' \<Longrightarrow> skip_word (s @ r) p = Some (r, after_text s p)"
  by (auto simp: skip_word_def starts_with_def numeral_eq_Suc)

lemma trivia_stops: "trivia t \<Longrightarrow> stops r \<Longrightarrow> stops (t @ r)"
proof (induction rule: trivia.induct)
  case (trivia_blank ch s)
  then show ?case by (auto simp: stops_def number_char_def blank_def is_digit_def code_def)
qed (auto simp: stops_def number_char_def is_digit_def code_def)

lemma value_solid: "value_text v \<Longrightarrow> v \<noteq> [] \<and> solid (v @ r)"
proof (induction rule: value_text.induct)
  case (value_number s)
  then show ?case by (cases s) (auto simp: solid_def blank_def is_digit_def code_def)
qed (auto simp: string_text_def solid_def blank_def object_text_def array_text_def)

lemma SkipValue_trivia:
  assumes "trivia t" "solid r"
  shows "skip_value_depth n (t @ r) p = skip_value_depth n r (after_text t p)"
proof (cases n)
  case (Suc k)
  show ?thesis unfolding Suc skip_value_depth.simps Skip_to [OF assms] Skip_solid [OF assms(2)] ..
qed (simp add: skip_value_depth.simps)

section \<open>Loops\<close>

text \<open>A unit of a loop: the trivia before it, its core, and the trivia after it. What follows the first unit:\<close>

type_synonym text_unit = "string \<times> string \<times> string"

definition member_core :: "text_member \<Rightarrow> string" where
  "member_core m = m_key m @ m_colon m @ '':'' @ m_gap m @ m_value m"

definition member_unit :: "text_member \<Rightarrow> text_unit" where
  "member_unit m = (m_lead m, member_core m, m_trail m)"

lemma member_text_unit: "member_text m = element_text (member_unit m)"
  by (simp add: member_text_def member_unit_def member_core_def element_text_def)

fun units_rest :: "char \<Rightarrow> text_unit list \<Rightarrow> string option \<Rightarrow> string" where
  "units_rest close [] ending = (case ending of None \<Rightarrow> [] | Some t \<Rightarrow> CHR '','' # t) @ [close]"
| "units_rest close ((lead, core, trail) # us) ending = '','' @ lead @ core @ trail @ units_rest close us ending"

lemma joined_rest:
  "joined (map element_text ((lead, core, trail) # us)) @ (case ending of None \<Rightarrow> [] | Some t \<Rightarrow> CHR '','' # t) @ [close] =
   lead @ core @ trail @ units_rest close us ending"
proof (induction us arbitrary: lead core trail)
  case (Cons u us)
  obtain l c t where u: "u = (l, c, t)" by (cases u)
  show ?case using Cons.IH [of l c t] by (simp add: u element_text_def)
qed (simp add: element_text_def)

lemma object_text_units:
  "object_text (m # ms) ending = ''{'' @ m_lead m @ member_core m @ m_trail m @ units_rest (CHR ''}'') (map member_unit ms) ending"
proof -
  have "map member_text (m # ms) = map element_text ((m_lead m, member_core m, m_trail m) # map member_unit ms)"
    by (simp add: member_text_unit) (simp add: member_unit_def)
  then show ?thesis
    using joined_rest [of "m_lead m" "member_core m" "m_trail m" "map member_unit ms" ending "CHR ''}''"]
    by (simp add: object_text_def ending_text_def del: list.map split: option.splits)
qed

lemma array_text_units:
  "array_text ((lead, v, trail) # es) ending = ''['' @ lead @ v @ trail @ units_rest (CHR '']'') es ending"
  using joined_rest [of lead v trail es ending "CHR '']''"]
  by (simp add: array_text_def ending_text_def split: option.splits)

lemma loop_end_more:
  assumes "trivia trail" "trivia lead" "solid s" "s \<noteq> []" "hd s \<noteq> close"
  shows "loop_end close next (trail @ CHR '','' # lead @ s) p = next s (after_text (trail @ '','' @ lead) p)"
proof -
  have "solid (CHR '','' # lead @ s)" by (simp add: solid_def blank_def)
  then show ?thesis using Skip_to [OF assms(1)] Skip_to [OF assms(2,3)] assms(4,5) by (simp add: loop_end_def)
qed

definition closing :: "char \<Rightarrow> bool" where
  "closing close \<longleftrightarrow> close = CHR ''}'' \<or> close = CHR '']''"

lemma closing_solid: "closing close \<Longrightarrow> solid (close # r) \<and> close \<noteq> CHR '','' \<and> stops (close # r)"
  by (auto simp: closing_def solid_def blank_def stops_def number_char_def is_digit_def code_def)

lemma loop_end_close:
  assumes "trivia trail" "ending_ok ending" "closing close"
  shows "loop_end close next (trail @ units_rest close [] ending @ r) p = Some (r, after_text (trail @ units_rest close [] ending) p)"
proof (cases ending)
  case None
  have "SkipSpaceAndComments (trail @ close # r) p = (close # r, after_text trail p)"
    using assms closing_solid by (intro Skip_to) auto
  then show ?thesis using None closing_solid [OF assms(3)] Consume_text [of "[]" close r] trivia_nil by (simp add: loop_end_def)
next
  case (Some t)
  then have t: "trivia t" using assms(2) by (simp add: ending_ok_def)
  have s: "solid (CHR '','' # t @ close # r)" by (simp add: solid_def blank_def)
  have "SkipSpaceAndComments (t @ close # r) p = (close # r, after_text t p)" for p
    using t assms closing_solid by (intro Skip_to) auto
  then show ?thesis using Some Skip_to [OF assms(1) s] by (simp add: loop_end_def)
qed

lemma loop_reads_units:
  assumes turn: "\<And>k X p. stops X \<Longrightarrow> F (Suc k) (core @ X) p = loop_end close (F k) X (after_text core p)"
    and turns: "\<And>u k X p. u \<in> set us \<Longrightarrow> stops X \<Longrightarrow> F (Suc k) (fst (snd u) @ X) p = loop_end close (F k) X (after_text (fst (snd u)) p)"
    and us: "\<And>u X. u \<in> set us \<Longrightarrow> trivia (fst u) \<and> trivia (snd (snd u)) \<and> fst (snd u) \<noteq> [] \<and> solid (fst (snd u) @ X) \<and> hd (fst (snd u)) \<noteq> close"
    and trail: "trivia trail" and ending: "ending_ok ending" and close: "closing close" and k: "length us < k"
  shows "F k (core @ trail @ units_rest close us ending @ r) p = Some (r, after_text (core @ trail @ units_rest close us ending) p)"
  using turn turns us trail k
proof (induction us arbitrary: core trail p k)
  case Nil
  obtain j where k: "k = Suc j" using Nil.prems(5) by (cases k) auto
  have "stops (units_rest close [] ending @ r)"
    using closing_solid [OF close] by (cases ending) (simp_all add: stops_def number_char_def is_digit_def code_def)
  then have "stops (trail @ units_rest close [] ending @ r)" by (rule trivia_stops [OF Nil.prems(4)])
  then show ?case using Nil.prems(1) loop_end_close [OF Nil.prems(4) ending close] k by simp
next
  case (Cons u us)
  obtain j where k: "k = Suc j" using Cons.prems(5) by (cases k) auto
  obtain l c t where u: "u = (l, c, t)" by (cases u)
  have uf: "trivia l" "trivia t" "c \<noteq> []" "hd c \<noteq> close" "\<And>X. solid (c @ X)"
    using Cons.prems(3) [of u] by (simp_all add: u)
  let ?X = "t @ units_rest close us ending @ r"
  have st: "stops (trail @ CHR '','' # l @ c @ ?X)"
    by (rule trivia_stops [OF Cons.prems(4)]) (simp add: stops_def number_char_def is_digit_def code_def)
  have "F k (core @ trail @ units_rest close (u # us) ending @ r) p =
      loop_end close (F j) (trail @ CHR '','' # l @ c @ ?X) (after_text core p)"
    using Cons.prems(1) [OF st] by (simp add: u k)
  also have "\<dots> = F j (c @ ?X) (after_text (core @ trail @ '','' @ l) p)"
    using loop_end_more [OF Cons.prems(4) uf(1) uf(5) [of ?X], where close = close] uf(3,4) by simp
  also have "\<dots> = Some (r, after_text (c @ t @ units_rest close us ending) (after_text (core @ trail @ '','' @ l) p))"
  proof (rule Cons.IH)
    show "F (Suc k) (c @ X) p = loop_end close (F k) X (after_text c p)" if "stops X" for k X p
      using Cons.prems(2) [of u X k p] that by (simp add: u)
    show "F (Suc k) (fst (snd v) @ X) p = loop_end close (F k) X (after_text (fst (snd v)) p)"
      if "v \<in> set us" "stops X" for v k X p
      using Cons.prems(2) [of v X k p] that by simp
    show "trivia (fst v) \<and> trivia (snd (snd v)) \<and> fst (snd v) \<noteq> [] \<and> solid (fst (snd v) @ X) \<and> hd (fst (snd v)) \<noteq> close"
      if "v \<in> set us" for v X
      using Cons.prems(3) [of v X] that by simp
  qed (use Cons.prems(5) uf k in auto)
  finally show ?case by (simp add: u)
qed

section \<open>Values\<close>

definition reads_value :: "(string \<Rightarrow> text_position \<Rightarrow> cursor option) \<Rightarrow> string \<Rightarrow> bool" where
  "reads_value value_of v \<longleftrightarrow>
     (\<forall>t r p. trivia t \<longrightarrow> stops r \<longrightarrow> value_of (t @ v @ r) p = Some (r, after_text (t @ v) p))"

lemma reads_valueD:
  "reads_value value_of v \<Longrightarrow> trivia t \<Longrightarrow> stops r \<Longrightarrow> value_of (t @ v @ r) p = Some (r, after_text (t @ v) p)"
  unfolding reads_value_def by blast

lemma SkipMembers_turn:
  assumes m: "member_shape m" "reads_value value_of (m_value m)" and X: "stops X"
  shows "SkipMembers value_of (Suc k) (member_core m @ X) p =
    loop_end (CHR ''}'') (SkipMembers value_of k) X (after_text (member_core m) p)"
proof -
  let ?colon = "m_colon m @ CHR '':'' # m_gap m @ m_value m @ X"
  have sh: "trivia (m_colon m)" "string_text (m_key m)" "trivia (m_gap m)" using m(1) by (simp_all add: member_shape_def)
  have "SkipString (m_key m @ ?colon) p = Some (?colon, after_text (m_key m) p)"
    using SkipString_text [OF trivia_nil sh(2)] by simp
  moreover have "Consume (CHR '':'') ?colon q = Some (m_gap m @ m_value m @ X, after_text (m_colon m @ '':'') q)" for q
    by (rule Consume_text [OF sh(1)]) (simp add: solid_def blank_def)
  moreover have "value_of (m_gap m @ m_value m @ X) q = Some (X, after_text (m_gap m @ m_value m) q)" for q
    using reads_valueD [OF m(2) sh(3) X] by simp
  ultimately show ?thesis by (simp add: SkipMembers_Suc member_core_def)
qed

lemma SkipElements_turn:
  assumes "reads_value value_of v" "stops X"
  shows "SkipElements value_of (Suc k) (v @ X) p = loop_end (CHR '']'') (SkipElements value_of k) X (after_text v p)"
  using reads_valueD [OF assms(1) trivia_nil assms(2)] by (simp add: SkipElements_Suc)

lemma member_core_solid: "member_shape m \<Longrightarrow> member_core m \<noteq> [] \<and> solid (member_core m @ X) \<and> hd (member_core m) = quote"
  using string_text_solid by (auto simp: member_shape_def member_core_def string_text_def solid_def blank_def)

lemma members_read:
  assumes "object_ok (m # ms) ending" "\<forall>m \<in> set (m # ms). reads_value value_of (m_value m)" "length ms < k"
  shows "SkipMembers value_of k (member_core m @ m_trail m @ units_rest (CHR ''}'') (map member_unit ms) ending @ r) p =
    Some (r, after_text (member_core m @ m_trail m @ units_rest (CHR ''}'') (map member_unit ms) ending) p)"
proof (rule loop_reads_units)
  have sh: "member_shape x" if "x \<in> set (m # ms)" for x using assms(1) that by (auto simp: object_ok_def)
  show "SkipMembers value_of (Suc k) (member_core m @ X) p =
      loop_end (CHR ''}'') (SkipMembers value_of k) X (after_text (member_core m) p)" if "stops X" for k X p
    using SkipMembers_turn that sh assms(2) by simp
  show "SkipMembers value_of (Suc k) (fst (snd u) @ X) p =
      loop_end (CHR ''}'') (SkipMembers value_of k) X (after_text (fst (snd u)) p)"
    if u: "u \<in> set (map member_unit ms)" "stops X" for u k X p
  proof -
    obtain x where x: "x \<in> set ms" "u = member_unit x" using u by auto
    then show ?thesis
      using SkipMembers_turn [OF _ _ u(2), of x value_of k p] sh [of x] assms(2) by (simp add: member_unit_def)
  qed
  show "trivia (fst u) \<and> trivia (snd (snd u)) \<and> fst (snd u) \<noteq> [] \<and> solid (fst (snd u) @ X) \<and> hd (fst (snd u)) \<noteq> CHR ''}''"
    if "u \<in> set (map member_unit ms)" for u X
    using that sh member_core_solid by (auto simp: member_unit_def member_shape_def)
qed (use assms in \<open>auto simp: object_ok_def member_shape_def closing_def\<close>)

lemma elements_read:
  assumes "\<forall>e \<in> set ((lead, v, trail) # es). trivia (fst e) \<and> value_text (fst (snd e)) \<and> trivia (snd (snd e))"
    "ending_ok ending" "\<forall>e \<in> set ((lead, v, trail) # es). reads_value value_of (fst (snd e))" "length es < k"
  shows "SkipElements value_of k (v @ trail @ units_rest (CHR '']'') es ending @ r) p =
    Some (r, after_text (v @ trail @ units_rest (CHR '']'') es ending) p)"
proof (rule loop_reads_units)
  show "SkipElements value_of (Suc k) (v @ X) p = loop_end (CHR '']'') (SkipElements value_of k) X (after_text v p)"
    if "stops X" for k X p
    using SkipElements_turn that assms(3) by simp
  show "SkipElements value_of (Suc k) (fst (snd u) @ X) p =
      loop_end (CHR '']'') (SkipElements value_of k) X (after_text (fst (snd u)) p)" if "u \<in> set es" "stops X" for u k X p
    using SkipElements_turn that assms(3) by simp
  have "hd v \<noteq> CHR '']''" if "value_text v" for v
    using that by cases (auto simp: string_text_def object_text_def array_text_def is_digit_def code_def)
  then show "trivia (fst u) \<and> trivia (snd (snd u)) \<and> fst (snd u) \<noteq> [] \<and> solid (fst (snd u) @ X) \<and> hd (fst (snd u)) \<noteq> CHR '']''"
    if "u \<in> set es" for u X
    using that assms(1) value_solid by simp
qed (use assms in \<open>auto simp: closing_def\<close>)

lemma length_joined: "x \<in> set xs \<Longrightarrow> length x \<le> length (joined xs)"
  by (induction xs rule: joined.induct) auto

lemma length_member_value: "m \<in> set ms \<Longrightarrow> length (m_value m) + 1 < length (object_text ms ending)"
  using length_joined [of "member_text m" "map member_text ms"] by (simp add: object_text_def member_text_def)

lemma length_element_value: "e \<in> set es \<Longrightarrow> length (fst (snd e)) + 1 < length (array_text es ending)"
  using length_joined [of "element_text e" "map element_text es"]
  by (simp add: array_text_def element_text_def case_prod_beta)

lemma length_units_rest: "length us < length (units_rest close us ending)"
  by (induction close us ending rule: units_rest.induct) auto

lemma closes_at_once:
  assumes "trivia t" "closing close"
  shows "SkipSpaceAndComments (t @ close # r) p = (close # r, after_text t p)"
  using assms closing_solid by (intro Skip_to) auto

lemma reads_object:
  assumes ok: "object_ok ms ending" and vs: "\<forall>m \<in> set ms. reads_value (skip_value_depth n) (m_value m)"
  shows "skip_value_depth (Suc n) (object_text ms ending @ r) p = Some (r, after_text (object_text ms ending) p)"
proof (cases ms)
  case Nil
  let ?t = "case ending of None \<Rightarrow> [] | Some t \<Rightarrow> t"
  have t: "trivia ?t" "object_text ms ending = CHR ''{'' # ?t @ ''}''"
    using ok Nil trivia_nil by (auto simp: object_ok_def ending_ok_def object_text_def ending_text_def split: option.splits)
  have "SkipSpaceAndComments (CHR ''{'' # ?t @ CHR ''}'' # r) p = (CHR ''{'' # ?t @ CHR ''}'' # r, p)"
    by (rule Skip_solid) (simp add: solid_def blank_def)
  from skip_value_eq [OF this closes_at_once [OF t(1)]] show ?thesis by (simp add: t closing_def)
next
  case (Cons m ms')
  let ?rest = "m_trail m @ units_rest (CHR ''}'') (map member_unit ms') ending"
  let ?s = "member_core m @ ?rest @ r"
  have m: "member_shape m" using ok Cons by (simp add: object_ok_def)
  have o: "object_text ms ending = CHR ''{'' # m_lead m @ member_core m @ ?rest" by (simp add: Cons object_text_units)
  have s1: "SkipSpaceAndComments (CHR ''{'' # m_lead m @ ?s) p = (CHR ''{'' # m_lead m @ ?s, p)"
    by (rule Skip_solid) (simp add: solid_def blank_def)
  have s2: "SkipSpaceAndComments (m_lead m @ ?s) q = (?s, after_text (m_lead m) q)" for q
    using m member_core_solid [OF m] by (intro Skip_to) (simp_all add: member_shape_def)
  have "length ms' < length ?s" using length_units_rest [of "map member_unit ms'" "CHR ''}''" ending] by simp
  then have "SkipMembers (skip_value_depth n) (length ?s) ?s q = Some (r, after_text (member_core m @ ?rest) q)" for q
    using members_read [of m ms' ending "skip_value_depth n" "length ?s" r q] ok vs Cons by simp
  then show ?thesis
    unfolding o using skip_value_eq [OF s1 s2, of n] member_core_solid [OF m, of "?rest @ r"] by simp
qed

lemma reads_array:
  assumes ok: "\<forall>e \<in> set es. trivia (fst e) \<and> value_text (fst (snd e)) \<and> trivia (snd (snd e))" "ending_ok ending"
    and vs: "\<forall>e \<in> set es. reads_value (skip_value_depth n) (fst (snd e))"
  shows "skip_value_depth (Suc n) (array_text es ending @ r) p = Some (r, after_text (array_text es ending) p)"
proof (cases es)
  case Nil
  let ?t = "case ending of None \<Rightarrow> [] | Some t \<Rightarrow> t"
  have t: "trivia ?t" "array_text es ending = CHR ''['' # ?t @ '']''"
    using ok Nil trivia_nil by (auto simp: ending_ok_def array_text_def ending_text_def split: option.splits)
  have "SkipSpaceAndComments (CHR ''['' # ?t @ CHR '']'' # r) p = (CHR ''['' # ?t @ CHR '']'' # r, p)"
    by (rule Skip_solid) (simp add: solid_def blank_def)
  from skip_value_eq [OF this closes_at_once [OF t(1)]] show ?thesis by (simp add: t closing_def)
next
  case (Cons e es')
  obtain lead v trail where e: "e = (lead, v, trail)" by (cases e)
  let ?rest = "trail @ units_rest (CHR '']'') es' ending"
  let ?s = "v @ ?rest @ r"
  have v: "trivia lead" "v \<noteq> []" "\<And>X. solid (v @ X)" using ok Cons e value_solid by auto
  have h: "hd ?s \<noteq> CHR '']''"
  proof -
    have "value_text v" using ok Cons e by simp
    then have "hd v \<noteq> CHR '']''" by cases (auto simp: string_text_def object_text_def array_text_def is_digit_def code_def)
    then show ?thesis using v(2) by simp
  qed
  have o: "array_text es ending = CHR ''['' # lead @ v @ ?rest" by (simp add: Cons e array_text_units)
  have s1: "SkipSpaceAndComments (CHR ''['' # lead @ ?s) p = (CHR ''['' # lead @ ?s, p)"
    by (rule Skip_solid) (simp add: solid_def blank_def)
  have s2: "SkipSpaceAndComments (lead @ ?s) q = (?s, after_text lead q)" for q using v by (intro Skip_to) simp_all
  have "length es' < length ?s" using length_units_rest [of es' "CHR '']''" ending] by simp
  then have "SkipElements (skip_value_depth n) (length ?s) ?s q = Some (r, after_text (v @ ?rest) q)" for q
    using elements_read [of lead v trail es' ending "skip_value_depth n" "length ?s" r q] ok vs Cons e by simp
  then show ?thesis unfolding o using skip_value_eq [OF s1 s2, of n] h by simp
qed

lemma value_read: "value_text v \<Longrightarrow> length v < n \<Longrightarrow> reads_value (skip_value_depth n) v"
proof (induction arbitrary: n rule: value_text.induct)
  case (value_string s)
  then obtain b where b: "string_body b" "s = quote # b @ [quote]" by (auto simp: string_text_def)
  obtain k where n: "n = Suc k" using value_string.prems by (cases n) simp_all
  show ?case unfolding reads_value_def n
  proof (intro allI impI)
    fix t r p
    assume t: "trivia t" "stops r"
    show "skip_value_depth (Suc k) (t @ s @ r) p = Some (r, after_text (t @ s) p)"
      unfolding SkipValue_trivia [OF t(1) string_text_solid [OF value_string.hyps]]
      using Skip_solid [OF string_text_solid [OF value_string.hyps], of r "after_text t p"]
        SkipString_text [OF trivia_nil value_string.hyps, of r "after_text t p"] b
      by (simp add: skip_value_depth.simps)
  qed
next
  case (value_number s)
  then obtain ch u where s: "s = ch # u" by (cases s) auto
  obtain k where n: "n = Suc k" using value_number.prems by (cases n) simp_all
  have so: "solid (s @ r)" for r using value_text.value_number [OF value_number.hyps] value_solid by blast
  have ch: "ch \<noteq> quote" "ch \<noteq> CHR ''{''" "ch \<noteq> CHR ''[''" using value_number.hyps s by (auto simp: is_digit_def code_def)
  show ?case unfolding reads_value_def n
  proof (intro allI impI)
    fix t r p
    assume t: "trivia t" "stops r"
    show "skip_value_depth (Suc k) (t @ s @ r) p = Some (r, after_text (t @ s) p)"
      unfolding SkipValue_trivia [OF t(1) so]
      using Skip_solid [OF so, of r "after_text t p"] skip_number_text [OF value_number.hyps(3) t(2), of "after_text t p"] value_number.hyps(2) s ch
      by (auto simp: skip_value_depth.simps)
  qed
next
  case (value_word s)
  obtain k where n: "n = Suc k" using value_word.prems by (cases n) simp_all
  have so: "solid (s @ r)" for r using value_text.value_word [OF value_word.hyps] value_solid by blast
  show ?case unfolding reads_value_def n
  proof (intro allI impI)
    fix t r p
    assume t: "trivia t" "stops r"
    show "skip_value_depth (Suc k) (t @ s @ r) p = Some (r, after_text (t @ s) p)"
      unfolding SkipValue_trivia [OF t(1) so]
      using Skip_solid [OF so, of r "after_text t p"] skip_word_text [OF value_word.hyps, of r "after_text t p"] value_word.hyps
      by (auto simp: skip_value_depth.simps is_digit_def code_def)
  qed
next
  case (value_object ms ending)
  obtain k where n: "n = Suc k" using value_object.prems by (cases n) simp_all
  have vs: "\<forall>m \<in> set ms. reads_value (skip_value_depth k) (m_value m)"
  proof
    fix m assume m: "m \<in> set ms"
    then show "reads_value (skip_value_depth k) (m_value m)"
      using value_object.IH value_object.prems length_member_value [OF m, of ending] n by auto
  qed
  have ok: "object_ok ms ending" using value_object by (simp add: object_ok_def)
  have so: "solid (object_text ms ending @ r)" for r by (simp add: object_text_def solid_def blank_def)
  show ?case unfolding reads_value_def n
    using SkipValue_trivia [OF _ so, of _ "Suc k"] reads_object [OF ok vs] by auto
next
  case (value_array es ending)
  obtain k where n: "n = Suc k" using value_array.prems by (cases n) simp_all
  have vs: "\<forall>e \<in> set es. reads_value (skip_value_depth k) (fst (snd e))"
  proof
    fix e assume e: "e \<in> set es"
    then show "reads_value (skip_value_depth k) (fst (snd e))"
      using value_array.IH value_array.prems length_element_value [OF e, of ending] n by auto
  qed
  have so: "solid (array_text es ending @ r)" for r by (simp add: array_text_def solid_def blank_def)
  show ?case unfolding reads_value_def n
    using SkipValue_trivia [OF _ so, of _ "Suc k"] reads_array [OF _ value_array.hyps vs] value_array.IH by auto
qed

text \<open>The position after a text: the line feeds in it, and what follows the last of them.\<close>

lemma after_text_position:
  "after_text u p =
    (fst p + of_nat (length (filter (\<lambda>ch. ch = LF) u)),
     if LF \<in> set u then of_nat (length (takeWhile (\<lambda>ch. ch \<noteq> LF) (rev u))) + 1 else snd p + of_nat (length u))"
proof (induction u rule: rev_induct)
  case (snoc ch u)
  then show ?case by (auto simp: after_def)
qed simp

text \<open>C19: \<open>SkipValue\<close> reads every value of the user document's dialect to its end, comments and trailing commas included, and
  leaves the cursor on the line and column after it, whatever follows that cannot continue a number.\<close>

theorem SkipValue_reads:
  assumes "trivia t" "value_text v" "stops r"
  shows "SkipValue (t @ v @ r) (line, column) =
    Some (r, line + of_nat (length (filter (\<lambda>ch. ch = LF) (t @ v))),
          if LF \<in> set (t @ v) then of_nat (length (takeWhile (\<lambda>ch. ch \<noteq> LF) (rev (t @ v)))) + 1
          else column + of_nat (length (t @ v)))"
proof -
  have "SkipValue (t @ v @ r) (line, column) = Some (r, after_text (t @ v) (line, column))"
    unfolding SkipValue_def by (rule reads_valueD [OF value_read assms(1,3)]) (use assms(2) in simp_all)
  then show ?thesis by (simp only: after_text_position fst_conv snd_conv)
qed

theorem SkipValue_reads_witness:
  "SkipValue (''// first'' @ [LF] @ ''{ '' @ [quote] @ ''a'' @ [quote] @ '': -1.5e3, }'' @ '','') (1, 1) = Some ('','', 2, 17)"
proof -
  let ?m = "\<lparr>m_lead = '' '', m_key = [quote] @ ''a'' @ [quote], m_colon = [], m_gap = '' '', m_value = ''-1.5e3'', m_trail = []\<rparr>"
  have n: "value_text ''-1.5e3''" by (rule value_number) (simp_all add: number_char_def is_digit_def code_def)
  have b: "trivia '' ''" by (intro trivia_blank trivia_nil) (simp add: blank_def)
  have "member_shape ?m \<and> value_text (m_value ?m)"
    using n b trivia_nil by (auto simp: member_shape_def string_text_def intro!: exI [of _ "''a''"])
  then have "value_text (object_text [?m] (Some '' ''))"
    by (intro value_object) (use b in \<open>auto simp: ending_ok_def\<close>)
  moreover have "trivia (''// first'' @ [LF])"
    using trivia_line [of "'' first''" LF "[]"] trivia_nil by simp
  moreover have "stops '',''" by (simp add: stops_def number_char_def is_digit_def code_def)
  ultimately have "SkipValue ((''// first'' @ [LF]) @ object_text [?m] (Some '' '') @ '','') (1, 1) = Some ('','', 2, 17)"
    by (subst SkipValue_reads) (simp_all add: object_text_def member_text_def ending_text_def)
  then show ?thesis by (simp add: object_text_def member_text_def ending_text_def)
qed

end
