(* ===== verification/Settings_Patch.thy ===== *)
theory Settings_Patch
  imports Json_Grammar Dock_Options Work_Lane
begin

text \<open>
  The source patches of \<open>RedXe/Settings.cpp\<close>: the edits that write a dock setting into the user's own document and leave
  the rest of its text, comments and layout as they are. A source is a \<open>string\<close>, a position in it a \<open>nat\<close>, and the
  index of a cursor the length of the source less the length of what is left.
\<close>

section \<open>Finding a member\<close>

record SourceMember =
  keyBegin :: nat
  valueBegin :: nat
  valueEnd :: nat
  closingBrace :: nat
  lastKeyBegin :: nat
  lastValueEnd :: nat
  member_found :: bool
  hasMembers :: bool

definition SourceMember_init :: SourceMember where
  "SourceMember_init = \<lparr>keyBegin = 0, valueBegin = 0, valueEnd = 0, closingBrace = 0, lastKeyBegin = 0, lastValueEnd = 0,
     member_found = False, hasMembers = False\<rparr>"

definition hex_value :: "char \<Rightarrow> nat option" where
  "hex_value ch =
     (if is_digit ch then Some (code ch - 48)
      else if 97 \<le> code ch \<and> code ch \<le> 102 then Some (code ch - 97 + 10)
      else if 65 \<le> code ch \<and> code ch \<le> 70 then Some (code ch - 65 + 10)
      else None)"

fun hex_codepoint :: "string \<Rightarrow> nat \<Rightarrow> nat option" where
  "hex_codepoint [] n = Some n"
| "hex_codepoint (ch # s) n = (case hex_value ch of None \<Rightarrow> None | Some v \<Rightarrow> hex_codepoint s (n * 16 + v))"

text \<open>
  The loop of \<open>SourceKeyEquals\<close> over the text between the quotes; \<open>wanted\<close> is what is left of \<open>expected\<close>, its closing
  quote included.
\<close>

function key_loop :: "string \<Rightarrow> string \<Rightarrow> bool" where
  "key_loop [] wanted = (length wanted = 1)"
| "key_loop (ch # s) wanted =
     (case (if ch \<noteq> escape then Some (ch, s)
            else if s = [] then None
            else if hd s = CHR ''u'' then
              (if length (tl s) < 4 then None
               else case hex_codepoint (take 4 (tl s)) 0 of
                      None \<Rightarrow> None
                    | Some codepoint \<Rightarrow> if codepoint > 0x7F then None else Some (char_of codepoint, drop 4 (tl s)))
            else if hd s \<in> set ''bfnrt'' then None
            else Some (hd s, tl s)) of
        None \<Rightarrow> False
      | Some (c, s') \<Rightarrow> length wanted > 1 \<and> c = hd wanted \<and> key_loop s' (tl wanted))"
  by pat_completeness auto
termination
  by (relation "measure (length \<circ> fst)") (auto split: if_splits option.splits)

definition SourceKeyEquals :: "string \<Rightarrow> nat \<Rightarrow> nat \<Rightarrow> string \<Rightarrow> bool" where
  "SourceKeyEquals source from_pos to_pos expected =
     (if to_pos \<le> from_pos + 1 \<or> length expected < 2 \<or> source ! from_pos \<noteq> quote \<or> hd expected \<noteq> quote then False
      else key_loop (take (to_pos - from_pos - 2) (drop (from_pos + 1) source)) (tl expected))"

text \<open>The loop of \<open>FindSourceMember\<close>; every turn reads a member, so the length of the source bounds the turns.\<close>

primrec find_members :: "nat \<Rightarrow> string \<Rightarrow> string \<Rightarrow> string \<Rightarrow> text_position \<Rightarrow> SourceMember \<Rightarrow> SourceMember option" where
  "find_members 0 source key s p result = None"
| "find_members (Suc n) source key s p result =
     (let (s, p) = SkipSpaceAndComments s p; key_begin = length source - length s
      in if s = [] then None
         else if hd s = CHR ''}'' then Some (result\<lparr>closingBrace := key_begin\<rparr>)
         else
           do {
             (s, p) \<leftarrow> SkipString s p;
             let matching = SourceKeyEquals source key_begin (length source - length s) key;
             (s, p) \<leftarrow> Consume (CHR '':'') s p;
             let (s, p) = SkipSpaceAndComments s p;
             let value_begin = length source - length s;
             (s, p) \<leftarrow> SkipValue s p;
             let value_end = length source - length s;
             let result = result\<lparr>hasMembers := True, lastKeyBegin := key_begin, lastValueEnd := value_end\<rparr>;
             let result = (if matching
                          then result\<lparr>member_found := True, keyBegin := key_begin, valueBegin := value_begin, valueEnd := value_end\<rparr>
                          else result);
             let (s, p) = SkipSpaceAndComments s p;
             if s = [] then None
             else if hd s = CHR '','' then (case Advance s p of (s, p) \<Rightarrow> find_members n source key s p result)
             else if hd s \<noteq> CHR ''}'' then None
             else find_members n source key s p result
           })"

declare find_members.simps [simp del]

definition FindSourceMember :: "string \<Rightarrow> nat \<Rightarrow> string \<Rightarrow> SourceMember option" where
  "FindSourceMember source objectBegin key =
     (if objectBegin \<ge> length source \<or> source ! objectBegin \<noteq> CHR ''{'' then None
      else find_members (Suc (length source)) source key (drop (objectBegin + 1) source) (1, 1) SourceMember_init)"

section \<open>Layout\<close>

definition SourceLineBreak :: "string \<Rightarrow> string" where
  "SourceLineBreak source =
     (if sublist [CR, LF] source then [CR, LF]
      else if CR \<in> set source \<and> LF \<notin> set source then [CR] else [LF])"

text \<open>\<open>find_last_of\<close> with a position: the last index up to it.\<close>

definition SourceLineBegin :: "string \<Rightarrow> nat \<Rightarrow> nat" where
  "SourceLineBegin source position =
     length (dropWhile (\<lambda>ch. ch \<noteq> CR \<and> ch \<noteq> LF) (rev (take (Suc position) source)))"

definition find_first_not_blank :: "string \<Rightarrow> nat \<Rightarrow> nat option" where
  "find_first_not_blank source position =
     map_option (\<lambda>i. position + i) (first_index (\<lambda>ch. ch \<noteq> CHR '' '' \<and> ch \<noteq> TAB) (drop position source))"

definition isspace :: "char \<Rightarrow> bool" where
  "isspace ch \<longleftrightarrow> ch = CHR '' '' \<or> 9 \<le> code ch \<and> code ch \<le> 13"

definition insert_at :: "nat \<Rightarrow> string \<Rightarrow> string \<Rightarrow> string" where
  "insert_at position addition source = take position source @ addition @ drop position source"

definition replace_at :: "nat \<Rightarrow> nat \<Rightarrow> string \<Rightarrow> string \<Rightarrow> string" where
  "replace_at from_pos to_pos replacement source = take from_pos source @ replacement @ drop to_pos source"

definition substring :: "nat \<Rightarrow> nat \<Rightarrow> string \<Rightarrow> string" where
  "substring from_pos to_pos source = take (to_pos - from_pos) (drop from_pos source)"

definition PatchSourceMember :: "string \<Rightarrow> nat \<Rightarrow> string \<Rightarrow> string \<Rightarrow> string option" where
  "PatchSourceMember source objectBegin key replacement =
     (case FindSourceMember source objectBegin key of
        None \<Rightarrow> None
      | Some member \<Rightarrow>
          if member_found member then Some (replace_at (valueBegin member) (valueEnd member) replacement source)
          else
            (let anchor = (if hasMembers member then lastKeyBegin member else closingBrace member);
                 lineBegin = SourceLineBegin source anchor;
                 ownLine = (lineBegin > objectBegin + 1 \<and> find_first_not_blank source lineBegin = Some anchor);
                 pair = key @ '': '' @ replacement
             in if hasMembers member then
                  Some (insert_at (lastValueEnd member)
                    ('','' @ (if ownLine then SourceLineBreak source @ substring lineBegin anchor source else '' '') @ pair)
                    source)
                else if ownLine then
                  Some (insert_at lineBegin
                    (substring lineBegin anchor source @ (if TAB \<in> set (substring lineBegin anchor source) then [TAB] else ''  '')
                     @ pair @ SourceLineBreak source)
                    source)
                else
                  Some (insert_at (closingBrace member)
                    ((if isspace (source ! (closingBrace member - 1)) then [] else '' '') @ pair @ '' '')
                    source)))"

section \<open>Root members\<close>

definition kUtf8ByteOrderMark :: string where
  "kUtf8ByteOrderMark = [CHR 0xEF, CHR 0xBB, CHR 0xBF]"

text \<open>The index of the root's brace: behind a byte order mark and the trivia.\<close>

definition SourceRootBegin :: "string \<Rightarrow> nat" where
  "SourceRootBegin source =
     (let s = (if starts_with source kUtf8ByteOrderMark then drop 3 source else source)
      in length source - length (fst (SkipSpaceAndComments s (1, 1))))"

definition RaiseDockSourceMinor :: "string \<Rightarrow> nat \<Rightarrow> nat \<Rightarrow> string option" where
  "RaiseDockSourceMinor source rootBegin minor =
     (case FindSourceMember source rootBegin ([quote] @ ''version'' @ [quote]) of
        None \<Rightarrow> None
      | Some version \<Rightarrow>
          if member_found version
          then PatchSourceMember source (valueBegin version) ([quote] @ ''minor'' @ [quote]) (dec_string minor)
          else None)"

text \<open>
  \<open>SourceTrailingTriviaEnd\<close>: \<open>scan\<close> is what is left at the scan position, \<open>None\<close> stands for the return of \<open>position\<close>.
\<close>

fun line_end :: "string \<Rightarrow> string" where
  "line_end [] = []"
| "line_end (ch # s) = (if ch = CR \<or> ch = LF then ch # s else line_end s)"

fun drop_spaces :: "string \<Rightarrow> string" where
  "drop_spaces [] = []"
| "drop_spaces (ch # s) = (if ch = CHR '' '' \<or> ch = TAB then drop_spaces s else ch # s)"

text \<open>What follows the end of a block comment that ends on its line.\<close>

fun comment_end :: "string \<Rightarrow> string option" where
  "comment_end (a # b # s) =
     (if a = CHR ''*'' \<and> b = CHR ''/'' then Some s
      else if a = CR \<or> a = LF then None else comment_end (b # s))"
| "comment_end s = None"

lemma comment_end_length: "comment_end s = Some t \<Longrightarrow> length t < length s"
  by (induction s rule: comment_end.induct) (auto split: if_splits)

lemma drop_spaces_length: "length (drop_spaces s) \<le> length s"
  by (induction s) auto

function trailing_trivia :: "string \<Rightarrow> string option" where
  "trailing_trivia s =
     (let scan = drop_spaces s
      in if scan = [] \<or> hd scan = CR \<or> hd scan = LF then Some scan
         else if take 2 scan = ''//'' then Some (line_end scan)
         else if take 2 scan = ''/*'' then
           (case comment_end (drop 2 scan) of None \<Rightarrow> None | Some rest \<Rightarrow> trailing_trivia rest)
         else None)"
  by pat_completeness auto
termination
proof (relation "measure length")
  fix s scan rest
  assume "scan = drop_spaces s" "comment_end (drop 2 scan) = Some rest"
  then show "(rest, s) \<in> measure length"
    using comment_end_length [of "drop 2 scan" rest] drop_spaces_length [of s] by simp
qed simp

declare trailing_trivia.simps [simp del]

definition SourceTrailingTriviaEnd :: "string \<Rightarrow> nat \<Rightarrow> nat" where
  "SourceTrailingTriviaEnd source position =
     (case trailing_trivia (drop position source) of None \<Rightarrow> position | Some rest \<Rightarrow> length source - length rest)"

definition InsertRootMemberAfterVersion :: "string \<Rightarrow> nat \<Rightarrow> string \<Rightarrow> string list \<Rightarrow> string option" where
  "InsertRootMemberAfterVersion source rootBegin member comments =
     (case FindSourceMember source rootBegin ([quote] @ ''version'' @ [quote]) of
        None \<Rightarrow> None
      | Some version \<Rightarrow>
          if \<not> member_found version then None
          else
            (let lineBegin = SourceLineBegin source (keyBegin version);
                 indentation = substring lineBegin (keyBegin version) source;
                 indentation = (if list_all (\<lambda>ch. ch = CHR '' '' \<or> ch = TAB) indentation then indentation else ''  '');
                 lineBreak = SourceLineBreak source;
                 lines = concat (map (\<lambda>comment. lineBreak @ indentation @ comment) comments) @ lineBreak @ indentation @ member;
                 after = length source - length (fst (SkipSpaceAndComments (drop (valueEnd version) source) (1, 1)))
             in if after \<ge> length source then None
                else if source ! after = CHR '','' then
                  Some (insert_at (SourceTrailingTriviaEnd source (after + 1)) (lines @ '','') source)
                else
                  Some (insert_at (valueEnd version) '',''
                    (insert_at (SourceTrailingTriviaEnd source (valueEnd version)) lines source))))"

text \<open>
  The loop of \<open>RemoveCommentedRootExamples\<close>. Every turn leaves less of the source behind its position, so the length
  of the source bounds the turns.
\<close>

definition after_line_break :: "string \<Rightarrow> nat \<Rightarrow> nat" where
  "after_line_break source lineEnd =
     (let at = (\<lambda>i ch. i < length source \<and> source ! i = ch);
          i = (if at lineEnd CR then lineEnd + 1 else lineEnd)
      in if at i LF then i + 1 else i)"

definition is_example :: "string \<Rightarrow> string \<Rightarrow> nat \<Rightarrow> nat \<Rightarrow> bool" where
  "is_example source key position lineEnd =
     (case find_first_not_blank source (position + 2) of
        None \<Rightarrow> False
      | Some t \<Rightarrow>
          t < lineEnd \<and> take (length key) (drop t source) = key \<and>
          (case find_first_not_blank source (t + length key) of
             None \<Rightarrow> False
           | Some c \<Rightarrow> c < lineEnd \<and> source ! c = CHR '':''))"

text \<open>What follows the first occurrence of a text.\<close>

fun sublist_end :: "string \<Rightarrow> string \<Rightarrow> string option" where
  "sublist_end t [] = (if t = [] then Some [] else None)"
| "sublist_end t (ch # s) = (if take (length t) (ch # s) = t then Some (drop (length t) (ch # s)) else sublist_end t s)"

primrec remove_examples :: "nat \<Rightarrow> string \<Rightarrow> string \<Rightarrow> nat \<Rightarrow> nat \<Rightarrow> nat option \<Rightarrow> bool \<Rightarrow> string option" where
  "remove_examples 0 key source position depth runBegin commentLine = None"
| "remove_examples (Suc n) key source position depth runBegin commentLine =
     (if position \<ge> length source then Some source
      else
        (let ch = source ! position; rest = drop position source
         in if ch = quote then
              (case SkipString rest (1, 1) of
                 None \<Rightarrow> None
               | Some (s, p) \<Rightarrow> remove_examples n key source (length source - length s) depth None commentLine)
            else if take 2 rest = ''/*'' then
              (case sublist_end ''*/'' (drop 2 rest) of
                 None \<Rightarrow> None
               | Some s \<Rightarrow> remove_examples n key source (length source - length s) depth None commentLine)
            else if take 2 rest = ''//'' then
              (let lineBegin = SourceLineBegin source position;
                   lineEnd = length source - length (line_end rest);
                   run = (case runBegin of None \<Rightarrow> lineBegin | Some r \<Rightarrow> r)
               in if depth \<noteq> 1 \<or> find_first_not_blank source lineBegin \<noteq> Some position
                  then remove_examples n key source lineEnd depth None commentLine
                  else if is_example source key position lineEnd
                  then remove_examples n key (replace_at run (after_line_break source lineEnd) [] source) run depth None False
                  else remove_examples n key source lineEnd depth (Some run) True)
            else if ch = CR \<or> ch = LF then
              (if ch = CR \<or> position = 0 \<or> source ! (position - 1) \<noteq> CR
               then remove_examples n key source (position + 1) depth (if commentLine then runBegin else None) False
               else remove_examples n key source (position + 1) depth runBegin commentLine)
            else if \<not> isspace ch then
              remove_examples n key source (position + 1)
                (if ch = CHR ''{'' \<or> ch = CHR ''['' then depth + 1
                 else if (ch = CHR ''}'' \<or> ch = CHR '']'') \<and> depth \<noteq> 0 then depth - 1 else depth)
                None commentLine
            else remove_examples n key source (position + 1) depth runBegin commentLine))"

definition RemoveCommentedRootExamples :: "string \<Rightarrow> string \<Rightarrow> string option" where
  "RemoveCommentedRootExamples source key = remove_examples (Suc (length source)) key source 0 0 None False"

section \<open>The two patches\<close>

text \<open>
  The parsed document: its minor version, its dock, the text it was read from and everything else. \<open>parse\<close> is
  \<open>ParseAppSettingsJsonV5\<close>, which reads through yyjson; \<open>Inl\<close> is a failure. Failed allocations are not modelled.
\<close>

record 'o app_settings =
  versionMinor :: nat
  dock :: DockSettings
  sourceDocument :: string
  other_settings :: 'o

definition kRedXeSettingsDockMinor :: nat where "kRedXeSettingsDockMinor = 2"
definition kRedXeSettingsSecondaryMonitorMinor :: nat where "kRedXeSettingsSecondaryMonitorMinor = 3"
definition kRedXeSettingsDockAnimationMinor :: nat where "kRedXeSettingsDockAnimationMinor = 3"
definition kMaximumSettingsBytes :: nat where "kMaximumSettingsBytes = 1024 * 1024"

definition invalid_data :: hresult where "invalid_data = HRESULT_FROM_WIN32 13"
definition invalid_argument :: hresult where "invalid_argument = 0x80070057"

definition quoted :: "string \<Rightarrow> string" where "quoted s = [quote] @ s @ [quote]"

definition RaiseIf :: "bool \<Rightarrow> string \<Rightarrow> nat \<Rightarrow> nat \<Rightarrow> string option" where
  "RaiseIf raise_minor source rootBegin minor =
     (if raise_minor then RaiseDockSourceMinor source rootBegin minor else Some source)"

text \<open>The text that \<open>PatchDockThickness\<close> makes of a source, before it is checked.\<close>

definition ThicknessSource :: "string \<Rightarrow> nat \<Rightarrow> bool \<Rightarrow> string option" where
  "ThicknessSource source thickness raise_minor =
     (let rootBegin = SourceRootBegin source
      in do {
        member \<leftarrow> FindSourceMember source rootBegin (quoted ''dock'');
        updated \<leftarrow> (if member_found member
                    then PatchSourceMember source (valueBegin member) (quoted ''thickness'') (dec_string thickness)
                    else InsertRootMemberAfterVersion source rootBegin
                           (quoted ''dock'' @ '': { '' @ quoted ''thickness'' @ '': '' @ dec_string thickness @ '' }'') []);
        RaiseIf raise_minor updated rootBegin kRedXeSettingsDockMinor
      })"

definition PatchDockThickness ::
    "(string \<Rightarrow> hresult + 'o app_settings) \<Rightarrow> 'o app_settings \<Rightarrow> u32 \<Rightarrow> hresult \<times> 'o app_settings" where
  "PatchDockThickness parse st thickness =
     (if thickness < kDockMinimumThicknessDips \<or> thickness > kDockMaximumThicknessDips then (invalid_argument, st)
      else if thicknessDips (dock st) = thickness then (S_FALSE, st)
      else if sourceDocument st = [] then (S_OK, st\<lparr>dock := (dock st)\<lparr>thicknessDips := thickness\<rparr>\<rparr>)
      else
        (case parse (sourceDocument st) of
           Inl e \<Rightarrow> (e, st)
         | Inr original \<Rightarrow>
             (let raise_minor = (versionMinor original < kRedXeSettingsDockMinor)
              in case ThicknessSource (sourceDocument st) (unat thickness) raise_minor of
                   None \<Rightarrow> (invalid_data, st)
                 | Some updated \<Rightarrow>
                     if length updated > kMaximumSettingsBytes then (HRESULT_FROM_WIN32 223, st)
                     else
                       (case parse updated of
                          Inl e \<Rightarrow> (e, st)
                        | Inr patched \<Rightarrow>
                            (let original = original\<lparr>dock := (dock original)\<lparr>thicknessDips := thickness\<rparr>,
                                   versionMinor := (if raise_minor then kRedXeSettingsDockMinor else versionMinor original),
                                   sourceDocument := []\<rparr>
                             in if dock patched \<noteq> (dock st)\<lparr>thicknessDips := thickness\<rparr> \<or>
                                   patched\<lparr>sourceDocument := []\<rparr> \<noteq> original
                                then (invalid_data, st)
                                else (S_OK, st\<lparr>sourceDocument := updated, dock := (dock st)\<lparr>thicknessDips := thickness\<rparr>,
                                              versionMinor := versionMinor patched\<rparr>))))))"

fun escape_text :: "string \<Rightarrow> string option" where
  "escape_text [] = Some []"
| "escape_text (ch # s) =
     (if code ch < 0x20 then None
      else map_option (\<lambda>t. (if ch = quote \<or> ch = escape then [escape, ch] else [ch]) @ t) (escape_text s))"

text \<open>The dock that \<open>PatchFirstRunDock\<close> writes: the four members it always writes, and those that leave their defaults.\<close>

definition optional_member :: "bool \<Rightarrow> string \<Rightarrow> string \<Rightarrow> string" where
  "optional_member present name v = (if present then '', '' @ quoted name @ '': '' @ v else [])"

definition first_run_dock_text :: "DockSettings \<Rightarrow> string \<Rightarrow> string" where
  "first_run_dock_text d monitor =
     ''{ '' @ quoted ''edge'' @ '': '' @ quoted (DockEdgeName (dock_edge d))
     @ '', '' @ quoted ''monitor'' @ '': '' @ quoted monitor
     @ '', '' @ quoted ''mode'' @ '': '' @ quoted (if dock_mode d = ModeAutohide then ''autohide'' else ''fixed'')
     @ '', '' @ quoted ''thickness'' @ '': '' @ dec_string (unat (thicknessDips d))
     @ optional_member (\<not> reserveWorkArea d) ''reserveWorkArea'' ''false''
     @ optional_member (peekPixels d \<noteq> kDockDefaultPeekPixels) ''peek'' (dec_string (unat (peekPixels d)))
     @ optional_member (revealDelayMilliseconds d \<noteq> kDockDefaultRevealDelayMilliseconds) ''revealDelayMilliseconds''
         (dec_string (unat (revealDelayMilliseconds d)))
     @ optional_member (hideDelayMilliseconds d \<noteq> kDockDefaultHideDelayMilliseconds) ''hideDelayMilliseconds''
         (dec_string (unat (hideDelayMilliseconds d)))
     @ optional_member (animationMilliseconds d \<noteq> kDockDefaultAnimationMilliseconds) ''animationMilliseconds''
         (dec_string (unat (animationMilliseconds d)))
     @ '' }''"

definition required_minor :: "DockSettings \<Rightarrow> MonitorSelector \<Rightarrow> nat" where
  "required_minor d sel =
     max (if mon_kind sel = MonitorSecondary then max kRedXeSettingsDockMinor kRedXeSettingsSecondaryMonitorMinor
          else kRedXeSettingsDockMinor)
       (if animationMilliseconds d \<noteq> kDockDefaultAnimationMilliseconds then kRedXeSettingsDockAnimationMinor
        else kRedXeSettingsDockMinor)"

definition first_run_comments :: "string list" where
  "first_run_comments =
     [''// No XENEON display was found when RedXe installed this file, so this dock runs it as a bar on a screen edge;'',
      ''// set '' @ quoted ''edge'' @ '' to '' @ quoted ''none'' @ '' to use the standard window instead. See docs/usage.md ''
        @ quoted ''Dock'' @ '' for the other members.'']"

definition first_run_selector :: "DockSettings \<Rightarrow> MonitorSelector option" where
  "first_run_selector d =
     (if dock_edge d = EdgeNone \<or> dock_monitor d = [] \<or> length (dock_monitor d) > kMaximumSettingsTextBytes \<or>
         thicknessDips d < kDockMinimumThicknessDips \<or> thicknessDips d > kDockMaximumThicknessDips \<or>
         peekPixels d < kDockMinimumPeekPixels \<or> peekPixels d > kDockMaximumPeekPixels \<or>
         revealDelayMilliseconds d > kDockMaximumRevealDelayMilliseconds \<or>
         hideDelayMilliseconds d > kDockMaximumHideDelayMilliseconds \<or>
         animationMilliseconds d > kDockMaximumAnimationMilliseconds
      then None else ParseMonitorSelector (dock_monitor d) False)"

definition PatchFirstRunDock ::
    "(string \<Rightarrow> hresult + 'o app_settings) \<Rightarrow> string \<Rightarrow> DockSettings \<Rightarrow> hresult \<times> string" where
  "PatchFirstRunDock parse source d =
     (case (first_run_selector d, escape_text (dock_monitor d)) of
        (Some sel, Some monitor) \<Rightarrow>
          (let member = first_run_dock_text d monitor; minor = required_minor d sel
           in case parse source of
                Inl e \<Rightarrow> (e, source)
              | Inr validated \<Rightarrow>
                  (let rootBegin = SourceRootBegin source
                   in case do {
                        updated \<leftarrow> RemoveCommentedRootExamples source (quoted ''dock'');
                        existing \<leftarrow> FindSourceMember updated rootBegin (quoted ''dock'');
                        updated \<leftarrow> (if member_found existing
                                    then Some (replace_at (valueBegin existing) (valueEnd existing) member updated)
                                    else InsertRootMemberAfterVersion updated rootBegin (quoted ''dock'' @ '': '' @ member)
                                           first_run_comments);
                        RaiseIf (versionMinor validated < minor) updated rootBegin minor
                      } of
                        None \<Rightarrow> (invalid_data, source)
                      | Some updated \<Rightarrow>
                          if length updated > kMaximumSettingsBytes then (HRESULT_FROM_WIN32 223, source)
                          else (S_OK, updated)))
      | _ \<Rightarrow> (invalid_argument, source))"

end
