(* ===== verification/Patch_Correctness.thy ===== *)
theory Patch_Correctness
  imports Settings_Patch
begin

text \<open>
  What the source patches do to a document: the member search against the grammar of \<open>Json_Grammar\<close>, the patch of one
  member against the list of an object's bindings, the comparison of keys against what a JSON string means, and the
  dock text a first start writes.
\<close>

section \<open>What is found\<close>

definition key_matches :: "string \<Rightarrow> string \<Rightarrow> bool" where
  "key_matches key k = SourceKeyEquals k 0 (length k) key"

lemma SourceKeyEquals_inside:
  "length k \<ge> 2 \<Longrightarrow> SourceKeyEquals (A @ k @ B) (length A) (length A + length k) key = key_matches key k"
  by (cases k) (auto simp: SourceKeyEquals_def key_matches_def nth_append)

text \<open>What a turn of the loop records of a member whose text starts at \<open>o\<close>.\<close>

definition record_member :: "string \<Rightarrow> nat \<Rightarrow> text_member \<Rightarrow> SourceMember \<Rightarrow> SourceMember" where
  "record_member key start m result =
     (let key_begin = start + length (m_lead m);
          value_begin = key_begin + length (m_key m) + length (m_colon m) + 1 + length (m_gap m);
          value_end = value_begin + length (m_value m);
          result = result\<lparr>hasMembers := True, lastKeyBegin := key_begin, lastValueEnd := value_end\<rparr>
      in if key_matches key (m_key m)
         then result\<lparr>member_found := True, keyBegin := key_begin, valueBegin := value_begin, valueEnd := value_end\<rparr>
         else result)"

fun record_members :: "string \<Rightarrow> nat \<Rightarrow> text_member list \<Rightarrow> SourceMember \<Rightarrow> SourceMember" where
  "record_members key start [] result = result"
| "record_members key start (m # ms) result =
     record_members key (start + length (member_text m) + 1) ms (record_member key start m result)"

lemma SkipValue_value:
  "value_text v \<Longrightarrow> stops r \<Longrightarrow> SkipValue (v @ r) p = Some (r, after_text v p)"
  unfolding SkipValue_def using reads_valueD [OF value_read trivia_nil, of v _ r p] by simp

lemma string_text_length: "string_text k \<Longrightarrow> length k \<ge> 2"
  by (auto simp: string_text_def)

lemma find_turn:
  fixes p :: text_position
  assumes m: "member_shape m" "value_text (m_value m)"
    and source: "source = P @ m_lead m @ member_core m @ m_trail m @ Y"
    and Y: "solid Y" "stops Y" "Y \<noteq> []" "hd Y = CHR '','' \<or> hd Y = CHR ''}''"
  defines "q \<equiv> after_text (m_lead m @ member_core m @ m_trail m) p"
  shows "find_members (Suc n) source key (m_lead m @ member_core m @ m_trail m @ Y) p result =
    (if hd Y = CHR '','' then find_members n source key (tl Y) (after (CHR '','') q) (record_member key (length P) m result)
     else find_members n source key Y q (record_member key (length P) m result))"
proof -
  have sh: "trivia (m_lead m)" "string_text (m_key m)" "trivia (m_colon m)" "trivia (m_gap m)" "trivia (m_trail m)"
    using m(1) by (simp_all add: member_shape_def)
  let ?X = "m_trail m @ Y"
  let ?v = "m_value m @ ?X"
  let ?c = "m_colon m @ CHR '':'' # m_gap m @ ?v"
  have X: "stops ?X" using trivia_stops sh(5) Y(2) by blast
  have core: "member_core m @ ?X = m_key m @ ?c" by (simp add: member_core_def)
  have k: "hd (m_key m @ ?c) = quote" "m_key m \<noteq> []" using sh(2) by (auto simp: string_text_def)
  have s1: "SkipSpaceAndComments (m_lead m @ m_key m @ ?c) p = (m_key m @ ?c, after_text (m_lead m) p)"
    using sh by (intro Skip_to string_text_solid)
  have s2: "SkipString (m_key m @ ?c) u = Some (?c, after_text (m_key m) u)" for u
    using SkipString_text [OF trivia_nil sh(2)] by simp
  have s3: "Consume (CHR '':'') ?c u = Some (m_gap m @ ?v, after_text (m_colon m @ '':'') u)" for u
    by (rule Consume_text [OF sh(3)]) (simp add: solid_def blank_def)
  have s4: "SkipSpaceAndComments (m_gap m @ ?v) u = (?v, after_text (m_gap m) u)" for u
    using sh value_solid [OF m(2)] by (intro Skip_to) auto
  have s5: "SkipValue ?v u = Some (?X, after_text (m_value m) u)" for u by (rule SkipValue_value [OF m(2) X])
  have s6: "SkipSpaceAndComments ?X u = (Y, after_text (m_trail m) u)" for u using sh Y by (intro Skip_to)
  have src: "source = (P @ m_lead m) @ m_key m @ ?c" by (simp add: source core)
  have eq: "SourceKeyEquals source (length P + length (m_lead m)) (length P + length (m_lead m) + length (m_key m)) key =
      key_matches key (m_key m)"
    using SourceKeyEquals_inside [OF string_text_length [OF sh(2)], of "P @ m_lead m" ?c key] unfolding src by simp
  have len: "length source - length (m_key m @ ?c) = length P + length (m_lead m)"
    "length source - length ?c = length P + length (m_lead m) + length (m_key m)"
    "length source - length ?v = length P + length (m_lead m) + length (m_key m) + length (m_colon m) + 1 + length (m_gap m)"
    "length source - length ?X = length P + length (m_lead m) + length (m_key m) + length (m_colon m) + 1 + length (m_gap m) + length (m_value m)"
    unfolding src by simp_all
  have q: "q = after_text (m_trail m) (after_text (m_value m) (after_text (m_gap m) (after_text (m_colon m @ '':'') (after_text (m_key m) (after_text (m_lead m) p)))))"
    by (simp add: q_def member_core_def)
  obtain y Y' where Y': "Y = y # Y'" using Y(3) by (cases Y) auto
  show ?thesis
    unfolding core find_members.simps s1 Let_def case_prod_conv len(1)
    using k Y(4) by (simp only: s2 s3 s4 s5 s6 len eq bind.bind_lunit case_prod_conv) (auto simp: record_member_def Let_def q Y')
qed

lemma find_closes:
  assumes "trivia t" "source = P @ t @ CHR ''}'' # r"
  shows "find_members (Suc n) source key (t @ CHR ''}'' # r) p result = Some (result\<lparr>closingBrace := length P + length t\<rparr>)"
  using closes_at_once [OF assms(1), of "CHR ''}''" r p] by (simp add: assms(2) closing_def find_members.simps)

lemma member_text_core: "member_text m = m_lead m @ member_core m @ m_trail m"
  by (simp add: member_text_def member_core_def)

lemma find_reads:
  assumes "object_ok (m # ms) ending"
    "source = P @ m_lead m @ member_core m @ m_trail m @ units_rest (CHR ''}'') (map member_unit ms) ending @ r"
    "length ms + 1 < n"
  shows "find_members n source key (drop (length P) source) p result =
    Some ((record_members key (length P) (m # ms) result)\<lparr>closingBrace := length source - length r - 1\<rparr>)"
  using assms
proof (induction ms arbitrary: m P n p result)
  case Nil
  obtain j where n: "n = Suc (Suc j)" using Nil.prems(3) by (cases n; cases "n - 1") auto
  have m: "member_shape m" "value_text (m_value m)" using Nil.prems(1) by (simp_all add: object_ok_def)
  let ?Y = "units_rest (CHR ''}'') [] ending @ r"
  have e: "case ending of None \<Rightarrow> True | Some t \<Rightarrow> trivia t" using Nil.prems(1) by (simp add: object_ok_def ending_ok_def)
  have Y: "solid ?Y" "stops ?Y" "?Y \<noteq> []" "hd ?Y = CHR '','' \<or> hd ?Y = CHR ''}''"
    by (cases ending; simp add: solid_def blank_def stops_def number_char_def is_digit_def code_def)+
  have src: "source = P @ m_lead m @ member_core m @ m_trail m @ ?Y" using Nil.prems(2) by simp
  have d: "drop (length P) source = m_lead m @ member_core m @ m_trail m @ ?Y" by (simp add: src)
  show ?case
  proof (cases ending)
    case None
    have "source = (P @ m_lead m @ member_core m @ m_trail m) @ [] @ CHR ''}'' # r" using src None by simp
    from find_closes [OF trivia_nil this] show ?thesis
      unfolding d n find_turn [OF m src Y, of "Suc j"] using None src by simp
  next
    case (Some t)
    have "source = (P @ m_lead m @ member_core m @ m_trail m @ '','') @ t @ CHR ''}'' # r" using src Some by simp
    from find_closes [OF _ this] show ?thesis
      unfolding d n find_turn [OF m src Y, of "Suc j"] using Some src e by simp
  qed
next
  case (Cons m2 ms)
  obtain j where n: "n = Suc j" using Cons.prems(3) by (cases n) auto
  have m: "member_shape m" "value_text (m_value m)" using Cons.prems(1) by (simp_all add: object_ok_def)
  let ?Y2 = "m_lead m2 @ member_core m2 @ m_trail m2 @ units_rest (CHR ''}'') (map member_unit ms) ending @ r"
  let ?Y = "CHR '','' # ?Y2"
  have Y: "solid ?Y" "stops ?Y" "?Y \<noteq> []" "hd ?Y = CHR '','' \<or> hd ?Y = CHR ''}''"
    by (simp_all add: solid_def blank_def stops_def number_char_def is_digit_def code_def)
  have src: "source = P @ m_lead m @ member_core m @ m_trail m @ ?Y"
  proof -
    have "member_unit m2 = (m_lead m2, member_core m2, m_trail m2)" by (simp add: member_unit_def)
    then show ?thesis using Cons.prems(2) by simp
  qed
  have src2: "source = (P @ member_text m @ '','') @ ?Y2" by (simp add: src member_text_core)
  have d: "drop (length P) source = m_lead m @ member_core m @ m_trail m @ ?Y" by (simp add: src)
  have ok: "object_ok (m2 # ms) ending" using Cons.prems(1) by (simp add: object_ok_def)
  have l: "length ms + 1 < j" using Cons.prems(3) n by simp
  have "find_members j source key ?Y2 q result' =
      Some ((record_members key (length P + length (member_text m) + 1) (m2 # ms) result')\<lparr>closingBrace := length source - length r - 1\<rparr>)"
    for q result'
    using Cons.IH [OF ok _ l, of "P @ member_text m @ '',''" q result'] src2 by (simp add: add.assoc)
  then show ?case unfolding d n find_turn [OF m src Y] by simp
qed

lemma FindSourceMember_object:
  assumes "object_ok ms ending"
  shows "FindSourceMember (A @ object_text ms ending @ B) (length A) key =
    Some ((record_members key (length A + 1) ms SourceMember_init)\<lparr>closingBrace := length A + length (object_text ms ending) - 1\<rparr>)"
proof (cases ms)
  case Nil
  let ?t = "case ending of None \<Rightarrow> [] | Some t \<Rightarrow> t"
  have t: "trivia ?t" "object_text ms ending = CHR ''{'' # ?t @ ''}''"
    using assms Nil trivia_nil by (auto simp: object_ok_def ending_ok_def object_text_def ending_text_def split: option.splits)
  have src: "A @ object_text ms ending @ B = (A @ ''{'') @ ?t @ CHR ''}'' # B" by (simp add: t)
  show ?thesis
    using find_closes [OF t(1) src, of "length (A @ object_text ms ending @ B)" key "(1, 1)" SourceMember_init]
    unfolding Nil t [unfolded Nil] by (simp add: FindSourceMember_def nth_append)
next
  case (Cons m ms')
  let ?U = "m_lead m @ member_core m @ m_trail m @ units_rest (CHR ''}'') (map member_unit ms') ending"
  have o: "object_text ms ending = CHR ''{'' # ?U" by (simp add: Cons object_text_units)
  let ?source = "A @ object_text ms ending @ B"
  have src: "?source = (A @ ''{'') @ m_lead m @ member_core m @ m_trail m @ units_rest (CHR ''}'') (map member_unit ms') ending @ B"
    by (simp add: o)
  have l: "length ms' + 1 < Suc (length ?source)"
    using length_units_rest [of "map member_unit ms'" "CHR ''}''" ending] by (simp add: o)
  show ?thesis
    using find_reads [OF assms [unfolded Cons] src l, of key "(1, 1)" SourceMember_init]
    unfolding Cons o [unfolded Cons] by (simp add: FindSourceMember_def nth_append)
qed

section \<open>What is patched\<close>

definition bindings :: "text_member list \<Rightarrow> (string \<times> string) list" where
  "bindings ms = map (\<lambda>m. (m_key m, m_value m)) ms"

text \<open>The specification: the last binding of the key gets the value, or a new binding follows the others.\<close>

fun set_last :: "string \<Rightarrow> string \<Rightarrow> (string \<times> string) list \<Rightarrow> (string \<times> string) list option" where
  "set_last key v [] = None"
| "set_last key v (b # bs) =
     (case set_last key v bs of
        Some bs' \<Rightarrow> Some (b # bs')
      | None \<Rightarrow> if key_matches key (fst b) then Some ((fst b, v) # bs) else None)"

definition put_binding :: "string \<Rightarrow> string \<Rightarrow> (string \<times> string) list \<Rightarrow> (string \<times> string) list" where
  "put_binding key v bs = (case set_last key v bs of Some bs' \<Rightarrow> bs' | None \<Rightarrow> bs @ [(key, v)])"

lemma set_last_None: "set_last key v bs = None \<longleftrightarrow> (\<forall>b \<in> set bs. \<not> key_matches key (fst b))"
  by (induction bs) (auto split: option.splits)

lemma set_last_split:
  assumes "key_matches key (fst b)" "\<forall>c \<in> set ys. \<not> key_matches key (fst c)"
  shows "set_last key v (xs @ b # ys) = Some (xs @ (fst b, v) # ys)"
proof (induction xs)
  case Nil
  then show ?case using assms set_last_None [of key v ys] by auto
qed simp

definition span :: "text_member list \<Rightarrow> nat" where
  "span ms = length (concat (map (\<lambda>m. member_text m @ '','') ms))"

lemma record_members_append:
  "record_members key start (xs @ ys) result = record_members key (start + span xs) ys (record_members key start xs result)"
  by (induction xs arbitrary: start result) (simp_all add: span_def add.assoc)

lemma record_unmatched:
  "\<forall>m \<in> set ms. \<not> key_matches key (m_key m) \<Longrightarrow>
   member_found (record_members key start ms result) = member_found result \<and>
   valueBegin (record_members key start ms result) = valueBegin result \<and>
   valueEnd (record_members key start ms result) = valueEnd result"
  by (induction ms arbitrary: start result) (auto simp: record_member_def Let_def)

lemma record_matched:
  fixes start :: nat and xs :: "text_member list" and result :: SourceMember
  assumes "key_matches key (m_key m)" "\<forall>x \<in> set ys. \<not> key_matches key (m_key x)"
  defines "f \<equiv> record_members key start (xs @ m # ys) result"
  shows "member_found f" "valueBegin f = start + span xs + length (m_lead m @ m_key m @ m_colon m @ '':'' @ m_gap m)"
    "valueEnd f = valueBegin f + length (m_value m)"
  using record_unmatched [OF assms(2)] assms(1) by (simp_all add: f_def record_members_append record_member_def Let_def)

lemma record_last:
  fixes key :: string and start :: nat and xs :: "text_member list" and m :: text_member and result :: SourceMember
  defines "f \<equiv> record_members key start (xs @ [m]) result"
  shows "hasMembers f" "lastKeyBegin f = start + span xs + length (m_lead m)"
    "lastValueEnd f = start + span xs + length (m_lead m @ member_core m)"
  by (simp_all add: f_def record_members_append record_member_def Let_def member_core_def)

lemma joined_split: "joined (map f (xs @ m # ys)) = concat (map (\<lambda>x. f x @ '','') xs) @ joined (map f (m # ys))"
proof (induction xs)
  case (Cons x xs)
  then show ?case by (cases "xs @ m # ys") auto
qed simp

lemma object_text_split:
  "object_text (xs @ m # ys) ending =
   ''{'' @ concat (map (\<lambda>x. member_text x @ '','') xs) @ member_text m @ units_rest (CHR ''}'') (map member_unit ys) ending"
proof -
  have "object_text (m # ys) ending = ''{'' @ joined (map member_text (m # ys)) @ ending_text (xs @ m # ys) ending @ ''}''"
    by (simp add: object_text_def ending_text_def split: option.splits)
  moreover have "object_text (m # ys) ending = ''{'' @ member_text m @ units_rest (CHR ''}'') (map member_unit ys) ending"
    by (simp add: object_text_units member_text_core)
  ultimately have "joined (map member_text (m # ys)) @ ending_text (xs @ m # ys) ending @ ''}'' =
      member_text m @ units_rest (CHR ''}'') (map member_unit ys) ending" by simp
  then show ?thesis unfolding object_text_def joined_split by (simp del: joined.simps)
qed

text \<open>A member that is there: its value is replaced.\<close>

lemma patch_replaces:
  assumes ok: "object_ok ms ending" and v: "value_text v" and found: "\<exists>m \<in> set ms. key_matches key (m_key m)"
  shows "\<exists>ms'. PatchSourceMember (A @ object_text ms ending @ B) (length A) key v = Some (A @ object_text ms' ending @ B) \<and>
    object_ok ms' ending \<and> bindings ms' = put_binding key v (bindings ms)"
proof -
  obtain xs m ys where ms: "ms = xs @ m # ys" "key_matches key (m_key m)" "\<forall>x \<in> set ys. \<not> key_matches key (m_key x)"
    using split_list_last_prop [OF found] by blast
  let ?f = "record_members key (length A + 1) ms SourceMember_init"
  let ?before = "A @ ''{'' @ concat (map (\<lambda>x. member_text x @ '','') xs) @ m_lead m @ m_key m @ m_colon m @ '':'' @ m_gap m"
  let ?behind = "m_trail m @ units_rest (CHR ''}'') (map member_unit ys) ending @ B"
  let ?m' = "m\<lparr>m_value := v\<rparr>"
  have r: "member_found ?f" "valueBegin ?f = length ?before" "valueEnd ?f = length ?before + length (m_value m)"
    using record_matched [OF ms(2,3), of "length A + 1" xs SourceMember_init] by (simp_all add: ms(1) span_def)
  have t: "A @ object_text ms ending @ B = ?before @ m_value m @ ?behind"
    "A @ object_text (xs @ ?m' # ys) ending @ B = ?before @ v @ ?behind"
    unfolding ms(1) object_text_split by (simp_all add: member_text_def)
  have "PatchSourceMember (A @ object_text ms ending @ B) (length A) key v = Some (?before @ v @ ?behind)"
    unfolding PatchSourceMember_def FindSourceMember_object [OF ok] using r by (simp add: t(1) replace_at_def)
  moreover have "object_ok (xs @ ?m' # ys) ending" using ok v by (auto simp: ms(1) object_ok_def member_shape_def)
  moreover have "bindings (xs @ ?m' # ys) = put_binding key v (bindings ms)"
    using set_last_split [of key "(m_key m, m_value m)" "bindings ys" v "bindings xs"] ms(2,3)
    by (simp add: ms(1) put_binding_def bindings_def)
  ultimately show ?thesis unfolding t(2) [symmetric] by blast
qed

lemma trivia_blanks: "list_all blank s \<Longrightarrow> trivia s"
  by (induction s) (auto intro: trivia.intros)

lemma line_break_trivia: "trivia (SourceLineBreak source)"
  by (rule trivia_blanks) (simp add: SourceLineBreak_def blank_def)

lemma own_line_blanks:
  assumes "find_first_not_blank source from_pos = Some anchor"
  shows "from_pos \<le> anchor" "list_all (\<lambda>ch. ch = CHR '' '' \<or> ch = TAB) (substring from_pos anchor source)"
proof -
  obtain i where i: "first_index (\<lambda>ch. ch \<noteq> CHR '' '' \<and> ch \<noteq> TAB) (drop from_pos source) = Some i" "anchor = from_pos + i"
    using assms by (auto simp: find_first_not_blank_def)
  then show "from_pos \<le> anchor" by simp
  show "list_all (\<lambda>ch. ch = CHR '' '' \<or> ch = TAB) (substring from_pos anchor source)"
    using i by (auto simp: first_index_Some substring_def list_all_length)
qed

lemma own_line_trivia:
  "find_first_not_blank source from_pos = Some anchor \<Longrightarrow> trivia (substring from_pos anchor source)"
  using own_line_blanks(2) [of source from_pos anchor]
  by (intro trivia_blanks) (auto simp: list_all_iff blank_def)

definition new_member :: "string \<Rightarrow> string \<Rightarrow> string \<Rightarrow> string \<Rightarrow> text_member" where
  "new_member lead key v trail =
     \<lparr>m_lead = lead, m_key = key, m_colon = [], m_gap = '' '', m_value = v, m_trail = trail\<rparr>"

lemma new_member_text: "member_text (new_member lead key v trail) = lead @ key @ '': '' @ v @ trail"
  by (simp add: new_member_def member_text_def)

lemma new_member_ok:
  "trivia lead \<Longrightarrow> trivia trail \<Longrightarrow> string_text key \<Longrightarrow> member_shape (new_member lead key v trail)"
  using trivia_blanks [of "'' ''"] trivia_nil by (simp add: new_member_def member_shape_def blank_def)

text \<open>A member that is not there, in an object that has members: it follows the last value.\<close>

lemma patch_appends:
  assumes ok: "object_ok ms ending" and v: "value_text v" and key: "string_text key"
    and unmatched: "\<forall>m \<in> set ms. \<not> key_matches key (m_key m)" and "ms \<noteq> []"
  shows "\<exists>ms'. PatchSourceMember (A @ object_text ms ending @ B) (length A) key v = Some (A @ object_text ms' ending @ B) \<and>
    object_ok ms' ending \<and> bindings ms' = put_binding key v (bindings ms)"
proof -
  obtain xs m where ms: "ms = xs @ [m]" using assms(5) by (metis rev_exhaust)
  let ?source = "A @ object_text ms ending @ B"
  let ?f = "record_members key (length A + 1) ms SourceMember_init"
  define anchor where "anchor = lastKeyBegin ?f"
  define own where "own \<longleftrightarrow> SourceLineBegin ?source anchor > length A + 1 \<and>
    find_first_not_blank ?source (SourceLineBegin ?source anchor) = Some anchor"
  define ws where "ws = (if own then SourceLineBreak ?source @ substring (SourceLineBegin ?source anchor) anchor ?source else '' '')"
  let ?before = "A @ ''{'' @ concat (map (\<lambda>x. member_text x @ '','') xs) @ m_lead m @ member_core m"
  let ?behind = "m_trail m @ units_rest (CHR ''}'') [] ending @ B"
  let ?ms = "xs @ m\<lparr>m_trail := []\<rparr> # [new_member ws key v (m_trail m)]"
  have r: "member_found ?f = False" "hasMembers ?f" "lastValueEnd ?f = length ?before"
    using record_unmatched [OF unmatched, of "length A + 1" SourceMember_init] record_last [of key "length A + 1" xs m SourceMember_init]
    by (simp_all add: ms span_def SourceMember_init_def)
  have t: "?source = ?before @ ?behind" unfolding ms object_text_split by (simp add: member_text_core)
  have t': "A @ object_text ?ms ending @ B = ?before @ '','' @ ws @ key @ '': '' @ v @ ?behind"
  proof -
    have "member_text (m\<lparr>m_trail := []\<rparr>) = m_lead m @ member_core m" by (simp add: member_text_def member_core_def)
    moreover have "member_unit (new_member ws key v (m_trail m)) = (ws, key @ '': '' @ v, m_trail m)"
      by (simp add: new_member_def member_unit_def member_core_def)
    ultimately show ?thesis unfolding object_text_split by simp
  qed
  have "PatchSourceMember ?source (length A) key v =
      Some (insert_at (lastValueEnd ?f) ('','' @ ws @ key @ '': '' @ v) ?source)"
    unfolding PatchSourceMember_def FindSourceMember_object [OF ok] using r
    by (simp add: Let_def ws_def own_def anchor_def)
  also have "\<dots> = Some (A @ object_text ?ms ending @ B)"
    unfolding t' r(3) insert_at_def by (simp only: t) simp
  finally have p: "PatchSourceMember ?source (length A) key v = Some (A @ object_text ?ms ending @ B)" .
  have "trivia ws"
    using own_line_trivia trivia_append [OF line_break_trivia] trivia_blanks [of "'' ''"] by (simp add: ws_def own_def blank_def)
  then have "object_ok ?ms ending"
    using ok v key new_member_ok [of ws "m_trail m" key v] trivia_nil
    by (auto simp: ms object_ok_def member_shape_def new_member_def)
  moreover have "bindings ?ms = put_binding key v (bindings ms)"
    using unmatched set_last_None [of key v "bindings ms"]
    by (simp add: ms put_binding_def bindings_def new_member_def)
  ultimately show ?thesis using p by blast
qed

text \<open>An empty object gets its first member.\<close>

lemma patch_fills:
  assumes ok: "object_ok [] ending" and v: "value_text v" and key: "string_text key"
  shows "\<exists>m. PatchSourceMember (A @ object_text [] ending @ B) (length A) key v = Some (A @ object_text [m] None @ B) \<and>
    object_ok [m] None \<and> bindings [m] = [(key, v)]"
proof -
  define t where "t = (case ending of None \<Rightarrow> [] | Some t \<Rightarrow> t)"
  have t: "trivia t" "object_text [] ending = CHR ''{'' # t @ ''}''"
    using ok trivia_nil by (auto simp: t_def object_ok_def ending_ok_def object_text_def ending_text_def split: option.splits)
  let ?source = "A @ CHR ''{'' # t @ CHR ''}'' # B"
  have src: "A @ object_text [] ending @ B = ?source" by (simp add: t)
  let ?f = "SourceMember_init\<lparr>closingBrace := length A + 1 + length t\<rparr>"
  have f: "FindSourceMember ?source (length A) key = Some ?f"
    using FindSourceMember_object [OF ok, of A B key] by (simp add: t)
  let ?anchor = "length A + 1 + length t"
  let ?line = "SourceLineBegin ?source ?anchor"
  have one: "\<exists>m. Some (A @ CHR ''{'' # lead @ key @ '': '' @ v @ trail @ CHR ''}'' # B) = Some (A @ object_text [m] None @ B) \<and>
      object_ok [m] None \<and> bindings [m] = [(key, v)]" if "trivia lead" "trivia trail" for lead trail
    using new_member_ok [OF that key, of v] v
    by (intro exI [of _ "new_member lead key v trail"])
       (simp add: object_text_def ending_text_def new_member_text object_ok_def ending_ok_def bindings_def, simp add: new_member_def)
  show ?thesis
  proof (cases "?line > length A + 1 \<and> find_first_not_blank ?source ?line = Some ?anchor")
    case True
    define d where "d = ?line - (length A + 1)"
    define y where "y = substring ?line ?anchor ?source"
    define indent where "indent = (if TAB \<in> set y then [TAB] else ''  '')"
    have line: "?line = length A + 1 + d" "d \<le> length t"
      using True own_line_blanks(1) [of ?source ?line ?anchor] by (auto simp: d_def)
    have y: "y = drop d t" "trivia y"
      using own_line_trivia [of ?source ?line ?anchor] True line by (simp_all add: y_def substring_def)
    have "PatchSourceMember ?source (length A) key v =
        Some (insert_at ?line (y @ indent @ key @ '': '' @ v @ SourceLineBreak ?source) ?source)"
      unfolding PatchSourceMember_def f using True
      by (simp add: Let_def y_def indent_def SourceMember_init_def)
    also have "\<dots> = Some (A @ CHR ''{'' # (take d t @ y @ indent) @ key @ '': '' @ v @ (SourceLineBreak ?source @ y) @ CHR ''}'' # B)"
      using line y(1) by (simp add: insert_at_def)
    finally have p: "PatchSourceMember ?source (length A) key v = \<dots>" .
    have "trivia indent" by (rule trivia_blanks) (simp add: indent_def blank_def)
    then have "trivia (take d t @ y @ indent)" using trivia_append [OF t(1), of indent] append_take_drop_id [of d t] y(1) by (metis append_assoc)
    then show ?thesis unfolding src p by (rule one) (rule trivia_append [OF line_break_trivia y(2)])
  next
    case False
    define sp where "sp = (if isspace (?source ! (?anchor - 1)) then [] else '' '')"
    have "PatchSourceMember ?source (length A) key v = Some (insert_at ?anchor (sp @ key @ '': '' @ v @ '' '') ?source)"
      unfolding PatchSourceMember_def f using False
      by (auto simp: Let_def sp_def SourceMember_init_def)
    also have "\<dots> = Some (A @ CHR ''{'' # (t @ sp) @ key @ '': '' @ v @ '' '' @ CHR ''}'' # B)"
      by (simp add: insert_at_def)
    finally have p: "PatchSourceMember ?source (length A) key v = \<dots>" .
    have "trivia sp" "trivia '' ''" by (rule trivia_blanks; simp add: sp_def blank_def)+
    then show ?thesis unfolding src p by (intro one trivia_append t(1))
  qed
qed

text \<open>C17: in a document, patching an object sets exactly the binding it is asked to: the object's text is replaced by the
  text of a well-formed object with the same members in the same order, the last one with the key getting the value or,
  where there is none, a new one following the others, and the text around the object stays byte for byte. Comments,
  trailing commas and layout are part of the object's text.\<close>

theorem patch_puts_binding:
  assumes "object_ok ms ending" "string_text key" "value_text v"
  shows "\<exists>ms' ending'. PatchSourceMember (A @ object_text ms ending @ B) (length A) key v = Some (A @ object_text ms' ending' @ B) \<and>
    object_ok ms' ending' \<and> bindings ms' = put_binding key v (bindings ms)"
proof (cases "\<exists>m \<in> set ms. key_matches key (m_key m)")
  case True
  then show ?thesis using patch_replaces [OF assms(1,3)] by blast
next
  case False
  show ?thesis
  proof (cases "ms = []")
    case True
    have "put_binding key v (bindings ms) = [(key, v)]" using True by (simp add: bindings_def put_binding_def)
    then show ?thesis using patch_fills [of ending v key A B] assms True by metis
  next
    case ne: False
    show ?thesis using patch_appends [OF assms(1,3,2) _ ne] False by blast
  qed
qed

lemma last_binding:
  assumes "set_last key v bs = Some bs' \<or> bs' = bs @ [(key, v)] \<and> key_matches key key"
  shows "\<exists>xs k ys. bs' = xs @ (k, v) # ys \<and> key_matches key k \<and> (\<forall>b \<in> set ys. \<not> key_matches key (fst b))"
  using assms
proof (elim disjE)
  assume "set_last key v bs = Some bs'"
  then show ?thesis
  proof (induction bs arbitrary: bs')
    case (Cons b bs)
    show ?case
    proof (cases "set_last key v bs")
      case None
      then have "bs' = [] @ (fst b, v) # bs" "key_matches key (fst b)" using Cons.prems by (auto split: if_splits)
      then show ?thesis using None set_last_None by blast
    next
      case (Some cs)
      then have "bs' = b # cs" using Cons.prems by simp
      then show ?thesis using Cons.IH [OF Some] by (metis append_Cons)
    qed
  qed simp
next
  assume "bs' = bs @ [(key, v)] \<and> key_matches key key"
  then show ?thesis by (metis empty_iff list.set(1))
qed

lemma bindings_split:
  assumes "bindings ms = xs @ (k, v) # ys"
  obtains us m ws where "ms = us @ m # ws" "m_key m = k" "m_value m = v" "bindings ws = ys"
  using assms by (auto simp: bindings_def map_eq_append_conv map_eq_Cons_conv)

text \<open>What a patch wrote is what a later search finds: the value of the key in the patched source is the given text.\<close>

theorem patched_value_is_found:
  assumes "object_ok ms ending" "string_text key" "value_text v" "key_matches key key"
  shows "\<exists>source' found. PatchSourceMember (A @ object_text ms ending @ B) (length A) key v = Some source' \<and>
    FindSourceMember source' (length A) key = Some found \<and> member_found found \<and>
    substring (valueBegin found) (valueEnd found) source' = v"
proof -
  obtain ms' ending' where p: "PatchSourceMember (A @ object_text ms ending @ B) (length A) key v = Some (A @ object_text ms' ending' @ B)"
    and ok: "object_ok ms' ending'" and b: "bindings ms' = put_binding key v (bindings ms)"
    using patch_puts_binding [OF assms(1-3)] by blast
  have "\<exists>xs k ys. bindings ms' = xs @ (k, v) # ys \<and> key_matches key k \<and> (\<forall>b \<in> set ys. \<not> key_matches key (fst b))"
    by (rule last_binding [of key v "bindings ms"]) (use b assms(4) in \<open>simp add: put_binding_def split: option.splits\<close>)
  then obtain xs0 k ys0 where bs: "bindings ms' = xs0 @ (k, v) # ys0" "key_matches key k" "\<forall>b \<in> set ys0. \<not> key_matches key (fst b)"
    by blast
  obtain xs m ys where m: "ms' = xs @ m # ys" "m_key m = k" "m_value m = v" "bindings ys = ys0"
    using bindings_split [OF bs(1)] by blast
  have ms': "ms' = xs @ m # ys" "key_matches key (m_key m)" "m_value m = v"
    "\<forall>x \<in> set ys. \<not> key_matches key (m_key x)"
    using m bs by (auto simp: bindings_def)
  let ?f = "(record_members key (length A + 1) ms' SourceMember_init)\<lparr>closingBrace := length A + length (object_text ms' ending') - 1\<rparr>"
  let ?before = "A @ ''{'' @ concat (map (\<lambda>x. member_text x @ '','') xs) @ m_lead m @ m_key m @ m_colon m @ '':'' @ m_gap m"
  have r: "member_found ?f" "valueBegin ?f = length ?before" "valueEnd ?f = length ?before + length v"
    using record_matched [OF ms'(2,4), of "length A + 1" xs SourceMember_init] ms'(3) by (simp_all add: ms'(1) span_def)
  have "A @ object_text ms' ending' @ B = ?before @ v @ (m_trail m @ units_rest (CHR ''}'') (map member_unit ys) ending' @ B)"
    unfolding ms'(1) object_text_split using ms'(3) by (simp add: member_text_def)
  then have "substring (valueBegin ?f) (valueEnd ?f) (A @ object_text ms' ending' @ B) = v"
    unfolding r by (simp add: substring_def)
  then show ?thesis using p FindSourceMember_object [OF ok] r(1) by blast
qed

section \<open>Keys\<close>

text \<open>What a JSON string means: the code points of the text between its quotes.\<close>

fun simple_escape :: "char \<Rightarrow> nat" where
  "simple_escape ch =
     (if ch = CHR ''b'' then 8 else if ch = CHR ''f'' then 12 else if ch = CHR ''n'' then 10
      else if ch = CHR ''r'' then 13 else if ch = CHR ''t'' then 9 else code ch)"

function decoded :: "string \<Rightarrow> nat list option" where
  "decoded [] = Some []"
| "decoded (ch # s) =
     (if ch \<noteq> escape then map_option (Cons (code ch)) (decoded s)
      else if s = [] then None
      else if hd s = CHR ''u'' then
        (if length (tl s) < 4 then None
         else case hex_codepoint (take 4 (tl s)) 0 of
                None \<Rightarrow> None
              | Some codepoint \<Rightarrow> map_option (Cons codepoint) (decoded (drop 4 (tl s))))
      else map_option (Cons (simple_escape (hd s))) (decoded (tl s)))"
  by pat_completeness auto
termination
  by (relation "measure length") auto

definition plain_name :: "string \<Rightarrow> bool" where
  "plain_name name \<longleftrightarrow> list_all (\<lambda>ch. 32 \<le> code ch \<and> code ch < 128) name"

lemma code_char_of: "n < 256 \<Longrightarrow> code (char_of n) = n"
  by (simp add: code_def)

lemma key_loop_decoded:
  "decoded s = Some cs \<Longrightarrow> plain_name name \<Longrightarrow> key_loop s (name @ [quote]) \<longleftrightarrow> cs = map code name"
proof (induction s arbitrary: cs name rule: decoded.induct)
  case 1
  then show ?case by auto
next
  case (2 ch s)
  have step: "key_loop s' (tl (name @ [quote])) \<longleftrightarrow> ds = map code (tl name)"
    if "decoded s' = Some ds" "name \<noteq> []" "\<And>cs name. decoded s' = Some cs \<Longrightarrow> plain_name name \<Longrightarrow> key_loop s' (name @ [quote]) = (cs = map code name)" for s' ds
    using that 2(5) by (cases name) (auto simp: plain_name_def)
  have take: "(length (name @ [quote]) > 1 \<and> c = hd (name @ [quote]) \<and> key_loop s' (tl (name @ [quote]))) \<longleftrightarrow> code c # ds = map code name"
    if "decoded s' = Some ds" "\<And>cs name. decoded s' = Some cs \<Longrightarrow> plain_name name \<Longrightarrow> key_loop s' (name @ [quote]) = (cs = map code name)"
    for c s' ds
    using step [OF that(1) _ that(2)] by (cases name) auto
  have small: "\<And>n ds. n \<ge> 128 \<or> n < 32 \<Longrightarrow> n # ds \<noteq> map code name" using 2(5) by (cases name) (auto simp: plain_name_def)
  show ?case
  proof (cases "ch = escape")
    case False
    then obtain ds where ds: "decoded s = Some ds" "cs = code ch # ds" using 2(4) by auto
    show ?thesis using take [OF ds(1), of ch] 2(1) False ds by simp
  next
    case esc: True
    then obtain e t where s: "s = e # t" using 2(4) by (cases s) auto
    show ?thesis
    proof (cases "e = CHR ''u''")
      case True
      then obtain n ds where n: "length t \<ge> 4" "hex_codepoint (take 4 t) 0 = Some n" "decoded (drop 4 t) = Some ds" "cs = n # ds"
        using 2(4) esc s by (auto split: option.splits if_splits)
      show ?thesis
      proof (cases "n > 127")
        case big: True
        then show ?thesis using esc s True n small [of n ds] by simp
      next
        case False
        then have "code (char_of n) = n" by (simp add: code_char_of)
        then show ?thesis using take [OF n(3), of "char_of n"] 2(2) esc s True n False by simp
      qed
    next
      case False
      then obtain ds where ds: "decoded t = Some ds" "cs = simple_escape e # ds" using 2(4) esc s by auto
      show ?thesis
      proof (cases "e \<in> set ''bfnrt''")
        case True
        then have "simple_escape e < 32" by auto
        then show ?thesis using small [of "simple_escape e" ds] esc s False True ds by auto
      next
        case plain: False
        then have "simple_escape e = code e" by auto
        then show ?thesis using take [OF ds(1), of e] 2(3) esc s False plain ds by simp
      qed
    qed
  qed
qed

text \<open>A member is found by what its key means and not by how it is spelled: for a name of printable ASCII characters the
  source scan accepts exactly the keys whose decoded text is the name, escapes included.\<close>

theorem key_is_compared_decoded:
  assumes "decoded b = Some cs" "plain_name name"
  shows "SourceKeyEquals (A @ quoted b @ B) (length A) (length A + length (quoted b)) (quoted name) \<longleftrightarrow> cs = map code name"
proof -
  have "SourceKeyEquals (A @ quoted b @ B) (length A) (length A + length (quoted b)) (quoted name) = key_loop b (name @ [quote])"
    by (simp add: SourceKeyEquals_def quoted_def nth_append)
  then show ?thesis using key_loop_decoded [OF assms] by simp
qed

theorem key_is_compared_decoded_witness:
  "SourceKeyEquals (''{'' @ quoted (''do'' @ [escape] @ ''u0063k'') @ '':1}'') 1 (1 + length (quoted (''do'' @ [escape] @ ''u0063k''))) (quoted ''dock'')"
proof -
  have d: "decoded (''do'' @ [escape] @ ''u0063k'') = Some (map code ''dock'')" by code_simp
  have p: "plain_name ''dock''" by code_simp
  show ?thesis using key_is_compared_decoded [OF d p, of "''{''" "'':1}''"] by simp
qed

lemma plain_key_matches:
  assumes "plain_name name" "list_all (\<lambda>ch. ch \<noteq> quote \<and> ch \<noteq> escape) name"
  shows "key_matches (quoted name) (quoted name)" "string_text (quoted name)"
proof -
  have "decoded name = Some (map code name)" using assms(2) by (induction name) auto
  from key_is_compared_decoded [OF this assms(1), of "[]" "[]"]
  show "key_matches (quoted name) (quoted name)" by (simp add: key_matches_def)
  have "string_body name" using assms(2) by (induction name) auto
  then show "string_text (quoted name)" by (auto simp: string_text_def quoted_def)
qed

section \<open>The dock of a first start\<close>

lemma dec_string_value: "value_text (dec_string n)"
proof (rule value_number)
  show "hd (dec_string n) = CHR ''-'' \<or> is_digit (hd (dec_string n))" using dec_string_digits [of "hd (dec_string n)" n] by simp
  show "list_all number_char (dec_string n)" using dec_string_digits by (auto simp: list_all_iff number_char_def)
qed simp

lemma escaped_text:
  "escape_text s = Some t \<Longrightarrow> string_body t \<and> decoded t = Some (map code s)"
proof (induction s arbitrary: t)
  case (Cons ch s)
  then obtain u where u: "escape_text s = Some u" "t = (if ch = quote \<or> ch = escape then [escape, ch] else [ch]) @ u"
    by (auto split: if_splits)
  have "simple_escape ch = code ch" "ch \<noteq> CHR ''u''" if "ch = quote \<or> ch = escape" using that by auto
  then show ?case using Cons.IH [OF u(1)] u(2) by auto
qed simp

lemma joined_Cons: "joined (p # ps) = p @ concat (map (\<lambda>q. '','' @ q) ps)"
proof (induction ps arbitrary: p)
  case (Cons q ps)
  show ?case using Cons.IH [of q] by simp
qed simp

text \<open>An object on one line: \<open>{ "a": 1, "b": 2 }\<close>.\<close>

definition line_pair :: "string \<times> string \<Rightarrow> string" where
  "line_pair b = '' '' @ fst b @ '': '' @ snd b"

definition line_object :: "(string \<times> string) list \<Rightarrow> string" where
  "line_object bs = ''{'' @ joined (map line_pair bs) @ '' }''"

lemma line_object_is_object:
  assumes "bs \<noteq> []" "\<forall>b \<in> set bs. string_text (fst b) \<and> value_text (snd b)"
  shows "\<exists>ms. line_object bs = object_text ms None \<and> object_ok ms None \<and> bindings ms = bs"
proof -
  obtain cs k v where bs: "bs = cs @ [(k, v)]" using assms(1) by (metis rev_exhaust surj_pair)
  let ?ms = "map (\<lambda>b. new_member '' '' (fst b) (snd b) []) cs @ [new_member '' '' k v '' '']"
  have j: "joined (xs @ [x @ t]) = joined (xs @ [x]) @ t" for xs x t
    by (cases xs) (simp_all add: joined_Cons del: joined.simps(3))
  have "map member_text ?ms = map line_pair cs @ [line_pair (k, v) @ '' '']"
    by (simp add: new_member_text line_pair_def)
  then have "object_text ?ms None = line_object bs"
    using j [of "map line_pair cs" "line_pair (k, v)" "'' ''"] by (simp add: object_text_def ending_text_def line_object_def bs map_append [of line_pair] del: map_append)
  moreover have "object_ok ?ms None"
  proof -
    have v: "m_value (new_member lead key v trail) = v" for lead key v trail by (simp add: new_member_def)
    have "trivia '' ''" by (rule trivia_blanks) (simp add: blank_def)
    then show ?thesis using assms(2) new_member_ok trivia_nil by (auto simp: bs object_ok_def ending_ok_def v)
  qed
  moreover have "bindings ?ms = bs" by (simp add: bindings_def bs new_member_def o_def)
  ultimately show ?thesis by (intro exI [of _ ?ms]) simp
qed

definition optional_binding :: "bool \<Rightarrow> string \<Rightarrow> string \<Rightarrow> (string \<times> string) list" where
  "optional_binding present name v = (if present then [(quoted name, v)] else [])"

definition dock_bindings :: "DockSettings \<Rightarrow> string \<Rightarrow> (string \<times> string) list" where
  "dock_bindings d monitor =
     [(quoted ''edge'', quoted (DockEdgeName (dock_edge d))), (quoted ''monitor'', quoted monitor),
      (quoted ''mode'', quoted (if dock_mode d = ModeAutohide then ''autohide'' else ''fixed'')),
      (quoted ''thickness'', dec_string (unat (thicknessDips d)))]
     @ optional_binding (\<not> reserveWorkArea d) ''reserveWorkArea'' ''false''
     @ optional_binding (peekPixels d \<noteq> kDockDefaultPeekPixels) ''peek'' (dec_string (unat (peekPixels d)))
     @ optional_binding (revealDelayMilliseconds d \<noteq> kDockDefaultRevealDelayMilliseconds) ''revealDelayMilliseconds''
         (dec_string (unat (revealDelayMilliseconds d)))
     @ optional_binding (hideDelayMilliseconds d \<noteq> kDockDefaultHideDelayMilliseconds) ''hideDelayMilliseconds''
         (dec_string (unat (hideDelayMilliseconds d)))
     @ optional_binding (animationMilliseconds d \<noteq> kDockDefaultAnimationMilliseconds) ''animationMilliseconds''
         (dec_string (unat (animationMilliseconds d)))"

definition next_pair :: "string \<times> string \<Rightarrow> string" where
  "next_pair b = '','' @ line_pair b"

lemma joined_pairs: "joined (map line_pair (b # bs)) = line_pair b @ concat (map next_pair bs)"
  by (simp add: joined_Cons next_pair_def [abs_def] o_def del: joined.simps(3))

lemma optional_member_binding: "concat (map next_pair (optional_binding present name v)) = optional_member present name v"
  by (simp add: optional_binding_def optional_member_def next_pair_def line_pair_def)

lemma first_run_dock_line: "first_run_dock_text d monitor = line_object (dock_bindings d monitor)"
  unfolding line_object_def dock_bindings_def append_Cons joined_pairs
  by (simp add: optional_member_binding first_run_dock_text_def line_pair_def next_pair_def)

text \<open>What an object says about a dock: the value of each setting, or its default where the object leaves it out.\<close>

definition number_of :: "(string \<times> string) list \<Rightarrow> string \<Rightarrow> u32 \<Rightarrow> nat" where
  "number_of bs name fallback = (case map_of bs (quoted name) of None \<Rightarrow> unat fallback | Some v \<Rightarrow> dec_value v)"

definition says_dock :: "(string \<times> string) list \<Rightarrow> DockSettings \<Rightarrow> bool" where
  "says_dock bs d \<longleftrightarrow>
     map_of bs (quoted ''edge'') = Some (quoted (DockEdgeName (dock_edge d))) \<and>
     (\<exists>b. map_of bs (quoted ''monitor'') = Some (quoted b) \<and> decoded b = Some (map code (dock_monitor d))) \<and>
     map_of bs (quoted ''mode'') = Some (quoted (if dock_mode d = ModeAutohide then ''autohide'' else ''fixed'')) \<and>
     map_of bs (quoted ''reserveWorkArea'') = (if reserveWorkArea d then None else Some ''false'') \<and>
     number_of bs ''thickness'' kDockDefaultThicknessDips = unat (thicknessDips d) \<and>
     number_of bs ''peek'' kDockDefaultPeekPixels = unat (peekPixels d) \<and>
     number_of bs ''revealDelayMilliseconds'' kDockDefaultRevealDelayMilliseconds = unat (revealDelayMilliseconds d) \<and>
     number_of bs ''hideDelayMilliseconds'' kDockDefaultHideDelayMilliseconds = unat (hideDelayMilliseconds d) \<and>
     number_of bs ''animationMilliseconds'' kDockDefaultAnimationMilliseconds = unat (animationMilliseconds d)"

lemma quoted_eq [simp]: "quoted a = quoted b \<longleftrightarrow> a = b"
  by (simp add: quoted_def)

lemma map_of_optional:
  "map_of (optional_binding present name v @ bs) (quoted k) =
    (if present \<and> k = name then Some v else map_of bs (quoted k))"
  "map_of (optional_binding present name v) (quoted k) = (if present \<and> k = name then Some v else None)"
  by (auto simp: optional_binding_def)

lemma dock_bindings_say:
  assumes "escape_text (dock_monitor d) = Some monitor"
  shows "says_dock (dock_bindings d monitor) d"
  using escaped_text [OF assms] unfolding says_dock_def dock_bindings_def number_of_def
  by (simp add: map_of_optional del: map_of_append)

lemma quoted_string_text: "string_body b \<Longrightarrow> string_text (quoted b)"
  by (auto simp: string_text_def quoted_def)

lemma dock_bindings_ok:
  assumes "escape_text (dock_monitor d) = Some monitor"
  shows "\<forall>b \<in> set (dock_bindings d monitor). string_text (fst b) \<and> value_text (snd b)"
proof -
  have m: "value_text (quoted monitor)" using escaped_text [OF assms] quoted_string_text value_string by blast
  have w: "value_text ''false''" by (rule value_word) simp
  have "string_body (DockEdgeName e)" for e by (cases e) simp_all
  then have e: "value_text (quoted (DockEdgeName e))" for e using quoted_string_text value_string by blast
  have q: "value_text (quoted ''autohide'')" "value_text (quoted ''fixed'')"
    by (rule value_string, rule quoted_string_text, simp)+
  have o: "\<forall>b \<in> set (optional_binding present name v). string_text (fst b) \<and> value_text (snd b)"
    if "string_body name" "value_text v" for present name v
    using that quoted_string_text by (simp add: optional_binding_def)
  show ?thesis
    unfolding dock_bindings_def set_append ball_Un
    by (intro conjI o w dec_string_value) (simp_all add: m e q quoted_string_text dec_string_value)
qed

text \<open>The dock written on a first start reads back as that dock: the text is a well-formed object whose members give every
  setting of the dock, with the default for each one left out, and the monitor's name in spite of its escapes.\<close>

theorem first_run_dock_reads_back:
  assumes "escape_text (dock_monitor d) = Some monitor"
  shows "\<exists>ms. first_run_dock_text d monitor = object_text ms None \<and> object_ok ms None \<and> says_dock (bindings ms) d"
proof -
  have "dock_bindings d monitor \<noteq> []" by (simp add: dock_bindings_def)
  from line_object_is_object [OF this dock_bindings_ok [OF assms]]
  show ?thesis using dock_bindings_say [OF assms] by (auto simp: first_run_dock_line)
qed

definition studio_dock :: DockSettings where
  "studio_dock = DefaultDockSettings\<lparr>dock_edge := EdgeTop, dock_monitor := ''name:Studio '' @ quoted ''A'', peekPixels := 9\<rparr>"

theorem first_run_dock_reads_back_witness:
  "\<exists>monitor ms. escape_text (dock_monitor studio_dock) = Some monitor \<and> monitor \<noteq> dock_monitor studio_dock \<and>
    first_run_dock_text studio_dock monitor = object_text ms None \<and> says_dock (bindings ms) studio_dock"
proof -
  obtain monitor where m: "escape_text (dock_monitor studio_dock) = Some monitor" "monitor \<noteq> dock_monitor studio_dock"
    by (simp add: studio_dock_def quoted_def code_def)
  then show ?thesis using first_run_dock_reads_back [OF m(1)] by blast
qed

section \<open>A new thickness\<close>

text \<open>C18: a thickness that is saved changes nothing else: what is left in the settings' document parses to the document it
  was made from with only the dock's thickness and, where it was below, the minor version changed, and to the running
  dock with that thickness; in every other outcome but the one without a document the settings are untouched.\<close>

theorem saved_thickness_changes_nothing_else:
  assumes "\<forall>s e. parse s = Inl e \<longrightarrow> FAILED e" and "PatchDockThickness parse st thickness = (hr, st')"
  shows "if hr \<noteq> S_OK then st' = st
    else if sourceDocument st = [] then st' = st\<lparr>dock := (dock st)\<lparr>thicknessDips := thickness\<rparr>\<rparr>
    else \<exists>original patched. parse (sourceDocument st) = Inr original \<and> parse (sourceDocument st') = Inr patched \<and>
      patched\<lparr>sourceDocument := []\<rparr> = original\<lparr>dock := (dock original)\<lparr>thicknessDips := thickness\<rparr>,
        versionMinor := max (versionMinor original) kRedXeSettingsDockMinor, sourceDocument := []\<rparr> \<and>
      st' = st\<lparr>dock := (dock st)\<lparr>thicknessDips := thickness\<rparr>, versionMinor := versionMinor patched,
        sourceDocument := sourceDocument st'\<rparr> \<and>
      dock st' = dock patched \<and> length (sourceDocument st') \<le> kMaximumSettingsBytes"
proof -
  have ok: "\<not> FAILED S_OK" by (simp add: FAILED_def S_OK_def)
  have ne: "invalid_data \<noteq> S_OK" "invalid_argument \<noteq> S_OK" "S_FALSE \<noteq> S_OK" "HRESULT_FROM_WIN32 223 \<noteq> S_OK"
    by (simp_all add: invalid_data_def invalid_argument_def S_FALSE_def S_OK_def HRESULT_FROM_WIN32_def)
  have m: "max (versionMinor x) kRedXeSettingsDockMinor =
      (if versionMinor x < kRedXeSettingsDockMinor then kRedXeSettingsDockMinor else versionMinor x)" for x :: "'a app_settings"
    by (simp add: max_def)
  show ?thesis
  proof (cases "thickness < kDockMinimumThicknessDips \<or> thickness > kDockMaximumThicknessDips \<or>
      thicknessDips (dock st) = thickness \<or> sourceDocument st = []")
    case True
    then show ?thesis using assms(2) ne by (auto simp: PatchDockThickness_def split: if_splits)
  next
    case a: False
    show ?thesis
    proof (cases "parse (sourceDocument st)")
      case (Inl e)
      then show ?thesis using a assms ok by (auto simp: PatchDockThickness_def)
    next
      case b: (Inr original)
      let ?r = "versionMinor original < kRedXeSettingsDockMinor"
      show ?thesis
      proof (cases "ThicknessSource (sourceDocument st) (unat thickness) ?r")
        case None
        then show ?thesis using a b assms(2) ne by (auto simp: PatchDockThickness_def)
      next
        case c: (Some updated)
        show ?thesis
        proof (cases "parse updated")
          case (Inl e)
          then show ?thesis using a b c assms ok ne by (auto simp: PatchDockThickness_def split: if_splits)
        next
          case (Inr patched)
          then show ?thesis using a b c assms(2) ne m [of original]
            by (auto simp: PatchDockThickness_def Let_def split: if_splits)
        qed
      qed
    qed
  qed
qed

section \<open>Witnesses\<close>

definition peek_member :: text_member where
  "peek_member = \<lparr>m_lead = '' '', m_key = quoted ''peek'', m_colon = [], m_gap = '' '', m_value = ''4'', m_trail = '' /* px */ ''\<rparr>"

lemma peek_object_ok: "object_ok [peek_member] None"
proof -
  have "value_text ''4''" by (rule value_number) (simp_all add: number_char_def is_digit_def code_def)
  moreover have "trivia '' /* px */ ''"
    using trivia_append [OF trivia_blanks [of "'' ''"] trivia_block [of "'' px ''" "'' ''"]] trivia_blanks [of "'' ''"] by (simp add: blank_def)
  moreover have "trivia '' ''" by (rule trivia_blanks) (simp add: blank_def)
  ultimately show ?thesis
    using trivia_nil quoted_string_text [of "''peek''"] by (simp add: object_ok_def ending_ok_def member_shape_def peek_member_def)
qed

theorem patch_puts_binding_witness:
  "\<exists>ms ending. PatchSourceMember (object_text [peek_member] None) 0 (quoted ''thickness'') ''60'' = Some (object_text ms ending) \<and>
    bindings ms = [(quoted ''peek'', ''4''), (quoted ''thickness'', ''60'')]"
proof -
  have v: "value_text ''60''" by (rule value_number) (simp_all add: number_char_def is_digit_def code_def)
  have k: "string_text (quoted ''thickness'')" by (rule quoted_string_text) simp
  have "put_binding (quoted ''thickness'') ''60'' (bindings [peek_member]) = [(quoted ''peek'', ''4''), (quoted ''thickness'', ''60'')]"
    unfolding bindings_def peek_member_def by code_simp
  then show ?thesis using patch_puts_binding [OF peek_object_ok k v, of "[]" "[]"] by auto
qed

theorem patched_value_is_found_witness:
  "\<exists>source result. PatchSourceMember (object_text [peek_member] None) 0 (quoted ''peek'') ''9'' = Some source \<and>
    FindSourceMember source 0 (quoted ''peek'') = Some result \<and> substring (valueBegin result) (valueEnd result) source = ''9''"
proof -
  have v: "value_text ''9''" by (rule value_number) (simp_all add: number_char_def is_digit_def code_def)
  have n: "plain_name ''peek''" by code_simp
  have "list_all (\<lambda>ch. ch \<noteq> quote \<and> ch \<noteq> escape) ''peek''" by simp
  note k = plain_key_matches [OF n this]
  show ?thesis using patched_value_is_found [OF peek_object_ok k(2) v k(1), of "[]" "[]"] by auto
qed

text \<open>A document and a parser that reads it and its patched form.\<close>

definition small_document :: string where
  "small_document = ''{ // bar'' @ [LF] @ ''  '' @ quoted ''version'' @ '': { '' @ quoted ''minor'' @ '': 1 } }''"

definition small_patched :: string where
  "small_patched = ''{ // bar'' @ [LF] @ ''  '' @ quoted ''version'' @ '': { '' @ quoted ''minor'' @ '': 2 },'' @ [LF] @ ''  ''
     @ quoted ''dock'' @ '': { '' @ quoted ''thickness'' @ '': 96 } }''"

definition small_parse :: "string \<Rightarrow> hresult + unit app_settings" where
  "small_parse s =
     (if s = small_document then Inr \<lparr>versionMinor = 1, dock = DefaultDockSettings, sourceDocument = s, other_settings = ()\<rparr>
      else if s = small_patched then
        Inr \<lparr>versionMinor = 2, dock = DefaultDockSettings\<lparr>thicknessDips := 96\<rparr>, sourceDocument = s, other_settings = ()\<rparr>
      else Inl E_FAIL)"

definition small_settings :: "unit app_settings" where
  "small_settings = \<lparr>versionMinor = 1, dock = DefaultDockSettings, sourceDocument = small_document, other_settings = ()\<rparr>"

lemma small_source: "ThicknessSource small_document 96 True = Some small_patched"
  by code_simp

lemma small_run:
  "PatchDockThickness small_parse small_settings 96 =
   (S_OK, small_settings\<lparr>dock := DefaultDockSettings\<lparr>thicknessDips := 96\<rparr>, versionMinor := 2, sourceDocument := small_patched\<rparr>)"
proof -
  have ne: "small_patched \<noteq> small_document" "small_document \<noteq> []" by (simp_all add: small_document_def small_patched_def)
  have len: "length small_patched \<le> kMaximumSettingsBytes"
    by (simp add: small_patched_def kMaximumSettingsBytes_def quoted_def)
  show ?thesis
    using small_source ne len
    by (simp add: PatchDockThickness_def small_parse_def small_settings_def kRedXeSettingsDockMinor_def
        kDockMinimumThicknessDips_def kDockMaximumThicknessDips_def DefaultDockSettings_def kDockDefaultThicknessDips_def)
qed

theorem saved_thickness_changes_nothing_else_witness:
  "\<exists>patched. small_parse small_patched = Inr patched \<and> versionMinor patched = 2 \<and>
    dock patched = DefaultDockSettings\<lparr>thicknessDips := 96\<rparr> \<and>
    PatchDockThickness small_parse small_settings 96 = (S_OK, small_settings\<lparr>dock := dock patched, versionMinor := 2,
      sourceDocument := small_patched\<rparr>)"
proof -
  have f: "\<forall>s e. small_parse s = Inl e \<longrightarrow> FAILED e"
    by (auto simp: small_parse_def FAILED_def E_FAIL_def)
  have "sourceDocument small_settings = small_document" "small_document \<noteq> []"
    by (simp_all add: small_settings_def small_document_def)
  with saved_thickness_changes_nothing_else [OF f small_run]
  obtain original patched where p: "small_parse small_document = Inr original" "small_parse small_patched = Inr patched"
    "patched\<lparr>sourceDocument := []\<rparr> = original\<lparr>dock := (dock original)\<lparr>thicknessDips := 96\<rparr>,
        versionMinor := max (versionMinor original) kRedXeSettingsDockMinor, sourceDocument := []\<rparr>"
    by auto
  then have "versionMinor patched = 2" "dock patched = DefaultDockSettings\<lparr>thicknessDips := 96\<rparr>"
    by (auto simp: small_parse_def small_document_def small_patched_def kRedXeSettingsDockMinor_def)
  then show ?thesis using p(2) small_run by auto
qed

end
