(* ===== verification/Spec2Isabelle.thy ===== *)
theory Spec2Isabelle
  imports Dock_Reveal Widget_Status Action_Queue Logicon_Session Camera_Channel Launch_Worker Construction_Queue Control_Queue
    Profile_Rollback AV_Coordinator Patch_Correctness
begin

text \<open>
  RedXe is a Windows dashboard written in C++: a host process (\<open>src/RedXe\<close>) shows pages of widgets that plugin
  DLLs (\<open>src/Plugins\<close>) create, and can dock itself to an edge of a display as an app bar. This development models
  the logic of the host and of two plugins, the AV controls and the Logicon keypads, as far as it does not consist of
  calls into Windows, and proves what it promises. Each part is a shallow embedding: a structure of the code is a record,
  an enumeration a datatype, an integer a word of its width, a function a HOL function with the branches of the code,
  and a class that several threads use a step function over the steps between which another thread can come.

  \<^bold>\<open>The dock.\<close> \<open>Dock_Geometry\<close>, \<open>Dock_AppBar\<close> and \<open>Dock_Reveal\<close> model \<open>RedXe/DockPlacement.h\<close> and the members of
  \<open>Application\<close> that drive it: rectangles and messages, the app-bar registration with the shell, and the autohide bar with its
  timers, holds and slide. \<open>Display_Selection\<close> has the two searches for a display (\<open>SelectDockMonitor\<close> and the one of
  \<open>HostActions.cpp\<close>) and the choice of an adapter, \<open>Dock_Options\<close> the \<open>--dock\<close> switches, the effective settings and the first
  start, \<open>Command_Line\<close> the switch catalog of \<open>CommandLine.h\<close> and \<open>Main.cpp\<close>. The invariants are that the record of the
  app bar agrees with the shell, that exactly the timer of a pending state runs, and that a bar that stands still has
  the size of its state; a held bar stays, a released one hides.

  \<^bold>\<open>Work queues and threads.\<close> \<open>Construction_Queue\<close>, \<open>Control_Queue\<close> and \<open>Launch_Worker\<close> are
  \<open>ConstructionWorkQueue\<close>, \<open>ControlWorkQueue\<close> and \<open>LaunchWorker\<close>: a table of slots filled and drained by the UI
  thread and worked through by one worker. What the first two share is the locale \<open>work_lane\<close> of \<open>Work_Lane\<close>, with its
  round-robin fairness, interpreted on each. \<open>Work_Lane\<close> also has the reachable states (\<open>reaches\<close>) and the
  runs (\<open>run_events\<close>) that all step systems use. \<open>Action_Queue\<close> is the queue of host actions of \<open>PluginHost.cpp\<close> with the
  message that drains it, and \<open>Widget_Status\<close> the status table of the same class, which widgets read through bindings
  without a lock. The theorems say that accepted work is done once, in order, or reported, that a wake-up is never
  missing, and that a binding of an id that fits its entry never reads another widget's status. What \<open>Shutdown\<close> clears of both
  is part of them.

  \<^bold>\<open>Settings text.\<close> \<open>Json_Text\<close> is the scanner of \<open>SettingsJsonText.h\<close>, \<open>Json_Grammar\<close> the language it reads with the
  proof that it reads exactly one value, \<open>Settings_Patch\<close> the edits of \<open>Settings.cpp\<close> in the text of the user's file, and
  \<open>Patch_Correctness\<close> what they do: the new binding is in the document, everything else keeps its text. \<open>Text_Prelude\<close>
  holds the byte and text functions, \<open>Action_Targets\<close> the grammars of action targets (\<open>ActionTargets.cpp\<close>).

  \<^bold>\<open>AV controls.\<close> \<open>AV_Coordinator\<close> is \<open>Coordinator.cpp\<close>: commands of the UI by lane, a pending profile, and the
  worker that takes them one at a time, with the answers of the helper process as inputs. \<open>Profile_Transaction\<close> applies a
  profile command by command and rolls it back; over the interface \<open>av_backend\<close> it leaves the devices as they were or
  as the profile says, \<open>Profile_Fixture\<close> interprets that on the synthetic helper of \<open>BrokerMain.cpp\<close>, and \<open>Profile_Rollback\<close>
  proves that against it an undisturbed rollback is complete.
  \<open>Inventory_Selection\<close>, \<open>AV_Utf8\<close> and \<open>AV_Config\<close> are the bounded inventory, the validation of texts, and the stored
  profiles (\<open>InventorySelection.h\<close>, \<open>AVControlModel.cpp\<close>). \<open>Camera_Channel\<close> is the frame channel in memory that two
  processes share (\<open>CameraFrameChannel.cpp\<close>): whatever another process writes there, a shown frame is one of the current
  revision.

  \<^bold>\<open>Logicon.\<close> \<open>Logicon_Protocol\<close> builds and parses the HID++ reports (\<open>LogiconProtocol.cpp\<close>), \<open>Logicon_Device\<close> is the session
  over a port (\<open>LogiconDevice.cpp\<close>), \<open>Logicon_Synthetic\<close> the synthetic device (\<open>LogiconSynthetic.cpp\<close>). The locale
  \<open>reporting_device\<close> of \<open>Logicon_Restore\<close> says what a session relies on, and \<open>Logicon_Answers\<close> proves it for the synthetic
  device; \<open>Logicon_Session\<close> concludes that a device is left as it was found, what taps are counted, and how long a
  silent device can hold the lane.

  \<^bold>\<open>Parameters.\<close> What is not in the repository is an argument of the definitions: \<open>MulDiv\<close>, \<open>CompareStringOrdinal\<close>,
  \<open>WideCharToMultiByte\<close>, \<open>MultiByteToWideChar\<close>, the answers of the shell to app-bar messages (what it holds is a state
  of its own, which only the messages and a restart change), the clocks, the results of
  creating events, threads and processes, the reading and writing of JSON by yyjson (with it
  \<open>ParseAppSettingsJsonV5\<close>, which is built on it), the wait on a mutex, the operations of a HID collection, the answers of the
  helper process. The eased size of the dock slide is floating point and an input. Where a theorem needs more of a
  parameter than its type, it says so as a hypothesis, and the witness instantiates it.

  \<^bold>\<open>Bounds and fuel.\<close> The tables have the capacities of the code. Loops over text are structural or carry the length of
  the text as fuel, of which each turn uses one for at least one character: \<open>skip_value_depth\<close>, \<open>find_members\<close>, \<open>remove_examples\<close>.
  Waiting for the answer of a device has no bound of its own in the code, so \<open>await_answer\<close> is a \<open>partial_function\<close>, and its
  termination is a theorem about the clock. A drain of a device port reads at most 64 reports, as in the code; the placement
  passes of the dock end after the extra passes the code allows, and the coordinator after at most six turns.

  \<^bold>\<open>Not modelled.\<close> Drawing, layout in floating point (page navigation, launcher pages, easing), Direct3D, shell items,
  performance counters, HTTP and the hardware backends: they are calls into Windows whose answers are all there is to
  them. The settings document as yyjson reads it, the loading of plugin modules and COM lifetimes. Failures of memory
  allocation appear where the code returns them, not as \<open>std::bad_alloc\<close>. Memory orders of atomics are
  taken as sequentially consistent, and a lock as one step.
\<close>

end
